(* ===== verification/Go_Strings.thy ===== *)
theory Go_Strings
  imports Main "HOL-Library.List_Lexorder" "HOL-Library.Char_ord"
begin

text \<open>
  The part of Go's \<open>strings\<close>, \<open>strconv\<close>, \<open>sort\<close> and \<open>slices\<close> packages that rootline uses.
  A Go string is a sequence of bytes, so it is a \<^typ>\<open>string\<close> (a list of 8-bit characters) here
  and \<open>length\<close> counts bytes, as Go's \<open>len\<close> does. Go compares strings byte by byte, which is the
  lexicographic order of \<open>List_Lexorder\<close> over \<open>Char_ord\<close>.
  Functions that Go defines over Unicode classes (\<open>TrimSpace\<close>, \<open>ToLower\<close>, \<open>Quote\<close>) are
  modelled on their ASCII part; bytes of multi-byte runes are passed through unchanged.
\<close>

section \<open>Collections of rules\<close>

named_theorems str_simps \<open>equations of the string operations\<close>
named_theorems det_intros \<open>rules that show a result does not depend on map iteration order\<close>

section \<open>Prefixes and suffixes\<close>

fun has_prefix :: "string \<Rightarrow> string \<Rightarrow> bool" where
  "has_prefix s [] = True"
| "has_prefix [] (c # p) = False"
| "has_prefix (x # s) (c # p) = (x = c \<and> has_prefix s p)"

definition has_suffix :: "string \<Rightarrow> string \<Rightarrow> bool" where
  "has_suffix s p = has_prefix (rev s) (rev p)"

definition trim_prefix :: "string \<Rightarrow> string \<Rightarrow> string" where
  "trim_prefix s p = (if has_prefix s p then drop (length p) s else s)"

definition trim_suffix :: "string \<Rightarrow> string \<Rightarrow> string" where
  "trim_suffix s p = (if has_suffix s p then take (length s - length p) s else s)"

lemma has_prefix_iff: "has_prefix s p \<longleftrightarrow> (\<exists>r. s = p @ r)"
  by (induction s p rule: has_prefix.induct) auto

lemma has_prefix_append [simp]: "has_prefix (p @ s) p"
  by (auto simp: has_prefix_iff)

lemma has_prefix_refl [simp]: "has_prefix s s"
  by (auto simp: has_prefix_iff)

lemma has_prefixE:
  assumes "has_prefix s p" obtains r where "s = p @ r"
  using assms by (auto simp: has_prefix_iff)

lemma has_prefix_length: "has_prefix s p \<Longrightarrow> length p \<le> length s"
  by (auto simp: has_prefix_iff)

lemma has_suffix_iff: "has_suffix s p \<longleftrightarrow> (\<exists>r. s = r @ p)"
proof
  assume "has_suffix s p"
  then obtain r where "rev s = rev p @ r"
    by (auto simp: has_suffix_def has_prefix_iff)
  then have "s = rev r @ p"
    by (metis rev_append rev_rev_ident)
  then show "\<exists>r. s = r @ p" ..
qed (auto simp: has_suffix_def has_prefix_iff)

lemma has_suffix_append [simp]: "has_suffix (s @ p) p"
  by (auto simp: has_suffix_iff)

lemma trim_prefix_append [simp]: "trim_prefix (p @ s) p = s"
  by (simp add: trim_prefix_def)

lemma trim_suffix_append [simp]: "trim_suffix (s @ p) p = s"
  by (simp add: trim_suffix_def)

section \<open>Searching\<close>

text \<open>\<open>strings.Index\<close>: the position of the first occurrence, \<open>None\<close> for Go's \<open>-1\<close>.\<close>

fun index_of :: "string \<Rightarrow> string \<Rightarrow> nat option" where
  "index_of [] sub = (if sub = [] then Some 0 else None)"
| "index_of (c # cs) sub =
     (if has_prefix (c # cs) sub then Some 0 else map_option Suc (index_of cs sub))"

definition str_contains :: "string \<Rightarrow> string \<Rightarrow> bool" where
  "str_contains s sub = (index_of s sub \<noteq> None)"

lemma index_of_SomeD:
  "index_of s sub = Some i \<Longrightarrow> s = take i s @ sub @ drop (i + length sub) s"
  by (induction s arbitrary: i)
    (auto simp: has_prefix_iff split: if_splits)

lemma index_of_le: "index_of s sub = Some i \<Longrightarrow> i + length sub \<le> length s"
  by (induction s arbitrary: i)
    (auto dest: has_prefix_length split: if_splits)

lemma index_of_None_iff: "index_of s sub = None \<longleftrightarrow> (\<forall>a b. s \<noteq> a @ sub @ b)"
proof (induction s)
  case (Cons c cs)
  show ?case
  proof (cases "has_prefix (c # cs) sub")
    case True
    then show ?thesis
      by (auto simp: has_prefix_iff intro: exI [of _ "[]"])
  next
    case False
    then have "(\<exists>a b. c # cs = a @ sub @ b) \<longleftrightarrow> (\<exists>a b. cs = a @ sub @ b)"
      by (auto simp: has_prefix_iff Cons_eq_append_conv)
    with False Cons show ?thesis by auto
  qed
qed auto

lemma str_contains_iff: "str_contains s sub \<longleftrightarrow> (\<exists>a b. s = a @ sub @ b)"
  using index_of_None_iff [of s sub] by (simp add: str_contains_def)

text \<open>\<open>strings.LastIndex\<close> of a single character.\<close>

definition last_index_char :: "string \<Rightarrow> char \<Rightarrow> nat option" where
  "last_index_char s c =
     (case index_of (rev s) [c] of None \<Rightarrow> None | Some i \<Rightarrow> Some (length s - 1 - i))"

text \<open>\<open>strings.IndexAny\<close>: the first position holding one of the given characters.\<close>

fun index_any :: "string \<Rightarrow> char list \<Rightarrow> nat option" where
  "index_any [] cs = None"
| "index_any (x # xs) cs = (if x \<in> set cs then Some 0 else map_option Suc (index_any xs cs))"

text \<open>\<open>strings.Cut\<close> at a one-character separator.\<close>

definition str_cut :: "string \<Rightarrow> char \<Rightarrow> string \<times> string \<times> bool" where
  "str_cut s c =
     (case index_of s [c] of
        None \<Rightarrow> (s, [], False)
      | Some i \<Rightarrow> (take i s, drop (i + 1) s, True))"

section \<open>Splitting and joining\<close>

text \<open>\<open>strings.Split\<close> at a one-character separator: always at least one part.\<close>

fun split_on :: "char \<Rightarrow> string \<Rightarrow> string list" where
  "split_on c [] = [[]]"
| "split_on c (x # xs) =
     (if x = c then [] # split_on c xs
      else (case split_on c xs of [] \<Rightarrow> [[x]] | l # ls \<Rightarrow> (x # l) # ls))"

fun join_with :: "string \<Rightarrow> string list \<Rightarrow> string" where
  "join_with sep [] = []"
| "join_with sep [x] = x"
| "join_with sep (x # y # ys) = x @ sep @ join_with sep (y # ys)"

lemma split_on_nonempty [simp]: "split_on c s \<noteq> []"
  by (cases s) (auto split: list.splits)

lemma split_on_no_sep: "c \<notin> set s \<Longrightarrow> split_on c s = [s]"
  by (induction s) auto

lemma split_on_parts: "p \<in> set (split_on c s) \<Longrightarrow> c \<notin> set p"
  by (induction s arbitrary: p) (auto split: list.splits if_splits)

lemma join_split_on: "join_with [c] (split_on c s) = s"
proof (induction s)
  case (Cons x xs)
  show ?case
  proof (cases "x = c")
    case True
    then show ?thesis using Cons by (cases "split_on c xs") auto
  next
    case False
    then show ?thesis using Cons
      by (cases "split_on c xs" rule: list.exhaust; cases "tl (split_on c xs)") auto
  qed
qed simp

lemma split_on_append:
  "c \<notin> set a \<Longrightarrow> split_on c (a @ c # b) = a # split_on c b"
  by (induction a) auto

lemma split_join:
  "xs \<noteq> [] \<Longrightarrow> (\<And>x. x \<in> set xs \<Longrightarrow> c \<notin> set x) \<Longrightarrow> split_on c (join_with [c] xs) = xs"
  by (induction "[c]" xs rule: join_with.induct) (auto simp: split_on_no_sep split_on_append)

section \<open>Trimming and case\<close>

definition is_space :: "char \<Rightarrow> bool" where
  "is_space c = (of_char c \<in> {9 :: nat, 10, 11, 12, 13, 32})"

definition trim_left_chars :: "char list \<Rightarrow> string \<Rightarrow> string" where
  "trim_left_chars cs s = dropWhile (\<lambda>c. c \<in> set cs) s"

definition trim_right_chars :: "char list \<Rightarrow> string \<Rightarrow> string" where
  "trim_right_chars cs s = rev (dropWhile (\<lambda>c. c \<in> set cs) (rev s))"

definition trim_space :: "string \<Rightarrow> string" where
  "trim_space s = rev (dropWhile is_space (rev (dropWhile is_space s)))"

definition char_lower :: "char \<Rightarrow> char" where
  "char_lower c =
     (let n = of_char c :: nat in if 65 \<le> n \<and> n \<le> 90 then char_of (n + 32) else c)"

definition to_lower :: "string \<Rightarrow> string" where
  "to_lower s = map char_lower s"

definition is_digit :: "char \<Rightarrow> bool" where
  "is_digit c = (let n = of_char c :: nat in 48 \<le> n \<and> n \<le> 57)"

lemma dropWhile_all_set: "x \<in> set (dropWhile P xs) \<Longrightarrow> x \<in> set xs"
  by (drule set_dropWhileD) simp

lemma set_trim_space: "set (trim_space s) \<subseteq> set s"
  by (auto simp: trim_space_def dest!: dropWhile_all_set)

lemma dropWhile_snoc_id:
  "xs = [] \<or> \<not> P (hd xs) \<Longrightarrow> dropWhile P xs = xs"
  by (cases xs) auto

lemma trim_space_id:
  assumes "s = [] \<or> (\<not> is_space (hd s) \<and> \<not> is_space (last s))"
  shows "trim_space s = s"
  using assms by (auto simp: trim_space_def dropWhile_snoc_id hd_rev)

section \<open>Decimal numbers\<close>

fun nat_digits :: "nat \<Rightarrow> string" where
  "nat_digits n =
     (if n < 10 then [char_of (48 + n)] else nat_digits (n div 10) @ [char_of (48 + n mod 10)])"

declare nat_digits.simps [simp del]

definition itoa :: "int \<Rightarrow> string" where
  "itoa i = (if i < 0 then CHR ''-'' # nat_digits (nat (- i)) else nat_digits (nat i))"

text \<open>\<open>strconv.Atoi\<close> on a run of digits (the caller has already matched them).\<close>

definition digit_val :: "char \<Rightarrow> nat" where
  "digit_val c = of_char c - 48"

fun nat_of_digits :: "string \<Rightarrow> nat \<Rightarrow> nat" where
  "nat_of_digits [] acc = acc"
| "nat_of_digits (c # cs) acc = nat_of_digits cs (10 * acc + digit_val c)"

text \<open>\<open>fmt.Sprintf("%0*d", width, n)\<close> for a non-negative number.\<close>

definition pad_zero :: "nat \<Rightarrow> nat \<Rightarrow> string" where
  "pad_zero width n =
     (let ds = nat_digits n in replicate (width - length ds) (CHR ''0'') @ ds)"

lemma nat_digits_is_digit: "\<forall>c \<in> set (nat_digits n). is_digit c"
proof (induction n rule: nat_digits.induct)
  case (1 n)
  have d: "k < 10 \<Longrightarrow> is_digit (char_of (48 + k))" for k :: nat
    by (simp add: is_digit_def)
  show ?case
  proof (cases "n < 10")
    case True
    then show ?thesis by (subst nat_digits.simps) (simp add: d)
  next
    case False
    with 1 show ?thesis by (subst nat_digits.simps) (simp add: d)
  qed
qed

lemma nat_digits_nonempty [simp]: "nat_digits n \<noteq> []"
  by (subst nat_digits.simps) simp

lemma nat_of_digits_append:
  "nat_of_digits (xs @ ys) acc = nat_of_digits ys (nat_of_digits xs acc)"
  by (induction xs arbitrary: acc) auto

lemma nat_of_digits_nat_digits: "nat_of_digits (nat_digits n) 0 = n"
proof (induction n rule: nat_digits.induct)
  case (1 n)
  have d: "k < 10 \<Longrightarrow> digit_val (char_of (48 + k)) = k" for k :: nat
    by (simp add: digit_val_def)
  show ?case
  proof (cases "n < 10")
    case True
    then show ?thesis by (subst nat_digits.simps) (simp add: d)
  next
    case False
    with 1 have "nat_of_digits (nat_digits (n div 10)) 0 = n div 10" by simp
    with False show ?thesis
      by (subst nat_digits.simps) (simp add: nat_of_digits_append d)
  qed
qed

lemma nat_of_digits_zeros:
  "nat_of_digits (replicate k (CHR ''0'') @ xs) 0 = nat_of_digits xs 0"
  by (induction k) (auto simp: digit_val_def)

lemma nat_of_digits_pad_zero: "nat_of_digits (pad_zero w n) 0 = n"
  by (simp add: pad_zero_def Let_def nat_of_digits_zeros nat_of_digits_nat_digits)

lemma pad_zero_is_digit: "c \<in> set (pad_zero w n) \<Longrightarrow> is_digit c"
  using nat_digits_is_digit [of n] by (auto simp: pad_zero_def Let_def is_digit_def)

lemma length_pad_zero: "length (pad_zero w n) = max w (length (nat_digits n))"
  by (simp add: pad_zero_def Let_def)

end
