(* ===== verification/Go_Values.thy ===== *)
theory Go_Values
  imports Go_Strings "HOL-Library.AList"
begin

text \<open>
  Go values as rootline meets them: the untyped values YAML decodes to (\<open>any\<close>), maps with string
  keys, errors, and the printing verbs \<open>%v\<close> and \<open>%q\<close> of \<open>fmt\<close>.

  A Go map is an association list: its order stands for one iteration order of the map, which Go
  leaves unspecified, so a theorem that a function gives the same result for two lists with the
  same \<^const>\<open>map_of\<close> is the statement that the Go code does not leak map order.
\<close>

section \<open>Dynamic values\<close>

text \<open>
  The values \<open>gopkg.in/yaml.v3\<close> produces for an \<open>any\<close>. A float and a timestamp are carried by the
  text \<open>fmt\<close> prints for them, which is all the modelled code reads of them.
\<close>

datatype val =
    VNull
  | VBool bool
  | VInt int
  | VFloat string
  | VTime string
  | VStr string
  | VList "val list"
  | VMap "(string \<times> val) list"

type_synonym vmap = "(string \<times> val) list"

section \<open>Maps with string keys\<close>

definition sorted_keys :: "(string \<times> 'a) list \<Rightarrow> string list" where
  "sorted_keys m = sort (remdups (map fst m))"

lemma set_sorted_keys [simp]: "set (sorted_keys m) = dom (map_of m)"
  by (simp add: sorted_keys_def dom_map_of_conv_image_fst)

lemma sorted_sorted_keys [simp]: "sorted (sorted_keys m)"
  by (simp add: sorted_keys_def)

lemma distinct_sorted_keys [simp]: "distinct (sorted_keys m)"
  by (simp add: sorted_keys_def)

lemma sorted_keys_cong:
  "dom (map_of m) = dom (map_of m') \<Longrightarrow> sorted_keys m = sorted_keys m'"
  by (rule sorted_distinct_set_unique) simp_all

lemma sorted_keys_map_of_cong [det_intros]:
  "map_of m = map_of m' \<Longrightarrow> sorted_keys m = sorted_keys m'"
  by (rule sorted_keys_cong) simp

lemma sorted_keys_Nil [simp]: "sorted_keys [] = []"
  by (simp add: sorted_keys_def)

lemma sorted_keys_eq_Nil [simp]: "sorted_keys m = [] \<longleftrightarrow> m = []"
  by (cases m) (auto simp: sorted_keys_def dest: arg_cong [where f = set])

definition has_key :: "(string \<times> 'a) list \<Rightarrow> string \<Rightarrow> bool" where
  "has_key m k = (map_of m k \<noteq> None)"

text \<open>Copying a map and then storing the entries of another one, the later ones winning.\<close>

definition map_overlay :: "(string \<times> 'a) list \<Rightarrow> (string \<times> 'a) list \<Rightarrow> (string \<times> 'a) list" where
  "map_overlay parent child = AList.merge parent child"

lemma map_of_overlay [simp]: "map_of (map_overlay p c) = map_of p ++ map_of c"
  by (simp add: map_overlay_def merge_conv')

text \<open>Applying a function to every value of a map.\<close>

definition map_vals :: "(string \<Rightarrow> 'a \<Rightarrow> 'b) \<Rightarrow> (string \<times> 'a) list \<Rightarrow> (string \<times> 'b) list" where
  "map_vals f m = map (\<lambda>(k, v). (k, f k v)) m"

lemma map_of_map_vals [simp]: "map_of (map_vals f m) k = map_option (f k) (map_of m k)"
  by (induction m) (auto simp: map_vals_def)

lemma map_vals_eq_Nil [simp]: "map_vals f m = [] \<longleftrightarrow> m = []"
  by (simp add: map_vals_def)

section \<open>Printing with \<open>fmt\<close>\<close>

text \<open>The verb \<open>%v\<close>: maps print with their keys sorted, strings print bare.\<close>

function fmt_v :: "val \<Rightarrow> string" where
  "fmt_v VNull = ''<nil>''"
| "fmt_v (VBool b) = (if b then ''true'' else ''false'')"
| "fmt_v (VInt i) = itoa i"
| "fmt_v (VFloat s) = s"
| "fmt_v (VTime s) = s"
| "fmt_v (VStr s) = s"
| "fmt_v (VList xs) = ''['' @ join_with '' '' (map fmt_v xs) @ '']''"
| "fmt_v (VMap m) =
     ''map['' @ join_with '' ''
       (map snd (sort_key fst (map (\<lambda>p. (fst p, fst p @ '':'' @ fmt_v (snd p))) m))) @ '']''"
  by pat_completeness auto

lemma size_snd_val: "p \<in> set m \<Longrightarrow> size (snd p) < Suc (size_list (size_prod (\<lambda>_. 0) size) m)"
  by (induction m) auto

termination fmt_v
  by (relation "measure size")
    (auto dest: size_list_estimation' [of _ _ _ size, OF _ order_refl] size_snd_val)

text \<open>The verb \<open>%v\<close> of a string slice.\<close>

definition fmt_strs :: "string list \<Rightarrow> string" where
  "fmt_strs xs = ''['' @ join_with '' '' xs @ '']''"

text \<open>
  The verb \<open>%q\<close> (\<open>strconv.Quote\<close>): double quotes around the text, with the quote, the backslash
  and control characters escaped. Characters beyond ASCII are taken to be printable; the library escapes those
  that are not.
\<close>

definition hex_digit :: "nat \<Rightarrow> char" where
  "hex_digit n = (if n < 10 then char_of (48 + n) else char_of (87 + n))"

definition quote_char :: "char \<Rightarrow> string" where
  "quote_char c =
     (let n = of_char c :: nat in
      if n = 34 \<or> n = 92 then [CHR 0x5C, c]
      else if n = 7 then [CHR 0x5C, CHR ''a'']
      else if n = 8 then [CHR 0x5C, CHR ''b'']
      else if n = 12 then [CHR 0x5C, CHR ''f'']
      else if n = 10 then [CHR 0x5C, CHR ''n'']
      else if n = 13 then [CHR 0x5C, CHR ''r'']
      else if n = 9 then [CHR 0x5C, CHR ''t'']
      else if n = 11 then [CHR 0x5C, CHR ''v'']
      else if n < 32 \<or> n = 127 then
        [CHR 0x5C, CHR ''x'', hex_digit (n div 16), hex_digit (n mod 16)]
      else [c])"

definition go_quote :: "string \<Rightarrow> string" where
  "go_quote s = CHR 0x22 # concat (map quote_char s) @ [CHR 0x22]"

text \<open>The verb \<open>%T\<close>.\<close>

fun type_verb :: "val \<Rightarrow> string" where
  "type_verb VNull = ''<nil>''"
| "type_verb (VBool b) = ''bool''"
| "type_verb (VInt i) = ''int''"
| "type_verb (VFloat f) = ''float64''"
| "type_verb (VTime t) = ''time.Time''"
| "type_verb (VStr s) = ''string''"
| "type_verb (VList xs) = ''[]interface {}''"
| "type_verb (VMap m) = ''map[string]interface {}''"

section \<open>Errors\<close>

text \<open>
  Go errors: the sentinel \<open>ErrNoSchemaFound\<close>, a leaf error with its text, \<open>%w\<close> wrapping, and the
  classified parse error of a stem (\<open>stemParseError\<close>: path, check, field and reason).
  \<open>errors.Is(err, ErrNoSchemaFound)\<close> and \<open>errors.As\<close> look through the wrapping.
\<close>

datatype go_error = NoSchemaFound | Err string | Wrapped string go_error
  | StemError string string string string

fun is_no_schema :: "go_error \<Rightarrow> bool" where
  "is_no_schema NoSchemaFound = True"
| "is_no_schema (Err _) = False"
| "is_no_schema (Wrapped _ e) = is_no_schema e"
| "is_no_schema (StemError _ _ _ _) = False"

fun stem_error_of :: "go_error \<Rightarrow> (string \<times> string \<times> string) option" where
  "stem_error_of NoSchemaFound = None"
| "stem_error_of (Err _) = None"
| "stem_error_of (Wrapped _ e) = stem_error_of e"
| "stem_error_of (StemError _ check field reason) = Some (check, field, reason)"

fun error_text :: "go_error \<Rightarrow> string" where
  "error_text NoSchemaFound =
     ''no .stem file found in the directory chain; run 'rootline init' to create one''"
| "error_text (Err m) = m"
| "error_text (Wrapped m e) = m @ '': '' @ error_text e"
| "error_text (StemError path _ _ reason) =
     (if path = [] then reason else ''parsing '' @ path @ '': '' @ reason)"

text \<open>A loop over a list whose body may return an error: the first error stops the loop.\<close>

fun try_map :: "('a \<Rightarrow> 'e + 'b) \<Rightarrow> 'a list \<Rightarrow> 'e + 'b list" where
  "try_map f [] = Inr []"
| "try_map f (x # xs) =
     (case f x of
        Inl e \<Rightarrow> Inl e
      | Inr y \<Rightarrow> (case try_map f xs of Inl e \<Rightarrow> Inl e | Inr ys \<Rightarrow> Inr (y # ys)))"

lemma try_map_InrD:
  "try_map f xs = Inr ys \<Longrightarrow> length ys = length xs \<and> (\<forall>i < length xs. f (xs ! i) = Inr (ys ! i))"
proof (induction xs arbitrary: ys)
  case (Cons x xs)
  then obtain y zs where "f x = Inr y" "try_map f xs = Inr zs" "ys = y # zs"
    by (auto split: sum.splits)
  with Cons.IH show ?case by (auto simp: nth_Cons split: nat.split)
qed simp

lemma try_map_InlD: "try_map f xs = Inl e \<Longrightarrow> \<exists>x \<in> set xs. f x = Inl e"
  by (induction xs) (auto split: sum.splits)

lemma try_map_cong [fundef_cong]:
  "xs = ys \<Longrightarrow> (\<And>x. x \<in> set ys \<Longrightarrow> f x = g x) \<Longrightarrow> try_map f xs = try_map g ys"
proof (induction xs arbitrary: ys)
  case (Cons x xs)
  have "try_map f xs = try_map g xs" by (rule Cons.IH) (use Cons.prems in auto)
  moreover have "f x = g x" using Cons.prems by auto
  ultimately show ?case unfolding Cons.prems(1) [symmetric] by (simp split: sum.split)
qed simp

end
