(* ===== verification/Frontmatter.thy ===== *)
theory Frontmatter
  imports Go_Values "HOL-Library.Multiset"
begin

text \<open>
  The leading YAML block of a document: where it starts and ends
  (\<open>internal/extract/frontmatter.go\<close>), the structural check on it
  (\<open>ValidateStructure\<close> in \<open>internal/rules/validate.go\<close>), the permissive fallback parser of
  \<open>internal/extract/extract.go\<close>, the byte-preserving field rename of \<open>internal/migrate/rename.go\<close>,
  and the rewrite of the block by \<open>internal/fix/fix.go\<close>.

  Offsets are byte offsets into the document, as in the code. The YAML re-rendering of an existing
  block (\<open>renderPreservedFrontmatter\<close>, which drives \<open>yaml.Node\<close>) and \<open>yaml.Marshal\<close> are
  parameters of the rewrite.
\<close>

abbreviation (input) LF :: char where "LF \<equiv> CHR 0x0A"
abbreviation (input) CR :: char where "CR \<equiv> CHR 0x0D"

definition bom :: string where
  "bom = [char_of (239 :: nat), char_of (187 :: nat), char_of (191 :: nat)]"

text \<open>The slice \<open>doc[a:b]\<close>.\<close>

definition slice :: "string \<Rightarrow> nat \<Rightarrow> nat \<Rightarrow> string" where
  "slice t a b = take (b - a) (drop a t)"

lemma slice_append_left [simp]: "b \<le> length s \<Longrightarrow> slice (s @ t) a b = slice s a b"
  by (auto simp: slice_def)

lemma slice_append_right [simp]:
  "slice (s @ t) (length s + a) (length s + b) = slice t a b"
  by (simp add: slice_def)

lemma slice_0_append [simp]: "slice (s @ t) 0 (length s) = s"
  by (simp add: slice_def)

lemma length_slice: "a \<le> b \<Longrightarrow> b \<le> length t \<Longrightarrow> length (slice t a b) = b - a"
  by (simp add: slice_def)

section \<open>Lines and fences\<close>

definition scan_line :: "string \<Rightarrow> nat \<Rightarrow> nat \<times> nat" where
  "scan_line doc pos =
     (case index_of (drop pos doc) [LF] of
        None \<Rightarrow> (length doc, length doc)
      | Some nl \<Rightarrow> (pos + nl, pos + nl + 1))"

definition trim_cr :: "string \<Rightarrow> string" where
  "trim_cr line = trim_suffix line [CR]"

definition fence_info :: "string \<Rightarrow> (char \<times> nat) option" where
  "fence_info line =
     (case line of
        [] \<Rightarrow> None
      | c # _ \<Rightarrow>
          if c \<noteq> CHR ''`'' \<and> c \<noteq> CHR ''~'' then None
          else let run_len = length (takeWhile (\<lambda>x. x = c) line) in
            if run_len < 3 then None else Some (c, run_len))"

lemma scan_line_bounds:
  assumes "pos < length doc" "scan_line doc pos = (line_end, next)"
  shows "pos \<le> line_end \<and> line_end \<le> length doc \<and> pos < next \<and> next \<le> length doc
         \<and> line_end \<le> next"
  using assms index_of_le [of "drop pos doc" "[LF]"]
  by (fastforce simp: scan_line_def split: option.splits)

lemma index_of_char_append:
  "c \<notin> set a \<Longrightarrow> index_of (a @ c # b) [c] = Some (length a)"
  by (induction a) auto

lemma index_of_char_None: "c \<notin> set a \<Longrightarrow> index_of a [c] = None"
  by (induction a) auto

lemma scan_line_at:
  assumes "LF \<notin> set l"
  shows "scan_line (a @ l @ LF # b) (length a) = (length a + length l, length a + length l + 1)"
  using assms by (simp add: scan_line_def index_of_char_append)

lemma scan_line_append:
  assumes "scan_line t pos = (le, nx)" "pos < length t" "le < nx"
  shows "scan_line (t @ more) pos = (le, nx)"
proof -
  have "index_of (drop pos t) [LF] \<noteq> None"
    using assms by (auto simp: scan_line_def split: option.splits)
  then obtain nl where nl: "index_of (drop pos t) [LF] = Some nl" by auto
  have "index_of (s @ r) [LF] = Some n" if "index_of s [LF] = Some n" for s r n
    using that by (induction s arbitrary: n) (auto split: if_splits)
  from this [OF nl] assms show ?thesis
    by (simp add: scan_line_def nl)
qed

section \<open>\<open>FrontmatterBounds\<close>\<close>

type_synonym fence = "(char \<times> nat) option"

text \<open>The fence state after a line: the fenced and opening cases of the switch.\<close>

definition fence_step :: "fence \<Rightarrow> string \<Rightarrow> fence" where
  "fence_step fence line =
     (case fence of
        Some (fc, fl) \<Rightarrow>
          (case fence_info line of
             Some (c, n) \<Rightarrow> if c = fc \<and> n \<ge> fl then None else fence
           | None \<Rightarrow> fence)
      | None \<Rightarrow> fence_info line)"

text \<open>The last case of the switch: the line that closes the block.\<close>

definition closes_block :: "fence \<Rightarrow> string \<Rightarrow> bool" where
  "closes_block fence line = (fence = None \<and> fence_info line = None \<and> line = ''---'')"

function bounds_loop :: "string \<Rightarrow> nat \<Rightarrow> fence \<Rightarrow> nat \<Rightarrow> (nat \<times> nat \<times> nat) option" where
  "bounds_loop doc start fence pos =
     (if pos < length doc then
        (let line_end = fst (scan_line doc pos); next = snd (scan_line doc pos);
             line = trim_cr (slice doc pos line_end)
         in if closes_block fence line then Some (start, pos, next)
            else bounds_loop doc start (fence_step fence line) next)
      else None)"
  by pat_completeness auto
termination
proof (relation "measure (\<lambda>(doc, start, fence, pos). length doc - pos)", goal_cases)
  case 1
  then show ?case by simp
qed (use scan_line_bounds [OF _ prod.collapse [symmetric]] in \<open>force intro: diff_less_mono2\<close>)+

declare bounds_loop.simps [simp del]

definition frontmatter_bounds :: "string \<Rightarrow> (nat \<times> nat \<times> nat) option" where
  "frontmatter_bounds doc =
     (let line_end = fst (scan_line doc 0); line_next = snd (scan_line doc 0) in
      if trim_cr (slice doc 0 line_end) \<noteq> ''---'' then None
      else bounds_loop doc line_next None line_next)"


text \<open>What a successful scan returns: a closing delimiter line at the end offset.\<close>

definition delimiter_at :: "string \<Rightarrow> nat \<Rightarrow> nat \<Rightarrow> bool" where
  "delimiter_at doc e n =
     (e < length doc \<and> n = snd (scan_line doc e) \<and>
      trim_cr (slice doc e (fst (scan_line doc e))) = ''---'')"

lemma bounds_loop_sound:
  "bounds_loop doc start fence pos = Some (s, e, n) \<Longrightarrow>
     s = start \<and> pos \<le> e \<and> delimiter_at doc e n"
proof (induction doc start fence pos rule: bounds_loop.induct)
  case (1 doc start fence pos)
  let ?line = "trim_cr (slice doc pos (fst (scan_line doc pos)))"
  from "1.prems" have pos: "pos < length doc"
    by (auto simp: bounds_loop.simps [of doc start fence pos] split: if_splits)
  note sb = scan_line_bounds [OF pos prod.collapse [symmetric]]
  show ?case
  proof (cases "closes_block fence ?line")
    case True
    with "1.prems" pos show ?thesis
      by (auto simp: bounds_loop.simps [of doc start fence pos] Let_def delimiter_at_def
          closes_block_def)
  next
    case False
    with "1.prems" pos have "bounds_loop doc start (fence_step fence ?line) (snd (scan_line doc pos)) =
        Some (s, e, n)"
      by (simp add: bounds_loop.simps [of doc start fence pos] Let_def)
    from "1.IH" [OF pos refl refl refl False this] sb show ?thesis by simp
  qed
qed

text \<open>The fence state after some lines; \<open>None\<close> when one of them closes the block.\<close>

fun fence_after :: "fence \<Rightarrow> string list \<Rightarrow> fence option" where
  "fence_after f [] = Some f"
| "fence_after f (l # ls) =
     (if closes_block f (trim_cr l) then None else fence_after (fence_step f (trim_cr l)) ls)"

definition unlines :: "string list \<Rightarrow> string" where
  "unlines ls = concat (map (\<lambda>l. l @ [LF]) ls)"

lemma unlines_simps [simp]:
  "unlines [] = []" "unlines (l # ls) = l @ LF # unlines ls"
  by (simp_all add: unlines_def)

lemma bounds_loop_at:
  assumes "LF \<notin> set l"
  shows "bounds_loop (a @ l @ LF # b) start fence (length a) =
    (if closes_block fence (trim_cr l) then Some (start, length a, length (a @ l @ [LF]))
     else bounds_loop (a @ l @ LF # b) start (fence_step fence (trim_cr l)) (length (a @ l @ [LF])))"
proof -
  have s: "scan_line (a @ l @ LF # b) (length a) = (length a + length l, length a + length l + 1)"
    using scan_line_at [OF assms] .
  have sl: "slice (a @ l @ LF # b) (length a) (length a + length l) = l"
    using slice_append_right [of a "l @ LF # b" 0 "length l"] by simp
  show ?thesis
    using s sl by (subst bounds_loop.simps) (simp add: Let_def)
qed

lemma closes_block_dashes: "closes_block None (trim_cr ''---'')"
  by (simp add: closes_block_def fence_info_def trim_cr_def trim_suffix_def has_suffix_def)

lemma bounds_loop_lines:
  assumes "\<forall>l \<in> set ls. LF \<notin> set l" "fence_after f ls = Some None"
  shows "bounds_loop (a @ unlines ls @ ''---'' @ LF # body) start f (length a) =
     Some (start, length a + length (unlines ls), length a + length (unlines ls) + 4)"
  using assms
proof (induction ls arbitrary: a f)
  case Nil
  then show ?case
    using bounds_loop_at [of "''---''" a body start f] closes_block_dashes by simp
next
  case (Cons l ls)
  have l: "LF \<notin> set l" and ls: "\<forall>l \<in> set ls. LF \<notin> set l" using Cons.prems(1) by auto
  from Cons.prems(2) have nc: "\<not> closes_block f (trim_cr l)"
    and fa: "fence_after (fence_step f (trim_cr l)) ls = Some None" by (auto split: if_splits)
  show ?case
    using bounds_loop_at [OF l, of a "unlines ls @ ''---'' @ LF # body" start f] nc
      Cons.IH [OF ls fa, of "a @ l @ [LF]"] by (simp add: add.assoc)
qed

lemma frontmatter_bounds_open:
  "frontmatter_bounds (''---'' @ LF # rest) = bounds_loop (''---'' @ LF # rest) 4 None 4"
proof -
  have "scan_line (''---'' @ LF # rest) 0 = (3, 4)"
    using scan_line_at [of "''---''" "[]" rest] by simp
  moreover have "slice (''---'' @ LF # rest) 0 3 = ''---''"
    using slice_0_append [of "''---''" "LF # rest"] by (simp add: numeral_eq_Suc)
  moreover have "trim_cr ''---'' = ''---''"
    by (simp add: trim_cr_def trim_suffix_def has_suffix_def)
  ultimately show ?thesis by (simp only: frontmatter_bounds_def Let_def fst_conv snd_conv) simp
qed

lemma frontmatter_bounds_composed:
  assumes "\<forall>l \<in> set ls. LF \<notin> set l" "fence_after None ls = Some None"
  shows "frontmatter_bounds (''---'' @ LF # unlines ls @ ''---'' @ LF # body) =
     Some (4, 4 + length (unlines ls), 8 + length (unlines ls))"
  using bounds_loop_lines [OF assms, of "''---'' @ [LF]" body 4] frontmatter_bounds_open
  by (simp add: numeral_eq_Suc)

lemma scan_line_le: "fst (scan_line t p) \<le> snd (scan_line t p)"
  by (auto simp: scan_line_def split: option.split)

lemma frontmatter_bounds_sound:
  assumes "frontmatter_bounds doc = Some (s, e, n)"
  shows "s = snd (scan_line doc 0)" "s \<le> e" "e < n" "n \<le> length doc"
    "trim_cr (slice doc 0 (fst (scan_line doc 0))) = ''---''" "delimiter_at doc e n"
proof -
  from assms have *: "trim_cr (slice doc 0 (fst (scan_line doc 0))) = ''---''"
    "bounds_loop doc (snd (scan_line doc 0)) None (snd (scan_line doc 0)) = Some (s, e, n)"
    by (auto simp: frontmatter_bounds_def Let_def split: if_splits)
  from bounds_loop_sound [OF *(2)] have
    **: "s = snd (scan_line doc 0)" "s \<le> e" "delimiter_at doc e n" by auto
  then have e: "e < length doc" "n = snd (scan_line doc e)" by (auto simp: delimiter_at_def)
  with scan_line_bounds [OF e(1) prod.collapse [symmetric]]
  show "e < n" "n \<le> length doc" by auto
  show "s = snd (scan_line doc 0)" "s \<le> e" "delimiter_at doc e n"
    "trim_cr (slice doc 0 (fst (scan_line doc 0))) = ''---''"
    using * ** by auto
qed

section \<open>Counting YAML documents\<close>

fun count_docs_loop :: "string list \<Rightarrow> nat \<Rightarrow> bool \<Rightarrow> nat" where
  "count_docs_loop [] docs marked = docs"
| "count_docs_loop (raw # lines) docs marked =
     (let line = trim_suffix raw [CR] in
      if line = ''---'' \<or> line = ''...'' then count_docs_loop lines docs True
      else if marked \<and> trim_space line \<noteq> [] then count_docs_loop lines (docs + 1) False
      else count_docs_loop lines docs marked)"

definition count_yaml_documents :: "string \<Rightarrow> nat" where
  "count_yaml_documents region = count_docs_loop (split_on LF region) 1 False"

lemma count_docs_loop_ge: "docs \<le> count_docs_loop lines docs marked"
  by (induction lines docs marked rule: count_docs_loop.induct)
    (auto simp: Let_def intro: le_trans [rotated])

lemma count_docs_loop_unmarked:
  "\<forall>raw \<in> set lines. trim_suffix raw [CR] \<notin> {''---'', ''...''} \<Longrightarrow>
   count_docs_loop lines docs False = docs"
  by (induction lines) (auto simp: Let_def)

lemma count_yaml_documents_pos: "1 \<le> count_yaml_documents region"
  by (simp add: count_yaml_documents_def count_docs_loop_ge)

section \<open>The fallback parser\<close>

definition fallback_line :: "vmap \<Rightarrow> string \<Rightarrow> vmap" where
  "fallback_line result raw =
     (let line = trim_space raw in
      if line = [] \<or> has_prefix line ''#'' then result
      else case index_of line '':'' of
        None \<Rightarrow> result
      | Some idx \<Rightarrow>
          if idx = 0 then result
          else let key = trim_space (take idx line); v = trim_space (drop (idx + 1) line) in
            if v \<noteq> [] then AList.update key (VStr v) result else result)"

definition fallback_parse_frontmatter :: "string \<Rightarrow> vmap" where
  "fallback_parse_frontmatter content = foldl fallback_line [] (split_on LF content)"

text \<open>What the fallback reads, stated line by line: a line that is not a comment and has a colon behind at
  least one character gives the trimmed text before the first colon the trimmed text behind it, when
  that is not empty; of several lines for a key the last one counts.\<close>

definition field_line :: "string \<Rightarrow> string \<Rightarrow> string \<Rightarrow> bool" where
  "field_line l k v =
     (\<exists>a b. trim_space l = a @ '':'' @ b \<and> a \<noteq> [] \<and> CHR '':'' \<notin> set a \<and> hd a \<noteq> CHR ''#'' \<and>
        k = trim_space a \<and> v = trim_space b \<and> v \<noteq> [])"

definition read_by_lines :: "string list \<Rightarrow> string \<Rightarrow> string \<Rightarrow> bool" where
  "read_by_lines ls k v =
     (\<exists>pre l post. ls = pre @ l # post \<and> field_line l k v \<and> (\<forall>l' \<in> set post. \<forall>v'. \<not> field_line l' k v'))"

lemma index_of_char_SomeD:
  "index_of s [c] = Some i \<Longrightarrow> s = take i s @ c # drop (i + 1) s \<and> c \<notin> set (take i s) \<and> length (take i s) = i"
proof (induction s arbitrary: i)
  case (Cons x s)
  then show ?case by (cases i) (auto simp: has_prefix_iff split: if_splits)
qed simp

lemma field_line_split:
  assumes "trim_space l = a @ CHR '':'' # b" "CHR '':'' \<notin> set a"
  shows "field_line l k v \<longleftrightarrow>
     a \<noteq> [] \<and> hd a \<noteq> CHR ''#'' \<and> k = trim_space a \<and> v = trim_space b \<and> v \<noteq> []"
    (is "_ \<longleftrightarrow> ?R")
proof
  assume "field_line l k v"
  then obtain a' b' where s: "trim_space l = a' @ CHR '':'' # b'" "CHR '':'' \<notin> set a'" "a' \<noteq> []"
    "hd a' \<noteq> CHR ''#''" "k = trim_space a'" "v = trim_space b'" "v \<noteq> []" by (auto simp: field_line_def)
  have e: "a' @ CHR '':'' # b' = a @ CHR '':'' # b" using s(1) assms(1) by (rule trans [OF sym])
  then have "length a' = length a"
    using index_of_char_append [OF s(2), of b'] index_of_char_append [OF assms(2), of b]
    by (metis option.inject)
  with e have "a' = a" "b' = b" by simp_all
  with s(3-7) show ?R by simp
next
  assume ?R
  with assms show "field_line l k v" by (auto simp: field_line_def)
qed

lemma fallback_line_split:
  assumes "trim_space l = a @ CHR '':'' # b" "CHR '':'' \<notin> set a"
  shows "fallback_line m l =
     (if a = [] \<or> hd a = CHR ''#'' \<or> trim_space b = [] then m
      else AList.update (trim_space a) (VStr (trim_space b)) m)"
proof -
  have "has_prefix (a @ CHR '':'' # b) ''#'' \<longleftrightarrow> a \<noteq> [] \<and> hd a = CHR ''#''"
    by (cases a) (simp_all add: has_prefix_iff)
  then show ?thesis
    unfolding fallback_line_def Let_def assms(1) by (simp add: index_of_char_append [OF assms(2)])
qed

lemma no_colon:
  assumes "index_of (trim_space l) '':'' = None"
  shows "\<not> field_line l k v" "fallback_line m l = m"
proof -
  show "\<not> field_line l k v" using assms by (auto simp: field_line_def index_of_None_iff)
  show "fallback_line m l = m" using assms by (simp add: fallback_line_def Let_def)
qed

lemma colon_split:
  obtains "index_of (trim_space l) '':'' = None"
    | a b where "trim_space l = a @ CHR '':'' # b" "CHR '':'' \<notin> set a"
        "index_of (trim_space l) '':'' = Some (length a)"
proof (cases "index_of (trim_space l) '':''")
  case (Some i)
  from index_of_char_SomeD [OF Some] Some that(2) show thesis by metis
qed (use that in blast)

lemma field_line_code [code]:
  "field_line l k v = (case index_of (trim_space l) '':'' of
       None \<Rightarrow> False
     | Some i \<Rightarrow> (let a = take i (trim_space l); b = drop (i + 1) (trim_space l) in
         a \<noteq> [] \<and> hd a \<noteq> CHR ''#'' \<and> k = trim_space a \<and> v = trim_space b \<and> v \<noteq> []))"
proof (cases rule: colon_split [of l])
  case 1
  then show ?thesis by (simp add: no_colon)
next
  case (2 a b)
  have "take (length a) (trim_space l) = a" "drop (length a + 1) (trim_space l) = b"
    unfolding 2(1) by simp_all
  with field_line_split [OF 2(1,2)] 2(3) show ?thesis by (simp add: Let_def)
qed

lemma fallback_line_cases:
  obtains k v where "field_line raw k v" "fallback_line m raw = AList.update k (VStr v) m"
      "\<And>k' v'. field_line raw k' v' \<Longrightarrow> k' = k \<and> v' = v"
    | "\<And>k v. \<not> field_line raw k v" "fallback_line m raw = m"
proof (cases rule: colon_split [of raw])
  case 1
  with that(2) show thesis by (simp add: no_colon)
next
  case (2 a b)
  show thesis
  proof (cases "a = [] \<or> hd a = CHR ''#'' \<or> trim_space b = []")
    case True
    then have "\<not> field_line raw k v" "fallback_line m raw = m" for k v
      unfolding field_line_split [OF 2(1,2)] fallback_line_split [OF 2(1,2)] by auto
    with that(2) show thesis by blast
  next
    case False
    then have "field_line raw k v \<longleftrightarrow> k = trim_space a \<and> v = trim_space b"
      "fallback_line m raw = AList.update (trim_space a) (VStr (trim_space b)) m" for k v
      unfolding field_line_split [OF 2(1,2)] fallback_line_split [OF 2(1,2)] by auto
    with that(1) [of "trim_space a" "trim_space b"] show thesis by blast
  qed
qed

lemma read_by_lines_snoc:
  "read_by_lines (ls @ [l]) k v \<longleftrightarrow>
     field_line l k v \<or> (read_by_lines ls k v \<and> (\<forall>v'. \<not> field_line l k v'))" (is "?L \<longleftrightarrow> ?R")
proof
  assume ?L
  then obtain pre l' post where s: "ls @ [l] = pre @ l' # post" "field_line l' k v"
    "\<forall>m \<in> set post. \<forall>v'. \<not> field_line m k v'" by (auto simp: read_by_lines_def)
  show ?R
  proof (cases post rule: rev_cases)
    case Nil
    with s show ?thesis by simp
  next
    case (snoc post' m)
    with s have "ls = pre @ l' # post'" "m = l" by simp_all
    with s snoc show ?thesis by (auto simp: read_by_lines_def)
  qed
next
  assume ?R
  then show ?L
  proof
    assume "field_line l k v"
    then show ?L unfolding read_by_lines_def by (intro exI [of _ ls] exI [of _ l] exI [of _ "[]"]) simp
  next
    assume r: "read_by_lines ls k v \<and> (\<forall>v'. \<not> field_line l k v')"
    then obtain pre l' post where "ls = pre @ l' # post" "field_line l' k v"
      "\<forall>m \<in> set post. \<forall>v'. \<not> field_line m k v'" by (auto simp: read_by_lines_def)
    with r show ?L unfolding read_by_lines_def
      by (intro exI [of _ pre] exI [of _ l'] exI [of _ "post @ [l]"]) auto
  qed
qed

lemma foldl_fallback_lookup:
  "map_of (foldl fallback_line m ls) k = Some x \<longleftrightarrow>
     (\<exists>v. x = VStr v \<and> read_by_lines ls k v) \<or>
     (map_of m k = Some x \<and> (\<forall>l \<in> set ls. \<forall>v. \<not> field_line l k v))"
proof (induction ls arbitrary: x rule: rev_induct)
  case Nil
  then show ?case by (simp add: read_by_lines_def)
next
  case (snoc l ls)
  note last = read_by_lines_snoc [of ls l k]
  show ?case
  proof (cases rule: fallback_line_cases [of l "foldl fallback_line m ls"])
    case (1 k' v)
    show ?thesis
    proof (cases "k' = k")
      case True
      with 1(1,3) have "field_line l k v' \<longleftrightarrow> v' = v" for v' by blast
      with True 1(2) show ?thesis unfolding last by (auto simp: update_conv')
    next
      case False
      with 1(3) have "\<not> field_line l k v'" for v' by blast
      with False 1(2) snoc show ?thesis unfolding last by (simp add: update_conv')
    qed
  next
    case 2
    with snoc show ?thesis unfolding last by simp
  qed
qed

lemma fallback_lookup:
  "map_of (fallback_parse_frontmatter content) k = Some x \<longleftrightarrow>
     (\<exists>v. x = VStr v \<and> read_by_lines (split_on LF content) k v)"
  by (simp add: fallback_parse_frontmatter_def foldl_fallback_lookup)

section \<open>Renaming a key in place\<close>

function rename_loop :: "string \<Rightarrow> string \<Rightarrow> string \<Rightarrow> nat \<Rightarrow> nat \<Rightarrow> string \<times> bool" where
  "rename_loop doc old new pos stop =
     (if pos < stop then
        (let line_end = (case index_of (slice doc pos stop) [LF] of
                           None \<Rightarrow> stop | Some nl \<Rightarrow> pos + nl) in
         if has_prefix (slice doc pos line_end) (old @ '':'')
         then (take pos doc @ new @ drop (pos + length old) doc, True)
         else rename_loop doc old new (line_end + 1) stop)
      else (doc, False))"
  by pat_completeness auto
termination
  by (relation "measure (\<lambda>(doc, old, new, pos, stop). stop - pos)")
    (auto split: option.splits)

declare rename_loop.simps [simp del]

definition rename_frontmatter_field :: "string \<Rightarrow> string \<Rightarrow> string \<Rightarrow> string \<times> bool" where
  "rename_frontmatter_field doc old new =
     (let offset = (if has_prefix doc bom then 3 else 0) in
      case frontmatter_bounds (drop offset doc) of
        None \<Rightarrow> (doc, False)
      | Some (start, stop, _) \<Rightarrow> rename_loop doc old new (start + offset) (stop + offset))"

lemma rename_loop_unchanged: "rename_loop doc old new pos stop = (t, False) \<Longrightarrow> t = doc"
proof (induction doc old new pos stop rule: rename_loop.induct)
  case (1 doc old new pos stop)
  then show ?case
    by (subst (asm) rename_loop.simps) (auto simp: Let_def split: if_splits)
qed

text \<open>Column 0: the start of the scanned region or just after a newline.\<close>

definition col0 :: "string \<Rightarrow> nat \<Rightarrow> nat \<Rightarrow> bool" where
  "col0 doc start p = (p = start \<or> (0 < p \<and> p \<le> length doc \<and> doc ! (p - 1) = LF))"

lemma index_of_char_nth: "index_of s [c] = Some i \<Longrightarrow> i < length s \<and> s ! i = c"
  by (induction s arbitrary: i) (auto split: if_splits)

lemma has_prefix_slice:
  assumes "has_prefix (slice doc a b) p" "a \<le> length doc"
  shows "doc = take a doc @ p @ drop (a + length p) doc" "a + length p \<le> length doc"
    "a + length p \<le> max a b"
proof -
  obtain r where "take (b - a) (drop a doc) = p @ r"
    using assms by (auto simp: slice_def has_prefix_iff)
  then have d: "drop a doc = p @ r @ drop (b - a) (drop a doc)"
    and len: "length p \<le> min (b - a) (length doc - a)"
    by (metis append_assoc append_take_drop_id)
      (metis \<open>take (b - a) (drop a doc) = p @ r\<close> length_append length_drop length_take
        le_add1 min.commute)
  from d have "drop (a + length p) doc = r @ drop (b - a) (drop a doc)"
    by (metis add.commute append_eq_conv_conj drop_drop)
  with d show "doc = take a doc @ p @ drop (a + length p) doc"
    by (metis append_take_drop_id)
  show "a + length p \<le> length doc" "a + length p \<le> max a b" using len assms(2) by auto
qed

lemma rename_loop_changed:
  assumes "rename_loop doc old new pos stop = (t, True)" "stop \<le> length doc"
    "col0 doc start pos" "start \<le> pos"
  shows "\<exists>p. start \<le> p \<and> p < stop \<and> col0 doc start p \<and>
     doc = take p doc @ old @ '':'' @ drop (p + length old + 1) doc \<and>
     t = take p doc @ new @ '':'' @ drop (p + length old + 1) doc"
  using assms
proof (induction doc old new pos stop rule: rename_loop.induct)
  case (1 doc old new pos stop)
  from "1.prems"(1) have pos: "pos < stop"
    by (subst (asm) rename_loop.simps) (auto split: if_splits)
  define le where "le = (case index_of (slice doc pos stop) [LF] of
                           None \<Rightarrow> stop | Some nl \<Rightarrow> pos + nl)"
  have eq: "(if has_prefix (slice doc pos le) (old @ '':'')
         then (take pos doc @ new @ drop (pos + length old) doc, True)
         else rename_loop doc old new (le + 1) stop) = (t, True)"
    using "1.prems"(1) pos
    by (subst (asm) rename_loop.simps) (simp add: Let_def le_def [symmetric])
  show ?case
  proof (cases "has_prefix (slice doc pos le) (old @ '':'')")
    case True
    with eq have t: "t = take pos doc @ new @ drop (pos + length old) doc" by simp
    have h: "doc = take pos doc @ (old @ '':'') @ drop (pos + length (old @ '':'')) doc"
      by (rule has_prefix_slice(1) [OF True]) (use pos "1.prems"(2) in auto)
    then have "drop (pos + length old) doc = '':'' @ drop (pos + length old + 1) doc"
      using has_prefix_slice(2) [OF True] pos "1.prems"(2)
      by (metis (no_types, lifting) append_assoc append_eq_conv_conj drop_drop add.commute
          length_append length_Cons list.size(3) One_nat_def plus_1_eq_Suc append_take_drop_id)
    with h t pos "1.prems" show ?thesis
      by (intro exI [of _ pos]) auto
  next
    case False
    with eq have rec: "rename_loop doc old new (le + 1) stop = (t, True)" by simp
    then have lt: "le + 1 < stop"
      by (subst (asm) rename_loop.simps) (auto split: if_splits)
    then obtain nl where nl: "index_of (slice doc pos stop) [LF] = Some nl" and le: "le = pos + nl"
      by (auto simp: le_def split: option.splits)
    from index_of_char_nth [OF nl] "1.prems"(2) have "doc ! le = LF" and "pos \<le> le"
      by (auto simp: slice_def le)
    with lt "1.prems" have "col0 doc start (le + 1)" by (auto simp: col0_def)
    then show ?thesis
      using "1.IH" [OF pos le_def _ rec] False "1.prems" \<open>pos \<le> le\<close> by auto
  qed
qed

section \<open>Rewriting the block\<close>

abbreviation (input) delim :: string where "delim \<equiv> [CHR ''-'', CHR ''-'', CHR ''-'', CHR 0x0A]"

text \<open>The exchange sort of \<open>WriteFrontmatterFields\<close>: one pass of the inner loop, then the outer.\<close>

fun exchange_pass :: "string \<Rightarrow> string list \<Rightarrow> string \<times> string list" where
  "exchange_pass x [] = (x, [])"
| "exchange_pass x (y # ys) =
     (if x > y then (fst (exchange_pass y ys), x # snd (exchange_pass y ys))
      else (fst (exchange_pass x ys), y # snd (exchange_pass x ys)))"

lemma length_exchange_pass [simp]: "length (snd (exchange_pass x ys)) = length ys"
  by (induction x ys rule: exchange_pass.induct) auto

function exchange_sort :: "string list \<Rightarrow> string list" where
  "exchange_sort [] = []"
| "exchange_sort (x # xs) =
     fst (exchange_pass x xs) # exchange_sort (snd (exchange_pass x xs))"
  by pat_completeness auto
termination by (relation "measure length") auto

lemma mset_exchange_pass:
  "mset (fst (exchange_pass x ys) # snd (exchange_pass x ys)) = mset (x # ys)"
  by (induction x ys rule: exchange_pass.induct) auto

lemma set_exchange_pass: "set (snd (exchange_pass x ys)) \<subseteq> insert x (set ys)"
  by (induction x ys rule: exchange_pass.induct) auto

lemma exchange_pass_least: "fst (exchange_pass x ys) \<le> x \<and> (\<forall>z \<in> set ys. fst (exchange_pass x ys) \<le> z)"
proof (induction x ys rule: exchange_pass.induct)
  case (2 x y ys)
  show ?case
  proof (cases "x > y")
    case True
    with 2 have "fst (exchange_pass y ys) \<le> y" by simp
    with True have "fst (exchange_pass y ys) \<le> x" by simp
    with 2 True show ?thesis by simp
  next
    case False
    then have "x \<le> y" by simp
    from 2 False have x: "fst (exchange_pass x ys) \<le> x" by simp
    have "fst (exchange_pass x ys) \<le> y" by (rule order_trans [OF x \<open>x \<le> y\<close>])
    with 2 False show ?thesis by simp
  qed
qed simp

lemma mset_exchange_sort [simp]: "mset (exchange_sort xs) = mset xs"
proof (induction xs rule: exchange_sort.induct)
  case (2 x xs)
  then show ?case using mset_exchange_pass [of x xs] by simp
qed simp

lemma exchange_sort_sorted: "sorted (exchange_sort xs)"
proof (induction xs rule: exchange_sort.induct)
  case (2 x xs)
  have "set (exchange_sort (snd (exchange_pass x xs))) = set (snd (exchange_pass x xs))"
    using mset_exchange_sort mset_eq_setD by blast
  then have "\<forall>z \<in> set (exchange_sort (snd (exchange_pass x xs))). fst (exchange_pass x xs) \<le> z"
    using set_exchange_pass [of x xs] exchange_pass_least [of x xs] by (metis insertE subsetD)
  with 2 show ?case by (simp del: exchange_pass.simps)
qed simp

lemma exchange_sort_is_sort: "exchange_sort xs = sort xs"
  by (rule properties_for_sort [symmetric]) (auto simp: exchange_sort_sorted)

text \<open>A read of an absent key of a Go map gives the zero value.\<close>

definition map_get :: "vmap \<Rightarrow> string \<Rightarrow> val" where
  "map_get m k = (case map_of m k of None \<Rightarrow> VNull | Some v \<Rightarrow> v)"

definition write_field :: "(val \<Rightarrow> string option) \<Rightarrow> string \<Rightarrow> val \<Rightarrow> string" where
  "write_field marshal k v =
     (case marshal v of
        None \<Rightarrow> k @ '': '' @ go_quote (fmt_v v) @ [LF]
      | Some bytes \<Rightarrow>
          let val = trim_suffix bytes [LF] in
          if str_contains val [LF] then
            k @ '':'' @ LF # concat (map (\<lambda>line. ''  '' @ line @ [LF]) (split_on LF val))
          else k @ '': '' @ val @ [LF])"

definition write_frontmatter_fields :: "(val \<Rightarrow> string option) \<Rightarrow> vmap \<Rightarrow> string" where
  "write_frontmatter_fields marshal fm =
     concat (map (\<lambda>k. write_field marshal k (map_get fm k))
       (exchange_sort (remdups (map fst fm))))"

lemma write_frontmatter_fields_cong [det_intros]:
  assumes "map_of fm = map_of fm'"
  shows "write_frontmatter_fields marshal fm = write_frontmatter_fields marshal fm'"
  using assms sorted_keys_map_of_cong [OF assms]
  by (simp add: write_frontmatter_fields_def exchange_sort_is_sort map_get_def sorted_keys_def)

definition rewrite_frontmatter ::
  "(val \<Rightarrow> string option) \<Rightarrow> (string \<Rightarrow> vmap \<Rightarrow> string option) \<Rightarrow> string \<Rightarrow> vmap \<Rightarrow> string" where
  "rewrite_frontmatter marshal render original fm =
     (if \<not> has_prefix original delim then
        delim @ write_frontmatter_fields marshal fm @ delim @ original
      else
        let rest = drop 4 original in
        case (if has_prefix rest delim then Some 0
              else map_option Suc (index_of rest (LF # delim))) of
          None \<Rightarrow> original
        | Some closing \<Rightarrow>
            if closing + 4 > length rest then original
            else
              let fm_text = take closing rest; body = drop (closing + 4) rest in
              (case render fm_text fm of
                 Some rendered \<Rightarrow> delim @ rendered @ delim @ body
               | None \<Rightarrow> delim @ write_frontmatter_fields marshal fm @ delim @ body))"

lemma rewrite_frontmatter_cases:
  obtains
    (prepended) "\<not> has_prefix original delim"
      "rewrite_frontmatter marshal render original fm =
         delim @ write_frontmatter_fields marshal fm @ delim @ original"
  | (unclosed) "has_prefix original delim"
      "\<not> has_prefix (drop 4 original) delim" "\<not> str_contains (drop 4 original) (LF # delim)"
      "rewrite_frontmatter marshal render original fm = original"
  | (replaced) fm_text body where "original = delim @ fm_text @ delim @ body"
      "fm_text = [] \<or> last fm_text = LF"
      "rewrite_frontmatter marshal render original fm =
         delim @ (case render fm_text fm of Some r \<Rightarrow> r
                  | None \<Rightarrow> write_frontmatter_fields marshal fm) @ delim @ body"
proof (cases "has_prefix original delim")
  case False
  then show ?thesis by (intro prepended) (simp_all add: rewrite_frontmatter_def)
next
  case True
  then obtain rest where o: "original = delim @ rest" by (rule has_prefixE)
  then have r: "drop 4 original = rest" by simp
  show ?thesis
  proof (cases "has_prefix rest delim")
    case pre: True
    then obtain body where "rest = delim @ body" by (rule has_prefixE)
    with o pre show ?thesis
      by (intro replaced [of "[]" body])
        (auto simp: rewrite_frontmatter_def Let_def split: option.split)
  next
    case False
    show ?thesis
    proof (cases "index_of rest (LF # delim)")
      case None
      with o r False show ?thesis
        by (intro unclosed) (auto simp: rewrite_frontmatter_def Let_def str_contains_def)
    next
      case (Some i)
      from index_of_SomeD [OF Some] have "rest = (take i rest @ [LF]) @ delim @ drop (i + 5) rest"
        by (simp add: numeral_eq_Suc)
      moreover from index_of_le [OF Some] have "i + 5 \<le> length rest" by simp
      moreover from calculation have "take (Suc i) rest = take i rest @ [LF]"
        by (metis append_take_drop_id append_eq_conv_conj length_append length_take min.absorb2
          add_leD1 length_Cons list.size(3) add_Suc_right add_0_right)
      moreover have "drop (5 + i) rest = drop (i + 5) rest" by (simp add: add.commute)
      ultimately show ?thesis
        using o False Some
        by (intro replaced [of "take (Suc i) rest" "drop (i + 5) rest"])
          (auto simp: rewrite_frontmatter_def Let_def split: option.split)
    qed
  qed
qed

section \<open>Properties\<close>

text \<open>C16: Reading a composed document gives back its parts: when no line of the block closes it early and
  every code fence in the block is closed, the bounds cut out exactly the block and the body,
  whatever the body contains.\<close>

theorem frontmatter_splits_document:
  assumes "\<forall>l \<in> set ls. LF \<notin> set l" "fence_after None ls = Some None"
  shows "\<exists>s e n. frontmatter_bounds (''---'' @ LF # unlines ls @ ''---'' @ LF # body) = Some (s, e, n) \<and>
     slice (''---'' @ LF # unlines ls @ ''---'' @ LF # body) s e = unlines ls \<and>
     drop n (''---'' @ LF # unlines ls @ ''---'' @ LF # body) = body"
  unfolding frontmatter_bounds_composed [OF assms] by (simp add: slice_def numeral_eq_Suc)

theorem frontmatter_splits_document_witness:
  "\<exists>s e n. frontmatter_bounds (''---'' @ LF # unlines [''a: 1'', ''```'', ''---'', ''```''] @ ''---'' @ LF # ''x'') =
      Some (s, e, n) \<and>
    drop n (''---'' @ LF # unlines [''a: 1'', ''```'', ''---'', ''```''] @ ''---'' @ LF # ''x'') = ''x''"
proof -
  have "\<forall>l \<in> set [''a: 1'', ''```'', ''---'', ''```'']. LF \<notin> set l" by simp
  moreover have "fence_after None [''a: 1'', ''```'', ''---'', ''```''] = Some None" by code_simp
  ultimately show ?thesis using frontmatter_splits_document by blast
qed

text \<open>C18: A rename touches nothing but the key: when it reports a change, exactly one occurrence of the old
  key, at the start of a line of the leading block and followed by a colon, is replaced, and every
  other byte of the document stays; when it reports none the document is unchanged.\<close>

theorem rename_touches_only_the_key:
  assumes "rename_frontmatter_field doc old new = (t, changed)"
  shows "if changed then
      (\<exists>off s e n p. off = (if has_prefix doc bom then 3 else 0) \<and>
         frontmatter_bounds (drop off doc) = Some (s, e, n) \<and>
         s + off \<le> p \<and> p < e + off \<and> col0 doc (s + off) p \<and>
         doc = take p doc @ old @ '':'' @ drop (p + length old + 1) doc \<and>
         t = take p doc @ new @ '':'' @ drop (p + length old + 1) doc)
    else t = doc"
proof (cases changed)
  case False
  with assms show ?thesis
    by (auto simp: rename_frontmatter_field_def Let_def intro: rename_loop_unchanged
        split: option.splits)
next
  case True
  define off where "off = (if has_prefix doc bom then 3 else (0::nat))"
  from assms True obtain s e n where b: "frontmatter_bounds (drop off doc) = Some (s, e, n)"
    and r: "rename_loop doc old new (s + off) (e + off) = (t, True)"
    by (auto simp: rename_frontmatter_field_def Let_def off_def [symmetric] split: option.splits)
  from frontmatter_bounds_sound(3,4) [OF b] have "e + off \<le> length doc" by auto
  from rename_loop_changed [OF r this, of "s + off"] b True show ?thesis
    by (auto simp: col0_def off_def)
qed

theorem rename_touches_only_the_key_witness:
  "rename_frontmatter_field (''---'' @ LF # ''ab: 1'' @ LF # ''a: 2'' @ LF # ''---'' @ LF # ''a: 3'') ''a'' ''z'' =
     (''---'' @ LF # ''ab: 1'' @ LF # ''z: 2'' @ LF # ''---'' @ LF # ''a: 3'', True) \<and>
   (\<exists>p. (''---'' @ LF # ''ab: 1'' @ LF # ''z: 2'' @ LF # ''---'' @ LF # ''a: 3'') =
      take p (''---'' @ LF # ''ab: 1'' @ LF # ''a: 2'' @ LF # ''---'' @ LF # ''a: 3'') @ ''z'' @ '':'' @
      drop (p + length ''a'' + 1) (''---'' @ LF # ''ab: 1'' @ LF # ''a: 2'' @ LF # ''---'' @ LF # ''a: 3''))"
proof -
  have r: "rename_frontmatter_field (''---'' @ LF # ''ab: 1'' @ LF # ''a: 2'' @ LF # ''---'' @ LF # ''a: 3'') ''a'' ''z'' =
     (''---'' @ LF # ''ab: 1'' @ LF # ''z: 2'' @ LF # ''---'' @ LF # ''a: 3'', True)"
    by code_simp
  from rename_touches_only_the_key [OF r] r show ?thesis by auto
qed

lemma has_prefix_line:
  "LF \<notin> set l \<Longrightarrow> has_prefix (l @ LF # r) delim \<longleftrightarrow> l = ''---''"
  by (cases l; cases "tl l"; cases "tl (tl l)"; cases "tl (tl (tl l))") (auto simp: has_prefix_iff)

lemma index_of_after_line:
  "LF \<notin> set l \<Longrightarrow> index_of (l @ LF # r) (LF # delim) =
     (if has_prefix r delim then Some (length l)
      else map_option (\<lambda>i. i + length l + 1) (index_of r (LF # delim)))"
  by (induction l) (auto simp: has_prefix_iff option.map_comp o_def)

lemma index_of_closing:
  assumes "\<forall>l \<in> set ls. LF \<notin> set l \<and> l \<noteq> ''---''" "ls \<noteq> []"
  shows "index_of (unlines ls @ delim @ body) (LF # delim) = Some (length (unlines ls) - 1)"
  using assms
proof (induction ls)
  case (Cons l ls)
  show ?case
  proof (cases ls)
    case Nil
    with Cons.prems index_of_after_line [of l "delim @ body"] show ?thesis
      by (simp add: has_prefix_iff)
  next
    case (Cons l' ls')
    then have "\<not> has_prefix (unlines ls @ delim @ body) delim"
      using Cons.prems has_prefix_line [of l' "unlines ls' @ delim @ body"] by auto
    then show ?thesis
      using Cons.prems Cons.IH index_of_after_line [of l "unlines ls @ delim @ body"] \<open>ls = l' # ls'\<close>
      by auto
  qed
qed simp

text \<open>C17: Rewriting the frontmatter keeps the body: in a document whose block has no line of three dashes,
  only the bytes between the two delimiters change, to the re-rendered block, or to the sorted
  key by key writing when the block cannot be re-rendered.\<close>

theorem rewrite_keeps_body:
  assumes "\<forall>l \<in> set ls. LF \<notin> set l \<and> l \<noteq> ''---''"
  shows "rewrite_frontmatter marshal render (delim @ unlines ls @ delim @ body) fm =
     delim @ (case render (unlines ls) fm of Some r \<Rightarrow> r
              | None \<Rightarrow> write_frontmatter_fields marshal fm) @ delim @ body"
proof (cases ls)
  case Nil
  then show ?thesis
    by (auto simp: rewrite_frontmatter_def Let_def has_prefix_iff split: option.split)
next
  case (Cons l ls')
  then have "\<not> has_prefix (unlines ls @ delim @ body) delim"
    using assms has_prefix_line [of l "unlines ls' @ delim @ body"] by auto
  moreover have "0 < length (unlines ls)" using Cons by simp
  ultimately show ?thesis
    using index_of_closing [OF assms, of body] Cons
    by (auto simp: rewrite_frontmatter_def Let_def has_prefix_iff simp del: unlines_simps
        split: option.split)
qed

theorem rewrite_keeps_body_witness:
  "rewrite_frontmatter (\<lambda>v. Some (fmt_v v)) (\<lambda>_ _. None)
     (delim @ unlines [''b: x''] @ delim @ ''body'') [(''b'', VStr ''y''), (''a'', VStr ''1'')] =
   delim @ ''a: 1'' @ LF # ''b: y'' @ LF # delim @ ''body''"
proof -
  have w: "write_frontmatter_fields (\<lambda>v. Some (fmt_v v)) [(''b'', VStr ''y''), (''a'', VStr ''1'')] =
      ''a: 1'' @ LF # ''b: y'' @ [LF]" by code_simp
  show ?thesis
    using rewrite_keeps_body [of "[''b: x'']" "\<lambda>v. Some (fmt_v v)" "\<lambda>_ _. None" "''body''"
        "[(''b'', VStr ''y''), (''a'', VStr ''1'')]"] w by simp
qed

text \<open>The rewrite looks for the delimiters by bytes, not by the bounds: a document with CRLF line ends
  has a block for the reader and none for the writer, which puts a second one before it.\<close>

lemma crlf_gets_second_block:
  "frontmatter_bounds (''---'' @ CR # LF # ''a: 1'' @ CR # LF # ''---'' @ CR # LF # ''x'') \<noteq> None \<and>
   rewrite_frontmatter marshal render (''---'' @ CR # LF # ''a: 1'' @ CR # LF # ''---'' @ CR # LF # ''x'') fm =
     delim @ write_frontmatter_fields marshal fm @ delim @
       (''---'' @ CR # LF # ''a: 1'' @ CR # LF # ''---'' @ CR # LF # ''x'')"
proof
  show "frontmatter_bounds (''---'' @ CR # LF # ''a: 1'' @ CR # LF # ''---'' @ CR # LF # ''x'') \<noteq> None"
    by code_simp
qed (simp add: rewrite_frontmatter_def has_prefix_iff)

end
