(* ===== verification/Link_Parsing.thy ===== *)
theory Link_Parsing
  imports Frontmatter
begin

text \<open>
  Links in documents: \<open>internal/extract/links.go\<close>, \<open>links_ast.go\<close> and the bold-colon scan of
  \<open>extract.go\<close>. The three regular expressions of the code are written out as the recursive
  matchers they denote; each of them has at most one way to match at a position, so leftmost-first
  matching is a left-to-right scan. The lines of an AST block are those goldmark reports, given as
  a list of line texts with their offsets.
\<close>

section \<open>Links\<close>

record link =
  lk_target :: string
  lk_type :: string
  lk_line :: nat
  lk_source :: string
  lk_style :: string
  lk_anchor :: string
  lk_resolution :: string

definition zero_link :: link where
  "zero_link = \<lparr> lk_target = [], lk_type = [], lk_line = 0, lk_source = [], lk_style = [],
     lk_anchor = [], lk_resolution = [] \<rparr>"

abbreviation (input) style_wikilink :: string where "style_wikilink \<equiv> ''wikilink''"
abbreviation (input) style_markdown :: string where "style_markdown \<equiv> ''markdown''"

section \<open>The regular expressions\<close>

text \<open>\<open>wikilinkRe\<close> at the front of the text: the group and what follows the match.\<close>

definition wikilink_at :: "string \<Rightarrow> (string \<times> string) option" where
  "wikilink_at s =
     (if has_prefix s ''[['' then
        let body = drop 2 s;
            inner = takeWhile (\<lambda>c. c \<noteq> CHR '']'') body;
            rest = dropWhile (\<lambda>c. c \<noteq> CHR '']'') body
        in if inner \<noteq> [] \<and> has_prefix rest '']]'' then Some (inner, drop 2 rest) else None
      else None)"

lemma wikilink_at_length:
  "wikilink_at s = Some (inner, rest) \<Longrightarrow> length rest < length s"
proof -
  assume a: "wikilink_at s = Some (inner, rest)"
  then have "has_prefix s ''[[''" and
    r: "rest = drop 2 (dropWhile (\<lambda>c. c \<noteq> CHR '']'') (drop 2 s))"
    by (auto simp: wikilink_at_def Let_def split: if_splits)
  then have "2 \<le> length s" using has_prefix_length by fastforce
  moreover have "length rest \<le> length (drop 2 s)"
    unfolding r length_drop by (rule le_trans [OF diff_le_self])
      (rule le_trans [OF length_dropWhile_le], simp)
  ultimately show ?thesis by simp
qed

function find_wikilinks :: "string \<Rightarrow> string list" where
  "find_wikilinks [] = []"
| "find_wikilinks (c # cs) =
     (case wikilink_at (c # cs) of
        Some (inner, rest) \<Rightarrow> inner # find_wikilinks rest
      | None \<Rightarrow> find_wikilinks cs)"
  by pat_completeness auto
termination by (relation "measure length") (auto dest: wikilink_at_length)

text \<open>The destination group of \<open>markdownLinkRe\<close> up to its closing parenthesis.\<close>

definition non_paren :: "char \<Rightarrow> bool" where
  "non_paren c = (c \<noteq> CHR ''('' \<and> c \<noteq> CHR '')'')"

lemma dropWhile_ConsD: "dropWhile P xs = y # ys \<Longrightarrow> length ys < length xs"
  by (metis length_Cons length_dropWhile_le less_eq_Suc_le)

function md_dest :: "string \<Rightarrow> (string \<times> string) option" where
  "md_dest s =
     (case dropWhile non_paren s of
        [] \<Rightarrow> None
      | c # cs \<Rightarrow>
          if c = CHR '')'' then Some (takeWhile non_paren s, cs)
          else
            (case dropWhile non_paren cs of
               [] \<Rightarrow> None
             | d # ds \<Rightarrow>
                 if d = CHR '')'' then
                   (case md_dest ds of
                      None \<Rightarrow> None
                    | Some (t, rest) \<Rightarrow>
                        Some (takeWhile non_paren s @ CHR ''('' # takeWhile non_paren cs @
                              CHR '')'' # t, rest))
                 else None))"
  by pat_completeness auto

termination
  by (relation "measure length") (auto dest!: dropWhile_ConsD [OF sym] dropWhile_ConsD)

declare md_dest.simps [simp del]

lemma md_dest_length: "md_dest s = Some (d, rest) \<Longrightarrow> length rest < length s"
proof (induction s arbitrary: d rest rule: md_dest.induct)
  case (1 s)
  from "1.prems" obtain c cs where c: "dropWhile non_paren s = c # cs"
    by (subst (asm) md_dest.simps) (auto split: list.splits)
  show ?case
  proof (cases "c = CHR '')''")
    case True
    with "1.prems" c have "rest = cs"
      by (subst (asm) md_dest.simps) simp
    with dropWhile_ConsD [OF c] show ?thesis by simp
  next
    case False
    with "1.prems" c obtain e ds t where
      d: "dropWhile non_paren cs = e # ds" "e = CHR '')''" "md_dest ds = Some (t, rest)"
      by (subst (asm) md_dest.simps) (auto split: list.splits if_splits option.splits)
    from "1.IH" [OF c False d(1,2) d(3)] dropWhile_ConsD [OF c] dropWhile_ConsD [OF d(1)]
    show ?thesis by simp
  qed
qed

text \<open>\<open>markdownLinkRe\<close> at the front of the text: the image marker, the destination, the rest.\<close>

definition mdlink_at :: "string \<Rightarrow> (bool \<times> string \<times> string) option" where
  "mdlink_at s =
     (let img = has_prefix s ''!''; s1 = (if img then drop 1 s else s) in
      if has_prefix s1 ''['' then
        let r = dropWhile (\<lambda>c. c \<noteq> CHR '']'') (drop 1 s1) in
        if has_prefix r ''](''
        then map_option (\<lambda>(d, rest). (img, d, rest)) (md_dest (drop 2 r))
        else None
      else None)"

lemma mdlink_at_length: "mdlink_at s = Some (img, d, rest) \<Longrightarrow> length rest < length s"
proof -
  define s1 where "s1 = (if has_prefix s ''!'' then drop 1 s else s)"
  define r where "r = dropWhile (\<lambda>c. c \<noteq> CHR '']'') (drop 1 s1)"
  assume "mdlink_at s = Some (img, d, rest)"
  then have "md_dest (drop 2 r) = Some (d, rest)"
    unfolding mdlink_at_def Let_def s1_def [symmetric] r_def [symmetric]
    by (auto split: if_splits)
  from md_dest_length [OF this] have "length rest < length r" by simp
  also have "\<dots> \<le> length (drop 1 s1)" unfolding r_def by (rule length_dropWhile_le)
  also have "\<dots> \<le> length s" by (simp add: s1_def)
  finally show ?thesis .
qed

function find_mdlinks :: "string \<Rightarrow> (bool \<times> string) list" where
  "find_mdlinks [] = []"
| "find_mdlinks (c # cs) =
     (case mdlink_at (c # cs) of
        Some (img, d, rest) \<Rightarrow> (img, d) # find_mdlinks rest
      | None \<Rightarrow> find_mdlinks cs)"
  by pat_completeness auto
termination by (relation "measure length") (auto dest: mdlink_at_length)

section \<open>Interpreting a match\<close>

definition parse_markdown_destination :: "string \<Rightarrow> link option" where
  "parse_markdown_destination dest0 =
     (let dest1 = trim_space dest0;
          dest2 = (case index_any dest1 [CHR '' '', CHR 0x09] of
                     None \<Rightarrow> dest1
                   | Some i \<Rightarrow>
                       let rest = trim_space (drop (i + 1) dest1) in
                       if has_prefix rest [CHR 0x22] \<or> has_prefix rest [CHR 0x27] \<or>
                          has_prefix rest ''(''
                       then take i dest1 else dest1);
          dest = trim_suffix (trim_prefix dest2 ''<'') ''>''
      in if dest = [] \<or> has_prefix dest ''#'' then None
         else if str_contains dest ''://'' \<or> has_prefix dest ''mailto:'' then None
         else
           let (target, anchor, found) = str_cut dest (CHR ''#'') in
           if found then
             if target = [] then None
             else Some (zero_link\<lparr> lk_type := ''reference'', lk_style := style_markdown,
                          lk_target := target, lk_anchor := anchor \<rparr>)
           else Some (zero_link\<lparr> lk_type := ''reference'', lk_style := style_markdown,
                        lk_target := dest \<rparr>))"

definition split_link_type :: "string \<Rightarrow> string \<times> string" where
  "split_link_type inner =
     (case index_of inner '':'' of
        Some idx \<Rightarrow> if idx > 0 then (take idx inner, drop (idx + 1) inner)
                    else (''reference'', inner)
      | None \<Rightarrow> (''reference'', inner))"

definition parse_wikilink_inner :: "string \<Rightarrow> link option" where
  "parse_wikilink_inner inner =
     (let (ty, tgt) = split_link_type inner; (target, anchor, found) = str_cut tgt (CHR ''#'') in
      if found then
        if target = [] then None
        else Some (zero_link\<lparr> lk_type := ty, lk_target := target, lk_style := style_wikilink,
                     lk_anchor := anchor \<rparr>)
      else Some (zero_link\<lparr> lk_type := ty, lk_target := tgt, lk_style := style_wikilink \<rparr>))"

section \<open>Inline code\<close>

function remove_inline_code :: "string \<Rightarrow> string" where
  "remove_inline_code [] = []"
| "remove_inline_code (c # cs) =
     (if c = CHR ''`'' then
        let run = takeWhile (\<lambda>x. x = CHR ''`'') (c # cs); ticks = length run;
            rest = drop ticks (c # cs)
        in case index_of rest (replicate ticks (CHR ''`'')) of
             Some stop \<Rightarrow>
               replicate (ticks + stop + ticks) (CHR '' '') @ remove_inline_code (drop (stop + ticks) rest)
           | None \<Rightarrow> run @ remove_inline_code rest
      else c # remove_inline_code cs)"
  by pat_completeness auto
termination
  by (relation "measure length") auto

section \<open>\<open>ParseLinks\<close>\<close>

definition at_line :: "nat \<Rightarrow> link \<Rightarrow> link" where
  "at_line n l = l\<lparr> lk_line := n, lk_source := ''body'' \<rparr>"

definition links_of_line :: "nat \<Rightarrow> string \<Rightarrow> link list" where
  "links_of_line n line =
     (let cleaned = remove_inline_code line in
      map (at_line n) (List.map_filter parse_wikilink_inner (find_wikilinks cleaned)) @
      map (at_line n)
        (List.map_filter (\<lambda>(img, d). if img then None else parse_markdown_destination d)
          (find_mdlinks cleaned)))"

fun link_lines :: "nat \<Rightarrow> fence \<Rightarrow> string list \<Rightarrow> link list" where
  "link_lines n fence [] = []"
| "link_lines n fence (line # lines) =
     (case fence_info (trim_space line) of
        Some (c, run_len) \<Rightarrow>
          link_lines (n + 1)
            (case fence of
               None \<Rightarrow> Some (c, run_len)
             | Some (fc, fl) \<Rightarrow> if c = fc \<and> run_len \<ge> fl then None else fence) lines
      | None \<Rightarrow>
          (if fence \<noteq> None then link_lines (n + 1) fence lines
           else links_of_line n line @ link_lines (n + 1) None lines))"

definition parse_links :: "string \<Rightarrow> link list" where
  "parse_links body = link_lines 1 None (split_on LF body)"

section \<open>Frontmatter links\<close>

definition parse_wikilinks_from_string :: "string \<Rightarrow> link list" where
  "parse_wikilinks_from_string s = List.map_filter parse_wikilink_inner (find_wikilinks s)"

definition frontmatter_value_links :: "string \<Rightarrow> val \<Rightarrow> link list" where
  "frontmatter_value_links key v =
     map (\<lambda>l. l\<lparr> lk_source := ''frontmatter:'' @ key \<rparr>)
       (case v of
          VStr s \<Rightarrow> parse_wikilinks_from_string s
        | VList xs \<Rightarrow>
            concat (map (\<lambda>x. case x of VStr s \<Rightarrow> parse_wikilinks_from_string s | _ \<Rightarrow> []) xs)
        | _ \<Rightarrow> [])"

definition parse_frontmatter_links :: "vmap \<Rightarrow> link list" where
  "parse_frontmatter_links fm = concat (map (\<lambda>(k, v). frontmatter_value_links k v) fm)"

definition contains_wikilink :: "string \<Rightarrow> bool" where
  "contains_wikilink s = (find_wikilinks s \<noteq> [])"

section \<open>Links of an AST block\<close>

definition line_from_offset :: "string \<Rightarrow> nat \<Rightarrow> nat" where
  "line_from_offset source offset = 1 + length (filter (\<lambda>c. c = LF) (take offset source))"

definition ast_wikilink :: "nat \<Rightarrow> string \<Rightarrow> link" where
  "ast_wikilink n inner =
     (let (ty, tgt) = split_link_type inner in
      zero_link\<lparr> lk_line := n, lk_style := style_wikilink, lk_type := ty, lk_target := tgt \<rparr>)"

definition extract_links_from_lines :: "string \<Rightarrow> (nat \<times> nat) list \<Rightarrow> link list" where
  "extract_links_from_lines source segs =
     concat (map (\<lambda>(start, stop).
       let n = line_from_offset source start; cleaned = remove_inline_code (slice source start stop) in
       map (ast_wikilink n) (find_wikilinks cleaned) @
       map (at_line n)
         (List.map_filter (\<lambda>(img, d). if img then None else parse_markdown_destination d)
           (find_mdlinks cleaned))) segs)"

text \<open>
  The goldmark block tree as \<open>walkBlocks\<close> reads it: whether a block is a code block, whether it has
  children, its own lines, and its block children.
\<close>

datatype ast_block = AstBlock (is_code: bool) (has_children: bool) (ast_lines: "(nat \<times> nat) list")
  (ast_children: "ast_block list")

fun walk_blocks :: "string \<Rightarrow> ast_block list \<Rightarrow> link list" where
  "walk_blocks source [] = []"
| "walk_blocks source (AstBlock code kids segs children # rest) =
     (if code \<or> \<not> kids then []
      else extract_links_from_lines source segs @ walk_blocks source children) @
     walk_blocks source rest"

section \<open>Bold-colon metadata\<close>

definition re_space :: "char \<Rightarrow> bool" where
  "re_space c = (c \<in> {CHR 0x09, CHR 0x0A, CHR 0x0C, CHR 0x0D, CHR '' ''})"

text \<open>\<open>boldColonRe\<close> at the front of the text: key, value and what follows.\<close>

definition bold_at :: "string \<Rightarrow> (string \<times> string \<times> string) option" where
  "bold_at s =
     (if has_prefix s ''**'' then
        let key = takeWhile (\<lambda>c. c \<noteq> CHR ''*'') (drop 2 s);
            r = dropWhile (\<lambda>c. c \<noteq> CHR ''*'') (drop 2 s)
        in if key \<noteq> [] \<and> has_prefix r ''**:'' then
             let after = drop 3 r; v = dropWhile re_space after in
             if v \<noteq> [] then
               Some (key, takeWhile (\<lambda>c. c \<noteq> LF) v, dropWhile (\<lambda>c. c \<noteq> LF) v)
             else if \<exists>c \<in> set after. c \<noteq> LF then Some (key, '' '', [])
             else None
           else None
      else None)"

lemma bold_at_length: "bold_at s = Some (k, v, rest) \<Longrightarrow> length rest < length s"
proof -
  assume a: "bold_at s = Some (k, v, rest)"
  define r where "r = dropWhile (\<lambda>c. c \<noteq> CHR ''*'') (drop 2 s)"
  define w where "w = dropWhile re_space (drop 3 r)"
  from a have p: "has_prefix s ''**''" "rest = dropWhile (\<lambda>c. c \<noteq> LF) w \<or> rest = []"
    unfolding bold_at_def Let_def r_def [symmetric] w_def [symmetric]
    by (auto split: if_splits)
  have "length (dropWhile (\<lambda>c. c \<noteq> LF) w) \<le> length w" by (rule length_dropWhile_le)
  also have "\<dots> \<le> length (drop 3 r)" unfolding w_def by (rule length_dropWhile_le)
  also have "\<dots> \<le> length r" by simp
  also have "\<dots> \<le> length (drop 2 s)" unfolding r_def by (rule length_dropWhile_le)
  finally have "length (dropWhile (\<lambda>c. c \<noteq> LF) w) \<le> length s - 2" by simp
  moreover have "2 \<le> length s" using has_prefix_length [OF p(1)] by simp
  ultimately show ?thesis using p(2) by auto
qed

function find_bold :: "string \<Rightarrow> (string \<times> string) list" where
  "find_bold [] = []"
| "find_bold (c # cs) =
     (case bold_at (c # cs) of
        Some (k, v, rest) \<Rightarrow> (k, v) # find_bold rest
      | None \<Rightarrow> find_bold cs)"
  by pat_completeness auto
termination by (relation "measure length") (auto dest: bold_at_length)

definition scan_body_fields :: "string \<Rightarrow> (string \<times> string) list" where
  "scan_body_fields body =
     foldl (\<lambda>m (k, v). AList.update (to_lower k) (trim_space v) m) [] (find_bold body)"

section \<open>Lemmas\<close>

lemma wikilink_at_render:
  assumes "inner \<noteq> []" "CHR '']'' \<notin> set inner"
  shows "wikilink_at (''[['' @ inner @ '']]'' @ rest) = Some (inner, rest)"
proof -
  have "takeWhile (\<lambda>c. c \<noteq> CHR '']'') (inner @ '']]'' @ rest) = inner"
    "dropWhile (\<lambda>c. c \<noteq> CHR '']'') (inner @ '']]'' @ rest) = '']]'' @ rest"
    using assms(2) by (subst takeWhile_append2 dropWhile_append2; force)+
  then show ?thesis using assms(1) by (simp add: wikilink_at_def Let_def numeral_eq_Suc)
qed

lemma find_wikilinks_render:
  assumes "inner \<noteq> []" "CHR '']'' \<notin> set inner"
  shows "find_wikilinks (''[['' @ inner @ '']]'' @ rest) = inner # find_wikilinks rest"
  using wikilink_at_render [OF assms, of rest] by simp

lemma has_prefix_dropWhile_contains:
  "has_prefix (dropWhile P s) p \<Longrightarrow> str_contains s p"
  by (metis append_assoc has_prefix_iff str_contains_iff takeWhile_dropWhile_id)

lemma str_contains_drop: "str_contains (drop n s) p \<Longrightarrow> str_contains s p"
  by (metis append_assoc append_take_drop_id str_contains_iff)

lemma str_contains_Cons: "str_contains s p \<Longrightarrow> str_contains (c # s) p"
  by (metis append_Cons str_contains_iff)

lemma mdlink_at_contains: "mdlink_at s = Some x \<Longrightarrow> str_contains s ''](''"
  by (auto simp: mdlink_at_def Let_def split: if_splits
      dest!: has_prefix_dropWhile_contains intro: str_contains_drop)

lemma find_mdlinks_none: "\<not> str_contains s ''](''  \<Longrightarrow> find_mdlinks s = []"
proof (induction s)
  case (Cons c cs)
  then have "mdlink_at (c # cs) = None" using mdlink_at_contains [of "c # cs"] by (cases "mdlink_at (c # cs)") auto
  with Cons show ?case by (auto dest: str_contains_Cons)
qed simp

lemma remove_inline_code_plain: "CHR ''`'' \<notin> set s \<Longrightarrow> remove_inline_code s = s"
  by (induction s) auto

lemma run_drop: "takeWhile P s @ drop (length (takeWhile P s)) s = s"
  by (metis append_take_drop_id takeWhile_eq_take)

text \<open>Every byte of the cleaned line is the original byte or a space.\<close>

lemma remove_inline_code_bytes:
  "list_all2 (\<lambda>a b. a = b \<or> a = CHR '' '') (remove_inline_code s) s"
proof (induction s rule: remove_inline_code.induct)
  case (2 c cs)
  show ?case
  proof (cases "c = CHR ''`''")
    case False
    with 2 show ?thesis by simp
  next
    case True
    let ?s = "c # cs"
    define run where "run = takeWhile (\<lambda>x. x = CHR ''`'') ?s"
    define rest where "rest = drop (length run) ?s"
    have s: "?s = run @ rest" unfolding run_def rest_def by (rule run_drop [symmetric])
    show ?thesis
    proof (cases "index_of rest (replicate (length run) (CHR ''`''))")
      case None
      with True have "remove_inline_code ?s = run @ remove_inline_code rest"
        by (simp add: run_def rest_def Let_def)
      moreover have "list_all2 (\<lambda>a b. a = b \<or> a = CHR '' '') (run @ remove_inline_code rest) (run @ rest)"
        using "2.IH"(1) [OF True run_def refl rest_def None]
        by (rule list_all2_appendI [rotated]) (simp add: list_all2_refl)
      ultimately show ?thesis by (simp only: s)
    next
      case (Some stop)
      let ?k = "length run + stop + length run"
      from True Some have r: "remove_inline_code ?s =
          replicate ?k (CHR '' '') @ remove_inline_code (drop (stop + length run) rest)"
        by (simp add: run_def rest_def Let_def)
      have le: "stop + length run \<le> length rest" using index_of_le [OF Some] by simp
      have "?s = (run @ take (stop + length run) rest) @ drop (stop + length run) rest"
        using s by simp
      moreover have "list_all2 (\<lambda>a b. a = b \<or> a = CHR '' '') (replicate ?k (CHR '' ''))
          (run @ take (stop + length run) rest)"
        using le by (simp add: list_all2_conv_all_nth add.assoc)
      ultimately show ?thesis
        unfolding r using "2.IH"(2) [OF True run_def refl rest_def Some]
        by (simp only: list_all2_appendI)
    qed
  qed
qed simp

lemma index_of_char_split: "CHR '':'' \<notin> set ty \<Longrightarrow> index_of (ty @ CHR '':'' # t) '':'' = Some (length ty)"
  by (rule index_of_char_append)

lemma str_cut_found: "c \<notin> set a \<Longrightarrow> str_cut (a @ c # b) c = (a, b, True)"
  by (simp add: str_cut_def index_of_char_append)

lemma str_cut_absent: "c \<notin> set a \<Longrightarrow> str_cut a c = (a, [], False)"
  by (simp add: str_cut_def index_of_char_None)

section \<open>Properties\<close>

text \<open>The text of a typed wikilink.\<close>

definition render_wikilink :: "link \<Rightarrow> string" where
  "render_wikilink l =
     ''[['' @ lk_type l @ '':'' @ lk_target l @
       (if lk_anchor l = [] then [] else CHR ''#'' # lk_anchor l) @ '']]''"

definition plain_link :: "link \<Rightarrow> bool" where
  "plain_link l =
     (lk_type l \<noteq> [] \<and> lk_target l \<noteq> [] \<and> CHR '':'' \<notin> set (lk_type l) \<and>
      CHR ''#'' \<notin> set (lk_target l) \<and> lk_line l = 1 \<and> lk_source l = ''body'' \<and>
      lk_style l = style_wikilink \<and> lk_resolution l = [] \<and>
      (\<forall>c \<in> set (lk_type l) \<union> set (lk_target l) \<union> set (lk_anchor l).
         c \<notin> {CHR '']'', CHR ''`'', LF}))"

lemma parse_wikilink_inner_render:
  assumes "plain_link l"
  shows "parse_wikilink_inner (lk_type l @ '':'' @ lk_target l @
       (if lk_anchor l = [] then [] else CHR ''#'' # lk_anchor l)) =
     Some (l\<lparr> lk_line := 0, lk_source := [] \<rparr>)"
proof -
  have ty: "CHR '':'' \<notin> set (lk_type l)" "lk_type l \<noteq> []" using assms by (simp_all add: plain_link_def)
  then have "split_link_type (lk_type l @ '':'' @ t) = (lk_type l, t)" for t
    using index_of_char_split [OF ty(1), of t] by (simp add: split_link_type_def)
  then show ?thesis
    using assms
    by (cases "lk_anchor l = []")
      (auto simp: parse_wikilink_inner_def plain_link_def str_cut_found str_cut_absent zero_link_def)
qed

lemma plain_link_chars: "plain_link l \<Longrightarrow> c \<in> set (render_wikilink l) \<Longrightarrow> c \<noteq> CHR ''`'' \<and> c \<noteq> LF"
  by (auto simp: plain_link_def render_wikilink_def split: if_splits)

lemma render_no_mdlink:
  assumes "plain_link l" shows "\<not> str_contains (render_wikilink l) ''](''"
proof
  assume "str_contains (render_wikilink l) ''](''"
  then obtain a b where ab: "render_wikilink l = a @ ''](''  @ b" by (auto simp: str_contains_iff)
  define m where "m = ''[['' @ lk_type l @ '':'' @ lk_target l @
       (if lk_anchor l = [] then [] else CHR ''#'' # lk_anchor l)"
  have m: "CHR '']'' \<notin> set m" using assms by (auto simp: m_def plain_link_def)
  have eq: "m @ '']]'' = a @ ''](''  @ b" using ab by (simp add: m_def render_wikilink_def)
  have "length m \<le> length a"
  proof (rule ccontr)
    assume "\<not> length m \<le> length a"
    then have "m ! length a = (m @ '']]'') ! length a" by (simp add: nth_append)
    also have "\<dots> = CHR '']''" unfolding eq by (simp add: nth_append)
    finally have "CHR '']'' \<in> set m" using \<open>\<not> length m \<le> length a\<close> by (metis not_le nth_mem)
    with m show False ..
  qed
  moreover have "length a + 2 \<le> length m + 2" using arg_cong [OF eq, of length] by simp
  ultimately have "length a = length m" by simp
  with eq show False by simp
qed

text \<open>C28: A typed wiki-link written on a line of its own is read back exactly: type, target and anchor
  survive printing and parsing, and nothing else on the line is mistaken for a link.\<close>

theorem link_roundtrip:
  assumes "plain_link l"
  shows "parse_links (render_wikilink l) = [l]"
proof -
  let ?r = "render_wikilink l"
  let ?inner = "lk_type l @ '':'' @ lk_target l @
       (if lk_anchor l = [] then [] else CHR ''#'' # lk_anchor l)"
  have r: "?r = ''[['' @ ?inner @ '']]''" by (simp add: render_wikilink_def)
  have chars: "LF \<notin> set ?r" "CHR ''`'' \<notin> set ?r" using plain_link_chars [OF assms] by blast+
  have wl: "find_wikilinks ?r = [?inner]"
  proof -
    have i1: "?inner \<noteq> []" by simp
    have i2: "CHR '']'' \<notin> set ?inner" using assms by (auto simp: plain_link_def)
    from find_wikilinks_render [OF i1 i2, of "[]"] show ?thesis
      unfolding r append_Nil2 by (simp only: find_wikilinks.simps(1))
  qed
  have md: "find_mdlinks ?r = []" by (rule find_mdlinks_none [OF render_no_mdlink [OF assms]])
  have "at_line 1 (l\<lparr> lk_line := 0, lk_source := [] \<rparr>) = l"
    using assms by (simp add: at_line_def plain_link_def)
  then have "links_of_line 1 ?r = [l]"
    unfolding links_of_line_def Let_def remove_inline_code_plain [OF chars(2)] wl md
    by (simp only: map_filter_simps parse_wikilink_inner_render [OF assms] option.case
        list.map append_Nil2)
  moreover have "trim_space ?r = ?r"
    by (rule trim_space_id) (simp add: render_wikilink_def is_space_def)
  moreover have "fence_info ?r = None" by (simp add: render_wikilink_def fence_info_def)
  ultimately show ?thesis
    by (simp add: parse_links_def split_on_no_sep [OF chars(1)])
qed

theorem link_roundtrip_witness:
  "parse_links ''[[blocks:tasks/T1.md#Done]]'' =
     [\<lparr> lk_target = ''tasks/T1.md'', lk_type = ''blocks'', lk_line = 1, lk_source = ''body'',
        lk_style = ''wikilink'', lk_anchor = ''Done'', lk_resolution = [] \<rparr>]"
  using link_roundtrip [of "\<lparr> lk_target = ''tasks/T1.md'', lk_type = ''blocks'', lk_line = 1,
      lk_source = ''body'', lk_style = ''wikilink'', lk_anchor = ''Done'', lk_resolution = [] \<rparr>"]
  by (simp add: plain_link_def render_wikilink_def)

lemma link_lines_fenced:
  assumes "\<forall>l \<in> set content. case fence_info (trim_space l) of None \<Rightarrow> True
      | Some (c, k) \<Rightarrow> \<not> (c = fc \<and> k \<ge> fl)"
  shows "link_lines n (Some (fc, fl)) (content @ rest) =
     link_lines (n + length content) (Some (fc, fl)) rest"
  using assms
  by (induction content arbitrary: n) (auto split: option.splits prod.splits)

text \<open>A fenced code block hides its content: between an opening fence and the first line that closes
  it (same marker, at least as long), no line contributes a link, and parsing resumes after it with the line numbers intact.\<close>

theorem fenced_content_ignored:
  assumes "fence_info (trim_space opener) = Some (fc, fl)"
    and "\<forall>l \<in> set content. case fence_info (trim_space l) of None \<Rightarrow> True
      | Some (c, k) \<Rightarrow> \<not> (c = fc \<and> k \<ge> fl)"
    and "fence_info (trim_space closer) = Some (fc, k)" "k \<ge> fl"
  shows "link_lines n None (opener # content @ closer # rest) =
     link_lines (n + length content + 2) None rest"
  using assms link_lines_fenced [OF assms(2), of "n + 1" "closer # rest"]
  by (simp add: add.commute add.left_commute)

theorem fenced_content_ignored_witness:
  "link_lines 1 None (''```go'' # [''x [[a]] ~~~''] @ ''````'' # [''[[b]]'']) =
     link_lines 4 None [''[[b]]'']"
  using fenced_content_ignored [of "''```go''" "CHR ''`''" 3 "[''x [[a]] ~~~'']" "''````''" 4 1
      "[''[[b]]'']"]
  by (simp add: trim_space_def is_space_def fence_info_def eval_nat_numeral)

text \<open>Inline-code stripping never moves a byte: the cleaned line has the length of the line, and
  each byte is the original one or a space, so positions found in it are valid for the line.\<close>

theorem inline_code_preserves_positions:
  "length (remove_inline_code line) = length line \<and>
     (\<forall>i < length line. remove_inline_code line ! i \<in> {line ! i, CHR '' ''})"
  using remove_inline_code_bytes [of line] by (auto simp: list_all2_conv_all_nth)

lemma trim_suffix_contains: "str_contains (trim_suffix s p) q \<Longrightarrow> str_contains s q"
  by (auto simp: trim_suffix_def str_contains_iff) (metis append_assoc append_take_drop_id)

text \<open>A markdown destination that is kept names a local path: the target is not empty, carries no
  fragment, and is neither a URL nor a mail address.\<close>

theorem markdown_destination_local:
  assumes "parse_markdown_destination dest = Some l"
  shows "lk_target l \<noteq> [] \<and> CHR ''#'' \<notin> set (lk_target l) \<and>
     \<not> str_contains (lk_target l) ''://'' \<and> \<not> has_prefix (lk_target l) ''mailto:'' \<and>
     lk_style l = style_markdown"
proof -
  obtain d where d: "d \<noteq> []" "\<not> str_contains d ''://''" "\<not> has_prefix d ''mailto:''"
    and l: "(case str_cut d (CHR ''#'') of (target, anchor, found) \<Rightarrow>
       if found then
         if target = [] then None
         else Some (zero_link\<lparr> lk_type := ''reference'', lk_style := style_markdown,
                      lk_target := target, lk_anchor := anchor \<rparr>)
       else Some (zero_link\<lparr> lk_type := ''reference'', lk_style := style_markdown,
                    lk_target := d \<rparr>)) = Some l"
    using assms by (auto simp: parse_markdown_destination_def Let_def split: if_splits)
  show ?thesis
  proof (cases "index_of d ''#''")
    case None
    then have "CHR ''#'' \<notin> set d"
      by (metis append_Cons append_Nil index_of_None_iff split_list)
    with None l d show ?thesis by (auto simp: str_cut_def)
  next
    case (Some i)
    then have t: "lk_target l = take i d" "take i d \<noteq> []" "lk_style l = style_markdown"
      using l by (auto simp: str_cut_def split: if_splits)
    have "CHR ''#'' \<notin> set (take i d)"
      using Some by (induction d arbitrary: i) (auto split: if_splits)
    moreover have "\<not> str_contains (take i d) ''://''"
      using d(2) by (metis append_assoc append_take_drop_id str_contains_iff)
    moreover have "\<not> has_prefix (take i d) ''mailto:''"
      using d(3) by (metis append_assoc append_take_drop_id has_prefix_iff)
    ultimately show ?thesis using t by simp
  qed
qed

theorem markdown_destination_local_witness:
  "parse_markdown_destination ''foo.md#top'' \<noteq> None \<and>
   CHR ''#'' \<notin> set (lk_target (the (parse_markdown_destination ''foo.md#top'')))"
proof -
  have "parse_markdown_destination ''foo.md#top'' \<noteq> None" by code_simp
  then show ?thesis using markdown_destination_local [of "''foo.md#top''"] by auto
qed

text \<open>A line holding an inline code span of three backticks reads as an opening fence.\<close>

lemma inline_span_read_as_fence:
  "parse_links (''```x```'' @ LF # ''[[a]]'') = []"
  by code_simp

end
