(* ===== verification/Body_Sections.thy ===== *)
theory Body_Sections
  imports Link_Parsing
begin

text \<open>
  Sections of a Markdown body and the selectors that name them: \<open>internal/extract/body.go\<close> and
  \<open>body_source.go\<close>. Goldmark's parse of a body is a parameter \<open>gm\<close>: it gives, for a text, the
  top-level headings of its AST with their position and the segments of their lines. Everything
  the code computes from them is modelled. \<open>strconv.Quote\<close> is \<^const>\<open>go_quote\<close>, and
  \<open>strconv.Unquote\<close> is written out below for valid UTF-8 input.
\<close>

section \<open>Types\<close>

record heading_key =
  hk_level :: nat
  hk_text :: string

record doc_section =
  sec_heading :: string
  sec_level :: nat
  sec_path :: "heading_key list"
  sec_content :: string
  sec_start_line :: nat

record ast_heading =
  ah_level :: nat
  ah_pos :: int
  ah_segments :: "(nat \<times> nat) list"

record doc =
  rc_path :: string
  rc_type :: string
  rc_frontmatter :: vmap
  rc_body :: string
  rc_sections :: "(string \<times> string) list option"
  rc_body_sections :: "doc_section list option"
  rc_ast :: "ast_heading list option"
  rc_links :: "link list"
  rc_derived :: vmap
  rc_errors :: "(nat \<times> string) list"

definition zero_doc :: doc where
  "zero_doc = \<lparr> rc_path = [], rc_type = [], rc_frontmatter = [], rc_body = [], rc_sections = None,
     rc_body_sections = None, rc_ast = None, rc_links = [], rc_derived = [], rc_errors = [] \<rparr>"

definition effective_field :: "doc \<Rightarrow> string \<Rightarrow> val option" where
  "effective_field r key =
     (case map_of (rc_derived r) key of Some v \<Rightarrow> Some v | None \<Rightarrow> map_of (rc_frontmatter r) key)"

section \<open>Lines of the source\<close>

definition line_starts :: "string \<Rightarrow> nat list" where
  "line_starts source = 0 # map Suc (filter (\<lambda>i. source ! i = LF) [0..<length source])"

text \<open>\<open>lineForOffset\<close>: \<open>sort.Search\<close> for the first start beyond the clamped offset.\<close>

definition line_for_offset :: "string \<Rightarrow> int \<Rightarrow> nat" where
  "line_for_offset source offset =
     (let o' = (if offset < 0 then 0 else if offset > int (length source) then length source
                else nat offset)
      in length (takeWhile (\<lambda>s. s \<le> o') (line_starts source)))"

definition line_offset :: "string \<Rightarrow> nat \<Rightarrow> nat" where
  "line_offset source line =
     (let starts = line_starts source in
      if line \<le> 1 then 0
      else if line > length starts then length source
      else starts ! (line - 1))"

section \<open>Heading lines\<close>

definition parse_atx_heading :: "string \<Rightarrow> (nat \<times> string) option" where
  "parse_atx_heading line0 =
     (let line = trim_right_chars [CR] line0;
          indent = length (takeWhile (\<lambda>c. c = CHR '' '') line)
      in if indent > 3 then None
         else
           let rest = drop indent line; level = length (takeWhile (\<lambda>c. c = CHR ''#'') rest) in
           if level = 0 \<or> level > 6 \<or>
              (level < length rest \<and> rest ! level \<noteq> CHR '' '' \<and> rest ! level \<noteq> CHR 0x09) then None
           else
             let txt = trim_space (drop level rest);
                 stem = rev (dropWhile (\<lambda>c. c = CHR ''#'') (rev txt))
             in Some (level,
                  if stem = txt then txt
                  else if stem = [] then []
                  else if last stem = CHR '' '' \<or> last stem = CHR 0x09
                  then trim_space (butlast stem)
                  else txt))"

definition parse_setext_underline :: "string \<Rightarrow> nat option" where
  "parse_setext_underline line0 =
     (let line = trim_right_chars [CR, LF] line0;
          indent = length (takeWhile (\<lambda>c. c = CHR '' '') line)
      in if indent > 3 then None
         else
           let rest = trim_space (drop indent line) in
           case rest of
             [] \<Rightarrow> None
           | c # _ \<Rightarrow>
               if c \<noteq> CHR ''='' \<and> c \<noteq> CHR ''-'' then None
               else if \<exists>x \<in> set rest. x \<noteq> c then None
               else if c = CHR ''='' then Some 1 else Some 2)"

section \<open>\<open>ExtractSections\<close>\<close>

record heading_info =
  hi_text :: string
  hi_level :: nat
  hi_start_line :: nat
  hi_start :: nat
  hi_end :: nat

definition heading_info_of :: "string \<Rightarrow> ast_heading \<Rightarrow> heading_info" where
  "heading_info_of source h =
     (let segs = ah_segments h;
          position = (if ah_pos h < 0 \<and> segs \<noteq> [] then int (fst (hd segs)) else ah_pos h);
          start_line = line_for_offset source position;
          start_off = line_offset source start_line;
          line_end = line_offset source (start_line + 1);
          (txt, end_off) =
            (case parse_atx_heading (slice source start_off line_end) of
               Some (_, t) \<Rightarrow> (t, line_end)
             | None \<Rightarrow>
                 if segs = [] then ([], line_end)
                 else
                   let (s, e) = last segs;
                       last_line = line_for_offset source (int s);
                       u_start = line_offset source (last_line + 1);
                       u_end = line_offset source (last_line + 2)
                   in (trim_space (concat (map (\<lambda>(a, b). slice source a b) segs)),
                       if parse_setext_underline (slice source u_start u_end) \<noteq> None
                       then u_end else e))
      in \<lparr> hi_text = txt, hi_level = ah_level h, hi_start_line = start_line,
           hi_start = start_off, hi_end = end_off \<rparr>)"

fun cut_sections :: "string \<Rightarrow> heading_info list \<Rightarrow> doc_section list" where
  "cut_sections source [] = []"
| "cut_sections source (h # hs) =
     (let content_end = (case hs of [] \<Rightarrow> length source | h' # _ \<Rightarrow> hi_start h') in
      \<lparr> sec_heading = hi_text h, sec_level = hi_level h, sec_path = [],
        sec_content = (if hi_end h < content_end
                       then trim_space (slice source (hi_end h) content_end) else []),
        sec_start_line = hi_start_line h \<rparr> # cut_sections source hs)"

text \<open>\<open>sectionsWithPaths\<close>: the stack of open headings, popped from its end.\<close>

definition pop_levels :: "nat \<Rightarrow> heading_key list \<Rightarrow> heading_key list" where
  "pop_levels lvl path = rev (dropWhile (\<lambda>k. hk_level k \<ge> lvl) (rev path))"

fun assign_paths :: "heading_key list \<Rightarrow> doc_section list \<Rightarrow> doc_section list" where
  "assign_paths path [] = []"
| "assign_paths path (s # ss) =
     (if sec_level s = 0 then s\<lparr> sec_path := [] \<rparr> # assign_paths path ss
      else
        let path' = pop_levels (sec_level s) path @
              [\<lparr> hk_level = sec_level s, hk_text = sec_heading s \<rparr>]
        in s\<lparr> sec_path := path' \<rparr> # assign_paths path' ss)"

definition sections_with_paths :: "doc_section list \<Rightarrow> doc_section list" where
  "sections_with_paths ss = assign_paths [] ss"

definition extract_sections :: "ast_heading list \<Rightarrow> string \<Rightarrow> doc_section list" where
  "extract_sections headings source =
     (if headings = [] then
        [\<lparr> sec_heading = [], sec_level = 0, sec_path = [], sec_content = source,
           sec_start_line = 1 \<rparr>]
      else sections_with_paths (cut_sections source (map (heading_info_of source) headings)))"

definition extract_sections_from_text :: "(string \<Rightarrow> ast_heading list) \<Rightarrow> string \<Rightarrow> doc_section list" where
  "extract_sections_from_text gm body = extract_sections (gm body) body"

section \<open>Plain-text extraction\<close>

definition extract_body_h1 :: "string \<Rightarrow> string" where
  "extract_body_h1 body =
     (case filter (\<lambda>l. has_prefix l ''# '') (map trim_space (split_on LF body)) of
        [] \<Rightarrow> []
      | l # _ \<Rightarrow> trim_space (trim_prefix l ''# ''))"

fun body_section_loop :: "string \<Rightarrow> bool \<Rightarrow> string list \<Rightarrow> string list" where
  "body_section_loop heading seen [] = []"
| "body_section_loop heading seen (line # lines) =
     (let trimmed = trim_space line in
      if trimmed = heading then body_section_loop heading True lines
      else if seen then
        if has_prefix trimmed ''#'' \<and> trimmed \<noteq> [] then []
        else if trimmed \<noteq> [] then line # body_section_loop heading seen lines
        else body_section_loop heading seen lines
      else body_section_loop heading seen lines)"

definition extract_body_section :: "string \<Rightarrow> string \<Rightarrow> string" where
  "extract_body_section body heading =
     (let result = body_section_loop heading False (split_on LF body) in
      if result \<noteq> [] then trim_space (join_with [LF] result) else [])"

section \<open>Heading keys and selectors\<close>

definition exact_heading :: "heading_key \<Rightarrow> string" where
  "exact_heading k = replicate (hk_level k) (CHR ''#'') @ '' '' @ hk_text k"

definition parse_heading_key :: "string \<Rightarrow> go_error + heading_key" where
  "parse_heading_key heading =
     (let level = length (takeWhile (\<lambda>c. c = CHR ''#'') heading) in
      if level < 1 \<or> level > 6 \<or> level \<ge> length heading \<or> heading ! level \<noteq> CHR '' '' then
        Inl (Err (''section source heading must contain 1 to 6 hashes and one space, got '' @
          go_quote heading))
      else Inr \<lparr> hk_level = level, hk_text = drop (level + 1) heading \<rparr>)"

text \<open>\<open>quotedStringEnd\<close>: the index of the closing quote.\<close>

fun dq_end :: "bool \<Rightarrow> string \<Rightarrow> nat option" where
  "dq_end escaped [] = None"
| "dq_end escaped (c # cs) =
     (if escaped then map_option Suc (dq_end False cs)
      else if c = CHR 0x5C then map_option Suc (dq_end True cs)
      else if c = CHR 0x22 then Some 0
      else map_option Suc (dq_end False cs))"

definition quoted_string_end :: "string \<Rightarrow> nat option" where
  "quoted_string_end quoted =
     (case quoted of
        [] \<Rightarrow> None
      | c # cs \<Rightarrow>
          if c = CHR ''`'' then map_option Suc (index_of cs [CHR ''`''])
          else if c = CHR 0x22 then map_option Suc (dq_end False cs)
          else None)"

text \<open>\<open>strconv.Unquote\<close> of the text between double quotes.\<close>

definition hex_val :: "char \<Rightarrow> nat option" where
  "hex_val c =
     (let n = of_char c :: nat in
      if 48 \<le> n \<and> n \<le> 57 then Some (n - 48)
      else if 97 \<le> n \<and> n \<le> 102 then Some (n - 87)
      else if 65 \<le> n \<and> n \<le> 70 then Some (n - 55) else None)"

fun hex_value :: "string \<Rightarrow> nat \<Rightarrow> nat option" where
  "hex_value [] acc = Some acc"
| "hex_value (c # cs) acc =
     (case hex_val c of None \<Rightarrow> None | Some v \<Rightarrow> hex_value cs (16 * acc + v))"

definition oct_val :: "char \<Rightarrow> nat option" where
  "oct_val c = (let n = of_char c :: nat in if 48 \<le> n \<and> n \<le> 55 then Some (n - 48) else None)"

definition utf8_encode :: "nat \<Rightarrow> string" where
  "utf8_encode n =
     (if n < 128 then [char_of n]
      else if n < 2048 then [char_of (192 + n div 64), char_of (128 + n mod 64)]
      else if n < 65536 then
        [char_of (224 + n div 4096), char_of (128 + n div 64 mod 64), char_of (128 + n mod 64)]
      else
        [char_of (240 + n div 262144), char_of (128 + n div 4096 mod 64),
         char_of (128 + n div 64 mod 64), char_of (128 + n mod 64)])"

definition valid_rune :: "nat \<Rightarrow> bool" where
  "valid_rune n = (n \<le> 1114111 \<and> \<not> (55296 \<le> n \<and> n \<le> 57343))"

definition simple_escape :: "char \<Rightarrow> char option" where
  "simple_escape e =
     (if e = CHR ''a'' then Some (CHR 0x07) else if e = CHR ''b'' then Some (CHR 0x08)
      else if e = CHR ''f'' then Some (CHR 0x0C) else if e = CHR ''n'' then Some (CHR 0x0A)
      else if e = CHR ''r'' then Some (CHR 0x0D) else if e = CHR ''t'' then Some (CHR 0x09)
      else if e = CHR ''v'' then Some (CHR 0x0B) else if e = CHR 0x5C then Some (CHR 0x5C)
      else if e = CHR 0x22 then Some (CHR 0x22) else None)"

text \<open>One escape after its backslash: the bytes it stands for and the rest.\<close>

definition read_escape :: "string \<Rightarrow> (string \<times> string) option" where
  "read_escape s =
     (case s of
        [] \<Rightarrow> None
      | e # r \<Rightarrow>
          (case simple_escape e of
             Some c \<Rightarrow> Some ([c], r)
           | None \<Rightarrow>
               if e = CHR ''x'' then
                 (if length r < 2 then None
                  else map_option (\<lambda>n. ([char_of n], drop 2 r)) (hex_value (take 2 r) 0))
               else if e = CHR ''u'' \<or> e = CHR ''U'' then
                 (let k = (if e = CHR ''u'' then 4 else 8) in
                  if length r < k then None
                  else case hex_value (take k r) 0 of
                    None \<Rightarrow> None
                  | Some n \<Rightarrow> if valid_rune n then Some (utf8_encode n, drop k r) else None)
               else
                 (case (oct_val e, map oct_val (take 2 r)) of
                    (Some a, [Some b, Some c]) \<Rightarrow>
                      if 64 * a + 8 * b + c > 255 then None
                      else Some ([char_of (64 * a + 8 * b + c)], drop 2 r)
                  | _ \<Rightarrow> None)))"

lemma read_escape_length: "read_escape s = Some (b, r) \<Longrightarrow> length r < length s"
  by (auto simp: read_escape_def Let_def split: list.splits option.splits if_splits)

function unquote_dq :: "string \<Rightarrow> string option" where
  "unquote_dq [] = Some []"
| "unquote_dq (c # cs) =
     (if c = CHR 0x22 \<or> c = LF then None
      else if c = CHR 0x5C then
        (case read_escape cs of
           None \<Rightarrow> None
         | Some (b, rest) \<Rightarrow> map_option (\<lambda>t. b @ t) (unquote_dq rest))
      else map_option (\<lambda>t. c # t) (unquote_dq cs))"
  by pat_completeness auto
termination by (relation "measure length") (auto dest: read_escape_length)

text \<open>
  \<open>strconv.Unquote\<close> of a quoted string whose delimiters have been located; a raw string loses its
  carriage returns.
\<close>

definition go_unquote :: "string \<Rightarrow> string option" where
  "go_unquote quoted =
     (let body = butlast (tl quoted) in
      if hd quoted = CHR ''`'' then
        (if CHR ''`'' \<in> set body then None else Some (filter (\<lambda>c. c \<noteq> CR) body))
      else unquote_dq body)"

definition malformed :: "string \<Rightarrow> go_error" where
  "malformed directive = Err (''malformed body section source '' @ go_quote directive)"

function selector_loop :: "string \<Rightarrow> heading_key list \<Rightarrow> string \<Rightarrow> go_error + heading_key list" where
  "selector_loop directive selector rest =
     (if rest = [] then Inr selector
      else if length rest < 4 \<or> hd rest \<noteq> CHR ''['' \<or> (rest ! 1 \<noteq> CHR 0x22 \<and> rest ! 1 \<noteq> CHR ''`'')
      then Inl (malformed directive)
      else
        (case quoted_string_end (tl rest) of
           None \<Rightarrow> Inl (malformed directive)
         | Some q \<Rightarrow>
             if q + 2 \<ge> length rest \<or> rest ! (q + 2) \<noteq> CHR '']'' then Inl (malformed directive)
             else
               (case go_unquote (take (q + 1) (tl rest)) of
                  None \<Rightarrow> Inl (malformed directive)
                | Some heading \<Rightarrow>
                    (case parse_heading_key heading of
                       Inl e \<Rightarrow> Inl e
                     | Inr key \<Rightarrow>
                         if selector \<noteq> [] \<and> hk_level key \<le> hk_level (last selector) then
                           Inl (Err (''section source heading levels must increase in '' @
                             go_quote directive))
                         else selector_loop directive (selector @ [key]) (drop (q + 3) rest)))))"
  by pat_completeness auto
termination by (relation "measure (\<lambda>(d, s, r). length r)") auto

declare selector_loop.simps [simp del]

definition parse_section_selector :: "string \<Rightarrow> go_error + heading_key list" where
  "parse_section_selector directive =
     (if \<not> has_prefix directive ''body.section'' then
        Inl (Err (''unsupported body source '' @ go_quote directive))
      else
        (case selector_loop directive [] (trim_prefix directive ''body.section'') of
           Inl e \<Rightarrow> Inl e
         | Inr sel \<Rightarrow> if sel = [] then Inl (malformed directive) else Inr sel))"

datatype body_source = SourceH1 | SourceSection string "heading_key list"

definition parse_body_source :: "string \<Rightarrow> go_error + body_source" where
  "parse_body_source directive =
     (if directive = ''body.h1'' then Inr SourceH1
      else if has_prefix directive ''body.section'' then
        (case parse_section_selector directive of
           Inl e \<Rightarrow> Inl e
         | Inr sel \<Rightarrow> Inr (SourceSection (exact_heading (last sel)) sel))
      else Inl (Err (''unsupported body source '' @ go_quote directive)))"

definition validate_heading_key :: "heading_key \<Rightarrow> go_error option" where
  "validate_heading_key k =
     (if hk_level k < 1 \<or> hk_level k > 6
      then Some (Err (''heading level must be from 1 to 6, got '' @ itoa (int (hk_level k))))
      else None)"

fun selector_errors :: "nat \<Rightarrow> heading_key option \<Rightarrow> heading_key list \<Rightarrow> go_error option" where
  "selector_errors i prev [] = None"
| "selector_errors i prev (k # ks) =
     (let invalid = Err (''section selector has an invalid heading at index '' @ itoa (int i)) in
      if validate_heading_key k \<noteq> None then Some invalid
      else case parse_heading_key (exact_heading k) of
        Inl _ \<Rightarrow> Some invalid
      | Inr k' \<Rightarrow>
          if k' \<noteq> k then Some invalid
          else if (case prev of None \<Rightarrow> False | Some p \<Rightarrow> hk_level k \<le> hk_level p)
          then Some (Err ''section selector heading levels must increase'')
          else selector_errors (i + 1) (Some k) ks)"

definition validate_section_selector :: "heading_key list \<Rightarrow> go_error option" where
  "validate_section_selector sel =
     (if sel = [] then Some (Err ''section selector must contain one heading'')
      else selector_errors 0 None sel)"

definition canonical_section_selector_source :: "heading_key list \<Rightarrow> go_error + string" where
  "canonical_section_selector_source sel =
     (case validate_section_selector sel of
        Some e \<Rightarrow> Inl e
      | None \<Rightarrow> Inr (''body.section'' @
          concat (map (\<lambda>k. ''['' @ go_quote (exact_heading k) @ '']'') sel)))"

definition canonical_section_source :: "string \<Rightarrow> go_error + string" where
  "canonical_section_source heading =
     (case parse_heading_key heading of
        Inl e \<Rightarrow> Inl e
      | Inr k \<Rightarrow> canonical_section_selector_source [k])"

section \<open>Resolving a source against a record\<close>

definition section_selector_matches :: "heading_key list \<Rightarrow> heading_key list \<Rightarrow> bool" where
  "section_selector_matches path sel =
     (if sel = [] \<or> length sel > length path then False
      else drop (length path - length sel) path = sel)"

definition selector_description :: "heading_key list \<Rightarrow> string" where
  "selector_description sel =
     (if length sel > 1
      then (case canonical_section_selector_source sel of Inl _ \<Rightarrow> [] | Inr t \<Rightarrow> t)
      else exact_heading (hd sel))"

fun unique_section_loop :: "heading_key list \<Rightarrow> doc_section option \<Rightarrow> doc_section list \<Rightarrow>
    go_error + doc_section option" where
  "unique_section_loop sel found [] = Inr found"
| "unique_section_loop sel found (s # ss) =
     (if \<not> section_selector_matches (sec_path s) sel then unique_section_loop sel found ss
      else if found \<noteq> None then
        Inl (Err (''ambiguous body section source '' @ go_quote (selector_description sel)))
      else unique_section_loop sel (Some s) ss)"

definition resolve_unique_section ::
  "doc_section list \<Rightarrow> heading_key list \<Rightarrow> go_error + string option" where
  "resolve_unique_section ss sel =
     (case unique_section_loop sel None ss of
        Inl e \<Rightarrow> Inl e
      | Inr found \<Rightarrow> Inr (map_option sec_content found))"

definition sections_for_record :: "(string \<Rightarrow> ast_heading list) \<Rightarrow> doc \<Rightarrow> doc_section list" where
  "sections_for_record gm r =
     (case rc_body_sections r of
        Some ss \<Rightarrow> sections_with_paths ss
      | None \<Rightarrow>
          (case rc_ast r of
             Some hs \<Rightarrow> extract_sections hs (rc_body r)
           | None \<Rightarrow>
               if rc_body r = [] then [] else extract_sections_from_text gm (rc_body r)))"

definition resolve_h1 :: "(string \<Rightarrow> ast_heading list) \<Rightarrow> doc \<Rightarrow> string" where
  "resolve_h1 gm r =
     (case filter (\<lambda>s. sec_level s = 1) (sections_for_record gm r) of
        [] \<Rightarrow> [] | s # _ \<Rightarrow> sec_heading s)"

definition resolve_body_value ::
  "(string \<Rightarrow> ast_heading list) \<Rightarrow> doc \<Rightarrow> string \<Rightarrow> go_error + string option" where
  "resolve_body_value gm r directive =
     (case parse_body_source directive of
        Inl e \<Rightarrow> Inl e
      | Inr SourceH1 \<Rightarrow>
          Inr (if resolve_h1 gm r \<noteq> [] then Some (resolve_h1 gm r) else None)
      | Inr (SourceSection _ sel) \<Rightarrow> resolve_unique_section (sections_for_record gm r) sel)"

section \<open>Materializing a heading\<close>

definition materialized_heading_matches ::
  "(string \<Rightarrow> ast_heading list) \<Rightarrow> string \<Rightarrow> heading_key \<Rightarrow> bool" where
  "materialized_heading_matches gm markdown key =
     (case extract_sections_from_text gm markdown of
        [s] \<Rightarrow> sec_level s = hk_level key \<and> sec_heading s = hk_text key
      | _ \<Rightarrow> False)"

definition materialize_heading ::
  "(string \<Rightarrow> ast_heading list) \<Rightarrow> heading_key \<Rightarrow> go_error + string" where
  "materialize_heading gm key =
     (case validate_heading_key key of
        Some e \<Rightarrow> Inl e
      | None \<Rightarrow>
          let atx = exact_heading key;
              setext = hk_text key @ [LF] @ (if hk_level key = 1 then ''==='' else ''---'')
          in if materialized_heading_matches gm atx key then Inr atx
             else if hk_level key \<le> 2 \<and> materialized_heading_matches gm setext key
             then Inr setext
             else Inl (Err (''heading level '' @ itoa (int (hk_level key)) @ '' with text '' @
               go_quote (hk_text key) @ '' cannot be materialized without data loss'')))"

section \<open>Quoting round trip\<close>

lemma hex_val_digit: "d < 16 \<Longrightarrow> hex_val (hex_digit d) = Some d"
  by (simp add: hex_val_def hex_digit_def)

lemma hex_val_not_quote: "hex_val c \<noteq> None \<Longrightarrow> c \<notin> {CHR 0x22, CHR 0x5C}"
  by (auto simp: hex_val_def)

lemma char_by_code: "of_char c = (of_char d :: nat) \<Longrightarrow> c = d"
  by simp

text \<open>How a quoted character reads: bare, as a one-letter escape, or in hexadecimal.\<close>

lemma quote_char_cases:
  obtains (plain) "quote_char c = [c]" "c \<noteq> CHR 0x22" "c \<noteq> CHR 0x5C" "c \<noteq> LF"
  | (simple) e where "quote_char c = [CHR 0x5C, e]" "simple_escape e = Some c"
  | (hex) h l where "quote_char c = [CHR 0x5C, CHR ''x'', h, l]"
      "map_option char_of (hex_value [h, l] 0) = Some c" "simple_escape (CHR ''x'') = None"
      "h \<notin> {CHR 0x22, CHR 0x5C}" "l \<notin> {CHR 0x22, CHR 0x5C}"
proof -
  define n where "n = (of_char c :: nat)"
  have c: "c = char_of n" by (simp add: n_def)
  consider "n = 34" | "n = 92" | "n = 7" | "n = 8" | "n = 12" | "n = 10" | "n = 13" | "n = 9"
    | "n = 11" | "n \<notin> {34, 92, 7, 8, 12, 10, 13, 9, 11}" "n < 32 \<or> n = 127"
    | "n \<notin> {34, 92, 7, 8, 12, 10, 13, 9, 11}" "\<not> (n < 32 \<or> n = 127)" by blast
  then show thesis
  proof cases
    case 1
    then have "c = CHR 0x22" by (intro char_by_code) (simp add: n_def)
    then show ?thesis by (intro simple [of "CHR 0x22"]) (simp_all add: quote_char_def simple_escape_def)
  next
    case 2
    then have "c = CHR 0x5C" by (intro char_by_code) (simp add: n_def)
    then show ?thesis by (intro simple [of "CHR 0x5C"]) (simp_all add: quote_char_def simple_escape_def)
  next
    case 3
    then have "c = CHR 0x07" by (intro char_by_code) (simp add: n_def)
    then show ?thesis by (intro simple [of "CHR ''a''"]) (simp_all add: quote_char_def simple_escape_def)
  next
    case 4
    then have "c = CHR 0x08" by (intro char_by_code) (simp add: n_def)
    then show ?thesis by (intro simple [of "CHR ''b''"]) (simp_all add: quote_char_def simple_escape_def)
  next
    case 5
    then have "c = CHR 0x0C" by (intro char_by_code) (simp add: n_def)
    then show ?thesis by (intro simple [of "CHR ''f''"]) (simp_all add: quote_char_def simple_escape_def)
  next
    case 6
    then have "c = CHR 0x0A" by (intro char_by_code) (simp add: n_def)
    then show ?thesis by (intro simple [of "CHR ''n''"]) (simp_all add: quote_char_def simple_escape_def)
  next
    case 7
    then have "c = CHR 0x0D" by (intro char_by_code) (simp add: n_def)
    then show ?thesis by (intro simple [of "CHR ''r''"]) (simp_all add: quote_char_def simple_escape_def)
  next
    case 8
    then have "c = CHR 0x09" by (intro char_by_code) (simp add: n_def)
    then show ?thesis by (intro simple [of "CHR ''t''"]) (simp_all add: quote_char_def simple_escape_def)
  next
    case 9
    then have "c = CHR 0x0B" by (intro char_by_code) (simp add: n_def)
    then show ?thesis by (intro simple [of "CHR ''v''"]) (simp_all add: quote_char_def simple_escape_def)
  next
    case 10
    let ?h = "hex_digit (n div 16)" and ?l = "hex_digit (n mod 16)"
    have v: "hex_val ?h = Some (n div 16)" "hex_val ?l = Some (n mod 16)"
      using 10(2) by (intro hex_val_digit; auto)+
    have "quote_char c = [CHR 0x5C, CHR ''x'', ?h, ?l]"
      using 10 by (simp add: quote_char_def n_def [symmetric] Let_def)
    moreover have "map_option char_of (hex_value [?h, ?l] 0) = Some c"
      using v by (simp add: c)
    ultimately show ?thesis
      using v hex_val_not_quote [of ?h] hex_val_not_quote [of ?l]
      by (intro hex [of ?h ?l]) (simp_all add: simple_escape_def)
  next
    case 11
    then have "quote_char c = [c]" by (simp add: quote_char_def n_def [symmetric] Let_def)
    with 11 show ?thesis by (intro plain) (auto simp: n_def)
  qed
qed

lemma unquote_quote_char:
  "unquote_dq (quote_char c @ t) = map_option (\<lambda>u. c # u) (unquote_dq t)"
proof (cases rule: quote_char_cases [of c])
  case (hex h l)
  then have "read_escape (CHR ''x'' # h # l # t) = Some ([c], t)"
    by (auto simp: read_escape_def split: option.split)
  moreover have "(@) [c] = (#) c" by (simp add: fun_eq_iff)
  ultimately show ?thesis using hex(1) by simp
next
  case (simple e)
  then have "read_escape (e # t) = Some ([c], t)" by (simp add: read_escape_def)
  moreover have "(@) [c] = (#) c" by (simp add: fun_eq_iff)
  ultimately show ?thesis using simple(1) by simp
qed simp

lemma unquote_quoted: "unquote_dq (concat (map quote_char s)) = Some s"
  by (induction s) (auto simp: unquote_quote_char)

lemma dq_end_quote_char:
  "dq_end False (quote_char c @ t) = map_option (\<lambda>i. length (quote_char c) + i) (dq_end False t)"
  by (cases rule: quote_char_cases [of c])
    (auto simp: option.map_comp comp_def intro: option.map_cong)

lemma dq_end_quoted:
  "dq_end False (concat (map quote_char s) @ CHR 0x22 # t) = Some (length (concat (map quote_char s)))"
  by (induction s) (auto simp: dq_end_quote_char)

lemma quoted_string_end_quote:
  "quoted_string_end (go_quote s @ t) = Some (length (go_quote s) - 1)"
  using dq_end_quoted [of s t] by (simp add: quoted_string_end_def go_quote_def)

lemma go_unquote_quote: "go_unquote (go_quote s) = Some s"
  by (simp add: go_unquote_def go_quote_def unquote_quoted butlast_append)

section \<open>Heading keys\<close>

lemma takeWhile_hashes:
  "t \<noteq> [] \<Longrightarrow> hd t \<noteq> CHR ''#'' \<Longrightarrow>
     takeWhile (\<lambda>c. c = CHR ''#'') (replicate n (CHR ''#'') @ t) = replicate n (CHR ''#'')"
  by (induction n) (auto simp: neq_Nil_conv)

lemma parse_exact_heading:
  assumes "1 \<le> hk_level k" "hk_level k \<le> 6"
  shows "parse_heading_key (exact_heading k) = Inr k"
proof -
  have "length (takeWhile (\<lambda>c. c = CHR ''#'') (exact_heading k)) = hk_level k"
    using takeWhile_hashes [of "'' '' @ hk_text k" "hk_level k"] by (simp add: exact_heading_def)
  moreover have "exact_heading k ! hk_level k = CHR '' ''"
    by (simp add: exact_heading_def nth_append)
  ultimately show ?thesis
    using assms by (simp add: parse_heading_key_def exact_heading_def)
qed

text \<open>The selectors that \<open>validateSectionSelector\<close> accepts.\<close>

definition increasing :: "heading_key list \<Rightarrow> bool" where
  "increasing ks = sorted_wrt (\<lambda>a b. hk_level a < hk_level b) ks"

definition good_selector :: "heading_key list \<Rightarrow> bool" where
  "good_selector sel =
     (sel \<noteq> [] \<and> (\<forall>k \<in> set sel. 1 \<le> hk_level k \<and> hk_level k \<le> 6) \<and> increasing sel)"

lemma selector_errors_None:
  "selector_errors i prev ks = None \<longleftrightarrow>
     (\<forall>k \<in> set ks. 1 \<le> hk_level k \<and> hk_level k \<le> 6) \<and>
     sorted_wrt (<) (map hk_level (case prev of None \<Rightarrow> ks | Some p \<Rightarrow> p # ks))"
proof (induction ks arbitrary: i prev)
  case (Cons k ks)
  show ?case
  proof (cases "1 \<le> hk_level k \<and> hk_level k \<le> 6")
    case True
    then have "validate_heading_key k = None" "parse_heading_key (exact_heading k) = Inr k"
      by (auto simp: validate_heading_key_def parse_exact_heading)
    with True Cons [of "i + 1" "Some k"] show ?thesis
      by (cases prev) (auto simp: Let_def not_le intro: less_trans)
  next
    case False
    then have "validate_heading_key k \<noteq> None" by (auto simp: validate_heading_key_def)
    with False show ?thesis by (auto simp: Let_def)
  qed
qed (simp split: option.split)

lemma validate_section_selector_iff: "validate_section_selector sel = None \<longleftrightarrow> good_selector sel"
  by (auto simp: validate_section_selector_def selector_errors_None good_selector_def
      increasing_def sorted_wrt_map)

section \<open>Selectors read back\<close>

lemma selector_loop_step:
  assumes "1 \<le> hk_level k" "hk_level k \<le> 6"
    "sel = [] \<or> hk_level (last sel) < hk_level k"
  shows "selector_loop d sel (''['' @ go_quote (exact_heading k) @ '']'' @ t) =
     selector_loop d (sel @ [k]) t"
proof -
  let ?q = "go_quote (exact_heading k)"
  have q: "?q = CHR 0x22 # tl ?q" and len: "2 \<le> length ?q"
    by (simp_all add: go_quote_def)
  define rest where "rest = ''['' @ ?q @ '']'' @ t"
  have tl: "tl rest = ?q @ CHR '']'' # t" by (simp add: rest_def)
  have e: "quoted_string_end (tl rest) = Some (length ?q - 1)"
    unfolding tl by (rule quoted_string_end_quote)
  have r1: "rest ! 1 = CHR 0x22" by (simp add: rest_def go_quote_def)
  have r2: "rest ! (length ?q - 1 + 2) = CHR '']''"
  proof -
    have "length ?q - 1 + 2 = Suc (length ?q)" using len by simp
    then show ?thesis by (simp add: rest_def)
  qed
  have tk: "take (length ?q - 1 + 1) (tl rest) = ?q" using len by (simp add: tl)
  have dr: "drop (length ?q - 1 + 3) rest = t" using len by (simp add: rest_def)
  have l: "rest \<noteq> []" "hd rest = CHR ''[''" "\<not> length rest < 4"
    "\<not> length ?q - 1 + 2 \<ge> length rest"
    using len by (auto simp: rest_def)
  have "selector_loop d sel rest = selector_loop d (sel @ [k]) t"
    using assms(3) l r1 r2 e
    by (subst selector_loop.simps)
      (simp add: tk dr go_unquote_quote parse_exact_heading [OF assms(1,2)] del: One_nat_def,
        auto)
  then show ?thesis by (simp add: rest_def)
qed

lemma selector_loop_render:
  assumes "\<forall>k \<in> set ks. 1 \<le> hk_level k \<and> hk_level k \<le> 6"
    "increasing (sel @ ks)"
  shows "selector_loop d sel (concat (map (\<lambda>k. ''['' @ go_quote (exact_heading k) @ '']'') ks)) =
     Inr (sel @ ks)"
  using assms
proof (induction ks arbitrary: sel)
  case Nil
  then show ?case by (simp add: selector_loop.simps)
next
  case (Cons k ks)
  from Cons.prems(2) have "sel = [] \<or> hk_level (last sel) < hk_level k"
    by (cases sel rule: rev_cases) (auto simp: increasing_def sorted_wrt_append)
  with Cons.prems(1) selector_loop_step [of k sel d]
  have "selector_loop d sel (concat (map (\<lambda>k. ''['' @ go_quote (exact_heading k) @ '']'') (k # ks))) =
      selector_loop d (sel @ [k]) (concat (map (\<lambda>k. ''['' @ go_quote (exact_heading k) @ '']'') ks))"
    by simp
  also have "\<dots> = Inr (sel @ k # ks)" using Cons.IH [of "sel @ [k]"] Cons.prems by simp
  finally show ?case .
qed

section \<open>Paths of sections\<close>

lemma pop_levels_sorted:
  "increasing path \<Longrightarrow> pop_levels lvl path = filter (\<lambda>k. hk_level k < lvl) path"
proof (induction path rule: rev_induct)
  case (snoc k path)
  then have inc: "increasing path" and lt: "\<forall>x \<in> set path. hk_level x < hk_level k"
    by (auto simp: increasing_def sorted_wrt_append)
  show ?case
  proof (cases "hk_level k \<ge> lvl")
    case True
    with snoc.IH [OF inc] show ?thesis by (simp add: pop_levels_def)
  next
    case False
    with lt have "filter (\<lambda>x. hk_level x < lvl) path = path" by (auto simp: filter_id_conv)
    with False show ?thesis by (simp add: pop_levels_def)
  qed
qed (simp add: pop_levels_def)

lemma increasing_push:
  "increasing path \<Longrightarrow> increasing (pop_levels (hk_level k) path @ [k])"
  by (auto simp: pop_levels_sorted increasing_def sorted_wrt_append sorted_wrt_filter)

text \<open>A section's path: its own heading last, levels strictly growing from the outermost down.\<close>

definition path_ok :: "doc_section \<Rightarrow> bool" where
  "path_ok s =
     (if sec_level s = 0 then sec_path s = []
      else increasing (sec_path s) \<and> sec_path s \<noteq> [] \<and>
        last (sec_path s) = \<lparr> hk_level = sec_level s, hk_text = sec_heading s \<rparr>)"

lemma assign_paths_ok: "increasing path \<Longrightarrow> s \<in> set (assign_paths path ss) \<Longrightarrow> path_ok s"
proof (induction path ss arbitrary: s rule: assign_paths.induct)
  case (2 path s' ss)
  show ?case
  proof (cases "sec_level s' = 0")
    case True
    with 2 show ?thesis by (auto simp: path_ok_def)
  next
    case False
    define k where "k = \<lparr> hk_level = sec_level s', hk_text = sec_heading s' \<rparr>"
    have "increasing (pop_levels (sec_level s') path @ [k])"
      using increasing_push [OF "2.prems"(1), of k] by (simp add: k_def)
    with 2 False show ?thesis by (auto simp: path_ok_def Let_def k_def)
  qed
qed simp

text \<open>The headings open at a section: no heading of the same or a higher rank lies between.\<close>

definition section_key :: "doc_section \<Rightarrow> heading_key" where
  "section_key s = \<lparr> hk_level = sec_level s, hk_text = sec_heading s \<rparr>"

definition open_headings :: "doc_section list \<Rightarrow> nat \<Rightarrow> heading_key list" where
  "open_headings ss i =
     map (\<lambda>j. section_key (ss ! j))
       (filter (\<lambda>j. sec_level (ss ! j) \<noteq> 0 \<and>
            (\<forall>m \<in> {j<..i}. sec_level (ss ! m) = 0 \<or> sec_level (ss ! j) < sec_level (ss ! m))) [0..<Suc i])"

text \<open>The headings open before the section at an index.\<close>

definition open_before :: "doc_section list \<Rightarrow> nat \<Rightarrow> heading_key list" where
  "open_before ss n = (case n of 0 \<Rightarrow> [] | Suc m \<Rightarrow> open_headings ss m)"

lemma open_headings_step:
  "open_headings ss n =
     (if sec_level (ss ! n) = 0 then open_before ss n
      else filter (\<lambda>k. hk_level k < sec_level (ss ! n)) (open_before ss n) @ [section_key (ss ! n)])"
proof (cases n)
  case 0
  then show ?thesis by (simp add: open_headings_def open_before_def)
next
  case (Suc i)
  let ?open = "\<lambda>i j. sec_level (ss ! j) \<noteq> 0 \<and>
    (\<forall>m \<in> {j<..i}. sec_level (ss ! m) = 0 \<or> sec_level (ss ! j) < sec_level (ss ! m))"
  have step: "?open n j \<longleftrightarrow> ?open i j \<and> (sec_level (ss ! n) = 0 \<or> sec_level (ss ! j) < sec_level (ss ! n))"
    if "j \<in> set [0..<Suc i]" for j
  proof -
    have *: "{j<..n} = insert n {j<..i}" using that Suc by auto
    show ?thesis unfolding * ball_simps by (cases "sec_level (ss ! n) = 0") (simp_all, blast)
  qed
  have "[0..<Suc n] = [0..<Suc i] @ [n]" by (simp add: Suc)
  then have "open_headings ss n = map (\<lambda>j. section_key (ss ! j)) (filter (?open n) [0..<Suc i]) @
      (if sec_level (ss ! n) = 0 then [] else [section_key (ss ! n)])"
    unfolding open_headings_def by (simp del: upt_Suc)
  also have "filter (?open n) [0..<Suc i] =
      filter (\<lambda>j. sec_level (ss ! n) = 0 \<or> sec_level (ss ! j) < sec_level (ss ! n)) (filter (?open i) [0..<Suc i])"
    unfolding filter_filter using step by (intro filter_cong) auto
  finally show ?thesis
    by (simp add: Suc open_before_def open_headings_def filter_map comp_def section_key_def del: upt_Suc)
qed

lemma open_before_Suc [simp]: "open_before ss (Suc n) = open_headings ss n"
  by (simp add: open_before_def)

lemma increasing_open_before: "increasing (open_before ss n)"
proof (induction n)
  case (Suc n)
  then show ?case
    using increasing_push [of "open_before ss n" "section_key (ss ! n)"]
    by (simp add: open_headings_step [of ss n] pop_levels_sorted section_key_def)
qed (simp add: open_before_def increasing_def)

lemma assign_paths_nested:
  "n \<le> length ss \<Longrightarrow> assign_paths (open_before ss n) (drop n ss) =
     map (\<lambda>i. (ss ! i)\<lparr> sec_path := if sec_level (ss ! i) = 0 then [] else open_headings ss i \<rparr>)
       [n..<length ss]"
proof (induction "length ss - n" arbitrary: n)
  case (Suc d)
  then have n: "n < length ss" and d: "d = length ss - Suc n" by simp_all
  from Suc.hyps(1) [OF d] n
  have rest: "assign_paths (open_headings ss n) (drop (Suc n) ss) =
     map (\<lambda>i. (ss ! i)\<lparr> sec_path := if sec_level (ss ! i) = 0 then [] else open_headings ss i \<rparr>)
       [Suc n..<length ss]" by simp
  show ?case
    unfolding Cons_nth_drop_Suc [OF n, symmetric] upt_conv_Cons [OF n]
    using rest pop_levels_sorted [OF increasing_open_before, of "sec_level (ss ! n)" ss n]
      open_headings_step [of ss n]
    by (cases "sec_level (ss ! n) = 0") (simp_all add: section_key_def Let_def del: upt_Suc)
qed simp

lemma sections_with_paths_nested:
  "sections_with_paths ss =
     map (\<lambda>i. (ss ! i)\<lparr> sec_path := if sec_level (ss ! i) = 0 then [] else open_headings ss i \<rparr>)
       [0..<length ss]"
  using assign_paths_nested [of 0 ss] by (simp add: sections_with_paths_def open_before_def)

lemma unique_section_loop_spec:
  "unique_section_loop sel found ss =
     (let ms = filter (\<lambda>s. section_selector_matches (sec_path s) sel) ss in
      case (found, ms) of
        (None, []) \<Rightarrow> Inr None
      | (None, [m]) \<Rightarrow> Inr (Some m)
      | (Some m, []) \<Rightarrow> Inr (Some m)
      | _ \<Rightarrow> Inl (Err (''ambiguous body section source '' @ go_quote (selector_description sel))))"
  by (induction ss arbitrary: found) (auto simp: Let_def split: list.splits option.splits)

lemma section_selector_matches_iff:
  "section_selector_matches path sel \<longleftrightarrow> sel \<noteq> [] \<and> (\<exists>pre. path = pre @ sel)"
proof
  assume m: "section_selector_matches path sel"
  then have "path = take (length path - length sel) path @ sel"
    by (metis append_take_drop_id section_selector_matches_def)
  with m show "sel \<noteq> [] \<and> (\<exists>pre. path = pre @ sel)"
    by (auto simp: section_selector_matches_def split: if_splits)
qed (auto simp: section_selector_matches_def)

section \<open>Properties\<close>

text \<open>C30: A section selector survives being written as a canonical \<open>source\<close> directive and parsed
  back: every selector the validator accepts, whatever characters its headings have, has a canonical text,
  and parsing that text gives the selector again. The text quotes each heading the way \<open>go_quote\<close> models
  \<open>strconv.Quote\<close>: quotes, backslashes and control characters are escaped, and characters beyond ASCII, which are
  taken to be printable, stand for themselves.\<close>

theorem selector_source_roundtrip:
  assumes "validate_section_selector sel = None"
  shows "\<exists>src. canonical_section_selector_source sel = Inr src \<and>
     parse_body_source src = Inr (SourceSection (exact_heading (last sel)) sel)"
proof -
  define body where "body = concat (map (\<lambda>k. ''['' @ go_quote (exact_heading k) @ '']'') sel)"
  have good: "good_selector sel" using assms(1) by (simp add: validate_section_selector_iff)
  have "selector_loop d [] body = Inr sel" for d
    using selector_loop_render [of sel "[]" d] good
    by (auto simp: good_selector_def body_def)
  moreover define src where "src = ''body.section'' @ body"
  have pre: "has_prefix src ''body.section''" and trim: "trim_prefix src ''body.section'' = body"
    and ne: "src \<noteq> ''body.h1''"
    unfolding src_def by (rule has_prefix_append, rule trim_prefix_append, simp)
  ultimately have "parse_section_selector src = Inr sel"
    using good by (simp add: parse_section_selector_def good_selector_def)
  then have "parse_body_source src = Inr (SourceSection (exact_heading (last sel)) sel)"
    using pre ne by (simp add: parse_body_source_def)
  moreover have "canonical_section_selector_source sel = Inr src"
    using assms(1) by (simp add: canonical_section_selector_source_def body_def src_def)
  ultimately show ?thesis by blast
qed

text \<open>A heading with quotes, a tab and a character beyond ASCII.\<close>

definition odd_heading :: heading_key where
  "odd_heading = \<lparr> hk_level = 2, hk_text = ''A \"q\"'' @ [CHR 0x09, CHR 0xC3, CHR 0xA9] \<rparr>"

theorem selector_source_roundtrip_witness:
  "\<exists>src. canonical_section_selector_source [odd_heading] = Inr src \<and>
     parse_body_source src = Inr (SourceSection (exact_heading odd_heading) [odd_heading])"
proof -
  have "validate_section_selector [odd_heading] = None" by code_simp
  from selector_source_roundtrip [OF this] show ?thesis by simp
qed

text \<open>C36: Every section gets the path of the headings it is nested under. For a document with
  headings, the path of the section at a heading lists, from the outermost to its own, exactly the headings up
  to it that are still open there: those with no heading of the same or a higher rank between them and
  the section, the section's own heading included; so the levels grow strictly along the path. A section of
  level 0 has no path, and nothing but the path of a section is set here. A document without headings is one anonymous section.\<close>

theorem section_paths_well_formed:
  "extract_sections headings source =
     (if headings = [] then
        [\<lparr> sec_heading = [], sec_level = 0, sec_path = [], sec_content = source, sec_start_line = 1 \<rparr>]
      else let cut = cut_sections source (map (heading_info_of source) headings) in
        map (\<lambda>i. (cut ! i)\<lparr> sec_path := if sec_level (cut ! i) = 0 then [] else open_headings cut i \<rparr>)
          [0..<length cut]) \<and>
   (\<forall>s \<in> set (extract_sections headings source). path_ok s)"
proof -
  have "\<forall>s \<in> set (extract_sections headings source). path_ok s"
  proof (cases "headings = []")
    case True
    then show ?thesis by (simp add: extract_sections_def path_ok_def)
  next
    case False
    then show ?thesis using assign_paths_ok [of "[]"]
      by (auto simp: extract_sections_def sections_with_paths_def increasing_def)
  qed
  then show ?thesis by (simp add: extract_sections_def sections_with_paths_nested Let_def)
qed

text \<open>Three headings of which the third closes the second.\<close>

definition outline_text :: string where
  "outline_text = ''# A'' @ LF # ''### B'' @ LF # ''## C'' @ [LF]"

definition outline :: "ast_heading list" where
  "outline = [\<lparr> ah_level = 1, ah_pos = 0, ah_segments = [(2, 3)] \<rparr>, \<lparr> ah_level = 3, ah_pos = 4, ah_segments = [(8, 9)] \<rparr>,
     \<lparr> ah_level = 2, ah_pos = 10, ah_segments = [(13, 14)] \<rparr>]"

theorem section_paths_well_formed_witness:
  "map sec_path (extract_sections outline outline_text) =
     [[\<lparr> hk_level = 1, hk_text = ''A'' \<rparr>],
      [\<lparr> hk_level = 1, hk_text = ''A'' \<rparr>, \<lparr> hk_level = 3, hk_text = ''B'' \<rparr>],
      [\<lparr> hk_level = 1, hk_text = ''A'' \<rparr>, \<lparr> hk_level = 2, hk_text = ''C'' \<rparr>]] \<and>
   list_all path_ok (extract_sections outline outline_text)"
proof -
  note T = section_paths_well_formed [of outline outline_text]
  have "map sec_path
     (if outline = [] then
        [\<lparr> sec_heading = [], sec_level = 0, sec_path = [], sec_content = outline_text, sec_start_line = 1 \<rparr>]
      else let cut = cut_sections outline_text (map (heading_info_of outline_text) outline) in
        map (\<lambda>i. (cut ! i)\<lparr> sec_path := if sec_level (cut ! i) = 0 then [] else open_headings cut i \<rparr>)
          [0..<length cut]) =
     [[\<lparr> hk_level = 1, hk_text = ''A'' \<rparr>],
      [\<lparr> hk_level = 1, hk_text = ''A'' \<rparr>, \<lparr> hk_level = 3, hk_text = ''B'' \<rparr>],
      [\<lparr> hk_level = 1, hk_text = ''A'' \<rparr>, \<lparr> hk_level = 2, hk_text = ''C'' \<rparr>]]"
    by code_simp
  then have "map sec_path (extract_sections outline outline_text) =
     [[\<lparr> hk_level = 1, hk_text = ''A'' \<rparr>],
      [\<lparr> hk_level = 1, hk_text = ''A'' \<rparr>, \<lparr> hk_level = 3, hk_text = ''B'' \<rparr>],
      [\<lparr> hk_level = 1, hk_text = ''A'' \<rparr>, \<lparr> hk_level = 2, hk_text = ''C'' \<rparr>]]"
    unfolding conjunct1 [OF T] .
  with conjunct2 [OF T] show ?thesis by (simp add: list_all_iff)
qed

text \<open>Resolving a section selector is exact: it returns a content only when one section's path
  ends in the selector, nothing when none does, and an error when several do, so an ambiguous
  selector is never silently answered by the first match.\<close>

theorem resolve_unique_section_exact:
  "resolve_unique_section ss sel =
     (case filter (\<lambda>s. sel \<noteq> [] \<and> (\<exists>pre. sec_path s = pre @ sel)) ss of
        [] \<Rightarrow> Inr None
      | [s] \<Rightarrow> Inr (Some (sec_content s))
      | _ \<Rightarrow> Inl (Err (''ambiguous body section source '' @ go_quote (selector_description sel))))"
  by (auto simp: resolve_unique_section_def unique_section_loop_spec
      section_selector_matches_iff [symmetric] Let_def split: list.split)

end
