(* ===== verification/Go_Paths.thy ===== *)
theory Go_Paths
  imports Go_Strings
begin

text \<open>
  The lexical part of Go's \<open>path/filepath\<close> on Unix: \<open>Clean\<close>, \<open>Dir\<close>, \<open>Base\<close>, \<open>Ext\<close>, \<open>Join\<close>, \<open>IsAbs\<close>,
  \<open>Abs\<close>, \<open>Rel\<close>, and the glob matcher \<open>Match\<close>. Globs are matched byte by byte: for a non-ASCII
  name, \<open>?\<close> and a class read one byte where Go reads one rune.
\<close>

section \<open>Lexical path operations\<close>

abbreviation (input) slash :: char where "slash \<equiv> CHR ''/''"

definition is_abs :: "string \<Rightarrow> bool" where
  "is_abs p = has_prefix p ''/''"

definition path_comps :: "string \<Rightarrow> string list" where
  "path_comps p = filter (\<lambda>c. c \<noteq> []) (split_on slash p)"

fun clean_step :: "bool \<Rightarrow> string list \<Rightarrow> string \<Rightarrow> string list" where
  "clean_step rooted out c =
     (if c = ''.'' then out
      else if c = ''..'' then
        (if out \<noteq> [] \<and> last out \<noteq> ''..'' then butlast out
         else if rooted then out else out @ [''..''])
      else out @ [c])"

definition clean_comps :: "bool \<Rightarrow> string list \<Rightarrow> string list" where
  "clean_comps rooted cs = foldl (clean_step rooted) [] cs"

definition path_clean :: "string \<Rightarrow> string" where
  "path_clean p =
     (let rooted = is_abs p; out = clean_comps rooted (path_comps p) in
      if rooted then slash # join_with ''/'' out
      else if out = [] then ''.'' else join_with ''/'' out)"

text \<open>The part of a path up to and including its last slash.\<close>

definition dir_part :: "string \<Rightarrow> string" where
  "dir_part p = rev (dropWhile (\<lambda>c. c \<noteq> slash) (rev p))"

definition file_part :: "string \<Rightarrow> string" where
  "file_part p = rev (takeWhile (\<lambda>c. c \<noteq> slash) (rev p))"

definition path_dir :: "string \<Rightarrow> string" where
  "path_dir p = path_clean (dir_part p)"

definition path_base :: "string \<Rightarrow> string" where
  "path_base p =
     (if p = [] then ''.''
      else let q = trim_right_chars [slash] p in
        if q = [] then ''/'' else file_part q)"

definition path_ext :: "string \<Rightarrow> string" where
  "path_ext p =
     (let f = file_part p in
      case last_index_char f (CHR ''.'') of None \<Rightarrow> [] | Some i \<Rightarrow> drop i f)"

definition path_join :: "string \<Rightarrow> string \<Rightarrow> string" where
  "path_join a b =
     (if a \<noteq> [] then path_clean (a @ ''/'' @ b) else if b \<noteq> [] then path_clean b else [])"

text \<open>\<open>Abs\<close> joins a relative path onto the working directory, which is a parameter.\<close>

definition path_abs :: "string \<Rightarrow> string \<Rightarrow> string" where
  "path_abs cwd p = (if is_abs p then path_clean p else path_join cwd p)"

fun strip_common :: "string list \<Rightarrow> string list \<Rightarrow> string list \<times> string list" where
  "strip_common (b # bs) (t # ts) =
     (if b = t then strip_common bs ts else (b # bs, t # ts))"
| "strip_common bs ts = (bs, ts)"

definition path_rel :: "string \<Rightarrow> string \<Rightarrow> string option" where
  "path_rel base targ =
     (let b = path_clean base; t = path_clean targ in
      if b = t then Some ''.''
      else if is_abs b \<noteq> is_abs t then None
      else let b' = (if b = ''.'' then [] else b);
               (bs, ts) = strip_common (path_comps b') (path_comps t) in
        if bs \<noteq> [] \<and> hd bs = ''..'' then None
        else Some (join_with ''/'' (replicate (length bs) ''..'' @ ts)))"

section \<open>Lemmas on paths\<close>

lemma path_comps_parts: "c \<in> set (path_comps p) \<Longrightarrow> c \<noteq> [] \<and> slash \<notin> set c"
  by (auto simp: path_comps_def dest: split_on_parts)

lemma path_comps_Cons_slash [simp]: "path_comps (slash # p) = path_comps p"
  by (simp add: path_comps_def)

definition plain_comps :: "string list \<Rightarrow> bool" where
  "plain_comps cs = (\<forall>c \<in> set cs. c \<noteq> [] \<and> slash \<notin> set c)"

lemma path_comps_join:
  assumes "plain_comps cs"
  shows "path_comps (join_with ''/'' cs) = cs"
proof (cases "cs = []")
  case False
  with assms have "split_on slash (join_with [slash] cs) = cs"
    by (intro split_join) (auto simp: plain_comps_def)
  with assms show ?thesis by (simp add: path_comps_def plain_comps_def)
qed (simp add: path_comps_def)

text \<open>
  The shape of a cleaned component list: no \<open>.\<close>, and \<open>..\<close> only as a run at the front of a
  relative path.
\<close>

definition clean_shape :: "bool \<Rightarrow> string list \<Rightarrow> bool" where
  "clean_shape rooted cs =
     (\<exists>n rest. cs = replicate n ''..'' @ rest \<and> (rooted \<longrightarrow> n = 0) \<and>
        ''..'' \<notin> set rest \<and> ''.'' \<notin> set rest)"

lemma clean_shape_step:
  assumes "clean_shape rooted out"
  shows "clean_shape rooted (clean_step rooted out c)"
proof -
  obtain n rest where o: "out = replicate n ''..'' @ rest" and r: "rooted \<longrightarrow> n = 0"
    and d: "''..'' \<notin> set rest" "''.'' \<notin> set rest"
    using assms by (auto simp: clean_shape_def)
  consider "c = ''.''" | "c = ''..''" "rest \<noteq> []" | "c = ''..''" "rest = []"
    | "c \<noteq> ''.''" "c \<noteq> ''..''" by blast
  then show ?thesis
  proof cases
    case 1
    with assms show ?thesis by simp
  next
    case 2
    then have "last rest \<noteq> ''..''" using d by (metis last_in_set)
    with 2 o have "clean_step rooted out c = replicate n ''..'' @ butlast rest"
      by (simp add: butlast_append)
    with r d show ?thesis unfolding clean_shape_def
      by (intro exI [of _ n] exI [of _ "butlast rest"]) (auto dest: in_set_butlastD)
  next
    case 3
    then have "clean_step rooted out c = (if rooted then [] else replicate (Suc n) ''..'')"
      using o r by (auto simp: replicate_append_same)
    then show ?thesis unfolding clean_shape_def
      by (cases rooted) (auto intro: exI [of _ 0] exI [of _ "Suc n"])
  next
    case 4
    with o have "clean_step rooted out c = replicate n ''..'' @ (rest @ [c])" by simp
    with r d 4 show ?thesis unfolding clean_shape_def
      by (intro exI [of _ n] exI [of _ "rest @ [c]"]) auto
  qed
qed

lemma foldl_clean_shape:
  "clean_shape rooted out \<Longrightarrow> clean_shape rooted (foldl (clean_step rooted) out cs)"
  by (induction cs arbitrary: out) (auto simp del: clean_step.simps intro: clean_shape_step)

lemma clean_comps_shape: "clean_shape rooted (clean_comps rooted cs)"
  unfolding clean_comps_def by (rule foldl_clean_shape) (auto simp: clean_shape_def)

lemma set_foldl_clean_step:
  "set (foldl (clean_step rooted) out cs) \<subseteq> set out \<union> set cs \<union> {''..''}"
proof (induction cs arbitrary: out)
  case (Cons c cs)
  have "set (clean_step rooted out c) \<subseteq> set out \<union> {c} \<union> {''..''}"
    by (auto dest: in_set_butlastD)
  with Cons [of "clean_step rooted out c"] show ?case
    by (auto simp del: clean_step.simps)
qed auto

lemma plain_clean_comps: "plain_comps cs \<Longrightarrow> plain_comps (clean_comps rooted cs)"
  using set_foldl_clean_step [of rooted "[]" cs]
  by (auto simp: plain_comps_def clean_comps_def)

lemma foldl_clean_step_id:
  assumes "''.'' \<notin> set rest" "''..'' \<notin> set rest"
  shows "foldl (clean_step rooted) out rest = out @ rest"
  using assms by (induction rest arbitrary: out) auto

lemma foldl_clean_dots:
  "foldl (clean_step False) (replicate k ''..'') (replicate n ''..'') = replicate (k + n) ''..''"
proof (induction n arbitrary: k)
  case (Suc n)
  have "clean_step False (replicate k ''..'') ''..'' = replicate (Suc k) ''..''"
    by (cases k) (auto simp: replicate_append_same)
  with Suc [of "Suc k"] show ?case by (simp del: clean_step.simps replicate.simps(2))
      (simp add: replicate_Suc)
qed simp

lemma clean_comps_idem:
  assumes "clean_shape rooted cs" shows "clean_comps rooted cs = cs"
proof -
  obtain n rest where *: "cs = replicate n ''..'' @ rest" "rooted \<longrightarrow> n = 0"
    "''..'' \<notin> set rest" "''.'' \<notin> set rest"
    using assms by (auto simp: clean_shape_def)
  then show ?thesis
    using foldl_clean_dots [of 0 n]
    by (cases rooted) (auto simp: clean_comps_def foldl_clean_step_id simp del: clean_step.simps)
qed

lemma join_with_head:
  "plain_comps cs \<Longrightarrow> cs \<noteq> [] \<Longrightarrow> join_with sep cs \<noteq> [] \<and> hd (join_with sep cs) \<noteq> slash"
  by (induction sep cs rule: join_with.induct)
    (auto simp: plain_comps_def hd_append dest: hd_in_set)

lemma is_abs_iff: "is_abs p \<longleftrightarrow> p \<noteq> [] \<and> hd p = slash"
  by (cases p) (auto simp: is_abs_def)

lemma plain_path_comps [simp]: "plain_comps (path_comps p)"
  by (auto simp: plain_comps_def dest: path_comps_parts)

lemma is_abs_clean [simp]: "is_abs (path_clean p) = is_abs p"
  using join_with_head [of "clean_comps False (path_comps p)" "''/''"]
  by (auto simp: path_clean_def Let_def is_abs_iff plain_clean_comps)

lemma path_comps_clean:
  "path_comps (path_clean p) =
     (if \<not> is_abs p \<and> clean_comps False (path_comps p) = [] then [''.'']
      else clean_comps (is_abs p) (path_comps p))"
  by (auto simp: path_clean_def Let_def path_comps_join plain_clean_comps)
    (simp add: path_comps_def)

lemma path_clean_idem: "path_clean (path_clean p) = path_clean p"
proof (cases "\<not> is_abs p \<and> clean_comps False (path_comps p) = []")
  case True
  then have "path_clean p = ''.''" by (simp add: path_clean_def Let_def)
  then show ?thesis by (simp add: path_clean_def is_abs_def path_comps_def clean_comps_def)
next
  case False
  define q where "q = path_clean p"
  have "path_comps q = clean_comps (is_abs p) (path_comps p)"
    using False by (auto simp: q_def path_comps_clean)
  then have "clean_comps (is_abs p) (path_comps q) = clean_comps (is_abs p) (path_comps p)"
    by (simp add: clean_comps_idem clean_comps_shape)
  moreover have "is_abs q = is_abs p" by (simp add: q_def)
  ultimately have "path_clean q = path_clean p"
    by (simp only: path_clean_def Let_def)
  then show ?thesis by (simp add: q_def)
qed

section \<open>Walking up\<close>

lemma path_comps_append: "path_comps (a @ slash # b) = path_comps a @ path_comps b"
proof -
  have "split_on slash (a @ slash # b) = split_on slash a @ split_on slash b"
  proof (induction a)
    case (Cons x xs)
    then show ?case
      by (cases "split_on slash xs") (auto split: list.split)
  qed simp
  then show ?thesis by (simp add: path_comps_def)
qed

lemma dir_file_part: "dir_part p @ file_part p = p"
  by (simp add: dir_part_def file_part_def flip: rev_append)

lemma slash_file_part: "slash \<notin> set (file_part p)"
  using set_takeWhileD by (fastforce simp: file_part_def)

lemma dir_part_cases: "dir_part p = [] \<or> (\<exists>d. dir_part p = d @ [slash])"
proof (cases "dropWhile (\<lambda>c. c \<noteq> slash) (rev p)")
  case (Cons c cs)
  then have "c = slash" by (metis (mono_tags, lifting) dropWhile_eq_Cons_conv)
  with Cons show ?thesis by (simp add: dir_part_def)
qed (simp add: dir_part_def)

lemma length_clean_step: "length (clean_step r out c) \<le> Suc (length out)"
  by auto

lemma length_clean_comps: "length (clean_comps r cs) \<le> length cs"
proof -
  have "length (foldl (clean_step r) out cs) \<le> length out + length cs" for out
  proof (induction cs arbitrary: out)
    case (Cons c cs)
    from Cons [of "clean_step r out c"] length_clean_step [of r out c] show ?case
      by (simp del: clean_step.simps)
  qed simp
  from this [of "[]"] show ?thesis by (simp add: clean_comps_def)
qed

text \<open>A loop that goes from a directory to its parent ends: this measure shrinks at every step.\<close>

definition up_measure :: "string \<Rightarrow> nat" where
  "up_measure p =
     (if p = ''.'' then 0
      else Suc (2 * length (path_comps p) + (if path_clean p = p then 0 else 1)))"

lemma path_dir_measure:
  assumes "path_dir p \<noteq> p" shows "up_measure (path_dir p) < up_measure p"
proof -
  define q where "q = path_dir p"
  have idem: "path_clean q = q" by (simp add: q_def path_dir_def path_clean_idem)
  have dot: "path_dir ''.'' = ''.''"
    by (simp add: path_dir_def dir_part_def path_clean_def is_abs_def path_comps_def clean_comps_def)
  then have p: "p \<noteq> ''.''" using assms by auto
  show ?thesis
  proof (cases "q = ''.''")
    case True
    with p show ?thesis by (simp add: up_measure_def q_def)
  next
    case False
    have le: "length (path_comps q) \<le> length (path_comps (dir_part p))"
    proof (cases "\<not> is_abs (dir_part p) \<and> clean_comps False (path_comps (dir_part p)) = []")
      case True
      then have "q = ''.''" by (simp add: q_def path_dir_def path_clean_def)
      with False show ?thesis by simp
    next
      case nd: False
      then have "path_comps q = clean_comps (is_abs (dir_part p)) (path_comps (dir_part p))"
        by (auto simp: q_def path_dir_def path_comps_clean)
      then show ?thesis by (simp add: length_clean_comps)
    qed
    show ?thesis
    proof (cases "file_part p = []")
      case True
      then have "dir_part p = p" using dir_file_part [of p] by simp
      moreover from this have "path_clean p \<noteq> p" using assms by (simp add: path_dir_def)
      ultimately show ?thesis
        using le False p by (simp add: up_measure_def q_def [symmetric] idem)
    next
      case ne: False
      have "length (path_comps (dir_part p)) < length (path_comps p)"
        using dir_part_cases [of p]
      proof
        assume "dir_part p = []"
        with ne dir_file_part [of p] slash_file_part [of p] show ?thesis
          by (simp add: path_comps_def split_on_no_sep)
      next
        assume "\<exists>d. dir_part p = d @ [slash]"
        then obtain d where d: "dir_part p = d @ [slash]" ..
        then have "path_comps p = path_comps d @ path_comps (file_part p)"
          using dir_file_part [of p] path_comps_append [of d "file_part p"] by simp
        moreover have "path_comps (dir_part p) = path_comps d"
          using path_comps_append [of d "[]"] d by (simp add: path_comps_def)
        moreover have "path_comps (file_part p) = [file_part p]"
          using ne slash_file_part [of p] by (simp add: path_comps_def split_on_no_sep)
        ultimately show ?thesis by simp
      qed
      with le False p show ?thesis
        by (auto simp: up_measure_def q_def [symmetric] idem)
    qed
  qed
qed

section \<open>Glob matching: \<open>filepath.Match\<close>\<close>

text \<open>\<open>scanChunk\<close>: leading stars, then the pattern up to the next star outside a class.\<close>

fun scan_lit :: "bool \<Rightarrow> string \<Rightarrow> string \<times> string" where
  "scan_lit inr [] = ([], [])"
| "scan_lit inr (c # cs) =
     (if c = CHR 0x5C then
        (case cs of
           [] \<Rightarrow> ([c], [])
         | d # ds \<Rightarrow> (c # d # fst (scan_lit inr ds), snd (scan_lit inr ds)))
      else if c = CHR ''*'' \<and> \<not> inr then ([], c # cs)
      else let r = scan_lit (if c = CHR ''['' then True else if c = CHR '']'' then False else inr) cs
           in (c # fst r, snd r))"

definition scan_chunk :: "string \<Rightarrow> bool \<times> string \<times> string" where
  "scan_chunk pat =
     (let rest = dropWhile (\<lambda>c. c = CHR ''*'') pat; (chunk, r) = scan_lit False rest
      in (rest \<noteq> pat, chunk, r))"

text \<open>\<open>getEsc\<close>: one possibly escaped character of a class; \<open>None\<close> is \<open>ErrBadPattern\<close>.\<close>

definition get_esc :: "string \<Rightarrow> (char \<times> string) option" where
  "get_esc chunk =
     (case chunk of
        [] \<Rightarrow> None
      | c # cs \<Rightarrow>
          if c = CHR ''-'' \<or> c = CHR '']'' then None
          else let body = (if c = CHR 0x5C then cs else chunk) in
            (case body of
               [] \<Rightarrow> None
             | r # n \<Rightarrow> if n = [] then None else Some (r, n)))"

lemma get_esc_length: "get_esc chunk = Some (r, n) \<Longrightarrow> length n < length chunk \<and> n \<noteq> []"
  by (auto simp: get_esc_def Let_def split: list.splits if_splits)

text \<open>The ranges of a class up to its closing bracket: did one match, and what follows.\<close>

function class_loop :: "char option \<Rightarrow> string \<Rightarrow> bool \<Rightarrow> bool \<Rightarrow> (bool \<times> string) option" where
  "class_loop r chunk seen matched =
     (if chunk \<noteq> [] \<and> hd chunk = CHR '']'' \<and> seen then Some (matched, tl chunk)
      else case get_esc chunk of
        None \<Rightarrow> None
      | Some (lo, n) \<Rightarrow>
          (case (if hd n = CHR ''-'' then get_esc (tl n) else Some (lo, n)) of
             None \<Rightarrow> None
           | Some (hi, n') \<Rightarrow>
               class_loop r n' True
                 (matched \<or> (case r of None \<Rightarrow> lo = CHR 0x00
                                     | Some x \<Rightarrow> lo \<le> x \<and> x \<le> hi))))"
  by pat_completeness auto
termination
  by (relation "measure (\<lambda>(r, chunk, s, m). length chunk)")
    (auto dest!: get_esc_length split: if_splits)

declare class_loop.simps [simp del]

lemma class_loop_length:
  "class_loop r chunk seen matched = Some (m, rest) \<Longrightarrow> length rest < length chunk"
proof (induction r chunk seen matched rule: class_loop.induct)
  case (1 r chunk seen matched)
  show ?case
  proof (cases "chunk \<noteq> [] \<and> hd chunk = CHR '']'' \<and> seen")
    case True
    with "1.prems" show ?thesis by (auto simp: class_loop.simps [of r chunk])
  next
    case False
    with "1.prems" obtain lo n hi n' where
      e: "get_esc chunk = Some (lo, n)" and
      h: "(if hd n = CHR ''-'' then get_esc (tl n) else Some (lo, n)) = Some (hi, n')" and
      l: "class_loop r n' True (matched \<or> (case r of None \<Rightarrow> lo = CHR 0x00
            | Some x \<Rightarrow> lo \<le> x \<and> x \<le> hi)) = Some (m, rest)"
      by (auto simp: class_loop.simps [of r chunk] split: option.splits)
    have "length rest < length n'" using "1.IH" [OF False e refl h refl l] .
    moreover have "length n' \<le> length n"
      using h by (auto dest!: get_esc_length split: if_splits)
    ultimately show ?thesis using get_esc_length [OF e] by simp
  qed
qed

text \<open>
  \<open>matchChunk\<close>: \<open>None\<close> for a malformed pattern, \<open>Some None\<close> for no match, and \<open>Some (Some t)\<close>
  with the rest of the name. The name is an option: \<open>None\<close> is the \<open>failed\<close> flag, under
  which the rest of the chunk is only checked for well-formedness. A failed class is scanned with
  the zero rune, as in Go, which no later step can turn into a match.
\<close>

function match_chunk :: "string \<Rightarrow> string option \<Rightarrow> string option option" where
  "match_chunk [] s = Some s"
| "match_chunk (c # cs) s0 =
     (let s = (if s0 = Some [] then None else s0) in
      if c = CHR ''['' then
        (let neg = (cs \<noteq> [] \<and> hd cs = CHR ''^'');
             body = (if neg then tl cs else cs)
         in case class_loop (map_option hd s) body False False of
              None \<Rightarrow> None
            | Some (m, rest) \<Rightarrow>
                match_chunk rest (if m = neg then None else map_option tl s))
      else if c = CHR ''?'' then
        match_chunk cs
          (case s of None \<Rightarrow> None | Some n \<Rightarrow> if hd n = slash then None else Some (tl n))
      else if c = CHR 0x5C then
        (case cs of
           [] \<Rightarrow> None
         | d # ds \<Rightarrow>
             match_chunk ds
               (case s of None \<Rightarrow> None | Some n \<Rightarrow> if hd n = d then Some (tl n) else None))
      else
        match_chunk cs
          (case s of None \<Rightarrow> None | Some n \<Rightarrow> if hd n = c then Some (tl n) else None))"
  by pat_completeness auto
termination
  by (relation "measure (\<lambda>(c, s). length c)")
    (auto dest!: class_loop_length simp: length_tl split: if_splits)

text \<open>The inner loop after a star: try the chunk at every later position before a slash.\<close>

fun star_loop :: "string \<Rightarrow> bool \<Rightarrow> string \<Rightarrow> string option option" where
  "star_loop chunk last_chunk [] = Some None"
| "star_loop chunk last_chunk (x # xs) =
     (if x = slash then Some None
      else case match_chunk chunk (Some xs) of
        None \<Rightarrow> None
      | Some None \<Rightarrow> star_loop chunk last_chunk xs
      | Some (Some t) \<Rightarrow>
          if last_chunk \<and> t \<noteq> [] then star_loop chunk last_chunk xs else Some (Some t))"

lemma scan_lit_length: "length (fst (scan_lit i p)) + length (snd (scan_lit i p)) = length p"
proof (induction i p rule: scan_lit.induct)
  case (2 inr c cs)
  show ?case
  proof (cases "c = CHR 0x5C")
    case True
    with 2 show ?thesis by (cases cs) auto
  next
    case False
    with 2 show ?thesis by (simp add: Let_def)
  qed
qed simp

lemma scan_chunk_length: "pat \<noteq> [] \<Longrightarrow> scan_chunk pat = (star, chunk, rest) \<Longrightarrow> length rest < length pat"
proof -
  assume ne: "pat \<noteq> []" and sc: "scan_chunk pat = (star, chunk, rest)"
  let ?r = "dropWhile (\<lambda>c. c = CHR ''*'') pat"
  have rest: "rest = snd (scan_lit False ?r)" and chunk: "chunk = fst (scan_lit False ?r)"
    using sc by (auto simp: scan_chunk_def Let_def split: prod.splits)
  have len: "length chunk + length rest = length ?r"
    using scan_lit_length [of False ?r] by (simp add: rest chunk)
  show ?thesis
  proof (cases "hd pat = CHR ''*''")
    case True
    with ne have "length ?r < length pat"
      by (cases pat) (auto simp: less_Suc_eq_le length_dropWhile_le)
    with len show ?thesis by simp
  next
    case False
    with ne obtain c cs where p: "pat = c # cs" "c \<noteq> CHR ''*''" by (cases pat) auto
    then have "?r = pat" by simp
    moreover have "chunk \<noteq> []"
      unfolding chunk \<open>?r = pat\<close> using p by (simp add: Let_def split: list.split)
    ultimately show ?thesis using len by (cases chunk) auto
  qed
qed

text \<open>The check of the remaining chunks before \<open>Match\<close> answers no.\<close>

function chunks_ok :: "string \<Rightarrow> bool" where
  "chunks_ok pat =
     (if pat = [] then True
      else case scan_chunk pat of
        (star, chunk, rest) \<Rightarrow> match_chunk chunk (Some []) \<noteq> None \<and> chunks_ok rest)"
  by pat_completeness auto
termination
  by (relation "measure length") (auto dest: scan_chunk_length [OF _ sym])

declare chunks_ok.simps [simp del]

text \<open>\<open>filepath.Match\<close>: \<open>None\<close> is \<open>ErrBadPattern\<close>.\<close>

function glob_match :: "string \<Rightarrow> string \<Rightarrow> bool option" where
  "glob_match pat name =
     (if pat = [] then Some (name = [])
      else case scan_chunk pat of
        (star, chunk, rest) \<Rightarrow>
          if star \<and> chunk = [] then Some (slash \<notin> set name)
          else case match_chunk chunk (Some name) of
            None \<Rightarrow> None
          | Some m \<Rightarrow>
              (case (case m of
                       Some t \<Rightarrow>
                         if t = [] \<or> rest \<noteq> [] then Some (Some t)
                         else if star then star_loop chunk (rest = []) name else Some None
                     | None \<Rightarrow> if star then star_loop chunk (rest = []) name else Some None) of
                 None \<Rightarrow> None
               | Some (Some t) \<Rightarrow> glob_match rest t
               | Some None \<Rightarrow> if chunks_ok rest then Some False else None))"
  by pat_completeness auto
termination
  by (relation "measure (\<lambda>(p, n). length p)") (auto dest: scan_chunk_length [OF _ sym])

declare glob_match.simps [simp del]

text \<open>\<open>matched, _ := filepath.Match(pattern, name)\<close>: a malformed pattern matches nothing.\<close>

definition glob_matches :: "string \<Rightarrow> string \<Rightarrow> bool" where
  "glob_matches pat name = (glob_match pat name = Some True)"

text \<open>A pattern without metacharacters matches exactly its own text.\<close>

definition is_literal :: "string \<Rightarrow> bool" where
  "is_literal p = (\<forall>c \<in> set p. c \<notin> {CHR ''*'', CHR ''?'', CHR ''['', CHR 0x5C})"

lemma scan_lit_literal: "is_literal p \<Longrightarrow> scan_lit False p = (p, [])"
  by (induction p) (auto simp: is_literal_def Let_def)

lemma scan_chunk_literal: "is_literal p \<Longrightarrow> scan_chunk p = (False, p, [])"
proof -
  assume l: "is_literal p"
  then have "dropWhile (\<lambda>c. c = CHR ''*'') p = p"
    by (cases p) (auto simp: is_literal_def)
  with l show ?thesis by (simp add: scan_chunk_def scan_lit_literal)
qed

lemma match_chunk_literal:
  "is_literal p \<Longrightarrow> match_chunk p s =
     Some (case s of None \<Rightarrow> None | Some n \<Rightarrow> if has_prefix n p then Some (drop (length p) n) else None)"
proof (induction p arbitrary: s)
  case (Cons c p)
  then have "is_literal p" and c: "c \<noteq> CHR ''*''" "c \<noteq> CHR ''?''" "c \<noteq> CHR ''[''" "c \<noteq> CHR 0x5C"
    by (auto simp: is_literal_def)
  with Cons.IH show ?case
    by (cases s; cases "the s") (auto simp: Let_def)
qed (auto split: option.split)

lemma glob_match_literal: "is_literal p \<Longrightarrow> glob_match p name = Some (name = p)"
  by (cases "p = []"; cases "has_prefix name p")
    (auto simp: glob_match.simps [of p name] scan_chunk_literal match_chunk_literal
      glob_match.simps [of "[]"] chunks_ok.simps [of "[]"] has_prefix_iff)

lemma glob_matches_literal: "is_literal p \<Longrightarrow> glob_matches p name \<longleftrightarrow> name = p"
  by (simp add: glob_matches_def glob_match_literal)

end
