(* ===== verification/Doc_Extraction.thy ===== *)
theory Doc_Extraction
  imports Body_Sections Go_Paths
begin

text \<open>
  Reading one document: the Markdown extractor of \<open>internal/extract/extract.go\<close>, the scalar evidence of
  \<open>scalar_metadata.go\<close> and the extractor registry of \<open>registry.go\<close>.

  Parameters: \<open>gm\<close>, goldmark's headings of a body; \<open>yaml\<close>, the YAML library on one document, which
  gives an error text or a node tree (\<open>ydoc\<close>) whose mapping entries the code reads.
\<close>

section \<open>Scalar evidence\<close>

record fm_scalar =
  fs_lexeme :: string
  fs_representation :: string

text \<open>A value node of the mapping: a scalar with its tag and text, or anything else.\<close>

datatype ynode = YScalar string string | YOther

text \<open>The root of a document: nothing at all, a mapping with its key texts in order, or another kind.\<close>

datatype yroot = YEmpty | YMapping "(string \<times> ynode) list" | YNonMapping

text \<open>A parsed document: its root, and what \<open>Decode\<close> into a map gives (\<open>None\<close> for a nil map).\<close>

record ydoc =
  yd_root :: yroot
  yd_decode :: "string + vmap option"

definition representation_for_tag :: "string \<Rightarrow> string option" where
  "representation_for_tag tag =
     (if tag = ''!!timestamp'' then Some ''timestamp''
      else if tag = ''!!bool'' then Some ''boolean''
      else if tag = ''!!int'' then Some ''integer''
      else None)"

definition is_repairable_representation :: "string \<Rightarrow> bool" where
  "is_repairable_representation name = (name \<in> {''timestamp'', ''boolean'', ''integer''})"

fun collect_entries :: "(string \<times> ynode) list \<Rightarrow> (string \<times> fm_scalar) list \<Rightarrow> (string \<times> fm_scalar) list" where
  "collect_entries [] scalars = scalars"
| "collect_entries ((key, YOther) # rest) scalars = collect_entries rest scalars"
| "collect_entries ((key, YScalar tag lexeme) # rest) scalars =
     (case representation_for_tag tag of
        None \<Rightarrow> collect_entries rest scalars
      | Some rep \<Rightarrow>
          collect_entries rest
            (AList.update key \<lparr> fs_lexeme = lexeme, fs_representation = rep \<rparr> scalars))"

definition collect_scalars :: "yroot \<Rightarrow> string + (string \<times> fm_scalar) list" where
  "collect_scalars root =
     (case root of
        YEmpty \<Rightarrow> Inr []
      | YNonMapping \<Rightarrow> Inl ''frontmatter must be a YAML mapping''
      | YMapping entries \<Rightarrow> Inr (collect_entries entries []))"

definition decode_frontmatter ::
  "(string \<Rightarrow> string + ydoc) \<Rightarrow> string \<Rightarrow> string + vmap \<times> (string \<times> fm_scalar) list" where
  "decode_frontmatter yaml content =
     (case yaml content of
        Inl e \<Rightarrow> Inl e
      | Inr d \<Rightarrow>
          (case yd_decode d of
             Inl e \<Rightarrow> Inl e
           | Inr m \<Rightarrow>
               (case collect_scalars (yd_root d) of
                  Inl e \<Rightarrow> Inl e
                | Inr scalars \<Rightarrow> Inr (case m of None \<Rightarrow> [] | Some fm \<Rightarrow> fm, scalars))))"

section \<open>The Markdown extractor\<close>

text \<open>The record, with the scalar evidence of its frontmatter.\<close>

record extracted =
  ex_doc :: doc
  ex_scalars :: "(string \<times> fm_scalar) list"

definition strip_bom :: "string \<Rightarrow> string" where
  "strip_bom txt = (if has_prefix txt bom then drop 3 txt else txt)"

definition section_map :: "doc_section list \<Rightarrow> (string \<times> string) list" where
  "section_map ss =
     foldl (\<lambda>m s. if sec_level s > 0
                  then AList.update (exact_heading \<lparr> hk_level = sec_level s, hk_text = sec_heading s \<rparr>)
                         (trim_space (sec_content s)) m
                  else m) [] ss"

definition populate_body_sections ::
  "(string \<Rightarrow> ast_heading list) \<Rightarrow> bool \<Rightarrow> extracted \<Rightarrow> extracted" where
  "populate_body_sections gm parse_ast x =
     (let r = ex_doc x in
      if rc_body r = [] then x
      else
        let r' = (if parse_ast
                  then r\<lparr> rc_ast := Some (gm (rc_body r)),
                          rc_body_sections := Some (extract_sections (gm (rc_body r)) (rc_body r)) \<rparr>
                  else r\<lparr> rc_body_sections := Some (extract_sections_from_text gm (rc_body r)) \<rparr>);
            ss = (case rc_body_sections r' of None \<Rightarrow> [] | Some s \<Rightarrow> s)
        in if ss = [] then x\<lparr> ex_doc := r' \<rparr>
           else x\<lparr> ex_doc := r'\<lparr> rc_sections := Some (section_map ss) \<rparr> \<rparr>)"

definition base_record :: "string \<Rightarrow> extracted" where
  "base_record path =
     \<lparr> ex_doc = zero_doc\<lparr> rc_path := path, rc_type := ''markdown'' \<rparr>, ex_scalars = [] \<rparr>"

definition unclosed_message :: string where
  "unclosed_message = ''unclosed frontmatter delimiter''"

text \<open>The fields read from the block: the decoded map, or the fallback with one error.\<close>

definition with_frontmatter :: "(string \<Rightarrow> string + ydoc) \<Rightarrow> string \<Rightarrow> extracted \<Rightarrow> extracted" where
  "with_frontmatter yaml content x =
     (case decode_frontmatter yaml content of
        Inl e \<Rightarrow>
          x\<lparr> ex_doc := (ex_doc x)\<lparr> rc_frontmatter := fallback_parse_frontmatter content,
               rc_errors := rc_errors (ex_doc x) @ [(1, ''malformed YAML frontmatter: '' @ e)] \<rparr>,
             ex_scalars := [] \<rparr>
      | Inr (fm, scalars) \<Rightarrow>
          x\<lparr> ex_doc := (ex_doc x)\<lparr> rc_frontmatter := fm \<rparr>, ex_scalars := scalars \<rparr>)"

definition extract_document ::
  "(string \<Rightarrow> ast_heading list) \<Rightarrow> (string \<Rightarrow> string + ydoc) \<Rightarrow> bool \<Rightarrow> string \<Rightarrow> string \<Rightarrow> extracted" where
  "extract_document gm yaml parse_ast path content =
     (let x = base_record path; txt = strip_bom content in
      if \<not> has_prefix txt (''---'' @ [LF]) \<and> \<not> has_prefix txt (''---'' @ [CR, LF]) then
        populate_body_sections gm parse_ast
          (x\<lparr> ex_doc := (ex_doc x)\<lparr> rc_body := txt, rc_links := parse_links txt \<rparr> \<rparr>)
      else
        case frontmatter_bounds txt of
          None \<Rightarrow>
            x\<lparr> ex_doc := (ex_doc x)\<lparr> rc_body := txt,
                 rc_errors := rc_errors (ex_doc x) @ [(1, unclosed_message)] \<rparr> \<rparr>
        | Some (start, stop, body_start) \<Rightarrow>
            let x1 = with_frontmatter yaml (slice txt start stop) x;
                body = (if body_start < length txt
                        then trim_left_chars [CR, LF] (drop body_start txt) else []);
                fm_links = parse_frontmatter_links (rc_frontmatter (ex_doc x1));
                r = (ex_doc x1)\<lparr> rc_body := body,
                       rc_links := (if fm_links \<noteq> [] then fm_links @ parse_links body
                                    else parse_links body) \<rparr>
            in populate_body_sections gm parse_ast (x1\<lparr> ex_doc := r \<rparr>))"

section \<open>The registry\<close>

text \<open>
  An extractor is known by its name and its extensions. Registering a name or an extension twice
  panics, after the name has been entered.
\<close>

record extractor =
  xt_name :: string
  xt_extensions :: "string list"

record registry =
  rg_by_name :: "(string \<times> extractor) list"
  rg_by_extension :: "(string \<times> extractor) list"

fun register_extensions :: "extractor \<Rightarrow> string list \<Rightarrow> registry \<Rightarrow> string + registry" where
  "register_extensions e [] g = Inr g"
| "register_extensions e (ext # exts) g =
     (case map_of (rg_by_extension g) ext of
        Some existing \<Rightarrow>
          Inl (''extension '' @ go_quote ext @ '' already registered by '' @ go_quote (xt_name existing))
      | None \<Rightarrow>
          register_extensions e exts
            (g\<lparr> rg_by_extension := AList.update ext e (rg_by_extension g) \<rparr>))"

definition register :: "extractor \<Rightarrow> registry \<Rightarrow> string + registry" where
  "register e g =
     (if has_key (rg_by_name g) (xt_name e)
      then Inl (''extractor '' @ go_quote (xt_name e) @ '' already registered'')
      else register_extensions e (xt_extensions e)
             (g\<lparr> rg_by_name := AList.update (xt_name e) e (rg_by_name g) \<rparr>))"

definition markdown_extractor :: extractor where
  "markdown_extractor = \<lparr> xt_name = ''markdown'', xt_extensions = [''.md'', ''.markdown''] \<rparr>"

definition new_registry :: "string + registry" where
  "new_registry = register markdown_extractor \<lparr> rg_by_name = [], rg_by_extension = [] \<rparr>"

definition for_file :: "registry \<Rightarrow> string \<Rightarrow> string \<Rightarrow> extractor option" where
  "for_file g path stem_extractor =
     (if stem_extractor \<noteq> [] then map_of (rg_by_name g) stem_extractor
      else map_of (rg_by_extension g) (path_ext path))"

section \<open>Lemmas\<close>

lemma populate_doc [simp]:
  "rc_path (ex_doc (populate_body_sections gm a x)) = rc_path (ex_doc x)"
  "rc_frontmatter (ex_doc (populate_body_sections gm a x)) = rc_frontmatter (ex_doc x)"
  "rc_body (ex_doc (populate_body_sections gm a x)) = rc_body (ex_doc x)"
  "rc_links (ex_doc (populate_body_sections gm a x)) = rc_links (ex_doc x)"
  "rc_derived (ex_doc (populate_body_sections gm a x)) = rc_derived (ex_doc x)"
  "rc_errors (ex_doc (populate_body_sections gm a x)) = rc_errors (ex_doc x)"
  "rc_type (ex_doc (populate_body_sections gm a x)) = rc_type (ex_doc x)"
  "ex_scalars (populate_body_sections gm a x) = ex_scalars x"
  by (auto simp: populate_body_sections_def Let_def)

lemma populate_sections:
  "rc_body_sections (ex_doc (populate_body_sections gm a x)) =
     (if rc_body (ex_doc x) = [] then rc_body_sections (ex_doc x)
      else Some (extract_sections (gm (rc_body (ex_doc x))) (rc_body (ex_doc x))))"
  by (simp add: populate_body_sections_def Let_def extract_sections_from_text_def)

text \<open>The sections and the map are those of the body, whether or not the tree is kept.\<close>

lemma populate_mode:
  "rc_body_sections (ex_doc (populate_body_sections gm True x)) =
     rc_body_sections (ex_doc (populate_body_sections gm False x))"
  "rc_sections (ex_doc (populate_body_sections gm True x)) =
     rc_sections (ex_doc (populate_body_sections gm False x))"
  by (simp_all add: populate_body_sections_def Let_def extract_sections_from_text_def)

lemma with_frontmatter_doc [simp]:
  "rc_path (ex_doc (with_frontmatter yaml c x)) = rc_path (ex_doc x)"
  "rc_body_sections (ex_doc (with_frontmatter yaml c x)) = rc_body_sections (ex_doc x)"
  "rc_ast (ex_doc (with_frontmatter yaml c x)) = rc_ast (ex_doc x)"
  "rc_sections (ex_doc (with_frontmatter yaml c x)) = rc_sections (ex_doc x)"
  by (simp_all add: with_frontmatter_def split: sum.split)

lemma base_record_doc [simp]:
  "rc_path (ex_doc (base_record path)) = path" "rc_errors (ex_doc (base_record path)) = []"
  "rc_body_sections (ex_doc (base_record path)) = None"
  by (simp_all add: base_record_def zero_doc_def)

text \<open>\<open>extract_document\<close> on a document composed of a block and a body.\<close>

lemma extract_composed:
  fixes body path :: string and yaml :: "string \<Rightarrow> string + ydoc"
  assumes "\<forall>l \<in> set ls. LF \<notin> set l" "fence_after None ls = Some None"
  defines "d \<equiv> ''---'' @ LF # unlines ls @ ''---'' @ LF # body"
  defines "x \<equiv> with_frontmatter yaml (unlines ls) (base_record path)"
  defines "b \<equiv> trim_left_chars [CR, LF] body"
  shows "extract_document gm yaml a path d =
     populate_body_sections gm a
       (x\<lparr> ex_doc := (ex_doc x)\<lparr> rc_body := b,
             rc_links := parse_frontmatter_links (rc_frontmatter (ex_doc x)) @ parse_links b \<rparr> \<rparr>)"
proof -
  have bounds: "frontmatter_bounds d = Some (4, 4 + length (unlines ls), 8 + length (unlines ls))"
    unfolding d_def by (rule frontmatter_bounds_composed [OF assms(1,2)])
  have sl: "slice d 4 (4 + length (unlines ls)) = unlines ls"
    by (simp add: d_def slice_def numeral_eq_Suc)
  have dr: "drop (8 + length (unlines ls)) d = body" by (simp add: d_def numeral_eq_Suc)
  have len: "length d = 8 + length (unlines ls) + length body" by (simp add: d_def)
  have nobom: "strip_bom d = d" by (simp add: strip_bom_def d_def bom_def)
  have pre: "has_prefix d (''---'' @ [LF])" by (simp add: d_def)
  have body: "(if 8 + length (unlines ls) < length d then trim_left_chars [CR, LF] body else []) = b"
    by (auto simp: len b_def trim_left_chars_def)
  have links: "(if xs \<noteq> [] then xs @ ys else ys) = xs @ ys" for xs ys :: "link list" by simp
  show ?thesis
    unfolding extract_document_def Let_def nobom bounds option.case prod.case sl dr body links x_def
    using pre by simp
qed

lemma split_on_unlines:
  "\<forall>l \<in> set ls. LF \<notin> set l \<Longrightarrow> split_on LF (unlines ls) = ls @ [[]]"
  by (induction ls) (auto simp: split_on_append)

lemma no_field_on_empty_line: "\<not> field_line [] k v"
  by (simp add: field_line_def trim_space_def)

lemma fallback_unlines:
  assumes "\<forall>l \<in> set ls. LF \<notin> set l"
  shows "map_of (fallback_parse_frontmatter (unlines ls)) k = Some x \<longleftrightarrow>
     (\<exists>v. x = VStr v \<and> read_by_lines ls k v)"
  by (simp add: fallback_lookup split_on_unlines [OF assms] read_by_lines_snoc no_field_on_empty_line)

lemma register_extensions_ok:
  assumes "register_extensions e exts g = Inr g'"
  shows "rg_by_name g' = rg_by_name g \<and>
     (\<forall>ext. map_of (rg_by_extension g') ext =
        (if ext \<in> set exts then Some e else map_of (rg_by_extension g) ext)) \<and>
     distinct exts \<and> (\<forall>ext \<in> set exts. map_of (rg_by_extension g) ext = None)"
  using assms
proof (induction exts arbitrary: g)
  case (Cons x exts)
  then have n: "map_of (rg_by_extension g) x = None"
    and r: "register_extensions e exts (g\<lparr> rg_by_extension := AList.update x e (rg_by_extension g) \<rparr>) =
      Inr g'" by (auto split: option.splits)
  from Cons.IH [OF r] n show ?case by (auto simp: update_conv' split: if_splits)
qed simp

section \<open>Properties\<close>

text \<open>Extraction gives a document's parts back: for a document made of a block and a body whose YAML
  decodes, the record carries the decoded fields, the body without its leading blank lines, the links
  of the fields before the links of the body, and no error.\<close>

theorem extraction_reads_parts:
  assumes "\<forall>l \<in> set ls. LF \<notin> set l" "fence_after None ls = Some None"
    and "decode_frontmatter yaml (unlines ls) = Inr (fm, scalars)"
  shows "let x = extract_document gm yaml a path (''---'' @ LF # unlines ls @ ''---'' @ LF # body);
         b = trim_left_chars [CR, LF] body
     in rc_path (ex_doc x) = path \<and> rc_frontmatter (ex_doc x) = fm \<and> rc_body (ex_doc x) = b \<and>
        rc_links (ex_doc x) = parse_frontmatter_links fm @ parse_links b \<and>
        rc_errors (ex_doc x) = [] \<and> ex_scalars x = scalars"
  unfolding extract_composed [OF assms(1,2)] Let_def
  by (simp add: with_frontmatter_def assms(3) base_record_def zero_doc_def)

definition one_field_yaml :: "string \<Rightarrow> string + ydoc" where
  "one_field_yaml s =
     Inr \<lparr> yd_root = YMapping [(''a'', YScalar ''!!int'' ''1'')], yd_decode = Inr (Some [(''a'', VInt 1)]) \<rparr>"

definition no_yaml :: "string \<Rightarrow> string + ydoc" where
  "no_yaml s = Inl ''did not find expected key''"

theorem extraction_reads_parts_witness:
  "rc_frontmatter (ex_doc (extract_document (\<lambda>_. []) one_field_yaml False ''d.md''
      (''---'' @ LF # unlines [''a: 1''] @ ''---'' @ LF # LF # ''text''))) = [(''a'', VInt 1)]"
proof -
  have "\<forall>l \<in> set [''a: 1'']. LF \<notin> set l" by simp
  moreover have "fence_after None [''a: 1''] = Some None" by code_simp
  moreover have "decode_frontmatter one_field_yaml (unlines [''a: 1'']) =
      Inr ([(''a'', VInt 1)], [(''a'', \<lparr> fs_lexeme = ''1'', fs_representation = ''integer'' \<rparr>)])"
    by code_simp
  ultimately show ?thesis
    using extraction_reads_parts [of "[''a: 1'']" one_field_yaml "[(''a'', VInt 1)]" _ "\<lambda>_. []"
        False "''d.md''" "LF # ''text''"]
    by (simp only: Let_def)
qed

text \<open>C29: Malformed YAML degrades the fields and nothing else. For a document made of a block of lines, none of which
  closes the block early or opens a code fence that stays open, and a body, when the YAML of the block does not decode, the record
  still comes back with exactly one error, and its body and body sections are those the same document has under any other reading of the
  block. Its fields are exactly what can be read line by line: a key has the value behind the first colon of
  the last line that names the key before its first colon, both trimmed, where a line without a colon, one that starts with
  the colon or with \<open>#\<close>, and one with nothing behind the colon, names no key.\<close>

theorem malformed_yaml_degrades:
  assumes "\<forall>l \<in> set ls. LF \<notin> set l" "fence_after None ls = Some None"
    and "decode_frontmatter yaml (unlines ls) = Inl e"
  shows "let d = ''---'' @ LF # unlines ls @ ''---'' @ LF # body; x = extract_document gm yaml a path d
     in rc_errors (ex_doc x) = [(1, ''malformed YAML frontmatter: '' @ e)] \<and>
        (\<forall>k v. map_of (rc_frontmatter (ex_doc x)) k = Some v \<longleftrightarrow> (\<exists>s. v = VStr s \<and> read_by_lines ls k s)) \<and>
        rc_body (ex_doc x) = rc_body (ex_doc (extract_document gm yaml' a path d)) \<and>
        rc_body_sections (ex_doc x) = rc_body_sections (ex_doc (extract_document gm yaml' a path d))"
proof -
  have err: "with_frontmatter yaml (unlines ls) (base_record path) =
      (base_record path)\<lparr> ex_doc := (ex_doc (base_record path))
         \<lparr> rc_frontmatter := fallback_parse_frontmatter (unlines ls),
           rc_errors := [(1, ''malformed YAML frontmatter: '' @ e)] \<rparr>, ex_scalars := [] \<rparr>"
    by (simp add: with_frontmatter_def assms(3))
  show ?thesis
    unfolding extract_composed [OF assms(1,2)] Let_def
    by (simp add: populate_sections err fallback_unlines [OF assms(1)])
qed

text \<open>A block whose second line is no YAML; the last line for the key counts, comments and empty values do not.\<close>

definition broken_block :: "string list" where
  "broken_block = [''title: one'', ''a: b: c'', ''# title: no'', '' title : two '', ''title:'', ''junk'']"

lemma broken_block_reads: "read_by_lines broken_block ''title'' ''two''"
proof -
  have "field_line '' title : two '' ''title'' ''two''" by code_simp
  moreover have "\<not> field_line l ''title'' v" if "l \<in> {''title:'', ''junk''}" for l v
  proof -
    have "index_of (trim_space ''title:'') '':'' = Some 5" "index_of (trim_space ''junk'') '':'' = None"
      "trim_space (drop (5 + 1) (trim_space ''title:'')) = []" by code_simp+
    with that show ?thesis by (auto simp: field_line_code Let_def)
  qed
  ultimately show ?thesis unfolding read_by_lines_def broken_block_def
    by (intro exI [of _ "[''title: one'', ''a: b: c'', ''# title: no'']"] exI [of _ "'' title : two ''"]
        exI [of _ "[''title:'', ''junk'']"]) auto
qed

theorem malformed_yaml_degrades_witness:
  "let x = extract_document (\<lambda>_. []) no_yaml False ''d.md''
      (''---'' @ LF # unlines broken_block @ ''---'' @ LF # ''text'') in
   rc_errors (ex_doc x) = [(1, ''malformed YAML frontmatter: did not find expected key'')] \<and>
   map_of (rc_frontmatter (ex_doc x)) ''title'' = Some (VStr ''two'')"
proof -
  have "\<forall>l \<in> set broken_block. LF \<notin> set l" by (simp add: broken_block_def)
  moreover have "fence_after None broken_block = Some None" by code_simp
  moreover have "decode_frontmatter no_yaml (unlines broken_block) = Inl ''did not find expected key''"
    by code_simp
  ultimately show ?thesis
    using malformed_yaml_degrades [of broken_block no_yaml "''did not find expected key''" "''text''"
        "\<lambda>_. []" False "''d.md''" no_yaml] broken_block_reads
    by (simp add: Let_def)
qed

text \<open>Keeping the syntax tree changes no body evidence: a directive that reads the body resolves to the
  same value, or the same error, whether the extractor retains the tree or not.\<close>

theorem ast_mode_irrelevant:
  "resolve_body_value gm (ex_doc (extract_document gm yaml True path content)) directive =
     resolve_body_value gm (ex_doc (extract_document gm yaml False path content)) directive"
proof -
  have mode: "sections_for_record gm (ex_doc (populate_body_sections gm True x)) =
      sections_for_record gm (ex_doc (populate_body_sections gm False x))" for x
    by (simp add: sections_for_record_def populate_body_sections_def Let_def
        extract_sections_from_text_def)
  have "sections_for_record gm (ex_doc (extract_document gm yaml True path content)) =
      sections_for_record gm (ex_doc (extract_document gm yaml False path content))"
    unfolding extract_document_def Let_def
    by (cases "frontmatter_bounds (strip_bom content)") (auto simp: mode split: prod.split)
  then show ?thesis
    unfolding resolve_body_value_def resolve_h1_def by (simp only:)
qed

text \<open>Registering an extractor adds exactly its name and its extensions: afterwards both give that
  extractor, every other lookup is as before, and a file with one of its extensions was not claimed
  before.\<close>

theorem register_lookup:
  assumes "register e g = Inr g'"
  shows "for_file g' path stem_extractor =
      (if stem_extractor = [] then
         (if path_ext path \<in> set (xt_extensions e) then Some e else for_file g path [])
       else if stem_extractor = xt_name e then Some e else for_file g path stem_extractor) \<and>
     (path_ext path \<in> set (xt_extensions e) \<longrightarrow> for_file g path [] = None)"
proof -
  from assms have "register_extensions e (xt_extensions e)
      (g\<lparr> rg_by_name := AList.update (xt_name e) e (rg_by_name g) \<rparr>) = Inr g'"
    by (simp add: register_def split: if_splits)
  from register_extensions_ok [OF this] show ?thesis
    by (auto simp: for_file_def update_conv')
qed

theorem register_lookup_witness:
  "\<exists>g. new_registry = Inr g \<and> for_file g ''docs/a.md'' [] = Some markdown_extractor"
proof -
  obtain g where g: "new_registry = Inr g"
    and r: "register markdown_extractor \<lparr> rg_by_name = [], rg_by_extension = [] \<rparr> = Inr g"
    by (cases new_registry) (auto simp: new_registry_def register_def has_key_def markdown_extractor_def)
  have "path_ext ''docs/a.md'' = ''.md''" by code_simp
  with register_lookup [OF r, of "''docs/a.md''" "[]"]
  have "for_file g ''docs/a.md'' [] = Some markdown_extractor"
    by (simp add: markdown_extractor_def)
  with g show ?thesis by blast
qed

end
