(* ===== verification/Schema_Model.thy ===== *)
theory Schema_Model
  imports Go_Values Go_Paths
begin

text \<open>
  The data of a \<open>.stem\<close> file: the types of \<open>internal/rules/rules.go\<close> field by field, their zero
  values, and the small queries on them (\<open>IsEmpty\<close>, \<open>ShouldResolve\<close>, \<open>EffectiveStyles\<close>, the
  severity order). A Go slice whose \<open>nil\<close>-ness the code reads is an option of a list, a pointer
  is an option, a Go map is an association list. Decoding from YAML is not modelled; the
  post-processing that \<open>ParseStem\<close> does on the decoded value is.
\<close>

section \<open>Types\<close>

record exclude_rule =
  ex_match :: string

record field_match =
  fm_patterns :: "string list"
  fm_configs :: "vmap option"

record field_decl =
  type_present :: bool
  type_null :: bool
  source_present :: bool
  source_null :: bool
  heading_present :: bool
  ordered_present :: bool
  null_field :: bool

record schema_field =
  sf_type :: string
  sf_required :: bool
  sf_values :: "string list"
  sf_default :: string
  sf_severity :: string
  sf_source :: string
  sf_extract :: string
  sf_prefix :: string
  sf_digits :: int
  sf_next :: string
  sf_next_by_pattern :: "(string \<times> string) list"
  sf_excludes :: "exclude_rule option"
  sf_match :: "field_match option"
  sf_required_match :: "field_match option"
  sf_heading :: string
  sf_ordered :: "int option"
  sf_decl :: field_decl

type_synonym schema = "(string \<times> schema_field) list"

record validation_rule =
  vr_field :: string
  vr_rule :: string
  vr_if :: vmap
  vr_then :: vmap
  vr_severity :: string
  vr_source :: string

record link_checks =
  lc_resolve :: "bool option"
  lc_anchors :: bool
  lc_encoding :: bool
  lc_cycles :: bool

record link_rule =
  lr_target :: string
  lr_field :: string
  lr_value_field :: string

record link_schema =
  ls_allowed :: "string list option"
  ls_styles :: "string list option"
  ls_checks :: "link_checks option"
  ls_rules :: "(string \<times> link_rule) list"
  ls_basename_fallback :: bool
  ls_unknown_check_keys :: "string list"
  ls_unknown_rule_keys :: "(string \<times> string) list"

record subdir_rules =
  sd_require_index :: string
  sd_min_children :: int
  sd_max_children :: int
  sd_severity :: string

record stem_file =
  st_path :: string
  st_version :: int
  st_root :: bool
  st_scope :: string
  st_schema :: schema
  st_validate :: "validation_rule list"
  st_derive :: vmap
  st_aggregate :: vmap
  st_links :: link_schema
  st_subdirs :: subdir_rules

text \<open>An entry of a chain: the path of the file and its parsed content.\<close>

record stem_entry =
  se_path :: string
  se_stem :: stem_file

section \<open>Zero values\<close>

definition zero_decl :: field_decl where
  "zero_decl = \<lparr> type_present = False, type_null = False, source_present = False,
     source_null = False, heading_present = False, ordered_present = False, null_field = False \<rparr>"

definition zero_field :: schema_field where
  "zero_field = \<lparr> sf_type = [], sf_required = False, sf_values = [], sf_default = [],
     sf_severity = [], sf_source = [], sf_extract = [], sf_prefix = [], sf_digits = 0,
     sf_next = [], sf_next_by_pattern = [], sf_excludes = None, sf_match = None,
     sf_required_match = None, sf_heading = [], sf_ordered = None, sf_decl = zero_decl \<rparr>"

definition zero_links :: link_schema where
  "zero_links = \<lparr> ls_allowed = None, ls_styles = None, ls_checks = None, ls_rules = [],
     ls_basename_fallback = False, ls_unknown_check_keys = [], ls_unknown_rule_keys = [] \<rparr>"

definition zero_subdirs :: subdir_rules where
  "zero_subdirs = \<lparr> sd_require_index = [], sd_min_children = 0, sd_max_children = 0,
     sd_severity = [] \<rparr>"

definition zero_stem :: stem_file where
  "zero_stem = \<lparr> st_path = [], st_version = 0, st_root = False, st_scope = [], st_schema = [],
     st_validate = [], st_derive = [], st_aggregate = [], st_links = zero_links,
     st_subdirs = zero_subdirs \<rparr>"

lemmas zero_defs = zero_decl_def zero_field_def zero_links_def zero_subdirs_def zero_stem_def

section \<open>Queries\<close>

definition opt_list :: "'a list option \<Rightarrow> 'a list" where
  "opt_list o' = (case o' of None \<Rightarrow> [] | Some xs \<Rightarrow> xs)"

lemma opt_list_simps [simp]: "opt_list None = []" "opt_list (Some xs) = xs"
  by (simp_all add: opt_list_def)

definition structural_empty :: "subdir_rules \<Rightarrow> bool" where
  "structural_empty sr =
     (sd_require_index sr = [] \<and> sd_min_children sr = 0 \<and> sd_max_children sr = 0)"

definition should_resolve :: "link_schema \<Rightarrow> bool" where
  "should_resolve ls =
     (case ls_checks ls of
        None \<Rightarrow> True
      | Some c \<Rightarrow> (case lc_resolve c of None \<Rightarrow> True | Some b \<Rightarrow> b))"

definition effective_styles :: "link_schema \<Rightarrow> string list" where
  "effective_styles ls =
     (if opt_list (ls_styles ls) \<noteq> [] then opt_list (ls_styles ls) else [''wikilink''])"

definition links_empty :: "link_schema \<Rightarrow> bool" where
  "links_empty ls =
     (opt_list (ls_allowed ls) = [] \<and> ls_rules ls = [] \<and> opt_list (ls_styles ls) = [] \<and>
      ls_checks ls = None \<and> \<not> ls_basename_fallback ls)"

definition severity_order :: "string \<Rightarrow> nat option" where
  "severity_order s =
     (if s = ''off'' then Some 0 else if s = ''warn'' then Some 1
      else if s = ''error'' then Some 2 else None)"

text \<open>\<open>normalizedSeverity\<close>: \<open>None\<close> when the severity is not one of the three.\<close>

definition normalized_severity :: "string \<Rightarrow> string option" where
  "normalized_severity s =
     (let s' = (if s = [] then ''error'' else s) in
      if severity_order s' \<noteq> None then Some s' else None)"

text \<open>How strict a severity is; an unset one counts as \<open>error\<close>.\<close>

definition strictness :: "string \<Rightarrow> nat" where
  "strictness s = (case normalized_severity s of None \<Rightarrow> 0
     | Some s' \<Rightarrow> (case severity_order s' of None \<Rightarrow> 0 | Some n \<Rightarrow> n))"

definition valid_severity :: "string \<Rightarrow> bool" where
  "valid_severity s = (s \<in> {[], ''off'', ''warn'', ''error''})"

lemma normalized_severity_Some: "valid_severity s \<longleftrightarrow> normalized_severity s \<noteq> None"
  by (auto simp: valid_severity_def normalized_severity_def severity_order_def Let_def)

lemma links_empty_zero [simp]: "links_empty zero_links"
  by (simp add: links_empty_def zero_links_def)

lemma should_resolve_empty: "links_empty ls \<Longrightarrow> should_resolve ls"
  by (simp add: links_empty_def should_resolve_def)

section \<open>\<open>ParseStem\<close> after decoding\<close>

definition supported_rules :: "string list" where
  "supported_rules = [''non_empty'', ''exists'', ''requires'', ''enum'']"

definition is_supported_validation_rule :: "string \<Rightarrow> bool" where
  "is_supported_validation_rule name = (name \<in> set supported_rules)"

datatype parse_error =
    InvalidYaml string
  | UnsupportedVersion int
  | NullField string
  | UnknownRule string string

definition em_dash :: string where
  "em_dash = [char_of (226 :: nat), char_of (128 :: nat), char_of (148 :: nat)]"

text \<open>The message of \<open>stemParseError\<close>.\<close>

definition parse_error_reason :: "parse_error \<Rightarrow> string" where
  "parse_error_reason e =
     (case e of
        InvalidYaml msg \<Rightarrow> msg
      | UnsupportedVersion v \<Rightarrow> ''stem version '' @ itoa v @
          '' is no longer supported '' @ em_dash @ '' upgrade with rootline v0.x migrate --to-v2 first''
      | NullField name \<Rightarrow> ''schema field '' @ go_quote name @
          '' is null '' @ em_dash @ '' a child .stem never removes an inherited field; '' @
          ''to stop governing these records with that .stem, narrow its scope.match or '' @
          ''move the records outside its scope; to remove the field everywhere, remove it '' @
          ''from the .stem that declares it''
      | UnknownRule field rule \<Rightarrow> ''validation field '' @ go_quote field @
          '' has unknown rule '' @ go_quote rule @ ''; supported rules are: '' @
          join_with '', '' supported_rules)"

text \<open>Its check and its field.\<close>

definition parse_error_check :: "parse_error \<Rightarrow> string" where
  "parse_error_check e = (case e of InvalidYaml _ \<Rightarrow> ''yaml-valid'' | _ \<Rightarrow> ''schema-valid'')"

definition parse_error_field :: "parse_error \<Rightarrow> string" where
  "parse_error_field e =
     (case e of NullField name \<Rightarrow> name | UnknownRule field _ \<Rightarrow> field | _ \<Rightarrow> [])"

definition default_severity :: "string \<Rightarrow> string" where
  "default_severity s = (if s = [] then ''error'' else s)"

lemma default_severity_nonempty [simp]: "default_severity s \<noteq> []"
  by (simp add: default_severity_def)

text \<open>The decoded file \<open>s\<close> becomes an accepted stem or the first error found.\<close>

definition parse_stem :: "string \<Rightarrow> stem_file \<Rightarrow> parse_error + stem_file" where
  "parse_stem path s =
     (if st_version s = 0 \<or> st_version s = 1 then Inl (UnsupportedVersion (st_version s))
      else
        case filter (\<lambda>n. case map_of (st_schema s) n of None \<Rightarrow> False
                            | Some f \<Rightarrow> null_field (sf_decl f)) (sorted_keys (st_schema s)) of
          name # _ \<Rightarrow> Inl (NullField name)
        | [] \<Rightarrow>
            (case filter (\<lambda>r. \<not> is_supported_validation_rule (vr_rule r)) (st_validate s) of
               r # _ \<Rightarrow> Inl (UnknownRule (vr_field r) (vr_rule r))
             | [] \<Rightarrow> Inr (s\<lparr> st_path := path,
                 st_schema := map_vals (\<lambda>_ f. f\<lparr> sf_source := path,
                   sf_severity := default_severity (sf_severity f) \<rparr>) (st_schema s),
                 st_validate := map (\<lambda>r. r\<lparr> vr_source := path,
                   vr_severity := default_severity (vr_severity r) \<rparr>) (st_validate s) \<rparr>)))"

text \<open>\<open>ParseStem\<close> on a file's content, given the YAML decoder.\<close>

definition parse_stem_content ::
  "(string \<Rightarrow> string + stem_file) \<Rightarrow> string \<Rightarrow> string \<Rightarrow> parse_error + stem_file" where
  "parse_stem_content yaml path content =
     (case yaml content of Inl msg \<Rightarrow> Inl (InvalidYaml msg) | Inr s \<Rightarrow> parse_stem path s)"

text \<open>What an accepted file satisfies.\<close>

definition stem_accepted :: "string \<Rightarrow> stem_file \<Rightarrow> bool" where
  "stem_accepted path s =
     (st_path s = path \<and> st_version s \<noteq> 0 \<and> st_version s \<noteq> 1 \<and>
      (\<forall>k f. map_of (st_schema s) k = Some f \<longrightarrow>
         \<not> null_field (sf_decl f) \<and> sf_source f = path \<and> sf_severity f \<noteq> []) \<and>
      (\<forall>r \<in> set (st_validate s).
         is_supported_validation_rule (vr_rule r) \<and> vr_source r = path \<and> vr_severity r \<noteq> []))"

lemma parse_stem_cases:
  "parse_stem path s = Inr t \<Longrightarrow>
     st_version s \<noteq> 0 \<and> st_version s \<noteq> 1 \<and>
     (\<forall>k f. map_of (st_schema s) k = Some f \<longrightarrow> \<not> null_field (sf_decl f)) \<and>
     (\<forall>r \<in> set (st_validate s). is_supported_validation_rule (vr_rule r))"
  by (auto simp: parse_stem_def filter_empty_conv dom_def split: if_splits list.splits)

lemma parse_stem_accepted:
  assumes "parse_stem path s = Inr t" shows "stem_accepted path t"
proof -
  note c = parse_stem_cases [OF assms]
  have "t = s\<lparr> st_path := path,
                 st_schema := map_vals (\<lambda>_ f. f\<lparr> sf_source := path,
                   sf_severity := default_severity (sf_severity f) \<rparr>) (st_schema s),
                 st_validate := map (\<lambda>r. r\<lparr> vr_source := path,
                   vr_severity := default_severity (vr_severity r) \<rparr>) (st_validate s) \<rparr>"
    using assms by (auto simp: parse_stem_def split: if_splits list.splits)
  with c show ?thesis by (auto simp: stem_accepted_def)
qed

end
