(* ===== verification/Schema_Merge.thy ===== *)
theory Schema_Merge
  imports Schema_Model
begin

text \<open>
  Merging a chain of \<open>.stem\<close> files top-down (\<open>internal/rules/merge.go\<close>), and the check that a
  child declaration only narrows what it inherits (\<open>internal/rules/field_compatibility.go\<close>).

  The merge of one field is a monoid-like \<^emph>\<open>layering\<close>: a later layer wins except where the
  tighten-only rules apply. The locale \<open>layering\<close> states that contract once for any keyed layers;
  it is interpreted on the schema merge and on the untyped \<open>derive\<close>/\<open>aggregate\<close> merge.
\<close>

section \<open>Merging one field\<close>

definition merge_field_source :: "schema_field \<Rightarrow> schema_field \<Rightarrow> schema_field" where
  "merge_field_source parent child =
     (if sf_extract child = [] \<and> \<not> source_present (sf_decl child)
      then child\<lparr> sf_extract := sf_extract parent \<rparr> else child)"

definition merge_field_severity :: "schema_field \<Rightarrow> schema_field \<Rightarrow> schema_field" where
  "merge_field_severity parent child =
     (case (normalized_severity (sf_severity parent), normalized_severity (sf_severity child)) of
        (Some ps, Some cs) \<Rightarrow>
          (if the (severity_order cs) < the (severity_order ps)
           then child\<lparr> sf_severity := ps \<rparr> else child\<lparr> sf_severity := cs \<rparr>)
      | _ \<Rightarrow> child)"

text \<open>What storing a declared field over an inherited one amounts to.\<close>

definition tag_source :: "string \<Rightarrow> schema_field \<Rightarrow> schema_field" where
  "tag_source path f = f\<lparr> sf_source := path \<rparr>"

definition merge_field :: "schema_field option \<Rightarrow> schema_field \<Rightarrow> schema_field" where
  "merge_field inherited f =
     (case inherited of
        None \<Rightarrow> f
      | Some p \<Rightarrow> merge_field_severity p (merge_field_source p f))"

definition merge_schema_fields :: "schema \<Rightarrow> schema \<Rightarrow> string \<Rightarrow> schema" where
  "merge_schema_fields parent child source =
     (if child = [] then parent
      else if parent = [] then map_vals (\<lambda>_ f. tag_source source f) child
      else foldl (\<lambda>out (k, f). AList.update k (merge_field (map_of out k) (tag_source source f)) out)
             parent child)"

section \<open>Merging untyped maps\<close>

text \<open>
  \<open>mergeAnyMapGeneric\<close>: the child's entries are stored one by one over a copy of the parent;
  two maps merge key by key, a \<open>null\<close> keeps the inherited value, anything else replaces it.
\<close>

function merge_any_generic :: "vmap \<Rightarrow> vmap \<Rightarrow> vmap" where
  "merge_any_generic out [] = out"
| "merge_any_generic out ((k, v) # rest) =
     (case v of
        VNull \<Rightarrow> merge_any_generic out rest
      | VMap cm \<Rightarrow>
          (case map_of out k of
             Some (VMap pm) \<Rightarrow>
               merge_any_generic (AList.update k (VMap (merge_any_generic pm cm)) out) rest
           | _ \<Rightarrow> merge_any_generic (AList.update k v out) rest)
      | _ \<Rightarrow> merge_any_generic (AList.update k v out) rest)"
  by pat_completeness auto
termination
  by (relation "measure (\<lambda>(out, child). size_list (size_prod (\<lambda>_. 0) size) child)") auto

definition merge_any_map :: "vmap \<Rightarrow> vmap \<Rightarrow> vmap" where
  "merge_any_map parent child =
     (if child = [] then parent else if parent = [] then child
      else merge_any_generic parent child)"

section \<open>Merging link constraints\<close>

definition merge_checks :: "link_checks option \<Rightarrow> link_checks option \<Rightarrow> link_checks option" where
  "merge_checks parent child =
     (case child of
        None \<Rightarrow> parent
      | Some c \<Rightarrow>
          Some (if lc_resolve c = None
                then c\<lparr> lc_resolve := (case parent of None \<Rightarrow> None | Some p \<Rightarrow> lc_resolve p) \<rparr>
                else c))"

definition merge_link_schema :: "link_schema \<Rightarrow> link_schema \<Rightarrow> link_schema" where
  "merge_link_schema parent child =
     (if links_empty child then parent
      else if links_empty parent then child
      else \<lparr> ls_allowed = (if ls_allowed child \<noteq> None then ls_allowed child else ls_allowed parent),
             ls_styles = (if ls_styles child \<noteq> None then ls_styles child else ls_styles parent),
             ls_checks = merge_checks (ls_checks parent) (ls_checks child),
             ls_rules = map_overlay (ls_rules parent) (ls_rules child),
             ls_basename_fallback = (ls_basename_fallback parent \<or> ls_basename_fallback child),
             ls_unknown_check_keys = [], ls_unknown_rule_keys = [] \<rparr>)"

section \<open>Merging a chain\<close>

definition merge_step :: "stem_file \<Rightarrow> stem_entry \<Rightarrow> stem_file" where
  "merge_step result e =
     (let s = se_stem e; path = se_path e in
      \<lparr> st_path = path,
        st_version = (if st_version s \<noteq> 0 then st_version s else st_version result),
        st_root = st_root result,
        st_scope = (if st_scope s \<noteq> [] then st_scope s else st_scope result),
        st_schema = merge_schema_fields (st_schema result) (st_schema s) path,
        st_validate = st_validate result @ st_validate s,
        st_derive = merge_any_map (st_derive result) (st_derive s),
        st_aggregate = merge_any_map (st_aggregate result) (st_aggregate s),
        st_links = merge_link_schema (st_links result) (st_links s),
        st_subdirs = (if structural_empty (st_subdirs s) then st_subdirs result else st_subdirs s) \<rparr>)"

definition merge_stem_files :: "stem_entry list \<Rightarrow> stem_file" where
  "merge_stem_files entries = foldl merge_step zero_stem entries"

section \<open>Narrowing\<close>

record compat_issue =
  ci_constraint :: string
  ci_operation :: string
  ci_value :: val
  ci_message :: string

definition child_field_source :: "schema_field \<Rightarrow> string option" where
  "child_field_source f =
     (if sf_extract f \<noteq> [] then Some (sf_extract f)
      else if source_present (sf_decl f) then Some [] else None)"

definition check_field_source :: "schema_field \<Rightarrow> schema_field \<Rightarrow> compat_issue option" where
  "check_field_source parent child =
     (case child_field_source child of
        None \<Rightarrow> None
      | Some cs \<Rightarrow>
          if cs = sf_extract parent then None
          else if cs = [] then
            Some \<lparr> ci_constraint = ''source'', ci_operation = ''removal'', ci_value = VStr cs,
              ci_message = ''source removes inherited source '' @ go_quote (sf_extract parent) \<rparr>
          else
            Some \<lparr> ci_constraint = ''source'', ci_operation = ''change'', ci_value = VStr cs,
              ci_message = ''source changes from '' @ go_quote (sf_extract parent) @ '' to '' @
                go_quote cs \<rparr>)"

definition check_field_type :: "schema_field \<Rightarrow> schema_field \<Rightarrow> compat_issue option" where
  "check_field_type parent child =
     (if sf_type parent = sf_type child \<or> (sf_type parent = ''string'' \<and> sf_type child = ''enum'')
      then None
      else Some \<lparr> ci_constraint = ''type'', ci_operation = ''widening'',
        ci_value = VStr (sf_type child),
        ci_message = ''type changes from '' @ go_quote (sf_type parent) @ '' to '' @
          go_quote (sf_type child) \<rparr>)"

definition added_values :: "string list \<Rightarrow> string list \<Rightarrow> string list" where
  "added_values child parent = filter (\<lambda>v. v \<notin> set parent) child"

definition check_field_values :: "schema_field \<Rightarrow> schema_field \<Rightarrow> compat_issue option" where
  "check_field_values parent child =
     (if sf_type parent \<noteq> ''enum'' \<or> sf_type child \<noteq> ''enum'' \<or> sf_values parent = [] \<or>
         sf_values child = [] then None
      else let added = added_values (sf_values child) (sf_values parent) in
        if added = [] then None
        else Some \<lparr> ci_constraint = ''values'', ci_operation = ''extension'',
          ci_value = VList (map VStr added),
          ci_message = ''enum extends inherited values with '' @ fmt_strs added \<rparr>)"

definition check_field_required :: "schema_field \<Rightarrow> schema_field \<Rightarrow> compat_issue option" where
  "check_field_required parent child =
     (if \<not> sf_required parent \<or> sf_required child \<or> sf_required_match child \<noteq> None then None
      else Some \<lparr> ci_constraint = ''required'', ci_operation = ''loosening'',
        ci_value = VBool False, ci_message = ''required loosens from true to false'' \<rparr>)"

definition check_field_severity :: "schema_field \<Rightarrow> schema_field \<Rightarrow> compat_issue option" where
  "check_field_severity parent child =
     (case (normalized_severity (sf_severity parent), normalized_severity (sf_severity child)) of
        (Some ps, Some cs) \<Rightarrow>
          (if the (severity_order cs) \<ge> the (severity_order ps) then None
           else Some \<lparr> ci_constraint = ''severity'', ci_operation = ''loosening'',
             ci_value = VStr cs,
             ci_message = ''severity loosens from '' @ go_quote ps @ '' to '' @ go_quote cs \<rparr>)
      | _ \<Rightarrow> None)"

definition opt_to_list :: "'a option \<Rightarrow> 'a list" where
  "opt_to_list o' = (case o' of None \<Rightarrow> [] | Some x \<Rightarrow> [x])"

definition check_field_compatibility :: "schema_field \<Rightarrow> schema_field \<Rightarrow> compat_issue list" where
  "check_field_compatibility parent child =
     opt_to_list (check_field_source parent child) @ opt_to_list (check_field_type parent child) @
     opt_to_list (check_field_values parent child) @
     opt_to_list (check_field_required parent child) @
     opt_to_list (check_field_severity parent child)"

section \<open>The layering contract\<close>

text \<open>
  A store that is built by merging layers one after the other: what a key holds afterwards depends
  only on what it held before and on the layer's own declaration of that key.
\<close>

definition layer_decls :: "('l \<Rightarrow> 'k \<Rightarrow> 'd option) \<Rightarrow> 'k \<Rightarrow> 'l list \<Rightarrow> 'd list" where
  "layer_decls decl k ls = List.map_filter (\<lambda>l. decl l k) ls"

locale layering =
  fixes lookup :: "'s \<Rightarrow> 'k \<Rightarrow> 'v option"
    and put :: "'s \<Rightarrow> 'l \<Rightarrow> 's"
    and decl :: "'l \<Rightarrow> 'k \<Rightarrow> 'd option"
    and combine :: "'v option \<Rightarrow> 'd \<Rightarrow> 'v option"
    and wf :: "'l \<Rightarrow> bool"
  assumes put_lookup: "wf l \<Longrightarrow> lookup (put s l) k =
      (case decl l k of None \<Rightarrow> lookup s k | Some d \<Rightarrow> combine (lookup s k) d)"
    and combine_keeps: "combine (Some v) d \<noteq> None"
begin

lemma layers_lookup:
  "\<forall>l \<in> set ls. wf l \<Longrightarrow> lookup (foldl put s ls) k = foldl combine (lookup s k) (layer_decls decl k ls)"
  by (induction ls arbitrary: s)
    (auto simp: layer_decls_def map_filter_simps put_lookup split: option.split)

lemma foldl_combine_keeps: "v \<noteq> None \<Longrightarrow> foldl combine v ds \<noteq> None"
  by (induction ds arbitrary: v) (use combine_keeps in auto)

lemma layers_keep:
  "\<forall>l \<in> set ls. wf l \<Longrightarrow> lookup s k \<noteq> None \<Longrightarrow> lookup (foldl put s ls) k \<noteq> None"
  by (simp add: layers_lookup foldl_combine_keeps)

lemma layers_undeclared:
  "\<forall>l \<in> set ls. wf l \<Longrightarrow> \<forall>l \<in> set ls. decl l k = None \<Longrightarrow>
     lookup (foldl put s ls) k = lookup s k"
  by (induction ls arbitrary: s) (auto simp: put_lookup)

end

text \<open>A layering that only ever tightens: no declaration lowers the rank of what it lands on.\<close>

locale tightening = layering lookup put decl combine wf
  for lookup :: "'s \<Rightarrow> 'k \<Rightarrow> 'v option"
    and put :: "'s \<Rightarrow> 'l \<Rightarrow> 's"
    and decl :: "'l \<Rightarrow> 'k \<Rightarrow> 'd option"
    and combine :: "'v option \<Rightarrow> 'd \<Rightarrow> 'v option"
    and wf :: "'l \<Rightarrow> bool" +
  fixes rank :: "'v \<Rightarrow> nat"
    and drank :: "'d \<Rightarrow> nat"
    and okv :: "'v \<Rightarrow> bool"
    and okd :: "'d \<Rightarrow> bool"
  assumes combine_new: "okd d \<Longrightarrow> \<exists>w. combine None d = Some w \<and> okv w \<and> drank d \<le> rank w"
    and combine_old: "okd d \<Longrightarrow> okv v \<Longrightarrow>
      \<exists>w. combine (Some v) d = Some w \<and> okv w \<and> drank d \<le> rank w \<and> rank v \<le> rank w"
begin

lemma foldl_combine_rank:
  "\<forall>d \<in> set ds. okd d \<Longrightarrow> okv v \<Longrightarrow>
     \<exists>w. foldl combine (Some v) ds = Some w \<and> okv w \<and> rank v \<le> rank w \<and>
       (\<forall>d \<in> set ds. drank d \<le> rank w)"
proof (induction ds arbitrary: v)
  case (Cons d ds)
  then obtain u where u: "combine (Some v) d = Some u" "okv u" "drank d \<le> rank u" "rank v \<le> rank u"
    using combine_old [of d v] by auto
  with Cons.IH [of u] Cons.prems show ?case by (auto intro: order_trans)
qed auto

lemma layers_tighten:
  assumes "\<forall>l \<in> set ls. wf l" "\<forall>l \<in> set ls. \<forall>d. decl l k = Some d \<longrightarrow> okd d"
    "l \<in> set ls" "decl l k = Some d" "lookup s k = None"
  shows "\<exists>w. lookup (foldl put s ls) k = Some w \<and> drank d \<le> rank w"
proof -
  have ds: "d \<in> set (layer_decls decl k ls)" "\<forall>d \<in> set (layer_decls decl k ls). okd d"
    using assms(2-4) by (force simp: layer_decls_def map_filter_def)+
  then obtain e es where es: "layer_decls decl k ls = e # es" by (cases "layer_decls decl k ls") auto
  with ds obtain w where w: "combine None e = Some w" "okv w" "drank e \<le> rank w"
    using combine_new [of e] by auto
  with ds es obtain z where "foldl combine (Some w) es = Some z" "rank w \<le> rank z"
    "\<forall>d \<in> set es. drank d \<le> rank z"
    using foldl_combine_rank [of es w] by auto
  with ds es w show ?thesis
    using assms(1,5) by (auto simp: layers_lookup intro: order_trans)
qed

end

section \<open>The merges are layerings\<close>

lemma foldl_update_lookup:
  "distinct (map fst xs) \<Longrightarrow>
     map_of (foldl (\<lambda>out (k, f). AList.update k (g (map_of out k) f) out) out xs) k =
       (case map_of xs k of None \<Rightarrow> map_of out k | Some f \<Rightarrow> Some (g (map_of out k) f))"
proof (induction xs arbitrary: out)
  case (Cons x xs)
  obtain k' f where x: "x = (k', f)" by (cases x)
  with Cons.prems have "map_of xs k' = None" by (auto simp: map_of_eq_None_iff)
  with Cons x show ?case
    by (cases "k = k'") (auto simp: update_conv' split: option.split)
qed simp

lemma map_of_merge_schema_fields:
  assumes "distinct (map fst child)"
  shows "map_of (merge_schema_fields parent child src) k =
     (case map_of child k of
        None \<Rightarrow> map_of parent k
      | Some f \<Rightarrow> Some (merge_field (map_of parent k) (tag_source src f)))"
proof (cases "child = [] \<or> parent = []")
  case True
  then show ?thesis
    by (auto simp: merge_schema_fields_def merge_field_def split: option.split)
next
  case False
  then show ?thesis
    using foldl_update_lookup [OF assms, of "\<lambda>o' f. merge_field o' (tag_source src f)" parent k]
    by (simp add: merge_schema_fields_def)
qed

text \<open>A Go map has one entry per key; a decoded file has such maps.\<close>

definition wf_stem :: "stem_file \<Rightarrow> bool" where
  "wf_stem s = (distinct (map fst (st_schema s)) \<and> distinct (map fst (st_derive s)) \<and>
     distinct (map fst (st_aggregate s)))"

definition field_decl_of :: "stem_entry \<Rightarrow> string \<Rightarrow> schema_field option" where
  "field_decl_of e k = map_option (tag_source (se_path e)) (map_of (st_schema (se_stem e)) k)"

lemma merge_step_simps [simp]:
  "st_schema (merge_step r e) = merge_schema_fields (st_schema r) (st_schema (se_stem e)) (se_path e)"
  "st_validate (merge_step r e) = st_validate r @ st_validate (se_stem e)"
  "st_derive (merge_step r e) = merge_any_map (st_derive r) (st_derive (se_stem e))"
  "st_aggregate (merge_step r e) = merge_any_map (st_aggregate r) (st_aggregate (se_stem e))"
  "st_links (merge_step r e) = merge_link_schema (st_links r) (st_links (se_stem e))"
  "st_root (merge_step r e) = st_root r"
  "st_path (merge_step r e) = se_path e"
  by (simp_all add: merge_step_def Let_def)

lemma normalized_valid: "normalized_severity s = Some t \<Longrightarrow> normalized_severity t = Some t"
  by (auto simp: normalized_severity_def severity_order_def Let_def split: if_splits)

lemma strictness_normalized: "normalized_severity s = Some t \<Longrightarrow> strictness s = the (severity_order t)"
  by (auto simp: strictness_def normalized_severity_def Let_def split: if_splits option.splits)

lemma merge_field_severity_max:
  assumes "valid_severity (sf_severity p)" "valid_severity (sf_severity c)"
  shows "valid_severity (sf_severity (merge_field_severity p c)) \<and>
     strictness (sf_severity (merge_field_severity p c)) =
       max (strictness (sf_severity p)) (strictness (sf_severity c))"
proof -
  obtain ps cs where n: "normalized_severity (sf_severity p) = Some ps"
    "normalized_severity (sf_severity c) = Some cs"
    using assms by (auto simp: normalized_severity_Some)
  note ok = normalized_valid [OF n(1)] normalized_valid [OF n(2)]
  have "strictness ps = the (severity_order ps)" "strictness cs = the (severity_order cs)"
    using strictness_normalized ok by blast+
  with n ok show ?thesis
    by (simp add: merge_field_severity_def normalized_severity_Some strictness_normalized)
qed

lemma merge_field_source_severity [simp]:
  "sf_severity (merge_field_source p c) = sf_severity c"
  by (simp add: merge_field_source_def)

interpretation schema_layers: tightening
  "\<lambda>st k. map_of (st_schema st) k" merge_step field_decl_of
  "\<lambda>inh f. Some (merge_field inh f)" "\<lambda>e. wf_stem (se_stem e)"
  "\<lambda>f. strictness (sf_severity f)" "\<lambda>f. strictness (sf_severity f)"
  "\<lambda>f. valid_severity (sf_severity f)" "\<lambda>f. valid_severity (sf_severity f)"
proof unfold_locales
  fix l :: stem_entry and s k
  assume "wf_stem (se_stem l)"
  then show "map_of (st_schema (merge_step s l)) k =
      (case field_decl_of l k of None \<Rightarrow> map_of (st_schema s) k
       | Some d \<Rightarrow> Some (merge_field (map_of (st_schema s) k) d))"
    by (auto simp: wf_stem_def field_decl_of_def map_of_merge_schema_fields split: option.split)
qed (use merge_field_severity_max in \<open>auto simp: merge_field_def\<close>)

text \<open>The untyped merge: a \<open>null\<close> declares nothing.\<close>

definition merge_val :: "val option \<Rightarrow> val \<Rightarrow> val option" where
  "merge_val inh v =
     (case v of
        VNull \<Rightarrow> inh
      | VMap cm \<Rightarrow>
          (case inh of Some (VMap pm) \<Rightarrow> Some (VMap (merge_any_generic pm cm)) | _ \<Rightarrow> Some v)
      | _ \<Rightarrow> Some v)"

definition non_null :: "val option \<Rightarrow> val option" where
  "non_null o' = (case o' of Some VNull \<Rightarrow> None | _ \<Rightarrow> o')"

lemma merge_any_generic_Cons:
  "merge_any_generic out ((k, v) # rest) =
     merge_any_generic
       (case merge_val (map_of out k) v of
          None \<Rightarrow> out
        | Some w \<Rightarrow> if v = VNull then out else AList.update k w out) rest"
  by (simp add: merge_val_def split: val.split option.split)

declare merge_any_generic.simps(2) [simp del]

lemma map_of_merge_any_generic:
  "distinct (map fst c) \<Longrightarrow> map_of (merge_any_generic p c) k =
     (case map_of c k of None \<Rightarrow> map_of p k | Some v \<Rightarrow> merge_val (map_of p k) v)"
proof (induction c arbitrary: p)
  case (Cons x c)
  obtain k' v where x: "x = (k', v)" by (cases x)
  with Cons.prems have "map_of c k' = None" by (auto simp: map_of_eq_None_iff)
  moreover have null: "merge_val inh VNull = inh" for inh by (simp add: merge_val_def)
  ultimately show ?case
  proof (cases "v = VNull")
    case False
    then have "merge_val (map_of p k') v \<noteq> None"
      by (simp add: merge_val_def split: val.split option.split)
    then obtain w where "merge_val (map_of p k') v = Some w" by auto
    with False Cons x \<open>map_of c k' = None\<close> show ?thesis
      by (cases "k = k'") (auto simp: merge_any_generic_Cons update_conv' split: option.split)
  qed (use Cons x null in \<open>auto simp: merge_any_generic_Cons split: option.split\<close>)
qed simp

lemma non_null_merge_val: "non_null (merge_val inh v) = merge_val (non_null inh) v"
  by (auto simp: merge_val_def non_null_def split: val.split option.split)

lemma non_null_merge_any_map:
  assumes "distinct (map fst c)"
  shows "non_null (map_of (merge_any_map p c) k) =
     (case map_of c k of None \<Rightarrow> non_null (map_of p k)
      | Some v \<Rightarrow> merge_val (non_null (map_of p k)) v)"
  using assms
  by (auto simp: merge_any_map_def map_of_merge_any_generic non_null_merge_val split: option.split)
    (auto simp: non_null_def merge_val_def split: val.split option.split)

lemma merge_val_keeps: "merge_val (Some w) v \<noteq> None"
  by (auto simp: merge_val_def split: val.split)

interpretation derive_layers: layering
  "\<lambda>st k. non_null (map_of (st_derive st) k)" merge_step
  "\<lambda>e k. map_of (st_derive (se_stem e)) k" merge_val "\<lambda>e. wf_stem (se_stem e)"
  by unfold_locales (auto simp: wf_stem_def non_null_merge_any_map merge_val_keeps)

interpretation aggregate_layers: layering
  "\<lambda>st k. non_null (map_of (st_aggregate st) k)" merge_step
  "\<lambda>e k. map_of (st_aggregate (se_stem e)) k" merge_val "\<lambda>e. wf_stem (se_stem e)"
  by unfold_locales (auto simp: wf_stem_def non_null_merge_any_map merge_val_keeps)

text \<open>The explicit \<open>links.checks.resolve\<close> setting of a link schema.\<close>

definition resolve_setting :: "link_schema \<Rightarrow> bool option" where
  "resolve_setting ls = Option.bind (ls_checks ls) lc_resolve"

lemma resolve_setting_merge:
  "resolve_setting (merge_link_schema p c) =
     (case resolve_setting c of None \<Rightarrow> resolve_setting p | Some b \<Rightarrow> Some b)"
  by (auto simp: merge_link_schema_def links_empty_def merge_checks_def resolve_setting_def
      split: option.split bind_split)

lemma should_resolve_setting: "should_resolve ls = (resolve_setting ls \<noteq> Some False)"
  by (auto simp: should_resolve_def resolve_setting_def split: option.split)

interpretation resolve_layers: layering
  "\<lambda>st (_ :: unit). resolve_setting (st_links st)" merge_step
  "\<lambda>e _. resolve_setting (st_links (se_stem e))" "\<lambda>_. Some" "\<lambda>_. True"
  by unfold_locales (auto simp: resolve_setting_merge)

section \<open>What a narrowing child keeps\<close>

lemma compatible_severity:
  "check_field_severity p c = None \<Longrightarrow> valid_severity (sf_severity p) \<Longrightarrow>
     valid_severity (sf_severity c) \<Longrightarrow> strictness (sf_severity p) \<le> strictness (sf_severity c)"
  by (auto simp: check_field_severity_def normalized_severity_Some strictness_normalized
      split: option.splits if_splits)

lemma opt_to_list_eq_Nil [simp]: "opt_to_list o' = [] \<longleftrightarrow> o' = None"
  by (auto simp: opt_to_list_def split: option.split)

lemma compatible_iff:
  "check_field_compatibility p c = [] \<longleftrightarrow>
     check_field_source p c = None \<and> check_field_type p c = None \<and>
     check_field_values p c = None \<and> check_field_required p c = None \<and>
     check_field_severity p c = None"
  by (simp add: check_field_compatibility_def)

lemma added_values_Nil [simp]: "added_values c p = [] \<longleftrightarrow> set c \<subseteq> set p"
  by (auto simp: added_values_def filter_empty_conv)

lemma child_field_source_merge:
  "sf_extract (merge_field_source p c) =
     (case child_field_source c of None \<Rightarrow> sf_extract p | Some src \<Rightarrow> src)"
  by (simp add: merge_field_source_def child_field_source_def)

section \<open>Properties\<close>

definition sample_field :: "string \<Rightarrow> string \<Rightarrow> schema_field" where
  "sample_field ty sev = zero_field\<lparr> sf_type := ty, sf_severity := sev \<rparr>"

definition sample_stem :: "string \<Rightarrow> string \<Rightarrow> stem_file" where
  "sample_stem ty sev = zero_stem\<lparr> st_version := 2,
     st_schema := [(''estado'', sample_field ty sev)],
     st_derive := [(''total'', VInt 1)] \<rparr>"

definition sample_chain :: "stem_entry list" where
  "sample_chain =
     [\<lparr> se_path = ''/r/.stem'', se_stem = sample_stem ''string'' ''error'' \<rparr>,
      \<lparr> se_path = ''/r/a/.stem'', se_stem = (sample_stem ''enum'' ''warn'')
          \<lparr> st_derive := [(''total'', VNull)] \<rparr> \<rparr>]"

lemmas sample_defs = sample_chain_def sample_stem_def sample_field_def zero_defs

definition declares_severity_ok :: "stem_entry list \<Rightarrow> string \<Rightarrow> bool" where
  "declares_severity_ok es k =
     (\<forall>e \<in> set es. case map_of (st_schema (se_stem e)) k of
        None \<Rightarrow> True | Some f \<Rightarrow> valid_severity (sf_severity f))"

definition wf_chain :: "stem_entry list \<Rightarrow> bool" where
  "wf_chain es = (\<forall>e \<in> set es. wf_stem (se_stem e))"

text \<open>C2: No layer of a chain can loosen a severity: when every \<open>.stem\<close> of the chain that declares
  the field gives it one of the severities \<open>off\<close>, \<open>warn\<close> and \<open>error\<close> or none (none counts as \<open>error\<close>), and each
  file lists a key once, as a decoded file does, the merged schema still has the field, at least as
  strictly as any one of these declarations. A severity that is none of these is excluded, because the merge takes it over
  as it stands.\<close>

theorem merge_never_loosens:
  assumes "wf_chain es" "declares_severity_ok es k"
    "e \<in> set es" "map_of (st_schema (se_stem e)) k = Some f"
  shows "\<exists>g. map_of (st_schema (merge_stem_files es)) k = Some g \<and>
     strictness (sf_severity f) \<le> strictness (sf_severity g)"
proof -
  have "\<exists>w. map_of (st_schema (foldl merge_step zero_stem es)) k = Some w \<and>
      strictness (sf_severity (tag_source (se_path e) f)) \<le> strictness (sf_severity w)"
    using assms
    by (intro schema_layers.layers_tighten [of es k e "tag_source (se_path e) f"])
      (auto simp: wf_chain_def declares_severity_ok_def field_decl_of_def tag_source_def
        zero_stem_def split: option.splits)
  then show ?thesis by (auto simp: merge_stem_files_def tag_source_def)
qed

theorem merge_never_loosens_witness:
  "\<exists>g. map_of (st_schema (merge_stem_files sample_chain)) ''estado'' = Some g \<and>
     strictness ''error'' \<le> strictness (sf_severity g)"
  using merge_never_loosens [of sample_chain "''estado''" "hd sample_chain"
      "sample_field ''string'' ''error''"]
  by (simp add: wf_chain_def wf_stem_def declares_severity_ok_def valid_severity_def sample_defs)

text \<open>The reader of a \<open>.stem\<close> file accepts any word as a severity. One that is none of the known ones
  replaces an inherited \<open>error\<close>, and the compatibility check is silent about it.\<close>

lemma unknown_severity_loosens:
  "sf_severity (merge_field (Some (sample_field ''string'' ''error''))
     (sample_field ''string'' ''eror'')) = ''eror''"
  "check_field_compatibility (sample_field ''string'' ''error'') (sample_field ''string'' ''eror'') = []"
  by code_simp+

text \<open>C32: The merged declaration of a field is the fold of the chain's own declarations of that field,
  root to leaf, each tagged with the file it came from; the other fields of the files and their
  map order play no part.\<close>

theorem merge_refines_field_fold:
  assumes "wf_chain es"
  shows "map_of (st_schema (merge_stem_files es)) k =
     foldl (\<lambda>inh f. Some (merge_field inh f)) None
       (List.map_filter (\<lambda>e. field_decl_of e k) es)"
  using assms schema_layers.layers_lookup [of es zero_stem k]
  by (simp add: wf_chain_def merge_stem_files_def layer_decls_def zero_stem_def)

theorem merge_refines_field_fold_witness:
  "map_of (st_schema (merge_stem_files sample_chain)) ''estado'' =
     foldl (\<lambda>inh f. Some (merge_field inh f)) None
       (List.map_filter (\<lambda>e. field_decl_of e ''estado'') sample_chain)"
  by (rule merge_refines_field_fold) (simp add: wf_chain_def wf_stem_def sample_defs)

text \<open>A child never removes an inherited \<open>derive\<close> or \<open>aggregate\<close> key: once a chain gives a key a
  value, every longer chain still gives it one, whatever the added files write, \<open>null\<close> included.\<close>

theorem derive_key_never_removed:
  assumes "wf_chain es'"
  shows "(non_null (map_of (st_derive (merge_stem_files es)) k) \<noteq> None \<longrightarrow>
        non_null (map_of (st_derive (merge_stem_files (es @ es'))) k) \<noteq> None) \<and>
      (non_null (map_of (st_aggregate (merge_stem_files es)) k) \<noteq> None \<longrightarrow>
        non_null (map_of (st_aggregate (merge_stem_files (es @ es'))) k) \<noteq> None)"
  using assms derive_layers.layers_keep [of es' "merge_stem_files es" k]
    aggregate_layers.layers_keep [of es' "merge_stem_files es" k]
  by (simp add: wf_chain_def merge_stem_files_def)

theorem derive_key_never_removed_witness:
  "non_null (map_of (st_derive (merge_stem_files sample_chain)) ''total'') \<noteq> None"
proof -
  have "wf_chain (tl sample_chain)"
    "non_null (map_of (st_derive (merge_stem_files [hd sample_chain])) ''total'') \<noteq> None"
    by code_simp+
  with derive_key_never_removed [of "tl sample_chain" "[hd sample_chain]" "''total''"]
  show ?thesis by (simp add: sample_chain_def)
qed

text \<open>Whether broken links are checked is the last explicit \<open>links.checks.resolve\<close> of the chain,
  and on when there is none: an opt-out survives any descendant that does not mention
  \<open>resolve\<close>.\<close>

theorem resolve_is_last_setting:
  "should_resolve (st_links (merge_stem_files es)) =
     (case rev (List.map_filter (\<lambda>e. resolve_setting (st_links (se_stem e))) es) of
        [] \<Rightarrow> True | b # _ \<Rightarrow> b)"
proof -
  have "foldl (\<lambda>_. Some) o' ds = (case rev ds of [] \<Rightarrow> o' | b # _ \<Rightarrow> Some b)"
    for o' :: "bool option" and ds
    by (induction ds rule: rev_induct) auto
  then have "resolve_setting (st_links (merge_stem_files es)) =
      (case rev (List.map_filter (\<lambda>e. resolve_setting (st_links (se_stem e))) es) of
         [] \<Rightarrow> None | b # _ \<Rightarrow> Some b)"
    using resolve_layers.layers_lookup [of es zero_stem "()"]
    by (simp add: merge_stem_files_def layer_decls_def)
      (simp add: zero_stem_def zero_links_def resolve_setting_def split: list.split)
  then show ?thesis
    by (auto simp: should_resolve_setting split: list.split)
qed

end
