(* ===== verification/Discovery.thy ===== *)
theory Discovery
  imports Schema_Merge
begin

text \<open>
  Finding the \<open>.stem\<close> files that govern a path: \<open>internal/rules/discovery.go\<close>, the request-scoped
  cache of \<open>stem_cache.go\<close> and the prospective state of \<open>stem_state.go\<close>.

  The file system is a parameter: a record of the answers of \<open>os.Stat\<close>, \<open>os.Lstat\<close>, \<open>os.ReadFile\<close>
  and the working directory. The YAML decoder is a parameter of \<open>ParseStem\<close>. Three loops of the
  code walk from a directory to the root of the file system; the locale \<open>stem_walk\<close> states what
  they have in common and is interpreted on each of them.
\<close>

section \<open>The file system as a parameter\<close>

datatype fs_err = NotExist | IoErr string

datatype file_kind = KRegular | KDir | KSymlink | KOther

record filesys =
  fs_cwd :: string
  fs_stat :: "string \<Rightarrow> fs_err + file_kind"
  fs_lstat :: "string \<Rightarrow> fs_err + file_kind"
  fs_read :: "string \<Rightarrow> fs_err + string"
  fs_list :: "string \<Rightarrow> fs_err + (string \<times> file_kind) list"

definition fs_err_text :: "fs_err \<Rightarrow> string" where
  "fs_err_text e = (case e of NotExist \<Rightarrow> ''no such file or directory'' | IoErr m \<Rightarrow> m)"

abbreviation (input) stem_name :: string where "stem_name \<equiv> ''.stem''"

definition stem_path_of :: "string \<Rightarrow> string" where
  "stem_path_of dir = path_join dir stem_name"

section \<open>Where a walk starts\<close>

definition path_error :: "string \<Rightarrow> string \<Rightarrow> fs_err \<Rightarrow> go_error" where
  "path_error op path e = Wrapped (op @ '' schema discovery path '' @ path) (Err (fs_err_text e))"

text \<open>
  The loop of \<open>discoveryPathError\<close>: \<open>None\<close> leaves the loop, \<open>Some r\<close> returns \<open>r\<close> from the function.
\<close>

function missing_loop :: "filesys \<Rightarrow> string \<Rightarrow> string \<Rightarrow> go_error option option" where
  "missing_loop fs path entry =
     (case fs_lstat fs entry of
        Inr k \<Rightarrow>
          if entry \<noteq> path then
            (case (if k = KSymlink then fs_stat fs entry else Inr k) of
               Inl e \<Rightarrow> Some (Some (path_error ''checking'' path e))
             | Inr k' \<Rightarrow> if k' = KDir then Some None else None)
          else None
      | Inl e \<Rightarrow>
          if e \<noteq> NotExist then Some (Some (path_error ''checking'' path e))
          else if path_dir entry = entry then Some None
          else missing_loop fs path (path_dir entry))"
  by pat_completeness auto
termination
  by (relation "measure (\<lambda>(fs, p, e). up_measure e)") (auto intro: path_dir_measure)

definition discovery_path_error :: "filesys \<Rightarrow> string \<Rightarrow> string \<Rightarrow> fs_err \<Rightarrow> go_error option" where
  "discovery_path_error fs op path e =
     (case (if e = NotExist then missing_loop fs path path else None) of
        Some r \<Rightarrow> r
      | None \<Rightarrow> Some (path_error op path e))"

definition discovery_start_dir :: "filesys \<Rightarrow> string \<Rightarrow> go_error + string" where
  "discovery_start_dir fs target =
     (let abs_target = path_abs (fs_cwd fs) target in
      case fs_stat fs abs_target of
        Inl e \<Rightarrow>
          (case discovery_path_error fs ''statting'' abs_target e of
             Some err \<Rightarrow> Inl err
           | None \<Rightarrow> Inr abs_target)
      | Inr k \<Rightarrow> Inr (if k = KDir then abs_target else path_dir abs_target))"

definition parse_error_go :: "string \<Rightarrow> parse_error \<Rightarrow> go_error" where
  "parse_error_go path e =
     StemError path (parse_error_check e) (parse_error_field e) (parse_error_reason e)"

definition load_optional_stem ::
  "(string \<Rightarrow> string + stem_file) \<Rightarrow> filesys \<Rightarrow> string \<Rightarrow> go_error + stem_file option" where
  "load_optional_stem yaml fs path =
     (case fs_read fs path of
        Inl e \<Rightarrow>
          (case (if e = NotExist then fs_lstat fs path else Inr KOther) of
             Inl NotExist \<Rightarrow> Inr None
           | Inl e' \<Rightarrow> Inl (path_error ''checking'' path e')
           | Inr _ \<Rightarrow> Inl (path_error ''reading'' path e))
      | Inr content \<Rightarrow>
          (case parse_stem_content yaml path content of
             Inl e \<Rightarrow> Inl (parse_error_go path e)
           | Inr s \<Rightarrow> Inr (Some s)))"

section \<open>\<open>WalkUp\<close>\<close>

definition entry_of :: "string \<Rightarrow> stem_file \<Rightarrow> stem_entry" where
  "entry_of dir s = \<lparr> se_path = stem_path_of dir, se_stem = s \<rparr>"

function walk_loop ::
  "(string \<Rightarrow> go_error + stem_file option) \<Rightarrow> string \<Rightarrow> stem_entry list \<Rightarrow> go_error + stem_entry list" where
  "walk_loop load dir entries =
     (case load (stem_path_of dir) of
        Inl e \<Rightarrow> Inl e
      | Inr None \<Rightarrow>
          if path_dir dir = dir then Inr entries else walk_loop load (path_dir dir) entries
      | Inr (Some s) \<Rightarrow>
          let es = entries @ [entry_of dir s] in
          if st_root s then Inr es
          else if path_dir dir = dir then Inr es
          else walk_loop load (path_dir dir) es)"
  by pat_completeness auto
termination
  by (relation "measure (\<lambda>(l, d, e). up_measure d)") (auto intro: path_dir_measure)

declare walk_loop.simps [simp del]

definition finish_walk :: "stem_entry list \<Rightarrow> go_error + stem_entry list" where
  "finish_walk entries = (if entries = [] then Inl NoSchemaFound else Inr (rev entries))"

definition walk_up ::
  "(string \<Rightarrow> string + stem_file) \<Rightarrow> filesys \<Rightarrow> string \<Rightarrow> go_error + stem_entry list" where
  "walk_up yaml fs target =
     (case discovery_start_dir fs target of
        Inl e \<Rightarrow> Inl e
      | Inr dir \<Rightarrow>
          (case walk_loop (load_optional_stem yaml fs) dir [] of
             Inl e \<Rightarrow> Inl e
           | Inr entries \<Rightarrow> finish_walk entries))"

section \<open>The cache\<close>

record stem_cache =
  sc_parsed :: "(string \<times> stem_file option) list"
  sc_hits :: nat

definition new_cache :: stem_cache where
  "new_cache = \<lparr> sc_parsed = [], sc_hits = 0 \<rparr>"

definition cache_load ::
  "(string \<Rightarrow> go_error + stem_file option) \<Rightarrow> stem_cache \<Rightarrow> string \<Rightarrow>
     (go_error + stem_file option) \<times> stem_cache" where
  "cache_load load c dir =
     (case map_of (sc_parsed c) dir of
        Some cached \<Rightarrow> (Inr cached, c\<lparr> sc_hits := sc_hits c + 1 \<rparr>)
      | None \<Rightarrow>
          (case load (stem_path_of dir) of
             Inl e \<Rightarrow> (Inl e, c)
           | Inr stem \<Rightarrow> (Inr stem, c\<lparr> sc_parsed := AList.update dir stem (sc_parsed c) \<rparr>)))"

function cache_walk_loop ::
  "(string \<Rightarrow> go_error + stem_file option) \<Rightarrow> stem_cache \<Rightarrow> string \<Rightarrow> stem_entry list \<Rightarrow>
     (go_error + stem_entry list) \<times> stem_cache" where
  "cache_walk_loop load c dir entries =
     (let r = cache_load load c dir; c' = snd r in
      case fst r of
        Inl e \<Rightarrow> (Inl e, c')
      | Inr None \<Rightarrow>
          if path_dir dir = dir then (Inr entries, c')
          else cache_walk_loop load c' (path_dir dir) entries
      | Inr (Some s) \<Rightarrow>
          let es = entries @ [entry_of dir s] in
          if st_root s then (Inr es, c')
          else if path_dir dir = dir then (Inr es, c')
          else cache_walk_loop load c' (path_dir dir) es)"
  by pat_completeness auto
termination
  by (relation "measure (\<lambda>(l, c, d, e). up_measure d)") (auto intro: path_dir_measure)

declare cache_walk_loop.simps [simp del]

definition cache_walk_up ::
  "(string \<Rightarrow> string + stem_file) \<Rightarrow> filesys \<Rightarrow> stem_cache \<Rightarrow> string \<Rightarrow>
     (go_error + stem_entry list) \<times> stem_cache" where
  "cache_walk_up yaml fs c target =
     (case discovery_start_dir fs target of
        Inl e \<Rightarrow> (Inl e, c)
      | Inr dir \<Rightarrow>
          let r = cache_walk_loop (load_optional_stem yaml fs) c dir [] in
          (case fst r of Inl e \<Rightarrow> Inl e | Inr entries \<Rightarrow> finish_walk entries, snd r))"

text \<open>Every cached answer is the one the file system gives.\<close>

definition cache_ok :: "(string \<Rightarrow> go_error + stem_file option) \<Rightarrow> stem_cache \<Rightarrow> bool" where
  "cache_ok load c = (\<forall>dir s. map_of (sc_parsed c) dir = Some s \<longrightarrow> load (stem_path_of dir) = Inr s)"

lemma cache_load_ok:
  assumes "cache_ok load c"
  shows "fst (cache_load load c dir) = load (stem_path_of dir) \<and>
     cache_ok load (snd (cache_load load c dir))"
  using assms
  by (auto simp: cache_load_def cache_ok_def update_conv' split: option.split sum.split)

lemma cache_walk_loop_ok:
  assumes "cache_ok load c"
  shows "fst (cache_walk_loop load c dir entries) = walk_loop load dir entries \<and>
     cache_ok load (snd (cache_walk_loop load c dir entries))"
  using assms
proof (induction load c dir entries rule: cache_walk_loop.induct)
  case (1 load c dir entries)
  note l = cache_load_ok [OF "1.prems", of dir]
  note IH = "1.IH" [OF refl refl]
  show ?case
  proof (cases "load (stem_path_of dir)")
    case (Inl e)
    with l show ?thesis
      by (simp add: cache_walk_loop.simps [of load c dir] walk_loop.simps [of load dir] Let_def)
  next
    case (Inr o')
    show ?thesis
    proof (cases o')
      case None
      with l Inr IH(1) [of o'] show ?thesis
        by (simp add: cache_walk_loop.simps [of load c dir] walk_loop.simps [of load dir] Let_def)
    next
      case (Some s)
      with l Inr IH(2) [of o' s] show ?thesis
        by (simp add: cache_walk_loop.simps [of load c dir] walk_loop.simps [of load dir] Let_def)
    qed
  qed
qed

section \<open>Ignore files\<close>

definition ignore_patterns :: "string \<Rightarrow> string list" where
  "ignore_patterns content =
     filter (\<lambda>l. l \<noteq> [] \<and> \<not> has_prefix l ''#'') (map trim_space (split_on (CHR 0x0A) content))"

definition parse_stem_ignore :: "filesys \<Rightarrow> string \<Rightarrow> string list option" where
  "parse_stem_ignore fs path =
     (case fs_read fs path of Inl _ \<Rightarrow> None | Inr content \<Rightarrow> Some (ignore_patterns content))"

type_synonym ignore_scope = "string \<times> string list"

definition stem_is_ignored :: "string \<Rightarrow> ignore_scope list \<Rightarrow> bool" where
  "stem_is_ignored file scopes =
     (\<exists>(dir, patterns) \<in> set scopes.
        (file = dir \<or> has_prefix file (dir @ ''/'')) \<and>
        (case path_rel dir file of
           None \<Rightarrow> False
         | Some rel \<Rightarrow>
             \<exists>pat \<in> set patterns. glob_matches pat (path_base file) \<or> glob_matches pat rel))"

section \<open>\<open>DownwardScan\<close>\<close>

text \<open>
  The tree \<open>filepath.WalkDir\<close> visits, children in its lexical order. A directory that cannot be
  listed has no children: the code skips it.
\<close>

datatype file_tree = TFile string | TDir string "file_tree list"

record down_state =
  ds_entries :: "stem_entry list"
  ds_ignores :: "ignore_scope list"

text \<open>The visit of one directory: go on into it, or skip it, or stop with an error.\<close>

definition down_visit ::
  "(string \<Rightarrow> string + stem_file) \<Rightarrow> filesys \<Rightarrow> string \<Rightarrow> string \<Rightarrow> string \<Rightarrow> down_state \<Rightarrow>
     go_error + (bool \<times> down_state)" where
  "down_visit yaml fs scan_root dir name st =
     (if name = ''.git'' \<and> dir \<noteq> scan_root then Inr (False, st)
      else
        let st1 = (case parse_stem_ignore fs (path_join dir ''.stemignore'') of
                     None \<Rightarrow> st
                   | Some ps \<Rightarrow> st\<lparr> ds_ignores := ds_ignores st @ [(dir, ps)] \<rparr>);
            path = stem_path_of dir
        in case fs_lstat fs path of
             Inl _ \<Rightarrow> Inr (True, st1)
           | Inr k \<Rightarrow>
               if k = KDir \<or> stem_is_ignored path (ds_ignores st1) then Inr (True, st1)
               else
                 (case fs_read fs path of
                    Inl e \<Rightarrow> Inl (Err (fs_err_text e))
                  | Inr content \<Rightarrow>
                      (case parse_stem_content yaml path content of
                         Inl e \<Rightarrow> Inl (parse_error_go path e)
                       | Inr s \<Rightarrow>
                           if st_root s then Inr (False, st1)
                           else Inr (True,
                             st1\<lparr> ds_entries := ds_entries st1 @ [entry_of dir s] \<rparr>))))"

fun down_tree ::
  "(string \<Rightarrow> string + stem_file) \<Rightarrow> filesys \<Rightarrow> string \<Rightarrow> string \<Rightarrow> file_tree \<Rightarrow> down_state \<Rightarrow>
     go_error + down_state"
and down_trees ::
  "(string \<Rightarrow> string + stem_file) \<Rightarrow> filesys \<Rightarrow> string \<Rightarrow> string \<Rightarrow> file_tree list \<Rightarrow> down_state \<Rightarrow>
     go_error + down_state" where
  "down_tree yaml fs scan_root dir (TFile name) st = Inr st"
| "down_tree yaml fs scan_root dir (TDir name children) st =
     (case down_visit yaml fs scan_root dir name st of
        Inl e \<Rightarrow> Inl e
      | Inr (False, st') \<Rightarrow> Inr st'
      | Inr (True, st') \<Rightarrow> down_trees yaml fs scan_root dir children st')"
| "down_trees yaml fs scan_root dir [] st = Inr st"
| "down_trees yaml fs scan_root dir (t # ts) st =
     (case down_tree yaml fs scan_root
             (path_join dir (case t of TFile n \<Rightarrow> n | TDir n _ \<Rightarrow> n)) t st of
        Inl e \<Rightarrow> Inl e
      | Inr st' \<Rightarrow> down_trees yaml fs scan_root dir ts st')"

definition downward_scan ::
  "(string \<Rightarrow> string + stem_file) \<Rightarrow> filesys \<Rightarrow> (string \<Rightarrow> file_tree) \<Rightarrow> string \<Rightarrow>
     go_error + stem_entry list" where
  "downward_scan yaml fs tree target =
     (let abs_target = path_abs (fs_cwd fs) target;
          scan_root = (case fs_lstat fs abs_target of
                         Inr k \<Rightarrow> if k = KDir then abs_target else path_dir abs_target
                       | Inl _ \<Rightarrow> abs_target)
      in map_sum id ds_entries
           (down_tree yaml fs scan_root scan_root (tree scan_root)
              \<lparr> ds_entries = [], ds_ignores = [] \<rparr>))"

section \<open>Boundaries\<close>

definition is_real_schema_error :: "go_error option \<Rightarrow> bool" where
  "is_real_schema_error e = (case e of None \<Rightarrow> False | Some err \<Rightarrow> \<not> is_no_schema err)"

definition chain_has_no_declared_boundary :: "stem_entry list \<Rightarrow> bool" where
  "chain_has_no_declared_boundary entries =
     (case entries of [] \<Rightarrow> True | e # _ \<Rightarrow> \<not> st_root (se_stem e))"

definition is_at_or_below :: "string \<Rightarrow> string \<Rightarrow> bool" where
  "is_at_or_below dir root =
     (case path_rel root dir of
        None \<Rightarrow> False
      | Some rel \<Rightarrow> rel = ''.'' \<or> (rel \<noteq> ''..'' \<and> \<not> has_prefix rel ''../''))"

function boundary_loop :: "filesys \<Rightarrow> string \<Rightarrow> string" where
  "boundary_loop fs dir =
     (case fs_stat fs (path_join dir ''.git'') of
        Inr _ \<Rightarrow> dir
      | Inl _ \<Rightarrow> if path_dir dir = dir then [] else boundary_loop fs (path_dir dir))"
  by pat_completeness auto
termination by (relation "measure (\<lambda>(fs, d). up_measure d)") (auto intro: path_dir_measure)

declare boundary_loop.simps [simp del]

definition project_boundary_hint :: "filesys \<Rightarrow> string \<Rightarrow> string" where
  "project_boundary_hint fs target =
     (let dir = path_abs (fs_cwd fs) target in
      boundary_loop fs
        (case fs_stat fs dir of Inr k \<Rightarrow> if k = KDir then dir else path_dir dir | Inl _ \<Rightarrow> dir))"

definition propose_root_directory :: "filesys \<Rightarrow> stem_entry list \<Rightarrow> string \<Rightarrow> string" where
  "propose_root_directory fs entries target =
     (if entries = [] then []
      else
        let boundary = project_boundary_hint fs target;
            dirs = map (\<lambda>e. path_dir (se_path e)) entries;
            inside = (if boundary \<noteq> [] then filter (\<lambda>d. is_at_or_below d boundary) dirs else [])
        in (case inside of d # _ \<Rightarrow> d | [] \<Rightarrow> last dirs))"

text \<open>\<open>ApplyRootMarker\<close> on the content of a file: \<open>None\<close> when nothing is written.\<close>

abbreviation (input) marker :: string where "marker \<equiv> ''root: true''"

definition apply_root_marker :: "string \<Rightarrow> string option" where
  "apply_root_marker content =
     (if str_contains content marker then None
      else
        Some (case index_of content ''version:'' of
          None \<Rightarrow> marker @ [CHR 0x0A] @ content
        | Some v \<Rightarrow>
            (case index_of (drop v content) [CHR 0x0A] of
               None \<Rightarrow> content @ [CHR 0x0A] @ marker
             | Some nl \<Rightarrow>
                 take (v + nl + 1) content @ marker @ [CHR 0x0A] @ drop (v + nl + 1) content)))"

section \<open>The prospective state\<close>

record state_entry =
  en_is_dir :: bool
  en_ignored :: bool

record stem_state =
  ss_root :: string
  ss_stems :: "(string \<times> stem_file) list"
  ss_parse_errors :: "(string \<times> go_error) list"
  ss_entries :: "(string \<times> state_entry) list"
  ss_evaluated :: "(string \<times> bool) list"

definition add_stem_to_state ::
  "(string \<Rightarrow> string + stem_file) \<Rightarrow> stem_state \<Rightarrow> string \<Rightarrow> string \<Rightarrow> stem_state" where
  "add_stem_to_state yaml st path0 content =
     (let path = path_clean path0 in
      case parse_stem_content yaml path content of
        Inl e \<Rightarrow> st\<lparr> ss_parse_errors := AList.update path (parse_error_go path e) (ss_parse_errors st),
                     ss_stems := AList.delete path (ss_stems st) \<rparr>
      | Inr s \<Rightarrow> st\<lparr> ss_stems := AList.update path s (ss_stems st),
                     ss_parse_errors := AList.delete path (ss_parse_errors st) \<rparr>)"

text \<open>The state's own walk to the root, leaf to root.\<close>

function chain_loop :: "(string \<times> stem_file) list \<Rightarrow> string \<Rightarrow> stem_entry list" where
  "chain_loop stems dir =
     (case map_of stems (stem_path_of dir) of
        Some s \<Rightarrow>
          entry_of dir s #
            (if st_root s then [] else if path_dir dir = dir then [] else chain_loop stems (path_dir dir))
      | None \<Rightarrow> if path_dir dir = dir then [] else chain_loop stems (path_dir dir))"
  by pat_completeness auto
termination by (relation "measure (\<lambda>(s, d). up_measure d)") (auto intro: path_dir_measure)

declare chain_loop.simps [simp del]

definition state_start_dir :: "string \<Rightarrow> stem_state \<Rightarrow> string \<Rightarrow> string" where
  "state_start_dir cwd st path =
     (let file = path_clean (path_abs cwd path) in
      case map_of (ss_entries st) file of
        Some e \<Rightarrow> if en_is_dir e then file else path_dir file
      | None \<Rightarrow> path_dir file)"

definition state_chain :: "string \<Rightarrow> stem_state \<Rightarrow> string \<Rightarrow> stem_entry list" where
  "state_chain cwd st path = rev (chain_loop (ss_stems st) (state_start_dir cwd st path))"

function mark_loop :: "stem_state \<Rightarrow> string \<Rightarrow> stem_state" where
  "mark_loop st dir =
     (let path = stem_path_of dir;
          st1 = (if map_of (ss_parse_errors st) path \<noteq> None
                 then st\<lparr> ss_evaluated := AList.update path True (ss_evaluated st) \<rparr> else st)
      in case map_of (ss_stems st1) path of
           Some s \<Rightarrow>
             if st_root s then st1
             else if path_dir dir = dir then st1 else mark_loop st1 (path_dir dir)
         | None \<Rightarrow> if path_dir dir = dir then st1 else mark_loop st1 (path_dir dir))"
  by pat_completeness auto
termination by (relation "measure (\<lambda>(s, d). up_measure d)") (auto intro: path_dir_measure)

declare mark_loop.simps [simp del]

definition overlay ::
  "(string \<Rightarrow> string + stem_file) \<Rightarrow> string \<Rightarrow> stem_state \<Rightarrow> string \<Rightarrow> string \<Rightarrow> go_error + stem_state" where
  "overlay yaml cwd st path content =
     (let file = path_clean (path_abs cwd path) in
      case parse_stem_content yaml file content of
        Inl e \<Rightarrow> Inl (Wrapped (''overlaying '' @ file) (parse_error_go file e))
      | Inr s \<Rightarrow>
          Inr (mark_loop
            (st\<lparr> ss_stems := AList.update file s (ss_stems st),
                 ss_parse_errors := AList.delete file (ss_parse_errors st),
                 ss_entries := AList.update (path_dir file) \<lparr> en_is_dir = True, en_ignored = False \<rparr>
                   (AList.update file \<lparr> en_is_dir = False, en_ignored = False \<rparr> (ss_entries st)),
                 ss_evaluated := AList.update file True (ss_evaluated st) \<rparr>)
            (path_dir file)))"

definition starts_with_parent_traversal :: "string \<Rightarrow> bool" where
  "starts_with_parent_traversal rel =
     (rel = ''..'' \<or> (length rel > 3 \<and> take 3 rel = ''../''))"

definition state_path_at_or_below :: "string \<Rightarrow> string \<Rightarrow> bool" where
  "state_path_at_or_below root0 path0 =
     (let root = path_clean root0; path = path_clean path0 in
      if path = root then True
      else case path_rel root path of
        None \<Rightarrow> False
      | Some rel \<Rightarrow>
          rel \<noteq> ''..'' \<and> rel \<noteq> ''.'' \<and> \<not> starts_with_parent_traversal rel)"

definition evaluated_stem_paths :: "stem_state \<Rightarrow> string list" where
  "evaluated_stem_paths st =
     sort (remdups
       (filter (state_path_at_or_below (ss_root st)) (map fst (ss_stems st)) @
        filter (state_path_at_or_below (ss_root st)) (map fst (ss_parse_errors st)) @
        map (\<lambda>p. path_clean (fst p)) (filter snd (ss_evaluated st))))"

text \<open>The closest non-empty \<open>scope.match\<close> of a chain: its owner and its pattern.\<close>

definition scope_owner :: "stem_entry list \<Rightarrow> string \<times> string" where
  "scope_owner chain =
     foldl (\<lambda>acc e. if st_scope (se_stem e) \<noteq> [] then (se_path e, st_scope (se_stem e)) else acc)
       ([], []) chain"

definition effective_scope_matches :: "string \<Rightarrow> stem_state \<Rightarrow> string list" where
  "effective_scope_matches cwd st =
     remdups (List.map_filter (\<lambda>(path, e).
       if en_is_dir e \<or> en_ignored e \<or> path_base path = stem_name then None
       else let (owner, pattern) = scope_owner (state_chain cwd st path) in
         if owner = [] then None
         else if glob_matches pattern (path_base path) then Some owner else None) (ss_entries st))"

function external_loop ::
  "(string \<Rightarrow> string + stem_file) \<Rightarrow> filesys \<Rightarrow> stem_state \<Rightarrow> string \<Rightarrow> go_error + stem_state" where
  "external_loop yaml fs st dir =
     (let path = stem_path_of dir in
      case fs_read fs path of
        Inl e \<Rightarrow>
          if e \<noteq> NotExist then
            Inl (Wrapped (''reading external stem '' @ path) (Err (fs_err_text e)))
          else if path_dir dir = dir then Inr st else external_loop yaml fs st (path_dir dir)
      | Inr content \<Rightarrow>
          (case parse_stem_content yaml path content of
             Inl e \<Rightarrow>
               let st1 = st\<lparr> ss_parse_errors := AList.update path (parse_error_go path e) (ss_parse_errors st),
                             ss_stems := AList.delete path (ss_stems st) \<rparr>
               in if path_dir dir = dir then Inr st1 else external_loop yaml fs st1 (path_dir dir)
           | Inr s \<Rightarrow>
               let st1 = st\<lparr> ss_stems := AList.update path s (ss_stems st),
                             ss_parse_errors := AList.delete path (ss_parse_errors st) \<rparr>
               in if st_root s then Inr st1
                  else if path_dir dir = dir then Inr st1
                  else external_loop yaml fs st1 (path_dir dir)))"
  by pat_completeness auto
termination by (relation "measure (\<lambda>(y, f, s, d). up_measure d)") (auto intro: path_dir_measure)

declare external_loop.simps [simp del]

section \<open>What every walk to the root has in common\<close>

definition entry_if :: "string \<Rightarrow> stem_file option \<Rightarrow> stem_entry list" where
  "entry_if dir o' = (case o' of None \<Rightarrow> [] | Some s \<Rightarrow> [entry_of dir s])"

definition is_boundary :: "stem_file option \<Rightarrow> bool" where
  "is_boundary o' = (case o' of None \<Rightarrow> False | Some s \<Rightarrow> st_root s)"

lemma up_induct [case_names step]:
  assumes "\<And>dir. (path_dir dir \<noteq> dir \<Longrightarrow> P (path_dir dir)) \<Longrightarrow> P dir"
  shows "P dir"
proof (induction "up_measure dir" arbitrary: dir rule: less_induct)
  case less
  show ?case
  proof (rule assms)
    assume "path_dir dir \<noteq> dir"
    then show "P (path_dir dir)" by (intro less path_dir_measure)
  qed
qed

locale stem_walk =
  fixes find :: "string \<Rightarrow> stem_file option"
    and collect :: "string \<Rightarrow> stem_entry list"
  assumes collect_unfold: "collect dir =
      entry_if dir (find dir) @
        (if is_boundary (find dir) \<or> path_dir dir = dir then [] else collect (path_dir dir))"
begin

lemma collect_stop:
  "is_boundary (find dir) \<or> path_dir dir = dir \<Longrightarrow> collect dir = entry_if dir (find dir)"
  by (subst collect_unfold) simp

lemma collect_go:
  "\<not> (is_boundary (find dir) \<or> path_dir dir = dir) \<Longrightarrow>
     collect dir = entry_if dir (find dir) @ collect (path_dir dir)"
  by (subst collect_unfold) simp

lemma collect_boundary_last:
  "e \<in> set (butlast (collect dir)) \<Longrightarrow> \<not> st_root (se_stem e)"
proof (induction dir rule: up_induct)
  case (step dir)
  show ?case
  proof (cases "is_boundary (find dir) \<or> path_dir dir = dir")
    case True
    with step.prems show ?thesis
      by (simp add: collect_stop entry_if_def split: option.splits)
  next
    case False
    then have "e \<in> set (entry_if dir (find dir)) \<or> e \<in> set (butlast (collect (path_dir dir)))"
      using step.prems by (auto simp: collect_go butlast_append split: if_splits dest: in_set_butlastD)
    then show ?thesis
      using False step.IH by (auto simp: entry_if_def is_boundary_def entry_of_def split: option.splits)
  qed
qed

lemma collect_found:
  "e \<in> set (collect dir) \<Longrightarrow> \<exists>d s. find d = Some s \<and> e = entry_of d s"
proof (induction dir rule: up_induct)
  case (step dir)
  have here: "e \<in> set (entry_if dir (find dir)) \<Longrightarrow> \<exists>d s. find d = Some s \<and> e = entry_of d s"
    by (cases "find dir") (auto simp: entry_if_def)
  show ?case
  proof (cases "is_boundary (find dir) \<or> path_dir dir = dir")
    case True
    with step.prems here show ?thesis by (simp add: collect_stop)
  next
    case False
    with step here show ?thesis by (auto simp: collect_go)
  qed
qed

lemma collect_unique:
  assumes "\<And>dir. g dir = entry_if dir (find dir) @
      (if is_boundary (find dir) \<or> path_dir dir = dir then [] else g (path_dir dir))"
  shows "collect dir = g dir"
proof (induction dir rule: up_induct)
  case (step dir)
  then show ?case unfolding collect_unfold [of dir] assms [of dir] by simp
qed

end

interpretation chain_walk: stem_walk "\<lambda>dir. map_of stems (stem_path_of dir)" "chain_loop stems"
  for stems
  by unfold_locales
    (subst chain_loop.simps, simp add: entry_if_def is_boundary_def split: option.split)

text \<open>\<open>WalkUp\<close> over a tree whose files all load: the answers of a total loader.\<close>

definition walk_list :: "(string \<Rightarrow> stem_file option) \<Rightarrow> string \<Rightarrow> stem_entry list" where
  "walk_list f dir =
     (case walk_loop (\<lambda>p. Inr (f p)) dir [] of Inl _ \<Rightarrow> [] | Inr es \<Rightarrow> es)"

lemma walk_loop_step:
  "walk_loop (\<lambda>p. Inr (f p)) dir es =
     (let es' = es @ entry_if dir (f (stem_path_of dir)) in
      if is_boundary (f (stem_path_of dir)) \<or> path_dir dir = dir then Inr es'
      else walk_loop (\<lambda>p. Inr (f p)) (path_dir dir) es')"
  by (subst walk_loop.simps)
    (simp add: entry_if_def is_boundary_def Let_def split: option.split)

lemma walk_loop_acc: "\<exists>r. \<forall>es. walk_loop (\<lambda>p. Inr (f p)) dir es = Inr (es @ r)"
proof (induction dir rule: up_induct)
  case (step dir)
  let ?h = "entry_if dir (f (stem_path_of dir))"
  show ?case
  proof (cases "is_boundary (f (stem_path_of dir)) \<or> path_dir dir = dir")
    case True
    then show ?thesis by (subst walk_loop_step) (auto simp: Let_def intro: exI [of _ ?h])
  next
    case False
    with step.IH obtain r where "\<forall>es. walk_loop (\<lambda>p. Inr (f p)) (path_dir dir) es = Inr (es @ r)"
      by auto
    with False show ?thesis
      by (intro exI [of _ "?h @ r"] allI) (subst walk_loop_step, simp add: Let_def)
  qed
qed

lemma walk_loop_total: "walk_loop (\<lambda>p. Inr (f p)) dir es = Inr (es @ walk_list f dir)"
proof -
  obtain r where r: "\<And>es. walk_loop (\<lambda>p. Inr (f p)) dir es = Inr (es @ r)"
    using walk_loop_acc by blast
  then have "walk_list f dir = r" by (simp add: walk_list_def)
  with r show ?thesis by simp
qed

interpretation file_walk: stem_walk "\<lambda>dir. f (stem_path_of dir)" "walk_list f"
  for f
proof unfold_locales
  fix dir
  show "walk_list f dir = entry_if dir (f (stem_path_of dir)) @
      (if is_boundary (f (stem_path_of dir)) \<or> path_dir dir = dir then []
       else walk_list f (path_dir dir))"
    using walk_loop_step [of f dir "[]"] by (auto simp: walk_loop_total Let_def split: if_splits)
qed

lemma chain_is_walk: "chain_loop stems dir = walk_list (map_of stems) dir"
  by (rule chain_walk.collect_unique) (rule file_walk.collect_unfold)

section \<open>The walk over a loader that may fail\<close>

definition loaded :: "(string \<Rightarrow> go_error + stem_file option) \<Rightarrow> string \<Rightarrow> stem_file option" where
  "loaded load p = (case load p of Inl _ \<Rightarrow> None | Inr o' \<Rightarrow> o')"

lemma walk_loop_loaded:
  "walk_loop load dir es = Inr r \<Longrightarrow> r = es @ walk_list (loaded load) dir"
proof (induction dir arbitrary: es r rule: up_induct)
  case (step dir)
  then obtain o' where o: "load (stem_path_of dir) = Inr o'"
    by (cases "load (stem_path_of dir)") (auto simp: walk_loop.simps [of load dir])
  let ?es = "es @ entry_if dir o'"
  have l: "loaded load (stem_path_of dir) = o'" by (simp add: loaded_def o)
  show ?case
  proof (cases "is_boundary o' \<or> path_dir dir = dir")
    case True
    then have "walk_loop load dir es = Inr ?es"
      by (subst walk_loop.simps)
        (auto simp: o Let_def entry_if_def is_boundary_def split: option.split)
    with True step.prems file_walk.collect_stop [of "loaded load" dir] l show ?thesis by simp
  next
    case False
    then have "walk_loop load dir es = walk_loop load (path_dir dir) ?es"
      by (subst walk_loop.simps)
        (auto simp: o Let_def entry_if_def is_boundary_def split: option.split)
    with False step.prems step.IH [of ?es r] file_walk.collect_go [of "loaded load" dir] l
    show ?thesis by simp
  qed
qed

text \<open>The directories a walk from \<open>dir\<close> looks at.\<close>

inductive visited :: "(string \<Rightarrow> go_error + stem_file option) \<Rightarrow> string \<Rightarrow> string \<Rightarrow> bool" where
  here: "visited load dir dir"
| up: "visited load dir d \<Longrightarrow> load (stem_path_of d) = Inr o' \<Longrightarrow> \<not> is_boundary o' \<Longrightarrow>
       path_dir d \<noteq> d \<Longrightarrow> visited load dir (path_dir d)"

lemma visited_trans_up:
  "visited load (path_dir dir) d \<Longrightarrow> load (stem_path_of dir) = Inr o' \<Longrightarrow> \<not> is_boundary o' \<Longrightarrow>
     path_dir dir \<noteq> dir \<Longrightarrow> visited load dir d"
  by (induction load "path_dir dir" d rule: visited.induct) (auto intro: visited.intros)

lemma visited_start:
  "visited load dir d \<Longrightarrow> d = dir \<or>
     (\<exists>o'. load (stem_path_of dir) = Inr o' \<and> \<not> is_boundary o' \<and> path_dir dir \<noteq> dir \<and>
       visited load (path_dir dir) d)"
  by (induction rule: visited.induct) (auto intro: visited.intros)

lemma walk_loop_all_load:
  "walk_loop load dir es = Inr r \<Longrightarrow> visited load dir d \<Longrightarrow> \<exists>o'. load (stem_path_of d) = Inr o'"
proof (induction dir arbitrary: es r rule: up_induct)
  case (step dir)
  from visited_start [OF step.prems(2)] show ?case
  proof
    assume "d = dir"
    with step.prems(1) show ?thesis
      by (cases "load (stem_path_of dir)") (auto simp: walk_loop.simps [of load dir])
  next
    assume "\<exists>o'. load (stem_path_of dir) = Inr o' \<and> \<not> is_boundary o' \<and> path_dir dir \<noteq> dir \<and>
       visited load (path_dir dir) d"
    then obtain o' where o: "load (stem_path_of dir) = Inr o'" "\<not> is_boundary o'"
      "path_dir dir \<noteq> dir" "visited load (path_dir dir) d" by blast
    then have "walk_loop load dir es = walk_loop load (path_dir dir) (es @ entry_if dir o')"
      by (subst walk_loop.simps)
        (auto simp: Let_def entry_if_def is_boundary_def split: option.split)
    with step o show ?thesis by metis
  qed
qed

lemma visited_is_collected:
  "visited load dir d \<Longrightarrow> load (stem_path_of d) = Inr (Some s) \<Longrightarrow>
     entry_of d s \<in> set (walk_list (loaded load) dir)"
proof (induction dir rule: up_induct)
  case (step dir)
  from visited_start [OF step.prems(1)] show ?case
  proof
    assume "d = dir"
    with step.prems(2) have "loaded load (stem_path_of dir) = Some s" by (simp add: loaded_def)
    with \<open>d = dir\<close> show ?thesis
      by (subst file_walk.collect_unfold) (simp add: entry_if_def)
  next
    assume "\<exists>o'. load (stem_path_of dir) = Inr o' \<and> \<not> is_boundary o' \<and> path_dir dir \<noteq> dir \<and>
       visited load (path_dir dir) d"
    then have "\<not> (is_boundary (loaded load (stem_path_of dir)) \<or> path_dir dir = dir)"
      "visited load (path_dir dir) d" "path_dir dir \<noteq> dir" by (auto simp: loaded_def)
    with step.IH step.prems(2) file_walk.collect_go [of "loaded load" dir] show ?thesis by simp
  qed
qed

lemma load_optional_stem_None:
  "load_optional_stem yaml fs p = Inr None \<longleftrightarrow>
     fs_read fs p = Inl NotExist \<and> fs_lstat fs p = Inl NotExist"
  by (auto simp: load_optional_stem_def split: sum.splits if_splits fs_err.splits)

lemma load_optional_stem_Some:
  "load_optional_stem yaml fs p = Inr (Some s) \<longleftrightarrow>
     (\<exists>content. fs_read fs p = Inr content \<and> parse_stem_content yaml p content = Inr s)"
  by (auto simp: load_optional_stem_def split: sum.splits if_splits fs_err.splits)

lemma walk_up_InrD:
  assumes "walk_up yaml fs target = Inr entries"
  obtains dir where "discovery_start_dir fs target = Inr dir"
    "walk_loop (load_optional_stem yaml fs) dir [] = Inr (rev entries)"
    "entries = rev (walk_list (loaded (load_optional_stem yaml fs)) dir)" "entries \<noteq> []"
proof -
  from assms obtain dir es where d: "discovery_start_dir fs target = Inr dir"
    "walk_loop (load_optional_stem yaml fs) dir [] = Inr es" "es \<noteq> []" "entries = rev es"
    by (auto simp: walk_up_def finish_walk_def split: sum.splits if_splits)
  with walk_loop_loaded [OF d(2)] that [of dir] show thesis by auto
qed

section \<open>Lemmas on paths below a directory\<close>

lemma strip_common_append:
  "strip_common bs ts = (bs', ts') \<Longrightarrow> \<exists>cs. bs = cs @ bs' \<and> ts = cs @ ts'"
proof (induction bs ts rule: strip_common.induct)
  case (1 b bs t ts)
  show ?case
  proof (cases "b = t")
    case True
    with 1 obtain cs where "bs = cs @ bs'" "ts = cs @ ts'" by auto
    with True show ?thesis by (intro exI [of _ "b # cs"]) simp
  next
    case False
    with "1.prems" show ?thesis by (intro exI [of _ "[]"]) auto
  qed
qed auto

lemma strip_common_prefix: "strip_common bs (bs @ cs) = ([], cs)"
  by (induction bs) auto

lemma join_head_dots:
  assumes "plain_comps cs" "cs \<noteq> []"
  shows "join_with ''/'' cs = ''..'' \<or> has_prefix (join_with ''/'' cs) ''../'' \<longleftrightarrow> hd cs = ''..''"
proof -
  obtain c ds where c: "cs = c # ds" using assms(2) by (cases cs) auto
  have sp: "split_on slash (join_with [slash] cs) = cs"
    using assms by (intro split_join) (auto simp: plain_comps_def)
  show ?thesis
  proof
    assume "join_with ''/'' cs = ''..'' \<or> has_prefix (join_with ''/'' cs) ''../''"
    then show "hd cs = ''..''"
    proof
      assume "join_with ''/'' cs = ''..''"
      with sp have "cs = [''..'']" by simp
      then show ?thesis by simp
    next
      assume "has_prefix (join_with ''/'' cs) ''../''"
      then obtain r where "join_with ''/'' cs = ''..'' @ slash # r"
        by (auto simp: has_prefix_iff)
      with sp have "cs = ''..'' # split_on slash r" by simp
      then show ?thesis by simp
    qed
  next
    assume "hd cs = ''..''"
    with c show "join_with ''/'' cs = ''..'' \<or> has_prefix (join_with ''/'' cs) ''../''"
      by (cases ds) auto
  qed
qed

lemma abs_comps:
  assumes "is_abs p" shows "path_comps (path_clean p) = clean_comps True (path_comps p)"
  using assms by (simp add: path_comps_clean)

lemma abs_clean_no_dots:
  assumes "is_abs p" "c \<in> set (clean_comps True (path_comps p))" shows "c \<noteq> ''..'' \<and> c \<noteq> ''.''"
  using clean_comps_shape [of True "path_comps p"] assms(2) by (auto simp: clean_shape_def)

lemma path_clean_eq_iff:
  assumes "is_abs a" "is_abs b"
  shows "path_clean a = path_clean b \<longleftrightarrow>
     clean_comps True (path_comps a) = clean_comps True (path_comps b)"
  using assms abs_comps by (auto simp: path_clean_def) metis

text \<open>\<open>isAtOrBelow\<close> compares components: a directory is below another exactly when the other's
  cleaned components are a prefix of its own.\<close>

lemma is_at_or_below_iff:
  assumes "is_abs dir" "is_abs root"
  shows "is_at_or_below dir root \<longleftrightarrow>
     (\<exists>cs. clean_comps True (path_comps dir) = clean_comps True (path_comps root) @ cs)"
proof -
  let ?B = "clean_comps True (path_comps root)" and ?T = "clean_comps True (path_comps dir)"
  obtain bs ts where st: "strip_common ?B ?T = (bs, ts)" by (cases "strip_common ?B ?T")
  then obtain cs where cs: "?B = cs @ bs" "?T = cs @ ts" using strip_common_append by blast
  have nodots: "hd bs \<noteq> ''..''" if "bs \<noteq> []"
    using abs_clean_no_dots [OF assms(2)] that cs(1) by (metis hd_in_set in_set_conv_decomp_first
        append_is_Nil_conv Un_iff set_append)
  have pl: "plain_comps (replicate (length bs) ''..'' @ ts)"
    using plain_clean_comps [OF plain_path_comps, of True dir] cs(2)
    by (auto simp: plain_comps_def)
  have rootne: "path_clean root \<noteq> ''.''" using is_abs_clean [of root] assms(2) by (auto simp: is_abs_def)
  have rel: "path_rel root dir =
      (if ?B = ?T then Some ''.'' else Some (join_with ''/'' (replicate (length bs) ''..'' @ ts)))"
    using assms rootne st nodots
    by (auto simp: path_rel_def Let_def path_clean_eq_iff abs_comps)
  show ?thesis
  proof (cases "?B = ?T")
    case True
    then show ?thesis by (auto simp: is_at_or_below_def rel)
  next
    case False
    then have ne: "replicate (length bs) ''..'' @ ts \<noteq> []" using cs by auto
    have notdot: "join_with ''/'' (replicate (length bs) ''..'' @ ts) \<noteq> ''.''"
    proof
      assume d: "join_with ''/'' (replicate (length bs) ''..'' @ ts) = ''.''"
      have "split_on slash (join_with [slash] (replicate (length bs) ''..'' @ ts)) =
          replicate (length bs) ''..'' @ ts"
        using pl ne by (intro split_join) (auto simp: plain_comps_def)
      with d have "replicate (length bs) ''..'' @ ts = [''.'']" by simp
      then have "ts = [''.'']" by (cases bs) auto
      with cs(2) abs_clean_no_dots [OF assms(1), of "''.''"] show False by simp
    qed
    have "is_at_or_below dir root \<longleftrightarrow> hd (replicate (length bs) ''..'' @ ts) \<noteq> ''..''"
      using join_head_dots [OF pl ne] False notdot by (auto simp: is_at_or_below_def rel)
    also have "\<dots> \<longleftrightarrow> bs = []"
    proof (cases bs)
      case Nil
      with ne have "hd ts \<in> set ?T" using cs(2) by auto
      with Nil abs_clean_no_dots [OF assms(1)] show ?thesis by simp
    qed simp
    also have "\<dots> \<longleftrightarrow> (\<exists>ds. ?T = ?B @ ds)"
    proof
      assume "\<exists>ds. ?T = ?B @ ds"
      then obtain ds where "?T = ?B @ ds" ..
      with st strip_common_prefix [of ?B ds] show "bs = []" by simp
    qed (use cs in auto)
    finally show ?thesis .
  qed
qed

section \<open>Lemmas on the state\<close>

lemma mark_loop_frame:
  "ss_stems (mark_loop st dir) = ss_stems st \<and> ss_parse_errors (mark_loop st dir) = ss_parse_errors st \<and>
   ss_root (mark_loop st dir) = ss_root st \<and> ss_entries (mark_loop st dir) = ss_entries st \<and>
   (\<forall>p. map_of (ss_evaluated st) p = Some True \<longrightarrow> map_of (ss_evaluated (mark_loop st dir)) p = Some True)"
proof (induction dir arbitrary: st rule: up_induct)
  case (step dir)
  define st1 where "st1 = (if map_of (ss_parse_errors st) (stem_path_of dir) \<noteq> None
     then st\<lparr> ss_evaluated := AList.update (stem_path_of dir) True (ss_evaluated st) \<rparr> else st)"
  have 1: "ss_stems st1 = ss_stems st \<and> ss_parse_errors st1 = ss_parse_errors st \<and>
   ss_root st1 = ss_root st \<and> ss_entries st1 = ss_entries st \<and>
   (\<forall>p. map_of (ss_evaluated st) p = Some True \<longrightarrow> map_of (ss_evaluated st1) p = Some True)"
    by (simp add: st1_def update_conv')
  have "mark_loop st dir = st1 \<or> (path_dir dir \<noteq> dir \<and> mark_loop st dir = mark_loop st1 (path_dir dir))"
    unfolding mark_loop.simps [of st dir] Let_def st1_def [symmetric] by (auto split: option.split)
  then show ?case
  proof
    assume "mark_loop st dir = st1"
    with 1 show ?thesis by simp
  next
    assume m: "path_dir dir \<noteq> dir \<and> mark_loop st dir = mark_loop st1 (path_dir dir)"
    with step.IH [of st1] 1 show ?thesis by simp
  qed
qed

section \<open>A sample tree\<close>

text \<open>\<open>/r/.stem\<close> is a boundary, \<open>/r/a\<close> has no schema of its own, \<open>/r/a/b/.stem\<close> adds one.\<close>

definition sample_yaml :: "string \<Rightarrow> string + stem_file" where
  "sample_yaml content = Inr (zero_stem\<lparr> st_version := 2, st_root := (content = ''root: true'') \<rparr>)"

definition sample_files :: "(string \<times> string) list" where
  "sample_files = [(''/.stem'', ''stray''), (''/r/.stem'', ''root: true''), (''/r/a/b/.stem'', ''x'')]"

definition sample_dirs :: "string list" where
  "sample_dirs = [''/'', ''/r'', ''/r/a'', ''/r/a/b'']"

definition sample_fs :: filesys where
  "sample_fs =
     \<lparr> fs_cwd = ''/r'',
       fs_stat = (\<lambda>p. if p \<in> set sample_dirs then Inr KDir
                      else if map_of sample_files p \<noteq> None then Inr KRegular else Inl NotExist),
       fs_lstat = (\<lambda>p. if p \<in> set sample_dirs then Inr KDir
                      else if map_of sample_files p \<noteq> None then Inr KRegular else Inl NotExist),
       fs_read = (\<lambda>p. case map_of sample_files p of None \<Rightarrow> Inl NotExist | Some c \<Rightarrow> Inr c),
       fs_list = (\<lambda>_. Inl NotExist) \<rparr>"

section \<open>Properties\<close>

text \<open>C4: A successful walk returns a usable chain: it is not empty, only its topmost file may be a
  \<open>root: true\<close> boundary, and every entry is a file the loader really returned for its path.\<close>

theorem walk_up_chain:
  assumes "walk_up yaml fs target = Inr entries"
  shows "entries \<noteq> [] \<and> (\<forall>e \<in> set (tl entries). \<not> st_root (se_stem e)) \<and>
     (\<forall>e \<in> set entries. load_optional_stem yaml fs (se_path e) = Inr (Some (se_stem e)))"
proof -
  obtain dir where e: "entries = rev (walk_list (loaded (load_optional_stem yaml fs)) dir)"
    and ne: "entries \<noteq> []"
    using assms by (rule walk_up_InrD)
  have "\<forall>e \<in> set (tl entries). \<not> st_root (se_stem e)"
  proof
    fix e assume "e \<in> set (tl entries)"
    then have "e \<in> set (butlast (walk_list (loaded (load_optional_stem yaml fs)) dir))"
      by (simp add: \<open>entries = _\<close> flip: butlast_rev)
        (metis butlast_rev rev_rev_ident set_rev)
    then show "\<not> st_root (se_stem e)" by (rule file_walk.collect_boundary_last)
  qed
  moreover have "\<forall>e \<in> set entries. load_optional_stem yaml fs (se_path e) = Inr (Some (se_stem e))"
  proof
    fix e assume "e \<in> set entries"
    then obtain d s where "loaded (load_optional_stem yaml fs) (stem_path_of d) = Some s"
      "e = entry_of d s"
      using file_walk.collect_found [of e "loaded (load_optional_stem yaml fs)" dir]
      by (auto simp: \<open>entries = _\<close>)
    then show "load_optional_stem yaml fs (se_path e) = Inr (Some (se_stem e))"
      by (auto simp: loaded_def entry_of_def split: sum.splits)
  qed
  ultimately show ?thesis using ne by simp
qed

theorem walk_up_chain_witness:
  "\<exists>entries. walk_up sample_yaml sample_fs ''a/b'' = Inr entries \<and>
     (\<forall>e \<in> set (tl entries). \<not> st_root (se_stem e)) \<and> length entries = 2"
proof -
  define r where "r = walk_up sample_yaml sample_fs ''a/b''"
  have "isl r = False" "length (projr r) = 2" unfolding r_def by code_simp+
  then obtain entries where "r = Inr entries" "length entries = 2" by (cases r) auto
  with walk_up_chain [of sample_yaml sample_fs "''a/b''" entries] show ?thesis
    by (auto simp: r_def)
qed

text \<open>C14: A broken child schema never falls back to its ancestors' rules: when the walk succeeds, every
  directory it visits between the target and the boundary either has a \<open>.stem\<close> that was read, parsed and accepted
  and whose content is an entry of the result, or has none: reading it and looking for a link of that name
  both report that nothing is there. A file that cannot be read, a dangling link and a file that does not
  parse make the walk fail.\<close>

theorem walk_up_masks_nothing:
  assumes "walk_up yaml fs target = Inr entries" "discovery_start_dir fs target = Inr dir"
    and "visited (load_optional_stem yaml fs) dir d"
  shows "(\<exists>content s. fs_read fs (stem_path_of d) = Inr content \<and>
        parse_stem_content yaml (stem_path_of d) content = Inr s \<and> entry_of d s \<in> set entries) \<or>
     (fs_read fs (stem_path_of d) = Inl NotExist \<and> fs_lstat fs (stem_path_of d) = Inl NotExist)"
proof -
  let ?load = "load_optional_stem yaml fs"
  from assms(1) obtain dir' where dir': "discovery_start_dir fs target = Inr dir'"
    "walk_loop ?load dir' [] = Inr (rev entries)" "entries = rev (walk_list (loaded ?load) dir')"
    by (rule walk_up_InrD)
  with assms(2) have dir: "walk_loop ?load dir [] = Inr (rev entries)"
    "entries = rev (walk_list (loaded ?load) dir)" by simp_all
  from walk_loop_all_load [OF dir(1) assms(3)] obtain o' where o: "?load (stem_path_of d) = Inr o'"
    by blast
  show ?thesis
  proof (cases o')
    case None
    with o show ?thesis by (simp add: load_optional_stem_None)
  next
    case (Some s)
    with o visited_is_collected [OF assms(3)] dir(2) have "entry_of d s \<in> set entries" by simp
    with o Some show ?thesis by (auto simp: load_optional_stem_Some)
  qed
qed

theorem walk_up_masks_nothing_witness:
  "\<exists>entries. walk_up sample_yaml sample_fs ''/r/a/b'' = Inr entries \<and>
     ((\<exists>content s. fs_read sample_fs (stem_path_of ''/r/a'') = Inr content \<and>
         parse_stem_content sample_yaml (stem_path_of ''/r/a'') content = Inr s \<and>
         entry_of ''/r/a'' s \<in> set entries) \<or>
      (fs_read sample_fs (stem_path_of ''/r/a'') = Inl NotExist \<and>
       fs_lstat sample_fs (stem_path_of ''/r/a'') = Inl NotExist))"
proof -
  define r where "r = walk_up sample_yaml sample_fs ''/r/a/b''"
  have "isl r = False" unfolding r_def by code_simp
  then obtain entries where r: "walk_up sample_yaml sample_fs ''/r/a/b'' = Inr entries"
    by (cases r) (auto simp: r_def)
  have d: "discovery_start_dir sample_fs ''/r/a/b'' = Inr ''/r/a/b''" by code_simp
  define l where "l = load_optional_stem sample_yaml sample_fs (stem_path_of ''/r/a/b'')"
  have l: "isl l = False" "\<not> is_boundary (projr l)" unfolding l_def by code_simp+
  have "path_dir ''/r/a/b'' = ''/r/a''" by code_simp
  then have "visited (load_optional_stem sample_yaml sample_fs) ''/r/a/b'' ''/r/a''"
    using visited.up [OF visited.here, of "load_optional_stem sample_yaml sample_fs" "''/r/a/b''" "projr l"] l
    by (cases l) (auto simp: l_def [symmetric])
  from walk_up_masks_nothing [OF r d this] r show ?thesis by blast
qed

text \<open>The other branch happens too: a \<open>.stem\<close> that reads as absent while a link of that name is there,
  a dangling link, is an error.\<close>

lemma dangling_stem_is_error:
  "isl (walk_up sample_yaml (sample_fs\<lparr> fs_lstat := (\<lambda>p. if p = ''/r/a/.stem'' then Inr KSymlink
     else fs_lstat sample_fs p) \<rparr>) ''/r/a/b'')"
  by code_simp

text \<open>C34: The cache is transparent: from a cache whose answers agree with the file system, the cached
  walk returns what the uncached walk returns, and leaves such a cache behind.\<close>

theorem cache_walk_is_walk:
  assumes "cache_ok (load_optional_stem yaml fs) c"
  shows "fst (cache_walk_up yaml fs c target) = walk_up yaml fs target \<and>
     cache_ok (load_optional_stem yaml fs) (snd (cache_walk_up yaml fs c target))"
  using assms cache_walk_loop_ok [OF assms]
  by (simp add: cache_walk_up_def walk_up_def Let_def split: sum.split)

theorem cache_walk_is_walk_witness:
  "fst (cache_walk_up sample_yaml sample_fs new_cache ''a/b'') = walk_up sample_yaml sample_fs ''a/b''"
  using cache_walk_is_walk [of sample_yaml sample_fs new_cache "''a/b''"]
  by (simp add: cache_ok_def new_cache_def)

text \<open>A prospective state resolves chains as the file system would: when the state's parsed files
  are exactly the ones the loader returns, its chain for a path is the walk from the same
  directory.\<close>

theorem state_chain_is_walk:
  assumes "\<forall>p. load p = Inr (map_of (ss_stems st) p)"
  shows "walk_loop load (state_start_dir cwd st path) [] = Inr (rev (state_chain cwd st path))"
proof -
  have "load = (\<lambda>p. Inr (map_of (ss_stems st) p))" using assms by auto
  then show ?thesis by (simp add: walk_loop_total state_chain_def chain_is_walk)
qed

theorem state_chain_is_walk_witness:
  "walk_loop (\<lambda>p. Inr (map_of [(''/r/.stem'', zero_stem)] p)) ''/r'' [] =
     Inr (rev (state_chain ''/''
       \<lparr> ss_root = ''/r'', ss_stems = [(''/r/.stem'', zero_stem)], ss_parse_errors = [],
         ss_entries = [], ss_evaluated = [] \<rparr> ''/r/x.md''))"
proof -
  let ?st = "\<lparr> ss_root = ''/r'', ss_stems = [(''/r/.stem'', zero_stem)], ss_parse_errors = [],
         ss_entries = [], ss_evaluated = [] \<rparr>"
  have "state_start_dir ''/'' ?st ''/r/x.md'' = ''/r''" by code_simp
  with state_chain_is_walk [of "\<lambda>p. Inr (map_of [(''/r/.stem'', zero_stem)] p)" ?st "''/''" "''/r/x.md''"]
  show ?thesis by simp
qed

text \<open>An overlay is local: the prospective state parses the new content at its own path only,
  clears a parse error there, keeps every other file and error as they were, and marks the path for
  evaluation.\<close>

theorem overlay_local:
  assumes "overlay yaml cwd st path content = Inr st'"
  shows "\<exists>s. parse_stem_content yaml (path_clean (path_abs cwd path)) content = Inr s \<and>
     map_of (ss_stems st') = (map_of (ss_stems st))(path_clean (path_abs cwd path) \<mapsto> s) \<and>
     map_of (ss_parse_errors st') =
       (map_of (ss_parse_errors st))(path_clean (path_abs cwd path) := None) \<and>
     path_clean (path_abs cwd path) \<in> set (evaluated_stem_paths st')"
proof -
  define fpath where "fpath = path_clean (path_abs cwd path)"
  obtain s where s: "parse_stem_content yaml fpath content = Inr s"
    using assms by (auto simp: overlay_def Let_def fpath_def split: sum.splits)
  define st1 where "st1 = st\<lparr> ss_stems := AList.update fpath s (ss_stems st),
                 ss_parse_errors := AList.delete fpath (ss_parse_errors st),
                 ss_entries := AList.update (path_dir fpath) \<lparr> en_is_dir = True, en_ignored = False \<rparr>
                   (AList.update fpath \<lparr> en_is_dir = False, en_ignored = False \<rparr> (ss_entries st)),
                 ss_evaluated := AList.update fpath True (ss_evaluated st) \<rparr>"
  have st': "st' = mark_loop st1 (path_dir fpath)"
    using assms s by (simp add: overlay_def Let_def fpath_def st1_def)
  note frame = mark_loop_frame [of st1 "path_dir fpath"]
  have "map_of (ss_evaluated st') fpath = Some True"
    using frame by (simp add: st' st1_def update_conv')
  then have "(fpath, True) \<in> set (ss_evaluated st')" by (rule map_of_SomeD)
  moreover have "path_clean fpath = fpath" by (simp add: fpath_def path_clean_idem)
  ultimately have "fpath \<in> (\<lambda>p. path_clean (fst p)) ` set (filter snd (ss_evaluated st'))"
    by (force intro: rev_image_eqI)
  then have "fpath \<in> set (evaluated_stem_paths st')"
    by (simp add: evaluated_stem_paths_def)
  moreover have "map_of (ss_stems st') = (map_of (ss_stems st))(fpath \<mapsto> s)"
    "map_of (ss_parse_errors st') = (map_of (ss_parse_errors st))(fpath := None)"
    using frame by (simp_all add: st' st1_def update_conv' delete_conv')
  ultimately show ?thesis using s by (simp add: fpath_def)
qed

theorem overlay_local_witness:
  "\<exists>st'. overlay sample_yaml ''/r''
       \<lparr> ss_root = ''/r'', ss_stems = [], ss_parse_errors = [(''/r/.stem'', NoSchemaFound)],
         ss_entries = [], ss_evaluated = [] \<rparr> ''.stem'' ''x'' = Inr st' \<and>
     map_of (ss_parse_errors st') ''/r/.stem'' = None"
proof -
  let ?st = "\<lparr> ss_root = ''/r'', ss_stems = [], ss_parse_errors = [(''/r/.stem'', NoSchemaFound)],
         ss_entries = [], ss_evaluated = [] \<rparr>"
  define r where "r = overlay sample_yaml ''/r'' ?st ''.stem'' ''x''"
  have "isl r = False" unfolding r_def by code_simp
  then obtain st' where r: "overlay sample_yaml ''/r'' ?st ''.stem'' ''x'' = Inr st'"
    by (cases r) (auto simp: r_def)
  have "path_clean (path_abs ''/r'' ''.stem'') = ''/r/.stem''" by code_simp
  with overlay_local [OF r] r show ?thesis by auto
qed

text \<open>Directory containment is decided on path components: for absolute paths a directory counts as
  at or below another exactly when the other's components are a prefix of its own, so
  \<open>/home/user2\<close> is never inside \<open>/home/user\<close>.\<close>

theorem containment_is_component_prefix:
  assumes "is_abs dir" "is_abs root"
  shows "is_at_or_below dir root \<longleftrightarrow>
     (\<exists>cs. clean_comps True (path_comps dir) = clean_comps True (path_comps root) @ cs)"
  using assms by (rule is_at_or_below_iff)

theorem containment_is_component_prefix_witness:
  "\<not> is_at_or_below ''/home/user2'' ''/home/user''"
proof -
  have "is_abs ''/home/user2''" "is_abs ''/home/user''"
    "clean_comps True (path_comps ''/home/user2'') = [''home'', ''user2'']"
    "clean_comps True (path_comps ''/home/user'') = [''home'', ''user'']" by code_simp+
  with containment_is_component_prefix [of "''/home/user2''" "''/home/user''"] show ?thesis by simp
qed

lemma str_contains_mid [simp]: "str_contains (a @ sub @ b) sub"
  by (auto simp: str_contains_iff)

lemma marker_inserted:
  assumes "content = a @ b" "new = a @ marker @ [CHR 0x0A] @ b" "a = [] \<or> last a = CHR 0x0A"
    "str_contains new marker"
  shows "apply_root_marker new = None \<and>
     ((\<exists>a b. content = a @ b \<and> new = a @ marker @ [CHR 0x0A] @ b \<and>
         (a = [] \<or> last a = CHR 0x0A)) \<or>
      new = content @ [CHR 0x0A] @ marker)"
proof -
  have "apply_root_marker new = None" using assms(4) by (simp add: apply_root_marker_def)
  with assms(1-3) show ?thesis by blast
qed

text \<open>Adding the boundary marker is idempotent and preserves the file: after it the content holds
  the marker, a second run writes nothing, and what was written is the old content with a line
  inserted at the start of a line, or appended on a line of its own.\<close>

theorem apply_root_marker_inserts_line:
  assumes "apply_root_marker content = Some new"
  shows "apply_root_marker new = None \<and>
     ((\<exists>a b. content = a @ b \<and> new = a @ marker @ [CHR 0x0A] @ b \<and>
         (a = [] \<or> last a = CHR 0x0A)) \<or>
      new = content @ [CHR 0x0A] @ marker)"
proof (cases "index_of content ''version:''")
  case None
  with assms have "new = marker @ [CHR 0x0A] @ content"
    by (simp add: apply_root_marker_def split: if_splits)
  moreover have "str_contains (marker @ [CHR 0x0A] @ content) marker"
    using str_contains_mid [of "[]" marker "[CHR 0x0A] @ content"] by simp
  ultimately show ?thesis by (intro marker_inserted [of content "[]" content]) simp_all
next
  case (Some v)
  show ?thesis
  proof (cases "index_of (drop v content) [CHR 0x0A]")
    case None
    with Some assms have "new = content @ [CHR 0x0A] @ marker"
      by (simp add: apply_root_marker_def split: if_splits)
    moreover have "str_contains (content @ [CHR 0x0A] @ marker) marker"
      using str_contains_mid [of "content @ [CHR 0x0A]" marker "[]"] by simp
    ultimately show ?thesis by (simp add: apply_root_marker_def)
  next
    case nl: (Some nl)
    let ?k = "v + nl + 1"
    from Some nl assms have new: "new = take ?k content @ marker @ [CHR 0x0A] @ drop ?k content"
      by (simp add: apply_root_marker_def split: if_splits)
    have "drop v content = take nl (drop v content) @ [CHR 0x0A] @ drop (nl + 1) (drop v content)"
      using index_of_SomeD [OF nl] by simp
    moreover have "nl < length (drop v content)" using index_of_le [OF nl] by simp
    ultimately have "drop v content ! nl = CHR 0x0A"
      by (metis append_Cons length_take min.absorb4 nth_append_length)
    then have "last (take ?k content) = CHR 0x0A"
      using \<open>nl < length (drop v content)\<close> by (simp add: take_Suc_conv_app_nth)
    moreover have "str_contains new marker"
      unfolding new by (rule str_contains_mid)
    ultimately show ?thesis
      by (intro marker_inserted [of content "take ?k content" "drop ?k content" new])
        (simp_all add: new del: append.simps)
  qed
qed

theorem apply_root_marker_inserts_line_witness:
  "apply_root_marker ''version: 2'' \<noteq> None \<and>
   apply_root_marker (the (apply_root_marker ''version: 2'')) = None"
proof -
  have "apply_root_marker ''version: 2'' \<noteq> None" by code_simp
  with apply_root_marker_inserts_line [of "''version: 2''"] show ?thesis by auto
qed

text \<open>The presence test is textual: a comment mentioning the marker counts as the marker.\<close>

lemma marker_in_comment_is_enough:
  "apply_root_marker (''version: 2'' @ CHR 0x0A # ''# root: true is not set yet'') = None"
  by code_simp

text \<open>An ignore file in the file system's root directory covers nothing below it.\<close>

lemma root_ignore_covers_nothing:
  "\<not> stem_is_ignored ''/x.md'' [(''/'', [''*.md''])]"
  by code_simp

end
