(* ===== verification/Type_Contract.thy ===== *)
theory Type_Contract
  imports Body_Sections Schema_Merge
begin

text \<open>
  The contract between a field declaration and a value: \<open>internal/rules/sequence_config.go\<close>,
  \<open>type_contract.go\<close> and the sequence numbering of \<open>describe.go\<close>.
  An issue is a record of its code, the expected and the actual representation, and its message.
\<close>

section \<open>Sequence configuration\<close>

record seq_error =
  sq_actual :: string
  sq_detail :: string

definition seq_error_text :: "seq_error \<Rightarrow> string" where
  "seq_error_text e = (if sq_detail e = [] then sq_actual e else sq_detail e)"

text \<open>
  \<open>strictConfigDigits\<close>: an integer that fits Go's \<open>int\<close>. YAML decodes to \<open>int\<close>, \<open>int64\<close> or, above
  the signed range, \<open>uint64\<close>.
\<close>

definition max_int :: int where "max_int = 2 ^ 63 - 1"

definition strict_config_digits :: "val \<Rightarrow> int option" where
  "strict_config_digits v =
     (case v of VInt i \<Rightarrow> (if i > max_int then None else Some i) | _ \<Rightarrow> None)"

definition unknown_config_keys :: "vmap \<Rightarrow> string list" where
  "unknown_config_keys config =
     filter (\<lambda>k. k \<noteq> ''prefix'' \<and> k \<noteq> ''digits'') (sorted_keys config)"

definition incomplete_config :: "string \<Rightarrow> seq_error" where
  "incomplete_config detail = \<lparr> sq_actual = ''incomplete sequence config'', sq_detail = detail \<rparr>"

definition config_prefix :: "schema_field \<Rightarrow> vmap \<Rightarrow> seq_error + schema_field" where
  "config_prefix field config =
     (case map_of config ''prefix'' of
        None \<Rightarrow> Inr field
      | Some v \<Rightarrow>
          (case v of
             VStr p \<Rightarrow>
               if p = [] then Inl (incomplete_config ''prefix must be a non-empty string'')
               else Inr (field\<lparr> sf_prefix := p \<rparr>)
           | _ \<Rightarrow> Inl (incomplete_config ''prefix must be a non-empty string'')))"

definition config_digits :: "schema_field \<Rightarrow> vmap \<Rightarrow> seq_error + schema_field" where
  "config_digits field config =
     (case map_of config ''digits'' of
        None \<Rightarrow> Inr field
      | Some v \<Rightarrow>
          (case strict_config_digits v of
             None \<Rightarrow> Inl (incomplete_config ''digits must be a positive integer'')
           | Some d \<Rightarrow>
               if d \<le> 0 then Inl (incomplete_config ''digits must be a positive integer'')
               else Inr (field\<lparr> sf_digits := d \<rparr>)))"

definition apply_sequence_config :: "schema_field \<Rightarrow> vmap \<Rightarrow> seq_error + schema_field" where
  "apply_sequence_config field config =
     (if unknown_config_keys config \<noteq> [] then
        Inl \<lparr> sq_actual = ''unsupported sequence config'',
          sq_detail = ''unsupported sequence config key(s): '' @
            join_with '', '' (unknown_config_keys config) \<rparr>
      else
        case config_prefix field config of
          Inl e \<Rightarrow> Inl e
        | Inr f1 \<Rightarrow>
            (case config_digits f1 config of
               Inl e \<Rightarrow> Inl e
             | Inr resolved \<Rightarrow>
                 if sf_prefix resolved = [] then
                   Inl (incomplete_config ''prefix must be effective and non-empty'')
                 else if sf_digits resolved \<le> 0 then
                   Inl (incomplete_config ''digits must be effective and positive'')
                 else Inr resolved))"

lemma config_prefix_InrD:
  assumes "config_prefix f c = Inr g" shows "\<exists>p. g = f\<lparr> sf_prefix := p \<rparr>"
proof -
  have "g = f \<or> (\<exists>p. g = f\<lparr> sf_prefix := p \<rparr>)"
    using assms by (auto simp: config_prefix_def split: option.splits val.splits if_splits)
  moreover have "f = f\<lparr> sf_prefix := sf_prefix f \<rparr>" by simp
  ultimately show ?thesis by blast
qed

lemma config_digits_InrD:
  assumes "config_digits f c = Inr g" shows "\<exists>d. g = f\<lparr> sf_digits := d \<rparr>"
proof -
  have "g = f \<or> (\<exists>d. g = f\<lparr> sf_digits := d \<rparr>)"
    using assms by (auto simp: config_digits_def split: option.splits if_splits)
  moreover have "f = f\<lparr> sf_digits := sf_digits f \<rparr>" by simp
  ultimately show ?thesis by blast
qed

text \<open>A resolved sequence keeps every other attribute and is usable: a prefix and a positive width.\<close>

lemma apply_sequence_config_ok:
  assumes "apply_sequence_config field config = Inr resolved"
  shows "sf_prefix resolved \<noteq> []" "0 < sf_digits resolved"
    "resolved\<lparr> sf_prefix := p, sf_digits := d \<rparr> = field\<lparr> sf_prefix := p, sf_digits := d \<rparr>"
  using assms
  by (auto simp: apply_sequence_config_def split: if_splits sum.splits
      dest!: config_prefix_InrD config_digits_InrD)

section \<open>Declarations\<close>

record contract_issue =
  is_code :: string
  is_expected :: string
  is_actual :: string
  is_message :: string

definition mk_issue :: "string \<Rightarrow> string \<Rightarrow> string \<Rightarrow> string \<Rightarrow> contract_issue" where
  "mk_issue code expected actual message =
     \<lparr> is_code = code, is_expected = expected, is_actual = actual, is_message = message \<rparr>"

definition supported_types :: "string list" where
  "supported_types =
     [''string'', ''list'', ''enum'', ''sequence'', ''link'', ''boolean'', ''integer'']"

definition is_supported_field_type :: "string \<Rightarrow> bool" where
  "is_supported_field_type ty = (ty \<in> set supported_types)"

definition sources_text :: "string \<Rightarrow> string" where
  "sources_text src = ''type: string'' @ LF # ''source: '' @ src"

definition legacy_section_issue :: "string \<Rightarrow> schema_field \<Rightarrow> contract_issue" where
  "legacy_section_issue name field =
     (let target =
        (if sf_heading field \<noteq> [] then
           (case canonical_section_source (sf_heading field) of
              Inr src \<Rightarrow> sources_text src
            | Inl _ \<Rightarrow> sources_text (''body.section['' @ CHR 0x22 # ''<exact heading>'' @ CHR 0x22 # '']''))
         else sources_text (''body.section['' @ CHR 0x22 # ''<exact heading>'' @ CHR 0x22 # '']''))
      in mk_issue ''legacy-type'' ''canonical source'' ''section metadata''
        (''field '' @ go_quote name @ '' uses legacy section/heading metadata; migrate to:'' @
          LF # target))"

definition legacy_ordered_issue :: "string \<Rightarrow> schema_field \<Rightarrow> contract_issue" where
  "legacy_ordered_issue name field =
     (case (if sf_heading field \<noteq> [] then canonical_section_source (sf_heading field)
            else Inl NoSchemaFound) of
        Inr src \<Rightarrow> mk_issue ''legacy-type'' ''canonical source'' ''ordered''
          (''field '' @ go_quote name @
           '' uses legacy ordered section metadata with a heading; migrate to:'' @
           LF # sources_text src)
      | Inl _ \<Rightarrow> mk_issue ''legacy-type'' ''canonical source'' ''ordered''
          (''field '' @ go_quote name @ '' uses legacy ordered section metadata; '' @
           ''name the source explicitly with a canonical source directive''))"

definition incomplete_sequence_issue :: "string \<Rightarrow> string \<Rightarrow> contract_issue" where
  "incomplete_sequence_issue name actual =
     mk_issue ''incomplete-type'' ''prefix and positive digits'' actual
       (''sequence field '' @ go_quote name @ '' must declare prefix and positive digits'')"

definition incomplete_sequence_config_issue :: "string \<Rightarrow> string \<Rightarrow> seq_error \<Rightarrow> contract_issue" where
  "incomplete_sequence_config_issue name pattern e =
     mk_issue ''incomplete-type'' ''prefix and positive digits'' (sq_actual e)
       (''sequence field '' @ go_quote name @ '' must declare prefix and positive digits: match '' @
        go_quote pattern @ '': '' @ sq_detail e)"

fun sequence_configs_issue :: "string \<Rightarrow> schema_field \<Rightarrow> vmap \<Rightarrow> string list \<Rightarrow> contract_issue option" where
  "sequence_configs_issue name field configs [] = None"
| "sequence_configs_issue name field configs (pattern # ps) =
     (case map_of configs pattern of
        Some (VMap config) \<Rightarrow>
          (case apply_sequence_config field config of
             Inl e \<Rightarrow> Some (incomplete_sequence_config_issue name pattern e)
           | Inr _ \<Rightarrow> sequence_configs_issue name field configs ps)
      | _ \<Rightarrow> Some (incomplete_sequence_issue name ''malformed sequence config''))"

definition validate_sequence_declaration :: "string \<Rightarrow> schema_field \<Rightarrow> contract_issue option" where
  "validate_sequence_declaration name field =
     (case sf_match field of
        Some fm \<Rightarrow>
          (case fm_configs fm of
             Some (c # cs) \<Rightarrow> sequence_configs_issue name field (c # cs) (sorted_keys (c # cs))
           | _ \<Rightarrow> if sf_prefix field = [] \<or> sf_digits field \<le> 0
                  then Some (incomplete_sequence_issue name ''incomplete sequence'') else None)
      | None \<Rightarrow> if sf_prefix field = [] \<or> sf_digits field \<le> 0
                then Some (incomplete_sequence_issue name ''incomplete sequence'') else None)"

definition validate_field_declaration :: "string \<Rightarrow> schema_field \<Rightarrow> contract_issue list" where
  "validate_field_declaration name field =
     (let d = sf_decl field in
      if sf_type field = ''bool'' then
        [mk_issue ''legacy-type'' ''boolean'' ''bool''
           (''field '' @ go_quote name @ '' uses legacy type '' @ go_quote (sf_type field) @
            ''; migrate to:'' @ LF # ''type: boolean'')]
      else if ordered_present d \<or> sf_ordered field \<noteq> None then [legacy_ordered_issue name field]
      else if sf_type field = ''section'' then [legacy_section_issue name field]
      else if heading_present d \<or> sf_heading field \<noteq> [] then [legacy_section_issue name field]
      else if sf_type field = [] then
        [mk_issue ''incomplete-type'' ''supported field type''
           (if type_null d then ''null'' else if type_present d then ''empty'' else ''omitted'')
           (''field '' @ go_quote name @ '' must declare one supported type'')]
      else if \<not> is_supported_field_type (sf_type field) then
        [mk_issue ''unknown-type'' ''string, list, enum, sequence, link, boolean, integer''
           (sf_type field)
           (''field '' @ go_quote name @ '' declares unsupported type '' @ go_quote (sf_type field))]
      else if sf_type field = ''enum'' \<and> sf_values field = [] then
        [mk_issue ''incomplete-type'' ''one or more values'' ''empty values''
           (''enum field '' @ go_quote name @ '' must declare at least one value'')]
      else
        (case (if sf_type field = ''sequence'' then validate_sequence_declaration name field
               else None) of
           Some i \<Rightarrow> [i]
         | None \<Rightarrow>
             if sf_extract field \<noteq> [] then
               (case parse_body_source (sf_extract field) of
                  Inl e \<Rightarrow> [mk_issue ''unsupported-source'' ''body.h1 or body.section[...]''
                    (sf_extract field)
                    (''field '' @ go_quote name @ '' has unsupported source: '' @ error_text e)]
                | Inr _ \<Rightarrow> [])
             else []))"

section \<open>Values\<close>

definition representation_name :: "val \<Rightarrow> string" where
  "representation_name v =
     (case v of
        VNull \<Rightarrow> ''null'' | VStr _ \<Rightarrow> ''string'' | VBool _ \<Rightarrow> ''boolean'' | VInt _ \<Rightarrow> ''integer''
      | VFloat _ \<Rightarrow> ''number'' | VTime _ \<Rightarrow> ''timestamp'' | VList _ \<Rightarrow> ''sequence''
      | VMap _ \<Rightarrow> ''mapping'')"

definition expected_representation :: "string \<Rightarrow> string" where
  "expected_representation ty =
     (if ty = ''list'' then ''sequence'' else if ty = ''link'' then ''string or sequence''
      else if ty = ''boolean'' then ''boolean'' else if ty = ''integer'' then ''integer''
      else ''string'')"

definition representation_ok :: "string \<Rightarrow> string \<Rightarrow> bool option" where
  "representation_ok ty actual =
     (if ty = ''string'' \<or> ty = ''enum'' \<or> ty = ''sequence'' then Some (actual = ''string'')
      else if ty = ''list'' then Some (actual = ''sequence'')
      else if ty = ''link'' then Some (actual = ''string'' \<or> actual = ''sequence'')
      else if ty = ''boolean'' then Some (actual = ''boolean'')
      else if ty = ''integer'' then Some (actual = ''integer'')
      else None)"

definition validate_representation :: "string \<Rightarrow> val \<Rightarrow> contract_issue option" where
  "validate_representation ty v =
     (case representation_ok ty (representation_name v) of
        Some False \<Rightarrow> Some (mk_issue ''type-mismatch'' (expected_representation ty)
          (representation_name v)
          (''expected '' @ expected_representation ty @ '', got '' @ representation_name v))
      | _ \<Rightarrow> None)"

definition enum_contains :: "string list \<Rightarrow> val \<Rightarrow> bool" where
  "enum_contains values v = (fmt_v v \<in> set values)"

definition decimal_digits :: "string \<Rightarrow> int \<Rightarrow> bool" where
  "decimal_digits s want = (int (length s) = want \<and> (\<forall>c \<in> set s. is_digit c))"

definition link_value_ok :: "val \<Rightarrow> bool" where
  "link_value_ok v =
     (case v of
        VStr s \<Rightarrow> contains_wikilink s
      | VList xs \<Rightarrow> (\<forall>x \<in> set xs. case x of VStr s \<Rightarrow> contains_wikilink s | _ \<Rightarrow> False)
      | _ \<Rightarrow> False)"

definition val_string :: "val \<Rightarrow> string" where
  "val_string v = (case v of VStr s \<Rightarrow> s | _ \<Rightarrow> [])"

definition validate_type_semantics :: "schema_field \<Rightarrow> val \<Rightarrow> contract_issue option" where
  "validate_type_semantics field v =
     (if sf_type field = ''enum'' then
        if sf_values field = [] then
          Some (mk_issue ''incomplete-type'' ''one or more values'' ''empty values''
            ''enum has no declared values'')
        else if \<not> enum_contains (sf_values field) v then
          Some (mk_issue ''invalid-enum'' (join_with '', '' (sf_values field)) (fmt_v v)
            (''value '' @ fmt_v v @ '' is not in allowed values''))
        else None
      else if sf_type field = ''sequence'' then
        (let s = val_string v in
         if sf_prefix field = [] \<or> sf_digits field \<le> 0 then
           Some (mk_issue ''incomplete-type'' ''prefix and positive digits''
             ''incomplete sequence'' ''sequence requires prefix and positive digits'')
         else if \<not> has_prefix s (sf_prefix field) \<or>
           \<not> decimal_digits (drop (length (sf_prefix field)) s) (sf_digits field) then
           Some (mk_issue ''invalid-sequence''
             (sf_prefix field @ '' plus '' @ itoa (sf_digits field) @ '' digits'') s
             ''sequence value does not match declared format'')
         else None)
      else if sf_type field = ''link'' then
        if \<not> link_value_ok v then
          Some (mk_issue ''invalid-link'' ''wiki-link syntax'' (fmt_v v)
            ''link value must contain wiki-link syntax [[target]]'')
        else None
      else None)"

definition validate_field_value :: "schema_field \<Rightarrow> val \<Rightarrow> contract_issue option" where
  "validate_field_value field v =
     (case validate_representation (sf_type field) v of
        Some i \<Rightarrow> Some i
      | None \<Rightarrow> validate_type_semantics field v)"

section \<open>Numbering sequences\<close>

text \<open>The number after the prefix of an entry name, when \<open>strconv.Atoi\<close> can hold it.\<close>

definition entry_number :: "string \<Rightarrow> string \<Rightarrow> int option" where
  "entry_number prefix name =
     (if has_prefix name prefix then
        let ds = takeWhile is_digit (drop (length prefix) name) in
        if ds = [] \<or> int (nat_of_digits ds 0) > max_int then None
        else Some (int (nat_of_digits ds 0))
      else None)"

definition max_number :: "string \<Rightarrow> string list \<Rightarrow> int" where
  "max_number prefix names =
     foldl (\<lambda>m name. case entry_number prefix name of
              None \<Rightarrow> m | Some n \<Rightarrow> if n > m then n else m) 0 names"

text \<open>Go's \<open>int\<close> addition of one, wrapping at 64 bits.\<close>

definition succ_int :: "int \<Rightarrow> int" where
  "succ_int i = (if i = max_int then - (2 ^ 63) else i + 1)"

definition fmt_padded :: "int \<Rightarrow> int \<Rightarrow> string" where
  "fmt_padded width i =
     (if i < 0 then CHR ''-'' # pad_zero (nat (width - 1)) (nat (- i))
      else pad_zero (nat width) (nat i))"

text \<open>The directory listing is a parameter; \<open>None\<close> is a directory that cannot be read.\<close>

definition compute_next_from_prefix :: "string list option \<Rightarrow> string \<Rightarrow> int \<Rightarrow> string" where
  "compute_next_from_prefix listing prefix digits =
     (case listing of
        None \<Rightarrow> prefix @ fmt_padded digits 1
      | Some names \<Rightarrow> prefix @ fmt_padded digits (succ_int (max_number prefix names)))"

definition bad_config :: "string \<Rightarrow> string \<Rightarrow> string \<Rightarrow> go_error" where
  "bad_config name pattern detail =
     Wrapped (''invalid match config for field '' @ go_quote name @ '' pattern '' @ go_quote pattern)
       (Err detail)"

fun next_for_patterns :: "string list \<Rightarrow> string \<Rightarrow> schema_field \<Rightarrow> vmap \<Rightarrow> string list \<Rightarrow>
    go_error + string" where
  "next_for_patterns names fname field configs [] = Inr []"
| "next_for_patterns names fname field configs (p # ps) =
     (case map_of configs p of
        Some (VMap config) \<Rightarrow>
          (case apply_sequence_config field config of
             Inl e \<Rightarrow> Inl (bad_config fname p (seq_error_text e))
           | Inr r \<Rightarrow>
               if \<exists>n \<in> set names. glob_matches p n then
                 Inr (compute_next_from_prefix (Some names) (sf_prefix r) (sf_digits r))
               else next_for_patterns names fname field configs ps)
      | _ \<Rightarrow> Inl (bad_config fname p ''config must be a map''))"

definition compute_next_sequence ::
  "string list option \<Rightarrow> string \<Rightarrow> schema_field \<Rightarrow> go_error + string" where
  "compute_next_sequence listing fname field =
     (if sf_prefix field \<noteq> [] \<and> sf_digits field > 0 then
        Inr (compute_next_from_prefix listing (sf_prefix field) (sf_digits field))
      else
        case Option.bind (sf_match field) fm_configs of
          None \<Rightarrow> Inr []
        | Some configs \<Rightarrow>
            (case listing of
               None \<Rightarrow> Inr []
             | Some names \<Rightarrow> next_for_patterns names fname field configs (sorted_keys configs)))"

definition compute_all_next_sequences ::
  "string list option \<Rightarrow> string \<Rightarrow> schema_field \<Rightarrow> go_error + (string \<times> string) list" where
  "compute_all_next_sequences listing fname field =
     (case Option.bind (sf_match field) fm_configs of
        None \<Rightarrow> Inr []
      | Some configs \<Rightarrow>
          try_map (\<lambda>p. case map_of configs p of
              Some (VMap config) \<Rightarrow>
                (case apply_sequence_config field config of
                   Inl e \<Rightarrow> Inl (bad_config fname p (seq_error_text e))
                 | Inr r \<Rightarrow> Inr (p, compute_next_from_prefix listing (sf_prefix r) (sf_digits r)))
            | _ \<Rightarrow> Inl (bad_config fname p ''config must be a map''))
            (sorted_keys configs))"

section \<open>Lemmas\<close>

lemma max_number_bounds:
  assumes "name \<in> set names" "entry_number prefix name = Some n"
  shows "n \<le> max_number prefix names"
proof -
  define f where "f = (\<lambda>m name. case entry_number prefix name of
              None \<Rightarrow> m | Some n \<Rightarrow> if n > m then n else m)"
  have ge: "m \<le> foldl f m xs" for m :: int and xs
  proof (induction xs arbitrary: m)
    case (Cons a xs)
    have "m \<le> f m a" by (auto simp: f_def split: option.split)
    also have "\<dots> \<le> foldl f (f m a) xs" by (rule Cons.IH)
    finally show ?case by simp
  qed simp
  have "n \<le> foldl f m names" for m using assms(1)
  proof (induction names arbitrary: m)
    case (Cons x xs)
    show ?case
    proof (cases "x = name")
      case True
      with assms(2) have "n \<le> f m x" by (simp add: f_def)
      with ge [of "f m x" xs] show ?thesis by simp
    qed (use Cons in auto)
  qed simp
  then show ?thesis by (simp add: max_number_def f_def [symmetric])
qed

lemma max_number_nonneg: "0 \<le> max_number prefix names"
proof -
  have "0 \<le> m \<Longrightarrow> 0 \<le> foldl (\<lambda>m name. case entry_number prefix name of
              None \<Rightarrow> m | Some n \<Rightarrow> if n > m then n else m) m xs" for m :: int and xs
    by (induction xs arbitrary: m) (auto split: option.split)
  then show ?thesis by (simp add: max_number_def)
qed

lemma entry_number_pad:
  assumes "0 \<le> i" "i \<le> max_int"
  shows "entry_number prefix (prefix @ fmt_padded w i) = Some i"
proof -
  let ?ds = "pad_zero (nat w) (nat i)"
  have tw: "takeWhile is_digit ?ds = ?ds"
    by (simp add: takeWhile_eq_all_conv pad_zero_is_digit)
  have ne: "?ds \<noteq> []" by (simp add: pad_zero_def Let_def)
  show ?thesis
    using assms by (simp add: entry_number_def fmt_padded_def nat_of_digits_pad_zero tw ne Let_def)
qed

lemma supported_semantics:
  "sf_type f = ''list'' \<or> sf_type f = ''string'' \<or> sf_type f = ''boolean'' \<or> sf_type f = ''integer'' \<Longrightarrow>
     validate_type_semantics f v = None"
  by (auto simp: validate_type_semantics_def)

lemma validate_field_value_enum:
  assumes "sf_type f = ''enum''"
  shows "validate_field_value f v = None \<longleftrightarrow> (\<exists>s. v = VStr s \<and> s \<in> set (sf_values f))"
  using assms
  by (cases v)
    (auto simp: validate_field_value_def validate_representation_def representation_ok_def
      representation_name_def validate_type_semantics_def enum_contains_def)

lemma validate_field_value_string:
  "sf_type f = ''string'' \<Longrightarrow> validate_field_value f v = None \<longleftrightarrow> (\<exists>s. v = VStr s)"
  by (cases v)
    (auto simp: validate_field_value_def validate_representation_def representation_ok_def
      representation_name_def supported_semantics)

lemma validate_field_value_cong:
  assumes "sf_type f = sf_type g" "sf_type f \<notin> {''enum'', ''sequence''}"
  shows "validate_field_value f v = validate_field_value g v"
proof -
  have "validate_type_semantics f v = validate_type_semantics g v"
    using assms by (simp add: validate_type_semantics_def)
  with assms(1) show ?thesis by (simp only: validate_field_value_def)
qed

lemma merge_field_value_parts:
  "sf_type (merge_field (Some p) c) = sf_type c \<and> sf_values (merge_field (Some p) c) = sf_values c \<and>
   sf_prefix (merge_field (Some p) c) = sf_prefix c \<and> sf_digits (merge_field (Some p) c) = sf_digits c"
  by (auto simp: merge_field_def merge_field_severity_def merge_field_source_def
      split: option.split)

lemma accepted_enum_values:
  "validate_field_declaration name f = [] \<Longrightarrow> sf_type f = ''enum'' \<Longrightarrow> sf_values f \<noteq> []"
  by (auto simp: validate_field_declaration_def Let_def split: if_splits)

lemma accepted_type:
  "validate_field_declaration name f = [] \<Longrightarrow> is_supported_field_type (sf_type f)"
  by (auto simp: validate_field_declaration_def Let_def split: if_splits)

definition enum_declared :: "schema_field \<Rightarrow> bool" where
  "enum_declared f = (sf_type f = ''enum'' \<longrightarrow> sf_values f \<noteq> [])"

lemma accepted_enum_declared: "validate_field_declaration name f = [] \<Longrightarrow> enum_declared f"
  by (simp add: enum_declared_def accepted_enum_values)

lemma narrowing_step:
  assumes "check_field_compatibility p c = []" "enum_declared p" "enum_declared c"
    and "sf_type c \<noteq> ''sequence''"
    and "validate_field_value (merge_field (Some p) (tag_source src c)) v = None"
  shows "validate_field_value p v = None"
proof -
  let ?m = "merge_field (Some p) (tag_source src c)"
  have m: "sf_type ?m = sf_type c" "sf_values ?m = sf_values c"
    using merge_field_value_parts [of p "tag_source src c"] by (simp_all add: tag_source_def)
  from assms(1) have "sf_type p = sf_type c \<or> (sf_type p = ''string'' \<and> sf_type c = ''enum'')"
    by (auto simp: compatible_iff check_field_type_def split: if_splits)
  then show ?thesis
  proof
    assume t: "sf_type p = sf_type c"
    show ?thesis
    proof (cases "sf_type c = ''enum''")
      case True
      with t assms have "set (sf_values c) \<subseteq> set (sf_values p)"
        by (auto simp: compatible_iff check_field_values_def Let_def enum_declared_def
            split: if_splits)
      with True t m assms(5) show ?thesis
        using validate_field_value_enum [of ?m v] validate_field_value_enum [of p v] by auto
    next
      case False
      with t m assms(4,5) show ?thesis using validate_field_value_cong [of ?m p v] by simp
    qed
  next
    assume "sf_type p = ''string'' \<and> sf_type c = ''enum''"
    with m assms(5) show ?thesis
      using validate_field_value_enum [of ?m v] validate_field_value_string [of p v] by auto
  qed
qed

section \<open>Properties\<close>

text \<open>C6: Narrowing is sound: when both an inherited declaration and a child's pass the
  declaration check (a supported type, an enum with at least one value) and the compatibility check
  finds no issue between them, every value the merged declaration accepts is one the inherited
  declaration accepted, for every type but \<open>sequence\<close>. The declaration check is needed: an inherited enum
  without values is compatible with one that has some.\<close>

theorem narrowing_sound:
  assumes "check_field_compatibility p c = []"
    and "validate_field_declaration name p = []" "validate_field_declaration name c = []"
    and "sf_type c \<noteq> ''sequence''"
    and "validate_field_value (merge_field (Some p) (tag_source src c)) v = None"
  shows "validate_field_value p v = None"
  using narrowing_step [OF assms(1) _ _ assms(4,5)] assms(2,3) accepted_enum_declared by blast

definition narrow_parent :: schema_field where
  "narrow_parent = zero_field\<lparr> sf_type := ''enum'', sf_values := [''a'', ''b''] \<rparr>"

definition narrow_child :: schema_field where
  "narrow_child = zero_field\<lparr> sf_type := ''enum'', sf_values := [''b''] \<rparr>"

theorem narrowing_sound_witness:
  "validate_field_value (merge_field (Some narrow_parent) (tag_source ''/r/.stem'' narrow_child))
     (VStr ''b'') = None \<and> validate_field_value narrow_parent (VStr ''b'') = None"
proof -
  have "check_field_compatibility narrow_parent narrow_child = []"
    "validate_field_declaration ''estado'' narrow_parent = []"
    "validate_field_declaration ''estado'' narrow_child = []"
    "sf_type narrow_child \<noteq> ''sequence''"
    "validate_field_value (merge_field (Some narrow_parent) (tag_source ''/r/.stem'' narrow_child))
       (VStr ''b'') = None"
    by code_simp+
  from this(5) narrowing_sound [OF this] show ?thesis by simp
qed

text \<open>Without the declaration check the compatibility check alone does not narrow.\<close>

lemma undeclared_enum_is_widened:
  "check_field_compatibility (zero_field\<lparr> sf_type := ''enum'' \<rparr>) narrow_child = []"
  "validate_field_value (merge_field (Some (zero_field\<lparr> sf_type := ''enum'' \<rparr>))
     (tag_source ''/r/.stem'' narrow_child)) (VStr ''b'') = None"
  "validate_field_value (zero_field\<lparr> sf_type := ''enum'' \<rparr>) (VStr ''b'') \<noteq> None"
  by code_simp+

text \<open>For a sequence the check is silent about a changed prefix.\<close>

lemma sequence_prefix_change_unchecked:
  "check_field_compatibility (zero_field\<lparr> sf_type := ''sequence'', sf_prefix := ''T'', sf_digits := 3 \<rparr>)
     (zero_field\<lparr> sf_type := ''sequence'', sf_prefix := ''E'', sf_digits := 2 \<rparr>) = []"
  by code_simp

text \<open>C35: A new sequence value is fresh: its number is read back from the value exactly, and every
  numbered entry already in the directory has a smaller number, as long as no entry is numbered
  with the largest machine integer.\<close>

theorem next_sequence_fresh:
  assumes "max_number prefix names < max_int"
  shows "\<exists>n. entry_number prefix (compute_next_from_prefix (Some names) prefix digits) = Some n \<and>
     (\<forall>name \<in> set names. \<forall>k. entry_number prefix name = Some k \<longrightarrow> k < n)"
proof -
  let ?n = "max_number prefix names + 1"
  have "succ_int (max_number prefix names) = ?n" using assms by (simp add: succ_int_def)
  then have "entry_number prefix (compute_next_from_prefix (Some names) prefix digits) = Some ?n"
    using entry_number_pad [of ?n prefix digits] assms max_number_nonneg [of prefix names]
    by (simp add: compute_next_from_prefix_def)
  with max_number_bounds [of _ names prefix] show ?thesis by (fastforce intro: exI [of _ ?n])
qed

theorem next_sequence_fresh_witness:
  "\<exists>n. entry_number ''T'' (compute_next_from_prefix (Some [''T001-a.md'', ''T007'', ''README.md'']) ''T'' 3)
       = Some n \<and>
     (\<forall>name \<in> set [''T001-a.md'', ''T007'', ''README.md''].
        \<forall>k. entry_number ''T'' name = Some k \<longrightarrow> k < n)"
proof -
  have "max_number ''T'' [''T001-a.md'', ''T007'', ''README.md''] < max_int" by code_simp
  then show ?thesis by (rule next_sequence_fresh)
qed

end
