(* ===== verification/Resolution.thy ===== *)
theory Resolution
  imports Type_Contract Discovery
begin

text \<open>
  From a chain of \<open>.stem\<close> files to the schema of one record: the match filter of
  \<open>internal/rules/match.go\<close>, the resolver of \<open>resolver.go\<close> with its layered form, \<open>ResolveForRecord\<close>
  of \<open>hierarchy.go\<close>, and the describe result of \<open>describe.go\<close>.
\<close>

section \<open>The match filter\<close>

definition path_components :: "string \<Rightarrow> string list" where
  "path_components p = split_on (CHR ''/'') (path_clean p)"

definition matches_any :: "field_match \<Rightarrow> string list \<Rightarrow> bool" where
  "matches_any fm comps =
     ((\<exists>pat \<in> set (fm_patterns fm). \<exists>c \<in> set comps. glob_matches pat c) \<or>
      (case fm_configs fm of
         None \<Rightarrow> False
       | Some cfg \<Rightarrow> \<exists>pat \<in> set (sorted_keys cfg). \<exists>c \<in> set comps. glob_matches pat c))"

text \<open>\<open>matchConfig\<close>: components from the deepest up, patterns in sorted order.\<close>

fun match_config_loop ::
  "vmap \<Rightarrow> string list \<Rightarrow> string list \<Rightarrow> (string \<times> seq_error) + (string \<times> vmap) option" where
  "match_config_loop cfgs pats [] = Inr None"
| "match_config_loop cfgs pats (c # comps) =
     (case List.find (\<lambda>p. glob_matches p c) pats of
        None \<Rightarrow> match_config_loop cfgs pats comps
      | Some p \<Rightarrow>
          (case map_of cfgs p of
             Some (VMap m) \<Rightarrow> Inr (Some (p, m))
           | _ \<Rightarrow> Inl (p, \<lparr> sq_actual = ''malformed sequence config'',
                            sq_detail = ''config must be a map'' \<rparr>)))"

definition match_config ::
  "vmap \<Rightarrow> string list \<Rightarrow> (string \<times> seq_error) + (string \<times> vmap) option" where
  "match_config cfgs comps = match_config_loop cfgs (sorted_keys cfgs) (rev comps)"

definition apply_config :: "string \<Rightarrow> string \<Rightarrow> schema_field \<Rightarrow> vmap \<Rightarrow> go_error + schema_field" where
  "apply_config fname pattern field config =
     (if sf_type field = ''sequence'' then
        (case apply_sequence_config field config of
           Inl e \<Rightarrow> Inl (bad_config fname pattern (seq_error_text e))
         | Inr r \<Rightarrow> Inr r)
      else
        let f1 = (case map_of config ''prefix'' of Some (VStr s) \<Rightarrow> field\<lparr> sf_prefix := s \<rparr> | _ \<Rightarrow> field)
        in Inr (case map_of config ''digits'' of
                  None \<Rightarrow> f1
                | Some v \<Rightarrow> (case strict_config_digits v of
                              None \<Rightarrow> f1 | Some d \<Rightarrow> f1\<lparr> sf_digits := d \<rparr>)))"

definition scope_required :: "string list \<Rightarrow> schema_field \<Rightarrow> schema_field" where
  "scope_required comps field =
     (case sf_required_match field of
        None \<Rightarrow> field
      | Some rm \<Rightarrow> field\<lparr> sf_required := matches_any rm comps \<rparr>)"

text \<open>One field of the loop: \<open>None\<close> when the field does not apply to the path.\<close>

definition filter_field ::
  "string list \<Rightarrow> string \<Rightarrow> schema_field \<Rightarrow> go_error + schema_field option" where
  "filter_field comps name field =
     (case sf_match field of
        None \<Rightarrow> Inr (Some (scope_required comps field))
      | Some fm \<Rightarrow>
          (case fm_configs fm of
             Some cfgs \<Rightarrow>
               (case match_config cfgs comps of
                  Inl (p, e) \<Rightarrow> Inl (bad_config name p (seq_error_text e))
                | Inr None \<Rightarrow> Inr None
                | Inr (Some (p, m)) \<Rightarrow>
                    (case apply_config name p field m of
                       Inl e \<Rightarrow> Inl e
                     | Inr r \<Rightarrow> Inr (Some
                         (case sf_required_match field of
                            None \<Rightarrow> r
                          | Some rm \<Rightarrow> r\<lparr> sf_required := matches_any rm comps \<rparr>))))
           | None \<Rightarrow>
               if matches_any fm comps then Inr (Some (scope_required comps field)) else Inr None))"

definition tag_result :: "string \<Rightarrow> go_error + 'a option \<Rightarrow> go_error + (string \<times> 'a) option" where
  "tag_result name r =
     (case r of Inl e \<Rightarrow> Inl e | Inr o' \<Rightarrow> Inr (map_option (Pair name) o'))"

definition keep_some :: "'a option list \<Rightarrow> 'a list" where
  "keep_some rs = List.map_filter (\<lambda>r. r) rs"

lemma keep_some_simps [simp]:
  "keep_some [] = []" "keep_some (None # rs) = keep_some rs" "keep_some (Some x # rs) = x # keep_some rs"
  by (simp_all add: keep_some_def map_filter_simps)

definition filter_schema_by_match :: "schema \<Rightarrow> string \<Rightarrow> go_error + schema" where
  "filter_schema_by_match sch path =
     (let comps = path_components path in
      case try_map (\<lambda>name. case map_of sch name of
                None \<Rightarrow> Inr None
              | Some f \<Rightarrow> tag_result name (filter_field comps name f))
             (sorted_keys sch) of
        Inl e \<Rightarrow> Inl e
      | Inr rs \<Rightarrow> Inr (keep_some rs))"

section \<open>The resolver\<close>

record resolution =
  rs_path :: string
  rs_chain :: "stem_entry list"
  rs_schema :: schema
  rs_stem :: stem_file
  rs_provenance :: "(string \<times> string) list"

definition provenance_of :: "stem_entry list \<Rightarrow> (string \<times> string) list" where
  "provenance_of entries =
     foldl (\<lambda>prov e. foldl (\<lambda>p name. AList.update name (se_path e) p) prov
              (map fst (st_schema (se_stem e)))) [] entries"

definition resolve_from_entries :: "string \<Rightarrow> stem_entry list \<Rightarrow> go_error + resolution" where
  "resolve_from_entries path entries =
     (let merged = merge_stem_files entries in
      case (if st_schema merged = [] then Inr [] else filter_schema_by_match (st_schema merged) path) of
        Inl e \<Rightarrow> Inl e
      | Inr eff \<Rightarrow>
          Inr \<lparr> rs_path = path, rs_chain = entries, rs_schema = eff, rs_stem = merged,
                rs_provenance = provenance_of entries \<rparr>)"

definition absolute_resolver_path :: "string \<Rightarrow> string \<Rightarrow> string \<Rightarrow> string" where
  "absolute_resolver_path cwd path root =
     (if is_abs path then path else path_abs cwd (path_join root path))"

definition resolve ::
  "(string \<Rightarrow> string + stem_file) \<Rightarrow> filesys \<Rightarrow> string \<Rightarrow> string \<Rightarrow> go_error + resolution" where
  "resolve yaml fs path0 root =
     (let path = absolute_resolver_path (fs_cwd fs) path0 root in
      case walk_up yaml fs path of
        Inl e \<Rightarrow> Inl e
      | Inr entries \<Rightarrow> resolve_from_entries path entries)"

definition stem_chain ::
  "(string \<Rightarrow> string + stem_file) \<Rightarrow> filesys \<Rightarrow> string \<Rightarrow> string \<Rightarrow> go_error + stem_entry list" where
  "stem_chain yaml fs path root = walk_up yaml fs (absolute_resolver_path (fs_cwd fs) path root)"

definition effective_schema ::
  "(string \<Rightarrow> string + stem_file) \<Rightarrow> filesys \<Rightarrow> string \<Rightarrow> string \<Rightarrow> go_error + schema" where
  "effective_schema yaml fs path0 root =
     (let path = absolute_resolver_path (fs_cwd fs) path0 root in
      case walk_up yaml fs path of
        Inl e \<Rightarrow> Inl e
      | Inr entries \<Rightarrow>
          let merged = merge_stem_files entries in
          if st_schema merged = [] then Inr [] else filter_schema_by_match (st_schema merged) path)"

text \<open>\<open>ResolveForRecord\<close>: the merged file with its schema filtered for the record.\<close>

definition resolve_for_record ::
  "(string \<Rightarrow> string + stem_file) \<Rightarrow> filesys \<Rightarrow> string \<Rightarrow> string \<Rightarrow> go_error + stem_file" where
  "resolve_for_record yaml fs dir record_path =
     (case walk_up yaml fs dir of
        Inl e \<Rightarrow> Inl e
      | Inr entries \<Rightarrow>
          let merged = merge_stem_files entries in
          if st_schema merged = [] then Inr merged
          else
            (case filter_schema_by_match (st_schema merged) record_path of
               Inl e \<Rightarrow> Inl e
             | Inr eff \<Rightarrow> Inr (merged\<lparr> st_schema := eff \<rparr>)))"

definition closest_stem :: "resolution \<Rightarrow> stem_entry option" where
  "closest_stem r = (if rs_chain r = [] then None else Some (last (rs_chain r)))"

definition root_most_stem :: "resolution \<Rightarrow> stem_entry option" where
  "root_most_stem r = (if rs_chain r = [] then None else Some (hd (rs_chain r)))"

section \<open>Layers and conflicts\<close>

datatype layer_value = LType string | LBool bool | LMatch field_match | LStrings "string list"
  | LInt int | LVal val

record layer_constraint =
  ly_stem_path :: string
  ly_field :: string
  ly_value :: layer_value
  ly_operation :: string

definition mk_layer :: "string \<Rightarrow> string \<Rightarrow> layer_value \<Rightarrow> string \<Rightarrow> layer_constraint" where
  "mk_layer path field v op =
     \<lparr> ly_stem_path = path, ly_field = field, ly_value = v, ly_operation = op \<rparr>"

definition field_layers :: "string \<Rightarrow> string \<Rightarrow> schema_field \<Rightarrow> layer_constraint list" where
  "field_layers path name f =
     [mk_layer path (name @ ''.type'') (LType (sf_type f)) ''define''] @
     (if sf_required f \<or> sf_required_match f \<noteq> None then
        [mk_layer path (name @ ''.required'')
           (case sf_required_match f of None \<Rightarrow> LBool (sf_required f) | Some rm \<Rightarrow> LMatch rm) ''define'']
      else []) @
     (if sf_values f \<noteq> [] then [mk_layer path (name @ ''.values'') (LStrings (sf_values f)) ''define'']
      else []) @
     (if sf_severity f \<noteq> [] then [mk_layer path (name @ ''.severity'') (LType (sf_severity f)) ''define'']
      else [])"

definition layers_of_entry :: "stem_entry \<Rightarrow> layer_constraint list" where
  "layers_of_entry e =
     concat (map (\<lambda>name. case map_of (st_schema (se_stem e)) name of
                    None \<Rightarrow> [] | Some f \<Rightarrow> field_layers (se_path e) name f)
       (sorted_keys (st_schema (se_stem e))))"

definition issue_layer :: "string \<Rightarrow> string \<Rightarrow> compat_issue \<Rightarrow> layer_constraint" where
  "issue_layer path name i =
     mk_layer path (name @ ''.'' @ ci_constraint i)
       (LVal (if ci_constraint i = ''source'' then VStr (ci_message i) else ci_value i))
       (if ci_constraint i = ''values'' \<and> ci_operation i = ''extension'' then ''extension''
        else ''conflict'')"

definition monotonic_conflicts :: "stem_file \<Rightarrow> stem_file \<Rightarrow> string \<Rightarrow> layer_constraint list" where
  "monotonic_conflicts parent child path =
     concat (map (\<lambda>name.
       case (map_of (st_schema child) name, map_of (st_schema parent) name) of
         (Some c, Some p) \<Rightarrow> map (issue_layer path name) (check_field_compatibility p c)
       | _ \<Rightarrow> []) (sorted_keys (st_schema child)))"

definition structural_conflicts :: "stem_file \<Rightarrow> stem_file \<Rightarrow> string \<Rightarrow> layer_constraint list" where
  "structural_conflicts parent child path =
     (let p = st_subdirs parent; c = st_subdirs child in
      (if sd_min_children p > 0 \<and> sd_min_children c > 0 \<and> sd_min_children c < sd_min_children p
       then [mk_layer path ''structural.subdirs.min_children'' (LInt (sd_min_children c)) ''conflict'']
       else []) @
      (if sd_max_children p > 0 \<and> sd_max_children c > 0 \<and> sd_max_children c > sd_max_children p
       then [mk_layer path ''structural.subdirs.max_children'' (LInt (sd_max_children c)) ''conflict'']
       else []))"

text \<open>Every entry after the first against the merge of the ones before it.\<close>

fun chain_conflicts :: "stem_entry list \<Rightarrow> stem_entry list \<Rightarrow> layer_constraint list" where
  "chain_conflicts upper [] = []"
| "chain_conflicts upper (e # es) =
     (if upper = [] then []
      else monotonic_conflicts (merge_stem_files upper) (se_stem e) (se_path e) @
           structural_conflicts (merge_stem_files upper) (se_stem e) (se_path e)) @
     chain_conflicts (upper @ [e]) es"

record layered_resolution =
  lr_base :: resolution
  lr_layers :: "layer_constraint list"
  lr_conflicts :: "layer_constraint list"

definition resolve_layered_from_entries ::
  "string \<Rightarrow> stem_entry list \<Rightarrow> go_error + layered_resolution" where
  "resolve_layered_from_entries path entries =
     (case resolve_from_entries path entries of
        Inl e \<Rightarrow> Inl e
      | Inr base \<Rightarrow>
          Inr \<lparr> lr_base = base,
                lr_layers = concat (map layers_of_entry (rs_chain base)),
                lr_conflicts = chain_conflicts [] (rs_chain base) \<rparr>)"

section \<open>The describe result\<close>

record describe_result =
  dr_path :: string
  dr_applies :: "string list"
  dr_scope :: string
  dr_schema :: schema
  dr_validate :: "validation_rule list"
  dr_derive :: vmap
  dr_aggregate :: vmap
  dr_links :: link_schema
  dr_layers :: "string list"
  dr_provenance :: "(string \<times> string) list"

definition describe_field ::
  "string list option \<Rightarrow> string \<Rightarrow> schema_field \<Rightarrow> go_error + schema_field" where
  "describe_field listing name field =
     (if sf_type field \<noteq> ''sequence'' then Inr field
      else
        case compute_next_sequence listing name field of
          Inl e \<Rightarrow> Inl e
        | Inr next \<Rightarrow>
            (case compute_all_next_sequences listing name (field\<lparr> sf_next := next \<rparr>) of
               Inl e \<Rightarrow> Inl e
             | Inr byp \<Rightarrow> Inr (field\<lparr> sf_next := next, sf_next_by_pattern := byp \<rparr>)))"

definition new_describe_result ::
  "string list option \<Rightarrow> string \<Rightarrow> stem_entry list \<Rightarrow> stem_file \<Rightarrow> go_error + describe_result" where
  "new_describe_result listing path entries effective =
     (case try_map (\<lambda>name. case map_of (st_schema effective) name of
               None \<Rightarrow> Inr (name, zero_field)
             | Some f \<Rightarrow> map_sum id (Pair name) (describe_field listing name f))
            (sorted_keys (st_schema effective)) of
        Inl e \<Rightarrow> Inl e
      | Inr sch \<Rightarrow>
          Inr \<lparr> dr_path = path, dr_applies = map se_path entries, dr_scope = st_scope effective,
                dr_schema = sch, dr_validate = st_validate effective, dr_derive = st_derive effective,
                dr_aggregate = st_aggregate effective, dr_links = st_links effective,
                dr_layers = map se_path entries, dr_provenance = provenance_of entries \<rparr>)"

section \<open>Lemmas\<close>

lemma try_map_filter_map_of:
  assumes "try_map (\<lambda>k. tag_result k (g k)) ks = Inr rs" "distinct ks"
  shows "map_of (keep_some rs) k =
     (if k \<in> set ks then (case g k of Inl _ \<Rightarrow> None | Inr r \<Rightarrow> r) else None)"
  using assms
proof (induction ks arbitrary: rs)
  case (Cons x xs)
  then obtain r rs' where r: "g x = Inr r" and rs': "rs = map_option (Pair x) r # rs'"
    "try_map (\<lambda>k. tag_result k (g k)) xs = Inr rs'"
    by (auto simp: tag_result_def split: sum.splits)
  with Cons have IH: "map_of (keep_some rs') k =
      (if k \<in> set xs then (case g k of Inl _ \<Rightarrow> None | Inr r \<Rightarrow> r) else None)" by simp
  show ?case
  proof (cases r)
    case None
    with IH r rs' Cons.prems(2) show ?thesis by auto
  next
    case (Some f)
    with IH r rs' Cons.prems(2) show ?thesis by auto
  qed
qed simp

definition filter_or_none :: "string list \<Rightarrow> schema \<Rightarrow> string \<Rightarrow> go_error + schema_field option" where
  "filter_or_none comps sch name =
     (case map_of sch name of None \<Rightarrow> Inr None | Some f \<Rightarrow> filter_field comps name f)"

lemma filter_schema_alt:
  "filter_schema_by_match sch path =
     (case try_map (\<lambda>k. tag_result k (filter_or_none (path_components path) sch k))
             (sorted_keys sch) of
        Inl e \<Rightarrow> Inl e | Inr rs \<Rightarrow> Inr (keep_some rs))"
proof -
  have "(\<lambda>name. case map_of sch name of None \<Rightarrow> Inr None
      | Some f \<Rightarrow> tag_result name (filter_field comps name f)) =
    (\<lambda>k. tag_result k (filter_or_none comps sch k))" for comps
    by (auto simp: filter_or_none_def tag_result_def split: option.split)
  then show ?thesis by (simp add: filter_schema_by_match_def Let_def)
qed

lemma filter_schema_lookup:
  assumes "filter_schema_by_match sch path = Inr eff"
  shows "map_of eff k =
     (case map_of sch k of
        None \<Rightarrow> None
      | Some f \<Rightarrow> (case filter_field (path_components path) k f of Inl _ \<Rightarrow> None | Inr r \<Rightarrow> r))"
proof -
  obtain rs where rs: "try_map (\<lambda>k. tag_result k
      (filter_or_none (path_components path) sch k)) (sorted_keys sch) = Inr rs"
    "eff = keep_some rs"
    using assms by (auto simp: filter_schema_alt split: sum.splits)
  show ?thesis
    unfolding rs(2)
    by (subst try_map_filter_map_of [OF rs(1)])
      (auto simp: filter_or_none_def dom_def split: option.splits)
qed

lemma filter_schema_cong [det_intros]:
  assumes "map_of sch = map_of sch'"
  shows "filter_schema_by_match sch path = filter_schema_by_match sch' path"
  unfolding filter_schema_by_match_def assms sorted_keys_map_of_cong [OF assms] ..

lemma filter_field_keeps:
  assumes "filter_field comps name f = Inr (Some g)"
  shows "sf_source g = sf_source f \<and> sf_type g = sf_type f \<and> sf_values g = sf_values f \<and>
     sf_severity g = sf_severity f \<and> sf_extract g = sf_extract f"
proof -
  have seq: "sf_source r = sf_source f \<and> sf_type r = sf_type f \<and> sf_values r = sf_values f \<and>
     sf_severity r = sf_severity f \<and> sf_extract r = sf_extract f"
    if "apply_sequence_config f m = Inr r" for m r
  proof -
    from apply_sequence_config_ok(3) [OF that, where p = "[]" and d = 0]
    have eq: "r\<lparr> sf_prefix := [], sf_digits := 0 \<rparr> = f\<lparr> sf_prefix := [], sf_digits := 0 \<rparr>" .
    show ?thesis
      using arg_cong [OF eq, of sf_source] arg_cong [OF eq, of sf_type]
        arg_cong [OF eq, of sf_values] arg_cong [OF eq, of sf_severity]
        arg_cong [OF eq, of sf_extract] by simp
  qed
  have ap: "sf_source r = sf_source f \<and> sf_type r = sf_type f \<and> sf_values r = sf_values f \<and>
     sf_severity r = sf_severity f \<and> sf_extract r = sf_extract f"
    if "apply_config name p f m = Inr r" for p m r
    using that seq
    by (auto simp: apply_config_def Let_def split: if_splits sum.splits option.splits val.splits)
  show ?thesis
    using assms ap
    by (auto simp: filter_field_def scope_required_def split: option.splits sum.splits if_splits)
qed

lemma map_of_foldl_const:
  "map_of (foldl (\<lambda>p name. AList.update name v p) prov names) k =
     (if k \<in> set names then Some v else map_of prov k)"
  by (induction names arbitrary: prov) (auto simp: update_conv')

lemma provenance_snoc:
  "map_of (provenance_of (es @ [e])) k =
     (if map_of (st_schema (se_stem e)) k \<noteq> None then Some (se_path e)
      else map_of (provenance_of es) k)"
  by (auto simp: provenance_of_def map_of_foldl_const map_of_eq_None_iff)

lemma merge_stem_files_snoc: "merge_stem_files (es @ [e]) = merge_step (merge_stem_files es) e"
  by (simp add: merge_stem_files_def)

lemma merge_lookup_snoc:
  assumes "wf_stem (se_stem e)"
  shows "map_of (st_schema (merge_stem_files (es @ [e]))) k =
     (case map_of (st_schema (se_stem e)) k of
        None \<Rightarrow> map_of (st_schema (merge_stem_files es)) k
      | Some f \<Rightarrow> Some (merge_field (map_of (st_schema (merge_stem_files es)) k)
                        (tag_source (se_path e) f)))"
  using assms by (simp add: merge_stem_files_snoc map_of_merge_schema_fields wf_stem_def)

lemma merge_field_source_tag: "sf_source (merge_field inh f) = sf_source f"
  by (auto simp: merge_field_def merge_field_severity_def merge_field_source_def split: option.split)

lemma merge_source_is_provenance:
  assumes "wf_chain es"
  shows "map_option sf_source (map_of (st_schema (merge_stem_files es)) k) =
     map_of (provenance_of es) k"
  using assms
proof (induction es rule: rev_induct)
  case Nil
  then show ?case by (simp add: merge_stem_files_def provenance_of_def zero_stem_def)
next
  case (snoc e es)
  then show ?case
    by (auto simp: wf_chain_def merge_lookup_snoc provenance_snoc merge_field_source_tag
        tag_source_def split: option.split)
qed

text \<open>A chain without conflicts narrows step by step.\<close>

lemma concat_map_Nil: "concat (map f xs) = [] \<longleftrightarrow> (\<forall>x \<in> set xs. f x = [])"
  by simp

lemma no_conflict_compatible:
  assumes "monotonic_conflicts parent child path = []"
    "map_of (st_schema child) k = Some c" "map_of (st_schema parent) k = Some p"
  shows "check_field_compatibility p c = []"
proof -
  have "k \<in> set (sorted_keys (st_schema child))" using assms(2) by auto
  with assms show ?thesis
    unfolding monotonic_conflicts_def concat_map_Nil by fastforce
qed

lemma chain_conflicts_snoc:
  "chain_conflicts pre (es @ [e]) = chain_conflicts pre es @
     (if pre @ es = [] then []
      else monotonic_conflicts (merge_stem_files (pre @ es)) (se_stem e) (se_path e) @
           structural_conflicts (merge_stem_files (pre @ es)) (se_stem e) (se_path e))"
  by (induction es arbitrary: pre) auto

definition declares_ok :: "stem_entry list \<Rightarrow> string \<Rightarrow> bool" where
  "declares_ok es k =
     (\<forall>e \<in> set es. case map_of (st_schema (se_stem e)) k of
        None \<Rightarrow> True
      | Some f \<Rightarrow> validate_field_declaration k f = [] \<and> sf_type f \<noteq> ''sequence'')"

lemma merged_enum_declared:
  assumes "wf_chain es" "declares_ok es k" "map_of (st_schema (merge_stem_files es)) k = Some f"
  shows "enum_declared f"
  using assms
proof (induction es arbitrary: f rule: rev_induct)
  case Nil
  then show ?case by (simp add: merge_stem_files_def zero_stem_def)
next
  case (snoc e es)
  then have wf: "wf_stem (se_stem e)" "wf_chain es" "declares_ok es k"
    by (auto simp: wf_chain_def declares_ok_def)
  show ?case
  proof (cases "map_of (st_schema (se_stem e)) k")
    case None
    with snoc wf show ?thesis by (simp add: merge_lookup_snoc)
  next
    case (Some c)
    with snoc.prems(2) have "enum_declared c"
      by (auto simp: declares_ok_def intro: accepted_enum_declared)
    moreover have "sf_type f = sf_type c \<and> sf_values f = sf_values c"
      using snoc.prems(3) wf(1) Some merge_field_value_parts
      by (cases "map_of (st_schema (merge_stem_files es)) k")
        (auto simp: merge_lookup_snoc tag_source_def merge_field_def)
    ultimately show ?thesis by (simp add: enum_declared_def)
  qed
qed

lemma merged_not_sequence:
  assumes "wf_chain es" "declares_ok es k" "map_of (st_schema (merge_stem_files es)) k = Some f"
  shows "sf_type f \<noteq> ''sequence''"
  using assms
proof (induction es arbitrary: f rule: rev_induct)
  case Nil
  then show ?case by (simp add: merge_stem_files_def zero_stem_def)
next
  case (snoc e es)
  then have wf: "wf_stem (se_stem e)" "wf_chain es" "declares_ok es k"
    by (auto simp: wf_chain_def declares_ok_def)
  show ?case
  proof (cases "map_of (st_schema (se_stem e)) k")
    case None
    with snoc wf show ?thesis by (simp add: merge_lookup_snoc)
  next
    case (Some c)
    with snoc.prems(2) have "sf_type c \<noteq> ''sequence''" by (auto simp: declares_ok_def)
    moreover have "sf_type f = sf_type c"
      using snoc.prems(3) wf(1) Some merge_field_value_parts
      by (cases "map_of (st_schema (merge_stem_files es)) k")
        (auto simp: merge_lookup_snoc tag_source_def merge_field_def)
    ultimately show ?thesis by simp
  qed
qed

lemma conflict_free_accepts:
  assumes "wf_chain (es @ ds)" "declares_ok (es @ ds) k" "chain_conflicts [] (es @ ds) = []"
    and "map_of (st_schema (merge_stem_files es)) k = Some p"
  shows "\<exists>f. map_of (st_schema (merge_stem_files (es @ ds))) k = Some f \<and>
     (\<forall>v. validate_field_value f v = None \<longrightarrow> validate_field_value p v = None)"
  using assms
proof (induction ds rule: rev_induct)
  case (snoc e ds)
  have wf: "wf_stem (se_stem e)" "wf_chain (es @ ds)" "declares_ok (es @ ds) k"
    using snoc.prems(1,2) by (auto simp: wf_chain_def declares_ok_def)
  have cc: "chain_conflicts [] (es @ ds) = []"
    "es @ ds = [] \<or> monotonic_conflicts (merge_stem_files (es @ ds)) (se_stem e) (se_path e) = []"
    using snoc.prems(3) chain_conflicts_snoc [of "[]" "es @ ds" e] by (auto split: if_splits)
  from snoc.IH [OF wf(2,3) cc(1) snoc.prems(4)] obtain f where
    f: "map_of (st_schema (merge_stem_files (es @ ds))) k = Some f"
    "\<forall>v. validate_field_value f v = None \<longrightarrow> validate_field_value p v = None" by blast
  have ne: "es @ ds \<noteq> []" using f(1) by (auto simp: merge_stem_files_def zero_stem_def)
  show ?case
  proof (cases "map_of (st_schema (se_stem e)) k")
    case None
    with f wf(1) show ?thesis
      using merge_lookup_snoc [OF wf(1), of "es @ ds" k] by simp
  next
    case (Some c)
    let ?m = "merge_field (Some f) (tag_source (se_path e) c)"
    have "map_of (st_schema (merge_stem_files (es @ ds @ [e]))) k = Some ?m"
      using merge_lookup_snoc [OF wf(1), of "es @ ds" k] Some f(1) by simp
    moreover have "check_field_compatibility f c = []"
      using cc(2) ne no_conflict_compatible [OF _ Some f(1)] by blast
    moreover have "enum_declared f" by (rule merged_enum_declared [OF wf(2,3) f(1)])
    moreover have "enum_declared c" "sf_type c \<noteq> ''sequence''"
      using snoc.prems(2) Some by (auto simp: declares_ok_def intro: accepted_enum_declared)
    ultimately show ?thesis using narrowing_step f(2) by blast
  qed
qed auto

lemma match_config_loop_spec:
  "match_config_loop cfgs pats comps = Inr (Some (p, m)) \<Longrightarrow>
     \<exists>a c b. comps = a @ c # b \<and> glob_matches p c \<and> p \<in> set pats \<and> map_of cfgs p = Some (VMap m) \<and>
       (\<forall>c' \<in> set a. \<forall>p' \<in> set pats. \<not> glob_matches p' c')"
proof (induction comps)
  case (Cons c comps)
  show ?case
  proof (cases "List.find (\<lambda>p. glob_matches p c) pats")
    case None
    with Cons obtain a d b where "comps = a @ d # b" "glob_matches p d" "p \<in> set pats"
      "map_of cfgs p = Some (VMap m)" "\<forall>c' \<in> set a. \<forall>p' \<in> set pats. \<not> glob_matches p' c'"
      by auto
    with None show ?thesis
      by (intro exI [of _ "c # a"] exI [of _ d] exI [of _ b]) (auto simp: find_None_iff)
  next
    case (Some q)
    with Cons.prems have "q = p" "map_of cfgs p = Some (VMap m)"
      by (auto split: option.splits val.splits)
    moreover have "glob_matches q c" "q \<in> set pats"
      using Some by (auto simp: find_Some_iff)
    ultimately have "c # comps = [] @ c # comps \<and> glob_matches p c \<and> p \<in> set pats \<and>
        map_of cfgs p = Some (VMap m) \<and> (\<forall>c' \<in> set []. \<forall>p' \<in> set pats. \<not> glob_matches p' c')"
      by simp
    then show ?thesis by blast
  qed
qed simp

section \<open>Properties\<close>

definition guard_chain :: "stem_entry list" where
  "guard_chain =
     [\<lparr> se_path = ''/r/.stem'', se_stem = zero_stem\<lparr> st_version := 2,
          st_schema := [(''estado'', narrow_parent\<lparr> sf_severity := ''error'' \<rparr>)] \<rparr> \<rparr>,
      \<lparr> se_path = ''/r/a/.stem'', se_stem = zero_stem\<lparr> st_version := 2,
          st_schema := [(''estado'', narrow_child\<lparr> sf_severity := ''error'' \<rparr>)] \<rparr> \<rparr>]"

text \<open>C1: What an ancestor promises about a field's values holds below it: in a chain the layered
  resolver finds free of conflicts, every value the effective field accepts is accepted by the
  merged declaration of every ancestor prefix of the chain (for accepted declarations of
  non-sequence types).\<close>

theorem ancestor_guarantee_holds:
  assumes "wf_chain (es @ ds)" "declares_ok (es @ ds) k"
    and "resolve_layered_from_entries path (es @ ds) = Inr r" "lr_conflicts r = []"
    and "map_of (st_schema (merge_stem_files es)) k = Some p"
    and "map_of (rs_schema (lr_base r)) k = Some f" "validate_field_value f v = None"
  shows "validate_field_value p v = None"
proof -
  from assms(3) obtain base where base: "resolve_from_entries path (es @ ds) = Inr base"
    "lr_base r = base" "lr_conflicts r = chain_conflicts [] (rs_chain base)"
    by (auto simp: resolve_layered_from_entries_def split: sum.splits)
  then have chain: "rs_chain base = es @ ds"
    by (auto simp: resolve_from_entries_def Let_def split: sum.splits if_splits)
  with base assms(4) have cc: "chain_conflicts [] (es @ ds) = []" by simp
  from conflict_free_accepts [OF assms(1,2) cc assms(5)] obtain m where
    m: "map_of (st_schema (merge_stem_files (es @ ds))) k = Some m"
    "\<forall>v. validate_field_value m v = None \<longrightarrow> validate_field_value p v = None" by blast
  then have "st_schema (merge_stem_files (es @ ds)) \<noteq> []" by auto
  then have "filter_schema_by_match (st_schema (merge_stem_files (es @ ds))) path = Inr (rs_schema base)"
    using base(1) by (auto simp: resolve_from_entries_def Let_def split: sum.splits)
  from filter_schema_lookup [OF this, of k] m(1) base(2) assms(6)
  have ff: "filter_field (path_components path) k m = Inr (Some f)"
    by (auto split: sum.splits)
  from filter_field_keeps [OF ff] have same: "sf_type f = sf_type m" "sf_values f = sf_values m"
    by simp_all
  have ns: "sf_type m \<noteq> ''sequence''" by (rule merged_not_sequence [OF assms(1,2) m(1)])
  have "validate_field_value m v = None"
  proof (cases "sf_type m = ''enum''")
    case True
    with same assms(7) show ?thesis by (simp add: validate_field_value_enum)
  next
    case False
    with same ns assms(7) validate_field_value_cong [of f m v] show ?thesis by simp
  qed
  with m(2) show ?thesis by blast
qed

theorem ancestor_guarantee_holds_witness:
  "validate_field_value (narrow_parent\<lparr> sf_severity := ''error'', sf_source := ''/r/.stem'' \<rparr>)
     (VStr ''b'') = None"
proof -
  define r where "r = resolve_layered_from_entries ''/r/a/x.md'' guard_chain"
  have "isl r = False" "lr_conflicts (projr r) = []" unfolding r_def by code_simp+
  then obtain lr where lr: "resolve_layered_from_entries ''/r/a/x.md''
      ([hd guard_chain] @ tl guard_chain) = Inr lr" "lr_conflicts lr = []" "projr r = lr"
    by (cases r) (auto simp: r_def guard_chain_def)
  have wf: "wf_chain ([hd guard_chain] @ tl guard_chain)"
    "declares_ok ([hd guard_chain] @ tl guard_chain) ''estado''" by code_simp+
  have p: "map_of (st_schema (merge_stem_files [hd guard_chain])) ''estado'' =
      Some (narrow_parent\<lparr> sf_severity := ''error'', sf_source := ''/r/.stem'' \<rparr>)"
    by (simp add: guard_chain_def merge_stem_files_def merge_schema_fields_def zero_stem_def
        map_vals_def tag_source_def narrow_parent_def zero_field_def)
  have "(case map_of (rs_schema (lr_base (projr r))) ''estado'' of None \<Rightarrow> False
      | Some f \<Rightarrow> validate_field_value f (VStr ''b'') = None)"
    unfolding r_def by code_simp
  with lr(3) obtain f where f: "map_of (rs_schema (lr_base lr)) ''estado'' = Some f"
    "validate_field_value f (VStr ''b'') = None" by (auto split: option.splits)
  show ?thesis by (rule ancestor_guarantee_holds [OF wf lr(1,2) p f])
qed

text \<open>Provenance is truthful: the file a resolution names for a field is the file recorded as the
  source of the field it hands out, the last one of the chain that declares the field.\<close>

theorem resolution_provenance:
  assumes "wf_chain entries" "resolve_from_entries path entries = Inr r"
    and "map_of (rs_schema r) k = Some f"
  shows "map_of (rs_provenance r) k = Some (sf_source f)"
proof -
  let ?m = "merge_stem_files entries"
  have ne: "st_schema ?m \<noteq> []"
    using assms(2,3) by (auto simp: resolve_from_entries_def Let_def)
  with assms(2) have fs: "filter_schema_by_match (st_schema ?m) path = Inr (rs_schema r)"
    "rs_provenance r = provenance_of entries"
    by (auto simp: resolve_from_entries_def Let_def split: sum.splits)
  from filter_schema_lookup [OF fs(1), of k] assms(3) obtain g where
    g: "map_of (st_schema ?m) k = Some g" "filter_field (path_components path) k g = Inr (Some f)"
    by (auto split: option.splits sum.splits)
  with filter_field_keeps [OF g(2)] merge_source_is_provenance [OF assms(1), of k] fs(2)
  show ?thesis by simp
qed

theorem resolution_provenance_witness:
  "\<exists>r f. resolve_from_entries ''/r/a/x.md'' guard_chain = Inr r \<and>
     map_of (rs_schema r) ''estado'' = Some f \<and>
     map_of (rs_provenance r) ''estado'' = Some (sf_source f)"
proof -
  define r where "r = resolve_from_entries ''/r/a/x.md'' guard_chain"
  have "isl r = False" "map_of (rs_schema (projr r)) ''estado'' \<noteq> None"
    unfolding r_def by code_simp+
  then obtain x f where "resolve_from_entries ''/r/a/x.md'' guard_chain = Inr x"
    "map_of (rs_schema x) ''estado'' = Some f" by (cases r) (auto simp: r_def)
  moreover have "wf_chain guard_chain" by code_simp
  ultimately show ?thesis using resolution_provenance by blast
qed

text \<open>The schema filter treats every field on its own and does not depend on map order: a field of
  the filtered schema is exactly what the filter makes of that field, and two schemas holding the
  same fields give the same result, error included.\<close>

theorem filter_schema_pointwise:
  "(\<forall>eff. filter_schema_by_match sch path = Inr eff \<longrightarrow>
      map_of eff k = (case map_of sch k of
        None \<Rightarrow> None
      | Some f \<Rightarrow> (case filter_field (path_components path) k f of Inl _ \<Rightarrow> None | Inr r \<Rightarrow> r))) \<and>
   (\<forall>sch'. map_of sch' = map_of sch \<longrightarrow> filter_schema_by_match sch' path = filter_schema_by_match sch path)"
  using filter_schema_lookup filter_schema_cong by blast

theorem filter_schema_pointwise_witness:
  "\<exists>eff. filter_schema_by_match [(''a'', narrow_parent), (''b'', narrow_child)] ''x.md'' = Inr eff \<and>
     map_of eff ''a'' = Some narrow_parent \<and>
     filter_schema_by_match [(''b'', narrow_child), (''a'', narrow_parent)] ''x.md'' = Inr eff"
proof -
  let ?s = "[(''a'', narrow_parent), (''b'', narrow_child)]"
  define r where "r = filter_schema_by_match ?s ''x.md''"
  have "isl r = False" unfolding r_def by code_simp
  then obtain eff where e: "filter_schema_by_match ?s ''x.md'' = Inr eff"
    by (cases r) (auto simp: r_def)
  have "filter_field (path_components ''x.md'') ''a'' narrow_parent = Inr (Some narrow_parent)"
    by (simp add: filter_field_def narrow_parent_def zero_field_def scope_required_def)
  moreover have "map_of [(''b'', narrow_child), (''a'', narrow_parent)] = map_of ?s" by auto
  ultimately show ?thesis
    using filter_schema_pointwise [of ?s "''x.md''" "''a''"] e by auto
qed

text \<open>A per-pattern configuration is chosen by the deepest matching path component: no pattern
  matches any component below the one that selected the configuration.\<close>

theorem deepest_component_selects:
  assumes "match_config cfgs comps = Inr (Some (p, m))"
  shows "\<exists>above c below. comps = above @ c # below \<and> glob_matches p c \<and>
     map_of cfgs p = Some (VMap m) \<and>
     (\<forall>c' \<in> set below. \<forall>p' \<in> dom (map_of cfgs). \<not> glob_matches p' c')"
proof -
  obtain a c b where "rev comps = a @ c # b" "glob_matches p c" "map_of cfgs p = Some (VMap m)"
    "\<forall>c' \<in> set a. \<forall>p' \<in> dom (map_of cfgs). \<not> glob_matches p' c'"
    using match_config_loop_spec [OF assms [unfolded match_config_def]] by auto
  then show ?thesis
  proof -
    from \<open>rev comps = a @ c # b\<close> have "comps = rev b @ c # rev a" by (simp add: rev_swap)
    with \<open>glob_matches p c\<close> \<open>map_of cfgs p = _\<close> \<open>\<forall>c' \<in> set a. _ c'\<close> show ?thesis
      by (metis set_rev)
  qed
qed

theorem deepest_component_selects_witness:
  "\<exists>above c below. [''E01'', ''T001-x.md''] = above @ c # below \<and> glob_matches ''T*'' c \<and>
     map_of [(''E*'', VMap []), (''T*'', VMap [(''prefix'', VStr ''T'')])] ''T*'' =
       Some (VMap [(''prefix'', VStr ''T'')]) \<and>
     (\<forall>c' \<in> set below. \<forall>p' \<in> dom (map_of [(''E*'', VMap []),
        (''T*'', VMap [(''prefix'', VStr ''T'')])]). \<not> glob_matches p' c')"
proof -
  have "match_config [(''E*'', VMap []), (''T*'', VMap [(''prefix'', VStr ''T'')])]
      [''E01'', ''T001-x.md''] = Inr (Some (''T*'', [(''prefix'', VStr ''T'')]))"
    by code_simp
  then show ?thesis by (rule deepest_component_selects)
qed

text \<open>The three entry points of the resolver agree: \<open>EffectiveSchema\<close> is the schema of \<open>Resolve\<close>, error
  for error, and \<open>ResolveForRecord\<close> hands out that schema for a record resolved at its own absolute
  path.\<close>

theorem resolver_entry_points_agree:
  "effective_schema yaml fs path root =
     (case resolve yaml fs path root of Inl e \<Rightarrow> Inl e | Inr r \<Rightarrow> Inr (rs_schema r)) \<and>
   (is_abs path \<longrightarrow>
     (case resolve_for_record yaml fs path path of Inl e \<Rightarrow> Inl e | Inr s \<Rightarrow> Inr (st_schema s)) =
     effective_schema yaml fs path root)"
  by (auto simp: effective_schema_def resolve_def resolve_from_entries_def Let_def
      resolve_for_record_def absolute_resolver_path_def split: sum.split)

theorem resolver_entry_points_agree_witness:
  "(case resolve_for_record sample_yaml sample_fs ''/r/a/b'' ''/r/a/b'' of
      Inl e \<Rightarrow> Inl e | Inr s \<Rightarrow> Inr (st_schema s)) =
     effective_schema sample_yaml sample_fs ''/r/a/b'' []"
proof -
  have "is_abs ''/r/a/b''" by code_simp
  with resolver_entry_points_agree show ?thesis by blast
qed

text \<open>A child that leaves \<open>required\<close> out of its redeclaration drops the parent's requirement; the
  resolver hands out the loosened field and only its layered form reports the conflict.\<close>

lemma required_can_be_dropped:
  "sf_required (merge_field (Some (zero_field\<lparr> sf_type := ''string'', sf_required := True \<rparr>))
     (tag_source ''/r/a/.stem'' (zero_field\<lparr> sf_type := ''string'' \<rparr>))) = False"
  by code_simp

end
