(* ===== verification/Validation.thy ===== *)
theory Validation
  imports Resolution
begin

text \<open>
  Checking a record against its effective schema: \<open>internal/rules/validate.go\<close>, \<open>field_source.go\<close>,
  \<open>required_applicability.go\<close>, \<open>extraction_errors.go\<close>, \<open>structural.go\<close>, \<open>drift.go\<close>, and the
  versioned results of \<open>result.go\<close>.

  Parameters: \<open>gm\<close>, goldmark's headings of a body; \<open>fuzzy\<close>, the closest match of \<open>picokit/fuzzy\<close>
  (the empty string for none); \<open>re\<close>, \<open>regexp.MatchString\<close> (an error message or the answer).
\<close>

section \<open>Errors\<close>

record validation_error =
  ve_rule :: string
  ve_field :: string
  ve_message :: string
  ve_source :: string
  ve_severity :: string
  ve_suggestion :: string
  ve_expected :: string
  ve_actual :: string

definition mk_error :: "string \<Rightarrow> string \<Rightarrow> string \<Rightarrow> string \<Rightarrow> string \<Rightarrow> validation_error" where
  "mk_error rule field message source severity =
     \<lparr> ve_rule = rule, ve_field = field, ve_message = message, ve_source = source,
       ve_severity = severity, ve_suggestion = [], ve_expected = [], ve_actual = [] \<rparr>"

definition source_resolution_error :: "string \<Rightarrow> string \<Rightarrow> string \<Rightarrow> go_error \<Rightarrow> validation_error" where
  "source_resolution_error field source severity e =
     mk_error ''source'' field (error_text e) source (default_severity severity)"

definition did_you_mean :: "string \<Rightarrow> string \<Rightarrow> string" where
  "did_you_mean suggestion actual =
     (if suggestion \<noteq> [] \<and> suggestion \<noteq> actual
      then '' (did you mean '' @ go_quote suggestion @ ''?)'' else [])"

definition validation_error_from_contract ::
  "(string \<Rightarrow> string list \<Rightarrow> string) \<Rightarrow> string \<Rightarrow> schema_field \<Rightarrow> contract_issue \<Rightarrow> validation_error" where
  "validation_error_from_contract fuzzy name field i =
     (let base = mk_error ''type'' name
            (''field '' @ go_quote name @ '' expected '' @ is_expected i @ '', got '' @ is_actual i)
            (sf_source field) (default_severity (sf_severity field));
          err = (if is_code i = ''type-mismatch''
                 then base\<lparr> ve_expected := is_expected i, ve_actual := is_actual i \<rparr> else base)
      in if is_code i = ''invalid-enum'' then
           (let sug = fuzzy (is_actual i) (sf_values field) in
            err\<lparr> ve_rule := ''enum'',
                 ve_message := ''value '' @ is_actual i @ '' is not in allowed values: ['' @
                   join_with '', '' (sf_values field) @ '']'' @ did_you_mean sug (is_actual i),
                 ve_suggestion := sug \<rparr>)
         else if is_code i = ''invalid-link'' then
           err\<lparr> ve_rule := ''link-format'',
                ve_message := ''field '' @ go_quote name @ '' should contain wiki-link syntax [[target]]'',
                ve_severity := (if sf_severity field = [] then ''warn'' else ve_severity err) \<rparr>
         else if is_code i = ''invalid-sequence'' then
           err\<lparr> ve_rule := ''sequence-format'', ve_message := is_message i \<rparr>
         else err)"

definition extraction_errors :: "doc \<Rightarrow> validation_error list" where
  "extraction_errors r =
     map (\<lambda>(_, msg). (mk_error ''malformed_yaml'' ''_frontmatter'' msg (rc_path r) ''error'')
       \<lparr> ve_suggestion := ''quote values containing '' @ [CHR 0x27] @ '':'' @ [CHR 0x27] @
           '' or other YAML-special characters'' \<rparr>) (rc_errors r)"

section \<open>Field values\<close>

definition resolve_field_value ::
  "(string \<Rightarrow> ast_heading list) \<Rightarrow> doc \<Rightarrow> string \<Rightarrow> schema_field \<Rightarrow> go_error + val option" where
  "resolve_field_value gm r name field =
     (case map_of (rc_frontmatter r) name of
        Some v \<Rightarrow> Inr (Some v)
      | None \<Rightarrow>
          if sf_extract field = [] then Inr None
          else
            (case resolve_body_value gm r (sf_extract field) of
               Inl e \<Rightarrow> Inl e
             | Inr o' \<Rightarrow> Inr (map_option VStr o')))"

definition resolve_effective_field ::
  "(string \<Rightarrow> ast_heading list) \<Rightarrow> doc \<Rightarrow> stem_file \<Rightarrow> string \<Rightarrow> go_error + val option" where
  "resolve_effective_field gm r eff name =
     (case map_of (st_schema eff) name of
        Some field \<Rightarrow>
          if sf_extract field \<noteq> [] then resolve_field_value gm r name field
          else Inr (effective_field r name)
      | None \<Rightarrow> Inr (effective_field r name))"

definition is_index_file :: "string \<Rightarrow> subdir_rules \<Rightarrow> bool" where
  "is_index_file path sr =
     (path_base path = (if sd_require_index sr \<noteq> [] then sd_require_index sr else ''README.md''))"

definition required_check_applies :: "doc \<Rightarrow> stem_file \<Rightarrow> string \<Rightarrow> schema_field \<Rightarrow> bool" where
  "required_check_applies r eff name field =
     (if sf_severity field = ''off'' then False
      else if has_key (st_aggregate eff) name \<and> is_index_file (rc_path r) (st_subdirs eff) then False
      else case sf_excludes field of
        None \<Rightarrow> True
      | Some ex \<Rightarrow> \<not> (ex_match ex \<noteq> [] \<and> glob_matches (ex_match ex) (rc_path r)))"

section \<open>Phase 1: schema checks\<close>

text \<open>The outcome of one field: its errors, and whether its source or its contract failed.\<close>

datatype field_outcome =
    FieldOk
  | FieldSourceFailed validation_error
  | FieldMissing validation_error
  | FieldContractFailed validation_error

definition missing_error ::
  "(string \<Rightarrow> string list \<Rightarrow> string) \<Rightarrow> doc \<Rightarrow> string \<Rightarrow> schema_field \<Rightarrow> validation_error" where
  "missing_error fuzzy r name field =
     (let m = fuzzy name (map fst (rc_frontmatter r)) in
      (mk_error ''required'' name
         (''required field '' @ go_quote name @ '' is missing'' @
          (if m \<noteq> [] then '' (found similar: '' @ go_quote m @ '')'' else []))
         (sf_source field) (sf_severity field))
      \<lparr> ve_suggestion := m \<rparr>)"

definition check_field ::
  "(string \<Rightarrow> ast_heading list) \<Rightarrow> (string \<Rightarrow> string list \<Rightarrow> string) \<Rightarrow> doc \<Rightarrow> stem_file \<Rightarrow>
     string \<Rightarrow> schema_field \<Rightarrow> field_outcome" where
  "check_field gm fuzzy r eff name field =
     (if sf_severity field = ''off'' then FieldOk
      else case resolve_field_value gm r name field of
        Inl e \<Rightarrow> FieldSourceFailed (source_resolution_error name (sf_source field) (sf_severity field) e)
      | Inr None \<Rightarrow>
          if sf_required field \<and> required_check_applies r eff name field
          then FieldMissing (missing_error fuzzy r name field) else FieldOk
      | Inr (Some v) \<Rightarrow>
          (case validate_field_value field v of
             None \<Rightarrow> FieldOk
           | Some i \<Rightarrow> FieldContractFailed (validation_error_from_contract fuzzy name field i)))"

definition outcome_errors :: "field_outcome \<Rightarrow> validation_error list" where
  "outcome_errors o' =
     (case o' of FieldOk \<Rightarrow> [] | FieldSourceFailed e \<Rightarrow> [e] | FieldMissing e \<Rightarrow> [e]
      | FieldContractFailed e \<Rightarrow> [e])"

definition outcome_blocks :: "field_outcome \<Rightarrow> bool" where
  "outcome_blocks o' =
     (case o' of FieldSourceFailed _ \<Rightarrow> True | FieldContractFailed _ \<Rightarrow> True | _ \<Rightarrow> False)"

definition field_outcome_of ::
  "(string \<Rightarrow> ast_heading list) \<Rightarrow> (string \<Rightarrow> string list \<Rightarrow> string) \<Rightarrow> doc \<Rightarrow> stem_file \<Rightarrow>
     string \<Rightarrow> field_outcome" where
  "field_outcome_of gm fuzzy r eff name =
     (case map_of (st_schema eff) name of
        None \<Rightarrow> FieldOk | Some field \<Rightarrow> check_field gm fuzzy r eff name field)"

definition schema_errors ::
  "(string \<Rightarrow> ast_heading list) \<Rightarrow> (string \<Rightarrow> string list \<Rightarrow> string) \<Rightarrow> doc \<Rightarrow> stem_file \<Rightarrow>
     validation_error list" where
  "schema_errors gm fuzzy r eff =
     concat (map (\<lambda>n. outcome_errors (field_outcome_of gm fuzzy r eff n))
       (sorted_keys (st_schema eff)))"

section \<open>Phase 1b: aggregates\<close>

definition aggregate_error :: "doc \<Rightarrow> stem_file \<Rightarrow> string \<Rightarrow> validation_error list" where
  "aggregate_error r eff name =
     (if \<not> is_index_file (rc_path r) (st_subdirs eff) then []
      else case (map_of (rc_frontmatter r) name, map_of (rc_derived r) name) of
        (Some fv, Some dv) \<Rightarrow>
          if fmt_v fv = fmt_v dv then []
          else
            [mk_error ''aggregate'' name
               (''field '' @ go_quote name @ '' is '' @ go_quote (fmt_v fv) @
                '' but aggregate computes '' @ go_quote (fmt_v dv))
               (st_path eff)
               (case map_of (st_schema eff) name of
                  Some f \<Rightarrow> if sf_severity f \<noteq> [] then sf_severity f else ''error''
                | None \<Rightarrow> ''error'')]
      | _ \<Rightarrow> [])"

definition aggregate_errors :: "doc \<Rightarrow> stem_file \<Rightarrow> validation_error list" where
  "aggregate_errors r eff =
     concat (map (aggregate_error r eff) (sorted_keys (st_aggregate eff)))"

section \<open>Phase 2: links\<close>

definition link_style :: "link \<Rightarrow> string" where
  "link_style l = (if lk_style l = [] then style_wikilink else lk_style l)"

definition link_errors ::
  "(string \<Rightarrow> string \<Rightarrow> string + bool) \<Rightarrow> link_schema \<Rightarrow> string \<Rightarrow> link \<Rightarrow> validation_error list" where
  "link_errors re ls source l =
     (if link_style l \<notin> set (effective_styles ls) then []
      else
        (if opt_list (ls_allowed ls) \<noteq> [] \<and> lk_type l \<notin> set (opt_list (ls_allowed ls)) then
           [mk_error ''link_type'' ''links''
              (''link type '' @ go_quote (lk_type l) @ '' not allowed (allowed: ['' @
               join_with '', '' (opt_list (ls_allowed ls)) @ ''])'') source ''error'']
         else []) @
        (case map_of (ls_rules ls) (lk_type l) of
           None \<Rightarrow> []
         | Some rule \<Rightarrow>
             if lr_target rule = [] then []
             else
               (case re (lr_target rule) (lk_target l) of
                  Inl msg \<Rightarrow>
                    [mk_error ''link_target'' ''links''
                       (''invalid target regexp '' @ go_quote (lr_target rule) @ '': '' @ msg)
                       source ''error'']
                | Inr True \<Rightarrow> []
                | Inr False \<Rightarrow>
                    [mk_error ''link_target'' ''links''
                       (''link target '' @ go_quote (lk_target l) @ '' does not match pattern '' @
                        go_quote (lr_target rule)) source ''error''])))"

definition validate_links ::
  "(string \<Rightarrow> string \<Rightarrow> string + bool) \<Rightarrow> link list \<Rightarrow> link_schema \<Rightarrow> string \<Rightarrow> validation_error list" where
  "validate_links re links ls source =
     (if links_empty ls then [] else concat (map (link_errors re ls source) links))"

section \<open>Phase 3: explicit rules\<close>

definition check_non_empty ::
  "(string \<Rightarrow> ast_heading list) \<Rightarrow> doc \<Rightarrow> stem_file \<Rightarrow> validation_rule \<Rightarrow> validation_error list" where
  "check_non_empty gm r eff rule =
     (let f = vr_field rule in
      case resolve_effective_field gm r eff f of
        Inl e \<Rightarrow> [source_resolution_error f (vr_source rule) (vr_severity rule) e]
      | Inr None \<Rightarrow>
          [mk_error ''non_empty'' f (''field '' @ go_quote f @ '' does not exist'') (vr_source rule) []]
      | Inr (Some v) \<Rightarrow>
          if v = VStr [] then
            [mk_error ''non_empty'' f (''field '' @ go_quote f @ '' must not be empty'')
               (vr_source rule) []]
          else [])"

definition check_exists ::
  "(string \<Rightarrow> ast_heading list) \<Rightarrow> doc \<Rightarrow> stem_file \<Rightarrow> validation_rule \<Rightarrow> validation_error list" where
  "check_exists gm r eff rule =
     (let f = vr_field rule in
      case resolve_effective_field gm r eff f of
        Inl e \<Rightarrow> [source_resolution_error f (vr_source rule) (vr_severity rule) e]
      | Inr None \<Rightarrow> [mk_error ''exists'' f (''field '' @ go_quote f @ '' must exist'') (vr_source rule) []]
      | Inr (Some _) \<Rightarrow> [])"

text \<open>\<open>conditionMatchesRecord\<close>, the condition's pairs in one iteration order of the map.\<close>

fun condition_matches ::
  "(string \<Rightarrow> ast_heading list) \<Rightarrow> doc \<Rightarrow> stem_file \<Rightarrow> vmap \<Rightarrow> (string \<times> go_error) + bool" where
  "condition_matches gm r eff [] = Inr True"
| "condition_matches gm r eff ((key, expected) # rest) =
     (if key = ''match'' then
        (if \<exists>c \<in> set (path_components (rc_path r)). glob_matches (fmt_v expected) c
         then condition_matches gm r eff rest else Inr False)
      else
        (case resolve_effective_field gm r eff key of
           Inl e \<Rightarrow> Inl (key, e)
         | Inr None \<Rightarrow> Inr False
         | Inr (Some v) \<Rightarrow>
             if fmt_v v = fmt_v expected then condition_matches gm r eff rest else Inr False))"

definition extract_then_fields :: "vmap \<Rightarrow> string list" where
  "extract_then_fields th =
     (case map_of th ''fields'' of
        Some (VList xs) \<Rightarrow> List.map_filter (\<lambda>x. case x of VStr s \<Rightarrow> Some s | _ \<Rightarrow> None) xs
      | _ \<Rightarrow> [])"

definition format_condition :: "vmap \<Rightarrow> string" where
  "format_condition cond =
     join_with '' and '' (map (\<lambda>k. k @ '' = '' @ fmt_v (map_get cond k)) (sorted_keys cond))"

definition require_field ::
  "(string \<Rightarrow> ast_heading list) \<Rightarrow> doc \<Rightarrow> stem_file \<Rightarrow> validation_rule \<Rightarrow> string \<Rightarrow>
     validation_error list" where
  "require_field gm r eff rule f =
     (case resolve_effective_field gm r eff f of
        Inl e \<Rightarrow> [source_resolution_error f (vr_source rule) (vr_severity rule) e]
      | Inr None \<Rightarrow>
          [mk_error ''requires'' f
             (''field '' @ go_quote f @ '' is required when '' @ format_condition (vr_if rule))
             (vr_source rule) []]
      | Inr (Some _) \<Rightarrow> [])"

definition check_requires ::
  "(string \<Rightarrow> ast_heading list) \<Rightarrow> doc \<Rightarrow> stem_file \<Rightarrow> validation_rule \<Rightarrow> validation_error list" where
  "check_requires gm r eff rule =
     (case condition_matches gm r eff (vr_if rule) of
        Inl (f, e) \<Rightarrow> [source_resolution_error f (vr_source rule) (vr_severity rule) e]
      | Inr False \<Rightarrow> []
      | Inr True \<Rightarrow>
          concat (map (require_field gm r eff rule) (extract_then_fields (vr_then rule))))"

definition check_enum ::
  "(string \<Rightarrow> ast_heading list) \<Rightarrow> (string \<Rightarrow> string list \<Rightarrow> string) \<Rightarrow> doc \<Rightarrow> stem_file \<Rightarrow>
     validation_rule \<Rightarrow> validation_error list" where
  "check_enum gm fuzzy r eff rule =
     (let f = vr_field rule in
      case map_of (st_schema eff) f of
        None \<Rightarrow> []
      | Some field \<Rightarrow>
          if sf_values field = [] then []
          else
            (case resolve_effective_field gm r eff f of
               Inl e \<Rightarrow> [source_resolution_error f (vr_source rule) (vr_severity rule) e]
             | Inr None \<Rightarrow> []
             | Inr (Some v) \<Rightarrow>
                 if enum_contains (sf_values field) v then []
                 else
                   let sug = fuzzy (fmt_v v) (sf_values field) in
                   [(mk_error ''enum'' f
                       (''value '' @ fmt_v v @ '' is not in allowed values: ['' @
                        join_with '', '' (sf_values field) @ '']'' @ did_you_mean sug (fmt_v v))
                       (vr_source rule) []) \<lparr> ve_suggestion := sug \<rparr>]))"

definition check_rule ::
  "(string \<Rightarrow> ast_heading list) \<Rightarrow> (string \<Rightarrow> string list \<Rightarrow> string) \<Rightarrow> doc \<Rightarrow> stem_file \<Rightarrow>
     validation_rule \<Rightarrow> validation_error list" where
  "check_rule gm fuzzy r eff rule =
     (if vr_rule rule = ''non_empty'' then check_non_empty gm r eff rule
      else if vr_rule rule = ''exists'' then check_exists gm r eff rule
      else if vr_rule rule = ''requires'' then check_requires gm r eff rule
      else if vr_rule rule = ''enum'' then check_enum gm fuzzy r eff rule
      else [])"

definition rule_errors ::
  "(string \<Rightarrow> ast_heading list) \<Rightarrow> (string \<Rightarrow> string list \<Rightarrow> string) \<Rightarrow> doc \<Rightarrow> stem_file \<Rightarrow>
     validation_rule \<Rightarrow> validation_error list" where
  "rule_errors gm fuzzy r eff rule =
     (if vr_severity rule = ''off'' then []
      else if outcome_blocks (field_outcome_of gm fuzzy r eff (vr_field rule)) then []
      else map (\<lambda>e. e\<lparr> ve_severity := vr_severity rule \<rparr>) (check_rule gm fuzzy r eff rule))"

section \<open>\<open>Validate\<close>\<close>

definition validate_record ::
  "(string \<Rightarrow> ast_heading list) \<Rightarrow> (string \<Rightarrow> string list \<Rightarrow> string) \<Rightarrow>
     (string \<Rightarrow> string \<Rightarrow> string + bool) \<Rightarrow> doc \<Rightarrow> stem_file option \<Rightarrow> validation_error list" where
  "validate_record gm fuzzy re r effective =
     (case effective of
        None \<Rightarrow> []
      | Some eff \<Rightarrow>
          schema_errors gm fuzzy r eff @ aggregate_errors r eff @
          validate_links re (rc_links r) (st_links eff) (st_path eff) @
          concat (map (rule_errors gm fuzzy r eff) (st_validate eff)))"

definition validate_structure :: "string \<Rightarrow> string \<Rightarrow> validation_error list" where
  "validate_structure content path =
     (let txt = trim_prefix content bom in
      case frontmatter_bounds txt of
        None \<Rightarrow> []
      | Some (start, stop, _) \<Rightarrow>
          let n = count_yaml_documents (slice txt start stop) in
          if n \<le> 1 then []
          else [mk_error ''multiple_yaml_documents'' ''_document''
                  (''frontmatter contains '' @ itoa (int n) @ '' YAML documents; expected exactly 1'')
                  path ''error''])"

section \<open>Directories\<close>

definition is_hidden_entry :: "string \<Rightarrow> bool" where
  "is_hidden_entry name = (name \<noteq> [] \<and> hd name = CHR ''.'')"

definition index_error ::
  "filesys \<Rightarrow> string \<Rightarrow> stem_file \<Rightarrow> string \<Rightarrow> string \<Rightarrow> validation_error list" where
  "index_error fs dir stem severity sub =
     (let sr = st_subdirs stem; idx = sd_require_index sr in
      case fs_stat fs (path_join (path_join dir sub) idx) of
        Inl NotExist \<Rightarrow>
          [mk_error ''require_index'' ''directory''
             (''subdirectory '' @ go_quote sub @ '' is missing required index file '' @ go_quote idx)
             (st_path stem) severity]
      | Inl e \<Rightarrow>
          [mk_error ''structural'' ''directory''
             (''cannot stat required index file '' @ go_quote idx @ '' in subdirectory '' @
              go_quote sub @ '': '' @ fs_err_text e) (st_path stem) severity]
      | Inr k \<Rightarrow>
          if k = KRegular then []
          else [mk_error ''require_index'' ''directory''
             (''subdirectory '' @ go_quote sub @ '' required index file '' @ go_quote idx @
              '' is not a regular file'') (st_path stem) severity])"

definition validate_directory ::
  "filesys \<Rightarrow> string \<Rightarrow> stem_file option \<Rightarrow> validation_error list" where
  "validate_directory fs dir stem_opt =
     (case stem_opt of
        None \<Rightarrow> []
      | Some stem \<Rightarrow>
          let sr = st_subdirs stem; severity = default_severity (sd_severity sr) in
          if structural_empty sr then []
          else
            (case fs_list fs dir of
               Inl e \<Rightarrow> [mk_error ''structural'' ''directory''
                 (''cannot read directory: '' @ fs_err_text e) (st_path stem) severity]
             | Inr listing \<Rightarrow>
                 let subdirs = map fst (filter (\<lambda>(n, k). k = KDir \<and> \<not> is_hidden_entry n) listing);
                     n = int (length subdirs)
                 in (if sd_min_children sr > 0 \<and> n < sd_min_children sr then
                       [mk_error ''min_children'' ''directory''
                          (''directory '' @ go_quote dir @ '' has '' @ itoa n @
                           '' subdirectories, minimum is '' @ itoa (sd_min_children sr))
                          (st_path stem) severity]
                     else []) @
                    (if sd_max_children sr > 0 \<and> n > sd_max_children sr then
                       [mk_error ''max_children'' ''directory''
                          (''directory '' @ go_quote dir @ '' has '' @ itoa n @
                           '' subdirectories, maximum is '' @ itoa (sd_max_children sr))
                          (st_path stem) severity]
                     else []) @
                    (if sd_require_index sr \<noteq> []
                     then concat (map (index_error fs dir stem severity) subdirs) else [])))"

section \<open>Drift between a parent record and its children\<close>

record drift_warning =
  dw_field :: string
  dw_parent_value :: val
  dw_children_value :: val
  dw_parent_path :: string
  dw_child_paths :: "string list"

definition values_equal :: "val \<Rightarrow> val \<Rightarrow> bool" where
  "values_equal a b =
     (if a = VNull \<and> b = VNull then True
      else if a = VNull \<or> b = VNull then False
      else fmt_v a = fmt_v b)"

definition unanimous_value :: "val list \<Rightarrow> val option" where
  "unanimous_value vals =
     (case vals of
        [] \<Rightarrow> None
      | first # rest \<Rightarrow> if list_all (values_equal first) rest then Some first else None)"

definition drift_of_field :: "doc \<Rightarrow> doc list \<Rightarrow> schema \<Rightarrow> string \<Rightarrow> drift_warning option" where
  "drift_of_field parent children sch name =
     (case map_of sch name of
        None \<Rightarrow> None
      | Some field \<Rightarrow>
          if sf_match field \<noteq> None then None
          else
            (case map_of (rc_frontmatter parent) name of
               None \<Rightarrow> None
             | Some pv \<Rightarrow>
                 let havers = filter (\<lambda>c. map_of (rc_frontmatter c) name \<noteq> None) children in
                 (case unanimous_value (map (\<lambda>c. map_get (rc_frontmatter c) name) havers) of
                    None \<Rightarrow> None
                  | Some consensus \<Rightarrow>
                      if values_equal pv consensus then None
                      else Some \<lparr> dw_field = name, dw_parent_value = pv, dw_children_value = consensus,
                                  dw_parent_path = rc_path parent,
                                  dw_child_paths = map rc_path havers \<rparr>)))"

definition detect_drift :: "doc \<Rightarrow> doc list \<Rightarrow> schema \<Rightarrow> drift_warning list" where
  "detect_drift parent children sch =
     (if children = [] then []
      else List.map_filter (drift_of_field parent children sch) (sorted_keys sch))"

section \<open>Results\<close>

record validation_result =
  vs_path :: string
  vs_valid :: bool
  vs_errors :: "validation_error list"
  vs_warnings :: "validation_error list"

definition new_validation_result :: "string \<Rightarrow> validation_error list \<Rightarrow> validation_result" where
  "new_validation_result path errs =
     (let errors = filter (\<lambda>e. ve_severity e \<noteq> ''warn'') errs;
          warnings = filter (\<lambda>e. ve_severity e = ''warn'') errs
      in \<lparr> vs_path = path, vs_valid = (length errors = 0), vs_errors = errors,
           vs_warnings = warnings \<rparr>)"

record notice =
  nt_severity :: string
  nt_code :: string
  nt_message :: string

record health_diag =
  hd_path :: string
  hd_check :: string
  hd_field :: string
  hd_severity :: string
  hd_message :: string

record batch_summary =
  bs_total :: nat
  bs_valid :: nat
  bs_invalid :: nat
  bs_errors :: nat
  bs_warnings :: nat
  bs_drift :: nat
  bs_structural_errors :: nat
  bs_structural_warnings :: nat
  bs_health_errors :: nat
  bs_health_warnings :: nat
  bs_health_info :: nat

record envelope_input =
  ei_results :: "validation_result list"
  ei_structural :: "validation_result list"
  ei_stem_health :: "health_diag list"
  ei_drift :: "drift_warning list"
  ei_notices :: "notice list"

definition count_result :: "batch_summary \<Rightarrow> validation_result \<Rightarrow> batch_summary" where
  "count_result s r =
     (let s1 = (if vs_valid r then s\<lparr> bs_valid := bs_valid s + 1 \<rparr>
                else s\<lparr> bs_invalid := bs_invalid s + 1 \<rparr>)
      in s1\<lparr> bs_errors := bs_errors s1 + length (vs_errors r),
             bs_warnings := bs_warnings s1 + length (vs_warnings r) \<rparr>)"

definition count_structural :: "batch_summary \<Rightarrow> validation_result \<Rightarrow> batch_summary" where
  "count_structural s r =
     s\<lparr> bs_structural_errors := bs_structural_errors s + length (vs_errors r),
        bs_structural_warnings := bs_structural_warnings s + length (vs_warnings r) \<rparr>"

definition count_health :: "batch_summary \<Rightarrow> health_diag \<Rightarrow> batch_summary" where
  "count_health s d =
     (if hd_severity d = ''error'' then s\<lparr> bs_health_errors := bs_health_errors s + 1 \<rparr>
      else if hd_severity d = ''info'' then s\<lparr> bs_health_info := bs_health_info s + 1 \<rparr>
      else s\<lparr> bs_health_warnings := bs_health_warnings s + 1 \<rparr>)"

definition envelope_summary :: "envelope_input \<Rightarrow> batch_summary" where
  "envelope_summary i =
     (let s0 = \<lparr> bs_total = length (ei_results i), bs_valid = 0, bs_invalid = 0, bs_errors = 0,
            bs_warnings = 0, bs_drift = 0, bs_structural_errors = 0, bs_structural_warnings = 0,
            bs_health_errors = 0, bs_health_warnings = 0, bs_health_info = 0 \<rparr>;
          s1 = foldl count_result s0 (ei_results i);
          s2 = foldl count_structural s1 (ei_structural i);
          s3 = foldl count_health s2 (ei_stem_health i)
      in s3\<lparr> bs_drift := length (ei_drift i) \<rparr>)"

text \<open>The envelope carries its populations unchanged; an absent one is the empty list.\<close>

record validation_envelope =
  ev_version :: nat
  ev_kind :: string
  ev_input :: envelope_input
  ev_summary :: batch_summary

definition new_validation_envelope :: "envelope_input \<Rightarrow> validation_envelope" where
  "new_validation_envelope i =
     \<lparr> ev_version = 2, ev_kind = ''rootline/validate-batch'', ev_input = i,
       ev_summary = envelope_summary i \<rparr>"

definition has_error_notice :: "notice list \<Rightarrow> bool" where
  "has_error_notice ns = (\<exists>n \<in> set ns. nt_severity n = ''error'')"

section \<open>The abstract specification\<close>

text \<open>What it means for a record to satisfy one schema field.\<close>

definition field_conforms ::
  "(string \<Rightarrow> ast_heading list) \<Rightarrow> doc \<Rightarrow> stem_file \<Rightarrow> string \<Rightarrow> schema_field \<Rightarrow> bool" where
  "field_conforms gm r eff name f =
     (case resolve_field_value gm r name f of
        Inl _ \<Rightarrow> False
      | Inr None \<Rightarrow> \<not> (sf_required f \<and> required_check_applies r eff name f)
      | Inr (Some v) \<Rightarrow> validate_field_value f v = None)"

definition field_present :: "(string \<Rightarrow> ast_heading list) \<Rightarrow> doc \<Rightarrow> stem_file \<Rightarrow> string \<Rightarrow> bool" where
  "field_present gm r eff name = (\<exists>v. resolve_effective_field gm r eff name = Inr (Some v))"

definition enum_rule_holds ::
  "(string \<Rightarrow> ast_heading list) \<Rightarrow> doc \<Rightarrow> stem_file \<Rightarrow> string \<Rightarrow> bool" where
  "enum_rule_holds gm r eff name =
     (\<forall>f. map_of (st_schema eff) name = Some f \<and> sf_values f \<noteq> [] \<longrightarrow>
        (\<exists>o'. resolve_effective_field gm r eff name = Inr o' \<and>
           (\<forall>v. o' = Some v \<longrightarrow> fmt_v v \<in> set (sf_values f))))"

definition rule_holds ::
  "(string \<Rightarrow> ast_heading list) \<Rightarrow> doc \<Rightarrow> stem_file \<Rightarrow> validation_rule \<Rightarrow> bool" where
  "rule_holds gm r eff rule =
     (if vr_rule rule = ''non_empty'' then
        (\<exists>v. resolve_effective_field gm r eff (vr_field rule) = Inr (Some v) \<and> v \<noteq> VStr [])
      else if vr_rule rule = ''exists'' then field_present gm r eff (vr_field rule)
      else if vr_rule rule = ''requires'' then
        (\<exists>b. condition_matches gm r eff (vr_if rule) = Inr b \<and>
           (b \<longrightarrow> (\<forall>f \<in> set (extract_then_fields (vr_then rule)). field_present gm r eff f)))
      else if vr_rule rule = ''enum'' then enum_rule_holds gm r eff (vr_field rule)
      else True)"

definition link_conforms :: "(string \<Rightarrow> string \<Rightarrow> string + bool) \<Rightarrow> link_schema \<Rightarrow> link \<Rightarrow> bool" where
  "link_conforms re ls l =
     (link_style l \<in> set (effective_styles ls) \<longrightarrow>
        (opt_list (ls_allowed ls) = [] \<or> lk_type l \<in> set (opt_list (ls_allowed ls))) \<and>
        (\<forall>rule. map_of (ls_rules ls) (lk_type l) = Some rule \<and> lr_target rule \<noteq> [] \<longrightarrow>
           re (lr_target rule) (lk_target l) = Inr True))"

definition aggregate_agrees :: "doc \<Rightarrow> stem_file \<Rightarrow> string \<Rightarrow> bool" where
  "aggregate_agrees r eff name =
     (is_index_file (rc_path r) (st_subdirs eff) \<longrightarrow>
        (\<forall>fv dv. map_of (rc_frontmatter r) name = Some fv \<and> map_of (rc_derived r) name = Some dv \<longrightarrow>
           fmt_v fv = fmt_v dv))"

definition record_conforms ::
  "(string \<Rightarrow> ast_heading list) \<Rightarrow> (string \<Rightarrow> string \<Rightarrow> string + bool) \<Rightarrow> doc \<Rightarrow> stem_file \<Rightarrow> bool" where
  "record_conforms gm re r eff =
     ((\<forall>k f. map_of (st_schema eff) k = Some f \<and> sf_severity f \<noteq> ''off'' \<longrightarrow>
         field_conforms gm r eff k f) \<and>
      (\<forall>k \<in> dom (map_of (st_aggregate eff)). aggregate_agrees r eff k) \<and>
      (links_empty (st_links eff) \<or> (\<forall>l \<in> set (rc_links r). link_conforms re (st_links eff) l)) \<and>
      (\<forall>rule \<in> set (st_validate eff). vr_severity rule \<noteq> ''off'' \<longrightarrow> rule_holds gm r eff rule))"

section \<open>Lemmas\<close>

lemma check_field_ok:
  "outcome_errors (check_field gm fuzzy r eff name f) = [] \<longleftrightarrow>
     (sf_severity f = ''off'' \<or> field_conforms gm r eff name f)"
  by (auto simp: check_field_def outcome_errors_def field_conforms_def
      split: sum.split option.split)

lemma schema_errors_Nil:
  "schema_errors gm fuzzy r eff = [] \<longleftrightarrow>
     (\<forall>k f. map_of (st_schema eff) k = Some f \<and> sf_severity f \<noteq> ''off'' \<longrightarrow> field_conforms gm r eff k f)"
  by (auto simp: schema_errors_def field_outcome_of_def check_field_ok dom_def split: option.splits)

lemma outcome_not_blocked:
  "outcome_errors o' = [] \<Longrightarrow> \<not> outcome_blocks o'"
  by (cases o') (auto simp: outcome_errors_def outcome_blocks_def)

lemma schema_clean_not_blocked:
  assumes "schema_errors gm fuzzy r eff = []"
  shows "\<not> outcome_blocks (field_outcome_of gm fuzzy r eff name)"
proof (cases "map_of (st_schema eff) name")
  case None
  then show ?thesis by (simp add: field_outcome_of_def outcome_blocks_def)
next
  case (Some f)
  then have "name \<in> set (sorted_keys (st_schema eff))" by auto
  with assms have "outcome_errors (field_outcome_of gm fuzzy r eff name) = []"
    by (simp add: schema_errors_def)
  then show ?thesis by (rule outcome_not_blocked)
qed

lemma aggregate_error_Nil: "aggregate_error r eff k = [] \<longleftrightarrow> aggregate_agrees r eff k"
  by (auto simp: aggregate_error_def aggregate_agrees_def split: option.splits)

lemma link_errors_Nil: "link_errors re ls src l = [] \<longleftrightarrow> link_conforms re ls l"
  by (auto simp: link_errors_def link_conforms_def split: option.splits sum.splits bool.splits)

lemma check_non_empty_Nil:
  "check_non_empty gm r eff rule = [] \<longleftrightarrow>
     (\<exists>v. resolve_effective_field gm r eff (vr_field rule) = Inr (Some v) \<and> v \<noteq> VStr [])"
  by (auto simp: check_non_empty_def Let_def split: sum.split option.split)

lemma check_exists_Nil:
  "check_exists gm r eff rule = [] \<longleftrightarrow> field_present gm r eff (vr_field rule)"
  by (auto simp: check_exists_def field_present_def Let_def split: sum.split option.split)

lemma require_field_Nil: "require_field gm r eff rule f = [] \<longleftrightarrow> field_present gm r eff f"
  by (auto simp: require_field_def field_present_def split: sum.split option.split)

lemma check_requires_Nil:
  "check_requires gm r eff rule = [] \<longleftrightarrow>
     (\<exists>b. condition_matches gm r eff (vr_if rule) = Inr b \<and>
        (b \<longrightarrow> (\<forall>f \<in> set (extract_then_fields (vr_then rule)). field_present gm r eff f)))"
proof (cases "condition_matches gm r eff (vr_if rule)")
  case (Inr b)
  then show ?thesis by (cases b) (auto simp: check_requires_def require_field_Nil)
next
  case (Inl p)
  then show ?thesis by (cases p) (auto simp: check_requires_def)
qed

lemma check_enum_Nil:
  "check_enum gm fuzzy r eff rule = [] \<longleftrightarrow> enum_rule_holds gm r eff (vr_field rule)"
  by (auto simp: check_enum_def enum_rule_holds_def enum_contains_def Let_def
      split: sum.split option.split)

lemma check_rule_Nil: "check_rule gm fuzzy r eff rule = [] \<longleftrightarrow> rule_holds gm r eff rule"
  by (simp add: check_rule_def rule_holds_def check_non_empty_Nil check_exists_Nil
      check_requires_Nil check_enum_Nil)

lemmas rule_error_Nils =
  check_non_empty_Nil check_exists_Nil check_requires_Nil check_enum_Nil check_rule_Nil

lemma field_outcome_of_cong:
  assumes "map_of (st_schema eff) = map_of (st_schema eff')" "st_aggregate eff = st_aggregate eff'"
    "st_subdirs eff = st_subdirs eff'"
  shows "field_outcome_of gm fuzzy r eff n = field_outcome_of gm fuzzy r eff' n"
proof -
  have rq: "required_check_applies r eff n f = required_check_applies r eff' n f" for n f
    using assms(2,3) by (simp add: required_check_applies_def)
  have "check_field gm fuzzy r eff n f = check_field gm fuzzy r eff' n f" for n f
    unfolding check_field_def rq ..
  then show ?thesis
    unfolding field_outcome_of_def assms(1) by (simp split: option.split)
qed

lemma schema_errors_cong [det_intros]:
  assumes "map_of (st_schema eff) = map_of (st_schema eff')" "st_aggregate eff = st_aggregate eff'"
    "st_subdirs eff = st_subdirs eff'"
  shows "schema_errors gm fuzzy r eff = schema_errors gm fuzzy r eff'"
  by (simp only: schema_errors_def sorted_keys_map_of_cong [OF assms(1)]
      field_outcome_of_cong [OF assms])

lemma condition_matches_cong:
  assumes "\<And>n. resolve_effective_field gm r eff n = resolve_effective_field gm r eff' n"
  shows "condition_matches gm r eff c = condition_matches gm r eff' c"
proof (induction c)
  case (Cons kv rest)
  obtain k e where kv: "kv = (k, e)" by (cases kv)
  show ?case
    unfolding kv condition_matches.simps assms Cons.IH ..
qed simp

lemma foldl_count_result:
  "foldl count_result s rs =
     s\<lparr> bs_valid := bs_valid s + length (filter vs_valid rs),
        bs_invalid := bs_invalid s + length (filter (\<lambda>r. \<not> vs_valid r) rs),
        bs_errors := bs_errors s + sum_list (map (\<lambda>r. length (vs_errors r)) rs),
        bs_warnings := bs_warnings s + sum_list (map (\<lambda>r. length (vs_warnings r)) rs) \<rparr>"
  by (induction rs arbitrary: s) (auto simp: count_result_def Let_def)

lemma foldl_count_structural:
  "foldl count_structural s rs =
     s\<lparr> bs_structural_errors := bs_structural_errors s + sum_list (map (\<lambda>r. length (vs_errors r)) rs),
        bs_structural_warnings :=
          bs_structural_warnings s + sum_list (map (\<lambda>r. length (vs_warnings r)) rs) \<rparr>"
  by (induction rs arbitrary: s) (auto simp: count_structural_def)

lemma foldl_count_health:
  "foldl count_health s ds =
     s\<lparr> bs_health_errors := bs_health_errors s + length (filter (\<lambda>d. hd_severity d = ''error'') ds),
        bs_health_info := bs_health_info s + length (filter (\<lambda>d. hd_severity d = ''info'') ds),
        bs_health_warnings := bs_health_warnings s +
          length (filter (\<lambda>d. hd_severity d \<noteq> ''error'' \<and> hd_severity d \<noteq> ''info'') ds) \<rparr>"
  by (induction ds arbitrary: s) (auto simp: count_health_def)

lemma drift_of_field_SomeD:
  assumes "drift_of_field parent children sch name = Some w"
  shows "\<exists>pv. map_of (rc_frontmatter parent) name = Some pv \<and> dw_field w = name \<and>
     dw_parent_value w = pv \<and> \<not> values_equal pv (dw_children_value w) \<and>
     dw_child_paths w = map rc_path (filter (\<lambda>c. map_of (rc_frontmatter c) name \<noteq> None) children) \<and>
     (\<forall>c \<in> set children. \<forall>v. map_of (rc_frontmatter c) name = Some v \<longrightarrow>
        values_equal (dw_children_value w) v)"
proof -
  define havers where "havers = filter (\<lambda>c. map_of (rc_frontmatter c) name \<noteq> None) children"
  from assms obtain pv cv where
    pv: "map_of (rc_frontmatter parent) name = Some pv"
    and u: "unanimous_value (map (\<lambda>c. map_get (rc_frontmatter c) name) havers) = Some cv"
    and ne: "\<not> values_equal pv cv"
    and w: "w = \<lparr> dw_field = name, dw_parent_value = pv, dw_children_value = cv,
               dw_parent_path = rc_path parent, dw_child_paths = map rc_path havers \<rparr>"
    unfolding drift_of_field_def Let_def havers_def [symmetric]
    by (auto split: option.splits if_splits)
  have all: "\<forall>v \<in> set (map (\<lambda>c. map_get (rc_frontmatter c) name) havers). values_equal cv v"
    using u by (auto simp: unanimous_value_def list_all_iff values_equal_def split: list.splits if_splits)
  have "values_equal cv v" if "c \<in> set children" "map_of (rc_frontmatter c) name = Some v" for c v
  proof -
    have "c \<in> set havers" "map_get (rc_frontmatter c) name = v"
      using that by (auto simp: havers_def map_get_def)
    with all show ?thesis by auto
  qed
  with pv ne w show ?thesis by (auto simp: havers_def)
qed

section \<open>Properties\<close>

definition no_fuzzy :: "string \<Rightarrow> string list \<Rightarrow> string" where "no_fuzzy s cs = []"
definition no_headings :: "string \<Rightarrow> ast_heading list" where "no_headings s = []"
definition any_regexp :: "string \<Rightarrow> string \<Rightarrow> string + bool" where "any_regexp p s = Inr True"

text \<open>C3: Validation decides the specification: a record gets an empty report exactly when it conforms,
  that is, every schema field that is not off resolves and satisfies its contract or may be absent,
  the aggregates of an index file agree, its links are allowed, and every explicit rule that is not off holds.\<close>

theorem validate_decides_conformance:
  "validate_record gm fuzzy re r (Some eff) = [] \<longleftrightarrow> record_conforms gm re r eff"
proof -
  have agg: "aggregate_errors r eff = [] \<longleftrightarrow>
      (\<forall>k \<in> dom (map_of (st_aggregate eff)). aggregate_agrees r eff k)"
    by (auto simp: aggregate_errors_def aggregate_error_Nil)
  have lnk: "validate_links re (rc_links r) (st_links eff) (st_path eff) = [] \<longleftrightarrow>
      links_empty (st_links eff) \<or> (\<forall>l \<in> set (rc_links r). link_conforms re (st_links eff) l)"
    by (auto simp: validate_links_def link_errors_Nil)
  have rules: "concat (map (rule_errors gm fuzzy r eff) (st_validate eff)) = [] \<longleftrightarrow>
      (\<forall>rule \<in> set (st_validate eff). vr_severity rule \<noteq> ''off'' \<longrightarrow> rule_holds gm r eff rule)"
    if "schema_errors gm fuzzy r eff = []"
    unfolding concat_map_Nil rule_errors_def using schema_clean_not_blocked [OF that]
    by (simp add: check_rule_Nil)
  show ?thesis
    unfolding validate_record_def record_conforms_def
    using agg lnk rules schema_errors_Nil [of gm fuzzy r eff] by auto
qed

text \<open>The report does not depend on the iteration order of the schema map: two effective files that
  declare the same fields, and agree otherwise, give the same list of errors.\<close>

theorem validate_order_independent:
  assumes "map_of sch = map_of (st_schema eff)"
  shows "validate_record gm fuzzy re r (Some (eff\<lparr> st_schema := sch \<rparr>)) =
     validate_record gm fuzzy re r (Some eff)"
proof -
  let ?e = "eff\<lparr> st_schema := sch \<rparr>"
  have s: "schema_errors gm fuzzy r ?e = schema_errors gm fuzzy r eff"
    by (rule schema_errors_cong) (simp_all add: assms)
  have res: "resolve_effective_field gm r ?e n = resolve_effective_field gm r eff n" for n
    by (simp add: resolve_effective_field_def assms)
  have cond: "condition_matches gm r ?e c = condition_matches gm r eff c" for c
    by (rule condition_matches_cong) (rule res)
  have out: "field_outcome_of gm fuzzy r ?e n = field_outcome_of gm fuzzy r eff n" for n
    by (rule field_outcome_of_cong) (simp_all add: assms)
  have rule: "check_rule gm fuzzy r ?e rule = check_rule gm fuzzy r eff rule" for rule
    unfolding check_rule_def check_non_empty_def check_exists_def check_requires_def check_enum_def
      require_field_def res cond by (simp add: assms)
  have "aggregate_error r ?e = aggregate_error r eff"
    by (rule ext) (simp add: aggregate_error_def assms split: option.split)
  then have "aggregate_errors r ?e = aggregate_errors r eff"
    by (simp add: aggregate_errors_def)
  moreover have "rule_errors gm fuzzy r ?e = rule_errors gm fuzzy r eff"
    by (rule ext) (simp only: rule_errors_def out rule)
  ultimately show ?thesis using s
    by (simp add: validate_record_def)
qed

theorem validate_order_independent_witness:
  "validate_record no_headings no_fuzzy any_regexp zero_doc
     (Some (zero_stem\<lparr> st_schema := [(''b'', narrow_child), (''a'', narrow_parent)] \<rparr>)) =
   validate_record no_headings no_fuzzy any_regexp zero_doc
     (Some (zero_stem\<lparr> st_schema := [(''a'', narrow_parent), (''b'', narrow_child)] \<rparr>))"
proof -
  have "map_of [(''b'', narrow_child), (''a'', narrow_parent)] =
      map_of (st_schema (zero_stem\<lparr> st_schema := [(''a'', narrow_parent), (''b'', narrow_child)] \<rparr>))"
    by auto
  from validate_order_independent [OF this] show ?thesis by simp
qed

text \<open>A result loses no error: the errors and warnings of a result are the reported errors split by
  severity, and the document is valid exactly when everything reported is a warning.\<close>

theorem result_partitions_report:
  "mset (vs_errors (new_validation_result p errs)) + mset (vs_warnings (new_validation_result p errs)) =
     mset errs \<and>
   (vs_valid (new_validation_result p errs) \<longleftrightarrow> (\<forall>e \<in> set errs. ve_severity e = ''warn''))"
  by (auto simp: new_validation_result_def Let_def filter_empty_conv)

text \<open>The summary of an envelope agrees with its payload: valid and invalid documents add up to the
  total, every count is the size of the population it names, and each health diagnostic is counted
  under exactly one severity.\<close>

theorem envelope_counts_agree:
  "let s = ev_summary (new_validation_envelope i) in
     bs_total s = length (ei_results i) \<and> bs_valid s + bs_invalid s = bs_total s \<and>
     bs_valid s = length (filter vs_valid (ei_results i)) \<and>
     bs_errors s = sum_list (map (\<lambda>r. length (vs_errors r)) (ei_results i)) \<and>
     bs_warnings s = sum_list (map (\<lambda>r. length (vs_warnings r)) (ei_results i)) \<and>
     bs_structural_errors s = sum_list (map (\<lambda>r. length (vs_errors r)) (ei_structural i)) \<and>
     bs_health_errors s + bs_health_warnings s + bs_health_info s = length (ei_stem_health i) \<and>
     bs_drift s = length (ei_drift i)"
proof -
  have "length (filter (\<lambda>d. hd_severity d = ''error'') ds) +
      length (filter (\<lambda>d. hd_severity d \<noteq> ''error'' \<and> hd_severity d \<noteq> ''info'') ds) +
      length (filter (\<lambda>d. hd_severity d = ''info'') ds) = length ds" for ds
    by (induction ds) auto
  then show ?thesis
    by (simp add: new_validation_envelope_def envelope_summary_def Let_def foldl_count_result
        foldl_count_structural foldl_count_health sum_length_filter_compl)
qed

text \<open>A drift warning is grounded: it names a field the parent has with a different value than the
  one every child that has the field agrees on, and lists exactly those children.\<close>

theorem drift_warning_sound:
  assumes "w \<in> set (detect_drift parent children sch)"
  shows "\<exists>pv. map_of (rc_frontmatter parent) (dw_field w) = Some pv \<and>
     \<not> values_equal pv (dw_children_value w) \<and>
     dw_child_paths w =
       map rc_path (filter (\<lambda>c. map_of (rc_frontmatter c) (dw_field w) \<noteq> None) children) \<and>
     (\<forall>c \<in> set children. \<forall>v. map_of (rc_frontmatter c) (dw_field w) = Some v \<longrightarrow>
        values_equal (dw_children_value w) v)"
proof -
  from assms obtain name where "drift_of_field parent children sch name = Some w"
    by (auto simp: detect_drift_def map_filter_def split: if_splits)
  from drift_of_field_SomeD [OF this] show ?thesis by auto
qed

theorem drift_warning_sound_witness:
  "\<not> values_equal (VStr ''open'') (VStr ''done'') \<and>
   (\<exists>w. w \<in> set (detect_drift (zero_doc\<lparr> rc_frontmatter := [(''estado'', VStr ''open'')] \<rparr>)
       [zero_doc\<lparr> rc_path := ''a.md'', rc_frontmatter := [(''estado'', VStr ''done'')] \<rparr>]
       [(''estado'', sample_field ''string'' ''error'')]) \<and> dw_child_paths w = [''a.md''])"
proof -
  let ?p = "zero_doc\<lparr> rc_frontmatter := [(''estado'', VStr ''open'')] \<rparr>"
  let ?c = "[zero_doc\<lparr> rc_path := ''a.md'', rc_frontmatter := [(''estado'', VStr ''done'')] \<rparr>]"
  let ?s = "[(''estado'', sample_field ''string'' ''error'')]"
  define ws where "ws = detect_drift ?p ?c ?s"
  have "length ws = 1" "map dw_field ws = [''estado'']" "map dw_children_value ws = [VStr ''done'']"
    unfolding ws_def by code_simp+
  then obtain w where w: "w \<in> set (detect_drift ?p ?c ?s)" "dw_field w = ''estado''"
    "dw_children_value w = VStr ''done''" by (cases ws) (auto simp: ws_def)
  from drift_warning_sound [OF w(1)] w show ?thesis by auto
qed

text \<open>An aggregate mismatch is reported for a field whose severity is \<open>off\<close>, and such an entry makes
  the document invalid.\<close>

lemma aggregate_error_ignores_off:
  "vs_valid (new_validation_result ''README.md''
     (validate_record no_headings no_fuzzy any_regexp
        (zero_doc\<lparr> rc_path := ''README.md'', rc_frontmatter := [(''n'', VInt 1)],
           rc_derived := [(''n'', VInt 2)] \<rparr>)
        (Some (zero_stem\<lparr> st_schema := [(''n'', sample_field ''integer'' ''off'')],
           st_aggregate := [(''n'', VStr ''count()'')] \<rparr>)))) = False"
  by code_simp

end
