(* ===== verification/Link_Resolution.thy ===== *)
theory Link_Resolution
  imports Validation Doc_Extraction
begin

text \<open>
  Whether a link target exists: the single resolver of \<open>internal/rules/link_resolve.go\<close>, its users
  \<open>link_prepare.go\<close>, \<open>link_targets.go\<close>, \<open>link_filter.go\<close>, \<open>link_schema_scope.go\<close>, and the link checks of
  validation in \<open>link_checks.go\<close>.

  Parameters, gathered in \<open>link_env\<close>: the file system, \<open>filepath.EvalSymlinks\<close>, \<open>os.SameFile\<close> on two
  paths, the closest match of \<open>picokit/fuzzy\<close>, the YAML parse of a \<open>.stem\<close>, the YAML of a document
  and goldmark's headings.
\<close>

record link_env =
  le_fs :: filesys
  le_eval :: "string \<Rightarrow> fs_err + string"
  le_same :: "string \<Rightarrow> string \<Rightarrow> bool"
  le_fuzzy :: "string \<Rightarrow> string list \<Rightarrow> string"
  le_stem_yaml :: "string \<Rightarrow> string + stem_file"
  le_doc_yaml :: "string \<Rightarrow> string + ydoc"
  le_headings :: "string \<Rightarrow> ast_heading list"

section \<open>Percent escapes: \<open>url.PathUnescape\<close>\<close>

fun path_unescape :: "string \<Rightarrow> string option" where
  "path_unescape [] = Some []"
| "path_unescape (c # cs) =
     (if c = CHR ''%'' then
        (case cs of
           a # b # rest \<Rightarrow>
             (case (hex_val a, hex_val b) of
                (Some h, Some l) \<Rightarrow> map_option ((#) (char_of (16 * h + l))) (path_unescape rest)
              | _ \<Rightarrow> None)
         | _ \<Rightarrow> None)
      else map_option ((#) c) (path_unescape cs))"

definition unescape_or_same :: "string \<Rightarrow> string" where
  "unescape_or_same s = (case path_unescape s of None \<Rightarrow> s | Some d \<Rightarrow> d)"

section \<open>Physical paths\<close>

text \<open>The loop of \<open>CanonicalPhysicalPath\<close>: up to the deepest existing parent, then down again.\<close>

function canonical_loop ::
  "filesys \<Rightarrow> (string \<Rightarrow> fs_err + string) \<Rightarrow> string \<Rightarrow> string list \<Rightarrow> string \<Rightarrow> fs_err + string" where
  "canonical_loop fs ev clean missing cur =
     (case fs_lstat fs cur of
        Inr _ \<Rightarrow>
          (case ev cur of
             Inl e \<Rightarrow> Inl e
           | Inr real \<Rightarrow> Inr (path_clean (foldl path_join real (rev missing))))
      | Inl e \<Rightarrow>
          if e \<noteq> NotExist then Inl e
          else if path_dir cur = cur then Inr clean
          else canonical_loop fs ev clean (missing @ [path_base cur]) (path_dir cur))"
  by pat_completeness auto
termination
  by (relation "measure (\<lambda>(fs, ev, clean, missing, cur). up_measure cur)")
    (auto intro: path_dir_measure)

declare canonical_loop.simps [simp del]

definition canonical_physical_path :: "link_env \<Rightarrow> string \<Rightarrow> fs_err + string" where
  "canonical_physical_path env path =
     (let clean = path_clean (path_abs (fs_cwd (le_fs env)) path) in
      case le_eval env clean of
        Inr real \<Rightarrow> Inr (path_clean real)
      | Inl _ \<Rightarrow> canonical_loop (le_fs env) (le_eval env) clean [] clean)"

definition physical_path_within :: "link_env \<Rightarrow> string \<Rightarrow> string \<Rightarrow> fs_err + bool" where
  "physical_path_within env root path =
     (if root = [] then Inr True
      else case canonical_physical_path env root of
        Inl e \<Rightarrow> Inl e
      | Inr real_root \<Rightarrow>
          (case canonical_physical_path env path of
             Inl e \<Rightarrow> Inl e
           | Inr real_path \<Rightarrow>
               (case path_rel real_root real_path of
                  None \<Rightarrow> Inl (IoErr (''Rel: can'' @ [CHR 0x27] @ ''t make '' @ real_path @
                    '' relative to '' @ real_root))
                | Some rel \<Rightarrow> Inr (rel \<noteq> ''..'' \<and> \<not> has_prefix rel ''../''))))"

definition within_root :: "link_env \<Rightarrow> string \<Rightarrow> string \<Rightarrow> bool" where
  "within_root env root path = (physical_path_within env root path = Inr True)"

section \<open>Providers\<close>

text \<open>\<open>linkTargetProvider\<close>: the names of a directory, and whether an existing path is one.\<close>

record link_provider =
  lp_read_dir :: "string \<Rightarrow> fs_err + string list"
  lp_stat :: "string \<Rightarrow> fs_err + bool"

definition disk_read_dir :: "filesys \<Rightarrow> string \<Rightarrow> fs_err + string list" where
  "disk_read_dir fs dir =
     (case fs_list fs dir of Inl e \<Rightarrow> Inl e | Inr entries \<Rightarrow> Inr (map fst entries))"

definition disk_stat :: "filesys \<Rightarrow> string \<Rightarrow> fs_err + bool" where
  "disk_stat fs path = (case fs_stat fs path of Inl e \<Rightarrow> Inl e | Inr k \<Rightarrow> Inr (k = KDir))"

definition disk_provider :: "link_env \<Rightarrow> link_provider" where
  "disk_provider env =
     \<lparr> lp_read_dir = disk_read_dir (le_fs env), lp_stat = disk_stat (le_fs env) \<rparr>"

text \<open>The overlay of one prospective file; \<open>ov_target\<close> is its path when it already exists.\<close>

record link_overlay =
  ov_path :: string
  ov_dir :: string
  ov_base :: string
  ov_content :: string
  ov_target :: "string option"

definition new_overlay :: "link_env \<Rightarrow> string \<Rightarrow> string \<Rightarrow> string \<Rightarrow> link_overlay option" where
  "new_overlay env target_path content root =
     (if target_path = [] then None
      else if \<not> within_root env root target_path then None
      else
        let ap = path_abs (fs_cwd (le_fs env)) target_path in
        case (canonical_physical_path env ap, canonical_physical_path env (path_dir ap)) of
          (Inr pp, Inr pd) \<Rightarrow>
            (case fs_stat (le_fs env) ap of
               Inr _ \<Rightarrow> Some \<lparr> ov_path = pp, ov_dir = pd, ov_base = path_base ap,
                  ov_content = content, ov_target = Some ap \<rparr>
             | Inl NotExist \<Rightarrow> Some \<lparr> ov_path = pp, ov_dir = pd, ov_base = path_base ap,
                  ov_content = content, ov_target = None \<rparr>
             | Inl _ \<Rightarrow> None)
        | _ \<Rightarrow> None)"

definition overlay_dir_matches :: "link_env \<Rightarrow> link_overlay \<Rightarrow> string \<Rightarrow> bool" where
  "overlay_dir_matches env o' dir = (canonical_physical_path env dir = Inr (ov_dir o'))"

definition overlay_path_matches :: "link_env \<Rightarrow> link_overlay \<Rightarrow> string \<Rightarrow> bool" where
  "overlay_path_matches env o' path =
     (case ov_target o' of
        Some t \<Rightarrow>
          (case fs_stat (le_fs env) path of Inr _ \<Rightarrow> le_same env t path | Inl _ \<Rightarrow> False)
      | None \<Rightarrow> canonical_physical_path env path = Inr (ov_path o'))"

definition overlay_read_dir :: "link_env \<Rightarrow> link_overlay \<Rightarrow> string \<Rightarrow> fs_err + string list" where
  "overlay_read_dir env o' dir =
     (let disk = disk_read_dir (le_fs env) dir in
      if \<not> overlay_dir_matches env o' dir then disk
      else
        let names = (case disk of Inl _ \<Rightarrow> [] | Inr ns \<Rightarrow> ns) in
        if ov_base o' \<in> set names then Inr names
        else if (\<exists>n \<in> set names. to_lower n = to_lower (ov_base o')) \<and>
          \<not> isl (disk_stat (le_fs env) (path_join dir (ov_base o')))
        then Inr names
        else Inr (names @ [ov_base o']))"

definition overlay_stat :: "link_env \<Rightarrow> link_overlay \<Rightarrow> string \<Rightarrow> fs_err + bool" where
  "overlay_stat env o' path =
     (if overlay_path_matches env o' path then Inr False else disk_stat (le_fs env) path)"

definition overlay_provider :: "link_env \<Rightarrow> link_overlay \<Rightarrow> link_provider" where
  "overlay_provider env o' =
     \<lparr> lp_read_dir = overlay_read_dir env o', lp_stat = overlay_stat env o' \<rparr>"

definition provider_for :: "link_env \<Rightarrow> link_overlay option \<Rightarrow> link_provider" where
  "provider_for env o' =
     (case o' of None \<Rightarrow> disk_provider env | Some ov \<Rightarrow> overlay_provider env ov)"

section \<open>The resolver\<close>

record resolve_request =
  rq_base :: string
  rq_root :: string
  rq_target :: string
  rq_style :: string

record link_resolution =
  rn_path :: string
  rn_suggestion :: string
  rn_ok :: bool

definition unresolved :: "string \<Rightarrow> link_resolution" where
  "unresolved suggestion = \<lparr> rn_path = [], rn_suggestion = suggestion, rn_ok = False \<rparr>"

text \<open>\<open>findEntry\<close>: the entry, or the suggestion offered when it is absent.\<close>

definition find_entry ::
  "link_env \<Rightarrow> link_provider \<Rightarrow> string \<Rightarrow> string \<Rightarrow> string \<Rightarrow> string + string" where
  "find_entry env p root dir name =
     (if \<not> within_root env root dir then Inl []
      else case lp_read_dir p dir of
        Inl _ \<Rightarrow> Inl []
      | Inr names \<Rightarrow> if name \<in> set names then Inr name else Inl (le_fuzzy env name names))"

definition infer_markdown ::
  "link_env \<Rightarrow> link_provider \<Rightarrow> string \<Rightarrow> string \<Rightarrow> string \<Rightarrow> bool \<Rightarrow> string \<Rightarrow> string option" where
  "infer_markdown env p root dir cmp is_final style =
     (if \<not> is_final \<or> style \<noteq> style_wikilink \<or> has_suffix cmp ''.md'' then None
      else case find_entry env p root dir (cmp @ ''.md'') of
        Inl _ \<Rightarrow> None
      | Inr entry \<Rightarrow> Some entry)"

fun resolve_comps ::
  "link_env \<Rightarrow> link_provider \<Rightarrow> string \<Rightarrow> string \<Rightarrow> string \<Rightarrow> string list \<Rightarrow> string + string" where
  "resolve_comps env p root style cur [] = Inr cur"
| "resolve_comps env p root style cur (cmp # rest) =
     (if cmp = [] \<or> cmp = ''.'' then resolve_comps env p root style cur rest
      else if cmp = ''..'' then resolve_comps env p root style (path_dir cur) rest
      else case find_entry env p root cur cmp of
        Inr entry \<Rightarrow> resolve_comps env p root style (path_join cur entry) rest
      | Inl suggestion \<Rightarrow>
          (case infer_markdown env p root cur cmp (rest = []) style of
             Some inferred \<Rightarrow> resolve_comps env p root style (path_join cur inferred) rest
           | None \<Rightarrow> Inl suggestion))"

text \<open>From the walked path on: the boundary, the existence, and the index of a directory.\<close>

definition finish_target :: "link_env \<Rightarrow> link_provider \<Rightarrow> string \<Rightarrow> string \<Rightarrow> link_resolution" where
  "finish_target env p root cur =
     (if \<not> within_root env root cur then unresolved []
      else case lp_stat p cur of
        Inl _ \<Rightarrow> unresolved []
      | Inr False \<Rightarrow> \<lparr> rn_path = cur, rn_suggestion = [], rn_ok = True \<rparr>
      | Inr True \<Rightarrow>
          (case find_entry env p root cur ''README.md'' of
             Inl suggestion \<Rightarrow> unresolved suggestion
           | Inr entry \<Rightarrow>
               \<lparr> rn_path = path_join cur entry, rn_suggestion = [], rn_ok = True \<rparr>))"

definition resolve_link_target :: "link_env \<Rightarrow> link_provider \<Rightarrow> resolve_request \<Rightarrow> link_resolution" where
  "resolve_link_target env p req =
     (let rooted = has_prefix (rq_target req) ''/'' in
      if rooted \<and> rq_root req = [] then unresolved []
      else
        let base = (if rooted then rq_root req else rq_base req);
            target = (if rooted then trim_prefix (rq_target req) ''/'' else rq_target req);
            comps = split_on slash (path_clean (unescape_or_same target))
        in case resolve_comps env p (rq_root req) (rq_style req) base comps of
             Inl suggestion \<Rightarrow> unresolved suggestion
           | Inr cur \<Rightarrow> finish_target env p (rq_root req) cur)"

text \<open>The directory of the root-most \<open>.stem\<close> governing a path; empty when none does.\<close>

definition schema_root :: "link_env \<Rightarrow> string \<Rightarrow> string" where
  "schema_root env path =
     (case walk_up (le_stem_yaml env) (le_fs env) path of
        Inl _ \<Rightarrow> []
      | Inr [] \<Rightarrow> []
      | Inr (e # _) \<Rightarrow> path_dir (se_path e))"

section \<open>Basenames\<close>

definition index_add :: "(string \<times> string list) list \<Rightarrow> string \<Rightarrow> string \<Rightarrow> (string \<times> string list) list" where
  "index_add idx key path =
     AList.update key ((case map_of idx key of None \<Rightarrow> [] | Some ps \<Rightarrow> ps) @ [path]) idx"

text \<open>One path under its basename, and under the basename without \<open>.md\<close>.\<close>

definition index_path :: "(string \<times> string list) list \<Rightarrow> string \<Rightarrow> (string \<times> string list) list" where
  "index_path idx path =
     (let base = path_base path; idx1 = index_add idx base path; no_ext = trim_suffix base ''.md'' in
      if no_ext \<noteq> base then index_add idx1 no_ext path else idx1)"

definition basename_index :: "string list \<Rightarrow> (string \<times> string list) list" where
  "basename_index paths = foldl index_path [] paths"

definition basename_lookup :: "(string \<times> string list) list \<Rightarrow> string \<Rightarrow> string option" where
  "basename_lookup idx target = (case map_of idx target of Some [m] \<Rightarrow> Some m | _ \<Rightarrow> None)"

section \<open>Preparing links\<close>

abbreviation (input) res_resolved :: string where "res_resolved \<equiv> ''resolved''"
abbreviation (input) res_unresolved :: string where "res_unresolved \<equiv> ''unresolved''"

definition record_dir :: "string \<Rightarrow> string \<Rightarrow> string" where
  "record_dir root path = path_dir (path_join root path)"

definition effective_for :: "link_env \<Rightarrow> string \<Rightarrow> doc \<Rightarrow> go_error + stem_file option" where
  "effective_for env root r =
     (case resolve_for_record (le_stem_yaml env) (le_fs env) (record_dir root (rc_path r)) (rc_path r) of
        Inl e \<Rightarrow>
          if is_no_schema e then Inr None
          else Inl (Wrapped (''resolve schema for '' @ rc_path r) e)
      | Inr s \<Rightarrow> Inr (Some s))"

definition link_request :: "string \<Rightarrow> string \<Rightarrow> link \<Rightarrow> resolve_request" where
  "link_request dir root l =
     \<lparr> rq_base = dir, rq_root = root, rq_target = lk_target l, rq_style = link_style l \<rparr>"

definition prepare_link ::
  "link_env \<Rightarrow> (string \<times> string list) list \<Rightarrow> string \<Rightarrow> string \<Rightarrow> bool \<Rightarrow> link \<Rightarrow> link" where
  "prepare_link env idx root dir fallback l =
     (let res = resolve_link_target env (disk_provider env) (link_request dir root l) in
      case (if rn_ok res then path_rel root (rn_path res) else None) of
        Some rel \<Rightarrow> l\<lparr> lk_resolution := res_resolved, lk_target := rel \<rparr>
      | None \<Rightarrow>
          (case (if fallback then basename_lookup idx (lk_target l) else None) of
             Some m \<Rightarrow> l\<lparr> lk_resolution := res_resolved, lk_target := m \<rparr>
           | None \<Rightarrow> l\<lparr> lk_resolution := res_unresolved \<rparr>))"

definition prepare_record ::
  "link_env \<Rightarrow> (string \<times> string list) list \<Rightarrow> string \<Rightarrow> doc \<Rightarrow> go_error + doc" where
  "prepare_record env idx root r =
     (case effective_for env root r of
        Inl e \<Rightarrow> Inl e
      | Inr eff \<Rightarrow>
          let fallback = (case eff of None \<Rightarrow> False | Some s \<Rightarrow> ls_basename_fallback (st_links s)) in
          Inr (r\<lparr> rc_links :=
            map (prepare_link env idx root (record_dir root (rc_path r)) fallback) (rc_links r) \<rparr>))"

definition prepare_links :: "link_env \<Rightarrow> string \<Rightarrow> doc list \<Rightarrow> go_error + doc list" where
  "prepare_links env root records =
     try_map (prepare_record env (basename_index (map rc_path records)) root) records"

text \<open>\<open>ResolveMarkdownTargets\<close>.\<close>

definition resolve_markdown_target :: "link_env \<Rightarrow> string \<Rightarrow> string \<Rightarrow> link \<Rightarrow> link" where
  "resolve_markdown_target env root dir l =
     (if lk_style l \<noteq> style_markdown then l
      else
        let res = resolve_link_target env (disk_provider env)
              \<lparr> rq_base = dir, rq_root = root, rq_target = lk_target l, rq_style = style_markdown \<rparr>
        in if \<not> rn_ok res then l
           else case path_rel root (rn_path res) of
             None \<Rightarrow> l
           | Some rel \<Rightarrow> l\<lparr> lk_target := rel \<rparr>)"

definition resolve_markdown_targets :: "link_env \<Rightarrow> string \<Rightarrow> doc list \<Rightarrow> doc list" where
  "resolve_markdown_targets env root records =
     map (\<lambda>r. r\<lparr> rc_links :=
       map (resolve_markdown_target env root (record_dir root (rc_path r))) (rc_links r) \<rparr>) records"

section \<open>Filtering links by the schema of their record\<close>

definition filter_record_styles :: "link_env \<Rightarrow> string \<Rightarrow> doc \<Rightarrow> go_error + doc" where
  "filter_record_styles env root r =
     (if rc_links r = [] then Inr r
      else case effective_for env root r of
        Inl e \<Rightarrow> Inl e
      | Inr eff \<Rightarrow>
          let styles = (case eff of None \<Rightarrow> [style_wikilink] | Some s \<Rightarrow> effective_styles (st_links s)) in
          Inr (r\<lparr> rc_links := filter (\<lambda>l. link_style l \<in> set styles) (rc_links r) \<rparr>))"

definition filter_links_by_styles :: "link_env \<Rightarrow> string \<Rightarrow> doc list \<Rightarrow> go_error + doc list" where
  "filter_links_by_styles env root records = try_map (filter_record_styles env root) records"

definition filter_record_rules :: "link_env \<Rightarrow> string \<Rightarrow> doc \<Rightarrow> go_error + doc" where
  "filter_record_rules env root r =
     (if rc_links r = [] then Inr r
      else case effective_for env root r of
        Inl e \<Rightarrow> Inl e
      | Inr None \<Rightarrow> Inr r
      | Inr (Some s) \<Rightarrow>
          if ls_rules (st_links s) = [] then Inr r
          else Inr (r\<lparr> rc_links := filter (\<lambda>l. has_key (ls_rules (st_links s)) (lk_type l)) (rc_links r) \<rparr>))"

definition filter_links_by_typed_rules :: "link_env \<Rightarrow> string \<Rightarrow> doc list \<Rightarrow> go_error + doc list" where
  "filter_links_by_typed_rules env root records = try_map (filter_record_rules env root) records"

definition opts_into_cycles :: "stem_file option \<Rightarrow> bool" where
  "opts_into_cycles eff =
     (case eff of
        None \<Rightarrow> False
      | Some s \<Rightarrow> (case ls_checks (st_links s) of None \<Rightarrow> False | Some c \<Rightarrow> lc_cycles c))"

definition cycle_failure_scope :: "link_env \<Rightarrow> string \<Rightarrow> doc list \<Rightarrow> go_error + (string \<times> bool) list" where
  "cycle_failure_scope env root records =
     (case try_map (\<lambda>r. case effective_for env root r of
                          Inl e \<Rightarrow> Inl e
                        | Inr eff \<Rightarrow> Inr (rc_path r, opts_into_cycles eff)) records of
        Inl e \<Rightarrow> Inl e
      | Inr kvs \<Rightarrow> Inr (foldl (\<lambda>m (k, v). AList.update k v m) [] kvs))"

section \<open>Link checks\<close>

type_synonym heading_cache = "(string \<times> string list) list"

text \<open>A text cut into runes: an ASCII byte, or a lead byte with its continuation bytes.\<close>

definition is_cont :: "char \<Rightarrow> bool" where
  "is_cont c = (let n = of_char c :: nat in 128 \<le> n \<and> n < 192)"

function runes :: "string \<Rightarrow> string list" where
  "runes [] = []"
| "runes (c # cs) =
     (if (of_char c :: nat) < 128 then [c] # runes cs
      else (c # takeWhile is_cont cs) # runes (dropWhile is_cont cs))"
  by pat_completeness auto
termination by (relation "measure length") (auto simp: less_Suc_eq_le length_dropWhile_le)

text \<open>
  \<open>slugifyHeading\<close>; \<open>letter\<close> says of a rune beyond ASCII whether \<open>unicode.IsLetter\<close> or \<open>IsDigit\<close>
  accepts it.
\<close>

definition slug_rune :: "(string \<Rightarrow> bool) \<Rightarrow> string \<Rightarrow> string" where
  "slug_rune letter r =
     (case r of
        [c] \<Rightarrow>
          (let n = of_char c :: nat in
           if (97 \<le> n \<and> n \<le> 122) \<or> (65 \<le> n \<and> n \<le> 90) \<or> is_digit c \<or> c = CHR ''_'' then [c]
           else if c = CHR '' '' \<or> c = CHR ''-'' then ''-'' else [])
      | _ \<Rightarrow> if letter r then r else [])"

definition slugify_heading :: "(string \<Rightarrow> bool) \<Rightarrow> string \<Rightarrow> string" where
  "slugify_heading letter h = concat (map (slug_rune letter) (runes (to_lower (trim_space h))))"

definition heading_slugs_from_content ::
  "link_env \<Rightarrow> (string \<Rightarrow> bool) \<Rightarrow> string \<Rightarrow> string \<Rightarrow> string list" where
  "heading_slugs_from_content env letter path content =
     (let r = ex_doc (extract_document (le_headings env) (le_doc_yaml env) True path content) in
      case rc_ast r of
        None \<Rightarrow> []
      | Some hs \<Rightarrow>
          map (\<lambda>s. slugify_heading letter (sec_heading s)) (extract_sections hs (rc_body r)))"

definition heading_slugs ::
  "link_env \<Rightarrow> (string \<Rightarrow> bool) \<Rightarrow> heading_cache \<Rightarrow> string \<Rightarrow> (fs_err + string list) \<times> heading_cache" where
  "heading_slugs env letter cache path =
     (case map_of cache path of
        Some slugs \<Rightarrow> (Inr slugs, cache)
      | None \<Rightarrow>
          (case fs_read (le_fs env) path of
             Inl e \<Rightarrow> (Inl e, cache)
           | Inr content \<Rightarrow>
               let slugs = heading_slugs_from_content env letter path content in
               (Inr slugs, AList.update path slugs cache)))"

definition anchor_error :: "string \<Rightarrow> string \<Rightarrow> validation_error" where
  "anchor_error anchor path =
     mk_error ''link_anchor'' ''links''
       (''anchor '' @ go_quote anchor @ '' not found in '' @ go_quote (path_base path))
       ''links.checks'' ''error''"

definition check_anchor ::
  "link_env \<Rightarrow> (string \<Rightarrow> bool) \<Rightarrow> link_overlay option \<Rightarrow> heading_cache \<Rightarrow> link \<Rightarrow> string \<Rightarrow>
     validation_error list \<times> heading_cache" where
  "check_anchor env letter o' cache l path =
     (let (slugs, cache') =
        (case o' of
           Some ov \<Rightarrow>
             if overlay_path_matches env ov path
             then (Inr (heading_slugs_from_content env letter path (ov_content ov)), cache)
             else heading_slugs env letter cache path
         | None \<Rightarrow> heading_slugs env letter cache path)
      in case slugs of
           Inl _ \<Rightarrow> ([], cache')
         | Inr ss \<Rightarrow>
             if to_lower (unescape_or_same (lk_anchor l)) \<in> set ss then ([], cache')
             else ([anchor_error (lk_anchor l) path], cache'))"

definition encoding_error :: "string \<Rightarrow> validation_error" where
  "encoding_error target =
     mk_error ''link_encoding'' ''links''
       (''link target '' @ go_quote target @ '' contains unencoded spaces (use %20)'')
       ''links.checks'' ''error''"

definition unverifiable_error :: "string \<Rightarrow> validation_error" where
  "unverifiable_error target =
     mk_error ''link_unverifiable'' ''links''
       (''link target '' @ go_quote target @ '' cannot be verified: links.basename_fallback '' @
        ''matches against every record, which this command does not scan (check it with '' @
        [CHR 0x27] @ ''rootline graph --check'' @ [CHR 0x27] @ '')'')
       ''links.checks'' ''warn''"

definition resolve_error :: "string \<Rightarrow> string \<Rightarrow> validation_error" where
  "resolve_error target suggestion =
     (mk_error ''link_resolve'' ''links''
        (''link target '' @ go_quote target @ '' does not resolve to an existing file (case-sensitive)'' @
         (if suggestion \<noteq> [] then '' (did you mean '' @ go_quote suggestion @ ''?)'' else []))
        ''links.checks'' ''error'')\<lparr> ve_suggestion := suggestion \<rparr>"

definition checks_anchors :: "link_schema \<Rightarrow> bool" where
  "checks_anchors ls = (case ls_checks ls of None \<Rightarrow> False | Some c \<Rightarrow> lc_anchors c)"

definition checks_encoding :: "link_schema \<Rightarrow> bool" where
  "checks_encoding ls = (case ls_checks ls of None \<Rightarrow> False | Some c \<Rightarrow> lc_encoding c)"

text \<open>One turn of the loop of \<open>checkLinks\<close>.\<close>

definition check_link ::
  "link_env \<Rightarrow> (string \<Rightarrow> bool) \<Rightarrow> link_overlay option \<Rightarrow> link_schema \<Rightarrow> string \<Rightarrow> string \<Rightarrow>
     heading_cache \<Rightarrow> link \<Rightarrow> validation_error list \<times> heading_cache" where
  "check_link env letter o' ls src root cache l =
     (if link_style l \<notin> set (effective_styles ls) then ([], cache)
      else
        let enc = (if checks_encoding ls \<and> str_contains (lk_target l) '' ''
                   then [encoding_error (lk_target l)] else [])
        in if \<not> (should_resolve ls \<or> checks_anchors ls) then (enc, cache)
           else
             let res = resolve_link_target env (provider_for env o')
                   (link_request (path_dir src) root l)
             in if \<not> rn_ok res then
                  (if ls_basename_fallback ls \<and> should_resolve ls
                   then (enc @ [unverifiable_error (lk_target l)], cache)
                   else if should_resolve ls
                   then (enc @ [resolve_error (lk_target l) (rn_suggestion res)], cache)
                   else (enc, cache))
                else if checks_anchors ls \<and> lk_anchor l \<noteq> [] then
                  (let (errs, cache') = check_anchor env letter o' cache l (rn_path res) in
                   (enc @ errs, cache'))
                else (enc, cache))"

fun check_links_loop ::
  "link_env \<Rightarrow> (string \<Rightarrow> bool) \<Rightarrow> link_overlay option \<Rightarrow> link_schema \<Rightarrow> string \<Rightarrow> string \<Rightarrow>
     heading_cache \<Rightarrow> link list \<Rightarrow> validation_error list \<times> heading_cache" where
  "check_links_loop env letter o' ls src root cache [] = ([], cache)"
| "check_links_loop env letter o' ls src root cache (l # rest) =
     (let (errs, cache1) = check_link env letter o' ls src root cache l;
          (errs', cache2) = check_links_loop env letter o' ls src root cache1 rest
      in (errs @ errs', cache2))"

definition check_links ::
  "link_env \<Rightarrow> (string \<Rightarrow> bool) \<Rightarrow> link_overlay option \<Rightarrow> link_schema \<Rightarrow> string \<Rightarrow> string \<Rightarrow>
     heading_cache \<Rightarrow> link list \<Rightarrow> validation_error list \<times> heading_cache" where
  "check_links env letter o' ls src root cache links =
     (if \<not> should_resolve ls \<and> \<not> checks_anchors ls \<and> \<not> checks_encoding ls then ([], cache)
      else check_links_loop env letter o' ls src root cache links)"

definition check_links_with_prospective_target ::
  "link_env \<Rightarrow> (string \<Rightarrow> bool) \<Rightarrow> link_schema \<Rightarrow> string \<Rightarrow> string \<Rightarrow> heading_cache \<Rightarrow>
     string \<Rightarrow> string \<Rightarrow> link list \<Rightarrow> validation_error list \<times> heading_cache" where
  "check_links_with_prospective_target env letter ls src root cache target content links =
     check_links env letter (new_overlay env target content root) ls src root cache links"

section \<open>Lemmas\<close>

lemma strip_common_fst: "set (fst (strip_common xs ys)) \<subseteq> set xs"
  by (induction xs ys rule: strip_common.induct) auto

lemma path_rel_abs:
  assumes "is_abs a" "is_abs b"
  shows "\<exists>r. path_rel a b = Some r"
proof -
  have "''..'' \<notin> set (clean_comps True (path_comps a))"
    using clean_comps_shape [of True "path_comps a"] by (auto simp: clean_shape_def)
  then have "''..'' \<notin> set (path_comps (path_clean a))"
    using assms(1) by (simp add: path_comps_clean)
  then have nd: "''..'' \<notin> set (fst (strip_common (path_comps (path_clean a)) (path_comps (path_clean b))))"
    using strip_common_fst by blast
  have "path_clean a \<noteq> ''.''" using is_abs_clean [of a] assms(1) by (auto simp: is_abs_def)
  with nd assms show ?thesis
    by (auto simp: path_rel_def Let_def split: prod.split dest: hd_in_set)
qed

lemma is_abs_join: "is_abs a \<Longrightarrow> is_abs (path_join a b)"
  by (auto simp: path_join_def is_abs_iff [of a] is_abs_iff [of "a @ _"])

lemma is_abs_dir:
  assumes "is_abs a"
  shows "is_abs (path_dir a)"
proof -
  have "dir_part a \<noteq> []"
    using assms slash_file_part [of a] dir_file_part [of a] by (cases a) (auto simp: is_abs_iff)
  moreover have "hd (dir_part a) = slash" if "dir_part a \<noteq> []"
    using that assms dir_file_part [of a] by (metis hd_append2 is_abs_iff)
  ultimately show ?thesis by (simp add: path_dir_def is_abs_iff [of "dir_part a"])
qed

lemma resolve_comps_abs:
  "resolve_comps env p root style cur cs = Inr path \<Longrightarrow> is_abs cur \<Longrightarrow> is_abs path"
  by (induction env p root style cur cs rule: resolve_comps.induct)
    (auto split: if_splits sum.splits option.splits intro: is_abs_dir is_abs_join)

lemma finish_target_ok:
  assumes "rn_ok (finish_target env p root cur)"
  shows "within_root env root cur \<and>
    (lp_stat p cur = Inr False \<and> rn_path (finish_target env p root cur) = cur \<or>
     lp_stat p cur = Inr True \<and> find_entry env p root cur ''README.md'' = Inr ''README.md'' \<and>
     rn_path (finish_target env p root cur) = path_join cur ''README.md'')"
  using assms
  by (auto simp: finish_target_def unresolved_def find_entry_def
      split: if_splits sum.splits bool.splits)

lemma resolve_link_target_ok:
  assumes "rn_ok (resolve_link_target env p req)"
  shows "\<exists>cur. resolve_comps env p (rq_root req) (rq_style req)
        (if has_prefix (rq_target req) ''/'' then rq_root req else rq_base req)
        (split_on slash (path_clean (unescape_or_same
           (if has_prefix (rq_target req) ''/'' then trim_prefix (rq_target req) ''/'' else rq_target req)))) =
        Inr cur \<and> resolve_link_target env p req = finish_target env p (rq_root req) cur"
  using assms
  by (auto simp: resolve_link_target_def unresolved_def Let_def split: if_splits sum.splits)

lemma resolve_link_target_abs:
  assumes "rn_ok (resolve_link_target env p req)" "is_abs (rq_root req)" "is_abs (rq_base req)"
  shows "is_abs (rn_path (resolve_link_target env p req))"
proof -
  define base where "base = (if has_prefix (rq_target req) ''/'' then rq_root req else rq_base req)"
  have base: "is_abs base" using assms(2,3) by (simp add: base_def)
  from resolve_link_target_ok [OF assms(1)] obtain cur cs where
    r: "resolve_link_target env p req = finish_target env p (rq_root req) cur"
    and w: "resolve_comps env p (rq_root req) (rq_style req) base cs = Inr cur"
    unfolding base_def by blast
  from resolve_comps_abs [OF w base] have "is_abs cur" .
  with r show ?thesis
    using finish_target_ok [of env p "rq_root req" cur] assms(1) by (auto intro: is_abs_join)
qed

subsection \<open>The heading cache\<close>

definition cache_valid :: "link_env \<Rightarrow> (string \<Rightarrow> bool) \<Rightarrow> heading_cache \<Rightarrow> bool" where
  "cache_valid env letter cache =
     (\<forall>p s. map_of cache p = Some s \<longrightarrow>
        (\<exists>c. fs_read (le_fs env) p = Inr c \<and> s = heading_slugs_from_content env letter p c))"

lemma cache_valid_Nil [simp]: "cache_valid env letter []"
  by (simp add: cache_valid_def)

lemma heading_slugs_valid:
  assumes "cache_valid env letter cache"
  shows "fst (heading_slugs env letter cache p) =
      (case fs_read (le_fs env) p of Inl e \<Rightarrow> Inl e
       | Inr c \<Rightarrow> Inr (heading_slugs_from_content env letter p c))"
    "cache_valid env letter (snd (heading_slugs env letter cache p))"
proof -
  show "fst (heading_slugs env letter cache p) =
      (case fs_read (le_fs env) p of Inl e \<Rightarrow> Inl e
       | Inr c \<Rightarrow> Inr (heading_slugs_from_content env letter p c))"
  proof (cases "map_of cache p")
    case None
    then show ?thesis by (simp add: heading_slugs_def Let_def split: sum.split)
  next
    case (Some s)
    with assms obtain c where "fs_read (le_fs env) p = Inr c"
      "s = heading_slugs_from_content env letter p c" unfolding cache_valid_def by blast
    with Some show ?thesis by (simp add: heading_slugs_def)
  qed
  show "cache_valid env letter (snd (heading_slugs env letter cache p))"
    using assms
    by (auto simp: heading_slugs_def cache_valid_def Let_def update_conv' split: option.split sum.split)
qed

lemma check_anchor_valid:
  assumes "cache_valid env letter c" "cache_valid env letter c'"
  shows "fst (check_anchor env letter o' c l p) = fst (check_anchor env letter o' c' l p)"
    "cache_valid env letter (snd (check_anchor env letter o' c l p))"
proof -
  note h = heading_slugs_valid [OF assms(1), of p]
  have e: "fst (heading_slugs env letter c p) = fst (heading_slugs env letter c' p)"
    using h(1) heading_slugs_valid(1) [OF assms(2), of p] by simp
  show "fst (check_anchor env letter o' c l p) = fst (check_anchor env letter o' c' l p)"
    using e by (auto simp: check_anchor_def split: option.split prod.split sum.split)
  show "cache_valid env letter (snd (check_anchor env letter o' c l p))"
    using h(2) assms(1)
    by (auto simp: check_anchor_def split: option.split prod.split sum.split)
qed

lemma check_link_valid:
  assumes "cache_valid env letter c" "cache_valid env letter c'"
  shows "fst (check_link env letter o' ls src root c l) = fst (check_link env letter o' ls src root c' l)"
    "cache_valid env letter (snd (check_link env letter o' ls src root c l))"
  using check_anchor_valid [OF assms, of o' l] assms(1)
  by (auto simp: check_link_def Let_def split: prod.split) (metis fst_conv snd_conv)+

lemma check_links_loop_valid:
  assumes "cache_valid env letter c" "cache_valid env letter c'"
  shows "fst (check_links_loop env letter o' ls src root c links) =
      fst (check_links_loop env letter o' ls src root c' links) \<and>
    cache_valid env letter (snd (check_links_loop env letter o' ls src root c links))"
  using assms
proof (induction links arbitrary: c c')
  case (Cons l links)
  show ?case
    using check_link_valid [OF Cons.prems, of o' ls src root l]
      Cons.IH [OF check_link_valid(2) [OF Cons.prems, of o' ls src root l]
        check_link_valid(2) [OF Cons.prems(2,1), of o' ls src root l]]
    by (simp add: split_beta Let_def)
qed simp

subsection \<open>The overlay\<close>

lemma overlay_read_dir_names:
  assumes "disk_read_dir (le_fs env) dir = Inr names"
  shows "\<exists>names'. overlay_read_dir env ov dir = Inr names' \<and> set names \<subseteq> set names' \<and>
     set names' \<subseteq> insert (ov_base ov) (set names)"
  using assms by (auto simp: overlay_read_dir_def Let_def)

lemma find_entry_overlay:
  "find_entry env (disk_provider env) root dir n = Inr e \<Longrightarrow>
     find_entry env (overlay_provider env ov) root dir n = Inr e"
  using overlay_read_dir_names [of env dir _ ov]
  by (force simp: find_entry_def disk_provider_def overlay_provider_def split: if_splits sum.splits)

lemma find_entry_overlay_other:
  assumes "find_entry env (overlay_provider env ov) root dir n = Inr e" "n \<noteq> ov_base ov"
  shows "find_entry env (disk_provider env) root dir n = Inr e"
proof (cases "disk_read_dir (le_fs env) dir")
  case (Inl err)
  with assms show ?thesis
    by (auto simp: find_entry_def overlay_provider_def overlay_read_dir_def Let_def
        split: if_splits sum.splits)
next
  case (Inr names)
  from overlay_read_dir_names [OF this, of ov] Inr assms show ?thesis
    by (auto simp: find_entry_def overlay_provider_def disk_provider_def split: if_splits)
qed

lemma infer_overlay:
  assumes "infer_markdown env (disk_provider env) root cur c fin style = Some e"
  shows "infer_markdown env (overlay_provider env ov) root cur c fin style = Some e"
  using assms find_entry_overlay [of env root cur "c @ ''.md''" _ ov]
  by (auto simp: infer_markdown_def split: if_splits sum.splits)

lemma resolve_comps_overlay:
  assumes "resolve_comps env (disk_provider env) root style cur cs = Inr path"
    and "has_suffix (ov_base ov) ''.md''"
  shows "resolve_comps env (overlay_provider env ov) root style cur cs = Inr path"
  using assms(1)
proof (induction cs arbitrary: cur)
  case (Cons c cs)
  let ?d = "disk_provider env" and ?o = "overlay_provider env ov"
  show ?case
  proof (cases "c = [] \<or> c = ''.'' \<or> c = ''..''")
    case True
    with Cons show ?thesis by auto
  next
    case False
    show ?thesis
    proof (cases "find_entry env ?d root cur c")
      case (Inr e)
      with Cons False find_entry_overlay [OF Inr, of ov] show ?thesis by auto
    next
      case (Inl sug)
      with Cons.prems False obtain e where
        inf: "infer_markdown env ?d root cur c (cs = []) style = Some e"
        and rest: "resolve_comps env ?d root style (path_join cur e) cs = Inr path"
        by (auto split: option.splits)
      from inf have "c \<noteq> ov_base ov" using assms(2)
        by (auto simp: infer_markdown_def split: if_splits)
      with Inl find_entry_overlay_other [of env ov root cur c] obtain sug' where
        "find_entry env ?o root cur c = Inl sug'"
        by (cases "find_entry env ?o root cur c") auto
      with infer_overlay [OF inf, of ov] Cons.IH [OF rest] False show ?thesis by simp
    qed
  qed
qed simp

subsection \<open>The basename index\<close>

definition named :: "string \<Rightarrow> string \<Rightarrow> bool" where
  "named target path =
     (path_base path = target \<or>
      (trim_suffix (path_base path) ''.md'' = target \<and> target \<noteq> path_base path))"

definition indexed :: "(string \<times> string list) list \<Rightarrow> string \<Rightarrow> string list" where
  "indexed idx key = (case map_of idx key of None \<Rightarrow> [] | Some ps \<Rightarrow> ps)"

lemma indexed_add: "indexed (index_add idx k p) key = (if key = k then indexed idx key @ [p] else indexed idx key)"
  by (simp add: indexed_def index_add_def update_conv' split: option.split)

lemma indexed_path: "indexed (index_path idx p) key = indexed idx key @ (if named key p then [p] else [])"
  by (auto simp: index_path_def Let_def indexed_add named_def)

lemma indexed_basename_index: "indexed (basename_index ps) key = filter (named key) ps"
proof -
  have "indexed (foldl index_path idx ps) key = indexed idx key @ filter (named key) ps" for idx
    by (induction ps arbitrary: idx) (auto simp: indexed_path)
  then show ?thesis by (simp add: basename_index_def indexed_def)
qed

lemma basename_lookup_filter:
  "basename_lookup (basename_index ps) t = (case filter (named t) ps of [m] \<Rightarrow> Some m | _ \<Rightarrow> None)"
  unfolding indexed_basename_index [symmetric] basename_lookup_def indexed_def
  by (simp split: option.split)

section \<open>Properties\<close>

text \<open>C5: Preparation and validation agree on which links are broken: for a record under an absolute root
  whose schema resolves targets, checks the style of the link and has no basename fallback, the link is
  marked unresolved by the preparation exactly when the link check of the file reports it.\<close>

theorem prepare_agrees_with_validation:
  assumes "effective_for env root r = Inr (Some s)" "is_abs root"
    and "\<not> ls_basename_fallback (st_links s)" "should_resolve (st_links s)"
    and "i < length (rc_links r)" "link_style (rc_links r ! i) \<in> set (effective_styles (st_links s))"
  shows "\<exists>r'. prepare_record env idx root r = Inr r' \<and>
    (lk_resolution (rc_links r' ! i) = ''unresolved'' \<longleftrightarrow>
     (\<exists>e \<in> set (fst (check_link env letter None (st_links s) (path_join root (rc_path r)) root cache
                        (rc_links r ! i))). ve_rule e = ''link_resolve''))"
proof -
  let ?l = "rc_links r ! i"
  define res where "res = resolve_link_target env (disk_provider env)
      (link_request (record_dir root (rc_path r)) root ?l)"
  have rel: "\<exists>x. path_rel root (rn_path res) = Some x" if "rn_ok res"
    unfolding res_def using that assms(2)
    by (intro path_rel_abs resolve_link_target_abs)
      (auto simp: link_request_def res_def record_dir_def intro: is_abs_dir is_abs_join)
  have prep: "lk_resolution (prepare_link env idx root (record_dir root (rc_path r)) False ?l) =
      (if rn_ok res then ''resolved'' else ''unresolved'')"
    using rel by (auto simp: prepare_link_def Let_def res_def [symmetric])
  have anchor: "\<forall>e \<in> set (fst (check_anchor env letter None cache ?l p)). ve_rule e \<noteq> ''link_resolve''" for p
    by (auto simp: check_anchor_def anchor_error_def mk_error_def split: prod.split sum.split)
  have chk: "(\<exists>e \<in> set (fst (check_link env letter None (st_links s) (path_join root (rc_path r)) root cache ?l)).
      ve_rule e = ''link_resolve'') \<longleftrightarrow> \<not> rn_ok res"
  proof -
    note defs = check_link_def Let_def provider_for_def record_dir_def [symmetric] res_def [symmetric]
      encoding_error_def mk_error_def
    show ?thesis
    proof (cases "rn_ok res")
      case True
      with assms(3,4,6) anchor [of "rn_path res"] show ?thesis
        by (auto simp: defs split: prod.split)
    next
      case False
      with assms(3,4,6) show ?thesis
        by (simp add: defs resolve_error_def)
    qed
  qed
  show ?thesis
    unfolding chk using assms(1,3,5) prep by (simp add: prepare_record_def)
qed

definition wiki_fs :: filesys where
  "wiki_fs = \<lparr> fs_cwd = ''/r'',
     fs_stat = (\<lambda>p. if p \<in> {''/'', ''/r'', ''/r/d''} then Inr KDir
                     else if p \<in> {''/r/.stem'', ''/r/a.md'', ''/r/d/README.md''} then Inr KRegular
                     else Inl NotExist),
     fs_lstat = (\<lambda>p. if p \<in> {''/'', ''/r'', ''/r/d''} then Inr KDir
                      else if p \<in> {''/r/.stem'', ''/r/a.md''} then Inr KRegular
                      else if p = ''/r/d/README.md'' then Inr KSymlink else Inl NotExist),
     fs_read = (\<lambda>p. if p = ''/r/.stem'' then Inr ''version: 2'' else if p = ''/r/a.md'' then Inr ''# A b''
                     else Inl NotExist),
     fs_list = (\<lambda>p. if p = ''/r'' then Inr [(''.stem'', KRegular), (''a.md'', KRegular), (''d'', KDir)]
                     else if p = ''/r/d'' then Inr [(''README.md'', KSymlink)] else Inl NotExist) \<rparr>"

text \<open>A small wiki whose \<open>d/README.md\<close> is a symbolic link to a file outside it.\<close>

definition wiki :: link_env where
  "wiki = \<lparr> le_fs = wiki_fs,
     le_eval = (\<lambda>p. if p = ''/r/d/README.md'' then Inr ''/etc/passwd''
                     else if fs_stat wiki_fs p = Inl NotExist then Inl NotExist else Inr p),
     le_same = (=), le_fuzzy = no_fuzzy,
     le_stem_yaml = (\<lambda>_. Inr (zero_stem\<lparr> st_version := 2, st_root := True \<rparr>)),
     le_doc_yaml = no_yaml,
     le_headings = (\<lambda>_. [\<lparr> ah_level = 1, ah_pos = 0, ah_segments = [(2, 5)] \<rparr>]) \<rparr>"

definition wiki_doc :: doc where
  "wiki_doc = zero_doc\<lparr> rc_path := ''b.md'',
     rc_links := [zero_link\<lparr> lk_target := ''gone'' \<rparr>, zero_link\<lparr> lk_target := ''a'' \<rparr>] \<rparr>"

theorem prepare_agrees_with_validation_witness:
  "\<exists>s. effective_for wiki ''/r'' wiki_doc = Inr (Some s) \<and>
    (\<exists>e \<in> set (fst (check_link wiki (\<lambda>_. True) None (st_links s) ''/r/b.md'' ''/r'' []
        (rc_links wiki_doc ! 0))). ve_rule e = ''link_resolve'')"
proof -
  define r where "r = effective_for wiki ''/r'' wiki_doc"
  have "(case r of Inr (Some s) \<Rightarrow> \<not> ls_basename_fallback (st_links s) \<and> should_resolve (st_links s) \<and>
      link_style (rc_links wiki_doc ! 0) \<in> set (effective_styles (st_links s)) | _ \<Rightarrow> False)"
    unfolding r_def by code_simp
  then obtain s where s: "effective_for wiki ''/r'' wiki_doc = Inr (Some s)"
    "\<not> ls_basename_fallback (st_links s)" "should_resolve (st_links s)"
    "link_style (rc_links wiki_doc ! 0) \<in> set (effective_styles (st_links s))"
    by (auto simp: r_def split: sum.splits option.splits)
  have "is_abs ''/r''" "0 < length (rc_links wiki_doc)" by code_simp+
  from prepare_agrees_with_validation [OF s(1) this(1) s(2,3) this(2) s(4), of "[]" "\<lambda>_. True" "[]"]
  obtain r' where r': "prepare_record wiki [] ''/r'' wiki_doc = Inr r'"
    "lk_resolution (rc_links r' ! 0) = ''unresolved'' \<longleftrightarrow>
     (\<exists>e \<in> set (fst (check_link wiki (\<lambda>_. True) None (st_links s) (path_join ''/r'' (rc_path wiki_doc)) ''/r'' []
                        (rc_links wiki_doc ! 0))). ve_rule e = ''link_resolve'')" by blast
  define q where "q = prepare_record wiki [] ''/r'' wiki_doc"
  have "(case q of Inr r' \<Rightarrow> lk_resolution (rc_links r' ! 0) = ''unresolved'' | _ \<Rightarrow> False)"
    unfolding q_def by code_simp
  with r' have "lk_resolution (rc_links r' ! 0) = ''unresolved''" by (simp add: q_def)
  moreover have "path_join ''/r'' (rc_path wiki_doc) = ''/r/b.md''" by code_simp
  ultimately show ?thesis using r'(2) s(1) by metis
qed

text \<open>The heading cache is transparent: with any cache whose entries are the slugs of the files they
  name, a run of the link checks reports what it reports with an empty cache, and the cache it leaves is
  valid again.\<close>

theorem heading_cache_transparent:
  assumes "cache_valid env letter cache"
  shows "fst (check_links env letter o' ls src root cache links) =
      fst (check_links env letter o' ls src root [] links) \<and>
    cache_valid env letter (snd (check_links env letter o' ls src root cache links))"
  using check_links_loop_valid [OF assms cache_valid_Nil, of o' ls src root links] assms
  by (simp add: check_links_def)

theorem heading_cache_transparent_witness:
  "fst (check_links wiki (\<lambda>_. True) None
      (zero_links\<lparr> ls_checks := Some \<lparr> lc_resolve = None, lc_anchors = True, lc_encoding = False, lc_cycles = False \<rparr> \<rparr>)
      ''/r/b.md'' ''/r'' [(''/r/a.md'', [''a-b''])]
      [zero_link\<lparr> lk_target := ''a'', lk_anchor := ''c'' \<rparr>]) = [anchor_error ''c'' ''/r/a.md'']"
proof -
  let ?ls = "zero_links\<lparr> ls_checks := Some \<lparr> lc_resolve = None, lc_anchors = True, lc_encoding = False,
      lc_cycles = False \<rparr> \<rparr>"
  have "heading_slugs_from_content wiki (\<lambda>_. True) ''/r/a.md'' ''# A b'' = [''a-b'']"
    "fs_read (le_fs wiki) ''/r/a.md'' = Inr ''# A b''" by code_simp+
  then have "cache_valid wiki (\<lambda>_. True) [(''/r/a.md'', [''a-b''])]"
    by (auto simp: cache_valid_def)
  moreover have "fst (check_links wiki (\<lambda>_. True) None ?ls ''/r/b.md'' ''/r'' []
      [zero_link\<lparr> lk_target := ''a'', lk_anchor := ''c'' \<rparr>]) = [anchor_error ''c'' ''/r/a.md'']"
    by code_simp
  ultimately show ?thesis using heading_cache_transparent by metis
qed

text \<open>A file about to be written breaks no link: a target that resolves on disk resolves to the same
  path with the overlay of one prospective Markdown file, as long as that file does not replace a
  directory.\<close>

theorem overlay_keeps_resolution:
  assumes "rn_ok (resolve_link_target env (disk_provider env) req)"
    and "has_suffix (ov_base ov) ''.md''"
    and "\<forall>p. overlay_path_matches env ov p \<longrightarrow> disk_stat (le_fs env) p \<noteq> Inr True"
  shows "resolve_link_target env (overlay_provider env ov) req =
     resolve_link_target env (disk_provider env) req"
proof -
  let ?d = "disk_provider env" and ?o = "overlay_provider env ov"
  define base where "base = (if has_prefix (rq_target req) ''/'' then rq_root req else rq_base req)"
  define cs where "cs = split_on slash (path_clean (unescape_or_same
      (if has_prefix (rq_target req) ''/'' then trim_prefix (rq_target req) ''/'' else rq_target req)))"
  from resolve_link_target_ok [OF assms(1)] obtain cur where
    w: "resolve_comps env ?d (rq_root req) (rq_style req) base cs = Inr cur"
    and f: "resolve_link_target env ?d req = finish_target env ?d (rq_root req) cur"
    unfolding base_def cs_def by blast
  from assms(1) have nr: "\<not> (has_prefix (rq_target req) ''/'' \<and> rq_root req = [])"
    by (auto simp: resolve_link_target_def unresolved_def)
  from resolve_comps_overlay [OF w assms(2)] nr
  have o': "resolve_link_target env ?o req = finish_target env ?o (rq_root req) cur"
    by (auto simp: resolve_link_target_def Let_def base_def [symmetric] cs_def [symmetric])
  from assms(1) have ok: "rn_ok (finish_target env ?d (rq_root req) cur)" by (simp add: f)
  from finish_target_ok [OF this] have
    win: "within_root env (rq_root req) cur"
    and st: "lp_stat ?d cur = Inr False \<or> lp_stat ?d cur = Inr True \<and>
      find_entry env ?d (rq_root req) cur ''README.md'' = Inr ''README.md''" by auto
  have "lp_stat ?o cur = lp_stat ?d cur"
    using st assms(3) by (auto simp: overlay_provider_def disk_provider_def overlay_stat_def)
  with win st find_entry_overlay [of env "rq_root req" cur "''README.md''" _ ov]
  have "finish_target env ?o (rq_root req) cur = finish_target env ?d (rq_root req) cur"
    by (auto simp: finish_target_def)
  with f o' show ?thesis by simp
qed

theorem overlay_keeps_resolution_witness:
  "resolve_link_target wiki (overlay_provider wiki
      \<lparr> ov_path = ''/r/new.md'', ov_dir = ''/r'', ov_base = ''new.md'', ov_content = [], ov_target = None \<rparr>)
      \<lparr> rq_base = ''/r'', rq_root = ''/r'', rq_target = ''a'', rq_style = ''wikilink'' \<rparr> =
    \<lparr> rn_path = ''/r/a.md'', rn_suggestion = [], rn_ok = True \<rparr>"
proof -
  let ?ov = "\<lparr> ov_path = ''/r/new.md'', ov_dir = ''/r'', ov_base = ''new.md'', ov_content = [], ov_target = None \<rparr>"
  let ?req = "\<lparr> rq_base = ''/r'', rq_root = ''/r'', rq_target = ''a'', rq_style = ''wikilink'' \<rparr>"
  have ok: "resolve_link_target wiki (disk_provider wiki) ?req =
      \<lparr> rn_path = ''/r/a.md'', rn_suggestion = [], rn_ok = True \<rparr>" by code_simp
  have "\<not> overlay_path_matches wiki ?ov p" if "p \<in> {''/'', ''/r'', ''/r/d''}" for p
    using that by (elim insertE emptyE) (simp_all only:, code_simp+)
  then have "\<forall>p. overlay_path_matches wiki ?ov p \<longrightarrow> disk_stat (le_fs wiki) p \<noteq> Inr True"
    by (auto simp: disk_stat_def wiki_def wiki_fs_def split: if_splits)
  moreover have "has_suffix (ov_base ?ov) ''.md''" by code_simp
  ultimately show ?thesis using overlay_keeps_resolution [of wiki ?req ?ov] ok by simp
qed

text \<open>C15: A target only resolves inside the root: when the resolver accepts a target, the path it walked to
  exists and is physically within the root, and the answer is that path, or its \<open>README.md\<close> when it
  is a directory that lists one.\<close>

theorem resolved_target_inside_root:
  assumes "rn_ok (resolve_link_target env p req)"
  shows "\<exists>cur. within_root env (rq_root req) cur \<and>
    ((lp_stat p cur = Inr False \<and> rn_path (resolve_link_target env p req) = cur) \<or>
     (lp_stat p cur = Inr True \<and> (\<exists>names. lp_read_dir p cur = Inr names \<and> ''README.md'' \<in> set names) \<and>
      rn_path (resolve_link_target env p req) = path_join cur ''README.md''))"
proof -
  from resolve_link_target_ok [OF assms] obtain cur where
    r: "resolve_link_target env p req = finish_target env p (rq_root req) cur" by blast
  from finish_target_ok [of env p "rq_root req" cur] assms r show ?thesis
    by (auto simp: find_entry_def split: if_splits sum.splits)
qed

theorem resolved_target_inside_root_witness:
  "\<exists>cur. within_root wiki ''/r'' cur \<and> path_join cur ''README.md'' = ''/r/d/README.md''"
proof -
  let ?req = "\<lparr> rq_base = ''/r'', rq_root = ''/r'', rq_target = ''d'', rq_style = ''wikilink'' \<rparr>"
  have "resolve_link_target wiki (disk_provider wiki) ?req =
      \<lparr> rn_path = ''/r/d/README.md'', rn_suggestion = [], rn_ok = True \<rparr>" by code_simp
  moreover have "\<not> within_root wiki ''/r'' ''/r/d/README.md''" by code_simp
  ultimately show ?thesis
    using resolved_target_inside_root [of wiki "disk_provider wiki" ?req] by auto
qed

text \<open>
  The boundary is checked for the directory and not for the \<open>README.md\<close> chosen in it: when that entry is
  a symbolic link, the answer lies outside the root, and the anchor check would read it.
\<close>

lemma readme_symlink_escapes_root:
  "rn_path (resolve_link_target wiki (disk_provider wiki)
      \<lparr> rq_base = ''/r'', rq_root = ''/r'', rq_target = ''d'', rq_style = ''wikilink'' \<rparr>) = ''/r/d/README.md'' \<and>
   rn_ok (resolve_link_target wiki (disk_provider wiki)
      \<lparr> rq_base = ''/r'', rq_root = ''/r'', rq_target = ''d'', rq_style = ''wikilink'' \<rparr>) \<and>
   \<not> within_root wiki ''/r'' ''/r/d/README.md''"
  by code_simp

end
