(* ===== verification/Link_Graph.thy ===== *)
theory Link_Graph
  imports Link_Resolution
begin

text \<open>
  The graph of document links of \<open>internal/graph/graph.go\<close>: its construction, the sorted views the
  renderers use, broken links, cycle detection, cycle members and tracing; and the traversal filter of
  \<open>internal/query/traversal.go\<close>, which reads the same edges.

  A Go map with edges is a list of pairs; whenever the code ranges over one, the order of the list is
  the iteration order. \<open>fuzzy.MatchN\<close> and \<open>fuzzy.Distance\<close> are parameters.
\<close>

section \<open>The graph\<close>

record edge =
  ed_source :: string
  ed_target :: string
  ed_type :: string
  ed_line :: nat
  ed_resolution :: string
  ed_markdown :: bool

record graph =
  gr_nodes :: "(string \<times> doc) list"
  gr_edges :: "(string \<times> edge list) list"

definition node_exists :: "graph \<Rightarrow> string \<Rightarrow> bool" where
  "node_exists g p = (map_of (gr_nodes g) p \<noteq> None)"

definition edges_of :: "graph \<Rightarrow> string \<Rightarrow> edge list" where
  "edges_of g p = (case map_of (gr_edges g) p of None \<Rightarrow> [] | Some es \<Rightarrow> es)"

text \<open>\<open>resolveTarget\<close>: an unchecked wikilink relative to its source.\<close>

definition resolve_target :: "string \<Rightarrow> string \<Rightarrow> (string \<times> doc) list \<Rightarrow> string" where
  "resolve_target source target nodes =
     (if str_contains target ''/'' \<or> str_contains target ''..''
      then path_clean (path_join (path_dir source) target)
      else
        let relative = path_join (path_dir source) target in
        if path_ext target \<noteq> [] \<and> map_of nodes relative \<noteq> None then relative else target)"

definition edge_of_link :: "(string \<times> doc) list \<Rightarrow> string \<Rightarrow> link \<Rightarrow> edge" where
  "edge_of_link nodes source l =
     \<lparr> ed_source = source,
       ed_target = (if lk_resolution l = [] \<and> lk_style l \<noteq> style_markdown
                    then resolve_target source (lk_target l) nodes else lk_target l),
       ed_type = lk_type l, ed_line = lk_line l, ed_resolution = lk_resolution l,
       ed_markdown = (lk_style l = style_markdown) \<rparr>"

definition add_edge :: "(string \<times> edge list) list \<Rightarrow> edge \<Rightarrow> (string \<times> edge list) list" where
  "add_edge es e =
     AList.update (ed_source e) ((case map_of es (ed_source e) of None \<Rightarrow> [] | Some xs \<Rightarrow> xs) @ [e]) es"

definition graph_nodes :: "doc list \<Rightarrow> (string \<times> doc) list" where
  "graph_nodes records = foldl (\<lambda>m r. AList.update (rc_path r) r m) [] records"

text \<open>\<open>resolveUncheckedByBasename\<close>, on one edge and on the map.\<close>

definition basename_edge :: "(string \<times> doc) list \<Rightarrow> (string \<times> string list) list \<Rightarrow> edge \<Rightarrow> edge" where
  "basename_edge nodes idx e =
     (if ed_resolution e \<noteq> [] \<or> ed_markdown e then e
      else if map_of nodes (ed_target e) \<noteq> None then e
      else case basename_lookup idx (ed_target e) of None \<Rightarrow> e | Some m \<Rightarrow> e\<lparr> ed_target := m \<rparr>)"

definition build :: "doc list \<Rightarrow> graph" where
  "build records =
     (let nodes = graph_nodes records;
          edges = foldl add_edge []
            (concat (map (\<lambda>r. map (edge_of_link nodes (rc_path r)) (rc_links r)) records));
          idx = basename_index (map fst nodes)
      in \<lparr> gr_nodes = nodes,
           gr_edges = map_vals (\<lambda>_. map (basename_edge nodes idx)) edges \<rparr>)"

section \<open>Sorted views\<close>

definition sorted_nodes :: "graph \<Rightarrow> string list" where
  "sorted_nodes g = sorted_keys (gr_nodes g)"

text \<open>\<open>compareEdges\<close>, as the order it decides: source, target, line, type.\<close>

definition edge_key :: "edge \<Rightarrow> string \<times> string \<times> nat \<times> string" where
  "edge_key e = (ed_source e, ed_target e, ed_line e, ed_type e)"

definition edge_before :: "edge \<Rightarrow> edge \<Rightarrow> bool" where
  "edge_before a b =
     (if ed_source a \<noteq> ed_source b then ed_source a < ed_source b
      else if ed_target a \<noteq> ed_target b then ed_target a < ed_target b
      else if ed_line a \<noteq> ed_line b then ed_line a < ed_line b
      else ed_type a < ed_type b)"

text \<open>A sort by \<^const>\<open>edge_before\<close>; the order of edges with equal keys is that of the input.\<close>

fun insert_edge :: "edge \<Rightarrow> edge list \<Rightarrow> edge list" where
  "insert_edge e [] = [e]"
| "insert_edge e (x # xs) = (if edge_before x e then x # insert_edge e xs else e # x # xs)"

definition sort_edges :: "edge list \<Rightarrow> edge list" where
  "sort_edges es = foldr insert_edge es []"

definition sorted_edges :: "graph \<Rightarrow> edge list" where
  "sorted_edges g = sort_edges (concat (map (edges_of g) (remdups (map fst (gr_edges g)))))"

section \<open>Broken links\<close>

record broken_link =
  bl_source :: string
  bl_target :: string
  bl_type :: string
  bl_line :: nat
  bl_suggestions :: "string list"

definition is_broken :: "graph \<Rightarrow> edge \<Rightarrow> bool" where
  "is_broken g e =
     (if ed_resolution e = ''resolved'' then False
      else if ed_resolution e = ''unresolved'' then True
      else \<not> node_exists g (ed_target e))"

fun insert_suggestion :: "(string \<Rightarrow> nat) \<Rightarrow> string \<Rightarrow> string list \<Rightarrow> string list" where
  "insert_suggestion d s [] = [s]"
| "insert_suggestion d s (x # xs) =
     (if d x < d s \<or> d x = d s \<and> x < s then x # insert_suggestion d s xs else s # x # xs)"

definition broken_link_suggestions ::
  "(string \<Rightarrow> string list \<Rightarrow> nat \<Rightarrow> string list) \<Rightarrow> (string \<Rightarrow> string \<Rightarrow> nat) \<Rightarrow>
     string \<Rightarrow> string list \<Rightarrow> string list" where
  "broken_link_suggestions match_n dist target names =
     take 3 (foldr (insert_suggestion (dist target)) (match_n target names (length names)) [])"

definition broken_links ::
  "(string \<Rightarrow> string list \<Rightarrow> nat \<Rightarrow> string list) \<Rightarrow> (string \<Rightarrow> string \<Rightarrow> nat) \<Rightarrow> graph \<Rightarrow>
     broken_link list" where
  "broken_links match_n dist g =
     map (\<lambda>e. \<lparr> bl_source = ed_source e, bl_target = ed_target e, bl_type = ed_type e,
                bl_line = ed_line e,
                bl_suggestions = broken_link_suggestions match_n dist (ed_target e) (sorted_nodes g) \<rparr>)
       (filter (is_broken g) (sorted_edges g))"

section \<open>Adjacency\<close>

definition adjacent :: "graph \<Rightarrow> string \<Rightarrow> string list" where
  "adjacent g source = sort (remdups (filter (node_exists g) (map ed_target (edges_of g source))))"

end
