(* ===== verification/Graph_Cycles.thy ===== *)
theory Graph_Cycles
  imports Link_Graph
begin

text \<open>
  Cycle detection of \<open>internal/graph/graph.go\<close>: the depth-first search of \<open>DetectCycles\<close> with its colours,
  its parent map and its canonical cycles.

  The recursion carries fuel, one unit per nested call. A nested call is made for a white node only
  and colours it, so one more than the number of nodes is enough: the theorem that the search finds a
  cycle exactly when there is one holds for the fuel the definition takes.
\<close>

section \<open>Canonical cycles\<close>

text \<open>The index of the first smallest member.\<close>

definition smallest_index :: "string list \<Rightarrow> nat" where
  "smallest_index xs = foldl (\<lambda>s i. if xs ! i < xs ! s then i else s) 0 [0..<length xs]"

definition canonical_cycle :: "string list \<Rightarrow> string list" where
  "canonical_cycle xs =
     (if xs = [] then []
      else let i = smallest_index xs; r = drop i xs @ take i xs in r @ [hd r])"

section \<open>The search\<close>

datatype color = White | Gray | Black

record dfs_state =
  df_color :: "(string \<times> color) list"
  df_parent :: "(string \<times> string) list"
  df_cycles :: "string list list"

definition color_of :: "dfs_state \<Rightarrow> string \<Rightarrow> color" where
  "color_of st x = (case map_of (df_color st) x of None \<Rightarrow> White | Some c \<Rightarrow> c)"

definition set_color :: "string \<Rightarrow> color \<Rightarrow> dfs_state \<Rightarrow> dfs_state" where
  "set_color x c st = st\<lparr> df_color := AList.update x c (df_color st) \<rparr>"

text \<open>From a node up the parent chain to a target; an absent parent reads as the empty string.\<close>

fun walk_back :: "nat \<Rightarrow> (string \<times> string) list \<Rightarrow> string \<Rightarrow> string \<Rightarrow> string list" where
  "walk_back 0 par cur target = []"
| "walk_back (Suc n) par cur target =
     (if cur = target then []
      else cur # walk_back n par (case map_of par cur of None \<Rightarrow> [] | Some p \<Rightarrow> p) target)"

definition back_cycle :: "nat \<Rightarrow> (string \<times> string) list \<Rightarrow> string \<Rightarrow> string \<Rightarrow> string list" where
  "back_cycle fuel par node target = rev (walk_back fuel par node target @ [target])"

text \<open>One target of the loop over the adjacency of a node.\<close>

definition visit_target ::
  "(string \<Rightarrow> dfs_state \<Rightarrow> dfs_state) \<Rightarrow> nat \<Rightarrow> string \<Rightarrow> dfs_state \<Rightarrow> string \<Rightarrow> dfs_state" where
  "visit_target visit fuel node st t =
     (case color_of st t of
        White \<Rightarrow> visit t (st\<lparr> df_parent := AList.update t node (df_parent st) \<rparr>)
      | Gray \<Rightarrow>
          st\<lparr> df_cycles := df_cycles st @ [canonical_cycle (back_cycle fuel (df_parent st) node t)] \<rparr>
      | Black \<Rightarrow> st)"

fun dfs :: "nat \<Rightarrow> (string \<Rightarrow> string list) \<Rightarrow> nat \<Rightarrow> string \<Rightarrow> dfs_state \<Rightarrow> dfs_state" where
  "dfs 0 adj fuel node st = st"
| "dfs (Suc n) adj fuel node st =
     set_color node Black
       (foldl (visit_target (dfs n adj fuel) fuel node) (set_color node Gray st) (adj node))"

definition dfs_root :: "nat \<Rightarrow> (string \<Rightarrow> string list) \<Rightarrow> dfs_state \<Rightarrow> string \<Rightarrow> dfs_state" where
  "dfs_root fuel adj st node =
     (if color_of st node = White then dfs fuel adj fuel node st else st)"

definition dfs_forest :: "(string \<Rightarrow> string list) \<Rightarrow> string list \<Rightarrow> dfs_state" where
  "dfs_forest adj nodes =
     foldl (dfs_root (Suc (length nodes)) adj)
       \<lparr> df_color = [], df_parent = [], df_cycles = [] \<rparr> nodes"

text \<open>
  \<open>compareCycles\<close> is the lexicographic order of lists, so sorting and dropping adjacent duplicates are
  the library's.
\<close>

definition detect_cycles :: "graph \<Rightarrow> string list list" where
  "detect_cycles g = remdups_adj (sort (df_cycles (dfs_forest (adjacent g) (sorted_nodes g))))"

section \<open>Lemmas on canonical cycles\<close>

lemma foldl_smallest:
  fixes xs :: "string list"
  assumes "s < length xs" "set is \<subseteq> {..<length xs}"
  shows "foldl (\<lambda>s i. if xs ! i < xs ! s then i else s) s is < length xs \<and>
    xs ! foldl (\<lambda>s i. if xs ! i < xs ! s then i else s) s is \<le> xs ! s \<and>
    (\<forall>i \<in> set is. xs ! foldl (\<lambda>s i. if xs ! i < xs ! s then i else s) s is \<le> xs ! i)"
  using assms
proof (induction "is" arbitrary: s)
  case (Cons i "is")
  let ?s = "if xs ! i < xs ! s then i else s"
  have "?s < length xs" using Cons.prems by auto
  note IH = Cons.IH [OF this]
  have le: "xs ! ?s \<le> xs ! s" "xs ! ?s \<le> xs ! i" by auto
  from Cons.prems have "set is \<subseteq> {..<length xs}" by simp
  from IH [OF this] le show ?case
    by (auto intro: order_trans simp del: if_split)
qed simp

lemma smallest_index_least:
  assumes "xs \<noteq> []"
  shows "smallest_index xs < length xs" "x \<in> set xs \<Longrightarrow> xs ! smallest_index xs \<le> x"
proof -
  have "0 < length xs" using assms by simp
  moreover have "set [0..<length xs] \<subseteq> {..<length xs}" by auto
  ultimately have f: "smallest_index xs < length xs \<and> xs ! smallest_index xs \<le> xs ! 0 \<and>
      (\<forall>i \<in> set [0..<length xs]. xs ! smallest_index xs \<le> xs ! i)"
    unfolding smallest_index_def by (rule foldl_smallest)
  then show "smallest_index xs < length xs" by simp
  show "xs ! smallest_index xs \<le> x" if "x \<in> set xs"
    using f that by (auto simp: in_set_conv_nth)
qed

text \<open>A closed walk: every step is an edge, and it ends where it starts.\<close>

definition closed_walk :: "(string \<Rightarrow> string list) \<Rightarrow> string list \<Rightarrow> bool" where
  "closed_walk adj c =
     (successively (\<lambda>a b. b \<in> set (adj a)) c \<and> 2 \<le> length c \<and> hd c = last c)"

lemma closed_walk_rotate:
  assumes "successively P (a @ b @ [hd (a @ b)])" "b \<noteq> []"
  shows "successively P (b @ a @ [hd (b @ a)])"
  using assms by (cases "a = []") (auto simp: successively_append_iff successively_Cons hd_append)

lemma canonical_cycle_spec:
  assumes "xs \<noteq> []" "successively P (xs @ [hd xs])"
  shows "successively P (canonical_cycle xs)" "set (canonical_cycle xs) = set xs"
    "length (canonical_cycle xs) = Suc (length xs)" "hd (canonical_cycle xs) = last (canonical_cycle xs)"
    "x \<in> set xs \<Longrightarrow> hd (canonical_cycle xs) \<le> x"
    "mset (butlast (canonical_cycle xs)) = mset xs"
proof -
  define a b where "a = take (smallest_index xs) xs" and "b = drop (smallest_index xs) xs"
  have i: "smallest_index xs < length xs"
    and least: "\<And>x. x \<in> set xs \<Longrightarrow> xs ! smallest_index xs \<le> x"
    using smallest_index_least [OF assms(1)] by blast+
  have xs: "xs = a @ b" by (simp add: a_def b_def)
  have b: "b \<noteq> []" using i by (simp add: b_def)
  have hd: "hd b = xs ! smallest_index xs" using i by (simp add: b_def hd_drop_conv_nth)
  have c: "canonical_cycle xs = b @ a @ [hd b]"
    using assms(1) b by (simp add: canonical_cycle_def Let_def a_def b_def)
  show "successively P (canonical_cycle xs)"
    unfolding c using closed_walk_rotate [of P a b] assms(2) b by (simp add: xs)
  show "set (canonical_cycle xs) = set xs"
    unfolding c using b by (auto simp: xs)
  show "length (canonical_cycle xs) = Suc (length xs)"
    unfolding c by (simp add: xs)
  show "hd (canonical_cycle xs) = last (canonical_cycle xs)" using b by (simp add: c)
  show "hd (canonical_cycle xs) \<le> x" if "x \<in> set xs" using least [OF that] b by (simp add: c hd)
  show "mset (butlast (canonical_cycle xs)) = mset xs"
    unfolding c by (simp add: xs butlast_append)
qed

section \<open>Lemmas on the search\<close>

lemma color_of_set_color: "color_of (set_color x c st) y = (if y = x then c else color_of st y)"
  by (simp add: color_of_def set_color_def update_conv')

lemma set_color_frame [simp]:
  "df_parent (set_color x c st) = df_parent st" "df_cycles (set_color x c st) = df_cycles st"
  by (simp_all add: set_color_def)

lemma color_of_frame [simp]:
  "color_of (st\<lparr> df_parent := p \<rparr>) x = color_of st x"
  "color_of (st\<lparr> df_cycles := cs \<rparr>) x = color_of st x"
  by (simp_all add: color_of_def)

abbreviation black :: "dfs_state \<Rightarrow> string set" where
  "black st \<equiv> {x. color_of st x = Black}"

text \<open>
  The search of a graph with nodes \<open>N\<close>: the gray nodes are a stack, the parent map leads down it, and
  every step of the stack is an edge.
\<close>

definition stack_ok :: "(string \<Rightarrow> string list) \<Rightarrow> string set \<Rightarrow> string list \<Rightarrow> dfs_state \<Rightarrow> bool" where
  "stack_ok adj N S st =
     (distinct S \<and> set S = {x. color_of st x = Gray} \<and> set S \<subseteq> N \<and>
      successively (\<lambda>a b. map_of (df_parent st) a = Some b) S \<and>
      successively (\<lambda>a b. a \<in> set (adj b)) S)"

definition good_cycle :: "(string \<Rightarrow> string list) \<Rightarrow> string set \<Rightarrow> string list \<Rightarrow> bool" where
  "good_cycle adj N c =
     (closed_walk adj c \<and> set c \<subseteq> N \<and> distinct (butlast c) \<and> (\<forall>x \<in> set c. hd c \<le> x))"

text \<open>A list of nodes, latest first, in which every edge leads to an earlier node.\<close>

fun finished :: "(string \<Rightarrow> string list) \<Rightarrow> string list \<Rightarrow> bool" where
  "finished adj [] = True"
| "finished adj (x # xs) = (set (adj x) \<subseteq> set xs \<and> finished adj xs)"

definition black_finished :: "(string \<Rightarrow> string list) \<Rightarrow> dfs_state \<Rightarrow> bool" where
  "black_finished adj st = (\<exists>fl. finished adj fl \<and> set fl = black st)"

text \<open>What any part of the search does to the state.\<close>

definition advances :: "(string \<Rightarrow> string list) \<Rightarrow> string set \<Rightarrow> dfs_state \<Rightarrow> dfs_state \<Rightarrow> bool" where
  "advances adj N st st' =
     (black st \<subseteq> black st' \<and>
      {x. color_of st' x = White} \<subseteq> {x. color_of st x = White} \<and>
      (\<exists>new. df_cycles st' = df_cycles st @ new \<and> (\<forall>c \<in> set new. good_cycle adj N c)) \<and>
      (df_cycles st' = df_cycles st \<longrightarrow> black_finished adj st \<longrightarrow> black_finished adj st'))"

lemma advances_refl: "advances adj N st st"
  by (simp add: advances_def)

lemma advances_trans:
  assumes "advances adj N a b" "advances adj N b c"
  shows "advances adj N a c"
proof -
  from assms obtain n1 n2 where n: "df_cycles b = df_cycles a @ n1" "df_cycles c = df_cycles b @ n2"
    "\<forall>c \<in> set n1. good_cycle adj N c" "\<forall>c \<in> set n2. good_cycle adj N c"
    unfolding advances_def by blast
  then have "df_cycles c = df_cycles a \<Longrightarrow> df_cycles b = df_cycles a \<and> df_cycles c = df_cycles b" by simp
  moreover have "df_cycles c = df_cycles a @ (n1 @ n2)" "\<forall>c \<in> set (n1 @ n2). good_cycle adj N c"
    using n by auto
  ultimately show ?thesis using assms unfolding advances_def by blast
qed

lemma advances_cycles:
  "advances adj N a b \<Longrightarrow> advances adj N b c \<Longrightarrow> df_cycles c = df_cycles a \<Longrightarrow>
     df_cycles b = df_cycles a \<and> df_cycles c = df_cycles b"
  unfolding advances_def by force

subsection \<open>A back edge gives a cycle\<close>

lemma walk_back_stack:
  assumes "successively (\<lambda>a b. map_of par a = Some b) S" "t \<in> set S" "distinct S"
    "length S \<le> fuel" "S = node # rest"
  shows "walk_back fuel par node t = takeWhile (\<lambda>x. x \<noteq> t) S"
  using assms
proof (induction S arbitrary: fuel node rest)
  case (Cons x S)
  then obtain n where n: "fuel = Suc n" by (cases fuel) auto
  show ?case
  proof (cases "x = t")
    case True
    with Cons.prems n show ?thesis by simp
  next
    case False
    then obtain y S' where S: "S = y # S'" using Cons.prems(2) by (cases S) auto
    have "walk_back n par y t = takeWhile (\<lambda>x. x \<noteq> t) S"
      using Cons.IH [of n y S'] Cons.prems False n S by auto
    with Cons.prems False n S show ?thesis by auto
  qed
qed simp

lemma takeWhile_found: "t \<in> set S \<Longrightarrow> \<exists>rest. S = takeWhile (\<lambda>x. x \<noteq> t) S @ t # rest"
  by (induction S) auto

lemma back_cycle_good:
  assumes "stack_ok adj N (node # S) st" "t \<in> set (adj node)" "color_of st t = Gray"
    "card N \<le> fuel" "finite N"
  shows "good_cycle adj N (canonical_cycle (back_cycle fuel (df_parent st) node t))"
proof -
  let ?S = "node # S"
  define w where "w = takeWhile (\<lambda>x. x \<noteq> t) ?S"
  from assms have t: "t \<in> set ?S" and d: "distinct ?S" and sub: "set ?S \<subseteq> N"
    and par: "successively (\<lambda>a b. map_of (df_parent st) a = Some b) ?S"
    and edg: "successively (\<lambda>a b. a \<in> set (adj b)) ?S"
    by (auto simp: stack_ok_def)
  have "length ?S \<le> fuel"
    using card_mono [OF assms(5) sub] distinct_card [OF d] assms(4) by simp
  from walk_back_stack [OF par t d this] have "walk_back fuel (df_parent st) node t = w"
    by (simp add: w_def)
  then have b: "back_cycle fuel (df_parent st) node t = rev (w @ [t])"
    by (simp add: back_cycle_def)
  from takeWhile_found [OF t] obtain rest where S: "?S = w @ t # rest" by (auto simp: w_def)
  have e: "successively (\<lambda>a b. a \<in> set (adj b)) (w @ [t])" and "distinct (w @ [t])" "set (w @ [t]) \<subseteq> N"
    using edg d sub unfolding S by (auto simp: successively_append_iff successively_Cons)
  have "hd (w @ [t]) = node" using S by (cases w) auto
  define c where "c = rev (w @ [t])"
  have ne: "c \<noteq> []" and "last c = node" "hd c = t"
    using \<open>hd (w @ [t]) = node\<close> unfolding c_def by (simp_all add: last_rev del: rev_append) auto
  moreover have "successively (\<lambda>a b. b \<in> set (adj a)) c"
    using e by (simp add: c_def successively_rev del: rev_append)
  ultimately have cw: "successively (\<lambda>a b. b \<in> set (adj a)) (c @ [hd c])"
    using assms(2) by (simp add: successively_append_iff)
  note spec = canonical_cycle_spec [OF ne cw]
  have "distinct (butlast (canonical_cycle c))"
    using spec(6) \<open>distinct (w @ [t])\<close> unfolding c_def by (metis distinct_rev mset_eq_imp_distinct_iff)
  moreover have "set c \<subseteq> N" "0 < length c" using \<open>set (w @ [t]) \<subseteq> N\<close> ne by (auto simp: c_def)
  ultimately show ?thesis
    using spec(1-5)
    unfolding b c_def [symmetric] good_cycle_def closed_walk_def by (auto simp: Suc_le_eq)
qed

subsection \<open>The search keeps the stack and makes progress\<close>

definition white_count :: "string set \<Rightarrow> dfs_state \<Rightarrow> nat" where
  "white_count N st = card {x \<in> N. color_of st x = White}"

lemma white_count_mono:
  "finite N \<Longrightarrow> advances adj N st st' \<Longrightarrow> white_count N st' \<le> white_count N st"
  unfolding white_count_def advances_def by (rule card_mono) auto

lemma advances_parent:
  "advances adj N st (st\<lparr> df_parent := p \<rparr>)"
  by (simp add: advances_def black_finished_def)

lemma stack_ok_parent:
  assumes "stack_ok adj N S st" "t \<notin> set S"
  shows "stack_ok adj N S (st\<lparr> df_parent := AList.update t v (df_parent st) \<rparr>)"
proof -
  have "successively (\<lambda>a b. map_of (AList.update t v (df_parent st)) a = Some b) S \<longleftrightarrow>
      successively (\<lambda>a b. map_of (df_parent st) a = Some b) S"
    by (rule successively_cong) (use assms(2) in \<open>auto simp: update_conv'\<close>)
  with assms(1) show ?thesis unfolding stack_ok_def by auto
qed

lemma stack_ok_cycles [simp]: "stack_ok adj N S (st\<lparr> df_cycles := cs \<rparr>) = stack_ok adj N S st"
  by (simp add: stack_ok_def)

text \<open>What the loop over the targets of \<open>node\<close> needs from the recursive call.\<close>

definition visit_ok ::
  "(string \<Rightarrow> string list) \<Rightarrow> string set \<Rightarrow> string list \<Rightarrow> nat \<Rightarrow> (string \<Rightarrow> dfs_state \<Rightarrow> dfs_state) \<Rightarrow> bool"
where
  "visit_ok adj N S n visit =
     (\<forall>t st. stack_ok adj N S st \<and> color_of st t = White \<and> t \<in> N \<and>
        (S \<noteq> [] \<longrightarrow> map_of (df_parent st) t = Some (hd S) \<and> t \<in> set (adj (hd S))) \<and>
        white_count N st \<le> n \<longrightarrow>
        stack_ok adj N S (visit t st) \<and> advances adj N st (visit t st) \<and> color_of (visit t st) t = Black)"

lemma visit_target_ok:
  assumes v: "visit_ok adj N (node # S) n visit"
    and st: "stack_ok adj N (node # S) st" and t: "t \<in> set (adj node)" "t \<in> N"
    and n: "white_count N st \<le> n" and fuel: "card N \<le> fuel" and fin: "finite N"
  shows "stack_ok adj N (node # S) (visit_target visit fuel node st t) \<and>
    advances adj N st (visit_target visit fuel node st t) \<and>
    (df_cycles (visit_target visit fuel node st t) = df_cycles st \<longrightarrow>
       color_of (visit_target visit fuel node st t) t = Black)"
proof (cases "color_of st t")
  case White
  let ?st = "st\<lparr> df_parent := AList.update t node (df_parent st) \<rparr>"
  have "t \<notin> set (node # S)" using st White by (auto simp: stack_ok_def)
  then have "stack_ok adj N (node # S) ?st" by (rule stack_ok_parent [OF st])
  moreover have "map_of (df_parent ?st) t = Some node" by (simp add: update_conv')
  moreover have "white_count N ?st \<le> n" using n by (simp add: white_count_def)
  ultimately have r: "stack_ok adj N (node # S) (visit t ?st)" "advances adj N ?st (visit t ?st)"
    "color_of (visit t ?st) t = Black"
    using v White t unfolding visit_ok_def by auto
  with White advances_trans [OF advances_parent r(2)] show ?thesis
    by (simp add: visit_target_def)
next
  case Gray
  from back_cycle_good [OF st t(1) Gray fuel fin] st show ?thesis
    by (simp add: visit_target_def Gray advances_def black_finished_def)
next
  case Black
  with st show ?thesis by (simp add: visit_target_def advances_refl)
qed

lemma fold_targets_ok:
  assumes v: "visit_ok adj N (node # S) n visit"
    and st: "stack_ok adj N (node # S) st" and ts: "set ts \<subseteq> set (adj node)" "set ts \<subseteq> N"
    and n: "white_count N st \<le> n" and fuel: "card N \<le> fuel" and fin: "finite N"
  shows "stack_ok adj N (node # S) (foldl (visit_target visit fuel node) st ts) \<and>
    advances adj N st (foldl (visit_target visit fuel node) st ts) \<and>
    (df_cycles (foldl (visit_target visit fuel node) st ts) = df_cycles st \<longrightarrow>
       set ts \<subseteq> black (foldl (visit_target visit fuel node) st ts))"
  using st ts n
proof (induction ts arbitrary: st)
  case Nil
  then show ?case by (simp add: advances_refl)
next
  case (Cons t ts)
  define st1 where "st1 = visit_target visit fuel node st t"
  define st2 where "st2 = foldl (visit_target visit fuel node) st1 ts"
  have t: "t \<in> set (adj node)" "t \<in> N" and tss: "set ts \<subseteq> set (adj node)" "set ts \<subseteq> N"
    using Cons.prems by auto
  from visit_target_ok [OF v Cons.prems(1) t Cons.prems(4) fuel fin]
  have 1: "stack_ok adj N (node # S) st1" "advances adj N st st1"
    "df_cycles st1 = df_cycles st \<Longrightarrow> color_of st1 t = Black" by (auto simp: st1_def)
  have "white_count N st1 \<le> n" using white_count_mono [OF fin 1(2)] Cons.prems(4) by simp
  from Cons.IH [OF 1(1) tss this]
  have 2: "stack_ok adj N (node # S) st2" "advances adj N st1 st2"
    "df_cycles st2 = df_cycles st1 \<Longrightarrow> set ts \<subseteq> black st2" by (auto simp: st2_def)
  have "set (t # ts) \<subseteq> black st2" if "df_cycles st2 = df_cycles st"
  proof -
    from advances_cycles [OF 1(2) 2(2) that] 1(3) 2(3) have "color_of st1 t = Black" "set ts \<subseteq> black st2"
      by auto
    moreover have "black st1 \<subseteq> black st2" using 2(2) by (simp add: advances_def)
    ultimately show ?thesis by auto
  qed
  moreover have "foldl (visit_target visit fuel node) st (t # ts) = st2"
    by (simp add: st2_def st1_def)
  ultimately show ?case using 2(1) advances_trans [OF 1(2) 2(2)] by simp
qed

lemma set_gray_ok:
  assumes "stack_ok adj N S st" "color_of st node = White" "node \<in> N"
    "S \<noteq> [] \<longrightarrow> map_of (df_parent st) node = Some (hd S) \<and> node \<in> set (adj (hd S))"
  shows "stack_ok adj N (node # S) (set_color node Gray st)"
proof -
  have "{x. color_of (set_color node Gray st) x = Gray} = insert node (set S)"
    using assms(1) by (auto simp: stack_ok_def color_of_set_color)
  moreover have "node \<notin> set S" using assms(1,2) by (auto simp: stack_ok_def)
  ultimately show ?thesis
    using assms by (auto simp: stack_ok_def successively_Cons)
qed

lemma set_black_ok:
  assumes "stack_ok adj N (node # S) st"
  shows "stack_ok adj N S (set_color node Black st)"
proof -
  have "{x. color_of (set_color node Black st) x = Gray} = set S"
    using assms by (auto simp: stack_ok_def color_of_set_color)
  with assms show ?thesis
    by (auto simp: stack_ok_def successively_Cons)
qed

lemma black_set_color:
  "black (set_color x Gray st) = black st - {x}" "black (set_color x Black st) = insert x (black st)"
  by (auto simp: color_of_set_color)

lemma dfs_ok:
  assumes fuel: "card N \<le> fuel" and fin: "finite N" and clo: "\<forall>x \<in> N. set (adj x) \<subseteq> N"
  shows "visit_ok adj N S n (dfs n adj fuel)"
proof (induction n arbitrary: S)
  case 0
  have False if "color_of st t = White" "t \<in> N" "white_count N st = 0" for st t
    using that fin by (auto simp: white_count_def)
  then show ?case by (auto simp: visit_ok_def)
next
  case (Suc n)
  show ?case unfolding visit_ok_def
  proof (intro allI impI, elim conjE)
    fix t st
    assume st: "stack_ok adj N S st" and w: "color_of st t = White" and t: "t \<in> N"
      and par: "S \<noteq> [] \<longrightarrow> map_of (df_parent st) t = Some (hd S) \<and> t \<in> set (adj (hd S))"
      and cnt: "white_count N st \<le> Suc n"
    define st1 where "st1 = set_color t Gray st"
    define st2 where "st2 = foldl (visit_target (dfs n adj fuel) fuel t) st1 (adj t)"
    define st3 where "st3 = set_color t Black st2"
    have d: "dfs (Suc n) adj fuel t st = st3" by (simp add: st1_def st2_def st3_def)
    have s1: "stack_ok adj N (t # S) st1"
      unfolding st1_def by (rule set_gray_ok [OF st w t par])
    have "{x \<in> N. color_of st1 x = White} = {x \<in> N. color_of st x = White} - {t}"
      by (auto simp: st1_def color_of_set_color)
    then have "white_count N st1 \<le> n"
      using cnt w t fin by (simp add: white_count_def)
    from fold_targets_ok [OF Suc.IH s1 subset_refl _ this fuel fin] clo t
    have s2: "stack_ok adj N (t # S) st2" "advances adj N st1 st2"
      "df_cycles st2 = df_cycles st1 \<Longrightarrow> set (adj t) \<subseteq> black st2"
      by (auto simp: st2_def)
    have s3: "stack_ok adj N S st3" unfolding st3_def by (rule set_black_ok [OF s2(1)])
    have b1: "black st1 = black st" using w by (auto simp: st1_def color_of_set_color)
    have b3: "black st3 = insert t (black st2)" unfolding st3_def by (rule black_set_color)
    have wh: "{x. color_of st3 x = White} \<subseteq> {x. color_of st x = White}"
    proof -
      have "{x. color_of st3 x = White} \<subseteq> {x. color_of st2 x = White}"
        by (auto simp: st3_def color_of_set_color split: if_splits)
      also have "\<dots> \<subseteq> {x. color_of st1 x = White}" using s2(2) by (simp add: advances_def)
      also have "\<dots> \<subseteq> {x. color_of st x = White}"
        by (auto simp: st1_def color_of_set_color split: if_splits)
      finally show ?thesis .
    qed
    have cyc: "df_cycles st1 = df_cycles st" "df_cycles st3 = df_cycles st2"
      by (simp_all add: st1_def st3_def)
    have "black_finished adj st3" if same: "df_cycles st3 = df_cycles st" and "black_finished adj st"
    proof -
      from that b1 have "black_finished adj st1" by (simp add: black_finished_def)
      with s2(2) same cyc obtain fl where "finished adj fl" "set fl = black st2"
        by (auto simp: advances_def black_finished_def)
      with s2(3) same cyc b3 have "finished adj (t # fl)" "set (t # fl) = black st3" by auto
      then show ?thesis unfolding black_finished_def by blast
    qed
    moreover have "black st \<subseteq> black st3" using s2(2) b1 b3 by (auto simp: advances_def)
    ultimately have "advances adj N st st3"
      using wh s2(2) cyc by (simp add: advances_def)
    with s3 b3 show "stack_ok adj N S (dfs (Suc n) adj fuel t st) \<and>
        advances adj N st (dfs (Suc n) adj fuel t st) \<and> color_of (dfs (Suc n) adj fuel t st) t = Black"
      unfolding d by auto
  qed
qed

lemma dfs_root_ok:
  assumes st: "stack_ok adj N [] st" and node: "node \<in> N" and fuel: "card N \<le> fuel"
    and fin: "finite N" and clo: "\<forall>x \<in> N. set (adj x) \<subseteq> N"
  shows "stack_ok adj N [] (dfs_root fuel adj st node) \<and> advances adj N st (dfs_root fuel adj st node) \<and>
    color_of (dfs_root fuel adj st node) node = Black"
proof (cases "color_of st node = White")
  case True
  have "white_count N st \<le> fuel"
    using fuel fin card_mono [of N "{x \<in> N. color_of st x = White}"] by (simp add: white_count_def)
  with dfs_ok [OF fuel fin clo, of "[]" fuel] st node True show ?thesis
    by (simp add: visit_ok_def dfs_root_def)
next
  case False
  moreover have "color_of st node \<noteq> Gray" using st by (auto simp: stack_ok_def)
  ultimately have "color_of st node = Black" by (cases "color_of st node") auto
  with st False show ?thesis by (simp add: dfs_root_def advances_refl)
qed

lemma dfs_roots_ok:
  assumes st: "stack_ok adj N [] st" and nodes: "set nodes \<subseteq> N" and fuel: "card N \<le> fuel"
    and fin: "finite N" and clo: "\<forall>x \<in> N. set (adj x) \<subseteq> N"
  shows "stack_ok adj N [] (foldl (dfs_root fuel adj) st nodes) \<and>
    advances adj N st (foldl (dfs_root fuel adj) st nodes) \<and>
    set nodes \<subseteq> black (foldl (dfs_root fuel adj) st nodes)"
  using st nodes
proof (induction nodes arbitrary: st)
  case Nil
  then show ?case by (simp add: advances_refl)
next
  case (Cons x nodes)
  define st1 where "st1 = dfs_root fuel adj st x"
  define st2 where "st2 = foldl (dfs_root fuel adj) st1 nodes"
  from dfs_root_ok [OF Cons.prems(1) _ fuel fin clo, of x] Cons.prems(2)
  have 1: "stack_ok adj N [] st1" "advances adj N st st1" "x \<in> black st1" by (auto simp: st1_def)
  from Cons.IH [OF 1(1)] Cons.prems(2)
  have 2: "stack_ok adj N [] st2" "advances adj N st1 st2" "set nodes \<subseteq> black st2"
    by (auto simp: st2_def)
  moreover have "x \<in> black st2" using 1(3) 2(2) by (auto simp: advances_def)
  moreover have "foldl (dfs_root fuel adj) st (x # nodes) = st2" by (simp add: st2_def st1_def)
  ultimately show ?case using advances_trans [OF 1(2) 2(2)] by simp
qed

lemma dfs_forest_ok:
  assumes clo: "\<forall>x \<in> set nodes. set (adj x) \<subseteq> set nodes"
  shows "(\<forall>c \<in> set (df_cycles (dfs_forest adj nodes)). good_cycle adj (set nodes) c) \<and>
    (df_cycles (dfs_forest adj nodes) = [] \<longrightarrow>
       (\<exists>fl. finished adj fl \<and> set nodes \<subseteq> set fl))"
proof -
  define st0 where "st0 = \<lparr> df_color = [], df_parent = [], df_cycles = [] \<rparr>"
  have 0: "stack_ok adj (set nodes) [] st0" "black_finished adj st0"
    by (auto simp: stack_ok_def st0_def color_of_def black_finished_def intro: exI [of _ "[]"])
  have "card (set nodes) \<le> Suc (length nodes)" using card_length [of nodes] by simp
  from dfs_roots_ok [OF 0(1) subset_refl this _ clo] have
    1: "advances adj (set nodes) st0 (dfs_forest adj nodes)" "set nodes \<subseteq> black (dfs_forest adj nodes)"
    by (auto simp: dfs_forest_def st0_def)
  have c0: "df_cycles st0 = []" by (simp add: st0_def)
  have "\<exists>fl. finished adj fl \<and> set nodes \<subseteq> set fl" if "df_cycles (dfs_forest adj nodes) = []"
  proof -
    have "black_finished adj (dfs_forest adj nodes)"
      using 1(1) 0(2) c0 that by (simp add: advances_def)
    with 1(2) show ?thesis by (auto simp: black_finished_def)
  qed
  moreover have "\<forall>c \<in> set (df_cycles (dfs_forest adj nodes)). good_cycle adj (set nodes) c"
    using 1(1) c0 by (auto simp: advances_def)
  ultimately show ?thesis by blast
qed

subsection \<open>A finished list has no cycle\<close>

lemma finished_closed: "finished adj fl \<Longrightarrow> x \<in> set fl \<Longrightarrow> set (adj x) \<subseteq> set fl"
  by (induction fl) auto

lemma finished_rank:
  "finished adj fl \<Longrightarrow> \<exists>f :: string \<Rightarrow> nat. \<forall>a \<in> set fl. \<forall>b \<in> set (adj a). f b < f a"
proof (induction fl)
  case (Cons x xs)
  then obtain f :: "string \<Rightarrow> nat" where f: "\<forall>a \<in> set xs. \<forall>b \<in> set (adj a). f b < f a" by auto
  show ?case
  proof (cases "x \<in> set xs")
    case True
    with f show ?thesis by auto
  next
    case False
    define g where "g = f(x := Suc (sum_list (map f xs)))"
    have "g b < g a" if "a \<in> set (x # xs)" "b \<in> set (adj a)" for a b
    proof (cases "a = x")
      case True
      with that Cons.prems have "b \<in> set xs" by auto
      then have "f b \<le> sum_list (map f xs)" by (simp add: member_le_sum_list)
      with True False \<open>b \<in> set xs\<close> show ?thesis by (auto simp: g_def)
    next
      case a: False
      with that have "a \<in> set xs" by simp
      with finished_closed [of adj xs a] Cons.prems that(2) have "b \<in> set xs" by auto
      with False f a that \<open>a \<in> set xs\<close> show ?thesis by (auto simp: g_def)
    qed
    then show ?thesis by blast
  qed
qed simp

lemma finished_acyclic:
  assumes "finished adj fl" "N \<subseteq> set fl"
  shows "acyclic {(a, b). a \<in> N \<and> b \<in> set (adj a)}"
proof -
  from finished_rank [OF assms(1)] obtain f :: "string \<Rightarrow> nat"
    where f: "\<forall>a \<in> set fl. \<forall>b \<in> set (adj a). f b < f a" by blast
  have "{(a, b). a \<in> N \<and> b \<in> set (adj a)}\<inverse> \<subseteq> measure f"
    using f assms(2) by auto
  then have "wf ({(a, b). a \<in> N \<and> b \<in> set (adj a)}\<inverse>)" by (rule wf_subset [OF wf_measure])
  then show ?thesis using wf_acyclic acyclic_converse by blast
qed

lemma walk_trancl:
  "successively (\<lambda>a b. b \<in> set (adj a)) (x # ys) \<Longrightarrow> ys \<noteq> [] \<Longrightarrow> set (x # ys) \<subseteq> N \<Longrightarrow>
     (x, last ys) \<in> {(a, b). a \<in> N \<and> b \<in> set (adj a)}\<^sup>+"
proof (induction ys arbitrary: x)
  case (Cons y ys)
  let ?E = "{(a, b). a \<in> N \<and> b \<in> set (adj a)}"
  have xy: "(x, y) \<in> ?E" using Cons.prems by (auto simp: successively_Cons)
  show ?case
  proof (cases "ys = []")
    case True
    with xy show ?thesis by (simp add: r_into_trancl)
  next
    case False
    then have "(y, last ys) \<in> ?E\<^sup>+"
      using Cons.IH [of y] Cons.prems by (simp add: successively_Cons)
    with xy False show ?thesis by (auto intro: trancl_into_trancl2)
  qed
qed simp

lemma good_cycle_not_acyclic:
  assumes "good_cycle adj N c"
  shows "\<not> acyclic {(a, b). a \<in> N \<and> b \<in> set (adj a)}"
proof -
  from assms obtain x ys where c: "c = x # ys" "ys \<noteq> []" "last ys = x"
    by (cases c; cases "tl c") (auto simp: good_cycle_def closed_walk_def)
  with walk_trancl [of adj x ys N] assms show ?thesis
    by (auto simp: good_cycle_def closed_walk_def acyclic_def)
qed

section \<open>Properties\<close>

text \<open>The links between the nodes of a graph.\<close>

definition link_rel :: "graph \<Rightarrow> (string \<times> string) set" where
  "link_rel g = {(a, b). node_exists g a \<and> node_exists g b \<and> b \<in> ed_target ` set (edges_of g a)}"

lemma link_rel_adjacent: "link_rel g = {(a, b). node_exists g a \<and> b \<in> set (adjacent g a)}"
  by (auto simp: link_rel_def adjacent_def)

lemma set_sorted_nodes: "set (sorted_nodes g) = {p. node_exists g p}"
  by (auto simp: sorted_nodes_def node_exists_def)

lemma set_detect_cycles:
  "set (detect_cycles g) = set (df_cycles (dfs_forest (adjacent g) (sorted_nodes g)))"
  by (simp add: detect_cycles_def)

lemma adjacent_closed: "\<forall>x \<in> set (sorted_nodes g). set (adjacent g x) \<subseteq> set (sorted_nodes g)"
  by (auto simp: set_sorted_nodes adjacent_def)

text \<open>C13: Cycle detection is sound and complete as a verdict: the report is empty exactly when the links
  between the nodes of the graph form no cycle, whatever the size of the graph.\<close>

theorem detect_cycles_iff_cyclic:
  "detect_cycles g = [] \<longleftrightarrow> acyclic (link_rel g)"
proof -
  note ok = dfs_forest_ok [OF adjacent_closed [of g]]
  have rel: "link_rel g = {(a, b). a \<in> set (sorted_nodes g) \<and> b \<in> set (adjacent g a)}"
    by (simp add: link_rel_adjacent set_sorted_nodes)
  show ?thesis
  proof
    assume "detect_cycles g = []"
    then have "df_cycles (dfs_forest (adjacent g) (sorted_nodes g)) = []"
      by (metis set_detect_cycles set_empty)
    with ok obtain fl where "finished (adjacent g) fl" "set (sorted_nodes g) \<subseteq> set fl" by blast
    from finished_acyclic [OF this] show "acyclic (link_rel g)" by (simp add: rel)
  next
    assume a: "acyclic (link_rel g)"
    have "c \<notin> set (detect_cycles g)" for c
    proof
      assume "c \<in> set (detect_cycles g)"
      with ok have "good_cycle (adjacent g) (set (sorted_nodes g)) c"
        by (simp add: set_detect_cycles)
      from good_cycle_not_acyclic [OF this] a show False by (simp add: rel)
    qed
    from this [of "hd (detect_cycles g)"] show "detect_cycles g = []"
      by (cases "detect_cycles g") auto
  qed
qed

subsection \<open>The fuel\<close>

text \<open>A nested call marks a node that was white, so more fuel than there are nodes changes nothing.\<close>

lemma back_cycle_fuel:
  assumes "stack_ok adj N (node # S) st" "color_of st t = Gray" "card N \<le> f" "card N \<le> f'" "finite N"
  shows "back_cycle f (df_parent st) node t = back_cycle f' (df_parent st) node t"
proof -
  let ?S = "node # S"
  have t: "t \<in> set ?S" and d: "distinct ?S" and sub: "set ?S \<subseteq> N"
    and par: "successively (\<lambda>a b. map_of (df_parent st) a = Some b) ?S"
    using assms(1,2) by (auto simp: stack_ok_def)
  have "length ?S \<le> card N" using card_mono [OF assms(5) sub] distinct_card [OF d] by simp
  then have "length ?S \<le> f" "length ?S \<le> f'" using assms(3,4) by auto
  then show ?thesis using walk_back_stack [OF par t d _ refl] by (simp add: back_cycle_def)
qed

lemma fold_targets_fuel:
  assumes v: "visit_ok adj N (node # S) n (dfs n adj f)"
    and ih: "\<And>st t. \<lbrakk>stack_ok adj N (node # S) st; color_of st t = White; t \<in> N;
        map_of (df_parent st) t = Some node; t \<in> set (adj node); white_count N st \<le> n; white_count N st \<le> m\<rbrakk> \<Longrightarrow>
        dfs n adj f t st = dfs m adj f' t st"
    and f: "card N \<le> f" "card N \<le> f'" "finite N"
    and st: "stack_ok adj N (node # S) st" "set ts \<subseteq> set (adj node)" "set ts \<subseteq> N"
      "white_count N st \<le> n" "white_count N st \<le> m"
  shows "foldl (visit_target (dfs n adj f) f node) st ts = foldl (visit_target (dfs m adj f') f' node) st ts"
  using st
proof (induction ts arbitrary: st)
  case (Cons t ts)
  let ?st = "st\<lparr> df_parent := AList.update t node (df_parent st) \<rparr>"
  have t: "t \<in> set (adj node)" "t \<in> N" using Cons.prems by auto
  have eq: "visit_target (dfs n adj f) f node st t = visit_target (dfs m adj f') f' node st t"
  proof (cases "color_of st t")
    case White
    then have "t \<notin> set (node # S)" using Cons.prems(1) by (auto simp: stack_ok_def)
    then have "dfs n adj f t ?st = dfs m adj f' t ?st"
      using Cons.prems t White stack_ok_parent [OF Cons.prems(1)]
      by (intro ih) (auto simp: update_conv' white_count_def)
    then show ?thesis using White by (simp add: visit_target_def)
  next
    case Gray
    then show ?thesis using back_cycle_fuel [OF Cons.prems(1) Gray f] by (simp add: visit_target_def)
  qed (simp add: visit_target_def)
  from visit_target_ok [OF v Cons.prems(1) t Cons.prems(4) f(1,3)]
  have ok: "stack_ok adj N (node # S) (visit_target (dfs n adj f) f node st t)"
    and ad: "advances adj N st (visit_target (dfs n adj f) f node st t)" by auto
  have "foldl (visit_target (dfs n adj f) f node) (visit_target (dfs n adj f) f node st t) ts =
      foldl (visit_target (dfs m adj f') f' node) (visit_target (dfs n adj f) f node st t) ts"
    by (rule Cons.IH [OF ok]) (use Cons.prems white_count_mono [OF f(3) ad] in auto)
  then show ?case using eq by simp
qed simp

lemma dfs_fuel:
  assumes f: "card N \<le> f" "card N \<le> f'" and fin: "finite N" and clo: "\<forall>x \<in> N. set (adj x) \<subseteq> N"
  shows "\<lbrakk>stack_ok adj N S st; color_of st t = White; t \<in> N;
      S \<noteq> [] \<longrightarrow> map_of (df_parent st) t = Some (hd S) \<and> t \<in> set (adj (hd S));
      white_count N st \<le> n; white_count N st \<le> m\<rbrakk> \<Longrightarrow> dfs n adj f t st = dfs m adj f' t st"
proof (induction n arbitrary: m S st t)
  case 0
  then show ?case using fin by (auto simp: white_count_def)
next
  case (Suc n)
  then obtain m' where m: "m = Suc m'" using fin by (cases m) (auto simp: white_count_def)
  define st1 where "st1 = set_color t Gray st"
  have s1: "stack_ok adj N (t # S) st1" unfolding st1_def by (rule set_gray_ok) (use Suc.prems in auto)
  have "{x \<in> N. color_of st1 x = White} = {x \<in> N. color_of st x = White} - {t}"
    by (auto simp: st1_def color_of_set_color)
  then have "white_count N st1 \<le> n" "white_count N st1 \<le> m'"
    using Suc.prems m fin by (auto simp: white_count_def)
  then have "foldl (visit_target (dfs n adj f) f t) st1 (adj t) = foldl (visit_target (dfs m' adj f') f' t) st1 (adj t)"
    using clo Suc.prems(3)
    by (intro fold_targets_fuel [OF dfs_ok [OF f(1) fin clo] Suc.IH f fin s1]) auto
  then show ?case by (simp add: m st1_def)
qed

text \<open>C12: The search of a graph comes to its end: however deep its recursion and its walks along the parent
  chain may go, they give the result that the definition gets with one call per node and one more.\<close>

theorem cycle_search_terminates:
  "foldl (dfs_root (length (sorted_nodes g) + k) (adjacent g)) \<lparr> df_color = [], df_parent = [], df_cycles = [] \<rparr>
     (sorted_nodes g) = dfs_forest (adjacent g) (sorted_nodes g)"
proof -
  let ?N = "set (sorted_nodes g)" and ?l = "length (sorted_nodes g)"
  note clo = adjacent_closed [of g]
  have c: "card ?N \<le> ?l" by (rule card_length)
  have root: "dfs_root (?l + k) (adjacent g) st x = dfs_root (Suc ?l) (adjacent g) st x"
    if "stack_ok (adjacent g) ?N [] st" "x \<in> ?N" for st x
  proof (cases "color_of st x = White")
    case True
    have "white_count ?N st \<le> ?l"
      using c card_mono [of ?N "{x \<in> ?N. color_of st x = White}"] by (simp add: white_count_def)
    then have "dfs (?l + k) (adjacent g) (?l + k) x st = dfs (Suc ?l) (adjacent g) (Suc ?l) x st"
      using that True c by (intro dfs_fuel [OF _ _ _ clo, where S = "[]"]) auto
    then show ?thesis by (simp add: dfs_root_def)
  qed (simp add: dfs_root_def)
  have "foldl (dfs_root (?l + k) (adjacent g)) st xs = foldl (dfs_root (Suc ?l) (adjacent g)) st xs"
    if "stack_ok (adjacent g) ?N [] st" "set xs \<subseteq> ?N" for st xs
    using that
  proof (induction xs arbitrary: st)
    case (Cons x xs)
    have "stack_ok (adjacent g) ?N [] (dfs_root (Suc ?l) (adjacent g) st x)"
      using dfs_root_ok [OF Cons.prems(1) _ _ _ clo, of x "Suc ?l"] Cons.prems(2) c by simp
    then show ?case using Cons root [OF Cons.prems(1)] by simp
  qed simp
  moreover have "stack_ok (adjacent g) ?N [] \<lparr> df_color = [], df_parent = [], df_cycles = [] \<rparr>"
    by (simp add: stack_ok_def color_of_def)
  ultimately show ?thesis by (simp add: dfs_forest_def)
qed

lemma distinct_remdups_adj_sorted: "sorted xs \<Longrightarrow> distinct (remdups_adj xs)"
  by (induction xs rule: remdups_adj.induct) force+

text \<open>Every reported cycle is one, written canonically: it follows links between nodes of the graph,
  ends where it starts, repeats no other node, and starts at its smallest member; the report is sorted
  and lists no cycle twice.\<close>

theorem reported_cycles_canonical:
  "list_all (good_cycle (adjacent g) {p. node_exists g p}) (detect_cycles g) \<and>
     sorted (detect_cycles g) \<and> distinct (detect_cycles g)"
proof -
  have "sorted (detect_cycles g)" by (simp add: detect_cycles_def sorted_remdups_adj)
  moreover have "distinct (detect_cycles g)"
    by (simp add: detect_cycles_def distinct_remdups_adj_sorted)
  ultimately show ?thesis
    using dfs_forest_ok [OF adjacent_closed [of g]]
    by (auto simp: list_all_iff set_detect_cycles set_sorted_nodes)
qed

text \<open>The report is a function of the graph alone: two graphs with the same nodes, in which each node
  links to the same targets in any order and any number of times, give the same list of cycles and the
  same list of nodes.\<close>

theorem cycle_report_order_independent:
  assumes "\<And>p. node_exists g p = node_exists g' p"
    and "\<And>p. set (map ed_target (edges_of g p)) = set (map ed_target (edges_of g' p))"
  shows "detect_cycles g = detect_cycles g' \<and> sorted_nodes g = sorted_nodes g'"
proof -
  have n: "sorted_nodes g = sorted_nodes g'"
    unfolding sorted_nodes_def by (rule sorted_keys_cong) (use assms(1) in \<open>auto simp: node_exists_def\<close>)
  have "adjacent g p = adjacent g' p" for p
  proof -
    have "sorted_list_of_set (set (filter (node_exists g) (map ed_target (edges_of g p)))) =
        sorted_list_of_set (set (filter (node_exists g') (map ed_target (edges_of g' p))))"
      using assms by simp
    then show ?thesis by (simp only: adjacent_def sorted_list_of_set_sort_remdups)
  qed
  then have "adjacent g = adjacent g'" ..
  with n show ?thesis by (simp add: detect_cycles_def)
qed

definition two_docs :: "string list \<Rightarrow> graph" where
  "two_docs targets =
     \<lparr> gr_nodes = map (\<lambda>p. (p, zero_doc)) [''a.md'', ''b.md''],
       gr_edges = [(''a.md'', map (\<lambda>t. \<lparr> ed_source = ''a.md'', ed_target = t, ed_type = [], ed_line = 1,
                                ed_resolution = [], ed_markdown = False \<rparr>) targets)] \<rparr>"

theorem cycle_report_order_independent_witness:
  "detect_cycles (two_docs [''a.md'', ''b.md'']) = detect_cycles (two_docs [''b.md'', ''a.md'', ''b.md'']) \<and>
   sorted_nodes (two_docs [''a.md'', ''b.md'']) = sorted_nodes (two_docs [''b.md'', ''a.md'', ''b.md''])"
  by (rule cycle_report_order_independent) (auto simp: two_docs_def node_exists_def edges_of_def)

end
