(* ===== verification/Graph_Trace.thy ===== *)
theory Graph_Trace
  imports Link_Graph
begin

text \<open>
  Tracing of \<open>internal/graph/graph.go\<close> (\<open>Trace\<close>): a breadth-first search over the outgoing or incoming edges
  with a depth limit and an edge type, and the traversal filter of \<open>internal/query/traversal.go\<close>.

  The loop ends because every step takes an item from the queue and queues an item only for a node that
  was not visited before. The compiled sub-expressions of the filter are parameters: \<open>CompileWhere\<close> and
  \<open>MatchRecord\<close> run the expr-lang library.
\<close>

section \<open>Tracing\<close>

record trace_options =
  to_reverse :: bool
  to_max_depth :: int
  to_edge_type :: string

record trace_node =
  tn_path :: string
  tn_depth :: nat
  tn_via :: string
  tn_from :: string

record trace_result =
  tr_version :: nat
  tr_kind :: string
  tr_start :: string
  tr_nodes :: "trace_node list"

definition reverse_edge :: "string \<Rightarrow> edge \<Rightarrow> edge" where
  "reverse_edge src e =
     \<lparr> ed_source = ed_target e, ed_target = src, ed_type = ed_type e, ed_line = ed_line e,
       ed_resolution = [], ed_markdown = False \<rparr>"

definition reverse_index :: "graph \<Rightarrow> (string \<times> edge list) list" where
  "reverse_index g =
     foldl add_edge []
       (concat (map (\<lambda>src. map (reverse_edge src)
                        (filter (\<lambda>e. node_exists g (ed_target e)) (edges_of g src)))
                 (remdups (map fst (gr_edges g)))))"

definition trace_edges :: "graph \<Rightarrow> trace_options \<Rightarrow> string \<Rightarrow> edge list" where
  "trace_edges g opts p =
     (if to_reverse opts
      then (case map_of (reverse_index g) p of None \<Rightarrow> [] | Some es \<Rightarrow> es)
      else edges_of g p)"

text \<open>One edge of an item: the seen nodes and the queue.\<close>

definition trace_edge ::
  "graph \<Rightarrow> trace_options \<Rightarrow> trace_node \<Rightarrow> string list \<times> trace_node list \<Rightarrow> edge \<Rightarrow>
     string list \<times> trace_node list" where
  "trace_edge g opts item vq e =
     (case vq of (seen, queue) \<Rightarrow>
        let target = ed_target e in
        if \<not> node_exists g target then (seen, queue)
        else if to_edge_type opts \<noteq> [] \<and> ed_type e \<noteq> to_edge_type opts then (seen, queue)
        else if target \<in> set seen then (seen, queue)
        else (target # seen,
              queue @ [\<lparr> tn_path = target, tn_depth = tn_depth item + 1, tn_via = ed_type e,
                        tn_from = tn_path item \<rparr>]))"

definition trace_expand ::
  "graph \<Rightarrow> trace_options \<Rightarrow> trace_node \<Rightarrow> string list \<Rightarrow> trace_node list \<Rightarrow>
     string list \<times> trace_node list" where
  "trace_expand g opts item seen queue =
     (if to_max_depth opts > 0 \<and> int (tn_depth item) \<ge> to_max_depth opts then (seen, queue)
      else foldl (trace_edge g opts item) (seen, queue) (trace_edges g opts (tn_path item)))"

text \<open>The nodes that are still to visit.\<close>

definition unvisited :: "graph \<Rightarrow> string list \<Rightarrow> string set" where
  "unvisited g seen = {p. node_exists g p} - set seen"

lemma finite_nodes: "finite {p. node_exists g p}"
proof -
  have "{p. node_exists g p} = fst ` set (gr_nodes g)"
    by (auto simp: node_exists_def map_of_eq_None_iff)
  then show ?thesis by simp
qed

lemma trace_edge_measure:
  "trace_edge g opts item (v, q) e = (v', q') \<Longrightarrow>
     card (unvisited g v') + length q' = card (unvisited g v) + length q"
proof (cases "node_exists g (ed_target e) \<and> ed_target e \<notin> set v \<and> v' = ed_target e # v")
  case True
  assume "trace_edge g opts item (v, q) e = (v', q')"
  with True have "length q' = Suc (length q)"
    by (auto simp: trace_edge_def Let_def split: if_splits)
  moreover have "unvisited g v = insert (ed_target e) (unvisited g v')"
      "ed_target e \<notin> unvisited g v'"
    using True by (auto simp: unvisited_def)
  moreover have "finite (unvisited g v')" using finite_nodes by (simp add: unvisited_def)
  ultimately show ?thesis by simp
next
  case False
  assume "trace_edge g opts item (v, q) e = (v', q')"
  with False show ?thesis by (auto simp: trace_edge_def Let_def split: if_splits)
qed

lemma trace_edges_measure:
  "foldl (trace_edge g opts item) (v, q) es = (v', q') \<Longrightarrow>
     card (unvisited g v') + length q' = card (unvisited g v) + length q"
proof (induction es arbitrary: v q)
  case (Cons e es)
  obtain v1 q1 where 1: "trace_edge g opts item (v, q) e = (v1, q1)" by fastforce
  with Cons trace_edge_measure [OF 1] show ?case by simp
qed simp

lemma trace_expand_measure:
  "trace_expand g opts item v q = (v', q') \<Longrightarrow>
     card (unvisited g v') + length q' = card (unvisited g v) + length q"
  by (auto simp: trace_expand_def split: if_splits dest: trace_edges_measure)

function trace_loop ::
  "graph \<Rightarrow> trace_options \<Rightarrow> string list \<Rightarrow> trace_node list \<Rightarrow> trace_node list" where
  "trace_loop g opts seen [] = []"
| "trace_loop g opts seen (item # queue) =
     (let (seen', queue') = trace_expand g opts item seen queue;
          rest = trace_loop g opts seen' queue'
      in if tn_depth item > 0 then item # rest else rest)"
  by pat_completeness auto
termination
proof (relation "measure (\<lambda>(g, opts, seen, queue). card (unvisited g seen) + length queue)")
  fix g opts item seen queue x seen' queue'
  assume "x = trace_expand g opts item seen queue" "(seen', queue') = x"
  then show "((g, opts, seen', queue'), (g, opts, seen, item # queue))
      \<in> measure (\<lambda>(g, opts, seen, queue). card (unvisited g seen) + length queue)"
    using trace_expand_measure [of g opts item seen queue seen' queue'] by (auto split: prod.splits)
qed simp

definition trace :: "graph \<Rightarrow> string \<Rightarrow> trace_options \<Rightarrow> trace_result" where
  "trace g start opts =
     \<lparr> tr_version = 1, tr_kind = ''rootline/trace'', tr_start = start,
       tr_nodes =
         (if \<not> node_exists g start then []
          else trace_loop g opts [start]
                 [\<lparr> tn_path = start, tn_depth = 0, tn_via = [], tn_from = [] \<rparr>]) \<rparr>"

section \<open>The links a trace follows\<close>

text \<open>The specification: the links between nodes, read along or against their direction.\<close>

definition follows :: "trace_options \<Rightarrow> edge \<Rightarrow> bool" where
  "follows opts e = (to_edge_type opts = [] \<or> ed_type e = to_edge_type opts)"

definition linked_by :: "graph \<Rightarrow> trace_options \<Rightarrow> string \<Rightarrow> string \<Rightarrow> string \<Rightarrow> bool" where
  "linked_by g opts a ty b =
     (node_exists g a \<and> node_exists g b \<and>
      (if to_reverse opts
       then \<exists>e \<in> set (edges_of g b). ed_target e = a \<and> ed_type e = ty \<and> follows opts e
       else \<exists>e \<in> set (edges_of g a). ed_target e = b \<and> ed_type e = ty \<and> follows opts e))"

definition step_rel :: "graph \<Rightarrow> trace_options \<Rightarrow> (string \<times> string) set" where
  "step_rel g opts = {(a, b). \<exists>ty. linked_by g opts a ty b}"

definition at_distance :: "graph \<Rightarrow> trace_options \<Rightarrow> string \<Rightarrow> nat \<Rightarrow> string \<Rightarrow> bool" where
  "at_distance g opts a n b =
     ((a, b) \<in> step_rel g opts ^^ n \<and> (\<forall>m < n. (a, b) \<notin> step_rel g opts ^^ m))"

definition within_depth :: "trace_options \<Rightarrow> nat \<Rightarrow> bool" where
  "within_depth opts n = (to_max_depth opts \<le> 0 \<or> int n \<le> to_max_depth opts)"

subsection \<open>The edge map\<close>

definition edges_at :: "(string \<times> edge list) list \<Rightarrow> string \<Rightarrow> edge list" where
  "edges_at m p = (case map_of m p of None \<Rightarrow> [] | Some es \<Rightarrow> es)"

lemma edges_at_add: "edges_at (add_edge m e) p = edges_at m p @ (if ed_source e = p then [e] else [])"
  by (auto simp: edges_at_def add_edge_def update_conv' split: option.splits)

lemma edges_at_foldl:
  "edges_at (foldl add_edge m es) p = edges_at m p @ filter (\<lambda>e. ed_source e = p) es"
  by (induction es arbitrary: m) (auto simp: edges_at_add)

lemma edges_of_key: "e \<in> set (edges_of g p) \<Longrightarrow> p \<in> set (map fst (gr_edges g))"
  by (auto simp: edges_of_def in_set_conv_nth split: option.splits)
    (metis map_of_SomeD image_eqI fst_conv nth_mem)

lemma set_reverse_edges:
  "set (edges_at (reverse_index g) p) =
     {reverse_edge src e |src e. e \<in> set (edges_of g src) \<and> ed_target e = p \<and> node_exists g p}"
  using edges_of_key [of _ g]
  by (fastforce simp: reverse_index_def edges_at_foldl edges_at_def [of "[]"] reverse_edge_def)

lemma reverse_edge_sel [simp]:
  "ed_target (reverse_edge src e) = src" "ed_type (reverse_edge src e) = ed_type e"
  "follows opts (reverse_edge src e) = follows opts e"
  by (simp_all add: reverse_edge_def follows_def)

lemma bex_reverse_edges:
  "(\<exists>e \<in> set (edges_at (reverse_index g) a). Q e) \<longleftrightarrow>
     node_exists g a \<and> (\<exists>src. \<exists>e \<in> set (edges_of g src). ed_target e = a \<and> Q (reverse_edge src e))"
  by (auto simp: set_reverse_edges)

lemma linked_by_iff:
  "linked_by g opts a ty b \<longleftrightarrow>
     node_exists g a \<and> node_exists g b \<and>
     (\<exists>e \<in> set (trace_edges g opts a). ed_target e = b \<and> ed_type e = ty \<and> follows opts e)"
proof (cases "to_reverse opts")
  case True
  then show ?thesis
    by (auto simp: linked_by_def trace_edges_def bex_reverse_edges simp flip: edges_at_def)
next
  case False
  then show ?thesis by (simp add: linked_by_def trace_edges_def)
qed

section \<open>The invariant of the search\<close>

text \<open>
  What holds of all items queued so far, taken or not, while the items at depth \<open>d\<close> are expanded:
  no node twice, depths in order, and each item one link beyond an earlier one.
\<close>

definition items_ok :: "graph \<Rightarrow> trace_options \<Rightarrow> string \<Rightarrow> nat \<Rightarrow> string list \<Rightarrow> trace_node list \<Rightarrow> bool" where
  "items_ok g opts start d seen A =
     (distinct (map tn_path A) \<and> set (map tn_path A) = set seen \<and> sorted (map tn_depth A) \<and>
      (\<forall>x \<in> set A. node_exists g (tn_path x) \<and> within_depth opts (tn_depth x) \<and>
         tn_depth x \<le> Suc d \<and> (start, tn_path x) \<in> step_rel g opts ^^ tn_depth x \<and>
         (tn_depth x = 0 \<longrightarrow> tn_path x = start) \<and>
         (tn_depth x > 0 \<longrightarrow> (\<exists>y \<in> set A. tn_path y = tn_from x \<and> Suc (tn_depth y) = tn_depth x \<and>
            linked_by g opts (tn_from x) (tn_via x) (tn_path x)))))"

definition covered :: "trace_node list \<Rightarrow> nat \<Rightarrow> string \<Rightarrow> bool" where
  "covered A d p = (\<exists>y \<in> set A. tn_path y = p \<and> tn_depth y \<le> d)"

definition expanded :: "graph \<Rightarrow> trace_options \<Rightarrow> trace_node list \<Rightarrow> trace_node \<Rightarrow> bool" where
  "expanded g opts A x =
     (within_depth opts (Suc (tn_depth x)) \<longrightarrow>
        (\<forall>b. (tn_path x, b) \<in> step_rel g opts \<longrightarrow> covered A (Suc (tn_depth x)) b))"

lemma covered_append: "covered A d p \<Longrightarrow> covered (A @ B) d p"
  by (auto simp: covered_def)

lemma expanded_append: "expanded g opts A x \<Longrightarrow> expanded g opts (A @ B) x"
  by (auto simp: expanded_def covered_append)

lemma items_ok_seen: "items_ok g opts start d seen A \<Longrightarrow> tn_path ` set A = set seen"
  by (simp add: items_ok_def)

lemma items_ok_snoc:
  assumes ok: "items_ok g opts start (tn_depth item) seen A" and item: "item \<in> set A"
    and w: "within_depth opts (Suc (tn_depth item))"
    and l: "linked_by g opts (tn_path item) ty b" and new: "b \<notin> set seen"
  shows "items_ok g opts start (tn_depth item) (b # seen)
    (A @ [\<lparr> tn_path = b, tn_depth = tn_depth item + 1, tn_via = ty, tn_from = tn_path item \<rparr>])"
proof -
  have "(start, tn_path item) \<in> step_rel g opts ^^ tn_depth item"
    using ok item by (auto simp: items_ok_def)
  moreover have "(tn_path item, b) \<in> step_rel g opts" using l by (auto simp: step_rel_def)
  ultimately have r: "(start, b) \<in> step_rel g opts ^^ Suc (tn_depth item)" by auto
  have "\<forall>x \<in> set A. tn_depth x \<le> Suc (tn_depth item)" using ok by (auto simp: items_ok_def)
  then have "sorted (map tn_depth (A @ [\<lparr> tn_path = b, tn_depth = tn_depth item + 1, tn_via = ty,
      tn_from = tn_path item \<rparr>]))"
    using ok by (auto simp: items_ok_def sorted_append)
  moreover have "node_exists g b" using l by (simp add: linked_by_def)
  ultimately show ?thesis
    using ok item w l new r unfolding items_ok_def by auto
qed

lemma trace_edge_ok:
  assumes ok: "items_ok g opts start (tn_depth item) seen (P @ Q)" and item: "item \<in> set P"
    and w: "within_depth opts (Suc (tn_depth item))"
    and e: "e \<in> set (trace_edges g opts (tn_path item))"
    and r: "trace_edge g opts item (seen, Q) e = (seen', Q')"
  shows "items_ok g opts start (tn_depth item) seen' (P @ Q') \<and> (\<exists>N. Q' = Q @ N) \<and>
    (node_exists g (ed_target e) \<and> follows opts e \<longrightarrow>
       covered (P @ Q') (Suc (tn_depth item)) (ed_target e))"
proof (cases "node_exists g (ed_target e) \<and> follows opts e")
  case False
  with r ok show ?thesis by (auto simp: trace_edge_def Let_def follows_def split: if_splits)
next
  case f: True
  show ?thesis
  proof (cases "ed_target e \<in> set seen")
    case True
    then have "ed_target e \<in> tn_path ` set (P @ Q)" using items_ok_seen [OF ok] by simp
    then obtain y where "y \<in> set (P @ Q)" "tn_path y = ed_target e" by (metis imageE)
    with ok have "covered (P @ Q) (Suc (tn_depth item)) (ed_target e)"
      unfolding covered_def by (auto simp: items_ok_def)
    with f True r ok show ?thesis by (auto simp: trace_edge_def Let_def follows_def split: if_splits)
  next
    case False
    have "node_exists g (tn_path item)" using ok item by (auto simp: items_ok_def)
    with e f have l: "linked_by g opts (tn_path item) (ed_type e) (ed_target e)"
      by (auto simp: linked_by_iff)
    from items_ok_snoc [OF ok _ w l False] item f False r show ?thesis
      by (auto simp: trace_edge_def Let_def follows_def covered_def split: if_splits)
  qed
qed

lemma trace_edges_ok:
  assumes "items_ok g opts start (tn_depth item) seen (P @ Q)" and item: "item \<in> set P"
    and w: "within_depth opts (Suc (tn_depth item))"
    and "set es \<subseteq> set (trace_edges g opts (tn_path item))"
    and "foldl (trace_edge g opts item) (seen, Q) es = (seen', Q')"
  shows "items_ok g opts start (tn_depth item) seen' (P @ Q') \<and> (\<exists>N. Q' = Q @ N) \<and>
    (\<forall>e \<in> set es. node_exists g (ed_target e) \<and> follows opts e \<longrightarrow>
       covered (P @ Q') (Suc (tn_depth item)) (ed_target e))"
  using assms(1,4,5)
proof (induction es arbitrary: seen Q)
  case (Cons e es)
  obtain s1 Q1 where 1: "trace_edge g opts item (seen, Q) e = (s1, Q1)" by fastforce
  from trace_edge_ok [OF Cons.prems(1) item w _ 1] Cons.prems(2)
  obtain N where e: "items_ok g opts start (tn_depth item) s1 (P @ Q1)" "Q1 = Q @ N"
    "node_exists g (ed_target e) \<and> follows opts e \<longrightarrow>
       covered (P @ Q1) (Suc (tn_depth item)) (ed_target e)" by auto
  from Cons.IH [OF e(1)] Cons.prems(2,3) 1 obtain M where
    "items_ok g opts start (tn_depth item) seen' (P @ Q')" "Q' = Q1 @ M"
    "\<forall>e \<in> set es. node_exists g (ed_target e) \<and> follows opts e \<longrightarrow>
       covered (P @ Q') (Suc (tn_depth item)) (ed_target e)" by auto
  with e show ?case using covered_append [of "P @ Q1" _ _ M] by auto
qed simp

lemma trace_expand_ok:
  assumes ok: "items_ok g opts start (tn_depth item) seen (P @ Q)" and item: "item \<in> set P"
    and r: "trace_expand g opts item seen Q = (seen', Q')"
  shows "items_ok g opts start (tn_depth item) seen' (P @ Q') \<and> (\<exists>N. Q' = Q @ N) \<and>
    expanded g opts (P @ Q') item"
proof (cases "within_depth opts (Suc (tn_depth item))")
  case False
  with r have "seen' = seen" "Q' = Q" by (auto simp: trace_expand_def within_depth_def split: if_splits)
  with ok False show ?thesis by (simp add: expanded_def)
next
  case w: True
  then have f: "foldl (trace_edge g opts item) (seen, Q) (trace_edges g opts (tn_path item)) = (seen', Q')"
    using r by (auto simp: trace_expand_def within_depth_def split: if_splits)
  from trace_edges_ok [OF ok item w subset_refl f] show ?thesis
    by (auto simp: expanded_def step_rel_def linked_by_iff)
qed

lemma items_ok_mono:
  assumes "items_ok g opts start d seen A" "d \<le> d'"
  shows "items_ok g opts start d' seen A"
proof -
  have "tn_depth x \<le> Suc d'" if "x \<in> set A" for x
  proof -
    have "tn_depth x \<le> Suc d" using assms(1) that by (simp add: items_ok_def)
    with assms(2) show ?thesis by simp
  qed
  with assms(1) show ?thesis by (simp add: items_ok_def)
qed

lemma trace_loop_ok:
  assumes "Q \<noteq> [] \<Longrightarrow> items_ok g opts start (tn_depth (hd Q)) seen (P @ Q)"
    and "Q = [] \<Longrightarrow> items_ok g opts start d seen P" and "\<forall>x \<in> set P. expanded g opts (P @ Q) x"
  shows "\<exists>R d seen'. items_ok g opts start d seen' (P @ R) \<and> (\<exists>N. R = Q @ N) \<and>
    (\<forall>x \<in> set (P @ R). expanded g opts (P @ R) x) \<and>
    trace_loop g opts seen Q = filter (\<lambda>x. tn_depth x > 0) R"
  using assms
proof (induction g opts seen Q arbitrary: P d rule: trace_loop.induct)
  case (1 g opts seen)
  then show ?case by (intro exI [of _ "[]"]) auto
next
  case (2 g opts seen item Q)
  obtain s1 Q1 where 1: "trace_expand g opts item seen Q = (s1, Q1)" by fastforce
  have ok: "items_ok g opts start (tn_depth item) seen ((P @ [item]) @ Q)" using "2.prems"(1) by simp
  from trace_expand_ok [OF ok _ 1] obtain N where
    ok1: "items_ok g opts start (tn_depth item) s1 ((P @ [item]) @ Q1)" and Q1: "Q1 = Q @ N" and
    ex: "expanded g opts ((P @ [item]) @ Q1) item" by auto
  have "tn_depth item \<le> tn_depth (hd Q1)" if "Q1 \<noteq> []"
    using ok1 that by (cases Q1) (auto simp: items_ok_def sorted_append)
  then have p1: "Q1 \<noteq> [] \<Longrightarrow> items_ok g opts start (tn_depth (hd Q1)) s1 ((P @ [item]) @ Q1)"
    by (rule items_ok_mono [OF ok1])
  have p2: "Q1 = [] \<Longrightarrow> items_ok g opts start (tn_depth item) s1 (P @ [item])" using ok1 by simp
  have p3: "\<forall>x \<in> set (P @ [item]). expanded g opts ((P @ [item]) @ Q1) x"
  proof
    fix x assume x: "x \<in> set (P @ [item])"
    show "expanded g opts ((P @ [item]) @ Q1) x"
    proof (cases "x = item")
      case True
      with ex show ?thesis by simp
    next
      case False
      with x "2.prems"(3) have "expanded g opts (P @ item # Q) x" by simp
      from expanded_append [OF this, of N] show ?thesis by (simp add: Q1)
    qed
  qed
  from "2.IH" [OF 1 [symmetric] refl p1 p2 p3] obtain R d' s2 where
    R: "items_ok g opts start d' s2 (P @ item # R)" "\<exists>M. R = Q1 @ M"
    "\<forall>x \<in> set (P @ item # R). expanded g opts (P @ item # R) x"
    "trace_loop g opts s1 Q1 = filter (\<lambda>x. tn_depth x > 0) R" by (simp only: append_assoc append.simps) blast
  have "trace_loop g opts seen (item # Q) = filter (\<lambda>x. tn_depth x > 0) (item # R)"
    using R(4) by (simp add: 1)
  moreover have "\<exists>N. item # R = (item # Q) @ N" using R(2) Q1 by auto
  ultimately show ?case using R(1,3) by blast
qed

subsection \<open>What the search returns\<close>

lemma within_mono: "within_depth opts n \<Longrightarrow> m \<le> n \<Longrightarrow> within_depth opts m"
  by (auto simp: within_depth_def)

lemma covered_complete:
  assumes ok: "items_ok g opts start d seen R" and st: "covered R 0 start"
    and ex: "\<forall>x \<in> set R. expanded g opts R x"
  shows "(start, x) \<in> step_rel g opts ^^ n \<Longrightarrow> within_depth opts n \<Longrightarrow> covered R n x"
proof (induction n arbitrary: x)
  case 0
  with st show ?case by simp
next
  case (Suc n)
  then obtain y where y: "(start, y) \<in> step_rel g opts ^^ n" "(y, x) \<in> step_rel g opts" by auto
  have "within_depth opts n" using Suc.prems(2) by (rule within_mono) simp
  with Suc.IH [OF y(1)] obtain t where t: "t \<in> set R" "tn_path t = y" "tn_depth t \<le> n"
    by (auto simp: covered_def)
  have "within_depth opts (Suc (tn_depth t))" using Suc.prems(2) by (rule within_mono) (simp add: t(3))
  with ex t y(2) have "covered R (Suc (tn_depth t)) x" by (auto simp: expanded_def)
  with t(3) show ?case unfolding covered_def by (meson Suc_le_mono le_trans)
qed

lemma item_at_distance:
  assumes ok: "items_ok g opts start d seen R" and st: "covered R 0 start"
    and ex: "\<forall>x \<in> set R. expanded g opts R x" and t: "t \<in> set R"
  shows "at_distance g opts start (tn_depth t) (tn_path t)"
proof -
  have tt: "within_depth opts (tn_depth t)" "(start, tn_path t) \<in> step_rel g opts ^^ tn_depth t"
    using ok t by (simp_all add: items_ok_def)
  have inj: "inj_on tn_path (set R)" using ok by (simp add: items_ok_def distinct_map)
  have "(start, tn_path t) \<notin> step_rel g opts ^^ m" if m: "m < tn_depth t" for m
  proof
    assume "(start, tn_path t) \<in> step_rel g opts ^^ m"
    from covered_complete [OF ok st ex this within_mono [OF tt(1)]] m
    obtain y where y: "y \<in> set R" "tn_path y = tn_path t" "tn_depth y \<le> m"
      by (auto simp: covered_def)
    from inj_onD [OF inj y(2,1) t] y(3) m show False by simp
  qed
  with tt(2) show ?thesis by (simp add: at_distance_def)
qed

lemma trace_items:
  assumes "node_exists g start"
  obtains R d seen where "items_ok g opts start d seen R" "covered R 0 start"
    "\<forall>x \<in> set R. expanded g opts R x"
    "tr_nodes (trace g start opts) = filter (\<lambda>x. tn_depth x > 0) R"
proof -
  define t0 where "t0 = \<lparr> tn_path = start, tn_depth = 0, tn_via = [], tn_from = [] \<rparr>"
  have "items_ok g opts start 0 [start] [t0]"
    using assms by (auto simp: items_ok_def t0_def within_depth_def)
  then have "[t0] \<noteq> [] \<Longrightarrow> items_ok g opts start (tn_depth (hd [t0])) [start] ([] @ [t0])"
    by (simp add: t0_def)
  from trace_loop_ok [OF this] obtain R d seen where
    R: "items_ok g opts start d seen R" "\<exists>N. R = t0 # N" "\<forall>x \<in> set R. expanded g opts R x"
    "trace_loop g opts [start] [t0] = filter (\<lambda>x. tn_depth x > 0) R" by auto
  moreover have "covered R 0 start" using R(2) by (auto simp: covered_def t0_def)
  moreover have "tr_nodes (trace g start opts) = trace_loop g opts [start] [t0]"
    using assms by (simp add: trace_def t0_def)
  ultimately show thesis using that by simp
qed

lemma no_step_from_missing: "\<not> node_exists g a \<Longrightarrow> n > 0 \<Longrightarrow> (a, b) \<notin> step_rel g opts ^^ n"
proof
  assume "\<not> node_exists g a" "n > 0" "(a, b) \<in> step_rel g opts ^^ n"
  moreover from this obtain m c where "(a, c) \<in> step_rel g opts" "(c, b) \<in> step_rel g opts ^^ m"
    by (metis gr0_conv_Suc relpow_Suc_D2)
  ultimately show False by (auto simp: step_rel_def linked_by_def)
qed

section \<open>Properties\<close>

text \<open>C26: A trace lists exactly the nodes that the links of the requested direction and type reach within
  the depth limit, each with the length of a shortest way to it; the start is never listed.\<close>

theorem trace_lists_reachable:
  "(\<exists>t \<in> set (tr_nodes (trace g start opts)). tn_path t = p \<and> tn_depth t = n) \<longleftrightarrow>
     n > 0 \<and> at_distance g opts start n p \<and> within_depth opts n"
proof (cases "node_exists g start")
  case False
  then have "tr_nodes (trace g start opts) = []" by (simp add: trace_def)
  moreover have "\<not> (n > 0 \<and> at_distance g opts start n p)"
    using no_step_from_missing [OF False] by (auto simp: at_distance_def)
  ultimately show ?thesis by auto
next
  case True
  then obtain R d seen where R: "items_ok g opts start d seen R" "covered R 0 start"
    "\<forall>x \<in> set R. expanded g opts R x"
    "tr_nodes (trace g start opts) = filter (\<lambda>x. tn_depth x > 0) R" by (rule trace_items)
  have in_R: "at_distance g opts start (tn_depth t) (tn_path t) \<and> within_depth opts (tn_depth t)"
    if "t \<in> set R" for t
    using item_at_distance [OF R(1-3) that] that R(1) by (auto simp: items_ok_def)
  show ?thesis
  proof
    assume "\<exists>t \<in> set (tr_nodes (trace g start opts)). tn_path t = p \<and> tn_depth t = n"
    then show "n > 0 \<and> at_distance g opts start n p \<and> within_depth opts n"
      using in_R by (auto simp: R(4))
  next
    assume n: "n > 0 \<and> at_distance g opts start n p \<and> within_depth opts n"
    then obtain t where t: "t \<in> set R" "tn_path t = p" "tn_depth t \<le> n"
      using covered_complete [OF R(1-3), of p n] by (auto simp: at_distance_def covered_def)
    have "tn_depth t = n"
      using n in_R [OF t(1)] t(2,3) by (auto simp: at_distance_def le_less)
    with t n show "\<exists>t \<in> set (tr_nodes (trace g start opts)). tn_path t = p \<and> tn_depth t = n"
      by (auto simp: R(4))
  qed
qed

text \<open>The list of a trace is breadth-first and explains itself: depths never decrease, no node is
  listed twice, and the edge type and source of each entry name a link from a node that is one link
  nearer to the start.\<close>

theorem trace_entries_explained:
  "distinct (map tn_path (tr_nodes (trace g start opts))) \<and>
     sorted (map tn_depth (tr_nodes (trace g start opts))) \<and>
     list_all (\<lambda>t. linked_by g opts (tn_from t) (tn_via t) (tn_path t) \<and>
                   at_distance g opts start (tn_depth t - 1) (tn_from t))
       (tr_nodes (trace g start opts))"
proof (cases "node_exists g start")
  case False
  then show ?thesis by (simp add: trace_def)
next
  case True
  then obtain R d seen where R: "items_ok g opts start d seen R" "covered R 0 start"
    "\<forall>x \<in> set R. expanded g opts R x"
    "tr_nodes (trace g start opts) = filter (\<lambda>x. tn_depth x > 0) R" by (rule trace_items)
  have "linked_by g opts (tn_from t) (tn_via t) (tn_path t) \<and>
      at_distance g opts start (tn_depth t - 1) (tn_from t)" if t: "t \<in> set R" "tn_depth t > 0" for t
  proof -
    from R(1) t obtain y where y: "y \<in> set R" "tn_path y = tn_from t" "Suc (tn_depth y) = tn_depth t"
      "linked_by g opts (tn_from t) (tn_via t) (tn_path t)" by (auto simp: items_ok_def)
    have "at_distance g opts start (tn_depth y) (tn_path y)" by (rule item_at_distance [OF R(1-3) y(1)])
    with y show ?thesis by (metis diff_Suc_1)
  qed
  moreover have "distinct (map tn_path R)" "sorted (map tn_depth R)"
    using R(1) by (auto simp: items_ok_def)
  ultimately show ?thesis
    by (simp add: R(4) list_all_iff distinct_map_filter sorted_filter)
qed

end
