(* ===== verification/Expr_Cache.thy ===== *)
theory Expr_Cache
  imports Go_Values
begin

text \<open>
  The cache of compiled expressions of \<open>internal/query/expr_cache.go\<close>: a map to the elements of a list
  in the order of use, with eviction at capacity, under a read-write lock.

  The sequential operation is \<open>cache_compile\<close>. Callers run concurrently and the lock is given up between
  the lookup and the update, so the interleavings are a step relation over the shared cache and one
  program counter per caller: a caller may hold an element that another one evicts meanwhile.
  \<open>expr.Compile\<close> is the parameter \<open>cmp\<close>.
\<close>

section \<open>The cache\<close>

text \<open>An element of the list, with the identity of its allocation.\<close>

record 'p cache_element =
  el_id :: nat
  el_key :: string
  el_program :: 'p

text \<open>The map \<open>items\<close>, the list \<open>order\<close> from front to back, and the next identity.\<close>

record 'p expr_cache =
  ec_capacity :: int
  ec_items :: "(string \<times> 'p cache_element) list"
  ec_order :: "'p cache_element list"
  ec_next :: nat

definition new_expr_cache :: "int \<Rightarrow> 'p expr_cache" where
  "new_expr_cache cap = \<lparr> ec_capacity = cap, ec_items = [], ec_order = [], ec_next = 0 \<rparr>"

text \<open>\<open>MoveToFront\<close> leaves the list alone when the element is no longer in it.\<close>

definition move_to_front :: "'p cache_element \<Rightarrow> 'p expr_cache \<Rightarrow> 'p expr_cache" where
  "move_to_front el c =
     (if el \<in> set (ec_order c) then c\<lparr> ec_order := el # remove1 el (ec_order c) \<rparr> else c)"

definition evict_oldest :: "'p expr_cache \<Rightarrow> 'p expr_cache" where
  "evict_oldest c =
     (if int (length (ec_order c)) \<ge> ec_capacity c \<and> ec_order c \<noteq> []
      then c\<lparr> ec_order := butlast (ec_order c),
              ec_items := AList.delete (el_key (last (ec_order c))) (ec_items c) \<rparr>
      else c)"

definition push_entry :: "string \<Rightarrow> 'p \<Rightarrow> 'p expr_cache \<Rightarrow> 'p expr_cache" where
  "push_entry k p c =
     (let el = \<lparr> el_id = ec_next c, el_key = k, el_program = p \<rparr>
      in c\<lparr> ec_order := el # ec_order c, ec_items := AList.update k el (ec_items c),
            ec_next := ec_next c + 1 \<rparr>)"

text \<open>The second critical section: another caller may have stored the key meanwhile.\<close>

definition store_program :: "string \<Rightarrow> 'p \<Rightarrow> 'p expr_cache \<Rightarrow> 'p \<times> 'p expr_cache" where
  "store_program k p c =
     (case map_of (ec_items c) k of
        Some el \<Rightarrow> (el_program el, move_to_front el c)
      | None \<Rightarrow> (p, push_entry k p (evict_oldest c)))"

definition compile_error :: "string \<Rightarrow> go_error" where
  "compile_error m = Wrapped ''compiling where expression'' (Err m)"

text \<open>\<open>Compile\<close>, run by one caller alone.\<close>

definition cache_compile ::
  "(string \<Rightarrow> string + 'p) \<Rightarrow> string \<Rightarrow> 'p expr_cache \<Rightarrow> (go_error + 'p) \<times> 'p expr_cache" where
  "cache_compile cmp k c =
     (case map_of (ec_items c) k of
        Some el \<Rightarrow> (Inr (el_program el), move_to_front el c)
      | None \<Rightarrow>
          (case cmp k of
             Inl m \<Rightarrow> (Inl (compile_error m), c)
           | Inr p \<Rightarrow> (case store_program k p c of (q, c') \<Rightarrow> (Inr q, c'))))"

section \<open>Concurrent callers\<close>

text \<open>
  Where a caller is: before the lookup; past it with a hit and the lock released; past it with a miss,
  compiling; with a program to store; or returned.
\<close>

datatype 'p caller =
    Looking string
  | Hit string "'p cache_element"
  | Missed string
  | Storing string 'p
  | Returned string "go_error + 'p"

type_synonym 'p callers = "'p expr_cache \<times> 'p caller list"

inductive call_step :: "(string \<Rightarrow> string + 'p) \<Rightarrow> 'p callers \<Rightarrow> 'p callers \<Rightarrow> bool"
  for cmp where
  lookup_hit: "i < length ts \<Longrightarrow> ts ! i = Looking k \<Longrightarrow> map_of (ec_items c) k = Some el \<Longrightarrow>
    call_step cmp (c, ts) (c, ts[i := Hit k el])"
| lookup_miss: "i < length ts \<Longrightarrow> ts ! i = Looking k \<Longrightarrow> map_of (ec_items c) k = None \<Longrightarrow>
    call_step cmp (c, ts) (c, ts[i := Missed k])"
| touch: "i < length ts \<Longrightarrow> ts ! i = Hit k el \<Longrightarrow>
    call_step cmp (c, ts) (move_to_front el c, ts[i := Returned k (Inr (el_program el))])"
| compile_ok: "i < length ts \<Longrightarrow> ts ! i = Missed k \<Longrightarrow> cmp k = Inr p \<Longrightarrow>
    call_step cmp (c, ts) (c, ts[i := Storing k p])"
| compile_fail: "i < length ts \<Longrightarrow> ts ! i = Missed k \<Longrightarrow> cmp k = Inl m \<Longrightarrow>
    call_step cmp (c, ts) (c, ts[i := Returned k (Inl (compile_error m))])"
| store: "i < length ts \<Longrightarrow> ts ! i = Storing k p \<Longrightarrow> store_program k p c = (q, c') \<Longrightarrow>
    call_step cmp (c, ts) (c', ts[i := Returned k (Inr q)])"

inductive call_reach :: "(string \<Rightarrow> string + 'p) \<Rightarrow> int \<Rightarrow> string list \<Rightarrow> 'p callers \<Rightarrow> bool"
  for cmp cap ks where
  reach_start: "call_reach cmp cap ks (new_expr_cache cap, map Looking ks)"
| reach_step: "call_reach cmp cap ks s \<Longrightarrow> call_step cmp s s' \<Longrightarrow> call_reach cmp cap ks s'"

section \<open>The invariant of the cache\<close>

text \<open>What a call returns for an expression.\<close>

definition compiled :: "(string \<Rightarrow> string + 'p) \<Rightarrow> string \<Rightarrow> go_error + 'p" where
  "compiled cmp k = (case cmp k of Inl m \<Rightarrow> Inl (compile_error m) | Inr p \<Rightarrow> Inr p)"

definition cache_ok :: "(string \<Rightarrow> string + 'p) \<Rightarrow> 'p expr_cache \<Rightarrow> bool" where
  "cache_ok cmp c =
     (distinct (map el_key (ec_order c)) \<and>
      (\<forall>k el. map_of (ec_items c) k = Some el \<longleftrightarrow> el \<in> set (ec_order c) \<and> el_key el = k) \<and>
      (\<forall>el \<in> set (ec_order c). cmp (el_key el) = Inr (el_program el) \<and> el_id el < ec_next c) \<and>
      int (length (ec_order c)) \<le> max 1 (ec_capacity c))"

fun caller_ok :: "(string \<Rightarrow> string + 'p) \<Rightarrow> 'p caller \<Rightarrow> bool" where
  "caller_ok cmp (Looking k) = True"
| "caller_ok cmp (Hit k el) = (el_key el = k \<and> cmp k = Inr (el_program el))"
| "caller_ok cmp (Missed k) = True"
| "caller_ok cmp (Storing k p) = (cmp k = Inr p)"
| "caller_ok cmp (Returned k r) = (r = compiled cmp k)"

lemma new_cache_ok: "cache_ok cmp (new_expr_cache cap)"
  by (simp add: cache_ok_def new_expr_cache_def)

lemma cache_okD:
  assumes "cache_ok cmp c"
  shows "distinct (map el_key (ec_order c))" "distinct (ec_order c)"
    "map_of (ec_items c) k = Some el \<longleftrightarrow> el \<in> set (ec_order c) \<and> el_key el = k"
    "el \<in> set (ec_order c) \<Longrightarrow> cmp (el_key el) = Inr (el_program el)"
    "int (length (ec_order c)) \<le> max 1 (ec_capacity c)"
  using assms by (simp_all add: cache_ok_def distinct_map)

lemma cache_ok_item:
  "cache_ok cmp c \<Longrightarrow> map_of (ec_items c) k = Some el \<Longrightarrow>
     el \<in> set (ec_order c) \<and> el_key el = k \<and> cmp k = Inr (el_program el)"
  using cache_okD(3,4) [of cmp c] by metis

lemma move_to_front_ok:
  assumes ok: "cache_ok cmp c"
  shows "cache_ok cmp (move_to_front el c)"
proof (cases "el \<in> set (ec_order c)")
  case True
  note d = cache_okD(1,2) [OF ok]
  have s: "set (el # remove1 el (ec_order c)) = set (ec_order c)"
    using True d by (auto simp: set_remove1_eq)
  have "distinct (el # remove1 el (ec_order c))" using d by (simp add: distinct_remove1)
  then have "distinct (map el_key (el # remove1 el (ec_order c)))"
    using d s by (metis distinct_map)
  moreover have "length (el # remove1 el (ec_order c)) = length (ec_order c)"
    using True d(2) s by (metis distinct_card distinct_remove1 \<open>distinct (el # remove1 el (ec_order c))\<close>)
  ultimately show ?thesis
    using ok True s by (simp add: move_to_front_def cache_ok_def)
next
  case False
  with ok show ?thesis by (simp add: move_to_front_def)
qed

lemma evict_oldest_ok:
  assumes ok: "cache_ok cmp c"
  shows "cache_ok cmp (evict_oldest c)"
    "map_of (ec_items c) k = None \<Longrightarrow> map_of (ec_items (evict_oldest c)) k = None"
    "ec_capacity (evict_oldest c) = ec_capacity c" "ec_next (evict_oldest c) = ec_next c"
    "int (length (ec_order (evict_oldest c))) < max 1 (ec_capacity c)"
proof -
  show "map_of (ec_items (evict_oldest c)) k = None" if "map_of (ec_items c) k = None"
    using that by (simp add: evict_oldest_def delete_conv')
  show "ec_capacity (evict_oldest c) = ec_capacity c" "ec_next (evict_oldest c) = ec_next c"
    by (simp_all add: evict_oldest_def)
  show "int (length (ec_order (evict_oldest c))) < max 1 (ec_capacity c)"
    using cache_okD(5) [OF ok] by (cases "ec_order c") (auto simp: evict_oldest_def)
  show "cache_ok cmp (evict_oldest c)"
  proof (cases "int (length (ec_order c)) \<ge> ec_capacity c \<and> ec_order c \<noteq> []")
    case False
    then have "evict_oldest c = c" unfolding evict_oldest_def by (rule if_not_P)
    with ok show ?thesis by simp
  next
    case True
    then obtain xs x where x: "ec_order c = xs @ [x]" by (metis append_butlast_last_id)
    have keys: "distinct (map el_key xs)" "el_key x \<notin> el_key ` set xs"
      using cache_okD(1) [OF ok] by (simp_all add: x)
    have ev: "evict_oldest c = c\<lparr> ec_order := xs, ec_items := AList.delete (el_key x) (ec_items c) \<rparr>"
      using True by (simp add: evict_oldest_def x)
    have "map_of (AList.delete (el_key x) (ec_items c)) k = Some el \<longleftrightarrow> el \<in> set xs \<and> el_key el = k"
      for k el
      using cache_okD(3) [OF ok, of k el] keys(2) by (auto simp: delete_conv' x image_iff)
    with ok keys show ?thesis by (simp add: ev cache_ok_def x)
  qed
qed

lemma push_entry_ok:
  assumes ok: "cache_ok cmp c" and new: "map_of (ec_items c) k = None" and p: "cmp k = Inr p"
    and room: "int (length (ec_order c)) < max 1 (ec_capacity c)"
  shows "cache_ok cmp (push_entry k p c)"
proof -
  define el where "el = \<lparr> el_id = ec_next c, el_key = k, el_program = p \<rparr>"
  have el: "el_key el = k" "el_program el = p" "el_id el = ec_next c" by (simp_all add: el_def)
  have fresh: "\<forall>x \<in> set (ec_order c). el_key x \<noteq> k"
    using new cache_okD(3) [OF ok, of k] by (metis option.distinct(1))
  then have fresh': "k \<notin> el_key ` set (ec_order c)" by auto
  have "map_of (AList.update k el (ec_items c)) j = Some e \<longleftrightarrow>
      e \<in> set (el # ec_order c) \<and> el_key e = j" for j e
    using cache_okD(3) [OF ok, of j e] fresh el by (auto simp: update_conv')
  moreover have "push_entry k p c =
      c\<lparr> ec_order := el # ec_order c, ec_items := AList.update k el (ec_items c), ec_next := ec_next c + 1 \<rparr>"
    by (simp add: push_entry_def el_def Let_def)
  ultimately show ?thesis
    using ok fresh' p room el by (simp add: cache_ok_def less_Suc_eq)
qed

lemma store_program_ok:
  assumes ok: "cache_ok cmp c" and p: "cmp k = Inr p" and r: "store_program k p c = (q, c')"
  shows "cache_ok cmp c' \<and> q = p"
proof (cases "map_of (ec_items c) k")
  case (Some el)
  with cache_ok_item [OF ok Some] p r move_to_front_ok [OF ok] show ?thesis
    by (auto simp: store_program_def)
next
  case None
  note ev = evict_oldest_ok [OF ok]
  from push_entry_ok [OF ev(1) ev(2) [OF None] p] ev(3,5) None r show ?thesis
    by (auto simp: store_program_def)
qed

lemma call_step_ok:
  assumes "call_step cmp s s'" "cache_ok cmp (fst s)" "list_all (caller_ok cmp) (snd s)"
  shows "cache_ok cmp (fst s') \<and> list_all (caller_ok cmp) (snd s')"
proof -
  have upd: "list_all (caller_ok cmp) (ts[i := t])" if "list_all (caller_ok cmp) ts" "caller_ok cmp t"
    for ts i t
    using that set_update_subset_insert [of ts i t] by (auto simp: list_all_iff)
  have at: "caller_ok cmp (ts ! i)" if "list_all (caller_ok cmp) ts" "i < length ts" for ts i
    using that by (simp add: list_all_length)
  from assms show ?thesis
  proof cases
    case (lookup_hit i ts k c el)
    with assms cache_ok_item [of cmp c k el] show ?thesis by (simp add: upd)
  next
    case (touch i ts k el c)
    with assms at [of ts i] show ?thesis by (auto simp: upd move_to_front_ok compiled_def)
  next
    case (store i ts k p c q c')
    with assms at [of ts i] store_program_ok [of cmp c k p q c'] show ?thesis
      by (simp add: upd compiled_def)
  qed (use assms in \<open>auto simp: upd compiled_def\<close>)
qed

lemma call_reach_ok:
  "call_reach cmp cap ks s \<Longrightarrow> cache_ok cmp (fst s) \<and> list_all (caller_ok cmp) (snd s)"
proof (induction rule: call_reach.induct)
  case reach_start
  show ?case by (simp add: new_cache_ok list_all_iff)
next
  case (reach_step s s')
  then show ?case using call_step_ok by blast
qed

section \<open>The order of use\<close>

text \<open>The specification: the expressions that compile, most recently requested first, each once.\<close>

fun recent_keys :: "(string \<Rightarrow> string + 'p) \<Rightarrow> string list \<Rightarrow> string list \<Rightarrow> string list" where
  "recent_keys cmp [] R = R"
| "recent_keys cmp (k # ks) R =
     recent_keys cmp ks (case cmp k of Inl _ \<Rightarrow> R | Inr _ \<Rightarrow> k # removeAll k R)"

definition run_cache :: "(string \<Rightarrow> string + 'p) \<Rightarrow> string list \<Rightarrow> 'p expr_cache \<Rightarrow> 'p expr_cache" where
  "run_cache cmp ks c = foldl (\<lambda>c k. snd (cache_compile cmp k c)) c ks"

lemma map_remove1_key:
  "distinct (map f xs) \<Longrightarrow> x \<in> set xs \<Longrightarrow> map f (remove1 x xs) = remove1 (f x) (map f xs)"
  by (induction xs) (auto simp: image_iff)

lemma take_removeAll_in:
  "distinct R \<Longrightarrow> k \<in> set (take (Suc n) R) \<Longrightarrow> take n (removeAll k R) = remove1 k (take (Suc n) R)"
proof (induction R arbitrary: n)
  case (Cons x R)
  show ?case
  proof (cases "k = x")
    case True
    with Cons.prems show ?thesis by simp
  next
    case False
    then obtain m where "n = Suc m" using Cons.prems by (cases n) auto
    with Cons False show ?thesis by simp
  qed
qed simp

lemma take_removeAll_out: "k \<notin> set (take (Suc n) R) \<Longrightarrow> take n (removeAll k R) = take n R"
proof (induction R arbitrary: n)
  case (Cons x R)
  then show ?case by (cases n) auto
qed simp

lemma butlast_take_Suc: "length (take (Suc n) R) = Suc n \<Longrightarrow> butlast (take (Suc n) R) = take n R"
  by (simp add: butlast_take)

lemma cache_compile_frame: "ec_capacity (snd (cache_compile cmp k c)) = ec_capacity c"
  by (auto simp: cache_compile_def store_program_def move_to_front_def push_entry_def evict_oldest_def
    Let_def split: option.splits sum.splits prod.splits)

lemma cache_compile_order:
  assumes ok: "cache_ok cmp c" and cap: "ec_capacity c = int (Suc n)"
    and ord: "map el_key (ec_order c) = take (Suc n) R" and R: "distinct R"
  shows "map el_key (ec_order (snd (cache_compile cmp k c))) =
    take (Suc n) (case cmp k of Inl _ \<Rightarrow> R | Inr _ \<Rightarrow> k # removeAll k R)"
proof (cases "map_of (ec_items c) k")
  case (Some el)
  note el = cache_ok_item [OF ok Some]
  have "k \<in> set (take (Suc n) R)" using el ord by (metis image_eqI list.set_map)
  with take_removeAll_in [OF R this] el ord cache_okD(1) [OF ok] Some show ?thesis
    by (auto simp: cache_compile_def move_to_front_def map_remove1_key)
next
  case None
  have "\<forall>x \<in> set (ec_order c). el_key x \<noteq> k"
    using None cache_okD(3) [OF ok, of k] by (metis option.distinct(1))
  then have "k \<notin> set (map el_key (ec_order c))" by auto
  then have k: "k \<notin> set (take (Suc n) R)" unfolding ord .
  have len: "length (ec_order c) = length (take (Suc n) R)" by (metis ord length_map)
  have evict: "map el_key (ec_order (evict_oldest c)) = take n R"
  proof (cases "Suc n \<le> length (ec_order c)")
    case True
    then have "map el_key (ec_order (evict_oldest c)) = butlast (take (Suc n) R)"
      using cap ord by (auto simp: evict_oldest_def map_butlast)
    with butlast_take_Suc [of n R] True len show ?thesis by simp
  next
    case False
    with cap have "evict_oldest c = c" by (auto simp: evict_oldest_def)
    with False len ord show ?thesis by simp
  qed
  show ?thesis
  proof (cases "cmp k")
    case (Inl m)
    with None ord show ?thesis by (simp add: cache_compile_def)
  next
    case (Inr p)
    with None evict take_removeAll_out [OF k] show ?thesis
      by (simp add: cache_compile_def store_program_def push_entry_def Let_def)
  qed
qed

lemma cache_compile_ok: "cache_ok cmp c \<Longrightarrow> cache_ok cmp (snd (cache_compile cmp k c))"
proof -
  assume ok: "cache_ok cmp c"
  show ?thesis
  proof (cases "cmp k")
    case (Inr p)
    obtain q c' where "store_program k p c = (q, c')" by fastforce
    with store_program_ok [of cmp c k p] ok Inr show ?thesis
      by (simp add: cache_compile_def move_to_front_ok split: option.split)
  qed (simp add: ok cache_compile_def move_to_front_ok split: option.split)
qed

lemma run_cache_order:
  "cache_ok cmp c \<Longrightarrow> ec_capacity c = int (Suc n) \<Longrightarrow> map el_key (ec_order c) = take (Suc n) R \<Longrightarrow>
     distinct R \<Longrightarrow> map el_key (ec_order (run_cache cmp ks c)) = take (Suc n) (recent_keys cmp ks R)"
proof (induction ks arbitrary: c R)
  case (Cons k ks)
  let ?c = "snd (cache_compile cmp k c)"
  let ?R = "case cmp k of Inl _ \<Rightarrow> R | Inr _ \<Rightarrow> k # removeAll k R"
  have "distinct ?R" using Cons.prems(4) by (auto split: sum.split simp: distinct_removeAll)
  moreover have "map el_key (ec_order ?c) = take (Suc n) ?R"
    by (rule cache_compile_order) (use Cons.prems in auto)
  moreover have "cache_ok cmp ?c" "ec_capacity ?c = int (Suc n)"
    using Cons.prems(1,2) by (simp_all only: cache_compile_ok cache_compile_frame)
  ultimately have "map el_key (ec_order (run_cache cmp ks ?c)) = take (Suc n) (recent_keys cmp ks ?R)"
    by (intro Cons.IH)
  then show ?case by (simp add: run_cache_def)
qed (simp add: run_cache_def)

section \<open>Properties\<close>

text \<open>C20: Whatever way concurrent callers interleave between their critical sections, and whatever they
  evict under each other, every call that returns gives what compiling its own expression gives, and
  the map, the list and the capacity of the cache stay consistent.\<close>

theorem concurrent_compile_correct:
  assumes "call_reach cmp cap ks (c, ts)"
  shows "(\<forall>k r. Returned k r \<in> set ts \<longrightarrow> r = compiled cmp k) \<and> cache_ok cmp c"
  using call_reach_ok [OF assms] by (fastforce simp: list_all_iff)

text \<open>A run of two callers in which the first one compiles and stores its expression.\<close>

definition sample_cmp :: "string \<Rightarrow> string + nat" where
  "sample_cmp k = (if k = ''('' then Inl ''eof'' else Inr (length k))"

lemma call_reach_sample:
  "call_reach sample_cmp 1 [''a'', ''('']
     (push_entry ''a'' 1 (new_expr_cache 1), [Returned ''a'' (Inr 1), Looking ''(''])"
proof -
  let ?c = "new_expr_cache 1 :: nat expr_cache"
  have "call_reach sample_cmp 1 [''a'', ''(''] (?c, [Looking ''a'', Looking ''(''])"
    using reach_start [of sample_cmp 1 "[''a'', ''('']"] by simp
  from reach_step [OF this lookup_miss [of 0 _ "''a''"]]
  have "call_reach sample_cmp 1 [''a'', ''(''] (?c, [Missed ''a'', Looking ''(''])"
    by (simp add: new_expr_cache_def)
  from reach_step [OF this compile_ok [of 0 _ "''a''" _ 1]]
  have "call_reach sample_cmp 1 [''a'', ''(''] (?c, [Storing ''a'' 1, Looking ''(''])"
    by (simp add: sample_cmp_def)
  from reach_step [OF this store [of 0 _ "''a''" 1 ?c 1 "push_entry ''a'' 1 ?c"]]
  show ?thesis by (simp add: store_program_def evict_oldest_def new_expr_cache_def)
qed

theorem concurrent_compile_correct_witness:
  "Inr 1 = compiled sample_cmp ''a'' \<and> cache_ok sample_cmp (push_entry ''a'' 1 (new_expr_cache 1))"
  using concurrent_compile_correct [OF call_reach_sample] by auto

text \<open>The cache keeps the expressions used most recently: after any sequence of calls its list is the
  first \<open>n\<close> of the successfully compiled expressions, ordered by their latest use, where \<open>n\<close> is the
  capacity.\<close>

theorem cache_keeps_most_recent:
  "map el_key (ec_order (run_cache cmp ks (new_expr_cache (int (Suc n))))) =
     take (Suc n) (recent_keys cmp ks [])"
  by (rule run_cache_order [OF new_cache_ok]) (simp_all add: new_expr_cache_def)

end
