(* ===== verification/Query_Engine.thy ===== *)
theory Query_Engine
  imports Graph_Trace Expr_Cache
begin

text \<open>
  The query engine: conditions and field shortcuts of \<open>internal/query/query.go\<close> and \<open>shortcuts.go\<close>, the
  environment and the matching of expressions of \<open>expr_eval.go\<close>, and the traversal filter of
  \<open>traversal.go\<close>.

  Parameters: \<open>compile\<close>, the cached compilation of \<open>Expr_Cache\<close>, and \<open>run\<close>, the expr-lang
  machine, which gives an error text or a value.
\<close>

section \<open>Conditions\<close>

datatype condition =
  Condition (co_op: string) (co_field: string) (co_value: string) (co_values: "string list")
    (co_children: "condition list")

record query =
  qy_where :: "condition option"
  qy_limit :: int
  qy_count :: bool

datatype query_result =
    RowsResult (qr_kind: string) (qr_meta: nat) (qr_rows: "doc list")
  | CountResult (qr_kind: string) (qr_meta: nat) (qr_count: nat)

section \<open>Shortcuts\<close>

definition resolve_shortcut :: "string \<Rightarrow> string" where
  "resolve_shortcut field =
     (if CHR ''.'' \<in> set field then field
      else if field \<in> {''path'', ''body'', ''type''} then field
      else ''frontmatter.'' @ field)"

fun resolve_condition_shortcuts :: "condition \<Rightarrow> condition" where
  "resolve_condition_shortcuts (Condition op f v vs cs) =
     Condition op (resolve_shortcut f) v vs (map resolve_condition_shortcuts cs)"

section \<open>Fields\<close>

text \<open>A resolved field: a value, or the links of the record.\<close>

datatype field_value = FVal val | FLinks "link list"

text \<open>The verb \<open>%v\<close> of a slice of \<open>Link\<close> structs: their fields in order.\<close>

definition fmt_link :: "link \<Rightarrow> string" where
  "fmt_link l =
     ''{'' @ join_with '' '' [lk_target l, lk_type l, itoa (int (lk_line l)), lk_source l, lk_style l,
        lk_anchor l, lk_resolution l] @ ''}''"

fun fmt_field :: "field_value \<Rightarrow> string" where
  "fmt_field (FVal v) = fmt_v v"
| "fmt_field (FLinks ls) = ''['' @ join_with '' '' (map fmt_link ls) @ '']''"

definition resolve_field :: "doc \<Rightarrow> string \<Rightarrow> field_value option" where
  "resolve_field r field =
     (if field = ''path'' then Some (FVal (VStr (rc_path r)))
      else if field = ''body'' then Some (FVal (VStr (rc_body r)))
      else if field = ''type'' then Some (FVal (VStr (rc_type r)))
      else if field = ''links'' then (if rc_links r = [] then None else Some (FLinks (rc_links r)))
      else case map_of (rc_frontmatter r) field of
          Some v \<Rightarrow> Some (FVal v)
        | None \<Rightarrow>
            if has_prefix field ''frontmatter.'' then
              map_option FVal (map_of (rc_frontmatter r) (drop (length ''frontmatter.'') field))
            else None)"

fun to_string_slice :: "field_value \<Rightarrow> string list option" where
  "to_string_slice (FVal (VList xs)) = Some (map fmt_v xs)"
| "to_string_slice _ = None"

section \<open>Matching\<close>

definition match_eq :: "doc \<Rightarrow> string \<Rightarrow> string \<Rightarrow> bool" where
  "match_eq r field value =
     (case resolve_field r field of
        None \<Rightarrow> False
      | Some v \<Rightarrow>
          (case to_string_slice v of Some arr \<Rightarrow> list_ex (\<lambda>x. x = value) arr
           | None \<Rightarrow> fmt_field v = value))"

definition match_ne :: "doc \<Rightarrow> string \<Rightarrow> string \<Rightarrow> bool" where
  "match_ne r field value =
     (case resolve_field r field of None \<Rightarrow> True | Some v \<Rightarrow> fmt_field v \<noteq> value)"

definition match_in :: "doc \<Rightarrow> string \<Rightarrow> string list \<Rightarrow> bool" where
  "match_in r field values =
     (case resolve_field r field of
        None \<Rightarrow> False
      | Some v \<Rightarrow>
          (case to_string_slice v of
             Some arr \<Rightarrow> list_ex (\<lambda>x. list_ex (\<lambda>w. x = w) values) arr
           | None \<Rightarrow> list_ex (\<lambda>w. fmt_field v = w) values))"

definition match_contains :: "doc \<Rightarrow> string \<Rightarrow> string \<Rightarrow> bool" where
  "match_contains r field substr =
     (if field = ''body'' then str_contains (rc_body r) substr
      else case resolve_field r field of
          None \<Rightarrow> False
        | Some v \<Rightarrow>
            (case to_string_slice v of
               Some arr \<Rightarrow> list_ex (\<lambda>x. str_contains x substr) arr
             | None \<Rightarrow> str_contains (fmt_field v) substr))"

definition match_exists :: "doc \<Rightarrow> string \<Rightarrow> bool" where
  "match_exists r field = (resolve_field r field \<noteq> None)"

fun cond_matches :: "doc \<Rightarrow> condition \<Rightarrow> bool" where
  "cond_matches r (Condition op f v vs cs) =
     (if op = ''eq'' then match_eq r f v
      else if op = ''ne'' then match_ne r f v
      else if op = ''in'' then match_in r f vs
      else if op = ''contains'' then match_contains r f v
      else if op = ''exists'' then match_exists r f
      else if op = ''and'' then list_all (\<lambda>c. cond_matches r c) cs
      else False)"

section \<open>Executing a query\<close>

definition limit_rows :: "int \<Rightarrow> doc list \<Rightarrow> doc list" where
  "limit_rows limit rows = (if limit > 0 \<and> int (length rows) > limit then take (nat limit) rows else rows)"

text \<open>\<open>Execute\<close> resolves the shortcuts in the query it is given, which the caller then holds.\<close>

definition execute :: "doc list \<Rightarrow> query \<Rightarrow> query_result \<times> query" where
  "execute records q =
     (let w = map_option resolve_condition_shortcuts (qy_where q);
          filtered = filter (\<lambda>r. case w of None \<Rightarrow> True | Some c \<Rightarrow> cond_matches r c) records;
          rows = limit_rows (qy_limit q) filtered
      in (if qy_count q then CountResult ''rootline/count'' 0 (length filtered)
          else RowsResult ''rootline/query'' (length rows) rows,
          q\<lparr> qy_where := w \<rparr>))"

section \<open>Expressions\<close>

definition add_alias :: "vmap \<Rightarrow> string \<times> string \<Rightarrow> vmap" where
  "add_alias env da =
     (case da of (domain, field) \<Rightarrow>
        if has_key env domain then env
        else case map_of env field of None \<Rightarrow> env | Some v \<Rightarrow> AList.update domain v env)"

definition base_env :: "doc \<Rightarrow> vmap" where
  "base_env r =
     (let env = [(''path'', VStr (rc_path r)), (''body'', VStr (rc_body r)), (''type'', VStr (rc_type r))];
          env = map_overlay env (rc_frontmatter r);
          env = map_overlay env (rc_derived r)
      in case rc_sections r of
           None \<Rightarrow> env
         | Some ss \<Rightarrow> AList.update ''sections'' (VMap (map_vals (\<lambda>_. VStr) ss)) env)"

definition build_env :: "doc \<Rightarrow> (string \<times> string) list \<Rightarrow> vmap" where
  "build_env r aliases = foldl add_alias (base_env r) aliases"

definition match_record ::
  "('p \<Rightarrow> vmap \<Rightarrow> string + val) \<Rightarrow> 'p \<Rightarrow> doc \<Rightarrow> (string \<times> string) list \<Rightarrow> go_error + bool" where
  "match_record run program r aliases =
     (case run program (build_env r aliases) of
        Inl m \<Rightarrow>
          if str_contains m ''undefined'' then Inr False
          else Inl (Wrapped ''evaluating where expression'' (Err m))
      | Inr (VBool b) \<Rightarrow> Inr b
      | Inr v \<Rightarrow> Inl (Err (''where expression must return bool, got '' @ type_verb v)))"

fun filter_matching :: "(doc \<Rightarrow> go_error + bool) \<Rightarrow> doc list \<Rightarrow> go_error + doc list" where
  "filter_matching p [] = Inr []"
| "filter_matching p (r # rs) =
     (case p r of
        Inl e \<Rightarrow> Inl e
      | Inr b \<Rightarrow> (case filter_matching p rs of
                   Inl e \<Rightarrow> Inl e
                 | Inr xs \<Rightarrow> Inr (if b then r # xs else xs)))"

definition execute_expr ::
  "(string \<Rightarrow> go_error + 'p) \<Rightarrow> ('p \<Rightarrow> vmap \<Rightarrow> string + val) \<Rightarrow> doc list \<Rightarrow> string \<Rightarrow> query \<Rightarrow>
     go_error + query_result" where
  "execute_expr compile run records expr q =
     (case (if expr = [] then Inr None else map_sum id Some (compile expr)) of
        Inl e \<Rightarrow> Inl e
      | Inr program \<Rightarrow>
          (case filter_matching (\<lambda>r. case program of None \<Rightarrow> Inr True
                                     | Some p \<Rightarrow> match_record run p r []) records of
             Inl e \<Rightarrow> Inl e
           | Inr filtered \<Rightarrow>
               if qy_count q then Inr (CountResult ''rootline/count'' (length filtered) (length filtered))
               else let rows = limit_rows (qy_limit q) filtered
                    in Inr (RowsResult ''rootline/query'' (length rows) rows)))"

section \<open>Traversal\<close>

record traversal_options =
  tv_has_inbound :: "string option"
  tv_has_outbound :: "string option"
  tv_inbound_type :: string
  tv_outbound_type :: string

definition traversal_active :: "traversal_options \<Rightarrow> bool" where
  "traversal_active o' = (tv_has_inbound o' \<noteq> None \<or> tv_has_outbound o' \<noteq> None)"

definition compile_sub_where ::
  "(string \<Rightarrow> go_error + 'p) \<Rightarrow> string option \<Rightarrow> go_error + 'p option" where
  "compile_sub_where compile w =
     (case w of None \<Rightarrow> Inr None
      | Some e \<Rightarrow> if e = [] then Inr None else map_sum id Some (compile e))"

fun matches_any_edge ::
  "('p \<Rightarrow> vmap \<Rightarrow> string + val) \<Rightarrow> string \<Rightarrow> 'p option \<Rightarrow> graph \<Rightarrow> (edge \<Rightarrow> string) \<Rightarrow> edge list \<Rightarrow>
     go_error + bool" where
  "matches_any_edge run ty program g end_of [] = Inr False"
| "matches_any_edge run ty program g end_of (e # es) =
     (if ty \<noteq> [] \<and> ed_type e \<noteq> ty then matches_any_edge run ty program g end_of es
      else case map_of (gr_nodes g) (end_of e) of
          None \<Rightarrow> matches_any_edge run ty program g end_of es
        | Some linked \<Rightarrow>
            (case program of
               None \<Rightarrow> Inr True
             | Some p \<Rightarrow>
                 (case match_record run p linked [] of
                    Inl err \<Rightarrow> Inl err
                  | Inr b \<Rightarrow> if b then Inr True
                             else matches_any_edge run ty program g end_of es)))"

text \<open>The inbound index: the edges of every source, under their target.\<close>

definition inbound_edges :: "graph \<Rightarrow> string \<Rightarrow> edge list" where
  "inbound_edges g p =
     filter (\<lambda>e. ed_target e = p) (concat (map (edges_of g) (remdups (map fst (gr_edges g)))))"

definition candidate_matches ::
  "('p \<Rightarrow> vmap \<Rightarrow> string + val) \<Rightarrow> graph \<Rightarrow> traversal_options \<Rightarrow> 'p option \<Rightarrow> 'p option \<Rightarrow> doc \<Rightarrow>
     go_error + bool" where
  "candidate_matches run g opts inp outp r =
     (case (if tv_has_inbound opts = None then Inr True
            else matches_any_edge run (tv_inbound_type opts) inp g ed_source (inbound_edges g (rc_path r))) of
        Inl e \<Rightarrow> Inl e
      | Inr False \<Rightarrow> Inr False
      | Inr True \<Rightarrow>
          if tv_has_outbound opts = None then Inr True
          else matches_any_edge run (tv_outbound_type opts) outp g ed_target (edges_of g (rc_path r)))"

definition filter_by_traversal ::
  "(string \<Rightarrow> go_error + 'p) \<Rightarrow> ('p \<Rightarrow> vmap \<Rightarrow> string + val) \<Rightarrow> doc list \<Rightarrow> graph \<Rightarrow>
     traversal_options \<Rightarrow> go_error + doc list" where
  "filter_by_traversal compile run candidates g opts =
     (case compile_sub_where compile (tv_has_inbound opts) of
        Inl e \<Rightarrow> Inl e
      | Inr inp \<Rightarrow>
          (case compile_sub_where compile (tv_has_outbound opts) of
             Inl e \<Rightarrow> Inl e
           | Inr outp \<Rightarrow> filter_matching (candidate_matches run g opts inp outp) candidates))"

section \<open>Lemmas\<close>

lemma resolve_shortcut_idem [simp]: "resolve_shortcut (resolve_shortcut f) = resolve_shortcut f"
  by (auto simp: resolve_shortcut_def)

lemma resolve_condition_idem [simp]:
  "resolve_condition_shortcuts (resolve_condition_shortcuts c) = resolve_condition_shortcuts c"
  by (induction c) (simp add: o_def cong: map_cong)

lemma shortcut_never_links: "resolve_shortcut f \<noteq> ''links''"
proof (cases "f = ''links''")
  case True
  then show ?thesis by (simp add: resolve_shortcut_def)
next
  case False
  have "hd (''frontmatter.'' @ f) \<noteq> hd ''links''" by simp
  with False show ?thesis by (metis resolve_shortcut_def)
qed

lemma str_contains_self [simp]: "str_contains s s"
  by (cases s) (simp_all add: str_contains_def)

lemma map_of_add_alias:
  "map_of (add_alias env (d, f)) k =
     (if k = d \<and> map_of env d = None then map_of env f else map_of env k)"
  by (auto simp: add_alias_def has_key_def update_conv' split: option.split)

lemma map_of_aliases:
  "distinct (map fst as) \<Longrightarrow> fst ` set as \<inter> snd ` set as = {} \<Longrightarrow>
     map_of (foldl add_alias env as) k =
       (case map_of env k of
          Some v \<Rightarrow> Some v
        | None \<Rightarrow> (case map_of as k of None \<Rightarrow> None | Some f \<Rightarrow> map_of env f))"
proof (induction as arbitrary: env)
  case (Cons a as)
  obtain d f where a: "a = (d, f)" by fastforce
  have dis: "fst ` set as \<inter> snd ` set as = {}" and d: "d \<notin> fst ` set as" "d \<notin> snd ` set as" "d \<noteq> f"
    using Cons.prems by (auto simp: a)
  have nf: "map_of as k = Some g \<Longrightarrow> g \<noteq> d" for k g using d(2) by (force dest: map_of_SomeD)
  have nd: "map_of as d = None" using d(1) by (simp add: map_of_eq_None_iff)
  show ?case
    using Cons.IH [OF _ dis, of "add_alias env a"] Cons.prems(1) nf nd d(3)
    by (auto simp: a map_of_add_alias split: option.split)
qed (simp split: option.split)

lemma filter_matching_total:
  "(\<And>r. r \<in> set rs \<Longrightarrow> p r = Inr (q r)) \<Longrightarrow> filter_matching p rs = Inr (filter q rs)"
  by (induction rs) auto

lemma filter_matching_iff:
  "(\<exists>e. filter_matching p rs = Inl e) \<longleftrightarrow> (\<exists>r \<in> set rs. \<exists>e. p r = Inl e)"
  by (induction rs) (auto split: sum.splits)

text \<open>A linked record satisfies a sub-expression.\<close>

definition sub_matches :: "('p \<Rightarrow> vmap \<Rightarrow> string + val) \<Rightarrow> 'p option \<Rightarrow> doc \<Rightarrow> bool" where
  "sub_matches run program d =
     (case program of None \<Rightarrow> True | Some p \<Rightarrow> match_record run p d [] = Inr True)"

lemma matches_any_edge_total:
  assumes "\<And>p d. d \<in> snd ` set (gr_nodes g) \<Longrightarrow> \<exists>b. match_record run p d [] = Inr b"
  shows "matches_any_edge run ty program g end_of es =
    Inr (\<exists>e \<in> set es. (ty = [] \<or> ed_type e = ty) \<and>
           (\<exists>d. map_of (gr_nodes g) (end_of e) = Some d \<and> sub_matches run program d))"
proof (induction es)
  case (Cons e es)
  show ?case
  proof (cases "map_of (gr_nodes g) (end_of e)")
    case None
    with Cons.IH show ?thesis by simp
  next
    case (Some d)
    then have "d \<in> snd ` set (gr_nodes g)" by (force dest: map_of_SomeD)
    with assms [of d] have "\<exists>b. match_record run p d [] = Inr b" for p by blast
    then obtain q where q: "\<And>p. match_record run p d [] = Inr (q p)" by metis
    with Cons.IH Some show ?thesis
      by (cases program) (auto simp: sub_matches_def)
  qed
qed simp

lemma set_inbound_edges:
  "set (inbound_edges g p) = {e. \<exists>src. e \<in> set (edges_of g src) \<and> ed_target e = p}"
  using edges_of_key [of _ g] by (fastforce simp: inbound_edges_def)

section \<open>Properties\<close>

text \<open>The operators of a condition fit together: \<open>in\<close> is the disjunction of \<open>eq\<close>, \<open>eq\<close> implies
  \<open>contains\<close> and \<open>exists\<close> (the order of truth values is implication), and \<open>ne\<close> is the negation of \<open>eq\<close> on every field whose value is not a list.\<close>

theorem operator_laws:
  "match_in r f vs = list_ex (match_eq r f) vs \<and>
     match_eq r f v \<le> match_contains r f v \<and> match_eq r f v \<le> match_exists r f \<and>
     (case resolve_field r f of
        Some (FVal (VList xs)) \<Rightarrow> match_eq r f v = (v \<in> set (map fmt_v xs))
      | _ \<Rightarrow> match_ne r f v = (\<not> match_eq r f v))"
proof -
  have "match_in r f vs = list_ex (match_eq r f) vs"
    by (auto simp: match_in_def match_eq_def list_ex_iff split: option.split)
  moreover have "match_contains r f v" if "match_eq r f v"
  proof (cases "f = ''body''")
    case True
    with that show ?thesis by (simp add: match_eq_def match_contains_def resolve_field_def)
  next
    case False
    with that show ?thesis
      by (auto simp: match_eq_def match_contains_def list_ex_iff intro: bexI [of _ v] split: option.splits)
  qed
  moreover have "match_exists r f" if "match_eq r f v"
    using that by (auto simp: match_eq_def match_exists_def split: option.splits)
  moreover have "case resolve_field r f of
        Some (FVal (VList xs)) \<Rightarrow> match_eq r f v = (v \<in> set (map fmt_v xs))
      | _ \<Rightarrow> match_ne r f v = (\<not> match_eq r f v)"
    by (auto simp: match_eq_def match_ne_def list_ex_iff split: option.split field_value.split val.split)
  ultimately show ?thesis by (simp add: le_bool_def)
qed

text \<open>On a list, \<open>eq\<close> and \<open>ne\<close> both hold.\<close>

lemma eq_and_ne_on_list:
  "let r = zero_doc\<lparr> rc_frontmatter := [(''tags'', VList [VStr ''a'', VStr ''b''])] \<rparr>
   in match_eq r ''frontmatter.tags'' ''a'' \<and> match_ne r ''frontmatter.tags'' ''a''"
  by code_simp

text \<open>Executing a query keeps the records in order and loses none: the rows are the first matching
  ones up to the limit, the count query counts all matching ones, and running the query again in the form
  the first run leaves it gives the same result.\<close>

theorem execute_filters_in_order:
  "let w = map_option resolve_condition_shortcuts (qy_where q);
       hits = filter (\<lambda>r. case w of None \<Rightarrow> True | Some c \<Rightarrow> cond_matches r c) records
   in fst (execute records (q\<lparr> qy_count := True \<rparr>)) = CountResult ''rootline/count'' 0 (length hits) \<and>
      (\<exists>rest. hits = qr_rows (fst (execute records (q\<lparr> qy_count := False \<rparr>))) @ rest \<and>
              (rest = [] \<or> qy_limit q > 0 \<and>
                int (length (qr_rows (fst (execute records (q\<lparr> qy_count := False \<rparr>))))) = qy_limit q)) \<and>
      execute records (snd (execute records q)) = execute records q"
proof -
  have lim: "\<exists>rest. hits = limit_rows n hits @ rest \<and>
      (rest = [] \<or> n > 0 \<and> int (length (limit_rows n hits)) = n)" for n hits
    by (auto simp: limit_rows_def intro: exI [of _ "drop (nat n) hits"])
  have "map_option (resolve_condition_shortcuts \<circ> resolve_condition_shortcuts) w =
      map_option resolve_condition_shortcuts w" for w by (cases w) simp_all
  then show ?thesis
    using lim by (simp add: execute_def Let_def option.map_comp)
qed

text \<open>An expression query is all or nothing: it gives an error exactly when the expression does not
  compile or evaluating some record fails, and otherwise its rows are the matching records in order, cut
  at the limit.\<close>

theorem execute_expr_all_or_error:
  "(\<exists>e. execute_expr compile run records expr q = Inl e) \<longleftrightarrow>
     expr \<noteq> [] \<and> (case compile expr of
        Inl e \<Rightarrow> True
      | Inr p \<Rightarrow> \<exists>r \<in> set records. \<exists>e. match_record run p r [] = Inl e)"
proof (cases "expr = []")
  case True
  have "filter_matching (\<lambda>r. Inr True) records = Inr records"
    using filter_matching_total [of records "\<lambda>r. Inr True" "\<lambda>_. True"] by simp
  with True show ?thesis by (simp add: execute_expr_def Let_def)
next
  case False
  show ?thesis
  proof (cases "compile expr")
    case (Inl e)
    with False show ?thesis by (simp add: execute_expr_def)
  next
    case (Inr p)
    have "(\<exists>e. execute_expr compile run records expr q = Inl e) \<longleftrightarrow>
        (\<exists>e. filter_matching (\<lambda>r. match_record run p r []) records = Inl e)"
      using False Inr by (auto simp: execute_expr_def Let_def split: sum.split)
    with False Inr show ?thesis by (simp add: filter_matching_iff)
  qed
qed

text \<open>The traversal filter keeps exactly the candidates with a link that qualifies: when the
  sub-expressions compile and evaluate on the nodes of the graph, a candidate stays just if some edge of
  the requested type leads to it from a node matching the inbound expression, and some edge of the
  requested type leads from it to a node matching the outbound one; broken links never qualify.\<close>

theorem traversal_keeps_linked:
  assumes "compile_sub_where compile (tv_has_inbound opts) = Inr inp"
    and "compile_sub_where compile (tv_has_outbound opts) = Inr outp"
    and total: "\<And>p d. d \<in> snd ` set (gr_nodes g) \<Longrightarrow> \<exists>b. match_record run p d [] = Inr b"
  shows "filter_by_traversal compile run candidates g opts = Inr (filter (\<lambda>r.
      (tv_has_inbound opts = None \<or>
         (\<exists>src. \<exists>e \<in> set (edges_of g src). ed_target e = rc_path r \<and>
            (tv_inbound_type opts = [] \<or> ed_type e = tv_inbound_type opts) \<and>
            (\<exists>d. map_of (gr_nodes g) (ed_source e) = Some d \<and> sub_matches run inp d))) \<and>
      (tv_has_outbound opts = None \<or>
         (\<exists>e \<in> set (edges_of g (rc_path r)).
            (tv_outbound_type opts = [] \<or> ed_type e = tv_outbound_type opts) \<and>
            (\<exists>d. map_of (gr_nodes g) (ed_target e) = Some d \<and> sub_matches run outp d)))) candidates)"
proof -
  note tot = matches_any_edge_total [of g run, OF total]
  show ?thesis
    unfolding filter_by_traversal_def assms(1,2) sum.case
    by (rule filter_matching_total)
      (auto simp: candidate_matches_def tot set_inbound_edges split: bool.split)
qed

definition sample_graph :: graph where
  "sample_graph =
     \<lparr> gr_nodes = [(''a.md'', zero_doc\<lparr> rc_path := ''a.md'' \<rparr>), (''b.md'', zero_doc\<lparr> rc_path := ''b.md'' \<rparr>)],
       gr_edges = [(''a.md'', [\<lparr> ed_source = ''a.md'', ed_target = ''b.md'', ed_type = [], ed_line = 3,
                                ed_resolution = [], ed_markdown = False \<rparr>])] \<rparr>"

theorem traversal_keeps_linked_witness:
  "filter_by_traversal Inr (\<lambda>p env. Inr (VBool (map_of env ''path'' = Some (VStr ''b.md''))))
     (map snd (gr_nodes sample_graph)) sample_graph
     \<lparr> tv_has_inbound = None, tv_has_outbound = Some ''is-b'', tv_inbound_type = [],
       tv_outbound_type = [] \<rparr> =
   Inr [zero_doc\<lparr> rc_path := ''a.md'' \<rparr>]"
  by (subst traversal_keeps_linked [where inp = None and outp = "Some ''is-b''"])
    (auto simp: compile_sub_where_def match_record_def sample_graph_def edges_of_def sub_matches_def
      build_env_def base_env_def zero_doc_def map_overlay_def)

text \<open>Domain aliases are a function of the alias map when no alias is named like a field that another
  alias reads: each alias that the environment does not define already gets the value of its field,
  whatever the order in which the map is read.\<close>

theorem aliases_add_fields:
  assumes "distinct (map fst aliases)" and "fst ` set aliases \<inter> snd ` set aliases = {}"
  shows "map_of (build_env r aliases) k =
    (case map_of (base_env r) k of
       Some v \<Rightarrow> Some v
     | None \<Rightarrow> (case map_of aliases k of None \<Rightarrow> None | Some f \<Rightarrow> map_of (base_env r) f))"
  unfolding build_env_def by (rule map_of_aliases [OF assms])

theorem aliases_add_fields_witness:
  "map_of (build_env (zero_doc\<lparr> rc_frontmatter := [(''estado'', VStr ''open'')] \<rparr>)
     [(''status'', ''estado'')]) ''status'' = Some (VStr ''open'')"
  by (subst aliases_add_fields) (simp_all add: base_env_def zero_doc_def)

text \<open>Without that condition the order of the map shows.\<close>

lemma alias_order_observable:
  "let r = zero_doc\<lparr> rc_frontmatter := [(''f'', VInt 1)] \<rparr>
   in map_of (build_env r [(''a'', ''b''), (''b'', ''f'')]) ''a'' = None \<and>
      map_of (build_env r [(''b'', ''f''), (''a'', ''b'')]) ''a'' = Some (VInt 1)"
  by code_simp

end
