(* ===== verification/Query_Sort.thy ===== *)
theory Query_Sort
  imports Body_Sections Schema_Model
begin

text \<open>
  Sorting of query results, \<open>internal/query/sort.go\<close>: the sort specification, its check against the known
  fields, and the comparison of records by enum position, number or text.

  \<open>sort.SliceStable\<close> is an insertion sort: whenever the comparison is a strict weak order the stable
  sorted permutation is unique, so this is what the library computes. Numbers are a type \<open>'f\<close> with the
  parameters \<open>parse\<close> (\<open>strconv.ParseFloat\<close>), \<open>of_int\<close> (the conversion of integers) and \<open>lt\<close> (the
  comparison of floating-point numbers, which is no order on not-a-number values). \<open>fuzzy.Match\<close> is the
  parameter \<open>fuzzy\<close>.
\<close>

section \<open>Sort keys\<close>

record sort_key =
  sk_field :: string
  sk_desc :: bool

definition key_error :: "string \<Rightarrow> string \<Rightarrow> go_error" where
  "key_error part m = Err (''invalid sort key '' @ go_quote part @ '': '' @ m)"

definition parse_sort_part :: "string \<Rightarrow> go_error + sort_key" where
  "parse_sort_part part =
     (let segments = split_on (CHR '':'') part in
      if length segments > 2 then Inl (key_error part ''too many colons'')
      else
        let field = trim_space (hd segments) in
        if field = [] then Inl (key_error part ''empty field name'')
        else if length segments = 2 then
          let dir = trim_space (to_lower (segments ! 1)) in
          if dir = ''asc'' then Inr \<lparr> sk_field = field, sk_desc = False \<rparr>
          else if dir = ''desc'' then Inr \<lparr> sk_field = field, sk_desc = True \<rparr>
          else Inl (Err (''invalid sort direction '' @ go_quote dir @ '' in key '' @ go_quote part @
                 '': must be asc or desc''))
        else Inr \<lparr> sk_field = field, sk_desc = False \<rparr>)"

definition parse_sort_keys :: "string \<Rightarrow> go_error + sort_key list" where
  "parse_sort_keys spec =
     (let spec = trim_space spec in
      if spec = [] then Inr []
      else try_map parse_sort_part
             (filter (\<lambda>p. p \<noteq> []) (map trim_space (split_on (CHR '','') spec))))"

definition validate_sort_key ::
  "(string \<Rightarrow> string list \<Rightarrow> string) \<Rightarrow> string list \<Rightarrow> sort_key \<Rightarrow> go_error + unit" where
  "validate_sort_key fuzzy known key =
     (if sk_field key = ''sections'' then
        Inl (Err (''unsupported sort field '' @ go_quote (sk_field key) @
          '': complex builtin fields cannot be sorted''))
      else if known = [] \<or> sk_field key \<in> set known then Inr ()
      else
        let suggestion = fuzzy (sk_field key) known;
            m = ''unknown sort field '' @ go_quote (sk_field key) @
                '': no record carries it and no .stem in scope declares it''
        in if suggestion \<noteq> [] then Inl (Err (m @ '' (did you mean '' @ go_quote suggestion @ ''?)''))
           else Inl (Err m))"

definition validate_sort_keys ::
  "(string \<Rightarrow> string list \<Rightarrow> string) \<Rightarrow> sort_key list \<Rightarrow> string list \<Rightarrow> go_error + unit" where
  "validate_sort_keys fuzzy keys known =
     (case try_map (validate_sort_key fuzzy known) keys of Inl e \<Rightarrow> Inl e | Inr _ \<Rightarrow> Inr ())"

section \<open>Comparing values\<close>

record 'f float_ops =
  fl_parse :: "string \<Rightarrow> 'f option"
  fl_of_int :: "int \<Rightarrow> 'f"
  fl_lt :: "'f \<Rightarrow> 'f \<Rightarrow> bool"

text \<open>A float value is carried by its printed text, which parses back to it.\<close>

fun to_float64 :: "'f float_ops \<Rightarrow> val \<Rightarrow> 'f option" where
  "to_float64 F (VFloat s) = fl_parse F s"
| "to_float64 F (VInt i) = Some (fl_of_int F i)"
| "to_float64 F (VStr s) = fl_parse F s"
| "to_float64 F _ = None"

definition sort_value :: "doc \<Rightarrow> string \<Rightarrow> val option" where
  "sort_value r field =
     (if field = ''path'' then Some (VStr (rc_path r))
      else if field = ''body'' then Some (VStr (rc_body r))
      else if field = ''type'' then Some (VStr (rc_type r))
      else case effective_field r field of
          None \<Rightarrow> None
        | Some v \<Rightarrow> if v = VNull then None else Some v)"

definition index_values :: "string list \<Rightarrow> (string \<times> nat) list" where
  "index_values vs = foldl (\<lambda>m i. AList.update (vs ! i) i m) [] [0..<length vs]"

definition add_enum_index :: "schema \<Rightarrow> (string \<times> (string \<times> nat) list) list \<Rightarrow> sort_key \<Rightarrow>
    (string \<times> (string \<times> nat) list) list" where
  "add_enum_index sch idx key =
     (case map_of sch (sk_field key) of
        None \<Rightarrow> idx
      | Some sf \<Rightarrow>
          if sf_type sf \<noteq> ''enum'' \<or> sf_values sf = [] then idx
          else AList.update (sk_field key) (index_values (sf_values sf)) idx)"

definition build_enum_indexes :: "sort_key list \<Rightarrow> schema \<Rightarrow> (string \<times> (string \<times> nat) list) list" where
  "build_enum_indexes keys sch = foldl (add_enum_index sch) [] keys"

definition three_way :: "('a \<Rightarrow> 'a \<Rightarrow> bool) \<Rightarrow> 'a \<Rightarrow> 'a \<Rightarrow> int" where
  "three_way lt a b = (if lt a b then -1 else if lt b a then 1 else 0)"

definition enum_position :: "(string \<times> nat) list \<Rightarrow> val \<Rightarrow> nat" where
  "enum_position idx v = (case map_of idx (fmt_v v) of Some i \<Rightarrow> i | None \<Rightarrow> length idx)"

definition compare_field :: "'f float_ops \<Rightarrow> val \<Rightarrow> val \<Rightarrow> (string \<times> nat) list option \<Rightarrow> int" where
  "compare_field F va vb enum_index =
     (case enum_index of
        Some idx \<Rightarrow> three_way (<) (enum_position idx va) (enum_position idx vb)
      | None \<Rightarrow>
          (case (to_float64 F va, to_float64 F vb) of
             (Some x, Some y) \<Rightarrow> three_way (fl_lt F) x y
           | _ \<Rightarrow> three_way (<) (fmt_v va) (fmt_v vb)))"

section \<open>Sorting records\<close>

fun record_less ::
  "'f float_ops \<Rightarrow> (string \<times> (string \<times> nat) list) list \<Rightarrow> sort_key list \<Rightarrow> doc \<Rightarrow> doc \<Rightarrow> bool" where
  "record_less F idx [] a b = False"
| "record_less F idx (key # keys) a b =
     (case (sort_value a (sk_field key), sort_value b (sk_field key)) of
        (None, None) \<Rightarrow> record_less F idx keys a b
      | (None, Some _) \<Rightarrow> False
      | (Some _, None) \<Rightarrow> True
      | (Some va, Some vb) \<Rightarrow>
          let c = compare_field F va vb (map_of idx (sk_field key))
          in if c = 0 then record_less F idx keys a b
             else if sk_desc key then c > 0 else c < 0)"

fun insert_stable :: "('a \<Rightarrow> 'a \<Rightarrow> bool) \<Rightarrow> 'a \<Rightarrow> 'a list \<Rightarrow> 'a list" where
  "insert_stable lt x [] = [x]"
| "insert_stable lt x (y # ys) = (if lt y x then y # insert_stable lt x ys else x # y # ys)"

definition stable_sort :: "('a \<Rightarrow> 'a \<Rightarrow> bool) \<Rightarrow> 'a list \<Rightarrow> 'a list" where
  "stable_sort lt xs = foldr (insert_stable lt) xs []"

definition sort_records :: "'f float_ops \<Rightarrow> sort_key list \<Rightarrow> schema \<Rightarrow> doc list \<Rightarrow> doc list" where
  "sort_records F keys sch records =
     (if keys = [] \<or> length records < 2 then records
      else stable_sort (record_less F (build_enum_indexes keys sch) keys) records)"

section \<open>Consistent comparisons\<close>

text \<open>A three-way comparison that is a total preorder on a set.\<close>

definition consistent :: "'a set \<Rightarrow> ('a \<Rightarrow> 'a \<Rightarrow> int) \<Rightarrow> bool" where
  "consistent S c =
     ((\<forall>a \<in> S. \<forall>b \<in> S. c a b = - c b a) \<and>
      (\<forall>a \<in> S. \<forall>b \<in> S. \<forall>d \<in> S. c a b \<le> 0 \<longrightarrow> c b d \<le> 0 \<longrightarrow> c a d \<le> 0))"

lemma consistentD:
  assumes "consistent S c" "a \<in> S" "b \<in> S"
  shows "c a b = - c b a" "d \<in> S \<Longrightarrow> c a b \<le> 0 \<Longrightarrow> c b d \<le> 0 \<Longrightarrow> c a d \<le> 0"
  using assms unfolding consistent_def by blast+

lemma consistentI:
  assumes "\<And>a b. a \<in> S \<Longrightarrow> b \<in> S \<Longrightarrow> c a b = - c b a"
    and "\<And>a b d. a \<in> S \<Longrightarrow> b \<in> S \<Longrightarrow> d \<in> S \<Longrightarrow> c a b \<le> 0 \<Longrightarrow> c b d \<le> 0 \<Longrightarrow> c a d \<le> 0"
  shows "consistent S c"
  unfolding consistent_def using assms by blast

definition then_compare :: "('a \<Rightarrow> 'a \<Rightarrow> int) \<Rightarrow> ('a \<Rightarrow> 'a \<Rightarrow> int) \<Rightarrow> 'a \<Rightarrow> 'a \<Rightarrow> int" where
  "then_compare c d a b = (if c a b \<noteq> 0 then c a b else d a b)"

lemma consistent_then:
  assumes c: "consistent S c" and d: "consistent S d"
  shows "consistent S (then_compare c d)"
  unfolding consistent_def
proof (intro conjI ballI impI)
  fix a b assume "a \<in> S" "b \<in> S"
  then show "then_compare c d a b = - then_compare c d b a"
    using consistentD(1) [OF c, of a b] consistentD(1) [OF d, of a b] by (auto simp: then_compare_def)
next
  fix a b e assume S: "a \<in> S" "b \<in> S" "e \<in> S"
    and ab: "then_compare c d a b \<le> 0" and be: "then_compare c d b e \<le> 0"
  have c1: "c a b \<le> 0" "c b e \<le> 0" using ab be by (auto simp: then_compare_def split: if_splits)
  then have ae: "c a e \<le> 0" using consistentD(2) [OF c] S by blast
  have "d a e \<le> 0" if "c a e = 0"
  proof -
    have "c e a \<le> 0" using that consistentD(1) [OF c S(1,3)] by simp
    then have "c e b \<le> 0" "c b a \<le> 0"
      using consistentD(2) [OF c S(3,1)] consistentD(2) [OF c S(2,3)] S c1 by blast+
    then have "c a b = 0" "c b e = 0"
      using consistentD(1) [OF c S(1,2)] consistentD(1) [OF c S(2,3)] c1 by simp_all
    with ab be have "d a b \<le> 0" "d b e \<le> 0" by (simp_all add: then_compare_def)
    then show ?thesis using consistentD(2) [OF d] S by blast
  qed
  with ae show "then_compare c d a e \<le> 0" by (auto simp: then_compare_def)
qed

subsection \<open>Stable sorting by a consistent comparison\<close>

lemma mset_insert_stable [simp]: "mset (insert_stable lt x ys) = add_mset x (mset ys)"
  by (induction ys) auto

lemma mset_stable_sort [simp]: "mset (stable_sort lt xs) = mset xs"
  by (induction xs) (simp_all add: stable_sort_def)

lemma set_insert_stable [simp]: "set (insert_stable lt x ys) = insert x (set ys)"
  by (induction ys) auto

lemma set_stable_sort [simp]: "set (stable_sort lt xs) = set xs"
  by (metis mset_stable_sort set_mset_mset)

lemma sorted_insert_stable:
  assumes c: "consistent S c" and S: "insert x (set ys) \<subseteq> S"
  shows "sorted_wrt (\<lambda>a b. \<not> c b a < 0) ys \<Longrightarrow>
    sorted_wrt (\<lambda>a b. \<not> c b a < 0) (insert_stable (\<lambda>a b. c a b < 0) x ys)"
  using S
proof (induction ys)
  case (Cons y ys)
  show ?case
  proof (cases "c y x < 0")
    case True
    with Cons consistentD(1) [OF c, of x y] show ?thesis by auto
  next
    case False
    have "\<not> c z x < 0" if "z \<in> set ys" for z
    proof -
      have zS: "z \<in> S" "y \<in> S" "x \<in> S" using that Cons.prems by auto
      have "c x y \<le> 0" "c y z \<le> 0"
        using False Cons.prems that consistentD(1) [OF c, of x y] consistentD(1) [OF c, of y z] zS by auto
      then have "c x z \<le> 0" using consistentD(2) [OF c] zS by blast
      then show ?thesis using consistentD(1) [OF c, of x z] zS by simp
    qed
    with False Cons.prems show ?thesis by simp
  qed
qed simp

lemma filter_insert_stable:
  assumes c: "consistent S c" and S: "insert r (insert x (set ys)) \<subseteq> S"
    and srt: "sorted_wrt (\<lambda>a b. \<not> c b a < 0) ys"
  shows "filter (\<lambda>z. c r z = 0) (insert_stable (\<lambda>a b. c a b < 0) x ys) =
    (if c r x = 0 then x # filter (\<lambda>z. c r z = 0) ys else filter (\<lambda>z. c r z = 0) ys)"
  using S srt
proof (induction ys)
  case (Cons y ys)
  have IH: "filter (\<lambda>z. c r z = 0) (insert_stable (\<lambda>a b. c a b < 0) x ys) =
      (if c r x = 0 then x # filter (\<lambda>z. c r z = 0) ys else filter (\<lambda>z. c r z = 0) ys)"
    by (rule Cons.IH) (use Cons.prems in auto)
  have "c r y \<noteq> 0" if yx: "c y x < 0" and rx: "c r x = 0"
  proof
    assume "c r y = 0"
    then have "c x r \<le> 0" "c r y \<le> 0"
      using rx consistentD(1) [OF c, of x r] Cons.prems by auto
    then have "c x y \<le> 0" using consistentD(2) [OF c, of x r y] Cons.prems by auto
    with yx consistentD(1) [OF c, of x y] Cons.prems show False by auto
  qed
  then have "c y x < 0 \<and> c r y = 0 \<and> c r x = 0 \<longleftrightarrow> False" by blast
  with IH show ?case by auto
qed simp

lemma sorted_stable_sort:
  assumes c: "consistent S c" and "set xs \<subseteq> S"
  shows "sorted_wrt (\<lambda>a b. \<not> c b a < 0) (stable_sort (\<lambda>a b. c a b < 0) xs)"
  using assms(2)
proof (induction xs)
  case (Cons x xs)
  have "sorted_wrt (\<lambda>a b. \<not> c b a < 0)
      (insert_stable (\<lambda>a b. c a b < 0) x (stable_sort (\<lambda>a b. c a b < 0) xs))"
    by (rule sorted_insert_stable [OF c]) (use Cons in auto)
  then show ?case by (simp add: stable_sort_def)
qed (simp add: stable_sort_def)

lemma stable_sort_keeps_ties:
  assumes c: "consistent S c" and "set xs \<subseteq> S" and r: "r \<in> S"
  shows "filter (\<lambda>z. c r z = 0) (stable_sort (\<lambda>a b. c a b < 0) xs) = filter (\<lambda>z. c r z = 0) xs"
  using assms(2)
proof (induction xs)
  case (Cons x xs)
  let ?ys = "stable_sort (\<lambda>a b. c a b < 0) xs"
  have "filter (\<lambda>z. c r z = 0) (insert_stable (\<lambda>a b. c a b < 0) x ?ys) =
      (if c r x = 0 then x # filter (\<lambda>z. c r z = 0) ?ys else filter (\<lambda>z. c r z = 0) ?ys)"
    by (rule filter_insert_stable [OF c _ sorted_stable_sort [OF c]]) (use Cons.prems r in auto)
  with Cons show ?case by (simp add: stable_sort_def)
qed (simp add: stable_sort_def)

section \<open>The comparison of records\<close>

definition key_compare ::
  "'f float_ops \<Rightarrow> (string \<times> (string \<times> nat) list) list \<Rightarrow> sort_key \<Rightarrow> doc \<Rightarrow> doc \<Rightarrow> int" where
  "key_compare F idx key a b =
     (case (sort_value a (sk_field key), sort_value b (sk_field key)) of
        (None, None) \<Rightarrow> 0
      | (None, Some _) \<Rightarrow> 1
      | (Some _, None) \<Rightarrow> -1
      | (Some va, Some vb) \<Rightarrow>
          (if sk_desc key then - compare_field F va vb (map_of idx (sk_field key))
           else compare_field F va vb (map_of idx (sk_field key))))"

definition keys_compare ::
  "'f float_ops \<Rightarrow> (string \<times> (string \<times> nat) list) list \<Rightarrow> sort_key list \<Rightarrow> doc \<Rightarrow> doc \<Rightarrow> int" where
  "keys_compare F idx keys = foldr (\<lambda>key. then_compare (key_compare F idx key)) keys (\<lambda>_ _. 0)"

lemma record_less_compare: "record_less F idx keys a b = (keys_compare F idx keys a b < 0)"
  by (induction keys)
    (auto simp: keys_compare_def then_compare_def key_compare_def Let_def split: option.split)

text \<open>
  The values of a field compare alike when they are positions of an enum, or all numbers that the
  comparison of floating-point numbers orders, or none of them a number.
\<close>

definition orders :: "('a \<Rightarrow> 'a \<Rightarrow> bool) \<Rightarrow> 'a set \<Rightarrow> bool" where
  "orders lt X =
     ((\<forall>x \<in> X. \<forall>y \<in> X. lt x y \<longrightarrow> \<not> lt y x) \<and>
      (\<forall>x \<in> X. \<forall>y \<in> X. \<forall>z \<in> X. lt x z \<longrightarrow> lt x y \<or> lt y z))"

definition uniform :: "'f float_ops \<Rightarrow> (string \<times> nat) list option \<Rightarrow> val set \<Rightarrow> bool" where
  "uniform F enum V =
     (enum \<noteq> None \<or>
      (\<forall>v \<in> V. to_float64 F v \<noteq> None) \<and> orders (fl_lt F) {x. \<exists>v \<in> V. to_float64 F v = Some x} \<or>
      (\<forall>v \<in> V. to_float64 F v = None))"

lemma ordersD:
  assumes "orders lt X" "x \<in> X" "y \<in> X"
  shows "lt x y \<Longrightarrow> \<not> lt y x" "z \<in> X \<Longrightarrow> lt x z \<Longrightarrow> lt x y \<or> lt y z"
  using assms unfolding orders_def by blast+

lemma three_way_le: "three_way lt a b \<le> 0 \<longleftrightarrow> lt a b \<or> \<not> lt b a"
  by (simp add: three_way_def)

lemma consistent_three_way:
  assumes o: "orders lt X"
  shows "consistent X (three_way lt)"
proof (rule consistentI)
  fix a b assume "a \<in> X" "b \<in> X"
  with ordersD(1) [OF o, of a b] show "three_way lt a b = - three_way lt b a"
    by (simp add: three_way_def)
next
  fix a b d assume S: "a \<in> X" "b \<in> X" "d \<in> X"
    and le: "three_way lt a b \<le> 0" "three_way lt b d \<le> 0"
  have "\<not> lt b a" using le(1) ordersD(1) [OF o S(1,2)] by (auto simp: three_way_le)
  moreover have "\<not> lt d b" using le(2) ordersD(1) [OF o S(2,3)] by (auto simp: three_way_le)
  ultimately have "\<not> lt d a" using ordersD(2) [OF o S(3,2,1)] by blast
  then show "three_way lt a d \<le> 0" by (simp add: three_way_le)
qed

lemma consistent_linorder: "consistent X (three_way ((<) :: 'a :: linorder \<Rightarrow> 'a \<Rightarrow> bool))"
  by (rule consistent_three_way) (auto simp: orders_def)

lemma consistent_vimage: "consistent X c \<Longrightarrow> f ` S \<subseteq> X \<Longrightarrow> consistent S (\<lambda>a b. c (f a) (f b))"
  unfolding consistent_def by blast

lemma consistent_cong:
  assumes c: "consistent S c" and eq: "\<And>a b. a \<in> S \<Longrightarrow> b \<in> S \<Longrightarrow> d a b = c a b"
  shows "consistent S d"
proof (rule consistentI)
  show "d a b = - d b a" if "a \<in> S" "b \<in> S" for a b
    using consistentD(1) [OF c that] eq that by metis
  show "d a e \<le> 0" if "a \<in> S" "b \<in> S" "e \<in> S" "d a b \<le> 0" "d b e \<le> 0" for a b e
    using consistentD(2) [OF c that(1-3)] eq that by metis
qed

lemma consistent_flip:
  assumes c: "consistent S c"
  shows "consistent S (\<lambda>a b. - c a b)"
proof (rule consistentI)
  show "- c a b = - (- c b a)" if "a \<in> S" "b \<in> S" for a b
    using consistentD(1) [OF c that] by simp
  show "- c a d \<le> 0" if S: "a \<in> S" "b \<in> S" "d \<in> S" and le: "- c a b \<le> 0" "- c b d \<le> 0" for a b d
  proof -
    have "c d b \<le> 0" "c b a \<le> 0"
      using le consistentD(1) [OF c S(1,2)] consistentD(1) [OF c S(2,3)] by simp_all
    from consistentD(2) [OF c S(3,2,1) this] consistentD(1) [OF c S(1,3)] show ?thesis by simp
  qed
qed

lemma compare_field_consistent:
  assumes "uniform F enum V"
  shows "consistent V (\<lambda>a b. compare_field F a b enum)"
proof (cases enum)
  case (Some idx)
  have "consistent V (\<lambda>a b. three_way (<) (enum_position idx a) (enum_position idx b))"
    by (rule consistent_vimage [OF consistent_linorder subset_UNIV])
  with Some show ?thesis by (simp add: compare_field_def)
next
  case None
  show ?thesis
  proof (cases "\<forall>v \<in> V. to_float64 F v = None")
    case True
    have "consistent V (\<lambda>a b. three_way (<) (fmt_v a) (fmt_v b))"
      by (rule consistent_vimage [OF consistent_linorder subset_UNIV])
    then show ?thesis by (rule consistent_cong) (use None True in \<open>simp add: compare_field_def\<close>)
  next
    case False
    with assms None have num: "\<forall>v \<in> V. to_float64 F v \<noteq> None"
      and ord: "orders (fl_lt F) {x. \<exists>v \<in> V. to_float64 F v = Some x}" by (auto simp: uniform_def)
    have "consistent V (\<lambda>a b. three_way (fl_lt F) (the (to_float64 F a)) (the (to_float64 F b)))"
      by (rule consistent_vimage [OF consistent_three_way [OF ord]]) (use num in auto)
    then show ?thesis by (rule consistent_cong) (use None num in \<open>fastforce simp: compare_field_def split: option.split\<close>)
  qed
qed

lemma key_compare_consistent:
  assumes "uniform F (map_of idx (sk_field key)) {v. \<exists>r \<in> S. sort_value r (sk_field key) = Some v}"
  shows "consistent S (key_compare F idx key)"
proof -
  let ?V = "{v. \<exists>r \<in> S. sort_value r (sk_field key) = Some v}"
  define c where "c = (\<lambda>a b. if sk_desc key then - compare_field F a b (map_of idx (sk_field key))
    else compare_field F a b (map_of idx (sk_field key)))"
  have c: "consistent ?V c"
    using compare_field_consistent [OF assms] consistent_flip [OF compare_field_consistent [OF assms]]
    by (cases "sk_desc key") (simp_all add: c_def)
  have k: "key_compare F idx key a b =
      (case (sort_value a (sk_field key), sort_value b (sk_field key)) of
        (None, None) \<Rightarrow> 0 | (None, Some _) \<Rightarrow> 1 | (Some _, None) \<Rightarrow> -1 | (Some va, Some vb) \<Rightarrow> c va vb)"
    for a b by (simp add: key_compare_def c_def split: option.split)
  show ?thesis
    unfolding consistent_def
  proof (intro conjI ballI impI)
    fix a b assume "a \<in> S" "b \<in> S"
    then show "key_compare F idx key a b = - key_compare F idx key b a"
      using consistentD(1) [OF c] by (auto simp: k split: option.split)
  next
    fix a b d assume S: "a \<in> S" "b \<in> S" "d \<in> S"
      and le: "key_compare F idx key a b \<le> 0" "key_compare F idx key b d \<le> 0"
    show "key_compare F idx key a d \<le> 0"
    proof (cases "sort_value a (sk_field key)"; cases "sort_value b (sk_field key)";
        cases "sort_value d (sk_field key)")
      fix x y z
      assume v: "sort_value a (sk_field key) = Some x" "sort_value b (sk_field key) = Some y"
        "sort_value d (sk_field key) = Some z"
      with S have V: "x \<in> ?V" "y \<in> ?V" "z \<in> ?V" by auto
      from le v have "c x y \<le> 0" "c y z \<le> 0" by (simp_all add: k)
      from consistentD(2) [OF c V this] v show ?thesis by (simp add: k)
    qed (use le in \<open>simp_all add: k\<close>)
  qed
qed

lemma keys_compare_consistent:
  "(\<And>key. key \<in> set keys \<Longrightarrow> consistent S (key_compare F idx key)) \<Longrightarrow> consistent S (keys_compare F idx keys)"
proof (induction keys)
  case Nil
  then show ?case by (simp add: keys_compare_def consistent_def)
next
  case (Cons key keys)
  then have "consistent S (then_compare (key_compare F idx key) (keys_compare F idx keys))"
    by (intro consistent_then) auto
  then show ?case by (simp add: keys_compare_def)
qed

section \<open>Writing a sort specification\<close>

definition format_sort_key :: "sort_key \<Rightarrow> string" where
  "format_sort_key k = sk_field k @ (if sk_desc k then '':desc'' else '':asc'')"

definition format_sort_keys :: "sort_key list \<Rightarrow> string" where
  "format_sort_keys keys = join_with '','' (map format_sort_key keys)"

definition plain_field :: "string \<Rightarrow> bool" where
  "plain_field f =
     (f \<noteq> [] \<and> \<not> is_space (hd f) \<and> \<not> is_space (last f) \<and> CHR '','' \<notin> set f \<and> CHR '':'' \<notin> set f)"

lemma parse_format_key: "plain_field (sk_field k) \<Longrightarrow> parse_sort_part (format_sort_key k) = Inr k"
proof -
  assume k: "plain_field (sk_field k)"
  obtain dir where d: "dir = (if sk_desc k then ''desc'' else ''asc'')" by blast
  have f: "format_sort_key k = sk_field k @ CHR '':'' # dir" by (simp add: format_sort_key_def d)
  have "CHR '':'' \<notin> set dir" by (simp add: d)
  then have seg: "split_on (CHR '':'') (format_sort_key k) = [sk_field k, dir]"
    using k unfolding f by (simp add: split_on_append split_on_no_sep plain_field_def)
  have t: "trim_space (sk_field k) = sk_field k" "sk_field k \<noteq> []"
    using k by (simp_all add: plain_field_def trim_space_id)
  have dt: "trim_space (to_lower ''desc'') = ''desc''" "trim_space (to_lower ''asc'') = ''asc''"
    by code_simp+
  show ?thesis
  proof (cases "sk_desc k")
    case True
    then show ?thesis by (simp add: parse_sort_part_def seg t d dt)
  next
    case False
    then show ?thesis by (simp add: parse_sort_part_def seg t d dt)
  qed
qed

lemma format_key_shape:
  assumes "plain_field (sk_field k)"
  shows "format_sort_key k \<noteq> []" "\<not> is_space (hd (format_sort_key k))"
    "\<not> is_space (last (format_sort_key k))" "CHR '','' \<notin> set (format_sort_key k)"
  using assms by (auto simp: format_sort_key_def plain_field_def is_space_def)

lemma join_with_ends:
  assumes "keys \<noteq> []" "\<And>s. s \<in> set keys \<Longrightarrow> s \<noteq> [] \<and> \<not> is_space (hd s) \<and> \<not> is_space (last s)"
  shows "join_with sep keys \<noteq> [] \<and> \<not> is_space (hd (join_with sep keys)) \<and>
    \<not> is_space (last (join_with sep keys))"
  using assms by (induction sep keys rule: join_with.induct) (auto simp: hd_append)

lemma try_map_id: "(\<And>x. x \<in> set xs \<Longrightarrow> f (g x) = Inr x) \<Longrightarrow> try_map f (map g xs) = Inr xs"
  by (induction xs) auto

section \<open>Properties\<close>

text \<open>C27: Sorting gives the stable order of the keys: when the values of each key compare alike (enum
  positions, or numbers, or texts that are not numbers), the result is a permutation of the records in
  which no record precedes a smaller one, records that compare equal keep their order, and the records
  without a value for the first key come last, whatever its direction.\<close>

theorem sort_is_stable_order:
  assumes "list_all (\<lambda>key. uniform F (map_of (build_enum_indexes keys sch) (sk_field key))
             {v. \<exists>r \<in> set records. sort_value r (sk_field key) = Some v}) keys"
  shows "let less_than = record_less F (build_enum_indexes keys sch) keys;
             out = sort_records F keys sch records
    in mset out = mset records \<and> sorted_wrt (\<lambda>a b. \<not> less_than b a) out \<and>
       (\<forall>r \<in> set records. filter (\<lambda>z. \<not> less_than r z \<and> \<not> less_than z r) out =
                          filter (\<lambda>z. \<not> less_than r z \<and> \<not> less_than z r) records) \<and>
       (keys = [] \<or> sorted_wrt (\<lambda>a b. sort_value a (sk_field (hd keys)) = None \<longrightarrow>
                                     sort_value b (sk_field (hd keys)) = None) out)"
proof -
  define idx where "idx = build_enum_indexes keys sch"
  define c where "c = keys_compare F idx keys"
  have less: "record_less F idx keys = (\<lambda>a b. c a b < 0)"
    by (simp add: fun_eq_iff record_less_compare c_def)
  have con: "consistent (set records) c"
    unfolding c_def
    by (rule keys_compare_consistent, rule key_compare_consistent)
      (use assms in \<open>auto simp: list_all_iff idx_def\<close>)
  have out: "sort_records F keys sch records =
      (if keys = [] \<or> length records < 2 then records else stable_sort (\<lambda>a b. c a b < 0) records)"
    by (simp add: sort_records_def less flip: idx_def)
  have srt: "sorted_wrt (\<lambda>a b. \<not> c b a < 0) (sort_records F keys sch records)"
  proof (cases "keys = [] \<or> length records < 2")
    case True
    then show ?thesis
    proof
      assume "keys = []"
      then have "c a b = 0" for a b by (simp add: c_def keys_compare_def)
      then show ?thesis by (simp add: sorted_wrt_true)
    next
      assume "length records < 2"
      then show ?thesis unfolding out by (cases records) (auto simp: Suc_le_eq)
    qed
  next
    case False
    then show ?thesis unfolding out by (simp add: sorted_stable_sort [OF con subset_refl])
  qed
  have ties: "filter (\<lambda>z. \<not> c r z < 0 \<and> \<not> c z r < 0) (sort_records F keys sch records) =
      filter (\<lambda>z. \<not> c r z < 0 \<and> \<not> c z r < 0) records" if r: "r \<in> set records" for r
  proof -
    have eq: "(\<not> c r z < 0 \<and> \<not> c z r < 0) = (c r z = 0)" if "z \<in> set records" for z
      using consistentD(1) [OF con r that] by auto
    have "filter (\<lambda>z. c r z = 0) (sort_records F keys sch records) = filter (\<lambda>z. c r z = 0) records"
      unfolding out using stable_sort_keeps_ties [OF con subset_refl r] by simp
    moreover have "filter (\<lambda>z. \<not> c r z < 0 \<and> \<not> c z r < 0) xs = filter (\<lambda>z. c r z = 0) xs"
      if "set xs = set records" for xs
      by (rule filter_cong [OF refl]) (simp add: eq that)
    moreover have "set (sort_records F keys sch records) = set records" by (simp add: out)
    ultimately show ?thesis by simp
  qed
  have absent: "sort_value a (sk_field (hd keys)) = None \<longrightarrow> sort_value b (sk_field (hd keys)) = None"
    if "\<not> c b a < 0" "keys \<noteq> []" for a b
  proof (cases keys)
    case (Cons k ks)
    have "record_less F idx keys b a" if "sort_value a (sk_field k) = None" "sort_value b (sk_field k) = Some v"
      for v using that by (simp add: Cons)
    moreover have "\<not> record_less F idx keys b a" using that(1) by (simp add: less)
    ultimately show ?thesis by (auto simp: Cons split: option.splits)
  qed (use that in simp)
  have "mset (sort_records F keys sch records) = mset records" by (simp add: out)
  moreover have "keys = [] \<or> sorted_wrt (\<lambda>a b. sort_value a (sk_field (hd keys)) = None \<longrightarrow>
      sort_value b (sk_field (hd keys)) = None) (sort_records F keys sch records)"
  proof (cases "keys = []")
    case False
    then show ?thesis by (intro disjI2 sorted_wrt_mono_rel [OF _ srt] absent)
  qed simp
  ultimately show ?thesis using srt ties by (simp add: less Let_def flip: idx_def)
qed

text \<open>Numbers as decimal digits, for the examples.\<close>

definition digits_ops :: "int float_ops" where
  "digits_ops = \<lparr> fl_parse = (\<lambda>s. if s \<noteq> [] \<and> list_all is_digit s then Some (int (nat_of_digits s 0)) else None),
     fl_of_int = (\<lambda>i. i), fl_lt = (<) \<rparr>"

theorem sort_is_stable_order_witness:
  "map rc_path (sort_records digits_ops [\<lparr> sk_field = ''prio'', sk_desc = True \<rparr>] []
     [zero_doc\<lparr> rc_path := ''a'', rc_frontmatter := [(''prio'', VInt 9)] \<rparr>,
      zero_doc\<lparr> rc_path := ''b'' \<rparr>,
      zero_doc\<lparr> rc_path := ''c'', rc_frontmatter := [(''prio'', VStr ''10'')] \<rparr>]) = [''c'', ''a'', ''b''] \<and>
   mset (sort_records digits_ops [\<lparr> sk_field = ''prio'', sk_desc = True \<rparr>] []
     [zero_doc\<lparr> rc_frontmatter := [(''prio'', VInt 9)] \<rparr>]) = {#zero_doc\<lparr> rc_frontmatter := [(''prio'', VInt 9)] \<rparr>#}"
proof -
  let ?r = "zero_doc\<lparr> rc_frontmatter := [(''prio'', VInt 9)] \<rparr>"
  have "uniform digits_ops (map_of (build_enum_indexes [\<lparr> sk_field = ''prio'', sk_desc = True \<rparr>] []) ''prio'')
      {v. \<exists>r \<in> set [?r]. sort_value r ''prio'' = Some v}"
    by (auto simp: uniform_def digits_ops_def sort_value_def effective_field_def orders_def zero_doc_def)
  then have "mset (sort_records digits_ops [\<lparr> sk_field = ''prio'', sk_desc = True \<rparr>] [] [?r]) = {#?r#}"
    using sort_is_stable_order [of digits_ops "[\<lparr> sk_field = ''prio'', sk_desc = True \<rparr>]" "[]" "[?r]"]
    by (simp add: Let_def)
  then show ?thesis by (rule conjI [rotated]) code_simp
qed

text \<open>With numbers and texts mixed the comparison of two records is not transitive.\<close>

lemma comparison_not_transitive:
  "compare_field digits_ops (VStr ''10'') (VStr ''1a'') None < 0 \<and>
   compare_field digits_ops (VStr ''1a'') (VStr ''9'') None < 0 \<and>
   compare_field digits_ops (VStr ''9'') (VStr ''10'') None < 0"
  by code_simp

text \<open>A sort specification is read back as written: keys with plain field names, written with their
  directions and joined by commas, parse to themselves.\<close>

theorem sort_spec_roundtrip:
  assumes "list_all (\<lambda>k. plain_field (sk_field k)) keys"
  shows "parse_sort_keys (format_sort_keys keys) = Inr keys"
proof (cases "keys = []")
  case True
  then show ?thesis by (simp add: parse_sort_keys_def format_sort_keys_def trim_space_def)
next
  case False
  let ?parts = "map format_sort_key keys"
  have shape: "s \<noteq> [] \<and> \<not> is_space (hd s) \<and> \<not> is_space (last s) \<and> CHR '','' \<notin> set s"
    if "s \<in> set ?parts" for s
    using that assms format_key_shape by (auto simp: list_all_iff)
  have j: "join_with '','' ?parts \<noteq> [] \<and> \<not> is_space (hd (join_with '','' ?parts)) \<and>
      \<not> is_space (last (join_with '','' ?parts))"
    by (rule join_with_ends) (use False shape in auto)
  have "split_on (CHR '','') (join_with '','' ?parts) = ?parts"
    by (rule split_join) (use False shape in auto)
  moreover have "map trim_space ?parts = ?parts"
    by (rule map_idI) (use shape in \<open>auto intro: trim_space_id\<close>)
  moreover have "filter (\<lambda>p. p \<noteq> []) ?parts = ?parts"
    by (rule filter_True) (use shape in auto)
  moreover have "try_map parse_sort_part ?parts = Inr keys"
    by (rule try_map_id) (use assms parse_format_key in \<open>auto simp: list_all_iff\<close>)
  ultimately show ?thesis
    using j by (simp add: parse_sort_keys_def format_sort_keys_def trim_space_id Let_def del: map_map)
qed

theorem sort_spec_roundtrip_witness:
  "parse_sort_keys (format_sort_keys [\<lparr> sk_field = ''estado'', sk_desc = True \<rparr>]) =
     Inr [\<lparr> sk_field = ''estado'', sk_desc = True \<rparr>]"
  by (rule sort_spec_roundtrip) (simp add: plain_field_def is_space_def)

end
