(* ===== verification/Component_Paths.thy ===== *)
theory Component_Paths
  imports Go_Paths
begin

text \<open>
  Absolute paths as lists of component names: what joining, going to the parent and the test for a
  directory prefix do to them. The walks over a file tree build such paths.
\<close>

definition plain_name :: "string \<Rightarrow> bool" where
  "plain_name n = (n \<noteq> [] \<and> slash \<notin> set n \<and> n \<noteq> ''.'' \<and> n \<noteq> ''..'')"

definition abs_path :: "string list \<Rightarrow> string" where
  "abs_path cs = slash # join_with ''/'' cs"

lemma plain_comps_names: "list_all plain_name cs \<Longrightarrow> plain_comps cs"
  by (auto simp: list_all_iff plain_comps_def plain_name_def)

lemma clean_names: "list_all plain_name cs \<Longrightarrow> clean_comps r cs = cs"
  unfolding clean_comps_def
  by (subst foldl_clean_step_id) (auto simp: list_all_iff plain_name_def)

lemma path_comps_abs_path: "list_all plain_name cs \<Longrightarrow> path_comps (abs_path cs) = cs"
  by (simp add: abs_path_def path_comps_join plain_comps_names)

lemma is_abs_abs_path [simp]: "is_abs (abs_path cs)"
  by (simp add: abs_path_def is_abs_def)

lemma path_clean_comps: "is_abs p \<Longrightarrow> list_all plain_name (path_comps p) \<Longrightarrow>
    path_clean p = abs_path (path_comps p)"
  by (simp add: path_clean_def Let_def clean_names abs_path_def)

lemma path_clean_abs_path: "list_all plain_name cs \<Longrightarrow> path_clean (abs_path cs) = abs_path cs"
  using path_clean_comps [of "abs_path cs"] by (simp add: path_comps_abs_path)

lemma path_join_abs_path:
  assumes "list_all plain_name cs" "plain_name n"
  shows "path_join (abs_path cs) n = abs_path (cs @ [n])"
proof -
  have n: "path_comps n = [n]"
    using assms(2) by (simp add: path_comps_def plain_name_def split_on_no_sep)
  have "path_comps (abs_path cs @ slash # n) = cs @ [n]"
    by (simp only: path_comps_append path_comps_abs_path [OF assms(1)] n)
  moreover have "is_abs (abs_path cs @ slash # n)" by (simp add: abs_path_def is_abs_def)
  ultimately have "path_clean (abs_path cs @ slash # n) = abs_path (cs @ [n])"
    using path_clean_comps [of "abs_path cs @ slash # n"] assms by simp
  then show ?thesis by (simp add: path_join_def abs_path_def)
qed

lemma join_with_snoc: "cs \<noteq> [] \<Longrightarrow> join_with sep (cs @ [n]) = join_with sep cs @ sep @ n"
  by (induction sep cs rule: join_with.induct) auto

lemma dir_part_slash: "slash \<notin> set n \<Longrightarrow> dir_part (d @ slash # n) = d @ [slash]"
  unfolding dir_part_def rev_append rev.simps append_assoc
  by (subst dropWhile_append2) auto

lemma file_part_slash: "slash \<notin> set n \<Longrightarrow> file_part (d @ slash # n) = n"
  unfolding file_part_def rev_append rev.simps append_assoc
  by (subst takeWhile_append2) auto

lemma abs_path_snoc_eq: "\<exists>d. abs_path (cs @ [n]) = d @ slash # n \<and> path_comps (d @ [slash]) = path_comps (abs_path cs)
    \<and> is_abs (d @ [slash])"
proof (cases "cs = []")
  case True
  then show ?thesis by (intro exI [of _ "[]"]) (simp add: abs_path_def is_abs_def)
next
  case False
  then show ?thesis
    using path_comps_append [of "abs_path cs" "[]"]
    by (intro exI [of _ "abs_path cs"]) (simp add: abs_path_def join_with_snoc is_abs_def path_comps_def)
qed

lemma path_dir_abs_path:
  assumes "list_all plain_name cs" "plain_name n"
  shows "path_dir (abs_path (cs @ [n])) = abs_path cs"
proof -
  obtain d where d: "abs_path (cs @ [n]) = d @ slash # n" "path_comps (d @ [slash]) = path_comps (abs_path cs)"
    "is_abs (d @ [slash])" using abs_path_snoc_eq by blast
  have "slash \<notin> set n" using assms(2) by (simp add: plain_name_def)
  from dir_part_slash [OF this] show ?thesis
    using path_clean_comps [of "d @ [slash]"] d assms(1) by (simp add: path_dir_def path_comps_abs_path)
qed

lemma path_dir_root [simp]: "path_dir (abs_path []) = abs_path []"
  by (simp add: path_dir_def dir_part_def path_clean_def is_abs_def path_comps_def clean_comps_def
      abs_path_def)

lemma abs_path_inj:
  "list_all plain_name cs \<Longrightarrow> list_all plain_name ds \<Longrightarrow> abs_path cs = abs_path ds \<longleftrightarrow> cs = ds"
  by (metis path_comps_abs_path)

text \<open>The test for a directory prefix: the separator keeps \<open>/sub\<close> from containing \<open>/sub-extra\<close>.\<close>

lemma abs_path_append:
  assumes "ds \<noteq> []" "r \<noteq> []"
  shows "abs_path (ds @ r) = abs_path ds @ slash # join_with ''/'' r"
proof -
  have "join_with ''/'' (ds @ r) = join_with ''/'' ds @ slash # join_with ''/'' r"
    using assms
  proof (induction ds)
    case (Cons d ds)
    then show ?case by (cases ds; cases r) auto
  qed simp
  then show ?thesis by (simp add: abs_path_def)
qed

lemma prefix_abs_path:
  assumes "list_all plain_name ps" "list_all plain_name ds"
  shows "has_prefix (abs_path ps) (abs_path ds @ ''/'') \<longleftrightarrow> ds \<noteq> [] \<and> (\<exists>r. r \<noteq> [] \<and> ps = ds @ r)"
proof
  assume "has_prefix (abs_path ps) (abs_path ds @ ''/'')"
  then obtain r where r: "abs_path ps = abs_path ds @ slash # r"
    by (auto simp: has_prefix_iff)
  have "path_comps (abs_path ps) = path_comps (abs_path ds) @ path_comps r"
    unfolding r by (rule path_comps_append)
  then have ps: "ps = ds @ path_comps r" using assms by (simp add: path_comps_abs_path)
  have "ds \<noteq> []"
  proof
    assume ds: "ds = []"
    with r have "join_with ''/'' ps = slash # r" by (simp add: abs_path_def)
    with join_with_head [OF plain_comps_names [OF assms(1)], of "''/''"] show False by (cases "ps = []") auto
  qed
  moreover have "path_comps r \<noteq> []"
  proof
    assume "path_comps r = []"
    with ps r show False by simp
  qed
  ultimately show "ds \<noteq> [] \<and> (\<exists>r. r \<noteq> [] \<and> ps = ds @ r)" using ps by blast
next
  assume "ds \<noteq> [] \<and> (\<exists>r. r \<noteq> [] \<and> ps = ds @ r)"
  then show "has_prefix (abs_path ps) (abs_path ds @ ''/'')"
    by (auto simp: abs_path_append has_prefix_iff)
qed

end
