(* ===== verification/File_Scan.thy ===== *)
theory File_Scan
  imports Discovery Doc_Extraction Component_Paths
begin

text \<open>
  File discovery and scanning, \<open>internal/index/index.go\<close> and \<open>scope.go\<close>: the walk over a tree with its
  ignore files and scope resolution, the worker pool that extracts the records, and the ignore check of
  a command that is handed one file.

  The tree \<open>filepath.WalkDir\<close> visits is a parameter, as are the extractors; the context of a scan is not
  cancelled.
\<close>

section \<open>Ignore files\<close>

text \<open>\<open>parseStemignore\<close> is the same function as in the discovery of schemas.\<close>

definition index_entry_ignores :: "string \<Rightarrow> ignore_scope \<Rightarrow> bool" where
  "index_entry_ignores file entry =
     (case entry of (dir, patterns) \<Rightarrow>
        (file = dir \<or> has_prefix file (dir @ ''/'')) \<and>
        list_ex (\<lambda>pat. glob_matches pat (path_base file) \<or>
                       glob_matches pat (case path_rel dir file of None \<Rightarrow> [] | Some rel \<Rightarrow> rel)) patterns)"

definition index_is_ignored :: "string \<Rightarrow> ignore_scope list \<Rightarrow> bool" where
  "index_is_ignored file stack = list_ex (index_entry_ignores file) stack"

text \<open>The loop of \<open>IsIgnored\<close>, from the directory of the file up to the root.\<close>

function ignore_loop :: "filesys \<Rightarrow> string \<Rightarrow> string \<Rightarrow> ignore_scope list" where
  "ignore_loop fs root dir =
     (let here = (case parse_stem_ignore fs (path_join dir ''.stemignore'') of
                    None \<Rightarrow> [] | Some ps \<Rightarrow> if ps = [] then [] else [(dir, ps)])
      in if dir = root \<or> dir = path_dir dir then here
         else here @ ignore_loop fs root (path_dir dir))"
  by pat_completeness auto
termination
  by (relation "measure (\<lambda>(fs, root, dir). up_measure dir)") (auto intro: path_dir_measure)

declare ignore_loop.simps [simp del]

definition is_ignored_file :: "filesys \<Rightarrow> string \<Rightarrow> string \<Rightarrow> bool" where
  "is_ignored_file fs root file = index_is_ignored file (ignore_loop fs root (path_dir file))"

section \<open>Scope\<close>

definition matches_scope :: "string \<Rightarrow> stem_file option \<Rightarrow> bool" where
  "matches_scope file eff =
     (case eff of
        None \<Rightarrow> True
      | Some s \<Rightarrow>
          st_scope s = [] \<or>
          (case glob_match (st_scope s) (path_base file) of None \<Rightarrow> True | Some b \<Rightarrow> b))"

record scan_config =
  sc_resolver :: "(string \<Rightarrow> go_error + stem_file option) option"
  sc_allow_ungoverned :: bool

record scan_state =
  sn_ignores :: "ignore_scope list"
  sn_cache :: "(string \<times> (go_error + stem_file option)) list"
  sn_no_schema :: bool
  sn_files :: "(string \<times> string) list"

definition init_scan :: scan_state where
  "init_scan = \<lparr> sn_ignores = [], sn_cache = [], sn_no_schema = False, sn_files = [] \<rparr>"

section \<open>Phase 1: discovery\<close>

text \<open>The tree, children in lexical order; a directory whose listing fails carries the error.\<close>

datatype scan_tree = SFile string | SDir string "go_error option" "scan_tree list"

fun tree_name :: "scan_tree \<Rightarrow> string" where
  "tree_name (SFile n) = n"
| "tree_name (SDir n e ts) = n"

definition enter_dir :: "filesys \<Rightarrow> string \<Rightarrow> scan_state \<Rightarrow> scan_state" where
  "enter_dir fs dir st =
     (case parse_stem_ignore fs (path_join dir ''.stemignore'') of
        None \<Rightarrow> st
      | Some ps \<Rightarrow> st\<lparr> sn_ignores := sn_ignores st @ [(dir, ps)] \<rparr>)"

definition cached_scope ::
  "(string \<Rightarrow> go_error + stem_file option) \<Rightarrow> string \<Rightarrow> scan_state \<Rightarrow>
     (go_error + stem_file option) \<times> scan_state" where
  "cached_scope resolve dir st =
     (case map_of (sn_cache st) dir of
        Some r \<Rightarrow> (r, st)
      | None \<Rightarrow> let r = resolve dir in (r, st\<lparr> sn_cache := AList.update dir r (sn_cache st) \<rparr>))"

definition claim_file :: "registry \<Rightarrow> string \<Rightarrow> string \<Rightarrow> scan_state \<Rightarrow> scan_state" where
  "claim_file reg root path st =
     (if for_file reg path [] = None then st
      else st\<lparr> sn_files := sn_files st @
             [(path, case path_rel root path of None \<Rightarrow> [] | Some rel \<Rightarrow> rel)] \<rparr>)"

definition visit_file ::
  "scan_config \<Rightarrow> registry \<Rightarrow> string \<Rightarrow> string \<Rightarrow> string \<Rightarrow> scan_state \<Rightarrow> go_error + scan_state" where
  "visit_file cfg reg root path name st =
     (if name = ''.stemignore'' then Inr st
      else if index_is_ignored path (sn_ignores st) then Inr st
      else
        case sc_resolver cfg of
          None \<Rightarrow> Inr (claim_file reg root path st)
        | Some resolve \<Rightarrow>
            (case cached_scope resolve (path_dir path) st of
               (Inl e, st1) \<Rightarrow>
                 if \<not> is_no_schema e then Inl e
                 else if \<not> sc_allow_ungoverned cfg then Inr (st1\<lparr> sn_no_schema := True \<rparr>)
                 else Inr (claim_file reg root path (st1\<lparr> sn_no_schema := True \<rparr>))
             | (Inr None, st1) \<Rightarrow> Inr st1
             | (Inr (Some stem), st1) \<Rightarrow>
                 if \<not> matches_scope path (Some stem) then Inr st1
                 else Inr (claim_file reg root path st1)))"

fun scan_walk ::
  "filesys \<Rightarrow> scan_config \<Rightarrow> registry \<Rightarrow> string \<Rightarrow> string \<Rightarrow> scan_tree \<Rightarrow> scan_state \<Rightarrow> go_error + scan_state"
and scan_walks ::
  "filesys \<Rightarrow> scan_config \<Rightarrow> registry \<Rightarrow> string \<Rightarrow> string \<Rightarrow> scan_tree list \<Rightarrow> scan_state \<Rightarrow>
     go_error + scan_state" where
  "scan_walk fs cfg reg root path (SFile name) st = visit_file cfg reg root path name st"
| "scan_walk fs cfg reg root path (SDir name err children) st =
     (if name = ''.git'' then Inr st
      else case err of
          Some e \<Rightarrow> Inl e
        | None \<Rightarrow> scan_walks fs cfg reg root path children (enter_dir fs path st))"
| "scan_walks fs cfg reg root dir [] st = Inr st"
| "scan_walks fs cfg reg root dir (t # ts) st =
     (case scan_walk fs cfg reg root (path_join dir (tree_name t)) t st of
        Inl e \<Rightarrow> Inl e
      | Inr st' \<Rightarrow> scan_walks fs cfg reg root dir ts st')"

section \<open>Phase 2: extraction by a pool of workers\<close>

text \<open>
  The work of the pool on \<open>n\<close> files: the indices still to send, the channel, the index each worker is
  busy with, and the result slots.
\<close>

record 'r pool =
  pl_unsent :: "nat list"
  pl_channel :: "nat list"
  pl_busy :: "nat option list"
  pl_results :: "'r option list"

definition pool_start :: "nat \<Rightarrow> nat \<Rightarrow> 'r pool" where
  "pool_start workers n =
     \<lparr> pl_unsent = [0..<n], pl_channel = [], pl_busy = replicate workers None,
       pl_results = replicate n None \<rparr>"

inductive pool_step :: "(nat \<Rightarrow> 'r) \<Rightarrow> 'r pool \<Rightarrow> 'r pool \<Rightarrow> bool" for job where
  send: "pl_unsent p = i # is \<Longrightarrow>
    pool_step job p (p\<lparr> pl_unsent := is, pl_channel := pl_channel p @ [i] \<rparr>)"
| receive: "w < length (pl_busy p) \<Longrightarrow> pl_busy p ! w = None \<Longrightarrow> pl_channel p = i # is \<Longrightarrow>
    pool_step job p (p\<lparr> pl_channel := is, pl_busy := (pl_busy p)[w := Some i] \<rparr>)"
| finish: "w < length (pl_busy p) \<Longrightarrow> pl_busy p ! w = Some i \<Longrightarrow>
    pool_step job p (p\<lparr> pl_busy := (pl_busy p)[w := None],
                       pl_results := (pl_results p)[i := Some (job i)] \<rparr>)"

inductive pool_reach :: "(nat \<Rightarrow> 'r) \<Rightarrow> nat \<Rightarrow> nat \<Rightarrow> 'r pool \<Rightarrow> bool" for job workers n where
  pool_init: "pool_reach job workers n (pool_start workers n)"
| pool_next: "pool_reach job workers n p \<Longrightarrow> pool_step job p p' \<Longrightarrow> pool_reach job workers n p'"

text \<open>The channel is closed and empty and every worker has left its loop.\<close>

definition pool_done :: "'r pool \<Rightarrow> bool" where
  "pool_done p = (pl_unsent p = [] \<and> pl_channel p = [] \<and> list_all (\<lambda>b. b = None) (pl_busy p))"

text \<open>One job, and the collection of the results in discovery order: the first error aborts.\<close>

definition scan_job ::
  "filesys \<Rightarrow> (extractor \<Rightarrow> string \<Rightarrow> string \<Rightarrow> go_error + doc option) \<Rightarrow> registry \<Rightarrow> string \<times> string \<Rightarrow>
     go_error + doc option" where
  "scan_job fs extract reg file =
     (case fs_read fs (fst file) of
        Inl e \<Rightarrow> Inl (Err (fs_err_text e))
      | Inr content \<Rightarrow>
          (case for_file reg (fst file) [] of
             None \<Rightarrow> Inr None
           | Some ext \<Rightarrow> extract ext (snd file) content))"

fun collect_results :: "(go_error + doc option) list \<Rightarrow> go_error + doc list" where
  "collect_results [] = Inr []"
| "collect_results (r # rs) =
     (case r of
        Inl e \<Rightarrow> Inl e
      | Inr d \<Rightarrow>
          (case collect_results rs of
             Inl e \<Rightarrow> Inl e
           | Inr ds \<Rightarrow> Inr (case d of None \<Rightarrow> ds | Some x \<Rightarrow> x # ds)))"

definition discover_files ::
  "filesys \<Rightarrow> (string \<Rightarrow> go_error + scan_tree) \<Rightarrow> scan_config \<Rightarrow> registry \<Rightarrow> string \<Rightarrow>
     go_error + scan_state" where
  "discover_files fs tree cfg reg root =
     (case tree root of Inl e \<Rightarrow> Inl e | Inr t \<Rightarrow> scan_walk fs cfg reg root root t init_scan)"

text \<open>The whole scan; the pool is represented by the results it ends with.\<close>

definition scan ::
  "filesys \<Rightarrow> (string \<Rightarrow> go_error + scan_tree) \<Rightarrow>
     (extractor \<Rightarrow> string \<Rightarrow> string \<Rightarrow> go_error + doc option) \<Rightarrow> scan_config \<Rightarrow> registry \<Rightarrow> string \<Rightarrow>
     go_error + doc list" where
  "scan fs tree extract cfg reg root_path =
     (let root = path_abs (fs_cwd fs) root_path in
      case discover_files fs tree cfg reg root of
        Inl e \<Rightarrow> Inl e
      | Inr st \<Rightarrow>
          if sn_files st = [] then
            (if sn_no_schema st \<and> \<not> sc_allow_ungoverned cfg then Inl NoSchemaFound else Inr [])
          else collect_results (map (scan_job fs extract reg) (sn_files st)))"

section \<open>The pool\<close>

text \<open>
  Every index is in exactly one place until its result is stored: unsent, in the channel, with a worker,
  or done.
\<close>

definition in_flight :: "'r pool \<Rightarrow> nat set" where
  "in_flight p = set (pl_unsent p) \<union> set (pl_channel p) \<union> {i. Some i \<in> set (pl_busy p)}"

definition pool_ok :: "(nat \<Rightarrow> 'r) \<Rightarrow> nat \<Rightarrow> nat \<Rightarrow> 'r pool \<Rightarrow> bool" where
  "pool_ok job workers n p =
     (length (pl_results p) = n \<and> length (pl_busy p) = workers \<and>
      (\<forall>i < n. i \<in> in_flight p \<or> pl_results p ! i = Some (job i)) \<and> in_flight p \<subseteq> {..<n})"

lemma pool_step_ok:
  assumes "pool_step job p p'" "pool_ok job workers n p"
  shows "pool_ok job workers n p'"
  using assms(1)
proof cases
  case (send i rest)
  then have "in_flight p' = in_flight p" by (auto simp: in_flight_def)
  with send assms(2) show ?thesis by (simp add: pool_ok_def)
next
  case (receive w i rest)
  have "{j. Some j \<in> set ((pl_busy p)[w := Some i])} = insert i {j. Some j \<in> set (pl_busy p)}"
    using receive(2,3) by (auto simp: in_set_conv_nth nth_list_update) (metis option.distinct(1))+
  then have "in_flight p' = in_flight p" using receive by (auto simp: in_flight_def)
  with receive assms(2) show ?thesis by (simp add: pool_ok_def)
next
  case (finish w i)
  have sub: "in_flight p \<subseteq> insert i (in_flight p')"
  proof
    fix j assume j: "j \<in> in_flight p"
    have "Some j \<in> set ((pl_busy p)[w := None])" if "Some j \<in> set (pl_busy p)" "j \<noteq> i"
    proof -
      from that(1) obtain v where v: "v < length (pl_busy p)" "pl_busy p ! v = Some j"
        by (auto simp: in_set_conv_nth)
      with that(2) finish(3) have "v \<noteq> w" by auto
      with v(2) have "(pl_busy p)[w := None] ! v = Some j" by simp
      with v(1) show ?thesis by (metis length_list_update nth_mem)
    qed
    with j finish(1) show "j \<in> insert i (in_flight p')" by (auto simp: in_flight_def)
  qed
  have sub': "in_flight p' \<subseteq> in_flight p"
    using set_update_subset_insert [of "pl_busy p" w None] finish(1) by (auto simp: in_flight_def)
  have "i \<in> in_flight p" using finish(2,3) by (auto simp: in_flight_def) (metis nth_mem)
  with assms(2) have "i < length (pl_results p)" by (auto simp: pool_ok_def)
  with finish(1) sub sub' assms(2) show ?thesis
    by (auto simp: pool_ok_def nth_list_update)
qed

lemma pool_reach_ok: "pool_reach job workers n p \<Longrightarrow> pool_ok job workers n p"
proof (induction rule: pool_reach.induct)
  case pool_init
  show ?case by (auto simp: pool_ok_def pool_start_def in_flight_def)
next
  case (pool_next p p')
  then show ?case using pool_step_ok by blast
qed

text \<open>Every step does work, so a pool cannot run forever.\<close>

definition pool_work :: "'r pool \<Rightarrow> nat" where
  "pool_work p = 3 * length (pl_unsent p) + 2 * length (pl_channel p) +
     length (filter (\<lambda>b. b \<noteq> None) (pl_busy p))"

lemma length_filter_update:
  "w < length bs \<Longrightarrow> length (filter P (bs[w := b])) + (if P (bs ! w) then 1 else 0) =
     length (filter P bs) + (if P b then 1 else 0)"
proof (induction bs arbitrary: w)
  case (Cons x bs)
  then show ?case by (cases w) auto
qed simp

lemma pool_step_work:
  assumes "pool_step job p p'"
  shows "pool_work p' < pool_work p"
  using assms
proof cases
  case (send i rest)
  then show ?thesis by (simp add: pool_work_def)
next
  case (receive w i rest)
  with length_filter_update [of w "pl_busy p" "\<lambda>b. b \<noteq> None" "Some i"] show ?thesis
    by (simp add: pool_work_def)
next
  case (finish w i)
  with length_filter_update [of w "pl_busy p" "\<lambda>b. b \<noteq> None" None] show ?thesis
    by (simp add: pool_work_def)
qed

lemma pool_progress:
  assumes "pool_ok job workers n p" "workers > 0" "\<not> pool_done p"
  shows "\<exists>p'. pool_step job p p'"
proof (cases "pl_unsent p")
  case (Cons i rest)
  then show ?thesis using send by blast
next
  case Nil
  show ?thesis
  proof (cases "\<exists>w < length (pl_busy p). pl_busy p ! w \<noteq> None")
    case True
    then obtain w i where "w < length (pl_busy p)" "pl_busy p ! w = Some i" by auto
    then show ?thesis using finish by blast
  next
    case False
    then have idle: "list_all (\<lambda>b. b = None) (pl_busy p)" by (simp add: list_all_length)
    with Nil assms(3) obtain i rest where c: "pl_channel p = i # rest"
      by (cases "pl_channel p") (auto simp: pool_done_def)
    have "0 < length (pl_busy p)" using assms(1,2) by (simp add: pool_ok_def)
    moreover from this False have "pl_busy p ! 0 = None" by blast
    ultimately show ?thesis using receive [OF _ _ c] by blast
  qed
qed

section \<open>The walk\<close>

text \<open>The component path of every file below a directory, without those of a git directory.\<close>

fun tree_files :: "string list \<Rightarrow> scan_tree \<Rightarrow> string list list"
and trees_files :: "string list \<Rightarrow> scan_tree list \<Rightarrow> string list list" where
  "tree_files cs (SFile name) = [cs]"
| "tree_files cs (SDir name err children) = (if name = ''.git'' then [] else trees_files cs children)"
| "trees_files cs [] = []"
| "trees_files cs (t # ts) = tree_files (cs @ [tree_name t]) t @ trees_files cs ts"

fun plain_tree :: "scan_tree \<Rightarrow> bool" where
  "plain_tree (SFile name) = plain_name name"
| "plain_tree (SDir name err children) =
     (plain_name name \<and> distinct (map tree_name children) \<and> list_all plain_tree children)"

text \<open>The ignore files of a directory and of those above it up to the root, by components.\<close>

definition dir_ignores :: "filesys \<Rightarrow> string \<Rightarrow> string list \<Rightarrow> bool" where
  "dir_ignores fs file ds =
     (case parse_stem_ignore fs (path_join (abs_path ds) ''.stemignore'') of
        None \<Rightarrow> False | Some ps \<Rightarrow> index_entry_ignores file (abs_path ds, ps))"

lemma dir_ignores_prefix:
  assumes "list_all plain_name cs" "list_all plain_name ds" "dir_ignores fs (abs_path cs) ds"
  shows "\<exists>r. cs = ds @ r"
  using assms prefix_abs_path [of cs ds]
  by (auto simp: dir_ignores_def index_entry_ignores_def abs_path_inj split: option.splits)

lemma stem_ignore_nil: "parse_stem_ignore fs p = Some [] \<Longrightarrow> \<not> index_entry_ignores file (dir, [])"
  by (simp add: index_entry_ignores_def)

lemma ignore_loop_ignores:
  assumes "list_all plain_name (rcs @ r)"
  shows "index_is_ignored file (ignore_loop fs (abs_path rcs) (abs_path (rcs @ r))) \<longleftrightarrow>
    (\<exists>k \<le> length r. dir_ignores fs file (rcs @ take k r))"
  using assms
proof (induction r rule: rev_induct)
  case Nil
  show ?case
    by (subst ignore_loop.simps)
      (auto simp: index_is_ignored_def dir_ignores_def index_entry_ignores_def split: option.split)
next
  case (snoc n r)
  then have names: "list_all plain_name (rcs @ r)" "plain_name n" by simp_all
  have ne: "abs_path (rcs @ r @ [n]) \<noteq> abs_path rcs" "abs_path (rcs @ r @ [n]) \<noteq> abs_path (rcs @ r)"
    using snoc.prems by (auto simp: abs_path_inj)
  have dir: "path_dir (abs_path (rcs @ r @ [n])) = abs_path (rcs @ r)"
    using path_dir_abs_path [OF names] by simp
  have "index_is_ignored file (ignore_loop fs (abs_path rcs) (abs_path (rcs @ r @ [n]))) \<longleftrightarrow>
      dir_ignores fs file (rcs @ r @ [n]) \<or>
      index_is_ignored file (ignore_loop fs (abs_path rcs) (abs_path (rcs @ r)))"
    using ne by (subst ignore_loop.simps)
      (auto simp: dir index_is_ignored_def dir_ignores_def index_entry_ignores_def split: option.split)
  also have "\<dots> \<longleftrightarrow> (\<exists>k \<le> length (r @ [n]). dir_ignores fs file (rcs @ take k (r @ [n])))"
  proof -
    have "(\<exists>k \<le> Suc (length r). dir_ignores fs file (rcs @ take k (r @ [n]))) \<longleftrightarrow>
        dir_ignores fs file (rcs @ take (Suc (length r)) (r @ [n])) \<or>
        (\<exists>k \<le> length r. dir_ignores fs file (rcs @ take k (r @ [n])))"
      by (metis le_Suc_eq le_refl)
    then show ?thesis using snoc.IH [OF names(1)] by auto
  qed
  finally show ?case .
qed

text \<open>The specification of the scan: which files it takes.\<close>

definition scope_admits :: "scan_config \<Rightarrow> string \<Rightarrow> bool" where
  "scope_admits cfg file =
     (case sc_resolver cfg of
        None \<Rightarrow> True
      | Some resolve \<Rightarrow>
          (case resolve (path_dir file) of
             Inl e \<Rightarrow> sc_allow_ungoverned cfg
           | Inr None \<Rightarrow> False
           | Inr (Some s) \<Rightarrow> matches_scope file (Some s)))"

definition scan_selects :: "filesys \<Rightarrow> scan_config \<Rightarrow> registry \<Rightarrow> string \<Rightarrow> string list \<Rightarrow> bool" where
  "scan_selects fs cfg reg root cs =
     (last cs \<noteq> ''.stemignore'' \<and> \<not> is_ignored_file fs root (abs_path cs) \<and>
      scope_admits cfg (abs_path cs) \<and> for_file reg (abs_path cs) [] \<noteq> None)"

text \<open>A file that is looked at has a directory whose resolution did not fail hard.\<close>

definition scope_sound :: "filesys \<Rightarrow> scan_config \<Rightarrow> string \<Rightarrow> string list \<Rightarrow> bool" where
  "scope_sound fs cfg root cs =
     (last cs = ''.stemignore'' \<or> is_ignored_file fs root (abs_path cs) \<or>
      (case sc_resolver cfg of
         None \<Rightarrow> True
       | Some resolve \<Rightarrow>
           (case resolve (path_dir (abs_path cs)) of Inl e \<Rightarrow> is_no_schema e | Inr _ \<Rightarrow> True)))"

text \<open>The walk after the directories \<open>V\<close>, below the root \<open>rcs\<close>.\<close>

definition walk_ok :: "filesys \<Rightarrow> scan_config \<Rightarrow> string list \<Rightarrow> string list set \<Rightarrow> scan_state \<Rightarrow> bool" where
  "walk_ok fs cfg rcs V st =
     ((\<forall>file. index_is_ignored file (sn_ignores st) = (\<exists>ds \<in> V. dir_ignores fs file ds)) \<and>
      (\<forall>ds \<in> V. list_all plain_name ds \<and> (\<exists>r. ds = rcs @ r)) \<and>
      (\<forall>f d r. sc_resolver cfg = Some f \<longrightarrow> map_of (sn_cache st) d = Some r \<longrightarrow> f d = r))"

definition place_ok :: "string list \<Rightarrow> string list set \<Rightarrow> string list \<Rightarrow> bool" where
  "place_ok rcs V cs =
     (list_all plain_name cs \<and> (\<exists>r. cs = rcs @ r) \<and>
      (\<forall>k. length rcs \<le> k \<longrightarrow> k < length cs \<longrightarrow> take k cs \<in> V) \<and>
      (\<forall>ds \<in> V. \<forall>r. ds \<noteq> cs @ r))"

lemma walk_ok_frame:
  "walk_ok fs cfg rcs V st \<Longrightarrow> sn_ignores st' = sn_ignores st \<Longrightarrow> sn_cache st' = sn_cache st \<Longrightarrow>
     walk_ok fs cfg rcs V st'"
  by (simp add: walk_ok_def)

lemma claim_file_frame [simp]:
  "sn_ignores (claim_file reg root p st) = sn_ignores st" "sn_cache (claim_file reg root p st) = sn_cache st"
  by (simp_all add: claim_file_def)

lemma claim_file_files:
  "map fst (sn_files (claim_file reg root p st)) =
     map fst (sn_files st) @ (if for_file reg p [] = None then [] else [p])"
  by (simp add: claim_file_def)

lemma cached_scope_ok:
  assumes "walk_ok fs cfg rcs V st" "sc_resolver cfg = Some f" "cached_scope f d st = (r, st1)"
  shows "r = f d" "walk_ok fs cfg rcs V st1" "sn_files st1 = sn_files st" "sn_ignores st1 = sn_ignores st"
  using assms by (auto simp: cached_scope_def walk_ok_def Let_def update_conv' split: option.splits if_splits)

lemma ignored_same:
  assumes ok: "walk_ok fs cfg rcs V st" and pl: "place_ok rcs V (cs @ [n])" and r: "cs = rcs @ r"
  shows "index_is_ignored (abs_path (cs @ [n])) (sn_ignores st) =
    is_ignored_file fs (abs_path rcs) (abs_path (cs @ [n]))"
proof -
  let ?p = "abs_path (cs @ [n])"
  have names: "list_all plain_name cs" "plain_name n" using pl by (simp_all add: place_ok_def)
  have "is_ignored_file fs (abs_path rcs) ?p \<longleftrightarrow> (\<exists>k \<le> length r. dir_ignores fs ?p (rcs @ take k r))"
    using ignore_loop_ignores [of rcs r] names path_dir_abs_path [OF names]
    by (simp add: is_ignored_file_def r)
  also have "\<dots> \<longleftrightarrow> (\<exists>ds \<in> V. dir_ignores fs ?p ds)"
  proof
    assume "\<exists>k \<le> length r. dir_ignores fs ?p (rcs @ take k r)"
    then obtain k where k: "k \<le> length r" "dir_ignores fs ?p (rcs @ take k r)" by blast
    have "\<forall>j. length rcs \<le> j \<longrightarrow> j < length (cs @ [n]) \<longrightarrow> take j (cs @ [n]) \<in> V"
      using pl unfolding place_ok_def by blast
    then have "take (length rcs + k) (cs @ [n]) \<in> V" using k(1) by (simp add: r del: take_append)
    then have "rcs @ take k r \<in> V" using k(1) by (simp add: r)
    with k(2) show "\<exists>ds \<in> V. dir_ignores fs ?p ds" by blast
  next
    assume "\<exists>ds \<in> V. dir_ignores fs ?p ds"
    then obtain ds where ds: "ds \<in> V" "dir_ignores fs ?p ds" by blast
    then obtain q where q: "ds = rcs @ q" "list_all plain_name ds" using ok by (auto simp: walk_ok_def)
    have "list_all plain_name (cs @ [n])" using names by simp
    from dir_ignores_prefix [OF this q(2) ds(2)] obtain t where t: "cs @ [n] = ds @ t" by blast
    have "t \<noteq> []"
    proof
      assume "t = []"
      with t have "ds = (cs @ [n]) @ []" by simp
      with pl ds(1) show False unfolding place_ok_def by blast
    qed
    with t r q have "r @ [n] = q @ t" "t \<noteq> []" by simp_all
    then have "q = take (length q) r" "length q \<le> length r"
      by (metis append_butlast_last_id append_eq_conv_conj butlast_append butlast_snoc,
          metis append_eq_append_conv_if length_append_singleton length_append length_greater_0_conv
          less_Suc_eq_le less_add_same_cancel1)
    with ds(2) q(1) show "\<exists>k \<le> length r. dir_ignores fs ?p (rcs @ take k r)" by metis
  qed
  finally show ?thesis using ok by (simp add: walk_ok_def)
qed

lemma visit_file_ok:
  assumes ok: "walk_ok fs cfg rcs V st" and pl: "place_ok rcs V cs" and ne: "cs \<noteq> rcs"
    and v: "visit_file cfg reg (abs_path rcs) (abs_path cs) (last cs) st = Inr st'"
  shows "walk_ok fs cfg rcs V st' \<and> map fst (sn_files st') = map fst (sn_files st) @
    map abs_path (filter (scan_selects fs cfg reg (abs_path rcs)) [cs]) \<and>
    scope_sound fs cfg (abs_path rcs) cs"
proof -
  obtain r where r: "cs = rcs @ r" using pl by (auto simp: place_ok_def)
  with ne obtain q n where rn: "r = q @ [n]" by (cases r rule: rev_cases) auto
  have ign: "index_is_ignored (abs_path cs) (sn_ignores st) =
      is_ignored_file fs (abs_path rcs) (abs_path cs)"
    using ignored_same [OF ok, of "rcs @ q" n q] pl by (simp add: r rn)
  show ?thesis
  proof (cases "last cs = ''.stemignore'' \<or> index_is_ignored (abs_path cs) (sn_ignores st)")
    case True
    with v have "st' = st" by (auto simp: visit_file_def split: if_splits)
    with True ok ign show ?thesis by (auto simp: scan_selects_def scope_sound_def)
  next
    case False
    then have sel: "last cs \<noteq> ''.stemignore''" "\<not> is_ignored_file fs (abs_path rcs) (abs_path cs)"
      by (simp_all add: ign)
    show ?thesis
    proof (cases "sc_resolver cfg")
      case None
      with v False have "st' = claim_file reg (abs_path rcs) (abs_path cs) st"
        by (simp add: visit_file_def)
      with walk_ok_frame [OF ok] None sel show ?thesis
        by (simp add: claim_file_files scan_selects_def scope_admits_def scope_sound_def)
    next
      case (Some f)
      obtain x st1 where c: "cached_scope f (path_dir (abs_path cs)) st = (x, st1)" by fastforce
      note cs1 = cached_scope_ok [OF ok Some c]
      have v': "(case x of
          Inl e \<Rightarrow> if \<not> is_no_schema e then Inl e
                   else if \<not> sc_allow_ungoverned cfg then Inr (st1\<lparr> sn_no_schema := True \<rparr>)
                   else Inr (claim_file reg (abs_path rcs) (abs_path cs) (st1\<lparr> sn_no_schema := True \<rparr>))
        | Inr None \<Rightarrow> Inr st1
        | Inr (Some stem) \<Rightarrow> if \<not> matches_scope (abs_path cs) (Some stem) then Inr st1
                             else Inr (claim_file reg (abs_path rcs) (abs_path cs) st1)) = Inr st'"
        using v False Some c by (simp add: visit_file_def split: sum.splits option.splits)
      show ?thesis
        using v' walk_ok_frame [OF cs1(2)] cs1 sel Some
        by (auto simp: claim_file_files scan_selects_def scope_admits_def scope_sound_def
            split: sum.splits option.splits if_splits)
    qed
  qed
qed

lemma enter_dir_ok:
  assumes ok: "walk_ok fs cfg rcs V st" and pl: "place_ok rcs V cs"
  shows "walk_ok fs cfg rcs (insert cs V) (enter_dir fs (abs_path cs) st)"
    "sn_files (enter_dir fs (abs_path cs) st) = sn_files st"
proof -
  show "sn_files (enter_dir fs (abs_path cs) st) = sn_files st"
    by (simp add: enter_dir_def split: option.split)
  have "index_is_ignored p (sn_ignores (enter_dir fs (abs_path cs) st)) \<longleftrightarrow>
      index_is_ignored p (sn_ignores st) \<or> dir_ignores fs p cs" for p
    by (auto simp: enter_dir_def index_is_ignored_def dir_ignores_def split: option.split)
  moreover have "sn_cache (enter_dir fs (abs_path cs) st) = sn_cache st"
    by (simp add: enter_dir_def split: option.split)
  ultimately show "walk_ok fs cfg rcs (insert cs V) (enter_dir fs (abs_path cs) st)"
    using ok pl by (auto simp: walk_ok_def place_ok_def)
qed

text \<open>A directory that has been entered, with those above it.\<close>

definition open_dir :: "string list \<Rightarrow> string list set \<Rightarrow> string list \<Rightarrow> bool" where
  "open_dir rcs W cs =
     (list_all plain_name cs \<and> (\<exists>r. cs = rcs @ r) \<and>
      (\<forall>k. length rcs \<le> k \<longrightarrow> k \<le> length cs \<longrightarrow> take k cs \<in> W))"

lemma open_dir_mono: "open_dir rcs W cs \<Longrightarrow> W \<subseteq> W' \<Longrightarrow> open_dir rcs W' cs"
  unfolding open_dir_def by blast

lemma open_entered: "place_ok rcs V cs \<Longrightarrow> open_dir rcs (insert cs V) cs"
  by (auto simp: place_ok_def open_dir_def le_less)

lemma child_place_ok:
  assumes "open_dir rcs W cs" "plain_name n" "\<forall>ds \<in> W. \<forall>r. ds \<noteq> cs @ n # r"
  shows "place_ok rcs W (cs @ [n])"
  using assms by (auto simp: open_dir_def place_ok_def less_Suc_eq_le)

text \<open>What walking a subtree at \<open>cs\<close> gives.\<close>

definition walk_result ::
  "filesys \<Rightarrow> scan_config \<Rightarrow> registry \<Rightarrow> string list \<Rightarrow> string list set \<Rightarrow> string list \<Rightarrow>
     string list list \<Rightarrow> scan_state \<Rightarrow> scan_state \<Rightarrow> bool" where
  "walk_result fs cfg reg rcs V cs files st st' =
     (\<exists>W. V \<subseteq> W \<and> W - V \<subseteq> {ds. \<exists>r. ds = cs @ r} \<and> walk_ok fs cfg rcs W st' \<and>
        map fst (sn_files st') = map fst (sn_files st) @
          map abs_path (filter (scan_selects fs cfg reg (abs_path rcs)) files) \<and>
        list_all (scope_sound fs cfg (abs_path rcs)) files)"

lemma walk_result_refl: "walk_ok fs cfg rcs V st \<Longrightarrow> walk_result fs cfg reg rcs V cs [] st st"
  unfolding walk_result_def by (intro exI [of _ V]) simp

lemma walk_result_trans:
  assumes "walk_result fs cfg reg rcs V (cs @ [n]) xs st st1"
    and "\<And>W. V \<subseteq> W \<Longrightarrow> W - V \<subseteq> {ds. \<exists>r. ds = cs @ n # r} \<Longrightarrow> walk_ok fs cfg rcs W st1 \<Longrightarrow>
           walk_result fs cfg reg rcs W cs ys st1 st2"
  shows "walk_result fs cfg reg rcs V cs (xs @ ys) st st2"
proof -
  obtain W where W: "V \<subseteq> W" "W - V \<subseteq> {ds. \<exists>r. ds = cs @ n # r}" "walk_ok fs cfg rcs W st1"
    "map fst (sn_files st1) = map fst (sn_files st) @
       map abs_path (filter (scan_selects fs cfg reg (abs_path rcs)) xs)"
    "list_all (scope_sound fs cfg (abs_path rcs)) xs"
    using assms(1) by (auto simp: walk_result_def)
  from assms(2) [OF W(1-3)] obtain U where
    "W \<subseteq> U" "U - W \<subseteq> {ds. \<exists>r. ds = cs @ r}" "walk_ok fs cfg rcs U st2"
    "map fst (sn_files st2) = map fst (sn_files st1) @
       map abs_path (filter (scan_selects fs cfg reg (abs_path rcs)) ys)"
    "list_all (scope_sound fs cfg (abs_path rcs)) ys"
    by (auto simp: walk_result_def)
  with W show ?thesis
    unfolding walk_result_def by (intro exI [of _ U]) auto
qed

lemma walk_result_enter:
  assumes "walk_result fs cfg reg rcs (insert cs V) cs xs (enter_dir fs d st) st'"
    and "sn_files (enter_dir fs d st) = sn_files st"
  shows "walk_result fs cfg reg rcs V cs xs st st'"
proof -
  obtain W where "insert cs V \<subseteq> W" "W - insert cs V \<subseteq> {ds. \<exists>r. ds = cs @ r}" "walk_ok fs cfg rcs W st'"
    "map fst (sn_files st') = map fst (sn_files st) @
       map abs_path (filter (scan_selects fs cfg reg (abs_path rcs)) xs)"
    "list_all (scope_sound fs cfg (abs_path rcs)) xs"
    using assms by (auto simp: walk_result_def)
  then show ?thesis
    unfolding walk_result_def by (intro exI [of _ W]) auto
qed

lemma scan_walk_result:
  "scan_walk fs cfg reg (abs_path rcs) (abs_path cs) t st = Inr st' \<Longrightarrow>
    walk_ok fs cfg rcs V st \<Longrightarrow> place_ok rcs V cs \<Longrightarrow> plain_tree t \<Longrightarrow>
    (\<And>n. t = SFile n \<Longrightarrow> cs \<noteq> rcs \<and> last cs = n) \<Longrightarrow>
    walk_result fs cfg reg rcs V cs (tree_files cs t) st st'"
  "scan_walks fs cfg reg (abs_path rcs) (abs_path cs) ts st = Inr st' \<Longrightarrow>
    walk_ok fs cfg rcs V st \<Longrightarrow> open_dir rcs V cs \<Longrightarrow>
    list_all plain_tree ts \<Longrightarrow> distinct (map tree_name ts) \<Longrightarrow>
    (\<And>u ds r. u \<in> set ts \<Longrightarrow> ds \<in> V \<Longrightarrow> ds \<noteq> cs @ tree_name u # r) \<Longrightarrow>
    walk_result fs cfg reg rcs V cs (trees_files cs ts) st st'"
proof (induction cs t and cs ts arbitrary: st st' V and st st' V rule: tree_files_trees_files.induct)
  case (1 cs name)
  from "1.prems"(5) have "cs \<noteq> rcs" "last cs = name" by simp_all
  with visit_file_ok [OF "1.prems"(2,3), of reg st'] "1.prems"(1)
  have "walk_ok fs cfg rcs V st' \<and> map fst (sn_files st') = map fst (sn_files st) @
      map abs_path (filter (scan_selects fs cfg reg (abs_path rcs)) [cs]) \<and>
      scope_sound fs cfg (abs_path rcs) cs" by simp
  then show ?case unfolding walk_result_def by (intro exI [of _ V]) simp
next
  case (2 cs name err children)
  show ?case
  proof (cases "name = ''.git''")
    case True
    with "2.prems" show ?thesis by (simp add: walk_result_refl)
  next
    case False
    with "2.prems"(1) have w: "scan_walks fs cfg reg (abs_path rcs) (abs_path cs) children
        (enter_dir fs (abs_path cs) st) = Inr st'" by (simp split: option.splits)
    note en = enter_dir_ok [OF "2.prems"(2,3)]
    have new: "ds \<noteq> cs @ tree_name u # r" if "ds \<in> insert cs V" for u ds r
      using that "2.prems"(3) unfolding place_ok_def by auto
    have "walk_result fs cfg reg rcs (insert cs V) cs (trees_files cs children)
        (enter_dir fs (abs_path cs) st) st'"
      by (rule "2.IH" [OF False w en(1) open_entered [OF "2.prems"(3)]])
        (use "2.prems"(4) new in auto)
    from walk_result_enter [OF this en(2)] False show ?thesis by simp
  qed
next
  case (3 cs)
  then show ?case by (simp add: walk_result_refl)
next
  case (4 cs t ts)
  have t: "plain_tree t" "plain_name (tree_name t)" using "4.prems"(4) by (cases t; simp)+
  have cs: "list_all plain_name cs" using "4.prems"(3) by (simp add: open_dir_def)
  obtain st1 where st1: "scan_walk fs cfg reg (abs_path rcs) (abs_path (cs @ [tree_name t])) t st = Inr st1"
    and st2: "scan_walks fs cfg reg (abs_path rcs) (abs_path cs) ts st1 = Inr st'"
    using "4.prems"(1) path_join_abs_path [OF cs t(2)] by (auto split: sum.splits)
  have place: "place_ok rcs V (cs @ [tree_name t])"
    by (rule child_place_ok [OF "4.prems"(3) t(2)]) (use "4.prems"(6) in auto)
  have "cs @ [tree_name t] \<noteq> rcs" using "4.prems"(3) by (auto simp: open_dir_def)
  then have "walk_result fs cfg reg rcs V (cs @ [tree_name t]) (tree_files (cs @ [tree_name t]) t) st st1"
    by (intro "4.IH"(1) [OF st1 "4.prems"(2) place t(1)]) auto
  then have "walk_result fs cfg reg rcs V cs (tree_files (cs @ [tree_name t]) t @ trees_files cs ts) st st'"
  proof (rule walk_result_trans)
    fix W assume W: "V \<subseteq> W" "W - V \<subseteq> {ds. \<exists>r. ds = cs @ tree_name t # r}" "walk_ok fs cfg rcs W st1"
    have "ds \<noteq> cs @ tree_name u # r" if "u \<in> set ts" "ds \<in> W" for u ds r
    proof (cases "ds \<in> V")
      case True
      with that "4.prems"(6) show ?thesis by simp
    next
      case False
      with W(2) that(2) obtain q where "ds = cs @ tree_name t # q" by blast
      moreover have "tree_name t \<notin> tree_name ` set ts" using "4.prems"(5) by simp
      then have "tree_name u \<noteq> tree_name t" using that(1) by (metis imageI)
      ultimately show ?thesis by simp
    qed
    then show "walk_result fs cfg reg rcs W cs (trees_files cs ts) st1 st'"
      using "4.prems"(4,5) by (intro "4.IH"(2) [OF st2 W(3) open_dir_mono [OF "4.prems"(3) W(1)]]) auto
  qed
  then show ?case by simp
qed

lemma discover_result:
  assumes "discover_files fs tree cfg reg (abs_path rcs) = Inr st"
    and "tree (abs_path rcs) = Inr (SDir name err children)" "plain_tree (SDir name err children)"
    and "list_all plain_name rcs"
  shows "walk_result fs cfg reg rcs {} rcs (tree_files rcs (SDir name err children)) init_scan st"
proof -
  have w: "scan_walk fs cfg reg (abs_path rcs) (abs_path rcs) (SDir name err children) init_scan = Inr st"
    using assms(1,2) by (simp add: discover_files_def)
  have "walk_ok fs cfg rcs {} init_scan"
    by (simp add: walk_ok_def init_scan_def index_is_ignored_def)
  moreover have "place_ok rcs {} rcs" using assms(4) by (simp add: place_ok_def)
  ultimately show ?thesis using scan_walk_result(1) [OF w] assms(3) by blast
qed

text \<open>A tree with an ignore file for the examples.\<close>

definition scan_fs :: filesys where
  "scan_fs =
     \<lparr> fs_cwd = ''/r'', fs_stat = (\<lambda>p. Inl NotExist), fs_lstat = (\<lambda>p. Inl NotExist),
       fs_read = (\<lambda>p. if p = ''/r/d/.stemignore'' then Inr ''x*.md'' else Inl NotExist),
       fs_list = (\<lambda>p. Inl NotExist) \<rparr>"

definition scan_sample :: scan_tree where
  "scan_sample =
     SDir ''r'' None [SFile ''a.md'',
       SDir ''d'' None [SFile ''.stemignore'', SFile ''b.md'', SFile ''x1.md''],
       SDir ''d2'' None [SFile ''x2.md'']]"

definition scan_registry :: registry where
  "scan_registry = \<lparr> rg_by_name = [], rg_by_extension = [(''.md'', markdown_extractor)] \<rparr>"

definition scan_cfg :: scan_config where
  "scan_cfg = \<lparr> sc_resolver = None, sc_allow_ungoverned = False \<rparr>"

section \<open>Properties\<close>

text \<open>C23: A scan takes exactly the files it should, in lexical order: those outside git directories that
  are no ignore file, that no ignore file between the root and their own directory excludes, whose
  directory's schema admits them and for which an extractor is registered. The ignore decision is the one
  \<open>IsIgnored\<close> makes for the file alone, although the stack of ignore files is never popped.\<close>

theorem scan_takes_governed_files:
  assumes "discover_files fs tree cfg reg (abs_path rcs) = Inr st"
    and "tree (abs_path rcs) = Inr (SDir name err children)" "plain_tree (SDir name err children)"
    and "list_all plain_name rcs"
  shows "map fst (sn_files st) = map abs_path
    (filter (scan_selects fs cfg reg (abs_path rcs)) (tree_files rcs (SDir name err children)))"
  using discover_result [OF assms] by (auto simp: walk_result_def init_scan_def)

theorem scan_takes_governed_files_witness:
  "\<exists>st. discover_files scan_fs (\<lambda>_. Inr scan_sample) scan_cfg scan_registry ''/r'' = Inr st \<and>
     map fst (sn_files st) = [''/r/a.md'', ''/r/d/b.md'', ''/r/d2/x2.md'']"
proof -
  have r: "abs_path [''r''] = ''/r''" by code_simp
  have ok: "isl (discover_files scan_fs (\<lambda>_. Inr scan_sample) scan_cfg scan_registry ''/r'') = False"
    by code_simp
  then obtain st where st: "discover_files scan_fs (\<lambda>_. Inr scan_sample) scan_cfg scan_registry ''/r'' = Inr st"
    by (cases "discover_files scan_fs (\<lambda>_. Inr scan_sample) scan_cfg scan_registry ''/r''") auto
  obtain n e cs where t: "scan_sample = SDir n e cs" by (simp add: scan_sample_def)
  have "plain_tree scan_sample" "list_all plain_name [''r'']" by code_simp+
  moreover have "map abs_path (filter (scan_selects scan_fs scan_cfg scan_registry ''/r'')
      (tree_files [''r''] scan_sample)) = [''/r/a.md'', ''/r/d/b.md'', ''/r/d2/x2.md'']" by code_simp
  ultimately have "map fst (sn_files st) = [''/r/a.md'', ''/r/d/b.md'', ''/r/d2/x2.md'']"
    using scan_takes_governed_files [of scan_fs "\<lambda>_. Inr scan_sample" scan_cfg scan_registry "[''r'']" st n e cs,
        unfolded r, folded t, OF st refl] by metis
  with st show ?thesis by (intro exI conjI)
qed

text \<open>A broken schema always aborts the scan: when discovery succeeds, every directory of a file that
  was looked at resolved or has no schema at all, whether or not ungoverned files are allowed.\<close>

theorem scan_never_masks_errors:
  assumes "discover_files fs tree cfg reg (abs_path rcs) = Inr st"
    and "tree (abs_path rcs) = Inr (SDir name err children)" "plain_tree (SDir name err children)"
    and "list_all plain_name rcs" "sc_resolver cfg = Some resolve"
    and "cs \<in> set (tree_files rcs (SDir name err children))"
    and "last cs \<noteq> ''.stemignore''" "\<not> is_ignored_file fs (abs_path rcs) (abs_path cs)"
  shows "case resolve (path_dir (abs_path cs)) of Inl e \<Rightarrow> is_no_schema e | Inr _ \<Rightarrow> True"
  using discover_result [OF assms(1-4)] assms(5-)
  by (auto simp: walk_result_def scope_sound_def list_all_iff)

theorem scan_never_masks_errors_witness:
  "is_no_schema NoSchemaFound \<and>
     isl (discover_files scan_fs (\<lambda>_. Inr scan_sample)
       \<lparr> sc_resolver = Some (\<lambda>d. if d = ''/r/d'' then Inl NoSchemaFound else Inr None),
         sc_allow_ungoverned = True \<rparr> scan_registry ''/r'') = False"
proof -
  let ?f = "\<lambda>d :: string. if d = ''/r/d'' then Inl NoSchemaFound else Inr (None :: stem_file option)"
  let ?cfg = "\<lparr> sc_resolver = Some ?f, sc_allow_ungoverned = True \<rparr>"
  have r: "abs_path [''r''] = ''/r''" "path_dir (abs_path [''r'', ''d'', ''b.md'']) = ''/r/d''" by code_simp+
  have ok: "isl (discover_files scan_fs (\<lambda>_. Inr scan_sample) ?cfg scan_registry ''/r'') = False"
    by code_simp
  then obtain st where st: "discover_files scan_fs (\<lambda>_. Inr scan_sample) ?cfg scan_registry ''/r'' = Inr st"
    by (cases "discover_files scan_fs (\<lambda>_. Inr scan_sample) ?cfg scan_registry ''/r''") auto
  obtain n e cs where t: "scan_sample = SDir n e cs" by (simp add: scan_sample_def)
  have "plain_tree scan_sample" "list_all plain_name [''r'']"
    "[''r'', ''d'', ''b.md''] \<in> set (tree_files [''r''] scan_sample)"
    "\<not> is_ignored_file scan_fs ''/r'' (abs_path [''r'', ''d'', ''b.md''])" by code_simp+
  then have "case ?f (path_dir (abs_path [''r'', ''d'', ''b.md''])) of
      Inl e \<Rightarrow> is_no_schema e | Inr _ \<Rightarrow> True"
    using scan_never_masks_errors [of scan_fs "\<lambda>_. Inr scan_sample" ?cfg scan_registry "[''r'']" st n e cs
        ?f "[''r'', ''d'', ''b.md'']", unfolded r(1), folded t, OF st refl] by simp
  with ok show ?thesis by (simp add: r(2))
qed

text \<open>C24: The worker pool is deterministic and never stuck: with at least one worker, whatever the order in
  which the jobs are sent, taken and finished, every state has a next step until all results are in, every
  step uses up work, and at the end each slot holds the result of its own file, in discovery order.\<close>

theorem pool_results_in_order:
  assumes "pool_reach job workers n p" and "workers > 0"
  shows "(if pool_done p then pl_results p = map (\<lambda>i. Some (job i)) [0..<n]
          else \<exists>p'. pool_step job p p') \<and>
    (\<forall>p'. pool_step job p p' \<longrightarrow> pool_work p' < pool_work p)"
proof -
  note ok = pool_reach_ok [OF assms(1)]
  have "pl_results p = map (\<lambda>i. Some (job i)) [0..<n]" if "pool_done p"
  proof (rule nth_equalityI)
    show "length (pl_results p) = length (map (\<lambda>i. Some (job i)) [0..<n])"
      using ok by (simp add: pool_ok_def)
    have "in_flight p = {}" using that by (auto simp: pool_done_def in_flight_def list_all_iff)
    then show "pl_results p ! i = map (\<lambda>i. Some (job i)) [0..<n] ! i" if "i < length (pl_results p)" for i
      using ok that by (simp add: pool_ok_def)
  qed
  with pool_progress [OF ok assms(2)] pool_step_work show ?thesis by auto
qed

lemma pool_run_one: "\<exists>p. pool_reach job 1 1 p \<and> pool_done p"
proof -
  have "pool_reach job 1 1 (pool_start 1 1)" by (rule pool_init)
  from pool_next [OF this send [of _ 0 "[]"]]
  have "pool_reach job 1 1 \<lparr> pl_unsent = [], pl_channel = [0], pl_busy = [None], pl_results = [None] \<rparr>"
    by (simp add: pool_start_def)
  from pool_next [OF this receive [of 0 _ 0 "[]"]]
  have "pool_reach job 1 1 \<lparr> pl_unsent = [], pl_channel = [], pl_busy = [Some 0], pl_results = [None] \<rparr>"
    by simp
  from pool_next [OF this finish [of 0 _ 0]]
  have "pool_reach job 1 1 \<lparr> pl_unsent = [], pl_channel = [], pl_busy = [None], pl_results = [Some (job 0)] \<rparr>"
    by simp
  then show ?thesis by (intro exI conjI) (auto simp: pool_done_def)
qed

theorem pool_results_in_order_witness:
  "\<exists>p. pool_reach (\<lambda>i. i + 5) 1 1 p \<and> pl_results p = [Some 5]"
proof -
  obtain p where p: "pool_reach (\<lambda>i. i + 5 :: nat) 1 1 p" "pool_done p" using pool_run_one by blast
  with pool_results_in_order [OF p(1)] show ?thesis by auto
qed

end
