(* ===== verification/Stem_Health.thy ===== *)
theory Stem_Health
  imports Resolution Validation Component_Paths "HOL-Library.Sublist"
begin

text \<open>
  The health of the schemas themselves, \<open>internal/rules/stemhealth.go\<close>: the checks over a prospective
  state, from parse errors to monotonicity, and their report.

  The context of an evaluation is not cancelled. \<open>fuzzy.Match\<close> is the parameter \<open>fuzzy\<close>, and \<open>cwd\<close> the
  working directory.
\<close>

section \<open>Checks and diagnostics\<close>

record health_check =
  hc_name :: string
  hc_status :: string
  hc_message :: string
  hc_path :: string
  hc_field :: string

definition mk_check :: "string \<Rightarrow> string \<Rightarrow> string \<Rightarrow> string \<Rightarrow> string \<Rightarrow> health_check" where
  "mk_check name status message path field =
     \<lparr> hc_name = name, hc_status = status, hc_message = message, hc_path = path, hc_field = field \<rparr>"

definition status_severity :: "string \<Rightarrow> string" where
  "status_severity s = (if s = ''fail'' then ''error'' else if s = ''info'' then ''info'' else ''warn'')"

definition stem_health_diagnostics :: "health_check list \<Rightarrow> health_diag list" where
  "stem_health_diagnostics checks =
     map (\<lambda>c. \<lparr> hd_path = (if hc_path c = [] then ''.stem'' else hc_path c), hd_check = hc_name c,
                hd_field = hc_field c, hd_severity = status_severity (hc_status c),
                hd_message = hc_message c \<rparr>)
       (filter (\<lambda>c. hc_status c \<noteq> ''pass'') checks)"

section \<open>The stems of the state\<close>

definition stem_health_rel_path :: "string \<Rightarrow> string \<Rightarrow> string" where
  "stem_health_rel_path root path = (case path_rel root path of None \<Rightarrow> path | Some rel \<Rightarrow> rel)"

text \<open>Check 1: the parse errors, and the stems that parsed, in the order of their paths.\<close>

definition parse_failure_check :: "string \<Rightarrow> go_error \<Rightarrow> health_check" where
  "parse_failure_check rel e =
     (let (check, field, message) =
            (case stem_error_of e of
               None \<Rightarrow> (''yaml-valid'', [], error_text e)
             | Some (c, f, r) \<Rightarrow>
                 (if c \<noteq> [] then c else ''yaml-valid'', f, if r \<noteq> [] then r else error_text e))
      in mk_check (if check = ''schema-valid'' then ''schema-valid'' else ''yaml-valid'') ''fail''
           message rel field)"

definition parse_checks :: "string \<Rightarrow> stem_state \<Rightarrow> string list \<Rightarrow> health_check list" where
  "parse_checks root st paths =
     List.map_filter (\<lambda>sf.
       case map_of (ss_parse_errors st) sf of
         Some e \<Rightarrow> Some (parse_failure_check (stem_health_rel_path root sf) e)
       | None \<Rightarrow>
           (case map_of (ss_stems st) sf of
              None \<Rightarrow> None
            | Some _ \<Rightarrow> Some (mk_check ''yaml-valid'' ''pass'' [] (stem_health_rel_path root sf) []))) paths"

definition parsed_stems :: "stem_state \<Rightarrow> string list \<Rightarrow> (string \<times> stem_file) list" where
  "parsed_stems st paths =
     List.map_filter (\<lambda>sf.
       if map_of (ss_parse_errors st) sf \<noteq> None then None
       else map_option (Pair sf) (map_of (ss_stems st) sf)) paths"

text \<open>A check on each field of a stem, in the order of the names.\<close>

definition on_fields :: "schema \<Rightarrow> (string \<Rightarrow> schema_field \<Rightarrow> 'a list) \<Rightarrow> 'a list" where
  "on_fields sch f =
     concat (map (\<lambda>n. case map_of sch n of None \<Rightarrow> [] | Some fd \<Rightarrow> f n fd) (sorted_keys sch))"

definition stem_field_is_invalid :: "stem_file \<Rightarrow> string \<Rightarrow> bool" where
  "stem_field_is_invalid s name =
     (case map_of (st_schema s) name of
        None \<Rightarrow> False | Some f \<Rightarrow> validate_field_declaration name f \<noteq> [])"

definition entries_before_stem :: "stem_entry list \<Rightarrow> string \<Rightarrow> stem_entry list" where
  "entries_before_stem entries path =
     (if path \<in> set (map se_path entries) then takeWhile (\<lambda>e. se_path e \<noteq> path) entries else [])"

section \<open>The checks on one stem\<close>

text \<open>Check 2: a scope that matches nothing.\<close>

definition scope_check :: "string list \<Rightarrow> string \<Rightarrow> string \<times> stem_file \<Rightarrow> health_check list" where
  "scope_check matched root p =
     (case p of (sf, s) \<Rightarrow>
        if st_scope s = [] \<or> sf \<in> set matched then []
        else [mk_check ''scope-match'' ''warn''
                (''scope.match '' @ go_quote (st_scope s) @ '' matches no files in governed subtree'')
                (stem_health_rel_path root sf) []])"

text \<open>Check 3: types that change along the chain.\<close>

definition type_checks :: "string \<Rightarrow> stem_entry list \<Rightarrow> string \<times> stem_file \<Rightarrow> health_check list" where
  "type_checks root chain p =
     (case p of (sf, s) \<Rightarrow>
        let upper = entries_before_stem chain sf in
        if upper = [] then []
        else on_fields (st_schema s) (\<lambda>name child.
          if stem_field_is_invalid s name then []
          else case map_of (st_schema (merge_stem_files upper)) name of
              None \<Rightarrow> []
            | Some parent \<Rightarrow>
                map (\<lambda>i. mk_check ''type-consistency'' ''fail'' (ci_message i)
                           (stem_health_rel_path root sf) name)
                  (filter (\<lambda>i. ci_constraint i = ''type'') (check_field_compatibility parent child))))"

text \<open>Check 4: declarations that do not follow the type contract.\<close>

definition field_declaration_checks :: "string \<Rightarrow> string \<times> stem_file \<Rightarrow> health_check list" where
  "field_declaration_checks root p =
     (case p of (sf, s) \<Rightarrow>
        on_fields (st_schema s) (\<lambda>name field.
          map (\<lambda>i. mk_check ''field-declaration'' ''fail'' (is_code i @ '': '' @ is_message i)
                     (case path_rel root sf of None \<Rightarrow> [] | Some rel \<Rightarrow> rel) name)
            (validate_field_declaration name field)))"

text \<open>Check 5: rules on fields that no schema declares.\<close>

definition rule_field_checks :: "string \<Rightarrow> stem_entry list \<Rightarrow> string \<times> stem_file \<Rightarrow> health_check list" where
  "rule_field_checks root chain p =
     (case p of (sf, s) \<Rightarrow>
        List.map_filter (\<lambda>r.
          if vr_field r \<noteq> [] \<and> \<not> has_key (st_schema (merge_stem_files chain)) (vr_field r)
          then Some (mk_check ''rule-field-exists'' ''warn''
                 (''validation rule references field '' @ go_quote (vr_field r) @ '' not in schema'')
                 (stem_health_rel_path root sf) (vr_field r))
          else None) (st_validate s))"

text \<open>Check 6: an override that is neither a narrowing nor a conflict.\<close>

definition valid_narrowing_override :: "schema_field \<Rightarrow> schema_field \<Rightarrow> bool" where
  "valid_narrowing_override parent child =
     (check_field_compatibility parent child = [] \<and>
      (sf_type parent = ''string'' \<and> sf_type child = ''enum'' \<or>
       sf_type parent = ''enum'' \<and> sf_type child = ''enum'' \<and> sf_values child \<noteq> [] \<and> sf_values parent \<noteq> []))"

definition override_checks :: "string \<Rightarrow> stem_entry list \<Rightarrow> string \<times> stem_file \<Rightarrow> health_check list" where
  "override_checks root chain p =
     (case p of (sf, s) \<Rightarrow>
        let upper = entries_before_stem chain sf in
        if upper = [] then []
        else on_fields (st_schema s) (\<lambda>name child.
          case map_of (st_schema (merge_stem_files upper)) name of
            None \<Rightarrow> []
          | Some parent \<Rightarrow>
              if valid_narrowing_override parent child \<or> check_field_compatibility parent child \<noteq> [] then []
              else [mk_check ''field-override'' ''warn''
                      (''field '' @ go_quote name @ '' overrides parent definition'')
                      (stem_health_rel_path root sf) name]))"

text \<open>Check 7: required fields that are aggregated.\<close>

definition aggregated_required_checks :: "string \<Rightarrow> string \<times> stem_file \<Rightarrow> health_check list" where
  "aggregated_required_checks root p =
     (case p of (sf, s) \<Rightarrow>
        on_fields (st_schema s) (\<lambda>name f.
          if sf_required f \<and> has_key (st_aggregate s) name
          then [mk_check ''aggregated-required'' ''warn''
                  (''field '' @ go_quote name @
                   '' is required but also has an aggregate expression; required is auto-skipped on '' @
                   ''index files '' @ em_dash @ '' consider removing required or using excludes'')
                  (stem_health_rel_path root sf) name]
          else []))"

text \<open>Check 8: enum values an aggregate formula does not mention, by the quoted strings of its text.\<close>

fun quoted_strings :: "string \<Rightarrow> string option \<Rightarrow> string list" where
  "quoted_strings [] cur = []"
| "quoted_strings (c # cs) None =
     (if c = CHR 0x22 then quoted_strings cs (Some []) else quoted_strings cs None)"
| "quoted_strings (c # cs) (Some s) =
     (if c = CHR 0x22 then rev s # quoted_strings cs None else quoted_strings cs (Some (c # s)))"

definition coverage_checks :: "string \<Rightarrow> stem_entry list \<Rightarrow> string \<times> stem_file \<Rightarrow> health_check list" where
  "coverage_checks root chain p =
     (case p of (sf, s) \<Rightarrow>
        concat (map (\<lambda>name.
          case (map_of (st_aggregate s) name, map_of (st_schema (merge_stem_files chain)) name) of
            (Some (VStr expr), Some f) \<Rightarrow>
              if sf_type f \<noteq> ''enum'' \<or> sf_values f = [] then []
              else
                let missing = filter (\<lambda>v. v \<notin> set (quoted_strings expr None)) (sf_values f) in
                if missing = [] then []
                else [mk_check ''aggregate-formula-coverage'' ''warn''
                        (''aggregate formula for '' @ go_quote name @
                         '' does not reference enum value(s): '' @ join_with '', '' missing)
                        (stem_health_rel_path root sf) name]
          | _ \<Rightarrow> []) (sorted_keys (st_aggregate s))))"

section \<open>Monotonicity\<close>

definition monotonic_suffixes :: "string list" where
  "monotonic_suffixes = [''type'', ''source'', ''required'', ''severity'', ''values'']"

definition monotonic_field :: "string \<Rightarrow> string \<times> string" where
  "monotonic_field path =
     (case last_index_char path (CHR ''.'') of
        None \<Rightarrow> (path, [])
      | Some i \<Rightarrow>
          if i = 0 then (path, [])
          else let suffix = drop (i + 1) path in
            if suffix \<in> set monotonic_suffixes then (take i path, suffix) else (path, []))"

definition monotonic_conflict_is_type :: "layer_constraint \<Rightarrow> bool" where
  "monotonic_conflict_is_type c = (snd (monotonic_field (ly_field c)) = ''type'')"

fun fmt_layer :: "layer_value \<Rightarrow> string" where
  "fmt_layer (LType s) = s"
| "fmt_layer (LBool b) = fmt_v (VBool b)"
| "fmt_layer (LStrings xs) = fmt_strs xs"
| "fmt_layer (LInt i) = itoa i"
| "fmt_layer (LVal v) = fmt_v v"
| "fmt_layer (LMatch m) = []"

definition monotonic_violation :: "layer_constraint \<Rightarrow> string \<times> string" where
  "monotonic_violation c =
     (let (field, constraint) = monotonic_field (ly_field c); v = fmt_layer (ly_value c);
          f = ''field '' @ go_quote field
      in (field,
          if ly_operation c = ''extension'' then f @ '': enum extended with disallowed value(s): '' @ v
          else if ly_operation c \<noteq> ''conflict'' then
            f @ '': '' @ ly_operation c @ '' violation at '' @ ly_field c
          else if constraint = ''type'' then f @ '' widens type: '' @ v
          else if constraint = ''source'' then f @ '' changes source: '' @ v
          else if constraint = ''required'' then f @ '' loosens required: '' @ v
          else if constraint = ''severity'' then f @ '' loosens severity: '' @ v
          else if constraint = ''values'' then f @ '' narrows enum incompatibly: '' @ v
          else ''constraint '' @ go_quote field @ '' loosens the parent constraint: '' @ v))"

definition conflict_identity :: "layer_constraint \<Rightarrow> string \<times> string \<times> string" where
  "conflict_identity c = (ly_stem_path c, ly_field c, ly_operation c)"

text \<open>The first conflict of each identity.\<close>

fun first_conflicts ::
  "(string \<times> string \<times> string) list \<Rightarrow> layer_constraint list \<Rightarrow> layer_constraint list" where
  "first_conflicts seen [] = []"
| "first_conflicts seen (c # cs) =
     (if conflict_identity c \<in> set seen then first_conflicts seen cs
      else c # first_conflicts (conflict_identity c # seen) cs)"

text \<open>The conflicts a stem owns that this check reports.\<close>

definition owned_conflicts :: "stem_entry list \<Rightarrow> string \<times> stem_file \<Rightarrow> layer_constraint list" where
  "owned_conflicts chain p =
     (case p of (sf, s) \<Rightarrow>
        (case resolve_layered_from_entries (path_dir sf) chain of
           Inl _ \<Rightarrow> []
         | Inr lr \<Rightarrow>
             filter (\<lambda>c. ly_stem_path c = sf \<and> \<not> monotonic_conflict_is_type c \<and>
                         \<not> stem_field_is_invalid s (fst (monotonic_field (ly_field c)))) (lr_conflicts lr)))"

definition monotonic_checks ::
  "string \<Rightarrow> (string \<Rightarrow> stem_entry list) \<Rightarrow> (string \<times> stem_file) list \<Rightarrow> health_check list" where
  "monotonic_checks root chain_of parsed =
     map (\<lambda>c. mk_check ''monotonic-violations'' ''fail'' (snd (monotonic_violation c))
                (stem_health_rel_path root (ly_stem_path c)) (fst (monotonic_violation c)))
       (first_conflicts [] (concat (map (\<lambda>p. owned_conflicts (chain_of (fst p)) p) parsed)))"

section \<open>Link keys and nested roots\<close>

definition known_check_keys :: "string list" where
  "known_check_keys = [''resolve'', ''anchors'', ''encoding'', ''cycles'']"

definition known_link_rule_keys :: "string list" where
  "known_link_rule_keys = [''target'', ''field'', ''value_field'']"

definition suggest_key :: "(string \<Rightarrow> string list \<Rightarrow> string) \<Rightarrow> string \<Rightarrow> string list \<Rightarrow> string" where
  "suggest_key fuzzy key known =
     (let m = fuzzy key known in if m \<noteq> [] then '' (did you mean '' @ go_quote m @ ''?)'' else [])"

definition unknown_check_key_checks ::
  "(string \<Rightarrow> string list \<Rightarrow> string) \<Rightarrow> string \<Rightarrow> string \<times> stem_file \<Rightarrow> health_check list" where
  "unknown_check_key_checks fuzzy root p =
     (case p of (sf, s) \<Rightarrow>
        map (\<lambda>key. mk_check ''unknown-check-keys'' ''warn''
               (''unknown key '' @ go_quote key @ '' in links.checks'' @ suggest_key fuzzy key known_check_keys)
               (stem_health_rel_path root sf) key)
          (ls_unknown_check_keys (st_links s)))"

definition unknown_rule_key_checks ::
  "(string \<Rightarrow> string list \<Rightarrow> string) \<Rightarrow> string \<Rightarrow> string \<times> stem_file \<Rightarrow> health_check list" where
  "unknown_rule_key_checks fuzzy root p =
     (case p of (sf, s) \<Rightarrow>
        map (\<lambda>(ty, key). mk_check ''unknown-link-rule-keys'' ''warn''
               (''unknown key '' @ go_quote key @ '' in links.'' @ ty @ suggest_key fuzzy key known_link_rule_keys)
               (stem_health_rel_path root sf) key)
          (ls_unknown_rule_keys (st_links s)))"

text \<open>The closest ancestor of a directory whose stem is a root.\<close>

function ancestor_root :: "(string \<times> stem_file) list \<Rightarrow> string \<Rightarrow> string option" where
  "ancestor_root stems current =
     (let parent = path_dir current in
      if parent = current then None
      else case map_of stems (stem_path_of parent) of
          Some s \<Rightarrow> if st_root s then Some (stem_path_of parent) else ancestor_root stems parent
        | None \<Rightarrow> ancestor_root stems parent)"
  by pat_completeness auto
termination by (relation "measure (\<lambda>(s, d). up_measure d)") (auto intro: path_dir_measure)

declare ancestor_root.simps [simp del]

definition nested_root_check ::
  "(string \<times> stem_file) list \<Rightarrow> string \<Rightarrow> string \<times> stem_file \<Rightarrow> health_check list" where
  "nested_root_check stems root p =
     (case p of (sf, s) \<Rightarrow>
        if \<not> st_root s then []
        else case ancestor_root stems (path_dir sf) of
            None \<Rightarrow> []
          | Some a \<Rightarrow>
              [mk_check ''nested-root-marker'' ''info''
                 (stem_health_rel_path root sf @ '' declares root: true, so records below it do not inherit '' @
                  stem_health_rel_path root a)
                 (stem_health_rel_path root sf) []])"

section \<open>The report\<close>

definition check_key :: "health_check \<Rightarrow> string list" where
  "check_key c = [hc_path c, hc_name c, hc_field c, hc_status c, hc_message c]"

definition all_checks ::
  "(string \<Rightarrow> string list \<Rightarrow> string) \<Rightarrow> string \<Rightarrow> stem_state \<Rightarrow> health_check list" where
  "all_checks fuzzy cwd st =
     (let root = path_clean (ss_root st); paths = evaluated_stem_paths st;
          parsed = parsed_stems st paths;
          chain_of = (\<lambda>sf. state_chain cwd st (path_dir sf));
          each = (\<lambda>f. concat (map f parsed))
      in (if paths = [] then [mk_check ''stem-files-exist'' ''warn'' ''no .stem files found'' [] []] else []) @
         parse_checks root st paths @
         each (scope_check (effective_scope_matches cwd st) root) @
         each (\<lambda>p. type_checks root (chain_of (fst p)) p) @
         each (field_declaration_checks root) @
         each (\<lambda>p. rule_field_checks root (chain_of (fst p)) p) @
         each (\<lambda>p. override_checks root (chain_of (fst p)) p) @
         each (aggregated_required_checks root) @
         each (\<lambda>p. coverage_checks root (chain_of (fst p)) p) @
         monotonic_checks root chain_of parsed @
         each (unknown_check_key_checks fuzzy root) @
         each (unknown_rule_key_checks fuzzy root) @
         each (nested_root_check (ss_stems st) root))"

text \<open>The order of the five keys; checks with equal keys are equal.\<close>

definition evaluate_stem_state ::
  "(string \<Rightarrow> string list \<Rightarrow> string) \<Rightarrow> string \<Rightarrow> stem_state \<Rightarrow> health_check list" where
  "evaluate_stem_state fuzzy cwd st = sort_key check_key (all_checks fuzzy cwd st)"

section \<open>Chains by their directories\<close>

lemma clean_abs_comps:
  assumes "is_abs p"
  shows "\<exists>cs. list_all plain_name cs \<and> path_clean p = abs_path cs"
proof (intro exI conjI)
  let ?cs = "clean_comps True (path_comps p)"
  from clean_comps_shape [of True "path_comps p"] have "''..'' \<notin> set ?cs" "''.'' \<notin> set ?cs"
    by (auto simp: clean_shape_def)
  moreover have "plain_comps ?cs" by (simp add: plain_clean_comps)
  ultimately show "list_all plain_name ?cs"
    by (auto simp: list_all_iff plain_name_def plain_comps_def)
  show "path_clean p = abs_path ?cs"
    using assms by (simp add: path_clean_def abs_path_def Let_def)
qed

lemma plain_stem_name [simp]: "plain_name stem_name"
  by (simp add: plain_name_def)

lemma stem_path_comps: "list_all plain_name cs \<Longrightarrow> stem_path_of (abs_path cs) = abs_path (cs @ [stem_name])"
  by (simp add: stem_path_of_def path_join_abs_path)

lemma dir_of_stem: "list_all plain_name cs \<Longrightarrow> path_dir (stem_path_of (abs_path cs)) = abs_path cs"
  by (simp add: stem_path_comps path_dir_abs_path)

text \<open>The entries of a chain by the directories that hold them: what a chain shows from one of its
  entries on is the chain of that entry's directory.\<close>

definition dir_entry :: "(string \<times> stem_file) list \<Rightarrow> string list \<Rightarrow> stem_entry \<Rightarrow> bool" where
  "dir_entry stems ds e \<longleftrightarrow>
     (\<exists>s. map_of stems (stem_path_of (abs_path ds)) = Some s \<and> e = entry_of (abs_path ds) s)"

lemma chain_decomp:
  "list_all plain_name cs \<Longrightarrow> chain_loop stems (abs_path cs) = pre @ e # post \<Longrightarrow>
     \<exists>ds. prefix ds cs \<and> list_all plain_name ds \<and> dir_entry stems ds e \<and>
       chain_loop stems (abs_path ds) = e # post"
proof (induction cs arbitrary: pre rule: rev_induct)
  case Nil
  from Nil.prems(2) have l: "entry_if (abs_path []) (map_of stems (stem_path_of (abs_path []))) = pre @ e # post"
    using chain_walk.collect_stop [where dir = "abs_path []" and stems = stems] by simp
  then have "pre = []" by (cases "map_of stems (stem_path_of (abs_path []))"; cases pre) (auto simp: entry_if_def)
  with l Nil show ?case
    by (intro exI [of _ "[]"]) (auto simp: dir_entry_def entry_if_def split: option.splits)
next
  case (snoc n cs)
  let ?d = "abs_path (cs @ [n])" and ?f = "map_of stems (stem_path_of (abs_path (cs @ [n])))"
  have plain: "list_all plain_name cs" "plain_name n" using snoc.prems(1) by simp_all
  have up: "path_dir ?d = abs_path cs" by (rule path_dir_abs_path [OF plain])
  show ?case
  proof (cases "pre = []")
    case True
    with snoc.prems have "chain_loop stems ?d = e # post" by simp
    moreover from this have "dir_entry stems (cs @ [n]) e \<or> ?f = None"
      by (subst (asm) chain_loop.simps) (auto simp: dir_entry_def split: option.splits)
    moreover have "?f = None \<Longrightarrow> chain_loop stems ?d = [] \<or> chain_loop stems (abs_path cs) = e # post"
      using calculation(1) by (subst (asm) chain_loop.simps) (simp add: up split: if_splits)
    ultimately consider "dir_entry stems (cs @ [n]) e" "chain_loop stems ?d = e # post"
      | "chain_loop stems (abs_path cs) = [] @ e # post" by auto
    then show ?thesis
    proof cases
      case 1
      with snoc.prems(1) show ?thesis by blast
    next
      case 2
      from snoc.IH [OF plain(1) 2] show ?thesis by (blast intro: prefix_prefix)
    qed
  next
    case False
    from snoc.prems(2) have "\<exists>pre'. chain_loop stems (abs_path cs) = pre' @ e # post"
      using False by (subst (asm) chain_loop.simps)
        (auto simp: up Cons_eq_append_conv split: option.splits if_splits)
    with snoc.IH [OF plain(1)] show ?thesis by (blast intro: prefix_prefix)
  qed
qed

lemma chain_paths_distinct:
  "list_all plain_name cs \<Longrightarrow> distinct (map se_path (chain_loop stems (abs_path cs)))"
proof (induction "chain_loop stems (abs_path cs)" arbitrary: cs)
  case (Cons e post)
  from chain_decomp [OF Cons.prems, of stems "[]" e post] Cons.hyps(2) obtain ds where
    ds: "list_all plain_name ds" "dir_entry stems ds e" "chain_loop stems (abs_path ds) = e # post"
    by auto
  show ?case
  proof (cases "post = []")
    case True
    with Cons.hyps(2) show ?thesis by (simp flip: Cons.hyps(2))
  next
    case False
    have nr: "ds \<noteq> []"
    proof
      assume "ds = []"
      with ds(3) False show False
        using chain_walk.collect_stop [where dir = "abs_path []" and stems = stems]
        by (auto simp: entry_if_def split: option.splits)
    qed
    then have bd: "list_all plain_name (butlast ds)" "plain_name (last ds)" "ds = butlast ds @ [last ds]"
      using ds(1) by (auto simp: list_all_iff dest: in_set_butlastD)
    have post: "chain_loop stems (abs_path (butlast ds)) = post"
      using ds(2,3) False path_dir_abs_path [OF bd(1,2)] bd(3)
      by (subst (asm) chain_loop.simps) (auto simp: dir_entry_def split: if_splits)
    have "se_path e \<notin> se_path ` set post"
    proof
      assume "se_path e \<in> se_path ` set post"
      then obtain e' p q where e': "post = p @ e' # q" "se_path e' = se_path e"
        by (auto dest: split_list)
      from chain_decomp [OF bd(1), of stems p e' q] post e'(1) obtain es where
        es: "prefix es (butlast ds)" "list_all plain_name es" "dir_entry stems es e'" by auto
      from ds(1,2) es(2,3) e'(2) have "es = ds"
        by (auto simp: dir_entry_def entry_of_def stem_path_comps abs_path_inj)
      with es(1) have "prefix ds (butlast ds)" by simp
      from prefix_length_le [OF this] have "length ds \<le> length ds - 1" by (simp only: length_butlast)
      moreover from nr have "0 < length ds" by simp
      ultimately show False by linarith
    qed
    with Cons.hyps(1) [OF post [symmetric] bd(1)] post Cons.hyps(2) show ?thesis
      by (simp flip: Cons.hyps(2))
  qed
qed (simp flip: Nil)

section \<open>What the report covers\<close>

lemma chain_conflicts_owner:
  "c \<in> set (chain_conflicts pre es) \<Longrightarrow>
     \<exists>b e a. es = b @ e # a \<and> pre @ b \<noteq> [] \<and> ly_stem_path c = se_path e \<and>
       c \<in> set (monotonic_conflicts (merge_stem_files (pre @ b)) (se_stem e) (se_path e)) \<union>
            set (structural_conflicts (merge_stem_files (pre @ b)) (se_stem e) (se_path e))"
proof (induction es arbitrary: pre)
  case (Cons x es)
  show ?case
  proof (cases "c \<in> set (chain_conflicts (pre @ [x]) es)")
    case True
    from Cons.IH [OF this] obtain b e a where
      "es = b @ e # a" "ly_stem_path c = se_path e"
      "c \<in> set (monotonic_conflicts (merge_stem_files (pre @ x # b)) (se_stem e) (se_path e)) \<union>
            set (structural_conflicts (merge_stem_files (pre @ x # b)) (se_stem e) (se_path e))" by auto
    then show ?thesis by (intro exI [of _ "x # b"] exI [of _ e] exI [of _ a]) simp
  next
    case False
    with Cons.prems show ?thesis
      by (intro exI [of _ "[]"] exI [of _ x] exI [of _ es])
        (auto simp: monotonic_conflicts_def structural_conflicts_def issue_layer_def mk_layer_def Let_def
          split: if_splits option.splits)
  qed
qed simp

lemma chain_conflicts_of_entry:
  "pre @ b \<noteq> [] \<Longrightarrow>
   set (monotonic_conflicts (merge_stem_files (pre @ b)) (se_stem e) (se_path e)) \<union>
     set (structural_conflicts (merge_stem_files (pre @ b)) (se_stem e) (se_path e)) \<subseteq>
   set (chain_conflicts pre (b @ e # a))"
proof (induction b arbitrary: pre)
  case (Cons x b)
  from Cons.IH [of "pre @ [x]"] show ?case by auto
qed auto

lemma layered_conflicts:
  "resolve_layered_from_entries path es = Inr lr \<Longrightarrow> lr_conflicts lr = chain_conflicts [] es"
  by (auto simp: resolve_layered_from_entries_def resolve_from_entries_def Let_def
      split: sum.splits if_splits)

lemma first_conflicts_represents:
  "c \<in> set cs \<Longrightarrow> conflict_identity c \<notin> set seen \<Longrightarrow>
     \<exists>c' \<in> set (first_conflicts seen cs). conflict_identity c' = conflict_identity c"
proof (induction seen cs rule: first_conflicts.induct)
  case (2 seen x cs)
  show ?case
  proof (cases "conflict_identity x = conflict_identity c")
    case True
    with 2 show ?thesis by auto
  next
    case False
    with 2 show ?thesis by auto
  qed
qed simp

lemma entries_before_split:
  assumes "distinct (map se_path (b @ e # a))"
  shows "entries_before_stem (b @ e # a) (se_path e) = b"
proof -
  have "\<forall>x \<in> set b. se_path x \<noteq> se_path e" using assms by (auto simp: image_iff)
  then have "takeWhile (\<lambda>x. se_path x \<noteq> se_path e) (b @ e # a) = b"
    by (subst takeWhile_append2) auto
  then show ?thesis by (simp add: entries_before_stem_def)
qed

lemma on_fieldsI:
  "map_of sch n = Some f \<Longrightarrow> x \<in> set (g n f) \<Longrightarrow> x \<in> set (on_fields sch g)"
  by (auto simp: on_fields_def intro!: bexI [of _ n])

lemma last_index_char_snoc:
  "z \<notin> set b \<Longrightarrow> last_index_char (a @ z # b) z = Some (length a)"
  by (simp add: last_index_char_def index_of_char_append)

lemma compat_constraints:
  assumes "i \<in> set (check_field_compatibility p c)"
  shows "ci_constraint i \<in> set monotonic_suffixes"
proof -
  consider "check_field_source p c = Some i" | "check_field_type p c = Some i"
    | "check_field_values p c = Some i" | "check_field_required p c = Some i"
    | "check_field_severity p c = Some i"
    using assms by (auto simp: check_field_compatibility_def opt_to_list_def split: option.splits)
  then show ?thesis
  proof cases
    case 1
    then have "ci_constraint i = ''source''"
      by (auto simp: check_field_source_def Let_def split: if_splits option.splits)
    then show ?thesis by (simp add: monotonic_suffixes_def)
  next
    case 2
    then have "ci_constraint i = ''type''"
      by (auto simp: check_field_type_def Let_def split: if_splits option.splits)
    then show ?thesis by (simp add: monotonic_suffixes_def)
  next
    case 3
    then have "ci_constraint i = ''values''"
      by (auto simp: check_field_values_def Let_def split: if_splits option.splits)
    then show ?thesis by (simp add: monotonic_suffixes_def)
  next
    case 4
    then have "ci_constraint i = ''required''"
      by (auto simp: check_field_required_def Let_def split: if_splits option.splits)
    then show ?thesis by (simp add: monotonic_suffixes_def)
  next
    case 5
    then have "ci_constraint i = ''severity''"
      by (auto simp: check_field_severity_def Let_def split: if_splits option.splits)
    then show ?thesis by (simp add: monotonic_suffixes_def)
  qed
qed

lemma monotonic_field_path:
  "name \<noteq> [] \<Longrightarrow> k \<in> set monotonic_suffixes \<Longrightarrow> monotonic_field (name @ ''.'' @ k) = (name, k)"
  by (subgoal_tac "CHR ''.'' \<notin> set k")
    (auto simp: monotonic_field_def last_index_char_snoc monotonic_suffixes_def)

lemma parsed_stems_iff:
  "(sf, s) \<in> set (parsed_stems st paths) \<longleftrightarrow>
     sf \<in> set paths \<and> map_of (ss_parse_errors st) sf = None \<and> map_of (ss_stems st) sf = Some s"
  by (force simp: parsed_stems_def map_filter_def split: if_splits option.splits)

lemma violation_field: "fst (monotonic_violation c) = fst (monotonic_field (ly_field c))"
  unfolding monotonic_violation_def Let_def by (simp only: case_prod_beta fst_conv)

lemma invalid_field_reported:
  assumes "stem_field_is_invalid s name" "path_rel root sf = Some rel"
  shows "\<exists>h \<in> set (field_declaration_checks root (sf, s)).
    hc_status h = ''fail'' \<and> hc_path h = rel \<and> hc_field h = name"
proof -
  obtain f i rest where "map_of (st_schema s) name = Some f" "validate_field_declaration name f = i # rest"
    using assms(1) by (auto simp: stem_field_is_invalid_def neq_Nil_conv split: option.splits)
  then show ?thesis using assms(2)
    unfolding field_declaration_checks_def
    by (auto intro!: bexI [rotated] on_fieldsI [where n = name and f = f] simp: mk_check_def)
qed

lemma type_conflict_reported:
  assumes "c \<in> set (monotonic_conflicts (merge_stem_files b) s sf)" "monotonic_conflict_is_type c"
    and "\<not> stem_field_is_invalid s (fst (monotonic_field (ly_field c)))"
    and "entries_before_stem chain sf = b" "b \<noteq> []" "path_rel root sf = Some rel"
  shows "\<exists>h \<in> set (type_checks root chain (sf, s)).
    hc_status h = ''fail'' \<and> hc_path h = rel \<and> hc_field h = fst (monotonic_field (ly_field c))"
proof -
  obtain name cf pf i where f: "map_of (st_schema s) name = Some cf"
      "map_of (st_schema (merge_stem_files b)) name = Some pf"
      "i \<in> set (check_field_compatibility pf cf)" "c = issue_layer sf name i"
    using assms(1) by (auto simp: monotonic_conflicts_def dest!: sym [of "Some _"] split: option.splits)
  from compat_constraints [OF f(3)] have k: "ci_constraint i \<in> set monotonic_suffixes" .
  have lf: "ly_field c = name @ ''.'' @ ci_constraint i"
    by (simp add: f(4) issue_layer_def mk_layer_def)
  have "name \<noteq> []"
  proof
    assume "name = []"
    with lf k have "monotonic_field (ly_field c) = (ly_field c, [])"
      using last_index_char_snoc [of "CHR ''.''" "ci_constraint i" "[]"]
      by (auto simp: monotonic_field_def monotonic_suffixes_def)
    with assms(2) show False by (simp add: monotonic_conflict_is_type_def)
  qed
  with k lf have mf: "monotonic_field (ly_field c) = (name, ci_constraint i)"
    using monotonic_field_path by simp
  with assms(2) have ty: "ci_constraint i = ''type''" by (simp add: monotonic_conflict_is_type_def)
  let ?h = "mk_check ''type-consistency'' ''fail'' (ci_message i) rel name"
  have "?h \<in> set (type_checks root chain (sf, s))"
    unfolding type_checks_def
    using assms(3-6) f(2,3) mf ty
    by (auto simp: Let_def stem_health_rel_path_def intro!: on_fieldsI [OF f(1)])
  then show ?thesis using mf by (intro bexI [of _ ?h]) (simp_all add: mk_check_def)
qed

lemma owned_conflict_reported:
  assumes "(sf, s) \<in> set parsed" "c \<in> set (owned_conflicts (chain_of sf) (sf, s))" "path_rel root sf = Some rel"
  shows "\<exists>h \<in> set (monotonic_checks root chain_of parsed).
    hc_status h = ''fail'' \<and> hc_path h = rel \<and> hc_field h = fst (monotonic_field (ly_field c))"
proof -
  have "c \<in> set (concat (map (\<lambda>p. owned_conflicts (chain_of (fst p)) p) parsed))"
    using assms(1,2) by force
  from first_conflicts_represents [OF this, of "[]"] obtain c' where
    c': "c' \<in> set (first_conflicts [] (concat (map (\<lambda>p. owned_conflicts (chain_of (fst p)) p) parsed)))"
      "ly_stem_path c' = ly_stem_path c" "ly_field c' = ly_field c"
    by (auto simp: conflict_identity_def)
  have "ly_stem_path c = sf" using assms(2) by (auto simp: owned_conflicts_def split: sum.splits)
  let ?h = "\<lambda>c. mk_check ''monotonic-violations'' ''fail'' (snd (monotonic_violation c))
    (stem_health_rel_path root (ly_stem_path c)) (fst (monotonic_violation c))"
  have "?h c' \<in> set (monotonic_checks root chain_of parsed)"
    unfolding monotonic_checks_def set_map using c'(1) by (rule imageI)
  moreover have "hc_path (?h c') = rel"
    using c'(2) \<open>ly_stem_path c = sf\<close> assms(3) by (simp add: mk_check_def stem_health_rel_path_def)
  moreover have "hc_field (?h c') = fst (monotonic_field (ly_field c))"
    using c'(3) by (simp add: mk_check_def violation_field)
  moreover have "hc_status (?h c') = ''fail''" by (simp add: mk_check_def)
  ultimately show ?thesis by blast
qed

lemma structural_not_type:
  "snd (monotonic_field ''structural.subdirs.min_children'') = []"
  "snd (monotonic_field ''structural.subdirs.max_children'') = []"
  by code_simp+

lemma is_abs_append: "is_abs p \<Longrightarrow> is_abs (p @ q)"
  by (cases p) (simp_all add: is_abs_iff)

lemma structural_conflict_not_type:
  assumes "c \<in> set (structural_conflicts p s path)"
  shows "\<not> monotonic_conflict_is_type c"
proof -
  have "ly_field c \<in> {''structural.subdirs.min_children'', ''structural.subdirs.max_children''}"
    using assms
    by (simp add: structural_conflicts_def mk_layer_def Let_def split: if_splits) (elim disjE conjE; simp)+
  with structural_not_type show ?thesis by (auto simp: monotonic_conflict_is_type_def)
qed

lemma state_chain_comps:
  assumes "is_abs cwd"
  shows "\<exists>cs. list_all plain_name cs \<and> state_start_dir cwd st path = abs_path cs"
proof -
  have "is_abs (path_abs cwd path)"
    using assms is_abs_append [OF assms] is_abs_iff [of cwd] by (simp add: path_abs_def path_join_def)
  from clean_abs_comps [OF this] obtain cs where
    cs: "list_all plain_name cs" "path_clean (path_abs cwd path) = abs_path cs" by blast
  have "\<exists>ds. list_all plain_name ds \<and> path_dir (abs_path cs) = abs_path ds"
  proof (cases cs rule: rev_cases)
    case (snoc ds d)
    with cs(1) show ?thesis using path_dir_abs_path [of ds d] by auto
  qed (auto intro: exI [of _ "[]"])
  with cs show ?thesis by (auto simp: state_start_dir_def Let_def split: option.splits)
qed

lemma chain_at_owner:
  assumes "is_abs cwd" "state_chain cwd st path = b @ e # a"
    and "state_start_dir cwd st (path_dir (se_path e)) = path_dir (se_path e)"
  shows "state_chain cwd st (path_dir (se_path e)) = b @ [e]" "distinct (map se_path (b @ [e]))"
    "map_of (ss_stems st) (se_path e) = Some (se_stem e)"
proof -
  obtain cs where cs: "list_all plain_name cs" "state_start_dir cwd st path = abs_path cs"
    using state_chain_comps [OF assms(1)] by blast
  have l: "chain_loop (ss_stems st) (abs_path cs) = rev a @ e # rev b"
    using assms(2) cs(2) by (simp add: state_chain_def rev_swap)
  from chain_decomp [OF cs(1) l] obtain ds where
    ds: "list_all plain_name ds" "dir_entry (ss_stems st) ds e"
      "chain_loop (ss_stems st) (abs_path ds) = e # rev b" by blast
  have dir: "path_dir (se_path e) = abs_path ds"
    using ds(1,2) by (auto simp: dir_entry_def entry_of_def dir_of_stem)
  show chain: "state_chain cwd st (path_dir (se_path e)) = b @ [e]"
    unfolding state_chain_def assms(3) unfolding dir ds(3) by simp
  show "distinct (map se_path (b @ [e]))"
    using chain_paths_distinct [OF ds(1), of "ss_stems st"] ds(3)
    by (simp add: image_Un) (simp flip: rev_map)
  show "map_of (ss_stems st) (se_path e) = Some (se_stem e)"
    using ds(2) by (auto simp: dir_entry_def entry_of_def)
qed

lemma all_checks_parts:
  assumes "(sf, s) \<in> set (parsed_stems st (evaluated_stem_paths st))" "root = path_clean (ss_root st)"
  shows "set (type_checks root (state_chain cwd st (path_dir sf)) (sf, s)) \<subseteq> set (all_checks fuzzy cwd st)"
    and "set (field_declaration_checks root (sf, s)) \<subseteq> set (all_checks fuzzy cwd st)"
    and "set (monotonic_checks root (\<lambda>sf. state_chain cwd st (path_dir sf))
           (parsed_stems st (evaluated_stem_paths st))) \<subseteq> set (all_checks fuzzy cwd st)"
proof -
  let ?each = "\<lambda>f. set (concat (map f (parsed_stems st (evaluated_stem_paths st))))"
  have each: "set (f (sf, s)) \<subseteq> ?each f" for f :: "string \<times> stem_file \<Rightarrow> health_check list"
    using assms(1) by auto
  have parts: "?each (\<lambda>p. type_checks root (state_chain cwd st (path_dir (fst p))) p) \<subseteq> set (all_checks fuzzy cwd st)"
    "?each (field_declaration_checks root) \<subseteq> set (all_checks fuzzy cwd st)"
    unfolding all_checks_def Let_def set_append assms(2) by blast+
  show "set (type_checks root (state_chain cwd st (path_dir sf)) (sf, s)) \<subseteq> set (all_checks fuzzy cwd st)"
    using each [of "\<lambda>p. type_checks root (state_chain cwd st (path_dir (fst p))) p"] parts(1) by simp
  show "set (field_declaration_checks root (sf, s)) \<subseteq> set (all_checks fuzzy cwd st)"
    using each [of "field_declaration_checks root"] parts(2) by simp
  show "set (monotonic_checks root (\<lambda>sf. state_chain cwd st (path_dir sf))
      (parsed_stems st (evaluated_stem_paths st))) \<subseteq> set (all_checks fuzzy cwd st)"
    unfolding all_checks_def Let_def set_append assms(2) by blast
qed

text \<open>C25: The health report misses no conflict of the chains: whenever the layered resolution of some
  path finds a conflict, owned by a stem of the evaluated set that parsed and whose directory the state
  knows, the report of the state has a failing check at that stem's path for the field of the conflict,
  whichever of the type, declaration and monotonicity checks takes it, provided the stem's own
  directory resolves.\<close>

theorem health_reports_every_conflict:
  assumes "is_abs cwd"
    and "resolve_layered_from_entries path (state_chain cwd st path) = Inr lr" "c \<in> set (lr_conflicts lr)"
    and "ly_stem_path c \<in> set (evaluated_stem_paths st)" "map_of (ss_parse_errors st) (ly_stem_path c) = None"
    and "state_start_dir cwd st (path_dir (ly_stem_path c)) = path_dir (ly_stem_path c)"
    and "resolve_layered_from_entries (path_dir (ly_stem_path c))
           (state_chain cwd st (path_dir (ly_stem_path c))) = Inr lr'"
    and "path_rel (path_clean (ss_root st)) (ly_stem_path c) = Some rel"
  shows "\<exists>h. h \<in> set (evaluate_stem_state fuzzy cwd st) \<and> hc_status h = ''fail'' \<and>
           hc_path h = rel \<and> hc_field h = fst (monotonic_field (ly_field c))"
proof -
  let ?root = "path_clean (ss_root st)" and ?parsed = "parsed_stems st (evaluated_stem_paths st)"
  let ?chain = "\<lambda>sf. state_chain cwd st (path_dir sf)"
  have cc: "c \<in> set (chain_conflicts [] (state_chain cwd st path))"
    using assms(3) layered_conflicts [OF assms(2)] by simp
  from chain_conflicts_owner [OF cc] obtain b e a where
    e: "state_chain cwd st path = b @ e # a" "b \<noteq> []" "ly_stem_path c = se_path e"
      "c \<in> set (monotonic_conflicts (merge_stem_files b) (se_stem e) (se_path e)) \<union>
           set (structural_conflicts (merge_stem_files b) (se_stem e) (se_path e))" by auto
  note own = chain_at_owner [OF assms(1) e(1) assms(6) [unfolded e(3)]]
  have p: "(se_path e, se_stem e) \<in> set ?parsed"
    using assms(4,5) own(3) e(3) by (simp add: parsed_stems_iff)
  have upper: "entries_before_stem (?chain (se_path e)) (se_path e) = b"
    unfolding own(1) by (rule entries_before_split) (use own(2) in simp)
  have rel: "path_rel ?root (se_path e) = Some rel" using assms(8) e(3) by simp
  have all: "set (evaluate_stem_state fuzzy cwd st) = set (all_checks fuzzy cwd st)"
    by (simp add: evaluate_stem_state_def)
  consider "stem_field_is_invalid (se_stem e) (fst (monotonic_field (ly_field c)))"
    | "monotonic_conflict_is_type c" "\<not> stem_field_is_invalid (se_stem e) (fst (monotonic_field (ly_field c)))"
    | "\<not> monotonic_conflict_is_type c" "\<not> stem_field_is_invalid (se_stem e) (fst (monotonic_field (ly_field c)))"
    by blast
  then show ?thesis
  proof cases
    case 1
    from invalid_field_reported [OF this rel] show ?thesis
      unfolding all using all_checks_parts(2) [OF p refl] by blast
  next
    case 2
    have "c \<in> set (monotonic_conflicts (merge_stem_files b) (se_stem e) (se_path e))"
      using e(4) 2(1) structural_conflict_not_type by blast
    from type_conflict_reported [OF this 2 upper e(2) rel] show ?thesis
      unfolding all using all_checks_parts(1) [OF p refl] by blast
  next
    case 3
    have "c \<in> set (chain_conflicts [] (b @ [e]))"
      using chain_conflicts_of_entry [of "[]" b e "[]"] e(2,4) by auto
    then have "c \<in> set (owned_conflicts (?chain (se_path e)) (se_path e, se_stem e))"
      using assms(7) 3 e(3) own(1) layered_conflicts [OF assms(7)]
      by (simp add: owned_conflicts_def)
    from owned_conflict_reported [where chain_of = ?chain, OF p this rel] show ?thesis
      unfolding all using all_checks_parts(3) [OF p refl] by blast
  qed
qed

definition health_sample :: stem_state where
  "health_sample =
     (let f = (\<lambda>vs. zero_field\<lparr> sf_type := ''enum'', sf_values := vs \<rparr>) in
      \<lparr> ss_root = ''/r'',
        ss_stems = [(''/r/.stem'', zero_stem\<lparr> st_root := True, st_schema := [(''estado'', f [''a''])] \<rparr>),
                    (''/r/x/.stem'', zero_stem\<lparr> st_schema := [(''estado'', f [''a'', ''b''])] \<rparr>)],
        ss_parse_errors = [],
        ss_entries = [(''/r/x'', \<lparr> en_is_dir = True, en_ignored = False \<rparr>)],
        ss_evaluated = [] \<rparr>)"

definition sample_conflict :: layer_constraint where
  "sample_conflict = mk_layer ''/r/x/.stem'' ''estado.values'' (LVal (VList [VStr ''b''])) ''extension''"

theorem health_reports_every_conflict_witness:
  "\<exists>h. h \<in> set (evaluate_stem_state (\<lambda>_ _. []) ''/r'' health_sample) \<and> hc_status h = ''fail'' \<and>
     hc_path h = ''x/.stem'' \<and> hc_field h = fst (monotonic_field ''estado.values'')"
proof -
  let ?at = "\<lambda>p. resolve_layered_from_entries p (state_chain ''/r'' health_sample p)"
  have sample: "ly_stem_path sample_conflict = ''/r/x/.stem''" "ly_field sample_conflict = ''estado.values''"
    by code_simp+
  have dir: "path_dir ''/r/x/.stem'' = ''/r/x''" by code_simp
  have "\<not> isl (?at ''/r/x/y/d.md'')" "sample_conflict \<in> set (lr_conflicts (projr (?at ''/r/x/y/d.md'')))"
    by code_simp+
  then obtain lr where lr: "?at ''/r/x/y/d.md'' = Inr lr" "sample_conflict \<in> set (lr_conflicts lr)"
    by (cases "?at ''/r/x/y/d.md''") simp_all
  have "\<not> isl (?at ''/r/x'')" by code_simp
  then obtain lr' where lr': "?at ''/r/x'' = Inr lr'" by (cases "?at ''/r/x''") simp_all
  have st: "''/r/x/.stem'' \<in> set (evaluated_stem_paths health_sample)"
    "map_of (ss_parse_errors health_sample) ''/r/x/.stem'' = None"
    "state_start_dir ''/r'' health_sample ''/r/x'' = ''/r/x''"
    "path_rel (path_clean (ss_root health_sample)) ''/r/x/.stem'' = Some ''x/.stem''" by code_simp+
  have "is_abs ''/r''" by code_simp
  from health_reports_every_conflict [OF this lr, unfolded sample dir, OF st(1,2,3) lr' st(4)]
  show ?thesis .
qed

end
