(* ===== verification/Derivation.thy ===== *)
theory Derivation
  imports Validation Component_Paths "HOL-Library.Multiset"
begin

text \<open>
  Derived fields, \<open>internal/derive\<close>: the builtins of the expression language, the derivation of a
  record's fields with the values of its links, the enrichment with source fields, and the aggregation
  of index files from the deepest directory up.

  The records of a batch are shared by pointer and a pass writes their derived fields while later
  records read them, so a batch is a store: a list of documents, a pointer being its position (no
  pointer occurs twice). Parameters: the expr-lang library as \<open>cmp\<close> (compilation) and \<open>run\<close>
  (evaluation on an environment), the schema \<open>resolver\<close> with its default instance, and \<open>arrange\<close>, the
  order \<open>sort.Slice\<close> gives to index files, which is unspecified among files of one depth. The context
  is not cancelled.
\<close>

section \<open>Builtins\<close>

text \<open>Runs of characters outside \<open>[a-z0-9]\<close> become one hyphen. Case mapping is that of ASCII.\<close>

definition is_alphanum :: "char \<Rightarrow> bool" where
  "is_alphanum c = (let n = of_char c :: nat in 48 \<le> n \<and> n \<le> 57 \<or> 97 \<le> n \<and> n \<le> 122)"

fun hyphenate :: "bool \<Rightarrow> string \<Rightarrow> string" where
  "hyphenate in_run [] = []"
| "hyphenate in_run (c # cs) =
     (if is_alphanum c then c # hyphenate False cs
      else if in_run then hyphenate True cs else CHR ''-'' # hyphenate True cs)"

definition slugify :: "string \<Rightarrow> string" where
  "slugify s =
     (let slug = hyphenate False (to_lower s)
      in trim_right_chars ''-'' (trim_left_chars ''-'' slug))"

definition expected_string :: "string \<Rightarrow> val \<Rightarrow> string" where
  "expected_string name v = name @ '': expected string, got '' @ type_verb v"

text \<open>A builtin of one string parameter; the library refuses a call without one when it compiles.\<close>

definition string_builtin :: "string \<Rightarrow> (string \<Rightarrow> val) \<Rightarrow> val \<Rightarrow> string + val" where
  "string_builtin name f v =
     (case v of VStr s \<Rightarrow> Inr (f s) | _ \<Rightarrow> Inl (expected_string name v))"

definition slugify_builtin :: "val \<Rightarrow> string + val" where
  "slugify_builtin = string_builtin ''slugify'' (\<lambda>s. VStr (slugify s))"

definition lower_builtin :: "val \<Rightarrow> string + val" where
  "lower_builtin = string_builtin ''lower'' (\<lambda>s. VStr (to_lower s))"

definition trim_builtin :: "val \<Rightarrow> string + val" where
  "trim_builtin = string_builtin ''trim'' (\<lambda>s. VStr (trim_space s))"

definition strlen_builtin :: "val \<Rightarrow> string + val" where
  "strlen_builtin = string_builtin ''strlen'' (\<lambda>s. VInt (int (length s)))"

text \<open>The text of one parameter of \<open>concat\<close>.\<close>

fun concat_text :: "val \<Rightarrow> string option" where
  "concat_text VNull = Some []"
| "concat_text (VStr s) = Some s"
| "concat_text (VBool b) = Some (if b then ''true'' else ''false'')"
| "concat_text (VInt i) = Some (itoa i)"
| "concat_text v = None"

definition concat_builtin :: "val list \<Rightarrow> string + val" where
  "concat_builtin vs =
     (case try_map (\<lambda>v. case concat_text v of
                        None \<Rightarrow> Inl (''concat: unsupported argument type '' @ type_verb v)
                      | Some t \<Rightarrow> Inr t) vs of
        Inl e \<Rightarrow> Inl e
      | Inr texts \<Rightarrow> Inr (VStr (concat texts)))"

section \<open>The evaluator\<close>

definition evaluator_compile :: "(string \<Rightarrow> string + 'p) \<Rightarrow> string \<Rightarrow> string + 'p" where
  "evaluator_compile cmp expr =
     (case cmp expr of
        Inl e \<Rightarrow> Inl (''compiling derive expression '' @ go_quote expr @ '': '' @ e)
      | Inr p \<Rightarrow> Inr p)"

definition evaluator_eval :: "('p \<Rightarrow> vmap \<Rightarrow> string + val) \<Rightarrow> string \<Rightarrow> 'p \<Rightarrow> vmap \<Rightarrow> string + val" where
  "evaluator_eval run expr p env =
     (case run p env of
        Inl e \<Rightarrow> Inl (''evaluating derive expression '' @ go_quote expr @ '': '' @ e)
      | Inr v \<Rightarrow> Inr v)"

definition evaluate ::
  "(string \<Rightarrow> string + 'p) \<Rightarrow> ('p \<Rightarrow> vmap \<Rightarrow> string + val) \<Rightarrow> vmap \<Rightarrow> string \<Rightarrow> string + val" where
  "evaluate cmp run env expr =
     (case evaluator_compile cmp expr of Inl e \<Rightarrow> Inl e | Inr p \<Rightarrow> evaluator_eval run expr p env)"

definition child_to_map :: "doc \<Rightarrow> vmap" where
  "child_to_map c =
     AList.update ''type'' (VStr (rc_type c)) (AList.update ''path'' (VStr (rc_path c)) (rc_frontmatter c))"

section \<open>Linked fields\<close>

text \<open>\<open>MapResolver\<close>: records by path (the last one of a path) and by base name.\<close>

record map_resolver =
  mr_records :: "(string \<times> nat) list"
  mr_basename :: "(string \<times> nat list) list"

definition add_name :: "string \<Rightarrow> nat \<Rightarrow> (string \<times> nat list) list \<Rightarrow> (string \<times> nat list) list" where
  "add_name n i m = AList.update n ((case map_of m n of None \<Rightarrow> [] | Some is' \<Rightarrow> is') @ [i]) m"

definition add_record :: "map_resolver \<Rightarrow> nat \<times> string \<Rightarrow> map_resolver" where
  "add_record m p =
     (case p of (i, path) \<Rightarrow>
        let base = path_base path; no_ext = trim_suffix base ''.md'';
            names = add_name base i (mr_basename m)
        in \<lparr> mr_records = AList.update path i (mr_records m),
             mr_basename = (if no_ext \<noteq> base then add_name no_ext i names else names) \<rparr>)"

definition new_map_resolver :: "doc list \<Rightarrow> map_resolver" where
  "new_map_resolver rs =
     foldl add_record \<lparr> mr_records = [], mr_basename = [] \<rparr> (zip [0..<length rs] (map rc_path rs))"

definition map_resolve :: "map_resolver \<Rightarrow> string \<Rightarrow> nat option" where
  "map_resolve m path =
     (case map_of (mr_records m) path of
        Some i \<Rightarrow> Some i
      | None \<Rightarrow> (case map_of (mr_basename m) path of Some [i] \<Rightarrow> Some i | _ \<Rightarrow> None))"

definition link_target_path :: "string \<Rightarrow> string \<Rightarrow> string" where
  "link_target_path source target =
     (if str_contains target ''/'' \<or> str_contains target ''..''
      then path_clean (path_join (path_dir source) target) else target)"

text \<open>What one link adds: the variable it feeds and the printed value of its target.\<close>

definition linked_value :: "doc list \<Rightarrow> map_resolver \<Rightarrow> string \<Rightarrow> stem_file \<Rightarrow> link \<Rightarrow> (string \<times> string) option" where
  "linked_value rs m source stem l =
     (case map_of (ls_rules (st_links stem)) (lk_type l) of
        None \<Rightarrow> None
      | Some rule \<Rightarrow>
          if lr_field rule = [] then None
          else case (case map_resolve m (link_target_path source (lk_target l)) of
                       Some i \<Rightarrow> Some i | None \<Rightarrow> map_resolve m (lk_target l)) of
              None \<Rightarrow> None
            | Some i \<Rightarrow>
                map_option (\<lambda>v. (lr_field rule, fmt_v v))
                  (effective_field (rs ! i) (if lr_value_field rule = [] then ''estado'' else lr_value_field rule)))"

definition collect_value ::
  "(string \<times> string list) list \<Rightarrow> (string \<times> string) option \<Rightarrow> (string \<times> string list) list" where
  "collect_value m p =
     (case p of
        None \<Rightarrow> m
      | Some (f, v) \<Rightarrow> AList.update f ((case map_of m f of None \<Rightarrow> [] | Some vs \<Rightarrow> vs) @ [v]) m)"

definition inject_linked_fields ::
  "doc list \<Rightarrow> vmap \<Rightarrow> doc \<Rightarrow> stem_file \<Rightarrow> map_resolver option \<Rightarrow> vmap" where
  "inject_linked_fields rs env r stem resolver =
     (case resolver of
        None \<Rightarrow> env
      | Some m \<Rightarrow>
          map_overlay env (map_vals (\<lambda>_ vs. VList (map VStr vs))
            (foldl collect_value [] (map (linked_value rs m (rc_path r) stem) (rc_links r)))))"

section \<open>Deriving a record\<close>

record derive_error =
  de_field :: string
  de_expression :: string
  de_message :: string

definition derive_field ::
  "(string \<Rightarrow> string + 'p) \<Rightarrow> ('p \<Rightarrow> vmap \<Rightarrow> string + val) \<Rightarrow> vmap \<Rightarrow> string \<Rightarrow> val \<Rightarrow> derive_error + val" where
  "derive_field cmp run env field expr_val =
     (case expr_val of
        VStr expr \<Rightarrow>
          (case evaluate cmp run env expr of
             Inl e \<Rightarrow> Inl \<lparr> de_field = field, de_expression = expr, de_message = e \<rparr>
           | Inr v \<Rightarrow> Inr v)
      | _ \<Rightarrow> Inl \<lparr> de_field = field, de_expression = fmt_v expr_val,
                   de_message = ''expected string expression, got '' @ type_verb expr_val \<rparr>)"

definition derive_step ::
  "(string \<Rightarrow> string + 'p) \<Rightarrow> ('p \<Rightarrow> vmap \<Rightarrow> string + val) \<Rightarrow> vmap \<Rightarrow> vmap \<Rightarrow>
     vmap \<times> derive_error list \<Rightarrow> string \<Rightarrow> vmap \<times> derive_error list" where
  "derive_step cmp run env exprs acc field =
     (case derive_field cmp run env field (map_get exprs field) of
        Inl e \<Rightarrow> (fst acc, snd acc @ [e])
      | Inr v \<Rightarrow> (AList.update field v (fst acc), snd acc))"

definition derive_entries ::
  "(string \<Rightarrow> string + 'p) \<Rightarrow> ('p \<Rightarrow> vmap \<Rightarrow> string + val) \<Rightarrow> vmap \<Rightarrow> vmap \<Rightarrow> vmap \<times> derive_error list" where
  "derive_entries cmp run env exprs = foldl (derive_step cmp run env exprs) ([], []) (sorted_keys exprs)"

definition derive_error_text :: "derive_error \<Rightarrow> string" where
  "derive_error_text e = ''{'' @ de_field e @ '' '' @ de_expression e @ '' '' @ de_message e @ ''}''"

definition derive_env :: "doc list \<Rightarrow> doc \<Rightarrow> stem_file \<Rightarrow> doc list \<Rightarrow> map_resolver option \<Rightarrow> vmap" where
  "derive_env rs r stem children resolver =
     (let env = inject_linked_fields rs (rc_frontmatter r) r stem resolver
      in if children = [] then env
         else AList.update ''children'' (VList (map (\<lambda>c. VMap (child_to_map c)) children)) env)"

definition derive_record ::
  "(string \<Rightarrow> string + 'p) \<Rightarrow> ('p \<Rightarrow> vmap \<Rightarrow> string + val) \<Rightarrow> doc list \<Rightarrow> nat \<Rightarrow> stem_file option \<Rightarrow>
     doc list \<Rightarrow> map_resolver option \<Rightarrow> doc list \<times> vmap \<times> string option" where
  "derive_record cmp run rs i effective children resolver =
     (case effective of
        None \<Rightarrow> (rs, [], None)
      | Some stem \<Rightarrow>
          if st_derive stem = [] then (rs, [], None)
          else case derive_entries cmp run (derive_env rs (rs ! i) stem children resolver) (st_derive stem) of
              (derived, errs) \<Rightarrow>
                (rs[i := (rs ! i)\<lparr> rc_derived := derived \<rparr>], derived,
                 if errs = [] then None
                 else Some (''derivation errors: ['' @ join_with '' '' (map derive_error_text errs) @ '']'')))"

section \<open>Deriving a batch\<close>

type_synonym stem_resolver = "string \<Rightarrow> string \<Rightarrow> go_error + stem_file option"

definition default_resolver ::
  "(string \<Rightarrow> string + stem_file) \<Rightarrow> filesys \<Rightarrow> stem_resolver" where
  "default_resolver yaml fs dir record_path =
     (case resolve_for_record yaml fs dir record_path of
        Inl e \<Rightarrow> if is_no_schema e then Inr None else Inl e
      | Inr s \<Rightarrow> Inr (Some s))"

definition resolve_batch :: "string \<Rightarrow> stem_resolver \<Rightarrow> doc list \<Rightarrow> go_error + stem_file option list" where
  "resolve_batch root resolver rs =
     try_map (\<lambda>r.
       case resolver (path_dir (path_join root (rc_path r))) (rc_path r) of
         Inl e \<Rightarrow> Inl (Wrapped (''resolve schema for '' @ rc_path r) e)
       | Inr eff \<Rightarrow> Inr eff) rs"

text \<open>The siblings of a record: the others of its directory.\<close>

definition siblings_of :: "doc list \<Rightarrow> doc \<Rightarrow> doc list" where
  "siblings_of rs r =
     filter (\<lambda>s. rc_path s \<noteq> rc_path r) (filter (\<lambda>s. path_dir (rc_path s) = path_dir (rc_path r)) rs)"

definition derive_all ::
  "(string \<Rightarrow> string + 'p) \<Rightarrow> ('p \<Rightarrow> vmap \<Rightarrow> string + val) \<Rightarrow> string \<Rightarrow> stem_resolver option \<Rightarrow>
     doc list \<Rightarrow> doc list \<times> go_error option" where
  "derive_all cmp run root resolver rs =
     (case resolver of
        None \<Rightarrow> (rs, None)
      | Some rv \<Rightarrow>
          (case resolve_batch root rv rs of
             Inl e \<Rightarrow> (rs, Some e)
           | Inr effs \<Rightarrow>
               (foldl (\<lambda>st i. fst (derive_record cmp run st i (effs ! i) (siblings_of st (st ! i))
                                (Some (new_map_resolver rs))))
                  rs [0..<length rs], None)))"

section \<open>Enrichment\<close>

definition source_backed_field_names :: "stem_file option \<Rightarrow> string list" where
  "source_backed_field_names eff =
     (case eff of
        None \<Rightarrow> []
      | Some s \<Rightarrow>
          filter (\<lambda>n. case map_of (st_schema s) n of None \<Rightarrow> False | Some f \<Rightarrow> sf_extract f \<noteq> [])
            (sorted_keys (st_schema s)))"

definition index_subdirs :: "stem_file option \<Rightarrow> subdir_rules" where
  "index_subdirs eff = (case eff of None \<Rightarrow> zero_subdirs | Some s \<Rightarrow> st_subdirs s)"

text \<open>The source fields of one record, stored into its new derived map.\<close>

fun enrich_fields ::
  "(string \<Rightarrow> ast_heading list) \<Rightarrow> doc \<Rightarrow> stem_file \<Rightarrow> string list \<Rightarrow> vmap \<Rightarrow> go_error + vmap" where
  "enrich_fields gm r eff [] derived = Inr derived"
| "enrich_fields gm r eff (n # ns) derived =
     (case resolve_effective_field gm r eff n of
        Inl e \<Rightarrow> Inl (Wrapped (''resolving source field '' @ go_quote n @ '' for '' @ rc_path r) e)
      | Inr None \<Rightarrow> enrich_fields gm r eff ns derived
      | Inr (Some v) \<Rightarrow> enrich_fields gm r eff ns (AList.update n v derived))"

definition enriched_derived ::
  "(string \<Rightarrow> ast_heading list) \<Rightarrow> doc \<Rightarrow> stem_file option \<Rightarrow> go_error + vmap" where
  "enriched_derived gm r eff =
     (let derived = AList.update ''isIndex'' (VBool (is_index_file (rc_path r) (index_subdirs eff))) (rc_derived r)
      in case eff of
           None \<Rightarrow> Inr derived
         | Some s \<Rightarrow> enrich_fields gm r s (source_backed_field_names eff) derived)"

text \<open>Everything is staged first; the records are written when all of it succeeded.\<close>

definition enrich_builtins ::
  "(string \<Rightarrow> ast_heading list) \<Rightarrow> string \<Rightarrow> stem_resolver option \<Rightarrow> doc list \<Rightarrow> doc list \<times> go_error option" where
  "enrich_builtins gm root resolver rs =
     (case resolver of
        None \<Rightarrow> (rs, None)
      | Some rv \<Rightarrow>
          (case resolve_batch root rv rs of
             Inl e \<Rightarrow> (rs, Some e)
           | Inr effs \<Rightarrow>
               (case try_map (\<lambda>(r, eff). enriched_derived gm r eff) (zip rs effs) of
                  Inl e \<Rightarrow> (rs, Some e)
                | Inr staged \<Rightarrow> (map (\<lambda>(r, d). r\<lparr> rc_derived := d \<rparr>) (zip rs staged), None))))"

section \<open>Aggregation\<close>

definition path_depth :: "string \<Rightarrow> nat" where
  "path_depth p = count_list p slash"

definition is_index_record :: "doc \<Rightarrow> bool" where
  "is_index_record r = (map_of (rc_derived r) ''isIndex'' = Some (VBool True))"

definition subtree_prefix :: "string \<Rightarrow> string" where
  "subtree_prefix path =
     (let dir = path_dir path in if dir = ''.'' then [] else dir @ ''/'')"

definition descendants_of :: "doc list \<Rightarrow> nat list \<Rightarrow> string \<Rightarrow> nat list" where
  "descendants_of rs plain path = filter (\<lambda>j. has_prefix (rc_path (rs ! j)) (subtree_prefix path)) plain"

definition children_of :: "doc list \<Rightarrow> nat list \<Rightarrow> string \<Rightarrow> nat list" where
  "children_of rs indices path =
     filter (\<lambda>j. rc_path (rs ! j) \<noteq> path \<and> has_prefix (path_dir (rc_path (rs ! j))) (subtree_prefix path)) indices"

definition aggregate_env :: "doc list \<Rightarrow> nat list \<Rightarrow> nat list \<Rightarrow> doc \<Rightarrow> vmap" where
  "aggregate_env rs plain indices r =
     AList.update ''children''
       (VList (map (\<lambda>j. VMap (map_overlay (child_to_map (rs ! j)) (rc_derived (rs ! j))))
          (children_of rs indices (rc_path r))))
       (AList.update ''descendants''
          (VList (map (\<lambda>j. VMap (child_to_map (rs ! j))) (descendants_of rs plain (rc_path r))))
          (rc_frontmatter r))"

definition aggregate_field ::
  "(string \<Rightarrow> string + 'p) \<Rightarrow> ('p \<Rightarrow> vmap \<Rightarrow> string + val) \<Rightarrow> vmap \<Rightarrow> vmap \<Rightarrow> vmap \<Rightarrow> string \<Rightarrow> vmap" where
  "aggregate_field cmp run env exprs derived field =
     (case map_get exprs field of
        VStr expr \<Rightarrow> (case evaluate cmp run env expr of
                      Inl _ \<Rightarrow> derived | Inr v \<Rightarrow> AList.update field v derived)
      | _ \<Rightarrow> derived)"

definition aggregate_fields ::
  "(string \<Rightarrow> string + 'p) \<Rightarrow> ('p \<Rightarrow> vmap \<Rightarrow> string + val) \<Rightarrow> vmap \<Rightarrow> vmap \<Rightarrow> vmap \<Rightarrow> vmap" where
  "aggregate_fields cmp run env exprs derived =
     foldl (aggregate_field cmp run env exprs) derived (sorted_keys exprs)"

definition aggregate_record ::
  "(string \<Rightarrow> string + 'p) \<Rightarrow> ('p \<Rightarrow> vmap \<Rightarrow> string + val) \<Rightarrow> stem_file option list \<Rightarrow> nat list \<Rightarrow> nat list \<Rightarrow>
     doc list \<Rightarrow> nat \<Rightarrow> doc list" where
  "aggregate_record cmp run effs plain indices rs i =
     (case effs ! i of
        None \<Rightarrow> rs
      | Some eff \<Rightarrow>
          if st_aggregate eff = [] then rs
          else rs[i := (rs ! i)\<lparr> rc_derived :=
            aggregate_fields cmp run (aggregate_env rs plain indices (rs ! i)) (st_aggregate eff)
              (rc_derived (rs ! i)) \<rparr>])"

text \<open>The index files in the order of the sort, and the other records.\<close>

definition index_order :: "((nat \<Rightarrow> nat) \<Rightarrow> nat list \<Rightarrow> nat list) \<Rightarrow> doc list \<Rightarrow> nat list" where
  "index_order arrange rs =
     arrange (\<lambda>i. path_depth (rc_path (rs ! i))) (filter (\<lambda>i. is_index_record (rs ! i)) [0..<length rs])"

definition plain_order :: "doc list \<Rightarrow> nat list" where
  "plain_order rs = filter (\<lambda>i. \<not> is_index_record (rs ! i)) [0..<length rs]"

definition aggregate_all ::
  "(string \<Rightarrow> string + 'p) \<Rightarrow> ('p \<Rightarrow> vmap \<Rightarrow> string + val) \<Rightarrow> ((nat \<Rightarrow> nat) \<Rightarrow> nat list \<Rightarrow> nat list) \<Rightarrow>
     string \<Rightarrow> stem_resolver option \<Rightarrow> doc list \<Rightarrow> doc list \<times> go_error option" where
  "aggregate_all cmp run arrange root resolver rs =
     (case resolver of
        None \<Rightarrow> (rs, None)
      | Some rv \<Rightarrow>
          (case resolve_batch root rv rs of
             Inl e \<Rightarrow> (rs, Some e)
           | Inr effs \<Rightarrow>
               (foldl (aggregate_record cmp run effs (plain_order rs) (index_order arrange rs)) rs
                  (index_order arrange rs), None)))"

section \<open>Derivation treats every field on its own\<close>

lemma derive_fold:
  "map_of (fst (foldl (derive_step cmp run env exprs) acc ks)) f =
     (case derive_field cmp run env f (map_get exprs f) of
        Inr v \<Rightarrow> if f \<in> set ks then Some v else map_of (fst acc) f
      | Inl _ \<Rightarrow> map_of (fst acc) f)"
  "snd (foldl (derive_step cmp run env exprs) acc ks) = snd acc @
     concat (map (\<lambda>f. case derive_field cmp run env f (map_get exprs f) of Inl e \<Rightarrow> [e] | Inr _ \<Rightarrow> []) ks)"
  by (induction ks arbitrary: acc) (auto simp: derive_step_def update_conv' split: sum.split)

text \<open>A field that fails to derive blocks no other: the derived map holds exactly the entries of the
  schema's \<open>derive\<close> section whose value is an expression that compiles and evaluates, each with its own
  value in the one environment, and the errors are those of the other entries, one each, in the order of
  the field names.\<close>

theorem derivation_is_pointwise:
  "map_of (fst (derive_entries cmp run env exprs)) f =
     (case map_of exprs f of
        None \<Rightarrow> None
      | Some x \<Rightarrow> (case derive_field cmp run env f x of Inl _ \<Rightarrow> None | Inr v \<Rightarrow> Some v)) \<and>
   snd (derive_entries cmp run env exprs) =
     List.map_filter (\<lambda>f. case derive_field cmp run env f (map_get exprs f) of
                           Inl e \<Rightarrow> Some e | Inr _ \<Rightarrow> None) (sorted_keys exprs)"
proof -
  have "concat (map (\<lambda>f. case derive_field cmp run env f (map_get exprs f) of Inl e \<Rightarrow> [e] | Inr _ \<Rightarrow> []) ks) =
      List.map_filter (\<lambda>f. case derive_field cmp run env f (map_get exprs f) of
                           Inl e \<Rightarrow> Some e | Inr _ \<Rightarrow> None) ks" for ks
    by (induction ks) (auto simp: map_filter_simps split: sum.split)
  then show ?thesis
    by (auto simp: derive_entries_def derive_fold map_get_def split: sum.split option.split)
qed

section \<open>Enrichment is a transaction\<close>

lemma body_value_ignores_derived:
  "resolve_body_value gm (r\<lparr> rc_derived := d \<rparr>) x = resolve_body_value gm r x"
proof -
  have "resolve_h1 gm (r\<lparr> rc_derived := d \<rparr>) = resolve_h1 gm r"
    "sections_for_record gm (r\<lparr> rc_derived := d \<rparr>) = sections_for_record gm r"
    by (simp_all add: resolve_h1_def sections_for_record_def split: option.split)
  then show ?thesis by (simp only: resolve_body_value_def)
qed

lemma source_field_ignores_derived:
  "map_of (st_schema s) n = Some f \<Longrightarrow> sf_extract f \<noteq> [] \<Longrightarrow>
     resolve_effective_field gm (r\<lparr> rc_derived := d \<rparr>) s n = resolve_effective_field gm r s n"
  by (simp add: resolve_effective_field_def resolve_field_value_def body_value_ignores_derived
      split: option.split)

lemma enrich_fields_ignores_derived:
  assumes "\<forall>n \<in> set ns. \<exists>f. map_of (st_schema s) n = Some f \<and> sf_extract f \<noteq> []"
  shows "enrich_fields gm (r\<lparr> rc_derived := d \<rparr>) s ns a = enrich_fields gm r s ns a"
  using assms
proof (induction ns arbitrary: a)
  case (Cons n ns)
  then have "resolve_effective_field gm (r\<lparr> rc_derived := d \<rparr>) s n = resolve_effective_field gm r s n"
    by (auto intro: source_field_ignores_derived)
  with Cons show ?case by (simp split: sum.split option.split)
qed simp

lemma enrich_fields_values:
  "enrich_fields gm r s ns a = Inr b \<Longrightarrow>
     map_of b k = (if k \<in> set ns then (case resolve_effective_field gm r s k of
                                       Inr (Some v) \<Rightarrow> Some v | _ \<Rightarrow> map_of a k) else map_of a k)"
  by (induction ns arbitrary: a) (auto simp: update_conv' split: sum.splits option.splits)

lemma enrich_fields_total:
  "enrich_fields gm r s ns a = Inr b \<Longrightarrow> \<exists>b'. enrich_fields gm r s ns a' = Inr b'"
  by (induction ns arbitrary: a a') (auto split: sum.splits option.splits)

lemma source_backed_fields:
  "n \<in> set (source_backed_field_names (Some s)) \<Longrightarrow> \<exists>f. map_of (st_schema s) n = Some f \<and> sf_extract f \<noteq> []"
  by (auto simp: source_backed_field_names_def split: option.splits)

definition same_map :: "vmap \<Rightarrow> vmap \<Rightarrow> bool" where
  "same_map a b = (map_of a = map_of b)"

lemma enriched_derived_again:
  assumes "enriched_derived gm r eff = Inr d"
  shows "\<exists>d'. enriched_derived gm (r\<lparr> rc_derived := d \<rparr>) eff = Inr d' \<and> map_of d' = map_of d"
proof (cases eff)
  case None
  with assms show ?thesis by (auto simp: enriched_derived_def update_conv')
next
  case (Some s)
  let ?ix = "VBool (is_index_file (rc_path r) (index_subdirs eff))"
  let ?ns = "source_backed_field_names (Some s)"
  from assms Some have d: "enrich_fields gm r s ?ns (AList.update ''isIndex'' ?ix (rc_derived r)) = Inr d"
    by (simp add: enriched_derived_def)
  from enrich_fields_total [OF d] obtain d' where
    d': "enrich_fields gm r s ?ns (AList.update ''isIndex'' ?ix d) = Inr d'" by blast
  have "enriched_derived gm (r\<lparr> rc_derived := d \<rparr>) eff = Inr d'"
    using d' Some by (simp add: enriched_derived_def enrich_fields_ignores_derived source_backed_fields)
  moreover have "map_of d' k = map_of d k" for k
    using enrich_fields_values [OF d, of k] enrich_fields_values [OF d', of k]
    by (cases "k = ''isIndex''") (auto simp: update_conv' split: sum.splits option.splits)
  ultimately show ?thesis by blast
qed

lemma enriched_has_index: "enriched_derived gm r eff = Inr d \<Longrightarrow> has_key d ''isIndex''"
  unfolding enriched_derived_def Let_def
  by (cases eff) (auto simp: has_key_def update_conv' enrich_fields_values split: option.splits sum.splits)

lemma resolve_batch_paths:
  assumes "map rc_path rs' = map rc_path rs"
  shows "resolve_batch root rv rs' = resolve_batch root rv rs"
proof -
  have "resolve_batch root rv xs = try_map (\<lambda>p.
       case rv (path_dir (path_join root p)) p of
         Inl e \<Rightarrow> Inl (Wrapped (''resolve schema for '' @ p) e) | Inr eff \<Rightarrow> Inr eff) (map rc_path xs)" for xs
    unfolding resolve_batch_def by (induction xs) (simp_all only: try_map.simps list.map)
  with assms show ?thesis by simp
qed

lemma enrich_stage:
  "length effs = length rs \<Longrightarrow> try_map (\<lambda>(r, eff). enriched_derived gm r eff) (zip rs effs) = Inr staged \<Longrightarrow>
     \<exists>staged'. try_map (\<lambda>(r, eff). enriched_derived gm r eff)
         (zip (map (\<lambda>(r, d). r\<lparr> rc_derived := d \<rparr>) (zip rs staged)) effs) = Inr staged' \<and>
       list_all2 same_map staged staged'"
proof (induction rs effs arbitrary: staged rule: list_induct2')
  case (4 r rs eff effs)
  then obtain d ds where d: "enriched_derived gm r eff = Inr d"
      "try_map (\<lambda>(r, eff). enriched_derived gm r eff) (zip rs effs) = Inr ds" "staged = d # ds"
    by (auto split: sum.splits)
  from 4 d(2) obtain ds' where ds': "try_map (\<lambda>(r, eff). enriched_derived gm r eff)
         (zip (map (\<lambda>(r, d). r\<lparr> rc_derived := d \<rparr>) (zip rs ds)) effs) = Inr ds'"
       "list_all2 same_map ds ds'" by auto
  from enriched_derived_again [OF d(1)] obtain d' where
    d': "enriched_derived gm (r\<lparr> rc_derived := d \<rparr>) eff = Inr d'" "same_map d d'"
    by (auto simp: same_map_def)
  with d(3) ds' show ?case by auto
qed auto

text \<open>Enrichment is a transaction and can be repeated: when it fails, no record has changed; when it
  succeeds, only derived fields have, every record has \<open>isIndex\<close>, and running it again succeeds and
  leaves every derived field as it is.\<close>

theorem enrichment_transactional:
  "(case enrich_builtins gm root (Some rv) rs of
      (rs', Some e) \<Rightarrow> rs' = rs
    | (rs', None) \<Rightarrow>
        map (rc_derived_update (\<lambda>_. [])) rs' = map (rc_derived_update (\<lambda>_. [])) rs \<and>
        list_all (\<lambda>r. has_key (rc_derived r) ''isIndex'') rs' \<and>
        (case enrich_builtins gm root (Some rv) rs' of
           (rs'', e) \<Rightarrow> e = None \<and> list_all2 (\<lambda>r r'. same_map (rc_derived r) (rc_derived r')) rs' rs''))"
proof (cases "resolve_batch root rv rs")
  case (Inr effs)
  then have len: "length effs = length rs" by (auto simp: resolve_batch_def dest: try_map_InrD)
  show ?thesis
  proof (cases "try_map (\<lambda>(r, eff). enriched_derived gm r eff) (zip rs effs)")
    case staged: (Inr staged)
    let ?rs' = "map (\<lambda>(r, d). r\<lparr> rc_derived := d \<rparr>) (zip rs staged)"
    have l: "length staged = length rs" using staged len by (auto dest: try_map_InrD)
    from enrich_stage [OF len staged] obtain staged' where
      again: "try_map (\<lambda>(r, eff). enriched_derived gm r eff) (zip ?rs' effs) = Inr staged'"
        "list_all2 same_map staged staged'" by blast
    have "map rc_path ?rs' = map rc_path rs" using l by (auto intro: nth_equalityI)
    from resolve_batch_paths [OF this] Inr have b: "resolve_batch root rv ?rs' = Inr effs" by simp
    have "list_all (\<lambda>r. has_key (rc_derived r) ''isIndex'') ?rs'"
      using try_map_InrD [OF staged] len l by (auto simp: list_all_length enriched_has_index)
    moreover have "map (rc_derived_update (\<lambda>_. [])) ?rs' = map (rc_derived_update (\<lambda>_. [])) rs"
      using l by (auto intro: nth_equalityI)
    moreover have "list_all2 (\<lambda>r r'. same_map (rc_derived r) (rc_derived r')) ?rs'
        (map (\<lambda>(r, d). r\<lparr> rc_derived := d \<rparr>) (zip ?rs' staged'))"
      using again(2) l by (auto simp: list_all2_conv_all_nth)
    ultimately show ?thesis using Inr staged b again(1)
      by (simp add: enrich_builtins_def)
  qed (simp add: enrich_builtins_def Inr)
qed (simp add: enrich_builtins_def)

section \<open>Aggregation works from the bottom up\<close>

text \<open>A clean relative path of a file.\<close>

definition tree_path :: "string \<Rightarrow> bool" where
  "tree_path p = (path_comps p \<noteq> [] \<and> list_all plain_name (path_comps p) \<and> p = join_with ''/'' (path_comps p))"

lemma path_clean_rel:
  "\<not> is_abs p \<Longrightarrow> list_all plain_name (path_comps p) \<Longrightarrow>
     path_clean p = (if path_comps p = [] then ''.'' else join_with ''/'' (path_comps p))"
  by (simp add: path_clean_def Let_def clean_names)

lemma path_dir_rel:
  assumes "list_all plain_name cs" "plain_name n"
  shows "path_dir (join_with ''/'' (cs @ [n])) = (if cs = [] then ''.'' else join_with ''/'' cs)"
proof (cases "cs = []")
  case True
  have "slash \<notin> set n" using assms(2) by (simp add: plain_name_def)
  then have "dir_part n = []" by (auto simp: dir_part_def dropWhile_eq_Nil_conv)
  with True show ?thesis by (simp add: path_dir_def path_clean_def is_abs_def path_comps_def clean_comps_def)
next
  case False
  let ?d = "join_with ''/'' cs @ [slash]"
  have n: "slash \<notin> set n" using assms(2) by (simp add: plain_name_def)
  have "path_comps (join_with ''/'' cs @ slash # []) = path_comps (join_with ''/'' cs) @ path_comps []"
    by (rule path_comps_append)
  then have c: "path_comps ?d = cs"
    using path_comps_join [OF plain_comps_names [OF assms(1)]] by (simp add: path_comps_def)
  have "\<not> is_abs ?d"
    using join_with_head [OF plain_comps_names [OF assms(1)] False, of "''/''"] by (simp add: is_abs_iff)
  with c assms(1) False have "path_clean ?d = join_with ''/'' cs" using path_clean_rel [of ?d] by simp
  moreover have "dir_part (join_with ''/'' (cs @ [n])) = ?d"
    using dir_part_slash [OF n, of "join_with ''/'' cs"] False by (simp add: join_with_snoc)
  ultimately show ?thesis using False by (simp add: path_dir_def)
qed

lemma count_join:
  "list_all plain_name cs \<Longrightarrow> cs \<noteq> [] \<Longrightarrow> Suc (path_depth (join_with ''/'' cs)) = length cs"
proof (induction "''/''" cs rule: join_with.induct)
  case (3 x y ys)
  then have "count_list x slash = 0" by (simp add: plain_name_def count_list_0_iff)
  with 3 show ?case by (simp add: path_depth_def)
qed (simp_all add: path_depth_def plain_name_def count_list_0_iff)

text \<open>The children of an index file outside the top directory are deeper than it.\<close>

lemma child_deeper:
  assumes "tree_path p" "tree_path q" "has_prefix (path_dir q) (subtree_prefix p)" "path_depth p > 0"
  shows "path_depth p < path_depth q"
proof -
  define cs where "cs = butlast (path_comps p)"
  define ds where "ds = butlast (path_comps q)"
  obtain n m where pq: "path_comps p = cs @ [n]" "path_comps q = ds @ [m]"
    using assms(1,2) unfolding tree_path_def cs_def ds_def by (metis append_butlast_last_id)
  have plain: "list_all plain_name cs" "plain_name n" "list_all plain_name ds" "plain_name m"
    using assms(1,2) pq by (auto simp: tree_path_def)
  have j: "p = join_with ''/'' (cs @ [n])" "q = join_with ''/'' (ds @ [m])"
    using assms(1,2) pq by (simp_all add: tree_path_def)
  have depth: "path_depth p = length cs" "path_depth q = length ds"
    using count_join [of "cs @ [n]"] count_join [of "ds @ [m]"] plain by (simp_all add: j)
  have cs: "cs \<noteq> []" using assms(4) depth(1) by auto
  have nd: "join_with ''/'' cs \<noteq> ''.''"
  proof
    assume e: "join_with ''/'' cs = ''.''"
    from path_comps_join [OF plain_comps_names [OF plain(1)]] e have "cs = path_comps ''.''" by simp
    then have "cs = [''.'']" by (simp add: path_comps_def)
    with plain(1) show False by (simp add: plain_name_def)
  qed
  have sp: "subtree_prefix p = join_with ''/'' cs @ ''/''"
    using path_dir_rel [OF plain(1,2)] cs nd by (simp add: subtree_prefix_def j)
  have "ds \<noteq> []"
  proof
    assume "ds = []"
    then have "path_dir q = ''.''" using path_dir_rel [OF plain(3,4)] by (simp add: j)
    moreover have "join_with ''/'' cs \<noteq> []"
      using join_with_head [OF plain_comps_names [OF plain(1)] cs, of "''/''"] by simp
    ultimately show False using assms(3) sp by (auto simp: has_prefix_iff Cons_eq_append_conv)
  qed
  then obtain r where r: "join_with ''/'' ds = join_with ''/'' cs @ ''/'' @ r"
    using assms(3) sp path_dir_rel [OF plain(3,4)] by (auto simp: has_prefix_iff j)
  have "path_depth (join_with ''/'' cs) < path_depth (join_with ''/'' ds)"
    by (simp add: r path_depth_def)
  with count_join [OF plain(1) cs] count_join [OF plain(3) \<open>ds \<noteq> []\<close>] depth show ?thesis by simp
qed

text \<open>What a step and a run of the loop leave alone.\<close>

lemma aggregate_record_frame:
  "length (aggregate_record cmp run effs plain ix st i) = length st"
  "j \<noteq> i \<Longrightarrow> aggregate_record cmp run effs plain ix st i ! j = st ! j"
  "rc_path (aggregate_record cmp run effs plain ix st i ! j) = rc_path (st ! j)"
  "rc_frontmatter (aggregate_record cmp run effs plain ix st i ! j) = rc_frontmatter (st ! j)"
  by (cases "i < length st"; cases "i = j";
      simp add: aggregate_record_def list_update_beyond split: option.split)+

lemma aggregate_loop_frame:
  "length (foldl (aggregate_record cmp run effs plain ix) st is') = length st"
  "j \<notin> set is' \<Longrightarrow> foldl (aggregate_record cmp run effs plain ix) st is' ! j = st ! j"
  "rc_path (foldl (aggregate_record cmp run effs plain ix) st is' ! j) = rc_path (st ! j)"
  by (induction is' arbitrary: st) (simp_all add: aggregate_record_frame)

lemma aggregate_env_cong:
  assumes "\<And>j. j \<in> set plain \<Longrightarrow> rs' ! j = rs ! j"
    and "\<And>j. rc_path (rs' ! j) = rc_path (rs ! j)"
    and "\<And>j. j \<in> set (children_of rs ix (rc_path r)) \<Longrightarrow> rs' ! j = rs ! j"
  shows "aggregate_env rs' plain ix r = aggregate_env rs plain ix r"
proof -
  have c: "children_of rs' ix (rc_path r) = children_of rs ix (rc_path r)"
    by (simp add: children_of_def assms(2))
  have d: "descendants_of rs' plain (rc_path r) = descendants_of rs plain (rc_path r)"
    by (simp add: descendants_of_def assms(2))
  have "map (\<lambda>j. VMap (child_to_map (rs' ! j))) (descendants_of rs plain (rc_path r)) =
      map (\<lambda>j. VMap (child_to_map (rs ! j))) (descendants_of rs plain (rc_path r))"
    by (rule map_cong) (auto simp: descendants_of_def assms(1))
  moreover have "map (\<lambda>j. VMap (map_overlay (child_to_map (rs' ! j)) (rc_derived (rs' ! j)))) (children_of rs ix (rc_path r)) =
      map (\<lambda>j. VMap (map_overlay (child_to_map (rs ! j)) (rc_derived (rs ! j)))) (children_of rs ix (rc_path r))"
    by (rule map_cong) (simp_all add: assms(3))
  ultimately show ?thesis by (simp only: aggregate_env_def c d)
qed

lemma sorted_wrt_after: "sorted_wrt R (pre @ i # post) \<Longrightarrow> j \<in> set post \<Longrightarrow> R i j"
  by (auto simp: sorted_wrt_append)

lemma child_before:
  assumes "sorted_wrt (\<lambda>i j. path_depth (rc_path (rs ! j)) \<le> path_depth (rc_path (rs ! i))) ix"
    and ix: "ix = pre @ i # post" and paths: "list_all (\<lambda>j. tree_path (rc_path (rs ! j))) ix"
    and top: "length (filter (\<lambda>i. path_depth (rc_path (rs ! i)) = 0) ix) \<le> 1"
    and c: "j \<in> set (children_of rs ix (rc_path (rs ! i)))"
  shows "j \<noteq> i \<and> j \<notin> set post"
proof
  have j: "j \<in> set ix" "rc_path (rs ! j) \<noteq> rc_path (rs ! i)"
      "has_prefix (path_dir (rc_path (rs ! j))) (subtree_prefix (rc_path (rs ! i)))"
    using c by (auto simp: children_of_def)
  then show "j \<noteq> i" by auto
  show "j \<notin> set post"
  proof
    assume post: "j \<in> set post"
    have le: "path_depth (rc_path (rs ! j)) \<le> path_depth (rc_path (rs ! i))"
      using sorted_wrt_after [OF assms(1) [unfolded ix] post] .
    show False
    proof (cases "path_depth (rc_path (rs ! i)) = 0")
      case False
      moreover have "tree_path (rc_path (rs ! i))" "tree_path (rc_path (rs ! j))"
        using paths j(1) ix by (auto simp: list_all_iff)
      ultimately show False using child_deeper j(3) le by fastforce
    next
      case True
      with le have "filter (\<lambda>i. path_depth (rc_path (rs ! i)) = 0) post \<noteq> []"
        using post by (auto simp: filter_empty_conv)
      with top True show False by (cases "filter (\<lambda>i. path_depth (rc_path (rs ! i)) = 0) post") (simp_all add: ix)
    qed
  qed
qed

text \<open>C19: Aggregation is bottom-up: when it is done, every index file with aggregate expressions holds
  exactly what they evaluate to over the finished batch, where its sub-indexes already have their final
  values, and no other record has changed; so the derived fields solve the equations of the schema,
  whatever order the sort gives to index files of one depth. The batch has at most one index file in its
  top directory.\<close>

theorem aggregation_is_bottom_up:
  assumes arrange: "\<And>key xs. mset (arrange key xs) = mset xs"
      "\<And>key xs. sorted_wrt (\<lambda>i j. key j \<le> key i) (arrange key xs)"
    and paths: "list_all (\<lambda>r. tree_path (rc_path r)) rs"
    and top: "length (filter (\<lambda>i. is_index_record (rs ! i) \<and> path_depth (rc_path (rs ! i)) = 0) [0..<length rs]) \<le> 1"
    and effs: "resolve_batch root rv rs = Inr effs"
    and run: "aggregate_all cmp run arrange root (Some rv) rs = (rs', None)"
    and i: "i < length rs"
  shows "rs' ! i =
    (case effs ! i of
       None \<Rightarrow> rs ! i
     | Some eff \<Rightarrow>
         if \<not> is_index_record (rs ! i) \<or> st_aggregate eff = [] then rs ! i
         else (rs ! i)\<lparr> rc_derived :=
           aggregate_fields cmp run
             (aggregate_env rs' (plain_order rs) (index_order arrange rs) (rs ! i))
             (st_aggregate eff) (rc_derived (rs ! i)) \<rparr>)"
proof -
  define ix where "ix = index_order arrange rs"
  let ?step = "aggregate_record cmp run effs (plain_order rs) ix"
  have rs': "rs' = foldl ?step rs ix" using run effs by (simp add: aggregate_all_def ix_def)
  have m: "mset ix = mset (filter (\<lambda>i. is_index_record (rs ! i)) [0..<length rs])"
    by (simp only: ix_def index_order_def arrange(1))
  have set_ix: "set ix = {i. i < length rs \<and> is_index_record (rs ! i)}"
    using mset_eq_setD [OF m] by auto
  have dist: "distinct ix" using mset_eq_imp_distinct_iff [OF m] by simp
  have sorted: "sorted_wrt (\<lambda>i j. path_depth (rc_path (rs ! j)) \<le> path_depth (rc_path (rs ! i))) ix"
    unfolding ix_def index_order_def by (rule arrange(2))
  show ?thesis
  proof (cases "i \<in> set ix")
    case False
    with i have "\<not> is_index_record (rs ! i)" by (simp add: set_ix)
    with False show ?thesis by (simp add: rs' aggregate_loop_frame split: option.split)
  next
    case True
    then obtain pre post where split: "ix = pre @ i # post" by (auto dest: split_list)
    with dist have no: "i \<notin> set pre" "i \<notin> set post" by auto
    define st where "st = foldl ?step rs pre"
    have fin: "rs' = foldl ?step (?step st i) post" by (simp add: rs' split st_def)
    have at: "st ! i = rs ! i" "i < length st" using no(1) i by (simp_all add: st_def aggregate_loop_frame)
    have path: "rc_path (rs' ! j) = rc_path (rs ! j)" "rc_path (st ! j) = rc_path (rs ! j)" for j
      by (simp_all add: rs' st_def aggregate_loop_frame)
    have keep: "rs' ! j = st ! j" if "j \<noteq> i" "j \<notin> set post" for j
      using that by (simp add: fin aggregate_loop_frame aggregate_record_frame)
    have child: "j \<noteq> i \<and> j \<notin> set post" if "j \<in> set (children_of st ix (rc_path (rs ! i)))" for j
    proof -
      have c: "j \<in> set (children_of rs ix (rc_path (rs ! i)))" using that by (simp add: children_of_def path)
      have "list_all (\<lambda>j. tree_path (rc_path (rs ! j))) ix"
        unfolding list_all_iff [of _ ix] using paths by (simp add: set_ix list_all_length)
      moreover have "length (filter (\<lambda>i. path_depth (rc_path (rs ! i)) = 0) ix) \<le> 1"
        using top arg_cong [where f = "\<lambda>M. size (filter_mset (\<lambda>i. path_depth (rc_path (rs ! i)) = 0) M)", OF m]
        by (simp flip: mset_filter add: conj_commute)
      ultimately show ?thesis using child_before [OF sorted split _ _ c] by simp
    qed
    have env: "aggregate_env rs' (plain_order rs) ix (rs ! i) = aggregate_env st (plain_order rs) ix (rs ! i)"
    proof (rule aggregate_env_cong)
      fix j assume "j \<in> set (plain_order rs)"
      then have "j \<notin> set ix" by (auto simp: plain_order_def set_ix)
      then show "rs' ! j = st ! j" using keep [of j] True split by auto
    next
      fix j assume "j \<in> set (children_of st ix (rc_path (rs ! i)))"
      with child keep show "rs' ! j = st ! j" by blast
    qed (simp add: path)
    have idx: "is_index_record (rs ! i)" using True by (simp add: set_ix)
    have "rs' ! i = ?step st i ! i" using no(2) by (simp add: fin aggregate_loop_frame)
    also have "\<dots> = (case effs ! i of None \<Rightarrow> rs ! i
      | Some eff \<Rightarrow> if st_aggregate eff = [] then rs ! i
         else (rs ! i)\<lparr> rc_derived := aggregate_fields cmp run (aggregate_env st (plain_order rs) ix (rs ! i))
             (st_aggregate eff) (rc_derived (rs ! i)) \<rparr>)"
      using at by (simp add: aggregate_record_def split: option.split)
    finally show ?thesis by (simp add: env ix_def [symmetric] idx split: option.split)
  qed
qed

text \<open>Three records: an index at the top, one below it, and a plain record.\<close>

definition tree_sample :: "doc list" where
  "tree_sample =
     map (\<lambda>(p, ix). zero_doc\<lparr> rc_path := p, rc_derived := [(''isIndex'', VBool ix)] \<rparr>)
       [(''README.md'', True), (''a/README.md'', True), (''a/t.md'', False)]"

definition sample_stem_resolver :: stem_resolver where
  "sample_stem_resolver dir p = Inr (Some (zero_stem\<lparr> st_aggregate := [(''n'', VStr ''size'')] \<rparr>))"

text \<open>An expression language with one expression, the number of children and descendants.\<close>

fun size_of :: "val option \<Rightarrow> nat" where
  "size_of (Some (VList xs)) = length xs"
| "size_of _ = 0"

definition sample_run :: "string \<Rightarrow> vmap \<Rightarrow> string + val" where
  "sample_run p env = Inr (VInt (int (size_of (map_of env ''children'') + size_of (map_of env ''descendants''))))"

definition by_depth :: "(nat \<Rightarrow> nat) \<Rightarrow> nat list \<Rightarrow> nat list" where
  "by_depth key xs = rev (sort_key key xs)"

lemma by_depth_lawful:
  "mset (by_depth key xs) = mset xs" "sorted_wrt (\<lambda>i j. key j \<le> key i) (by_depth key xs)"
proof -
  have "sorted_wrt (\<lambda>i j. key i \<le> key j) (sort_key key xs)"
    using sorted_sort_key [of key xs] by (simp only: sorted_map)
  then show "sorted_wrt (\<lambda>i j. key j \<le> key i) (by_depth key xs)"
    by (simp add: by_depth_def sorted_wrt_rev)
qed (simp add: by_depth_def)

theorem aggregation_is_bottom_up_witness:
  "\<exists>rs'. aggregate_all Inr sample_run by_depth ''/r'' (Some sample_stem_resolver) tree_sample = (rs', None) \<and>
     map_of (rc_derived (rs' ! 0)) ''n'' = Some (VInt 2) \<and>
     rc_derived (rs' ! 0) = aggregate_fields Inr sample_run
       (aggregate_env rs' (plain_order tree_sample) (index_order by_depth tree_sample) (tree_sample ! 0))
       [(''n'', VStr ''size'')] [(''isIndex'', VBool True)]"
proof -
  let ?a = "aggregate_all Inr sample_run by_depth ''/r'' (Some sample_stem_resolver) tree_sample"
  have "snd ?a = None" by code_simp
  then obtain rs' where a: "?a = (rs', None)" by (cases ?a) simp
  have effs: "resolve_batch ''/r'' sample_stem_resolver tree_sample =
      Inr (replicate 3 (Some (zero_stem\<lparr> st_aggregate := [(''n'', VStr ''size'')] \<rparr>)))"
    by code_simp
  have paths: "list_all (\<lambda>r. tree_path (rc_path r)) tree_sample" by code_simp
  have top: "length (filter (\<lambda>i. is_index_record (tree_sample ! i) \<and> path_depth (rc_path (tree_sample ! i)) = 0)
      [0..<length tree_sample]) \<le> 1" by code_simp
  have i: "0 < length tree_sample" by code_simp
  have ix: "is_index_record (tree_sample ! 0)" "rc_derived (tree_sample ! 0) = [(''isIndex'', VBool True)]"
    by code_simp+
  have n: "map_of (rc_derived (fst ?a ! 0)) ''n'' = Some (VInt 2)" by code_simp
  from aggregation_is_bottom_up [OF by_depth_lawful paths top effs a i] ix n a show ?thesis
    by (simp add: zero_stem_def)
qed

section \<open>What a linked value depends on\<close>

text \<open>
  A batch where \<open>x.md\<close> reads the \<open>estado\<close> of the record it links to, and that record's \<open>estado\<close> is
  derived: \<open>x.md\<close> sees it only when the target comes before it in the batch.
\<close>

definition link_stem :: stem_file where
  "link_stem = zero_stem\<lparr> st_derive := [(''estado'', VStr ''e'')],
     st_links := zero_links\<lparr> ls_rules := [(''blocks'',
       \<lparr> lr_target = [], lr_field = ''by'', lr_value_field = [] \<rparr>)] \<rparr> \<rparr>"

definition linking_doc :: doc where
  "linking_doc = zero_doc\<lparr> rc_path := ''x.md'',
     rc_links := [zero_link\<lparr> lk_target := ''b.md'', lk_type := ''blocks'' \<rparr>] \<rparr>"

definition linked_doc :: doc where
  "linked_doc = zero_doc\<lparr> rc_path := ''b.md'' \<rparr>"

definition env_value :: "string \<Rightarrow> vmap \<Rightarrow> string + val" where
  "env_value p env = Inr (map_get env ''by'')"

lemma linked_derived_value_needs_order:
  "map_of (rc_derived (fst (derive_all Inr env_value ''/r'' (Some (\<lambda>_ _. Inr (Some link_stem)))
      [linking_doc, linked_doc]) ! 0)) ''estado'' = Some VNull"
  "map_of (rc_derived (fst (derive_all Inr env_value ''/r'' (Some (\<lambda>_ _. Inr (Some link_stem)))
      [linked_doc, linking_doc]) ! 1)) ''estado'' = Some (VList [VStr ''<nil>''])"
  by code_simp+

text \<open>
  A prepared link holds the key of its target from the root; derivation takes it relative to the source
  once more, so \<open>a/b.md\<close>, linked from \<open>a/x.md\<close>, is taken for \<open>a/a/b.md\<close> when that exists.
\<close>

lemma prepared_link_resolved_again:
  "linked_value
     (map (\<lambda>(p, v). zero_doc\<lparr> rc_path := p, rc_frontmatter := [(''estado'', VStr v)] \<rparr>)
        [(''a/b.md'', ''target''), (''a/a/b.md'', ''other'')])
     (new_map_resolver (map (\<lambda>p. zero_doc\<lparr> rc_path := p \<rparr>) [''a/b.md'', ''a/a/b.md'']))
     ''a/x.md'' link_stem
     (zero_link\<lparr> lk_target := ''a/b.md'', lk_type := ''blocks'', lk_resolution := ''resolved'' \<rparr>) =
   Some (''by'', ''other'')"
  by code_simp

end
