(* ===== verification/Schema_Diff.thy ===== *)
theory Schema_Diff
  imports Validation "HOL-Library.Multiset"
begin

text \<open>
  The difference of two versions of a schema, \<open>internal/migrate/diff.go\<close>, the count of the records each
  change affects, \<open>classify.go\<close>, and the aggregate expressions of \<open>aggregate.go\<close>.

  Parameters: \<open>enc\<close>, the text \<open>diffValue\<close> gives to a snapshot (JSON, or YAML for what JSON cannot
  represent), and \<open>arrange\<close>, the order \<open>sort.Slice\<close> gives to the changes, which is unspecified among
  changes of one field and kind. The iteration order of a schema map is that of its list.
\<close>

section \<open>Changes\<close>

datatype change_kind =
    FieldAdded | FieldRemoved | EnumValueAdded | EnumValueRemoved | TypeChanged | RequiredAdded
  | RequiredRemoved | DefaultChanged | SeverityChanged | SourceChanged | RuleAdded | RuleRemoved
  | PrefixChanged | DigitsChanged | MatchChanged | RequiredMatchChanged | ExcludesChanged

fun kind_text :: "change_kind \<Rightarrow> string" where
  "kind_text FieldAdded = ''field_added''"
| "kind_text FieldRemoved = ''field_removed''"
| "kind_text EnumValueAdded = ''enum_value_added''"
| "kind_text EnumValueRemoved = ''enum_value_removed''"
| "kind_text TypeChanged = ''type_changed''"
| "kind_text RequiredAdded = ''required_added''"
| "kind_text RequiredRemoved = ''required_removed''"
| "kind_text DefaultChanged = ''default_changed''"
| "kind_text SeverityChanged = ''severity_changed''"
| "kind_text SourceChanged = ''source_changed''"
| "kind_text RuleAdded = ''rule_added''"
| "kind_text RuleRemoved = ''rule_removed''"
| "kind_text PrefixChanged = ''prefix_changed''"
| "kind_text DigitsChanged = ''digits_changed''"
| "kind_text MatchChanged = ''match_changed''"
| "kind_text RequiredMatchChanged = ''required_match_changed''"
| "kind_text ExcludesChanged = ''excludes_changed''"

record change =
  ch_kind :: change_kind
  ch_field :: string
  ch_breaking :: bool
  ch_before :: string
  ch_after :: string
  ch_message :: string
  ch_affected :: nat

definition mk_change :: "change_kind \<Rightarrow> string \<Rightarrow> bool \<Rightarrow> string \<Rightarrow> string \<Rightarrow> string \<Rightarrow> change" where
  "mk_change kind field breaking old new message =
     \<lparr> ch_kind = kind, ch_field = field, ch_breaking = breaking, ch_before = old, ch_after = new,
       ch_message = message, ch_affected = 0 \<rparr>"

record diff_result =
  df_stem_path :: string
  df_changes :: "change list"
  df_breaking :: nat
  df_total :: nat

definition add_change :: "diff_result \<Rightarrow> change \<Rightarrow> diff_result" where
  "add_change r c =
     r\<lparr> df_changes := df_changes r @ [c], df_total := df_total r + 1,
        df_breaking := df_breaking r + (if ch_breaking c then 1 else 0) \<rparr>"

section \<open>One field\<close>

text \<open>The named snapshots the code encodes.\<close>

datatype snapshot =
    SnapPrefix string
  | SnapDigits int
  | SnapMatch "field_match option"
  | SnapRequiredMatch "field_match option"
  | SnapExcludes "exclude_rule option"
  | SnapRule string string string vmap vmap

definition attribute_change ::
  "(snapshot \<Rightarrow> string) \<Rightarrow> string \<Rightarrow> string \<Rightarrow> change_kind \<Rightarrow> snapshot \<Rightarrow> snapshot \<Rightarrow> change list" where
  "attribute_change enc field attribute kind old new =
     (if enc old = enc new then []
      else [mk_change kind field True (enc old) (enc new)
              (''field '' @ field @ '' '' @ attribute @ '' changed from '' @ enc old @ '' to '' @ enc new)])"

definition enum_changes :: "string \<Rightarrow> string list \<Rightarrow> string list \<Rightarrow> change list" where
  "enum_changes field old new =
     map (\<lambda>v. mk_change EnumValueAdded field False [] v (''enum value '' @ v @ '' added to '' @ field))
       (filter (\<lambda>v. v \<notin> set old) new) @
     map (\<lambda>v. mk_change EnumValueRemoved field True v [] (''enum value '' @ v @ '' removed from '' @ field))
       (filter (\<lambda>v. v \<notin> set new) old)"

definition field_changes :: "(snapshot \<Rightarrow> string) \<Rightarrow> string \<Rightarrow> schema_field \<Rightarrow> schema_field \<Rightarrow> change list" where
  "field_changes enc name old new =
     (if sf_type old \<noteq> sf_type new
      then [mk_change TypeChanged name True (sf_type old) (sf_type new)
              (''field '' @ name @ '' type changed from '' @ sf_type old @ '' to '' @ sf_type new)] else []) @
     (if \<not> sf_required old \<and> sf_required new
      then [mk_change RequiredAdded name True ''false'' ''true'' (''field '' @ name @ '' is now required'')]
      else []) @
     (if sf_required old \<and> \<not> sf_required new
      then [mk_change RequiredRemoved name False ''true'' ''false''
              (''field '' @ name @ '' is no longer required'')] else []) @
     (if sf_extract old \<noteq> sf_extract new
      then [mk_change SourceChanged name True (sf_extract old) (sf_extract new)
              (''field '' @ name @ '' source changed'')] else []) @
     (if sf_prefix old \<noteq> sf_prefix new
      then attribute_change enc name ''prefix'' PrefixChanged (SnapPrefix (sf_prefix old)) (SnapPrefix (sf_prefix new))
      else []) @
     (if sf_digits old \<noteq> sf_digits new
      then attribute_change enc name ''digits'' DigitsChanged (SnapDigits (sf_digits old)) (SnapDigits (sf_digits new))
      else []) @
     (if sf_match old \<noteq> sf_match new
      then attribute_change enc name ''match'' MatchChanged (SnapMatch (sf_match old)) (SnapMatch (sf_match new))
      else []) @
     (if sf_required_match old \<noteq> sf_required_match new
      then attribute_change enc name ''required_match'' RequiredMatchChanged
             (SnapRequiredMatch (sf_required_match old)) (SnapRequiredMatch (sf_required_match new)) else []) @
     (if sf_excludes old \<noteq> sf_excludes new
      then attribute_change enc name ''excludes'' ExcludesChanged
             (SnapExcludes (sf_excludes old)) (SnapExcludes (sf_excludes new)) else []) @
     (if sf_type old = ''enum'' \<and> sf_type new = ''enum''
      then enum_changes name (sf_values old) (sf_values new) else []) @
     (if sf_default old \<noteq> sf_default new
      then [mk_change DefaultChanged name False (sf_default old) (sf_default new)
              (''field '' @ name @ '' default changed'')] else []) @
     (if sf_severity old \<noteq> sf_severity new
      then [mk_change SeverityChanged name False (sf_severity old) (sf_severity new)
              (''field '' @ name @ '' severity changed from '' @ sf_severity old @ '' to '' @ sf_severity new)]
      else [])"

section \<open>Validation rules\<close>

definition rule_key :: "(snapshot \<Rightarrow> string) \<Rightarrow> validation_rule \<Rightarrow> string" where
  "rule_key enc r = enc (SnapRule (vr_rule r) (vr_field r) (vr_severity r) (vr_if r) (vr_then r))"

definition rule_changes :: "(snapshot \<Rightarrow> string) \<Rightarrow> validation_rule list \<Rightarrow> validation_rule list \<Rightarrow> change list" where
  "rule_changes enc old new =
     map (\<lambda>r. mk_change RuleAdded (vr_field r) False [] (rule_key enc r)
                (''validation rule added: '' @ rule_key enc r))
       (filter (\<lambda>r. rule_key enc r \<notin> rule_key enc ` set old) new) @
     map (\<lambda>r. mk_change RuleRemoved (vr_field r) True (rule_key enc r) []
                (''validation rule removed: '' @ rule_key enc r))
       (filter (\<lambda>r. rule_key enc r \<notin> rule_key enc ` set new) old)"

section \<open>The diff\<close>

definition schema_or_empty :: "stem_file option \<Rightarrow> schema" where
  "schema_or_empty s = (case s of None \<Rightarrow> [] | Some f \<Rightarrow> st_schema f)"

definition rules_or_empty :: "stem_file option \<Rightarrow> validation_rule list" where
  "rules_or_empty s = (case s of None \<Rightarrow> [] | Some f \<Rightarrow> st_validate f)"

definition added_changes :: "schema \<Rightarrow> schema \<Rightarrow> change list" where
  "added_changes old new =
     map (\<lambda>(n, f). mk_change FieldAdded n False [] (sf_type f)
                     (''field '' @ n @ '' added (type: '' @ sf_type f @ '')''))
       (filter (\<lambda>p. \<not> has_key old (fst p)) new)"

definition removed_changes :: "schema \<Rightarrow> schema \<Rightarrow> change list" where
  "removed_changes old new =
     map (\<lambda>(n, f). mk_change FieldRemoved n True (sf_type f) [] (''field '' @ n @ '' removed''))
       (filter (\<lambda>p. \<not> has_key new (fst p)) old)"

definition common_changes :: "(snapshot \<Rightarrow> string) \<Rightarrow> schema \<Rightarrow> schema \<Rightarrow> change list" where
  "common_changes enc old new =
     concat (map (\<lambda>(n, f). case map_of old n of None \<Rightarrow> [] | Some b \<Rightarrow> field_changes enc n b f) new)"

definition all_changes ::
  "(snapshot \<Rightarrow> string) \<Rightarrow> stem_file option \<Rightarrow> stem_file option \<Rightarrow> change list" where
  "all_changes enc old new =
     added_changes (schema_or_empty old) (schema_or_empty new) @
     removed_changes (schema_or_empty old) (schema_or_empty new) @
     common_changes enc (schema_or_empty old) (schema_or_empty new) @
     rule_changes enc (rules_or_empty old) (rules_or_empty new)"

definition schema_diff ::
  "(snapshot \<Rightarrow> string) \<Rightarrow> (change list \<Rightarrow> change list) \<Rightarrow> string \<Rightarrow> stem_file option \<Rightarrow> stem_file option \<Rightarrow>
     diff_result" where
  "schema_diff enc arrange path old new =
     (let r = foldl add_change \<lparr> df_stem_path = path, df_changes = [], df_breaking = 0, df_total = 0 \<rparr>
                (all_changes enc old new)
      in r\<lparr> df_changes := arrange (df_changes r) \<rparr>)"

section \<open>Affected records\<close>

definition is_affected :: "change \<Rightarrow> doc \<Rightarrow> bool" where
  "is_affected c r =
     (case ch_kind c of
        FieldRemoved \<Rightarrow> has_key (rc_frontmatter r) (ch_field c)
      | EnumValueRemoved \<Rightarrow>
          (case map_of (rc_frontmatter r) (ch_field c) of None \<Rightarrow> False | Some v \<Rightarrow> fmt_v v = ch_before c)
      | TypeChanged \<Rightarrow> has_key (rc_frontmatter r) (ch_field c)
      | PrefixChanged \<Rightarrow> has_key (rc_frontmatter r) (ch_field c)
      | DigitsChanged \<Rightarrow> has_key (rc_frontmatter r) (ch_field c)
      | RequiredAdded \<Rightarrow> \<not> has_key (rc_frontmatter r) (ch_field c)
      | RuleRemoved \<Rightarrow> True
      | RuleAdded \<Rightarrow> True
      | MatchChanged \<Rightarrow> True
      | RequiredMatchChanged \<Rightarrow> True
      | ExcludesChanged \<Rightarrow> True
      | _ \<Rightarrow> False)"

definition count_affected :: "change \<Rightarrow> doc list \<Rightarrow> nat" where
  "count_affected c records = length (filter (is_affected c) records)"

text \<open>The stable sort of \<open>Classify\<close>: breaking changes first, then field, then kind.\<close>

definition classify_key :: "change \<Rightarrow> string list" where
  "classify_key c = [if ch_breaking c then [] else ''.'', ch_field c, kind_text (ch_kind c)]"

definition classify :: "diff_result \<Rightarrow> doc list \<Rightarrow> diff_result" where
  "classify r records =
     r\<lparr> df_changes := sort_key classify_key
          (map (\<lambda>c. c\<lparr> ch_affected := count_affected c records \<rparr>) (df_changes r)) \<rparr>"

section \<open>Aggregate expressions\<close>

definition generate_aggregate_expr :: "schema_field \<Rightarrow> string" where
  "generate_aggregate_expr f =
     (if sf_type f \<noteq> ''enum'' \<or> sf_values f = [] then [] else go_quote (hd (sf_values f)))"

definition generate_aggregates :: "schema \<Rightarrow> vmap \<Rightarrow> (string \<times> string) list" where
  "generate_aggregates root_schema existing =
     List.map_filter (\<lambda>(n, f).
       if has_key existing n \<or> generate_aggregate_expr f = [] then None
       else Some (n, generate_aggregate_expr f)) root_schema"

section \<open>Counts\<close>

lemma add_change_fold:
  "df_changes (foldl add_change r cs) = df_changes r @ cs"
  "df_total (foldl add_change r cs) = df_total r + length cs"
  "df_breaking (foldl add_change r cs) = df_breaking r + length (filter ch_breaking cs)"
  by (induction cs arbitrary: r) (simp_all add: add_change_def)

lemma schema_diff_fields:
  "df_changes (schema_diff enc arrange path old new) = arrange (all_changes enc old new)"
  "df_total (schema_diff enc arrange path old new) = length (all_changes enc old new)"
  "df_breaking (schema_diff enc arrange path old new) = length (filter ch_breaking (all_changes enc old new))"
  by (simp_all add: schema_diff_def Let_def add_change_fold)

section \<open>A change that is not breaking\<close>

lemma not_breaking_field:
  assumes "list_all (\<lambda>c. \<not> ch_breaking c) (field_changes enc n b a)"
    and "\<And>x y. enc (SnapPrefix x) = enc (SnapPrefix y) \<Longrightarrow> x = y"
    and "\<And>x y. enc (SnapDigits x) = enc (SnapDigits y) \<Longrightarrow> x = y"
    and "\<And>x y. enc (SnapExcludes x) = enc (SnapExcludes y) \<Longrightarrow> x = y"
  shows "sf_type a = sf_type b" "sf_required a \<Longrightarrow> sf_required b" "sf_extract a = sf_extract b"
    "sf_prefix a = sf_prefix b" "sf_digits a = sf_digits b" "sf_excludes a = sf_excludes b"
    "sf_type b = ''enum'' \<Longrightarrow> set (sf_values b) \<subseteq> set (sf_values a)"
proof -
  note parts = assms(1) [unfolded field_changes_def list_all_append]
  show "sf_type a = sf_type b" using parts by (simp add: mk_change_def split: if_splits)
  show "sf_required a \<Longrightarrow> sf_required b" using parts by (simp add: mk_change_def split: if_splits)
  show "sf_extract a = sf_extract b" using parts by (simp add: mk_change_def split: if_splits)
  show "sf_prefix a = sf_prefix b"
    using parts assms(2) [of "sf_prefix b" "sf_prefix a"]
    by (simp add: mk_change_def attribute_change_def split: if_splits)
  show "sf_digits a = sf_digits b"
    using parts assms(3) [of "sf_digits b" "sf_digits a"]
    by (simp add: mk_change_def attribute_change_def split: if_splits)
  show "sf_excludes a = sf_excludes b"
    using parts assms(4) [of "sf_excludes b" "sf_excludes a"]
    by (simp add: mk_change_def attribute_change_def split: if_splits)
  show "set (sf_values b) \<subseteq> set (sf_values a)" if "sf_type b = ''enum''"
  proof -
    have "list_all (\<lambda>c. \<not> ch_breaking c) (enum_changes n (sf_values b) (sf_values a))"
      using parts that \<open>sf_type a = sf_type b\<close> by simp
    then show ?thesis unfolding enum_changes_def list_all_append list.pred_map
      by (auto simp: o_def mk_change_def list_all_iff)
  qed
qed

lemma not_breaking_value:
  assumes "validate_field_value b v = None" "sf_type a = sf_type b" "sf_prefix a = sf_prefix b"
    "sf_digits a = sf_digits b" "sf_type b = ''enum'' \<Longrightarrow> set (sf_values b) \<subseteq> set (sf_values a)"
  shows "validate_field_value a v = None"
proof -
  have rep: "validate_representation (sf_type b) v = None" and sem: "validate_type_semantics b v = None"
    using assms(1) by (auto simp: validate_field_value_def split: option.splits)
  have "validate_type_semantics a v = None"
  proof (cases "sf_type b = ''enum''")
    case True
    with sem have "enum_contains (sf_values b) v" by (simp add: validate_type_semantics_def split: if_splits)
    with assms(5) [OF True] True assms(2) show ?thesis
      by (auto simp: validate_type_semantics_def enum_contains_def)
  next
    case False
    have "validate_type_semantics a v = validate_type_semantics b v"
      by (simp only: validate_type_semantics_def assms(2-4) False if_False)
    with sem show ?thesis by simp
  qed
  with rep assms(2) show ?thesis by (simp add: validate_field_value_def)
qed

lemma field_changes_in_diff:
  "map_of (st_schema old) n = Some b \<Longrightarrow> map_of (st_schema new) n = Some a \<Longrightarrow>
     set (field_changes enc n b a) \<subseteq> set (all_changes enc (Some old) (Some new))"
proof -
  assume b: "map_of (st_schema old) n = Some b" and "map_of (st_schema new) n = Some a"
  from this(2) have a: "(n, a) \<in> set (st_schema new)" by (rule map_of_SomeD)
  have "set (field_changes enc n b a) \<subseteq> set (common_changes enc (st_schema old) (st_schema new))"
    unfolding common_changes_def set_concat set_map
    by (rule Sup_upper2 [OF imageI [OF imageI [OF a]]]) (simp add: b)
  then show ?thesis by (auto simp: all_changes_def schema_or_empty_def)
qed

text \<open>C33: A diff without breaking changes breaks no field that was there: when none of the changes counts as
  breaking, a record whose field passed its check under the old schema passes it under the new one,
  provided the field's severity, the aggregate section and the index file of the schema are the same.
  The encoding tells prefixes, widths and exclusions apart.\<close>

theorem non_breaking_keeps_field_valid:
  assumes enc: "\<And>x y. enc (SnapPrefix x) = enc (SnapPrefix y) \<Longrightarrow> x = y"
      "\<And>x y. enc (SnapDigits x) = enc (SnapDigits y) \<Longrightarrow> x = y"
      "\<And>x y. enc (SnapExcludes x) = enc (SnapExcludes y) \<Longrightarrow> x = y"
    and nb: "df_breaking (schema_diff enc arrange path (Some old) (Some new)) = 0"
    and "has_key (st_schema old) n"
    and sev: "map_option sf_severity (map_of (st_schema new) n) = map_option sf_severity (map_of (st_schema old) n)"
    and "st_aggregate new = st_aggregate old" "st_subdirs new = st_subdirs old"
    and ok: "field_outcome_of gm fuzzy r old n = FieldOk"
  shows "field_outcome_of gm fuzzy r new n = FieldOk"
proof -
  obtain b a where ba: "map_of (st_schema old) n = Some b" "map_of (st_schema new) n = Some a"
      "sf_severity a = sf_severity b"
    using assms(5) sev by (auto simp: has_key_def)
  have "list_all (\<lambda>c. \<not> ch_breaking c) (field_changes enc n b a)"
    using nb field_changes_in_diff [OF ba(1,2), of enc]
    by (auto simp: schema_diff_fields filter_empty_conv list_all_iff)
  note same = not_breaking_field [OF this enc]
  have res: "resolve_field_value gm r n a = resolve_field_value gm r n b"
    by (simp only: resolve_field_value_def same(3))
  have app: "required_check_applies r new n a = required_check_applies r old n b"
    by (simp add: required_check_applies_def ba(3) same(6) assms(7,8))
  have cb: "check_field gm fuzzy r old n b = FieldOk" using ok by (simp add: field_outcome_of_def ba(1))
  have "check_field gm fuzzy r new n a = FieldOk"
  proof (cases "sf_severity b = ''off''")
    case True
    then show ?thesis by (simp add: check_field_def ba(3))
  next
    case False
    with cb obtain o' where o': "resolve_field_value gm r n b = Inr o'"
      by (auto simp: check_field_def split: sum.splits)
    show ?thesis
    proof (cases o')
      case None
      with False cb o' same(2) show ?thesis by (auto simp: check_field_def ba(3) res app split: if_splits)
    next
      case (Some v)
      with False cb o' have "validate_field_value b v = None"
        by (auto simp: check_field_def split: option.splits)
      from not_breaking_value [OF this same(1,4,5,7)] False Some o' show ?thesis
        by (simp add: check_field_def ba(3) res)
    qed
  qed
  then show ?thesis by (simp add: field_outcome_of_def ba(2))
qed

text \<open>An encoding that tells everything the theorem needs apart.\<close>

fun sample_enc :: "snapshot \<Rightarrow> string" where
  "sample_enc (SnapPrefix p) = CHR ''p'' # p"
| "sample_enc (SnapDigits i) = (if i < 0 then CHR ''-'' else CHR ''+'') # replicate (nat \<bar>i\<bar>) (CHR ''d'')"
| "sample_enc (SnapExcludes None) = []"
| "sample_enc (SnapExcludes (Some e)) = CHR ''e'' # ex_match e"
| "sample_enc _ = ''m''"

lemma sample_enc_digits: "sample_enc (SnapDigits x) = sample_enc (SnapDigits y) \<Longrightarrow> x = y"
  by (auto simp: replicate_eq_replicate split: if_splits)

lemma sample_enc_excludes: "sample_enc (SnapExcludes x) = sample_enc (SnapExcludes y) \<Longrightarrow> x = y"
  by (cases x; cases y) (auto intro: exclude_rule.equality)

definition enum_schema :: "string list \<Rightarrow> stem_file" where
  "enum_schema vs = zero_stem\<lparr> st_schema :=
     [(''estado'', zero_field\<lparr> sf_type := ''enum'', sf_values := vs, sf_required := True \<rparr>)] \<rparr>"

definition estado_doc :: doc where
  "estado_doc = zero_doc\<lparr> rc_path := ''x.md'', rc_frontmatter := [(''estado'', VStr ''a'')] \<rparr>"

theorem non_breaking_keeps_field_valid_witness:
  "field_outcome_of no_headings no_fuzzy estado_doc (enum_schema [''a'', ''b'']) ''estado'' = FieldOk"
proof (rule non_breaking_keeps_field_valid [where enc = sample_enc and arrange = "\<lambda>x. x" and path = "[]"
      and old = "enum_schema [''a'']"])
  show "df_breaking (schema_diff sample_enc (\<lambda>x. x) [] (Some (enum_schema [''a'']))
      (Some (enum_schema [''a'', ''b'']))) = 0" by code_simp
  show "field_outcome_of no_headings no_fuzzy estado_doc (enum_schema [''a'']) ''estado'' = FieldOk"
    by code_simp
  show "has_key (st_schema (enum_schema [''a''])) ''estado''" by code_simp
  show "map_option sf_severity (map_of (st_schema (enum_schema [''a'', ''b''])) ''estado'') =
      map_option sf_severity (map_of (st_schema (enum_schema [''a''])) ''estado'')" by code_simp
  show "st_aggregate (enum_schema [''a'', ''b'']) = st_aggregate (enum_schema [''a''])"
    "st_subdirs (enum_schema [''a'', ''b'']) = st_subdirs (enum_schema [''a''])"
    by (simp_all add: enum_schema_def)
qed (rule sample_enc_digits sample_enc_excludes | simp)+

section \<open>Changes that break records and count as harmless\<close>

definition plain_stem :: "schema \<Rightarrow> stem_file" where
  "plain_stem sch = zero_stem\<lparr> st_schema := sch \<rparr>"

definition bare_doc :: doc where
  "bare_doc = zero_doc\<lparr> rc_path := ''x.md'' \<rparr>"

text \<open>A new required field, and a severity raised from \<open>off\<close>.\<close>

lemma required_field_added_not_breaking:
  "let f = zero_field\<lparr> sf_type := ''string'', sf_required := True \<rparr>;
       d = schema_diff sample_enc (\<lambda>x. x) [] (Some (plain_stem [])) (Some (plain_stem [(''k'', f)]))
   in df_breaking d = 0 \<and> df_total d = 1 \<and>
      schema_errors no_headings no_fuzzy bare_doc (plain_stem []) = [] \<and>
      schema_errors no_headings no_fuzzy bare_doc (plain_stem [(''k'', f)]) \<noteq> []"
  by code_simp

lemma severity_raised_not_breaking:
  "let f = zero_field\<lparr> sf_type := ''string'', sf_required := True \<rparr>;
       old = plain_stem [(''k'', f\<lparr> sf_severity := ''off'' \<rparr>)];
       new = plain_stem [(''k'', f\<lparr> sf_severity := ''error'' \<rparr>)];
       d = schema_diff sample_enc (\<lambda>x. x) [] (Some old) (Some new)
   in df_breaking d = 0 \<and> df_total d = 1 \<and>
      schema_errors no_headings no_fuzzy bare_doc old = [] \<and>
      schema_errors no_headings no_fuzzy bare_doc new \<noteq> []"
  by code_simp

text \<open>The sections the diff does not look at.\<close>

lemma diff_ignores_links_and_derivation:
  "schema_diff enc arrange path (Some s)
     (Some (s\<lparr> st_links := l, st_derive := d, st_aggregate := a, st_subdirs := sd, st_scope := m, st_root := x \<rparr>)) =
   schema_diff enc arrange path (Some s) (Some s)"
  by (simp add: schema_diff_def all_changes_def schema_or_empty_def rules_or_empty_def)

end
