(* ===== verification/Explanation.thy ===== *)
theory Explanation
  imports Validation
begin

text \<open>
  What is shown to people: the explanation of a record's fields, \<open>internal/rules/explain.go\<close>; the public form
  of validation sources, \<open>source_normalization.go\<close>; the missing sections that can be written into a
  document, \<open>section_materialization.go\<close>; and the text \<open>migrate scaffold\<close> appends for them,
  \<open>internal/migrate/scaffold.go\<close>.
\<close>

section \<open>Explaining a record\<close>

record explain_field =
  xf_name :: string
  xf_value :: "val option"
  xf_origin :: string
  xf_source :: string
  xf_defined_in :: string
  xf_expression :: string

record explain_result =
  xr_path :: string
  xr_chain :: "string list"
  xr_provenance :: "(string \<times> string) list"
  xr_fields :: "explain_field list"
  xr_errors :: "validation_error list"

definition explain_field_names :: "doc option \<Rightarrow> stem_file option \<Rightarrow> string list" where
  "explain_field_names r eff =
     sort (remdups
       ((case r of None \<Rightarrow> [] | Some d \<Rightarrow> map fst (rc_frontmatter d) @ map fst (rc_derived d)) @
        (case eff of None \<Rightarrow> [] | Some s \<Rightarrow>
           map fst (st_schema s) @ map fst (st_derive s) @ map fst (st_aggregate s))))"

definition explain_origin :: "doc option \<Rightarrow> string \<Rightarrow> string" where
  "explain_origin r name =
     (case r of
        None \<Rightarrow> ''schema''
      | Some d \<Rightarrow>
          if has_key (rc_frontmatter d) name then ''frontmatter''
          else if has_key (rc_derived d) name then ''derived'' else ''schema'')"

definition explain_provenance :: "stem_entry list \<Rightarrow> (string \<times> string) list" where
  "explain_provenance entries =
     foldl (\<lambda>m e. foldl (\<lambda>m n. AList.update n (se_path e) m) m (map fst (st_schema (se_stem e)))) [] entries"

text \<open>\<open>ResolveEffectiveField\<close> of a record that may be missing: a source field of no record has no value.\<close>

definition resolve_optional_field ::
  "(string \<Rightarrow> ast_heading list) \<Rightarrow> doc option \<Rightarrow> stem_file \<Rightarrow> string \<Rightarrow> go_error + val option" where
  "resolve_optional_field gm r s name =
     (case r of None \<Rightarrow> Inr None | Some d \<Rightarrow> resolve_effective_field gm d s name)"

definition expression_text :: "val \<Rightarrow> string" where
  "expression_text v = (case v of VStr s \<Rightarrow> s | _ \<Rightarrow> [])"

definition explain_expression :: "stem_file \<Rightarrow> string \<Rightarrow> explain_field \<Rightarrow> explain_field" where
  "explain_expression s name f =
     (case map_of (st_derive s) name of
        Some e \<Rightarrow> f\<lparr> xf_expression := expression_text e \<rparr>
      | None \<Rightarrow>
          (case map_of (st_aggregate s) name of
             Some e \<Rightarrow> f\<lparr> xf_origin := ''aggregate'', xf_expression := expression_text e \<rparr>
           | None \<Rightarrow> f))"

definition explain_one ::
  "(string \<Rightarrow> ast_heading list) \<Rightarrow> doc option \<Rightarrow> stem_file option \<Rightarrow> string \<Rightarrow> go_error + explain_field" where
  "explain_one gm r eff name =
     (let f0 = \<lparr> xf_name = name,
                 xf_value = (case r of None \<Rightarrow> None | Some d \<Rightarrow> effective_field d name),
                 xf_origin = explain_origin r name, xf_source = [], xf_defined_in = [], xf_expression = [] \<rparr>
      in case eff of
           None \<Rightarrow> Inr f0
         | Some s \<Rightarrow>
             (case (case map_of (st_schema s) name of
                      None \<Rightarrow> Inr f0
                    | Some sf \<Rightarrow>
                        (case resolve_optional_field gm r s name of
                           Inl e \<Rightarrow> Inl e
                         | Inr o' \<Rightarrow>
                             let f1 = (case o' of
                                         Some v \<Rightarrow>
                                           f0\<lparr> xf_value := Some v,
                                               xf_origin := (if xf_origin f0 = ''schema'' \<and> sf_extract sf \<noteq> []
                                                             then ''derived'' else xf_origin f0) \<rparr>
                                       | None \<Rightarrow>
                                           if sf_default sf \<noteq> []
                                           then f0\<lparr> xf_value := Some (VStr (sf_default sf)) \<rparr> else f0)
                             in Inr (f1\<lparr> xf_source := sf_extract sf, xf_defined_in := sf_source sf \<rparr>))) of
                Inl e \<Rightarrow> Inl e
              | Inr f \<Rightarrow> Inr (explain_expression s name f)))"

definition new_explain_result ::
  "(string \<Rightarrow> ast_heading list) \<Rightarrow> string \<Rightarrow> stem_entry list \<Rightarrow> stem_file option \<Rightarrow> doc option \<Rightarrow>
     validation_error list \<Rightarrow> go_error + explain_result" where
  "new_explain_result gm path entries eff r errs =
     (case try_map (explain_one gm r eff) (explain_field_names r eff) of
        Inl e \<Rightarrow> Inl e
      | Inr traced \<Rightarrow>
          Inr \<lparr> xr_path = path, xr_chain = map se_path entries, xr_provenance = explain_provenance entries,
                xr_fields = traced, xr_errors = errs \<rparr>)"

section \<open>Public sources\<close>

abbreviation (input) bslash :: char where "bslash \<equiv> CHR 0x5C"

fun replace_double_slash :: "string \<Rightarrow> string" where
  "replace_double_slash (c # d # cs) =
     (if c = slash \<and> d = slash then slash # replace_double_slash cs
      else c # replace_double_slash (d # cs))"
| "replace_double_slash cs = cs"

lemma length_replace_double_slash:
  "length (replace_double_slash s) \<le> length s"
  "str_contains s ''//'' \<Longrightarrow> length (replace_double_slash s) < length s"
proof -
  show le: "length (replace_double_slash s) \<le> length s" for s
    by (induction s rule: replace_double_slash.induct) auto
  show "str_contains s ''//'' \<Longrightarrow> length (replace_double_slash s) < length s"
  proof (induction s rule: replace_double_slash.induct)
    case (1 c d cs)
    with le [of cs] show ?case by (auto simp: str_contains_def split: if_splits)
  qed (simp_all add: str_contains_def)
qed

function collapse_slashes :: "string \<Rightarrow> string" where
  "collapse_slashes s =
     (if str_contains s ''//'' then collapse_slashes (replace_double_slash s) else s)"
  by pat_completeness auto
termination by (relation "measure length") (auto intro: length_replace_double_slash)

declare collapse_slashes.simps [simp del]

definition normalize_public_path :: "string \<Rightarrow> string" where
  "normalize_public_path p = collapse_slashes (map (\<lambda>c. if c = bslash then slash else c) p)"

definition escapes_root :: "string \<Rightarrow> bool" where
  "escapes_root rel =
     (let r = path_clean (normalize_public_path rel)
      in r = ''..'' \<or> has_prefix r ''../'' \<or> has_prefix r ''/'')"

definition has_windows_drive :: "string \<Rightarrow> bool" where
  "has_windows_drive p =
     (case p of
        c # d # _ \<Rightarrow> (let n = of_char c :: nat in (65 \<le> n \<and> n \<le> 90 \<or> 97 \<le> n \<and> n \<le> 122)) \<and> d = CHR '':''
      | _ \<Rightarrow> False)"

definition is_windows_unc :: "string \<Rightarrow> bool" where
  "is_windows_unc p = has_prefix p [bslash, bslash]"

definition clean_governance_root :: "string \<Rightarrow> go_error + string" where
  "clean_governance_root root =
     (if root = [] \<or> has_windows_drive root \<and> \<not> is_abs root \<or> is_windows_unc root
      then Inl (Err ''invalid governance root'')
      else let clean = path_clean root in
        if clean = ''.'' \<or> \<not> is_abs clean then Inl (Err ''invalid governance root'') else Inr clean)"

definition unsupported_source :: "string \<Rightarrow> go_error" where
  "unsupported_source s = Err (''unsupported validation source '' @ go_quote s)"

definition is_symbolic_source :: "string \<Rightarrow> go_error + bool" where
  "is_symbolic_source s =
     (if s \<in> {[], ''schema'', ''scope'', ''links.checks''} then Inr True
      else if has_prefix s ''body.'' then
        (case parse_body_source s of Inl _ \<Rightarrow> Inl (unsupported_source s) | Inr _ \<Rightarrow> Inr True)
      else Inr False)"

definition is_path_backed_source :: "string \<Rightarrow> bool" where
  "is_path_backed_source s =
     (if is_abs s \<or> has_windows_drive s \<or> is_windows_unc s \<or> slash \<in> set s \<or> bslash \<in> set s then True
      else let p = normalize_public_path s
           in p = ''.stem'' \<or> has_suffix p ''.md'' \<or> has_suffix p ''.markdown'')"

definition outside_root :: go_error where
  "outside_root = Err ''validation source outside governance root''"

definition normalize_validation_source :: "string \<Rightarrow> string \<Rightarrow> go_error + string" where
  "normalize_validation_source source root =
     (if has_windows_drive source \<and> \<not> is_abs source then Inl outside_root
      else if is_windows_unc source then Inl outside_root
      else if is_abs source then
        (case path_rel root source of
           None \<Rightarrow> Inl outside_root
         | Some rel \<Rightarrow> if escapes_root rel then Inl outside_root else Inr (normalize_public_path rel))
      else let rel = path_clean (normalize_public_path source)
           in if escapes_root rel then Inl outside_root else Inr rel)"

definition normalize_one_source :: "string \<Rightarrow> validation_error \<Rightarrow> go_error + validation_error" where
  "normalize_one_source root e =
     (case is_symbolic_source (ve_source e) of
        Inl err \<Rightarrow> Inl err
      | Inr symbolic \<Rightarrow>
          if symbolic then Inr e
          else if \<not> is_path_backed_source (ve_source e) then Inl (unsupported_source (ve_source e))
          else map_sum id (\<lambda>rel. e\<lparr> ve_source := rel \<rparr>) (normalize_validation_source (ve_source e) root))"

definition normalize_validation_sources ::
  "validation_error list \<Rightarrow> string \<Rightarrow> go_error + validation_error list" where
  "normalize_validation_sources errs governance_root =
     (case clean_governance_root governance_root of
        Inl e \<Rightarrow> Inl e
      | Inr root \<Rightarrow> try_map (normalize_one_source root) errs)"

section \<open>Missing sections\<close>

record section_materialization =
  sm_field :: string
  sm_heading :: string
  sm_rendered :: string
  sm_content :: string

definition markdown_heading :: "section_materialization \<Rightarrow> string" where
  "markdown_heading m = (if sm_rendered m \<noteq> [] then sm_rendered m else sm_heading m)"

text \<open>What one field of the filtered schema asks for: an error, nothing, or a section.\<close>

definition materialize_field ::
  "(string \<Rightarrow> ast_heading list) \<Rightarrow> doc \<Rightarrow> stem_file \<Rightarrow> string \<Rightarrow> schema_field \<Rightarrow>
     go_error + section_materialization option" where
  "materialize_field gm r local name field =
     (if \<not> sf_required field \<or> \<not> required_check_applies r local name field then Inr None
      else if sf_extract field = [] \<or> sf_type field \<noteq> ''string'' then Inr None
      else case parse_body_source (sf_extract field) of
          Inl e \<Rightarrow> Inl e
        | Inr SourceH1 \<Rightarrow> Inr None
        | Inr (SourceSection heading sel) \<Rightarrow>
            (case resolve_field_value gm r name field of
               Inl e \<Rightarrow> Inl e
             | Inr (Some _) \<Rightarrow> Inr None
             | Inr None \<Rightarrow>
                 if length sel > 1 then
                   (case canonical_section_selector_source sel of
                      Inl e \<Rightarrow> Inl e
                    | Inr canonical \<Rightarrow>
                        Inl (Err (''cannot materialize required field '' @ go_quote name @
                          '': qualified section selector '' @ canonical @ '' is missing'')))
                 else
                   (case materialize_heading gm (hd sel) of
                      Inl e \<Rightarrow> Inl (Wrapped (''cannot materialize required field '' @ go_quote name) e)
                    | Inr rendered \<Rightarrow>
                        Inr (Some \<lparr> sm_field = name, sm_heading = heading,
                                    sm_rendered = (if rendered \<noteq> heading then rendered else []),
                                    sm_content = (if sf_default field = [] then ''<!-- TODO -->''
                                                  else sf_default field) \<rparr>))))"

text \<open>The first group of materializations with one heading that has more than one member.\<close>

function reject_duplicate_headings :: "section_materialization list \<Rightarrow> go_error option" where
  "reject_duplicate_headings [] = None"
| "reject_duplicate_headings (m # ms) =
     (let same = takeWhile (\<lambda>x. sm_heading x = sm_heading m) ms in
      if same \<noteq> [] then
        Some (Err (''multiple required fields '' @ join_with '', '' (map sm_field (m # same)) @
          '' materialize missing section '' @ go_quote (sm_heading m) @ '' ambiguously''))
      else reject_duplicate_headings (dropWhile (\<lambda>x. sm_heading x = sm_heading m) ms))"
  by pat_completeness auto
termination by (relation "measure length") (auto simp: le_imp_less_Suc length_dropWhile_le)

definition required_section_materializations ::
  "(string \<Rightarrow> ast_heading list) \<Rightarrow> doc \<Rightarrow> stem_file \<Rightarrow> go_error + section_materialization list" where
  "required_section_materializations gm r eff =
     (if st_schema eff = [] then Inr []
      else case find (\<lambda>n. validate_field_declaration n (the (map_of (st_schema eff) n)) \<noteq> [])
                  (sorted_keys (st_schema eff)) of
          Some n \<Rightarrow>
            Inl (Err (''field '' @ go_quote n @ '': '' @
              is_message (hd (validate_field_declaration n (the (map_of (st_schema eff) n))))))
        | None \<Rightarrow>
            (case filter_schema_by_match (st_schema eff) (rc_path r) of
               Inl e \<Rightarrow> Inl e
             | Inr sch \<Rightarrow>
                 (case try_map (\<lambda>n. materialize_field gm r (eff\<lparr> st_schema := sch \<rparr>) n (the (map_of sch n)))
                     (sorted_keys sch) of
                    Inl e \<Rightarrow> Inl e
                  | Inr out \<Rightarrow>
                      let ms = sort_key (\<lambda>m. [sm_heading m, sm_field m]) (List.map_filter (\<lambda>x. x) out)
                      in case reject_duplicate_headings ms of Some e \<Rightarrow> Inl e | None \<Rightarrow> Inr ms)))"

section \<open>Scaffolding\<close>

definition render_section :: "section_materialization \<Rightarrow> string" where
  "render_section m =
     [LF] @ markdown_heading m @ [LF, LF] @ trim_right_chars [LF] (sm_content m) @ [LF]"

definition render_scaffolded_content :: "string \<Rightarrow> section_materialization list \<Rightarrow> string" where
  "render_scaffolded_content data sections =
     (if has_suffix data [LF] then data else data @ [LF]) @ concat (map render_section sections)"

section \<open>Public sources stay inside the root\<close>

lemma no_double_slash_fixed: "\<not> str_contains s ''//'' \<Longrightarrow> collapse_slashes s = s"
  by (subst collapse_slashes.simps) simp

lemma collapse_no_double_slash: "\<not> str_contains (collapse_slashes s) ''//''"
  by (induction s rule: collapse_slashes.induct) (subst collapse_slashes.simps, simp)

lemma set_replace_double_slash: "set (replace_double_slash s) \<subseteq> set s"
  by (induction s rule: replace_double_slash.induct) auto

lemma set_collapse_slashes: "set (collapse_slashes s) \<subseteq> set s"
proof (induction s rule: collapse_slashes.induct)
  case (1 s)
  with set_replace_double_slash [of s] show ?case by (subst collapse_slashes.simps) auto
qed

lemma normalize_public_path_idem: "normalize_public_path (normalize_public_path p) = normalize_public_path p"
proof -
  let ?f = "\<lambda>c. if c = bslash then slash else c"
  have "bslash \<notin> set (normalize_public_path p)"
    using set_collapse_slashes [of "map ?f p"] by (auto simp: normalize_public_path_def split: if_splits)
  then have "map ?f (normalize_public_path p) = normalize_public_path p"
    by (intro map_idI) auto
  then show ?thesis
    by (metis normalize_public_path_def no_double_slash_fixed collapse_no_double_slash)
qed

lemma normalized_source_inside:
  "normalize_validation_source s root = Inr rel \<Longrightarrow> \<not> escapes_root rel"
  by (auto simp: normalize_validation_source_def Let_def escapes_root_def normalize_public_path_idem
      split: if_splits option.splits)

lemma list_all2_try_map:
  "try_map f xs = Inr ys \<Longrightarrow> (\<And>x y. f x = Inr y \<Longrightarrow> P x y) \<Longrightarrow> list_all2 P xs ys"
  by (induction xs arbitrary: ys) (auto split: sum.splits)

text \<open>What is published never points outside the governance root: when the sources of a report are
  normalised, each error keeps everything but its source, a symbolic source is unchanged, and any other
  one becomes a path that, cleaned, is relative and does not climb above the root.\<close>

theorem public_sources_inside_root:
  "case normalize_validation_sources errs root of
     Inl _ \<Rightarrow> True
   | Inr out \<Rightarrow> list_all2 (\<lambda>e e'. e' = e\<lparr> ve_source := ve_source e' \<rparr> \<and>
       (if is_symbolic_source (ve_source e) = Inr True then ve_source e' = ve_source e
        else \<not> escapes_root (ve_source e'))) errs out"
proof (cases "normalize_validation_sources errs root")
  case (Inr out)
  then obtain r where "try_map (normalize_one_source r) errs = Inr out"
    by (auto simp: normalize_validation_sources_def split: sum.splits)
  moreover have "e' = e\<lparr> ve_source := ve_source e' \<rparr> \<and>
       (if is_symbolic_source (ve_source e) = Inr True then ve_source e' = ve_source e
        else \<not> escapes_root (ve_source e'))" if "normalize_one_source r e = Inr e'" for e e'
    using that
    by (cases "normalize_validation_source (ve_source e) r")
      (auto simp: normalize_one_source_def normalized_source_inside split: sum.splits if_splits)
  ultimately show ?thesis using Inr by (simp add: list_all2_try_map)
qed simp

text \<open>What makes an answer of the normaliser useful: a file below the root keeps its path from there.\<close>

lemma source_below_root_sample:
  "normalize_validation_source ''/r/docs/.stem'' ''/r'' = Inr ''docs/.stem''"
  "normalize_validation_source ''/etc/x.md'' ''/r'' = Inl outside_root"
  by code_simp+

section \<open>Sections that can be written\<close>

lemma reject_duplicates_strict:
  "sorted (map sm_heading ms) \<Longrightarrow> reject_duplicate_headings ms = None \<Longrightarrow>
     sorted_wrt (<) (map sm_heading ms)"
proof (induction ms rule: reject_duplicate_headings.induct)
  case (2 m ms)
  have "takeWhile (\<lambda>x. sm_heading x = sm_heading m) ms = []"
    using 2(3) by (auto simp: Let_def split: if_splits)
  then have d: "dropWhile (\<lambda>x. sm_heading x = sm_heading m) ms = ms"
    by (metis append_Nil takeWhile_dropWhile_id)
  have ne: "ms = [] \<or> sm_heading (hd ms) \<noteq> sm_heading m"
    using \<open>takeWhile _ ms = []\<close> by (cases ms) (auto split: if_splits)
  have "sorted_wrt (<) (map sm_heading ms)"
    using 2 d \<open>takeWhile _ ms = []\<close> by (auto simp: Let_def)
  moreover have "sm_heading m < sm_heading x" if "x \<in> set ms" for x
  proof (cases ms)
    case (Cons y ys)
    with 2(2) ne have "sm_heading m < sm_heading y" by auto
    moreover have "sm_heading y \<le> sm_heading x" using 2(2) that Cons by auto
    ultimately show ?thesis by simp
  qed (use that in simp)
  ultimately show ?case by auto
qed simp

lemma sorted_first_key:
  "sorted (map (\<lambda>m. [f m, g m]) ms) \<Longrightarrow> sorted (map f ms)" for f :: "'a \<Rightarrow> string"
  by (induction ms) (auto simp: le_less)

text \<open>A materialization stands for a required field whose section the record lacks.\<close>

definition missing_section ::
  "(string \<Rightarrow> ast_heading list) \<Rightarrow> doc \<Rightarrow> schema \<Rightarrow> section_materialization \<Rightarrow> bool" where
  "missing_section gm r sch m =
     (case map_of sch (sm_field m) of
        None \<Rightarrow> False
      | Some f \<Rightarrow> sf_required f \<and> resolve_field_value gm r (sm_field m) f = Inr None)"

lemma materialize_field_missing:
  "materialize_field gm r local n f = Inr (Some m) \<Longrightarrow>
     sm_field m = n \<and> sf_required f \<and> resolve_field_value gm r n f = Inr None"
  by (auto simp: materialize_field_def split: if_splits sum.splits body_source.splits option.splits)

text \<open>Materialization asks for each missing section once: the result lists required fields of the
  record's own schema whose section the record lacks, with headings that strictly increase, so no two
  fields fill one heading and the order does not depend on the schema map.\<close>

theorem materializations_unique:
  assumes "required_section_materializations gm r eff = Inr ms"
  shows "sorted_wrt (<) (map sm_heading ms) \<and>
    (ms = [] \<or> (\<exists>sch. filter_schema_by_match (st_schema eff) (rc_path r) = Inr sch \<and>
       list_all (missing_section gm r sch) ms))"
proof (cases "st_schema eff = []")
  case False
  then obtain sch out where sch: "filter_schema_by_match (st_schema eff) (rc_path r) = Inr sch"
      and out: "try_map (\<lambda>n. materialize_field gm r (eff\<lparr> st_schema := sch \<rparr>) n (the (map_of sch n)))
                  (sorted_keys sch) = Inr out"
      and ms: "ms = sort_key (\<lambda>m. [sm_heading m, sm_field m]) (List.map_filter (\<lambda>x. x) out)"
      and rej: "reject_duplicate_headings ms = None"
    using assms by (auto simp: required_section_materializations_def Let_def
        split: option.splits sum.splits)
  have "sorted (map sm_heading ms)"
    unfolding ms by (rule sorted_first_key [where g = sm_field]) simp
  from reject_duplicates_strict [OF this rej] have "sorted_wrt (<) (map sm_heading ms)" .
  moreover have "missing_section gm r sch m" if "m \<in> set ms" for m
  proof -
    have "Some m \<in> set out" using that by (auto simp: ms map_filter_def)
    then obtain i where "i < length out" "out ! i = Some m" by (auto simp: in_set_conv_nth)
    with try_map_InrD [OF out] have i: "i < length (sorted_keys sch)"
      and n: "materialize_field gm r (eff\<lparr> st_schema := sch \<rparr>) (sorted_keys sch ! i)
            (the (map_of sch (sorted_keys sch ! i))) = Inr (Some m)" by auto
    from nth_mem [OF i] obtain f where f: "map_of sch (sorted_keys sch ! i) = Some f" by auto
    with materialize_field_missing [OF n] show ?thesis by (simp add: missing_section_def)
  qed
  ultimately show ?thesis using sch by (auto simp: list_all_iff)
qed (use assms in \<open>simp add: required_section_materializations_def\<close>)

definition notes_headings :: "string \<Rightarrow> ast_heading list" where
  "notes_headings s =
     (if s = ''## Notes'' then [\<lparr> ah_level = 2, ah_pos = 0, ah_segments = [(3, 8)] \<rparr>] else [])"

definition notes_directive :: string where
  "notes_directive = ''body.section['' @ [CHR 0x22] @ ''## Notes'' @ [CHR 0x22] @ '']''"

definition notes_field :: schema_field where
  "notes_field = zero_field\<lparr> sf_type := ''string'', sf_required := True, sf_extract := notes_directive,
     sf_decl := zero_decl\<lparr> type_present := True, source_present := True \<rparr> \<rparr>"

definition notes_schema :: stem_file where
  "notes_schema = zero_stem\<lparr> st_schema := [(''notes'', notes_field)] \<rparr>"

definition empty_doc :: doc where
  "empty_doc = zero_doc\<lparr> rc_path := ''x.md'' \<rparr>"

lemma notes_materialized:
  "required_section_materializations notes_headings empty_doc notes_schema =
     Inr [\<lparr> sm_field = ''notes'', sm_heading = ''## Notes'', sm_rendered = [], sm_content = ''<!-- TODO -->'' \<rparr>]"
proof -
  have "validate_field_declaration ''notes'' notes_field = []"
    "filter_schema_by_match [(''notes'', notes_field)] (rc_path empty_doc) = Inr [(''notes'', notes_field)]"
    "materialize_field notes_headings empty_doc (notes_schema\<lparr> st_schema := [(''notes'', notes_field)] \<rparr>)
       ''notes'' notes_field = Inr (Some \<lparr> sm_field = ''notes'', sm_heading = ''## Notes'', sm_rendered = [],
                               sm_content = ''<!-- TODO -->'' \<rparr>)"
    by code_simp+
  moreover have "st_schema notes_schema = [(''notes'', notes_field)]" by (simp add: notes_schema_def)
  ultimately show ?thesis
    by (simp add: required_section_materializations_def sorted_keys_def map_filter_simps)
qed

theorem materializations_unique_witness:
  "sorted_wrt (<) (map sm_heading [\<lparr> sm_field = ''notes'', sm_heading = ''## Notes'', sm_rendered = [],
     sm_content = ''<!-- TODO -->'' \<rparr>])"
  using materializations_unique [OF notes_materialized] by blast

text \<open>A field that is both written and derived is shown with the derived value and the written origin.\<close>

lemma explained_origin_of_other_value:
  "explain_one no_headings
     (Some (zero_doc\<lparr> rc_frontmatter := [(''k'', VStr ''written'')], rc_derived := [(''k'', VStr ''derived'')] \<rparr>))
     None ''k'' =
   Inr \<lparr> xf_name = ''k'', xf_value = Some (VStr ''derived''), xf_origin = ''frontmatter'',
         xf_source = [], xf_defined_in = [], xf_expression = [] \<rparr>"
  by code_simp

end
