(* ===== verification/Inference.thy ===== *)
theory Inference
  imports Schema_Diff
begin

text \<open>
  The inference of a schema from records, \<open>internal/infer/infer.go\<close>; the levels of a numbered directory
  hierarchy and the distribution of the fields over them, \<open>hierarchy.go\<close>; the parts of \<open>schema_gen.go\<close>
  that put inferences into a schema; and the distribution of an existing schema of \<open>migrate split\<close>,
  \<open>internal/migrate/split.go\<close>.

  Shares of records are compared as floats in the code; for fewer than \<open>2^50\<close> records that is the exact
  comparison written here.
\<close>

section \<open>Statistics of a field\<close>

record field_stats =
  fs_name :: string
  fs_count :: nat
  fs_total :: nat
  fs_unique :: "string list"
  fs_type :: string
  fs_has_list :: bool

record inferred_schema =
  in_fields :: "(string \<times> field_stats) list"
  in_schema :: schema
  in_total :: nat
  in_with :: nat
  in_without :: nat

text \<open>The values a record has for a field, the texts counted for one value, and what \<open>Analyze\<close> gathers.\<close>

definition field_occurrences :: "string \<Rightarrow> doc list \<Rightarrow> val list" where
  "field_occurrences name records = List.map_filter (\<lambda>r. map_of (rc_frontmatter r) name) records"

definition value_texts :: "val \<Rightarrow> string list" where
  "value_texts v = (case v of VList xs \<Rightarrow> map fmt_v xs | _ \<Rightarrow> [fmt_v v])"

definition is_list_val :: "val \<Rightarrow> bool" where
  "is_list_val v = (case v of VList _ \<Rightarrow> True | _ \<Rightarrow> False)"

definition unique_values :: "string \<Rightarrow> doc list \<Rightarrow> string list" where
  "unique_values name records = sort (remdups (concat (map value_texts (field_occurrences name records))))"

definition infer_type :: "bool \<Rightarrow> nat \<Rightarrow> nat \<Rightarrow> nat \<Rightarrow> string" where
  "infer_type has_list n_unique occs recs =
     (if has_list then ''list''
      else if n_unique \<le> 20 \<and> 2 * occs > recs then ''enum'' else ''string'')"

definition analyze_field :: "doc list \<Rightarrow> string \<Rightarrow> field_stats" where
  "analyze_field records name =
     (let occ = field_occurrences name records; uniq = unique_values name records;
          has_list = list_ex is_list_val occ
      in \<lparr> fs_name = name, fs_count = length occ, fs_total = length records, fs_unique = uniq,
           fs_type = infer_type has_list (length uniq) (length occ) (length records),
           fs_has_list = has_list \<rparr>)"

definition schema_of_stats :: "field_stats \<Rightarrow> schema_field" where
  "schema_of_stats s =
     zero_field\<lparr> sf_type := fs_type s, sf_required := (5 * fs_count s > 4 * fs_total s),
       sf_values := (if fs_type s = ''enum'' then fs_unique s else []) \<rparr>"

definition record_keys :: "doc list \<Rightarrow> string list" where
  "record_keys records = remdups (concat (map (\<lambda>r. map fst (rc_frontmatter r)) records))"

definition analyze :: "doc list \<Rightarrow> inferred_schema" where
  "analyze records =
     (let stats = map (\<lambda>n. (n, analyze_field records n)) (record_keys records)
      in \<lparr> in_fields = stats, in_schema = map_vals (\<lambda>_. schema_of_stats) stats,
           in_total = length records,
           in_with = length (filter (\<lambda>r. rc_frontmatter r \<noteq> []) records),
           in_without = length (filter (\<lambda>r. rc_frontmatter r = []) records) \<rparr>)"

section \<open>Levels of a hierarchy\<close>

definition is_upper :: "char \<Rightarrow> bool" where
  "is_upper c = (let n = of_char c :: nat in 65 \<le> n \<and> n \<le> 90)"

text \<open>The pattern \<open>^([A-Z]+)(\d+)-\<close>: the prefix and the number of digits.\<close>

definition dir_pattern :: "string \<Rightarrow> (string \<times> nat) option" where
  "dir_pattern s =
     (let p = takeWhile is_upper s; rest = drop (length p) s; d = takeWhile is_digit rest
      in if p \<noteq> [] \<and> d \<noteq> [] \<and> has_prefix (drop (length d) rest) ''-'' then Some (p, length d) else None)"

record level =
  lv_prefix :: string
  lv_digits :: nat
  lv_depth :: nat
  lv_dirs :: "string list"
  lv_records :: "doc list"

type_synonym level_key = "nat \<times> string \<times> nat"

definition to_rel_path :: "string \<Rightarrow> string \<Rightarrow> string" where
  "to_rel_path path root =
     (if is_abs path then (case path_rel root path of None \<Rightarrow> path | Some rel \<Rightarrow> rel) else path)"

definition dir_parts :: "string \<Rightarrow> string list" where
  "dir_parts rel = (let dir = path_dir rel in if dir = ''.'' then [] else split_on slash dir)"

text \<open>What one record adds to the groups: a path for each component that follows the pattern.\<close>

definition level_entries :: "string \<Rightarrow> doc \<Rightarrow> (level_key \<times> string) list" where
  "level_entries root r =
     (let rel = to_rel_path (rc_path r) root; parts = dir_parts rel in
      List.map_filter (\<lambda>depth. map_option (\<lambda>(p, d). ((depth, p, d), join_with ''/'' (take (depth + 1) parts)))
                                (dir_pattern (parts ! depth))) [0..<length parts] @
      (case dir_pattern (path_base rel) of
         None \<Rightarrow> [] | Some (p, d) \<Rightarrow> [((length parts, p, d), rel)]))"

definition add_group ::
  "(level_key \<times> string list) list \<Rightarrow> level_key \<times> string \<Rightarrow> (level_key \<times> string list) list" where
  "add_group gs e =
     AList.update (fst e)
       (case map_of gs (fst e) of
          None \<Rightarrow> [snd e] | Some ps \<Rightarrow> if snd e \<in> set ps then ps else ps @ [snd e]) gs"

definition level_groups :: "string \<Rightarrow> doc list \<Rightarrow> (level_key \<times> string list) list" where
  "level_groups root records = foldl add_group [] (concat (map (level_entries root) records))"

text \<open>The groups with at least two paths, by depth and prefix; groups that agree on both keep the
  iteration order of the map, which is that of the list.\<close>

definition level_of_group :: "level_key \<times> string list \<Rightarrow> level" where
  "level_of_group g =
     (case g of ((depth, p, d), paths) \<Rightarrow>
        \<lparr> lv_prefix = p, lv_digits = d, lv_depth = depth, lv_dirs = sort paths, lv_records = [] \<rparr>)"

fun insert_level :: "level \<Rightarrow> level list \<Rightarrow> level list" where
  "insert_level l [] = [l]"
| "insert_level l (x # xs) =
     (if lv_depth x < lv_depth l \<or> lv_depth x = lv_depth l \<and> lv_prefix x < lv_prefix l
      then x # insert_level l xs else l # x # xs)"

definition levels_of_groups :: "(level_key \<times> string list) list \<Rightarrow> level list" where
  "levels_of_groups gs =
     foldr insert_level (map level_of_group (filter (\<lambda>g. length (snd g) \<ge> 2) gs)) []"

definition matches_level :: "string \<Rightarrow> level \<Rightarrow> bool" where
  "matches_level rel l =
     (let parts = dir_parts rel;
          same = (\<lambda>n. dir_pattern n = Some (lv_prefix l, lv_digits l))
      in if lv_depth l < length parts then same (parts ! lv_depth l)
         else lv_depth l = length parts \<and> same (path_base rel))"

text \<open>The last level that matches a record.\<close>

definition best_level :: "string \<Rightarrow> level list \<Rightarrow> nat option" where
  "best_level rel levels =
     (case filter (\<lambda>i. matches_level rel (levels ! i)) [0..<length levels] of
        [] \<Rightarrow> None | is' \<Rightarrow> Some (last is'))"

definition assign_record :: "string \<Rightarrow> level list \<Rightarrow> doc \<Rightarrow> level list" where
  "assign_record root levels r =
     (case best_level (to_rel_path (rc_path r) root) levels of
        None \<Rightarrow> levels
      | Some i \<Rightarrow> levels[i := (levels ! i)\<lparr> lv_records := lv_records (levels ! i) @ [r] \<rparr>])"

definition detect_levels :: "doc list \<Rightarrow> string \<Rightarrow> level list" where
  "detect_levels records root =
     foldl (assign_record root) (levels_of_groups (level_groups root records)) records"

section \<open>Fields per level\<close>

fun sequence_step :: "(string \<times> nat) option \<Rightarrow> string list \<Rightarrow> (string \<times> nat) option" where
  "sequence_step cur [] = cur"
| "sequence_step cur (n # ns) =
     (case dir_pattern (path_base n) of
        None \<Rightarrow> sequence_step cur ns
      | Some pd \<Rightarrow>
          (case cur of
             None \<Rightarrow> sequence_step (Some pd) ns
           | Some c \<Rightarrow> if pd = c then sequence_step cur ns else None))"

definition detect_sequence_pattern :: "string list \<Rightarrow> (string \<times> nat) option" where
  "detect_sequence_pattern names = sequence_step None names"

record level_schema =
  lx_level :: level
  lx_schema :: schema
  lx_only :: schema
  lx_stem_path :: string

definition enum_values_overlap :: "string list \<Rightarrow> string list \<Rightarrow> bool" where
  "enum_values_overlap a b = list_ex (\<lambda>v. v \<in> set a) b"

definition fields_compatible :: "string \<Rightarrow> level_schema list \<Rightarrow> bool" where
  "fields_compatible name ls =
     (case those (map (\<lambda>l. map_of (lx_schema l) name) ls) of
        None \<Rightarrow> False
      | Some fs \<Rightarrow>
          list_all (\<lambda>f. sf_type f = sf_type (hd fs)) fs \<and>
          (sf_type (hd fs) = ''enum'' \<longrightarrow>
             list_all (\<lambda>f. list_all (\<lambda>g. sf_values f = [] \<or> sf_values g = [] \<or>
               enum_values_overlap (sf_values f) (sf_values g)) fs) fs))"

definition level_field_names :: "level_schema list \<Rightarrow> string list" where
  "level_field_names ls = remdups (concat (map (\<lambda>l. map fst (lx_schema l)) ls))"

definition goes_to_root :: "level_schema list \<Rightarrow> string \<Rightarrow> bool" where
  "goes_to_root ls name = (list_all (\<lambda>l. has_key (lx_schema l) name) ls \<and> fields_compatible name ls)"

text \<open>The definition of the first level with the most records.\<close>

fun most_records :: "level_schema \<Rightarrow> level_schema list \<Rightarrow> level_schema" where
  "most_records best [] = best"
| "most_records best (l # ls) =
     (if length (lv_records (lx_level l)) > length (lv_records (lx_level best))
      then most_records l ls else most_records best ls)"

definition root_fields :: "level_schema list \<Rightarrow> schema" where
  "root_fields ls =
     (case ls of
        [] \<Rightarrow> []
      | l # rest \<Rightarrow>
          List.map_filter (\<lambda>n.
            if n = ''id'' \<or> \<not> goes_to_root ls n then None
            else map_option (Pair n) (map_of (lx_schema (most_records l rest)) n)) (level_field_names ls))"

definition only_fields :: "level_schema list \<Rightarrow> level_schema \<Rightarrow> schema" where
  "only_fields ls l = filter (\<lambda>p. fst p \<noteq> ''id'' \<and> \<not> goes_to_root ls (fst p)) (lx_schema l)"

definition sequence_field :: "string \<Rightarrow> nat \<Rightarrow> schema_field" where
  "sequence_field p d = zero_field\<lparr> sf_type := ''sequence'', sf_prefix := p, sf_digits := int d \<rparr>"

definition with_sequence_id :: "level_schema \<Rightarrow> level_schema" where
  "with_sequence_id l =
     (case detect_sequence_pattern (lv_dirs (lx_level l)) of
        None \<Rightarrow> l
      | Some (p, d) \<Rightarrow> l\<lparr> lx_only := AList.update ''id'' (sequence_field p d) (lx_only l) \<rparr>)"

definition stem_path_of_level :: "level_schema list \<Rightarrow> nat \<Rightarrow> string" where
  "stem_path_of_level ls i =
     (if i = 0 then ''.''
      else let prev = lx_level (ls ! (i - 1))
           in if lv_dirs prev \<noteq> [] then lv_prefix prev @ ''*-*/'' else [])"

text \<open>The hierarchy of the records: root fields and levels, or \<open>None\<close> when fewer than two are found.\<close>

definition level_schemas :: "level list \<Rightarrow> level_schema list" where
  "level_schemas levels =
     map (\<lambda>l. \<lparr> lx_level = l, lx_schema = (if lv_records l = [] then [] else in_schema (analyze (lv_records l))),
                lx_only = [], lx_stem_path = [] \<rparr>) levels"

definition analyze_hierarchy :: "doc list \<Rightarrow> string \<Rightarrow> (schema \<times> level_schema list) option" where
  "analyze_hierarchy records root =
     (let levels = detect_levels records root in
      if length levels < 2 then None
      else let ls = level_schemas levels;
               ls' = map (\<lambda>l. with_sequence_id (l\<lparr> lx_only := only_fields ls l \<rparr>)) ls
           in Some (root_fields ls,
                map (\<lambda>i. (ls' ! i)\<lparr> lx_stem_path := stem_path_of_level ls' i \<rparr>) [0..<length ls']))"

section \<open>The hierarchy as one schema with match patterns\<close>

definition level_glob :: "level_schema \<Rightarrow> string" where
  "level_glob l = lv_prefix (lx_level l) @ ''*''"

definition better_definition :: "string \<Rightarrow> schema_field option \<Rightarrow> level_schema \<Rightarrow> schema_field option" where
  "better_definition name best l =
     (case (map_of (lx_only l) name, best) of
        (None, _) \<Rightarrow> best
      | (Some f, None) \<Rightarrow> Some f
      | (Some f, Some e) \<Rightarrow> if length (sf_values f) > length (sf_values e) then Some f else best)"

definition only_names :: "level_schema list \<Rightarrow> string list" where
  "only_names ls = filter (\<lambda>n. n \<noteq> ''id'') (remdups (concat (map (\<lambda>l. map fst (lx_only l)) ls)))"

definition level_match_field :: "level_schema list \<Rightarrow> string \<Rightarrow> schema_field option" where
  "level_match_field ls name =
     map_option (\<lambda>f. f\<lparr> sf_match := Some \<lparr> fm_patterns =
           map level_glob (filter (\<lambda>l. has_key (lx_only l) name) ls), fm_configs = None \<rparr> \<rparr>)
       (foldl (better_definition name) None ls)"

definition id_config :: "vmap \<Rightarrow> level_schema \<Rightarrow> vmap" where
  "id_config m l =
     (case map_of (lx_only l) ''id'' of
        Some f \<Rightarrow>
          if sf_type f = ''sequence'' then
            AList.update (level_glob l)
              (VMap [(''prefix'', VStr (sf_prefix f)), (''digits'', VInt (sf_digits f))]) m
          else m
      | None \<Rightarrow> m)"

definition to_match_schema :: "schema \<Rightarrow> level_schema list \<Rightarrow> schema option" where
  "to_match_schema root ls =
     (if ls = [] then None
      else
        let fields = foldl (\<lambda>m n. case level_match_field ls n of
                              None \<Rightarrow> m | Some f \<Rightarrow> AList.update n f m) root (only_names ls);
            ids = foldl id_config [] ls
        in Some (if ids = [] then fields
                 else AList.update ''id''
                   (zero_field\<lparr> sf_type := ''sequence'',
                      sf_match := Some \<lparr> fm_patterns = [], fm_configs = Some ids \<rparr> \<rparr>) fields))"

section \<open>Section inferences in a schema\<close>

record inference =
  inf_type :: string
  inf_source :: string
  inf_field :: string
  inf_value :: string
  inf_message :: string
  inf_directive :: string

definition is_section_inference :: "inference \<Rightarrow> bool" where
  "is_section_inference i = (inf_type i = ''required_section'' \<or> inf_type i = ''optional_section'')"

definition section_collision :: "string \<Rightarrow> inference \<Rightarrow> string" where
  "section_collision origin i =
     ''field '' @ go_quote (inf_field i) @ '' from '' @ origin @
     '' collides with body section source '' @ go_quote (inf_directive i)"

fun section_collisions :: "schema \<Rightarrow> string \<Rightarrow> inference list \<Rightarrow> go_error + string list" where
  "section_collisions sch origin [] = Inr []"
| "section_collisions sch origin (i # is') =
     (if \<not> is_section_inference i then section_collisions sch origin is'
      else if inf_field i = [] then Inl (Err ''section inference missing field'')
      else if inf_directive i = [] then
        Inl (Err (''section inference for '' @ go_quote (inf_field i) @ '' missing source directive''))
      else
        (case section_collisions sch origin is' of
           Inl e \<Rightarrow> Inl e
         | Inr cs \<Rightarrow>
             Inr (if has_key sch (inf_field i) then section_collision origin i # cs else cs)))"

definition put_section_field :: "schema \<Rightarrow> inference \<Rightarrow> schema" where
  "put_section_field sch i =
     (if \<not> is_section_inference i then sch
      else AList.update (inf_field i)
             (zero_field\<lparr> sf_type := ''string'', sf_required := (inf_type i = ''required_section''),
                sf_extract := inf_directive i \<rparr>) sch)"

definition add_section_inference_fields :: "schema \<Rightarrow> inference list \<Rightarrow> string \<Rightarrow> go_error + schema" where
  "add_section_inference_fields sch infs origin =
     (case section_collisions sch (if trim_space origin = [] then ''schema'' else origin) infs of
        Inl e \<Rightarrow> Inl e
      | Inr cs \<Rightarrow>
          if cs \<noteq> [] then
            Inl (Err (''section field composition collision: '' @ join_with ''; '' (sort cs)))
          else Inr (foldl put_section_field sch infs))"

definition infer_aggregates :: "schema \<Rightarrow> (string \<times> string) list" where
  "infer_aggregates sch =
     List.map_filter (\<lambda>(n, f). if generate_aggregate_expr f = [] then None
                           else Some (n, generate_aggregate_expr f)) sch"

section \<open>Splitting a schema over a hierarchy\<close>

text \<open>\<open>BuildSplitStems\<close>: the fields the root stem and the stem of a level get of an existing schema, and
  the files, each with its own sequence field and its fields.\<close>

definition split_level_fields :: "schema \<Rightarrow> schema \<Rightarrow> level_schema \<Rightarrow> schema" where
  "split_level_fields existing root l =
     filter (\<lambda>p. fst p \<noteq> ''id'' \<and> \<not> has_key root (fst p) \<and> has_key (lx_only l) (fst p)) existing"

definition split_root_fields :: "schema \<Rightarrow> schema \<Rightarrow> level_schema list \<Rightarrow> schema" where
  "split_root_fields existing root ls =
     filter (\<lambda>p. fst p \<noteq> ''id'' \<and>
               (has_key root (fst p) \<or> (case ls of [] \<Rightarrow> False | l # _ \<Rightarrow> has_key (lx_only l) (fst p))))
       existing"

record split_file =
  sp_path :: string
  sp_id :: "schema_field option"
  sp_fields :: schema
  sp_aggregates :: "(string \<times> string) list"

definition split_child_files ::
  "string \<Rightarrow> schema \<Rightarrow> schema \<Rightarrow> level_schema list \<Rightarrow> nat \<Rightarrow> split_file list" where
  "split_child_files target existing root ls i =
     map (\<lambda>d. \<lparr> sp_path = path_join target (path_join d ''.stem''), sp_id = map_of (lx_only (ls ! i)) ''id'',
                sp_fields = split_level_fields existing root (ls ! i), sp_aggregates = [] \<rparr>)
       (lv_dirs (lx_level (ls ! (i - 1))))"

definition build_split_stems ::
  "string \<Rightarrow> stem_file \<Rightarrow> schema \<Rightarrow> level_schema list \<Rightarrow> split_file list" where
  "build_split_stems target existing root ls =
     \<lparr> sp_path = path_join target ''.stem'',
        sp_id = (case ls of [] \<Rightarrow> None | l # _ \<Rightarrow> map_of (lx_only l) ''id''),
        sp_fields = split_root_fields (st_schema existing) root ls,
        sp_aggregates = generate_aggregates (split_root_fields (st_schema existing) root ls)
                          (st_aggregate existing) \<rparr>
     # concat (map (split_child_files target (st_schema existing) root ls) [1..<length ls])"

section \<open>An inferred schema accepts its corpus\<close>

lemma map_filter_Some_in: "y \<in> set (List.map_filter f xs) \<longleftrightarrow> (\<exists>x\<in>set xs. f x = Some y)"
  by (induction xs) (auto simp: List.map_filter_simps split: option.splits)

lemma map_of_map_Pair: "map_of (map (\<lambda>n. (n, f n)) xs) n = (if n \<in> set xs then Some (f n) else None)"
  by (induction xs) auto

lemma map_of_in_record_keys:
  assumes "r \<in> set records" "map_of (rc_frontmatter r) name = Some v"
  shows "name \<in> set (record_keys records)"
proof -
  have "name \<in> set (map fst (rc_frontmatter r))" using assms(2) by (force dest: map_of_SomeD)
  then show ?thesis using assms(1) by (auto simp: record_keys_def)
qed

lemma analyze_schema_lookup:
  "map_of (in_schema (analyze records)) name =
     (if name \<in> set (record_keys records) then Some (schema_of_stats (analyze_field records name)) else None)"
  by (simp add: analyze_def Let_def map_of_map_Pair)

lemma occurrence_in:
  "r \<in> set records \<Longrightarrow> map_of (rc_frontmatter r) name = Some v \<Longrightarrow> v \<in> set (field_occurrences name records)"
  by (auto simp: field_occurrences_def map_filter_Some_in)

lemma occurrenceD:
  "v \<in> set (field_occurrences name records) \<Longrightarrow> \<exists>r\<in>set records. map_of (rc_frontmatter r) name = Some v"
  by (auto simp: field_occurrences_def map_filter_Some_in)

lemma schema_of_stats_simps [simp]:
  "sf_type (schema_of_stats s) = fs_type s" "sf_severity (schema_of_stats s) = []"
  "sf_extract (schema_of_stats s) = []" "sf_source (schema_of_stats s) = []"
  "sf_values (schema_of_stats s) = (if fs_type s = ''enum'' then fs_unique s else [])"
  "sf_required (schema_of_stats s) = (5 * fs_count s > 4 * fs_total s)"
  by (simp_all add: schema_of_stats_def zero_field_def)

lemma text_is_counted:
  "v \<in> set (field_occurrences name records) \<Longrightarrow> \<not> is_list_val v \<Longrightarrow> fmt_v v \<in> set (unique_values name records)"
proof -
  assume a: "v \<in> set (field_occurrences name records)" "\<not> is_list_val v"
  have "value_texts v = [fmt_v v]" using a(2) by (cases v) (simp_all add: value_texts_def is_list_val_def)
  then show ?thesis using a(1) unfolding unique_values_def by (simp del: fmt_v.simps) force
qed

lemma list_typed_iff:
  "fs_type (analyze_field records name) = ''list'' \<longleftrightarrow> (\<exists>v\<in>set (field_occurrences name records). is_list_val v)"
  by (auto simp: analyze_field_def Let_def infer_type_def list_ex_iff)

lemma inferred_types:
  "fs_type (analyze_field records name) \<in> {''list'', ''enum'', ''string''}"
  by (auto simp: analyze_field_def Let_def infer_type_def)

lemma accepts_list:
  assumes "fs_type s = ''list''" "is_list_val v"
  shows "validate_field_value (schema_of_stats s) v = None"
  using assms
  by (cases v) (simp_all add: validate_field_value_def validate_representation_def representation_ok_def
      representation_name_def validate_type_semantics_def is_list_val_def)

lemma accepts_text:
  assumes "fs_type s \<in> {''enum'', ''string''}" "fs_type s = ''enum'' \<Longrightarrow> t \<in> set (fs_unique s)"
  shows "validate_field_value (schema_of_stats s) (VStr t) = None"
proof -
  have ne: "fs_type s = ''enum'' \<Longrightarrow> fs_unique s \<noteq> []" using assms(2) by auto
  show ?thesis using assms ne
    by (auto simp: validate_field_value_def validate_representation_def representation_ok_def
      representation_name_def validate_type_semantics_def enum_contains_def)
qed

text \<open>C31: The schema inferred from a corpus accepts the corpus. When a field is always text or always a
  list, the inferred declaration checks without an error on every record it was inferred from, except that
  a record without the field misses it when more than four fifths of the records have it.\<close>

theorem inferred_schema_accepts_corpus:
  assumes "r \<in> set records" "map_of (in_schema (analyze records)) name = Some field"
    and homogeneous: "(\<forall>v \<in> set (field_occurrences name records). \<exists>t. v = VStr t)
                      \<or> (\<forall>v \<in> set (field_occurrences name records). is_list_val v)"
  shows "check_field gm fuzzy r eff name field = FieldOk
         \<or> (map_of (rc_frontmatter r) name = None
            \<and> 5 * length (field_occurrences name records) > 4 * length records
            \<and> check_field gm fuzzy r eff name field = FieldMissing (missing_error fuzzy r name field))"
proof (cases "map_of (rc_frontmatter r) name")
  case None
  then show ?thesis using assms(2)
    by (auto simp: check_field_def resolve_field_value_def analyze_schema_lookup analyze_field_def Let_def
        split: if_splits)
next
  case (Some v)
  let ?s = "analyze_field records name"
  have f: "field = schema_of_stats ?s" using assms(2) by (auto simp: analyze_schema_lookup split: if_splits)
  have occ: "v \<in> set (field_occurrences name records)" using occurrence_in assms(1) Some .
  have "validate_field_value field v = None"
  proof (cases "fs_type ?s = ''list''")
    case True
    have "is_list_val v"
    proof -
      obtain w where w: "w \<in> set (field_occurrences name records)" "is_list_val w"
        using True list_typed_iff by auto
      then have "\<forall>w \<in> set (field_occurrences name records). is_list_val w"
        using homogeneous by (force simp: is_list_val_def)
      then show ?thesis using occ by blast
    qed
    then show ?thesis using True f accepts_list by simp
  next
    case False
    then have nl: "\<not> is_list_val v" using occ list_typed_iff by auto
    then obtain t where t: "v = VStr t" using homogeneous occ by blast
    have "fmt_v v \<in> set (fs_unique ?s)"
      using text_is_counted[OF occ nl] by (simp add: analyze_field_def Let_def)
    then have "t \<in> set (fs_unique ?s)" by (simp add: t)
    moreover have "fs_type ?s \<in> {''enum'', ''string''}" using False inferred_types by blast
    ultimately show ?thesis using accepts_text f t by simp
  qed
  then show ?thesis using Some f by (simp add: check_field_def resolve_field_value_def)
qed

section \<open>Where the fields of a hierarchy go\<close>

lemma map_of_filter_fst: "map_of (filter (\<lambda>p. P (fst p)) m) n = (if P n then map_of m n else None)"
  by (induction m) auto

lemma has_key_iff: "has_key m n \<longleftrightarrow> n \<in> fst ` set m"
  by (simp add: has_key_def map_of_eq_None_iff)

lemma has_key_filter_fst [simp]: "has_key (filter (\<lambda>p. P (fst p)) m) n \<longleftrightarrow> P n \<and> has_key m n"
  by (auto simp: has_key_def map_of_filter_fst)

lemma most_records_in: "most_records l ls \<in> set (l # ls)"
  by (induction ls arbitrary: l) auto

lemma has_key_root_fields:
  assumes "ls \<noteq> []"
  shows "has_key (root_fields ls) n \<longleftrightarrow> n \<noteq> ''id'' \<and> n \<in> set (level_field_names ls) \<and> goes_to_root ls n"
proof -
  obtain l rest where ls: "ls = l # rest" using assms by (cases ls) auto
  have k: "has_key (lx_schema (most_records l rest)) m" if "goes_to_root ls m" for m
    using that most_records_in[of l rest] by (auto simp: goes_to_root_def ls list_all_iff)
  show ?thesis
    unfolding has_key_iff root_fields_def ls list.case
    using k by (force simp: map_filter_Some_in has_key_def ls split: if_splits option.splits)
qed

lemma has_key_only_fields:
  "has_key (only_fields ls l) n \<longleftrightarrow> n \<noteq> ''id'' \<and> \<not> goes_to_root ls n \<and> has_key (lx_schema l) n"
  using has_key_filter_fst[of "\<lambda>k. k \<noteq> ''id'' \<and> \<not> goes_to_root ls k" "lx_schema l" n]
  by (auto simp: only_fields_def)

lemma level_field_namesI: "l \<in> set ls \<Longrightarrow> has_key (lx_schema l) n \<Longrightarrow> n \<in> set (level_field_names ls)"
  by (auto simp: level_field_names_def has_key_iff)

lemma with_sequence_id_simps [simp]:
  "lx_schema (with_sequence_id l) = lx_schema l" "lx_level (with_sequence_id l) = lx_level l"
  "lx_stem_path (with_sequence_id l) = lx_stem_path l"
  by (auto simp: with_sequence_id_def split: option.splits)

lemma with_sequence_id_only:
  "n \<noteq> ''id'' \<Longrightarrow> has_key (lx_only (with_sequence_id l)) n \<longleftrightarrow> has_key (lx_only l) n"
  by (auto simp: with_sequence_id_def has_key_def update_conv' split: option.splits)

text \<open>The levels of a hierarchy, position by position.\<close>

lemma analyze_hierarchy_nth:
  assumes "analyze_hierarchy records dir = Some (root, ls)"
  defines "lss \<equiv> level_schemas (detect_levels records dir)"
  shows "root = root_fields lss" "length ls = length lss" "2 \<le> length ls"
    "i < length ls \<Longrightarrow> lx_schema (ls ! i) = lx_schema (lss ! i)"
    "i < length ls \<Longrightarrow> lx_level (ls ! i) = detect_levels records dir ! i"
    "i < length ls \<Longrightarrow> n \<noteq> ''id'' \<Longrightarrow> has_key (lx_only (ls ! i)) n = has_key (only_fields lss (lss ! i)) n"
  using assms
  by (auto simp: analyze_hierarchy_def Let_def with_sequence_id_only level_schemas_def split: if_splits)

lemma distribution_facts:
  assumes "analyze_hierarchy records dir = Some (root, ls)" "i < length ls" "n \<noteq> ''id''"
  shows "has_key (lx_schema (ls ! i)) n \<longleftrightarrow> (has_key root n \<noteq> has_key (lx_only (ls ! i)) n)"
    "has_key root n \<longleftrightarrow> goes_to_root (level_schemas (detect_levels records dir)) n"
    "\<not> (has_key root n \<and> has_key (lx_only (ls ! i)) n)"
proof -
  let ?lss = "level_schemas (detect_levels records dir)"
  note h = analyze_hierarchy_nth[OF assms(1)]
  have ne: "?lss \<noteq> []" using h(2,3) by auto
  have i: "?lss ! i \<in> set ?lss" using h(2) assms(2) by simp
  have all: "goes_to_root ?lss n \<Longrightarrow> has_key (lx_schema (?lss ! i)) n"
    using i by (auto simp: goes_to_root_def list_all_iff)
  have r: "has_key root n \<longleftrightarrow> goes_to_root ?lss n"
    using h(1) has_key_root_fields[OF ne] assms(3) level_field_namesI[OF i] all by auto
  have o': "has_key (lx_only (ls ! i)) n \<longleftrightarrow> \<not> goes_to_root ?lss n \<and> has_key (lx_schema (?lss ! i)) n"
    using h(6)[OF assms(2,3)] assms(3) by (simp add: has_key_only_fields)
  show "has_key (lx_schema (ls ! i)) n \<longleftrightarrow> (has_key root n \<noteq> has_key (lx_only (ls ! i)) n)"
    using r o' h(4)[OF assms(2)] all by auto
  show "has_key root n \<longleftrightarrow> goes_to_root ?lss n" by (rule r)
  show "\<not> (has_key root n \<and> has_key (lx_only (ls ! i)) n)" using r o' by blast
qed

text \<open>The distribution of the fields over a hierarchy puts every field of a level, other than the
  sequence \<open>id\<close>, in exactly one of the root schema and the schema of that level; what is in the root is a
  field of every level, and a level keeps only fields of its own.\<close>

theorem distribution_places_fields_once:
  assumes "analyze_hierarchy records dir = Some (root, ls)" "i < length ls" "n \<noteq> ''id''"
  shows "has_key (lx_schema (ls ! i)) n \<longleftrightarrow> (has_key root n \<noteq> has_key (lx_only (ls ! i)) n)"
    "has_key root n \<longleftrightarrow> goes_to_root (level_schemas (detect_levels records dir)) n"
    "\<not> (has_key root n \<and> has_key (lx_only (ls ! i)) n)"
  using distribution_facts[OF assms] by blast+

section \<open>The levels\<close>

abbreviation level_le :: "level \<Rightarrow> level \<Rightarrow> bool" where
  "level_le a b \<equiv> lv_depth a < lv_depth b \<or> lv_depth a = lv_depth b \<and> lv_prefix a \<le> lv_prefix b"

lemma set_insert_level [simp]: "set (insert_level l ls) = insert l (set ls)"
  by (induction ls) auto

lemma sorted_insert_level: "sorted_wrt level_le ls \<Longrightarrow> sorted_wrt level_le (insert_level l ls)"
  by (induction ls) auto

lemma levels_of_groups_sorted: "sorted_wrt level_le (levels_of_groups gs)"
proof -
  have "sorted_wrt level_le (foldr insert_level xs [])" for xs
    by (induction xs) (simp_all add: sorted_insert_level)
  then show ?thesis by (simp add: levels_of_groups_def)
qed

lemma set_levels_of_groups:
  "set (levels_of_groups gs) = level_of_group ` set (filter (\<lambda>g. length (snd g) \<ge> 2) gs)"
proof -
  have "set (foldr insert_level xs []) = set xs" for xs by (induction xs) simp_all
  then show ?thesis by (simp add: levels_of_groups_def)
qed

lemma add_group_distinct:
  assumes "\<forall>g\<in>set gs. distinct (snd g)" shows "\<forall>g\<in>set (add_group gs e). distinct (snd g)"
proof
  fix g assume "g \<in> set (add_group gs e)"
  moreover have "set (AList.update k v m) \<subseteq> insert (k, v) (set m)" for k v and m :: "(level_key \<times> string list) list"
    by (induction m) auto
  moreover have "map_of gs (fst e) = Some ps \<Longrightarrow> distinct ps" for ps
    using assms by (force dest: map_of_SomeD)
  ultimately show "distinct (snd g)" using assms
    by (fastforce simp: add_group_def split: option.splits if_splits)
qed

lemma level_groups_distinct: "\<forall>g\<in>set (level_groups dir records). distinct (snd g)"
proof -
  have "\<forall>g\<in>set gs. distinct (snd g) \<Longrightarrow> \<forall>g\<in>set (foldl add_group gs es). distinct (snd g)" for gs es
  proof (induction es arbitrary: gs)
    case (Cons e es)
    then show ?case using Cons.IH[OF add_group_distinct[OF Cons.prems]] by simp
  qed simp
  from this[of "[]"] show ?thesis by (simp add: level_groups_def)
qed

abbreviation level_data :: "level \<Rightarrow> string \<times> nat \<times> nat \<times> string list" where
  "level_data l \<equiv> (lv_prefix l, lv_digits l, lv_depth l, lv_dirs l)"

lemma assign_record_keep: "map level_data (assign_record dir ls r) = map level_data ls"
proof (cases "best_level (to_rel_path (rc_path r) dir) ls")
  case (Some k)
  have "map level_data (ls[k := (ls ! k)\<lparr> lv_records := rs \<rparr>]) = map level_data ls" for rs
  proof (cases "k < length ls")
    case True
    have "map level_data (ls[k := (ls ! k)\<lparr> lv_records := rs \<rparr>]) =
          (map level_data ls)[k := map level_data ls ! k]"
      using True by (simp add: map_update)
    then show ?thesis by (simp only: list_update_id)
  qed (simp add: list_update_beyond)
  then show ?thesis by (simp add: assign_record_def Some del: map_update)
qed (simp add: assign_record_def)

lemma assign_records_keep: "map level_data (foldl (assign_record dir) ls records) = map level_data ls"
  by (induction records arbitrary: ls) (simp_all add: assign_record_keep)

lemma detect_levels_nth:
  assumes "i < length (detect_levels records dir)"
  defines "l \<equiv> detect_levels records dir ! i" and "l' \<equiv> levels_of_groups (level_groups dir records) ! i"
  shows "i < length (levels_of_groups (level_groups dir records))"
    "lv_prefix l = lv_prefix l'" "lv_depth l = lv_depth l'" "lv_dirs l = lv_dirs l'"
proof -
  note k = assign_records_keep[of dir "levels_of_groups (level_groups dir records)" records]
  show len: "i < length (levels_of_groups (level_groups dir records))"
    using arg_cong[OF k, of length] assms(1) by (simp add: detect_levels_def)
  have "(lv_prefix l, lv_digits l, lv_depth l, lv_dirs l) = (lv_prefix l', lv_digits l', lv_depth l', lv_dirs l')"
    using arg_cong[OF k, of "\<lambda>xs. xs ! i"] assms(1) len by (simp add: detect_levels_def l_def l'_def)
  then show "lv_prefix l = lv_prefix l'" "lv_depth l = lv_depth l'" "lv_dirs l = lv_dirs l'" by auto
qed

text \<open>The levels of a hierarchy are in order of depth and then of prefix, and each has at least two
  different directories, listed in order.\<close>

theorem levels_well_formed:
  assumes "i < length (detect_levels records dir)"
  shows "2 \<le> length (lv_dirs (detect_levels records dir ! i))"
    "distinct (lv_dirs (detect_levels records dir ! i))" "sorted (lv_dirs (detect_levels records dir ! i))"
    "j < i \<Longrightarrow> level_le (detect_levels records dir ! j) (detect_levels records dir ! i)"
proof -
  let ?gs = "level_groups dir records"
  note d = detect_levels_nth[OF assms]
  have "levels_of_groups ?gs ! i \<in> level_of_group ` set (filter (\<lambda>g. length (snd g) \<ge> 2) ?gs)"
    using d(1) set_levels_of_groups nth_mem by blast
  then obtain g where g: "g \<in> set ?gs" "length (snd g) \<ge> 2" "levels_of_groups ?gs ! i = level_of_group g"
    by auto
  have "lv_dirs (level_of_group g) = sort (snd g)" by (cases g) (auto simp: level_of_group_def)
  then have dirs: "lv_dirs (detect_levels records dir ! i) = sort (snd g)" using d(4) g(3) by simp
  show "2 \<le> length (lv_dirs (detect_levels records dir ! i))" using dirs g(2) by simp
  show "distinct (lv_dirs (detect_levels records dir ! i))" using dirs level_groups_distinct g(1) by auto
  show "sorted (lv_dirs (detect_levels records dir ! i))" using dirs by simp
  show "level_le (detect_levels records dir ! j) (detect_levels records dir ! i)" if "j < i"
    using sorted_wrt_nth_less[OF levels_of_groups_sorted that d(1)] detect_levels_nth[of j] that d assms
    by auto
qed

section \<open>The files of a split\<close>

lemma map_of_split_level:
  "map_of (split_level_fields ex root l) n =
     (if n \<noteq> ''id'' \<and> \<not> has_key root n \<and> has_key (lx_only l) n then map_of ex n else None)"
  unfolding split_level_fields_def
  using map_of_filter_fst[of "\<lambda>k. k \<noteq> ''id'' \<and> \<not> has_key root k \<and> has_key (lx_only l) k" ex n] by simp

lemma map_of_split_root:
  assumes "ls \<noteq> []"
  shows "map_of (split_root_fields ex root ls) n =
     (if n \<noteq> ''id'' \<and> (has_key root n \<or> has_key (lx_only (ls ! 0)) n) then map_of ex n else None)"
proof -
  obtain l rest where ls: "ls = l # rest" using assms by (cases ls) auto
  show ?thesis unfolding split_root_fields_def ls list.case
    using map_of_filter_fst[of "\<lambda>k. k \<noteq> ''id'' \<and> (has_key root k \<or> has_key (lx_only l) k)" ex n] by simp
qed

text \<open>A split keeps the declaration of every field that occurs in the records of a level: unchanged in
  the stem of the root when the field is common or belongs to the first level, and otherwise in the stem of
  every directory of the level above.\<close>

theorem split_keeps_used_fields:
  assumes "analyze_hierarchy records dir = Some (root, ls)" "i < length ls"
    and "has_key (lx_schema (ls ! i)) n" "n \<noteq> ''id''" "map_of (st_schema existing) n = Some f"
  shows "if has_key root n \<or> i = 0
         then map_of (sp_fields (hd (build_split_stems target existing root ls))) n = Some f
         else \<forall>d \<in> set (lv_dirs (lx_level (ls ! (i - 1)))).
                \<exists>out \<in> set (build_split_stems target existing root ls).
                  sp_path out = path_join target (path_join d ''.stem'') \<and> map_of (sp_fields out) n = Some f"
proof -
  have ne: "ls \<noteq> []" using assms(2) by auto
  have only: "\<not> has_key root n \<Longrightarrow> has_key (lx_only (ls ! i)) n"
    using distribution_facts[OF assms(1,2,4)] assms(3) by blast
  show ?thesis
  proof (cases "has_key root n \<or> i = 0")
    case True
    then have "has_key root n \<or> has_key (lx_only (ls ! 0)) n" using only by blast
    then show ?thesis using True assms(4,5) by (simp add: build_split_stems_def map_of_split_root[OF ne])
  next
    case False
    let ?out = "\<lambda>d. \<lparr> sp_path = path_join target (path_join d ''.stem''), sp_id = map_of (lx_only (ls ! i)) ''id'',
                sp_fields = split_level_fields (st_schema existing) root (ls ! i), sp_aggregates = [] \<rparr>"
    have "i \<in> set [1..<length ls]" using False assms(2) by auto
    then have out: "?out d \<in> set (build_split_stems target existing root ls)"
      if "d \<in> set (lv_dirs (lx_level (ls ! (i - 1))))" for d
      using that unfolding build_split_stems_def split_child_files_def by (fastforce simp del: set_upt)
    have val: "map_of (sp_fields (?out d)) n = Some f" for d
      using False only assms(4,5) by (simp add: map_of_split_level)
    have "\<forall>d \<in> set (lv_dirs (lx_level (ls ! (i - 1)))).
             \<exists>out \<in> set (build_split_stems target existing root ls).
               sp_path out = path_join target (path_join d ''.stem'') \<and> map_of (sp_fields out) n = Some f"
    proof
      fix d assume "d \<in> set (lv_dirs (lx_level (ls ! (i - 1))))"
      then show "\<exists>out \<in> set (build_split_stems target existing root ls).
          sp_path out = path_join target (path_join d ''.stem'') \<and> map_of (sp_fields out) n = Some f"
        using out val by (intro bexI[of _ "?out d"] conjI) (simp_all only: split_file.simps)
    qed
    then show ?thesis by (simp only: False if_False)
  qed
qed

section \<open>Concrete corpora\<close>

definition numbered_doc :: "string \<Rightarrow> vmap \<Rightarrow> doc" where
  "numbered_doc p fm = zero_doc\<lparr> rc_path := p, rc_frontmatter := fm \<rparr>"

definition two_level_corpus :: "doc list" where
  "two_level_corpus =
     [numbered_doc ''E1-a/README'' [(''state'', VStr ''x'')], numbered_doc ''E2-b/README'' [(''state'', VStr ''y'')],
      numbered_doc ''E1-a/F1-p'' [(''state'', VStr ''x''), (''size'', VStr ''s'')],
      numbered_doc ''E2-b/F2-q'' [(''state'', VStr ''z''), (''size'', VStr ''l'')]]"

definition hierarchy_facts ::
  "doc list \<Rightarrow> string \<Rightarrow> (bool \<times> (string list \<times> bool \<times> bool) list) option" where
  "hierarchy_facts rs n =
     map_option (\<lambda>(root, ls). (has_key root n,
         map (\<lambda>l. (lv_dirs (lx_level l), has_key (lx_schema l) n, has_key (lx_only l) n)) ls))
       (analyze_hierarchy rs [])"

lemma two_level_facts:
  "hierarchy_facts two_level_corpus ''size'' =
     Some (False, [([''E1-a'', ''E2-b''], False, False), ([''E1-a/F1-p'', ''E2-b/F2-q''], True, True)])"
  by code_simp

lemma two_level_hierarchy:
  obtains root ls where "analyze_hierarchy two_level_corpus [] = Some (root, ls)" "length ls = 2"
    "\<not> has_key root ''size''" "has_key (lx_schema (ls ! 1)) ''size''" "lv_dirs (lx_level (ls ! 0)) = [''E1-a'', ''E2-b'']"
proof -
  obtain root ls where h: "analyze_hierarchy two_level_corpus [] = Some (root, ls)"
    "\<not> has_key root ''size''"
    "map (\<lambda>l. (lv_dirs (lx_level l), has_key (lx_schema l) ''size'', has_key (lx_only l) ''size'')) ls =
       [([''E1-a'', ''E2-b''], False, False), ([''E1-a/F1-p'', ''E2-b/F2-q''], True, True)]"
    using two_level_facts by (auto simp: hierarchy_facts_def)
  then obtain l0 l1 where ls: "ls = [l0, l1]" by (auto simp: map_eq_Cons_conv)
  show ?thesis using that[OF h(1)] h(2,3) ls by simp
qed

theorem inferred_schema_accepts_corpus_witness:
  "check_field (\<lambda>_. []) (\<lambda>_ _. []) (hd two_level_corpus) zero_stem ''state''
     (schema_of_stats (analyze_field two_level_corpus ''state'')) = FieldOk"
proof -
  have occ: "field_occurrences ''state'' two_level_corpus = [VStr ''x'', VStr ''y'', VStr ''x'', VStr ''z'']"
    by (simp add: field_occurrences_def two_level_corpus_def numbered_doc_def zero_doc_def List.map_filter_simps)
  have k: "map_of (in_schema (analyze two_level_corpus)) ''state'' =
      Some (schema_of_stats (analyze_field two_level_corpus ''state''))"
    by (simp add: analyze_schema_lookup record_keys_def two_level_corpus_def numbered_doc_def zero_doc_def)
  have "hd two_level_corpus \<in> set two_level_corpus" "map_of (rc_frontmatter (hd two_level_corpus)) ''state'' \<noteq> None"
    by (simp_all add: two_level_corpus_def numbered_doc_def zero_doc_def)
  then show ?thesis
    using inferred_schema_accepts_corpus[OF _ k, of "hd two_level_corpus" "\<lambda>_. []" "\<lambda>_ _. []" zero_stem] occ by auto
qed

theorem distribution_places_fields_once_witness:
  "\<exists>root ls. analyze_hierarchy two_level_corpus [] = Some (root, ls) \<and> has_key (lx_only (ls ! 1)) ''size''"
proof -
  obtain root ls where h: "analyze_hierarchy two_level_corpus [] = Some (root, ls)" "length ls = 2"
    "\<not> has_key root ''size''" "has_key (lx_schema (ls ! 1)) ''size''" using two_level_hierarchy .
  then have "has_key (lx_only (ls ! 1)) ''size''"
    using distribution_places_fields_once(1)[OF h(1), of 1 "''size''"] by simp
  then show ?thesis using h(1) by blast
qed

theorem split_keeps_used_fields_witness:
  "\<exists>root ls out. analyze_hierarchy two_level_corpus [] = Some (root, ls)
     \<and> out \<in> set (build_split_stems ''/p'' (zero_stem\<lparr> st_schema := [(''size'', zero_field)] \<rparr>) root ls)
     \<and> sp_path out = path_join ''/p'' (path_join ''E2-b'' ''.stem'')
     \<and> map_of (sp_fields out) ''size'' = Some zero_field"
proof -
  obtain root ls where h: "analyze_hierarchy two_level_corpus [] = Some (root, ls)" "length ls = 2"
    "\<not> has_key root ''size''" "has_key (lx_schema (ls ! 1)) ''size''"
    "lv_dirs (lx_level (ls ! 0)) = [''E1-a'', ''E2-b'']" using two_level_hierarchy .
  then show ?thesis
    using split_keeps_used_fields[OF h(1), of 1 "''size''" "zero_stem\<lparr> st_schema := [(''size'', zero_field)] \<rparr>" zero_field "''/p''"]
    by auto
qed

theorem levels_well_formed_witness: "1 < length (lv_dirs (detect_levels two_level_corpus [] ! 0))"
proof -
  have "0 < length (detect_levels two_level_corpus [])" by code_simp
  then show ?thesis using levels_well_formed(1)[of 0 two_level_corpus "[]"] by linarith
qed

section \<open>Divergences\<close>

text \<open>A field whose values are numbers is inferred as an enum of their texts, and an enum takes only
  strings: the inferred schema rejects every record it was inferred from.\<close>

lemma inferred_enum_rejects_numbers:
  fixes gm fuzzy eff
  defines "corpus \<equiv> [numbered_doc ''a.md'' [(''size'', VInt 1)], numbered_doc ''b.md'' [(''size'', VInt 1)]]"
  shows "fs_type (analyze_field corpus ''size'') = ''enum''"
    "check_field gm fuzzy (hd corpus) eff ''size'' (schema_of_stats (analyze_field corpus ''size'')) \<noteq> FieldOk"
proof -
  show t: "fs_type (analyze_field corpus ''size'') = ''enum''" unfolding corpus_def by code_simp
  have "validate_field_value (schema_of_stats (analyze_field corpus ''size'')) (VInt 1) \<noteq> None"
    by (simp add: validate_field_value_def validate_representation_def representation_ok_def
        representation_name_def t)
  moreover have "map_of (rc_frontmatter (hd corpus)) ''size'' = Some (VInt 1)"
    by (simp add: corpus_def numbered_doc_def)
  ultimately show "check_field gm fuzzy (hd corpus) eff ''size'' (schema_of_stats (analyze_field corpus ''size'')) \<noteq> FieldOk"
    by (auto simp: check_field_def resolve_field_value_def)
qed

text \<open>A split drops the declaration of a field no record uses: no file it writes declares it.\<close>

lemma split_drops_unused_fields:
  assumes "out \<in> set (build_split_stems target existing root ls)"
    and "\<not> has_key root n" "\<forall>l \<in> set ls. \<not> has_key (lx_only l) n"
  shows "map_of (sp_fields out) n = None"
proof (cases "ls = []")
  case True
  have "map_of (split_root_fields ex root []) n = None" for ex
    using assms(2) map_of_filter_fst[of "\<lambda>k. k \<noteq> ''id'' \<and> has_key root k" ex n]
    by (simp add: split_root_fields_def)
  then show ?thesis using assms(1) True by (simp add: build_split_stems_def)
next
  case False
  have no: "i < length ls \<Longrightarrow> \<not> has_key (lx_only (ls ! i)) n" for i using assms(3) by simp
  consider "sp_fields out = split_root_fields (st_schema existing) root ls"
    | i where "i < length ls" "sp_fields out = split_level_fields (st_schema existing) root (ls ! i)"
    using assms(1) unfolding build_split_stems_def split_child_files_def by fastforce
  then show ?thesis
  proof cases
    case 1
    then show ?thesis using no[of 0] False assms(2) by (simp add: map_of_split_root)
  qed (use no assms(2) in \<open>simp add: map_of_split_level\<close>)
qed

text \<open>Two levels at one depth: the stem of the second is written into the directories of the first, where
  it governs no record of its own level.\<close>

definition side_by_side_corpus :: "doc list" where
  "side_by_side_corpus =
     [numbered_doc ''E1-a/x'' [], numbered_doc ''E2-b/x'' [], numbered_doc ''F1-c/y'' [(''size'', VStr ''s'')],
      numbered_doc ''F2-d/y'' [(''size'', VStr ''s'')]]"

lemma split_misplaces_levels_of_one_depth:
  "map_option (\<lambda>(root, ls). map (\<lambda>out. (sp_path out, map fst (sp_fields out)))
       (build_split_stems ''/p'' (zero_stem\<lparr> st_schema := [(''size'', zero_field)] \<rparr>) root ls))
     (analyze_hierarchy side_by_side_corpus []) =
   Some [(''/p/.stem'', []), (''/p/E1-a/.stem'', [''size'']), (''/p/E2-b/.stem'', [''size''])]"
  by code_simp

end
