(* ===== verification/Skill_Plan.thy ===== *)
theory Skill_Plan
  imports Go_Paths Go_Values
begin

text \<open>
  The distribution of the agent skill, \<open>internal/skilldist\<close>: the data of \<open>model.go\<close>, the digest of a tree
  in \<open>digest.go\<close>, the plans of \<open>plan.go\<close>, the evidence comparisons of \<open>service.go\<close> and the checks a stored
  receipt must pass in \<open>store.go\<close>.

  An error is an \<open>OperationError\<close> or an error of the system; a wrapped error is its first
  \<open>OperationError\<close>, which is what \<open>errors.As\<close> finds. Parameters: \<open>sha\<close>, the hexadecimal SHA-256 of a text,
  and \<open>hash\<close>, the digest of the JSON of a plan.
\<close>

section \<open>Data\<close>

datatype error_code =
    SourceNotCanonical | LinkedWorktreeRefused | SourceDigestChanged | PreimageDigestChanged
  | UnsupportedFileType | SymlinkPermission | BackupFailed | VerificationFailed | RestoreConflict

record op_error =
  oe_code :: error_code
  oe_path :: string
  oe_destination :: string
  oe_message :: string

datatype sys_error = SysNotExist | SysExist | SysPermission | SysOther

datatype skill_error = OpErr op_error | SysErr sys_error string

datatype destination_id = DestClaude | DestAgents | OtherDest string

datatype entry_kind =
    KindAbsent | KindDirectory | KindCorrectSymlink | KindDivergentSymlink | KindUnsupported
  | OtherKind string

datatype skill_op = OpInstall | OpStatus | OpUninstall | OpRestore | OtherOp string

datatype action_kind =
    CreateSymlink | ReplaceWithSymlink | RemoveManagedSymlink | RestorePreimage | NoOp
  | OtherAction string

record skill_source =
  so_repo :: string
  so_path :: string
  so_commit :: string
  so_digest :: string

record destination =
  ds_id :: destination_id
  ds_path :: string

record destination_state =
  de_id :: destination_id
  de_path :: string
  de_kind :: entry_kind
  de_digest :: string
  de_lexical :: string
  de_canonical :: string

record plan_action =
  ac_kind :: action_kind
  ac_dest :: destination_state

record skill_plan =
  pl_op :: skill_op
  pl_source :: skill_source
  pl_actions :: "plan_action list"
  pl_digest :: string

record skill_backup =
  bk_dest :: destination_id
  bk_original :: string
  bk_stored :: string
  bk_kind :: entry_kind
  bk_digest :: string
  bk_link :: string

record action_result =
  ar_dest :: destination_id
  ar_action :: action_kind
  ar_before :: destination_state
  ar_after :: destination_state
  ar_complete :: bool
  ar_rolled_back :: bool
  ar_error :: "op_error option"

record receipt =
  rp_version :: int
  rp_kind :: string
  rp_id :: string
  rp_time :: string
  rp_op :: skill_op
  rp_complete :: bool
  rp_source :: "skill_source option"
  rp_plan_digest :: string
  rp_actions :: "action_result list"
  rp_backups :: "skill_backup list"
  rp_errors :: "op_error list"

record skill_result =
  rs_op :: skill_op
  rs_attempted :: bool
  rs_complete :: bool
  rs_source :: "skill_source option"
  rs_plan :: "skill_plan option"
  rs_destinations :: "destination_state list"
  rs_backups :: "skill_backup list"
  rs_receipt :: "receipt option"
  rs_drift :: bool
  rs_errors :: "op_error list"

section \<open>Texts and errors\<close>

definition id_text :: "destination_id \<Rightarrow> string" where
  "id_text i = (case i of DestClaude \<Rightarrow> ''claude'' | DestAgents \<Rightarrow> ''agents'' | OtherDest s \<Rightarrow> s)"

definition kind_name :: "entry_kind \<Rightarrow> string" where
  "kind_name k =
     (case k of KindAbsent \<Rightarrow> ''absent'' | KindDirectory \<Rightarrow> ''directory''
      | KindCorrectSymlink \<Rightarrow> ''correct_symlink'' | KindDivergentSymlink \<Rightarrow> ''divergent_symlink''
      | KindUnsupported \<Rightarrow> ''unsupported'' | OtherKind s \<Rightarrow> s)"

definition op_name :: "skill_op \<Rightarrow> string" where
  "op_name o' =
     (case o' of OpInstall \<Rightarrow> ''install'' | OpStatus \<Rightarrow> ''status'' | OpUninstall \<Rightarrow> ''uninstall''
      | OpRestore \<Rightarrow> ''restore'' | OtherOp s \<Rightarrow> s)"

definition action_name :: "action_kind \<Rightarrow> string" where
  "action_name a =
     (case a of CreateSymlink \<Rightarrow> ''create_symlink'' | ReplaceWithSymlink \<Rightarrow> ''replace_with_symlink''
      | RemoveManagedSymlink \<Rightarrow> ''remove_managed_symlink'' | RestorePreimage \<Rightarrow> ''restore_preimage''
      | NoOp \<Rightarrow> ''no_op'' | OtherAction s \<Rightarrow> s)"

definition op_error :: "error_code \<Rightarrow> string \<Rightarrow> string \<Rightarrow> string \<Rightarrow> skill_error" where
  "op_error code path dest msg =
     OpErr \<lparr> oe_code = code, oe_path = path, oe_destination = dest, oe_message = msg \<rparr>"

definition state_error :: "error_code \<Rightarrow> destination_state \<Rightarrow> string \<Rightarrow> skill_error" where
  "state_error code st msg = op_error code (de_path st) (id_text (de_id st)) msg"

definition skill_error_text :: "skill_error \<Rightarrow> string" where
  "skill_error_text e = (case e of OpErr oe \<Rightarrow> oe_message oe | SysErr _ s \<Rightarrow> s)"

definition is_not_exist :: "skill_error \<Rightarrow> bool" where
  "is_not_exist e = (case e of SysErr SysNotExist _ \<Rightarrow> True | _ \<Rightarrow> False)"

definition coerce_error :: "error_code \<Rightarrow> string \<Rightarrow> string \<Rightarrow> skill_error \<Rightarrow> op_error" where
  "coerce_error code path dest e =
     (case e of
        OpErr oe \<Rightarrow> oe\<lparr> oe_path := (if oe_path oe = [] then path else oe_path oe),
                      oe_destination := (if oe_destination oe = [] then dest else oe_destination oe) \<rparr>
      | SysErr _ s \<Rightarrow> \<lparr> oe_code = code, oe_path = path, oe_destination = dest, oe_message = s \<rparr>)"

definition add_error :: "skill_result \<Rightarrow> op_error \<Rightarrow> skill_result" where
  "add_error r e = r\<lparr> rs_errors := rs_errors r @ [e] \<rparr>"

section \<open>The digest of a tree\<close>

text \<open>The entries below a root in the order of \<open>WalkDir\<close>, with permissions; a directory and a link also
  have the size their \<open>FileInfo\<close> reports.\<close>

datatype tree_entry =
    TFile nat string
  | TDir nat nat
  | TLink nat nat string
  | TSpecial string

type_synonym file_tree = "(string \<times> tree_entry) list"

fun octal_digits :: "nat \<Rightarrow> string" where
  "octal_digits n = (if n < 8 then [char_of (48 + n)] else octal_digits (n div 8) @ [char_of (48 + n mod 8)])"

definition octal4 :: "nat \<Rightarrow> string" where
  "octal4 n = (let ds = octal_digits n in replicate (4 - length ds) (CHR ''0'') @ ds)"

definition entry_header :: "string \<Rightarrow> string \<Rightarrow> nat \<Rightarrow> nat \<Rightarrow> string" where
  "entry_header rel kind perm sz =
     nat_digits (length rel) @ '':'' @ rel @ nat_digits (length kind) @ '':'' @ kind @ '':'' @
     octal4 perm @ '':'' @ nat_digits sz"

definition digest_entry :: "bool \<Rightarrow> string \<Rightarrow> string \<times> tree_entry \<Rightarrow> skill_error + string" where
  "digest_entry reject root e =
     (case snd e of
        TFile perm content \<Rightarrow> Inr (entry_header (fst e) ''file'' perm (length content) @ content)
      | TDir perm sz \<Rightarrow> Inr (entry_header (fst e) ''dir'' perm sz)
      | TLink perm sz target \<Rightarrow>
          if reject then Inl (op_error SourceNotCanonical (path_join root (fst e)) []
                                ''canonical skill contains a symlink'')
          else Inr (entry_header (fst e) ''symlink'' perm sz @ nat_digits (length target) @ '':'' @ target)
      | TSpecial ty \<Rightarrow>
          Inl (SysErr SysOther (''tree contains unsupported file type '' @ ty @ '' at '' @
                 path_join root (fst e))))"

definition digest_text :: "bool \<Rightarrow> string \<Rightarrow> file_tree \<Rightarrow> skill_error + string" where
  "digest_text reject root t =
     (case try_map (digest_entry reject root) t of Inl e \<Rightarrow> Inl e | Inr parts \<Rightarrow> Inr (concat parts))"

definition digest_tree :: "(string \<Rightarrow> string) \<Rightarrow> bool \<Rightarrow> string \<Rightarrow> file_tree \<Rightarrow> skill_error + string" where
  "digest_tree sha reject root t =
     (case digest_text reject root t of Inl e \<Rightarrow> Inl e | Inr s \<Rightarrow> Inr (''sha256:'' @ sha s))"

section \<open>Evidence\<close>

definition filepath_clean :: "string \<Rightarrow> string" where
  "filepath_clean p = (if p = [] then [] else path_clean p)"

definition same_evidence :: "destination_state \<Rightarrow> destination_state \<Rightarrow> bool" where
  "same_evidence a b =
     (de_id a = de_id b \<and> de_kind a = de_kind b \<and> de_digest a = de_digest b \<and>
      path_clean (de_lexical a) = path_clean (de_lexical b) \<and>
      path_clean (de_canonical a) = path_clean (de_canonical b))"

definition is_link_kind :: "entry_kind \<Rightarrow> bool" where
  "is_link_kind k = (k = KindCorrectSymlink \<or> k = KindDivergentSymlink)"

definition recorded_managed_link :: "destination_state \<Rightarrow> bool" where
  "recorded_managed_link st = is_link_kind (de_kind st)"

definition receipted_link_matches :: "destination_state \<Rightarrow> destination_state \<Rightarrow> bool" where
  "receipted_link_matches recorded current =
     (is_link_kind (de_kind current) \<and> recorded_managed_link recorded \<and>
      de_id recorded = de_id current \<and>
      filepath_clean (de_path recorded) = filepath_clean (de_path current) \<and>
      filepath_clean (de_lexical recorded) = filepath_clean (de_lexical current) \<and>
      filepath_clean (de_canonical recorded) = filepath_clean (de_canonical current))"

definition restorable_state_matches :: "destination_state \<Rightarrow> destination_state \<Rightarrow> bool" where
  "restorable_state_matches recorded current =
     (receipted_link_matches recorded current \<or>
      (de_kind current = KindAbsent \<and> recorded_managed_link recorded \<and> de_id recorded = de_id current \<and>
       filepath_clean (de_path recorded) = filepath_clean (de_path current)))"

definition staged_evidence_same :: "destination_state \<Rightarrow> destination_state \<Rightarrow> skill_backup \<Rightarrow> bool" where
  "staged_evidence_same expected observed backup =
     (if is_link_kind (de_kind expected) then
        de_id expected = de_id observed \<and> de_kind expected = de_kind observed \<and>
        bk_dest backup = de_id expected \<and> bk_kind backup = de_kind expected \<and>
        path_clean (de_lexical expected) = path_clean (bk_link backup) \<and>
        path_clean (de_lexical expected) = path_clean (de_lexical observed)
      else same_evidence expected observed)"

definition all_destinations_exact :: "destination_state list \<Rightarrow> bool" where
  "all_destinations_exact sts = (length sts = 2 \<and> list_all (\<lambda>s. de_kind s = KindCorrectSymlink) sts)"

text \<open>The last action of a receipt for a destination.\<close>

definition action_for :: "receipt \<Rightarrow> destination_id \<Rightarrow> action_result option" where
  "action_for r i = List.find (\<lambda>a. ar_dest a = i) (rev (rp_actions r))"

definition receipt_drifted :: "receipt \<Rightarrow> skill_source \<Rightarrow> destination_state list \<Rightarrow> bool" where
  "receipt_drifted r source sts =
     (case rp_source r of
        None \<Rightarrow> True
      | Some s \<Rightarrow>
          so_digest s \<noteq> so_digest source \<or> so_commit s \<noteq> so_commit source \<or>
          path_clean (so_path s) \<noteq> path_clean (so_path source) \<or>
          list_ex (\<lambda>st. case action_for r (de_id st) of
             None \<Rightarrow> True
           | Some a \<Rightarrow> \<not> same_evidence (ar_after a) st \<or>
                       path_clean (de_path (ar_after a)) \<noteq> path_clean (de_path st)) sts)"

section \<open>Plans\<close>

text \<open>What the digest of a plan covers: its operation, the receipt it is bound to, source, actions and
  preimages.\<close>

type_synonym plan_key =
  "skill_op \<times> string option \<times> skill_source \<times> plan_action list \<times> destination_state list"

definition supported_destination :: "destination_id \<Rightarrow> bool" where
  "supported_destination i = (i = DestClaude \<or> i = DestAgents)"

definition unsupported_destination :: "destination_state \<Rightarrow> skill_error" where
  "unsupported_destination st =
     state_error UnsupportedFileType st (''unsupported destination '' @ go_quote (id_text (de_id st)))"

definition install_action_kind :: "destination_state \<Rightarrow> skill_error + action_kind" where
  "install_action_kind st =
     (case de_kind st of
        KindAbsent \<Rightarrow> Inr CreateSymlink
      | KindCorrectSymlink \<Rightarrow> Inr NoOp
      | KindDirectory \<Rightarrow> Inr ReplaceWithSymlink
      | KindDivergentSymlink \<Rightarrow> Inr ReplaceWithSymlink
      | KindUnsupported \<Rightarrow> Inl (state_error UnsupportedFileType st (''unsupported file type at '' @ de_path st))
      | OtherKind k \<Rightarrow> Inl (state_error UnsupportedFileType st (''unsupported destination state '' @ go_quote k)))"

definition restore_action_kind :: "destination_state \<Rightarrow> skill_error + action_kind" where
  "restore_action_kind pre =
     (case de_kind pre of
        KindAbsent \<Rightarrow> Inr RemoveManagedSymlink
      | KindDirectory \<Rightarrow> Inr RestorePreimage
      | KindCorrectSymlink \<Rightarrow> Inr RestorePreimage
      | KindDivergentSymlink \<Rightarrow> Inr RestorePreimage
      | KindUnsupported \<Rightarrow>
          Inl (state_error UnsupportedFileType pre (''unsupported preimage file type at '' @ de_path pre))
      | OtherKind k \<Rightarrow> Inl (state_error UnsupportedFileType pre (''unsupported preimage state '' @ go_quote k)))"

definition install_action :: "destination_state \<Rightarrow> skill_error + plan_action" where
  "install_action st =
     (if \<not> supported_destination (de_id st) then Inl (unsupported_destination st)
      else case install_action_kind st of
        Inl e \<Rightarrow> Inl e | Inr k \<Rightarrow> Inr \<lparr> ac_kind = k, ac_dest = st \<rparr>)"

definition build_install_plan ::
  "(plan_key \<Rightarrow> string) \<Rightarrow> skill_source \<Rightarrow> destination_state list \<Rightarrow> skill_error + skill_plan" where
  "build_install_plan hash source sts =
     (case try_map install_action sts of
        Inl e \<Rightarrow> Inl e
      | Inr as \<Rightarrow> Inr \<lparr> pl_op = OpInstall, pl_source = source, pl_actions = as,
                       pl_digest = hash (OpInstall, None, source, as, []) \<rparr>)"

definition receipt_error :: "string \<Rightarrow> skill_error" where
  "receipt_error msg = op_error RestoreConflict [] [] msg"

definition receipt_plan_source :: "receipt \<Rightarrow> skill_error + skill_source" where
  "receipt_plan_source r =
     (if rp_id r = [] then Inl (receipt_error ''receipt ID is required'')
      else if \<not> rp_complete r then
        Inl (receipt_error (''receipt '' @ go_quote (rp_id r) @ '' is incomplete''))
      else case rp_source r of
        None \<Rightarrow> Inl (receipt_error (''receipt '' @ go_quote (rp_id r) @ '' has no source evidence''))
      | Some s \<Rightarrow> Inr s)"

definition uninstall_action ::
  "receipt \<Rightarrow> skill_source \<Rightarrow> destination_state \<Rightarrow> skill_error + plan_action" where
  "uninstall_action r source st =
     (let conflict = (\<lambda>msg. Inl (state_error RestoreConflict st msg)) in
      if \<not> supported_destination (de_id st) then Inl (unsupported_destination st)
      else if de_kind st \<noteq> KindCorrectSymlink then conflict ''destination is not an intact managed symlink''
      else case action_for r (de_id st) of
        None \<Rightarrow> conflict ''destination does not match receipt evidence''
      | Some a \<Rightarrow>
          if \<not> ar_complete a \<or> de_kind (ar_after a) \<noteq> KindCorrectSymlink \<or>
             filepath_clean (de_path (ar_after a)) \<noteq> filepath_clean (de_path st) \<or>
             \<not> same_evidence (ar_after a) st
          then conflict ''destination does not match receipt evidence''
          else if filepath_clean (de_lexical st) \<noteq> filepath_clean (so_path source) \<or>
             de_digest st \<noteq> so_digest source
          then conflict ''destination does not target the receipted source''
          else Inr \<lparr> ac_kind = RemoveManagedSymlink, ac_dest = st \<rparr>)"

definition build_uninstall_plan ::
  "(plan_key \<Rightarrow> string) \<Rightarrow> receipt \<Rightarrow> destination_state list \<Rightarrow> skill_error + skill_plan" where
  "build_uninstall_plan hash r sts =
     (case receipt_plan_source r of
        Inl e \<Rightarrow> Inl e
      | Inr source \<Rightarrow>
          (case try_map (uninstall_action r source) sts of
             Inl e \<Rightarrow> Inl e
           | Inr as \<Rightarrow> Inr \<lparr> pl_op = OpUninstall, pl_source = source, pl_actions = as,
                            pl_digest = hash (OpUninstall, Some (rp_id r), source, as, []) \<rparr>))"

text \<open>The action of a restore with the preimage it goes back to.\<close>

definition restore_action ::
  "receipt \<Rightarrow> destination_state \<Rightarrow> skill_error + plan_action \<times> destination_state" where
  "restore_action r st =
     (let conflict = Inl (state_error RestoreConflict st ''destination does not match receipt evidence'') in
      if \<not> supported_destination (de_id st) then Inl (unsupported_destination st)
      else case action_for r (de_id st) of
        None \<Rightarrow> conflict
      | Some a \<Rightarrow>
          if \<not> ar_complete a \<or> filepath_clean (de_path (ar_after a)) \<noteq> filepath_clean (de_path st) \<or>
             \<not> restorable_state_matches (ar_after a) st
          then conflict
          else case restore_action_kind (ar_before a) of
            Inl e \<Rightarrow> Inl e
          | Inr k \<Rightarrow>
              Inr (\<lparr> ac_kind =
                       (if ar_action a = NoOp \<and> same_evidence (ar_before a) st \<and>
                           filepath_clean (de_path (ar_before a)) = filepath_clean (de_path st)
                        then NoOp else k),
                     ac_dest = st \<rparr>, ar_before a))"

definition build_restore_plan ::
  "(plan_key \<Rightarrow> string) \<Rightarrow> receipt \<Rightarrow> destination_state list \<Rightarrow> skill_error + skill_plan" where
  "build_restore_plan hash r sts =
     (case receipt_plan_source r of
        Inl e \<Rightarrow> Inl e
      | Inr source \<Rightarrow>
          (case try_map (restore_action r) sts of
             Inl e \<Rightarrow> Inl e
           | Inr aps \<Rightarrow> Inr \<lparr> pl_op = OpRestore, pl_source = source, pl_actions = map fst aps,
                pl_digest = hash (OpRestore, Some (rp_id r), source, map fst aps, map snd aps) \<rparr>))"

section \<open>Receipts\<close>

definition known_receipt_operation :: "skill_op \<Rightarrow> bool" where
  "known_receipt_operation o' = (o' = OpInstall \<or> o' = OpUninstall \<or> o' = OpRestore)"

definition known_action_kind :: "action_kind \<Rightarrow> bool" where
  "known_action_kind a = (case a of OtherAction _ \<Rightarrow> False | _ \<Rightarrow> True)"

definition known_entry_kind :: "entry_kind \<Rightarrow> bool" where
  "known_entry_kind k = (case k of OtherKind _ \<Rightarrow> False | _ \<Rightarrow> True)"

definition validate_child_name :: "string \<Rightarrow> string \<Rightarrow> string option" where
  "validate_child_name name label =
     (if name = [] then Some (label @ '' is required'')
      else if CHR ''/'' \<in> set name \<or> CHR 92 \<in> set name \<or> path_clean name \<noteq> name \<or>
              name = ''.'' \<or> name = ''..''
      then Some (label @ '' '' @ go_quote name @ '' is not a safe store child name'')
      else None)"

definition validate_backup_semantics :: "skill_backup \<Rightarrow> string option" where
  "validate_backup_semantics b =
     (let d = go_quote (id_text (bk_dest b)) in
      if bk_original b = [] then Some (''backup for destination '' @ d @ '' has no original path'')
      else if \<not> known_entry_kind (bk_kind b) \<or> bk_kind b = KindUnsupported then
        Some (''backup for destination '' @ d @ '' has unsupported kind '' @ go_quote (kind_name (bk_kind b)))
      else if bk_kind b = KindDirectory \<and> bk_stored b = [] then
        Some (''directory backup for destination '' @ d @ '' has no stored path'')
      else if is_link_kind (bk_kind b) \<and> bk_link b = [] then
        Some (''symlink backup for destination '' @ d @ '' has no link target'')
      else None)"

definition operation_action_invariant :: "skill_op \<Rightarrow> action_result \<Rightarrow> string option" where
  "operation_action_invariant o' a =
     (let d = go_quote (id_text (ar_dest a)); act = go_quote (action_name (ar_action a));
          k = de_kind (ar_before a) in
      case o' of
        OpInstall \<Rightarrow>
          (let finish =
             (if ar_complete a \<and> ar_action a \<noteq> NoOp \<and> de_kind (ar_after a) \<noteq> KindCorrectSymlink
              then Some (''install action '' @ act @ '' destination '' @ d @ '' must finish as correct symlink'')
              else None) in
           case ar_action a of
             NoOp \<Rightarrow>
               if k \<noteq> KindCorrectSymlink
               then Some (''install no_op destination '' @ d @ '' requires correct symlink before evidence'')
               else finish
           | CreateSymlink \<Rightarrow>
               if k \<noteq> KindAbsent
               then Some (''install create_symlink destination '' @ d @ '' requires absent before evidence'')
               else finish
           | ReplaceWithSymlink \<Rightarrow>
               if k \<noteq> KindDirectory \<and> k \<noteq> KindDivergentSymlink
               then Some (''install replace_with_symlink destination '' @ d @ '' requires replaceable before evidence'')
               else finish
           | _ \<Rightarrow> Some (''action '' @ act @ '' is not valid for install receipt''))
      | OpUninstall \<Rightarrow>
          if ar_action a \<noteq> RemoveManagedSymlink
          then Some (''action '' @ act @ '' is not valid for uninstall receipt'')
          else if k \<noteq> KindCorrectSymlink
          then Some (''uninstall destination '' @ d @ '' requires correct symlink before evidence'')
          else if ar_complete a \<and> de_kind (ar_after a) \<noteq> KindAbsent
          then Some (''uninstall destination '' @ d @ '' must finish absent'')
          else None
      | OpRestore \<Rightarrow>
          if ar_action a \<noteq> NoOp \<and> ar_action a \<noteq> RemoveManagedSymlink \<and> ar_action a \<noteq> RestorePreimage
          then Some (''action '' @ act @ '' is not valid for restore receipt'')
          else None
      | _ \<Rightarrow> None)"

definition action_requires_backup :: "skill_op \<Rightarrow> action_result \<Rightarrow> bool" where
  "action_requires_backup o' a =
     (o' \<noteq> OpUninstall \<and> ar_complete a \<and> de_kind (ar_before a) \<noteq> KindAbsent \<and>
      (ar_action a \<noteq> NoOp \<or> de_kind (ar_before a) \<noteq> KindCorrectSymlink))"

definition backup_for :: "skill_backup list \<Rightarrow> destination_id \<Rightarrow> skill_backup option" where
  "backup_for bs i = List.find (\<lambda>b. bk_dest b = i) (rev bs)"

text \<open>The empty kind is the zero value of the Go type.\<close>

definition validate_action_result :: "skill_op \<Rightarrow> skill_backup list \<Rightarrow> action_result \<Rightarrow> string option" where
  "validate_action_result o' bs a =
     (let d = go_quote (id_text (ar_dest a)) in
      if \<not> known_action_kind (ar_action a) then
        Some (''unsupported action '' @ go_quote (action_name (ar_action a)) @ '' for destination '' @ d)
      else if de_id (ar_before a) \<noteq> ar_dest a then
        Some (''before evidence destination '' @ go_quote (id_text (de_id (ar_before a))) @
          '' does not match action destination '' @ d)
      else if de_path (ar_before a) = [] \<or> de_kind (ar_before a) = OtherKind [] then
        Some (''before evidence for destination '' @ d @ '' is incomplete'')
      else if ar_complete a \<and> de_id (ar_after a) \<noteq> ar_dest a then
        Some (''after evidence destination '' @ go_quote (id_text (de_id (ar_after a))) @
          '' does not match action destination '' @ d)
      else if ar_complete a \<and> (de_path (ar_after a) = [] \<or> de_kind (ar_after a) = OtherKind []) then
        Some (''after evidence for destination '' @ d @ '' is incomplete'')
      else if \<not> ar_complete a \<and> ar_error a = None then
        Some (''incomplete action for destination '' @ d @ '' has no error evidence'')
      else case operation_action_invariant o' a of
        Some m \<Rightarrow> Some m
      | None \<Rightarrow>
          if \<not> action_requires_backup o' a then None
          else (case backup_for bs (ar_dest a) of
            None \<Rightarrow> Some (''missing backup for destination '' @ d)
          | Some b \<Rightarrow>
              if bk_kind b \<noteq> de_kind (ar_before a) then
                Some (''backup kind '' @ go_quote (kind_name (bk_kind b)) @ '' does not match before kind '' @
                  go_quote (kind_name (de_kind (ar_before a))) @ '' for destination '' @ d)
              else None))"

fun validate_backups :: "destination_id list \<Rightarrow> skill_backup list \<Rightarrow> string option" where
  "validate_backups seen [] = None"
| "validate_backups seen (b # bs) =
     (if \<not> supported_destination (bk_dest b) then
        Some (''unsupported destination '' @ go_quote (id_text (bk_dest b)) @ '' in backup'')
      else if bk_dest b \<in> set seen then
        Some (''duplicate destination '' @ go_quote (id_text (bk_dest b)) @ '' in backups'')
      else case validate_backup_semantics b of
        Some m \<Rightarrow> Some m | None \<Rightarrow> validate_backups (bk_dest b # seen) bs)"

fun validate_actions ::
  "skill_op \<Rightarrow> skill_backup list \<Rightarrow> destination_id list \<Rightarrow> action_result list \<Rightarrow> string option" where
  "validate_actions o' bs seen [] = None"
| "validate_actions o' bs seen (a # as) =
     (if \<not> supported_destination (ar_dest a) then
        Some (''unsupported destination '' @ go_quote (id_text (ar_dest a)) @ '' in action'')
      else if ar_dest a \<in> set seen then
        Some (''duplicate destination '' @ go_quote (id_text (ar_dest a)) @ '' in actions'')
      else case validate_action_result o' bs a of
        Some m \<Rightarrow> Some m | None \<Rightarrow> validate_actions o' bs (ar_dest a # seen) as)"

definition receipt_kind :: string where "receipt_kind = ''rootline/skill-receipt''"

definition validate_receipt :: "receipt \<Rightarrow> string option" where
  "validate_receipt r =
     (if rp_version r \<noteq> 1 then Some (''unsupported receipt version '' @ itoa (rp_version r))
      else if rp_kind r \<noteq> receipt_kind then Some (''unsupported receipt kind '' @ go_quote (rp_kind r))
      else case validate_child_name (rp_id r) ''receipt ID'' of
        Some m \<Rightarrow> Some m
      | None \<Rightarrow>
          if \<not> known_receipt_operation (rp_op r) then
            Some (''unsupported receipt operation '' @ go_quote (op_name (rp_op r)))
          else if rp_plan_digest r = [] then Some ''receipt plan digest is required''
          else (case rp_source r of
            None \<Rightarrow> Some ''receipt source evidence is required''
          | Some s \<Rightarrow>
              if so_path s = [] \<or> so_digest s = [] then Some ''receipt source path and digest are required''
              else (case validate_backups [] (rp_backups r) of
                Some m \<Rightarrow> Some m
              | None \<Rightarrow> validate_actions (rp_op r) (rp_backups r) [] (rp_actions r))))"

section \<open>What a plan does\<close>

lemma list_find_SomeD: "List.find P xs = Some x \<Longrightarrow> x \<in> set xs \<and> P x"
  by (auto simp: find_Some_iff)

lemma action_for_SomeD: "action_for r i = Some a \<Longrightarrow> a \<in> set (rp_actions r) \<and> ar_dest a = i"
  unfolding action_for_def by (auto dest: list_find_SomeD)

lemma try_map_dests:
  assumes "try_map f sts = Inr as" "\<And>st a. f st = Inr a \<Longrightarrow> g a = st"
  shows "map g as = sts"
  using assms(1)
proof (induction sts arbitrary: as)
  case (Cons st sts)
  then show ?case using assms(2) by (auto split: sum.splits)
qed simp

lemma try_map_Inr_mem:
  "try_map f xs = Inr ys \<Longrightarrow> y \<in> set ys \<Longrightarrow> \<exists>x \<in> set xs. f x = Inr y"
proof (induction xs arbitrary: ys)
  case (Cons x xs)
  then obtain z zs where "f x = Inr z" "try_map f xs = Inr zs" "ys = z # zs" by (auto split: sum.splits)
  then show ?case using Cons by auto
qed simp

lemma install_action_InrD:
  "install_action st = Inr a \<Longrightarrow>
     ac_dest a = st \<and> supported_destination (de_id st) \<and>
     (ac_kind a = CreateSymlink \<and> de_kind st = KindAbsent \<or>
      ac_kind a = NoOp \<and> de_kind st = KindCorrectSymlink \<or>
      ac_kind a = ReplaceWithSymlink \<and> de_kind st \<in> {KindDirectory, KindDivergentSymlink})"
  by (auto simp: install_action_def install_action_kind_def split: if_splits entry_kind.splits)

lemma build_install_planD:
  assumes "build_install_plan hash source sts = Inr p"
  shows "pl_op p = OpInstall" "pl_source p = source" "map ac_dest (pl_actions p) = sts"
    "pl_digest p = hash (OpInstall, None, source, pl_actions p, [])"
    "\<forall>a \<in> set (pl_actions p). install_action (ac_dest a) = Inr a"
proof -
  obtain as where as: "try_map install_action sts = Inr as" "pl_actions p = as" "pl_op p = OpInstall"
    "pl_source p = source" "pl_digest p = hash (OpInstall, None, source, as, [])"
    using assms by (auto simp: build_install_plan_def split: sum.splits)
  show "pl_op p = OpInstall" "pl_source p = source" "pl_digest p = hash (OpInstall, None, source, pl_actions p, [])"
    using as by simp_all
  show "map ac_dest (pl_actions p) = sts"
    using try_map_dests[OF as(1), of ac_dest] install_action_InrD as(2) by blast
  show "\<forall>a \<in> set (pl_actions p). install_action (ac_dest a) = Inr a"
    using try_map_Inr_mem[OF as(1)] install_action_InrD as(2) by metis
qed

lemma uninstall_action_InrD:
  assumes "uninstall_action r source st = Inr a"
  shows "ac_kind a = RemoveManagedSymlink" "ac_dest a = st" "de_kind st = KindCorrectSymlink"
    "de_digest st = so_digest source" "filepath_clean (de_lexical st) = filepath_clean (so_path source)"
    "\<exists>rec \<in> set (rp_actions r). ar_dest rec = de_id st \<and> ar_complete rec \<and> same_evidence (ar_after rec) st
       \<and> filepath_clean (de_path (ar_after rec)) = filepath_clean (de_path st)"
  using assms
  by (auto simp: uninstall_action_def Let_def dest: action_for_SomeD split: if_splits option.splits)

text \<open>An uninstall plan removes nothing but the links its receipt installed: the receipt is complete, and
  for every action the destination is at the moment a link with the content and target of the receipted
  source, and the receipt has a completed action that left it in exactly this state.\<close>

theorem uninstall_plan_removes_receipted_links:
  assumes "build_uninstall_plan hash r sts = Inr p" "a \<in> set (pl_actions p)"
  shows "rp_complete r \<and> rp_source r = Some (pl_source p) \<and> ac_dest a \<in> set sts
    \<and> ac_kind a = RemoveManagedSymlink \<and> de_kind (ac_dest a) = KindCorrectSymlink
    \<and> de_digest (ac_dest a) = so_digest (pl_source p)
    \<and> (\<exists>rec \<in> set (rp_actions r). ar_dest rec = de_id (ac_dest a) \<and> ar_complete rec
          \<and> same_evidence (ar_after rec) (ac_dest a))"
proof -
  obtain source as where s: "receipt_plan_source r = Inr source" "try_map (uninstall_action r source) sts = Inr as"
    "pl_actions p = as" "pl_source p = source"
    using assms(1) by (auto simp: build_uninstall_plan_def split: sum.splits)
  obtain st where st: "st \<in> set sts" "uninstall_action r source st = Inr a"
    using try_map_Inr_mem[OF s(2)] assms(2) s(3) by blast
  have "rp_complete r \<and> rp_source r = Some source"
    using s(1) by (auto simp: receipt_plan_source_def split: if_splits option.splits)
  then show ?thesis using uninstall_action_InrD[OF st(2)] st(1) s(4) by auto
qed

definition sample_source :: skill_source where
  "sample_source = \<lparr> so_repo = ''/repo'', so_path = ''/repo/.agents/skills/rootline'', so_commit = ''c0'',
     so_digest = ''sha256:aa'' \<rparr>"

definition sample_link :: destination_state where
  "sample_link = \<lparr> de_id = DestClaude, de_path = ''/h/.claude/skills/rootline'', de_kind = KindCorrectSymlink,
     de_digest = ''sha256:aa'', de_lexical = ''/repo/.agents/skills/rootline'',
     de_canonical = ''/repo/.agents/skills/rootline'' \<rparr>"

definition sample_install_receipt :: receipt where
  "sample_install_receipt = \<lparr> rp_version = 1, rp_kind = receipt_kind, rp_id = ''r1'', rp_time = ''t'',
     rp_op = OpInstall, rp_complete = True, rp_source = Some sample_source, rp_plan_digest = ''sha256:bb'',
     rp_actions = [\<lparr> ar_dest = DestClaude, ar_action = CreateSymlink,
        ar_before = sample_link\<lparr> de_kind := KindAbsent, de_digest := [], de_lexical := [], de_canonical := [] \<rparr>,
        ar_after = sample_link, ar_complete = True, ar_rolled_back = False, ar_error = None \<rparr>],
     rp_backups = [], rp_errors = [] \<rparr>"

theorem uninstall_plan_removes_receipted_links_witness:
  "de_digest (ac_dest \<lparr> ac_kind = RemoveManagedSymlink, ac_dest = sample_link \<rparr>) = so_digest sample_source"
proof -
  let ?a = "\<lparr> ac_kind = RemoveManagedSymlink, ac_dest = sample_link \<rparr>"
  let ?p = "\<lparr> pl_op = OpUninstall, pl_source = sample_source, pl_actions = [?a], pl_digest = [] \<rparr>"
  have a: "action_for sample_install_receipt DestClaude = Some (hd (rp_actions sample_install_receipt))"
    by (simp add: action_for_def sample_install_receipt_def)
  have "uninstall_action sample_install_receipt sample_source sample_link = Inr ?a"
    using a by (simp add: uninstall_action_def sample_install_receipt_def sample_link_def sample_source_def
        supported_destination_def same_evidence_def)
  then have "build_uninstall_plan (\<lambda>_. []) sample_install_receipt [sample_link] = Inr ?p"
    by (simp add: build_uninstall_plan_def receipt_plan_source_def sample_install_receipt_def)
  from uninstall_plan_removes_receipted_links[OF this, of ?a] show ?thesis by simp
qed

section \<open>Divergences\<close>

text \<open>The digest of a tree does not separate the size of a file from its content, so two different trees
  have one digest whatever the hash function: a file with the content \<open>6\<close> beside an empty file, and one file
  whose content reads like the header of the empty file.\<close>

definition two_files :: file_tree where
  "two_files = [(''f'', TFile 420 ''6''), (''g'', TFile 420 [])]"

definition one_file :: file_tree where
  "one_file = [(''f'', TFile 420 ''1:g4:file:0644:0'')]"

lemma tree_digest_collides: "two_files \<noteq> one_file" "digest_tree sha b r two_files = digest_tree sha b r one_file"
proof -
  have two: "digest_text True [] two_files = Inr ''1:f4:file:0644:161:g4:file:0644:0''" by code_simp
  have one: "digest_text True [] one_file = Inr ''1:f4:file:0644:161:g4:file:0644:0''" by code_simp
  have "digest_text b r two_files = digest_text True [] two_files"
    "digest_text b r one_file = digest_text True [] one_file"
    by (simp_all add: digest_text_def two_files_def one_file_def digest_entry_def)
  then show "digest_tree sha b r two_files = digest_tree sha b r one_file"
    using one two by (simp add: digest_tree_def)
  show "two_files \<noteq> one_file" by (simp add: two_files_def one_file_def)
qed

text \<open>The size a file system reports for a directory is part of the digest: the same files under the same
  permissions have another digest text after a copy to a directory of another size.\<close>

lemma digest_depends_on_directory_size:
  "digest_text False [] [(''d'', TDir 493 4096)] \<noteq> digest_text False [] [(''d'', TDir 493 60)]"
  by code_simp

end
