(* ===== verification/Skill_Store.thy ===== *)
theory Skill_Store
  imports Skill_Plan
begin

text \<open>
  The file system the skill is installed in, and the store of receipts and backups, \<open>store.go\<close>,
  \<open>publish_no_replace*.go\<close> and \<open>symlink_error.go\<close> of \<open>internal/skilldist\<close>.

  A node of the world is what \<open>Lstat\<close> finds at a clean path: a directory with its tree, a symbolic link or
  something else. Directories above a destination are not nodes: \<open>MkdirAll\<close> on them works or fails.
  Every call of the system consumes one entry of a schedule of faults, so that a statement about all worlds
  covers every way the calls can fail; a fault may leave a partly removed or partly copied tree and never
  pretends that an existing file does not exist. The lines of \<open>receipts.jsonl\<close> are receipts, or \<open>None\<close> for
  a line \<open>encoding/json\<close> cannot read; JSON itself is the identity.
\<close>

section \<open>The world\<close>

datatype fs_node = NDir nat file_tree | NLink string | NOther

datatype fault = Works | Denied | Broken string | Partial file_tree

record world =
  w_node :: "string \<Rightarrow> fs_node option"
  w_receipts :: "receipt option list"
  w_faults :: "fault list"
  w_clock :: nat
  w_pid :: nat
  w_dirsize :: "string \<Rightarrow> nat"

type_synonym 'a io = "world \<Rightarrow> (skill_error + 'a) \<times> world"

definition io_ok :: "'a \<Rightarrow> 'a io" where "io_ok x w = (Inr x, w)"

definition io_err :: "skill_error \<Rightarrow> 'a io" where "io_err e w = (Inl e, w)"

text \<open>Continue with the result or the error; continue with the result and stop at an error.\<close>

definition io_catch :: "'a io \<Rightarrow> (skill_error + 'a \<Rightarrow> 'b io) \<Rightarrow> 'b io" where
  "io_catch m k w = (case m w of (r, w') \<Rightarrow> k r w')"

definition io_bind :: "'a io \<Rightarrow> ('a \<Rightarrow> 'b io) \<Rightarrow> 'b io" where
  "io_bind m f = io_catch m (\<lambda>r. case r of Inl e \<Rightarrow> io_err e | Inr x \<Rightarrow> f x)"

definition io_map_error :: "(skill_error \<Rightarrow> skill_error) \<Rightarrow> 'a io \<Rightarrow> 'a io" where
  "io_map_error g m = io_catch m (\<lambda>r. case r of Inl e \<Rightarrow> io_err (g e) | Inr x \<Rightarrow> io_ok x)"

definition next_fault :: "world \<Rightarrow> fault \<times> world" where
  "next_fault w = (case w_faults w of [] \<Rightarrow> (Works, w) | f # fs \<Rightarrow> (f, w\<lparr> w_faults := fs \<rparr>))"

definition fault_error :: "fault \<Rightarrow> skill_error" where
  "fault_error f =
     (case f of Denied \<Rightarrow> SysErr SysPermission ''permission denied'' | Broken s \<Rightarrow> SysErr SysOther s
      | _ \<Rightarrow> SysErr SysOther ''input/output error'')"

definition not_exist :: skill_error where
  "not_exist = SysErr SysNotExist ''no such file or directory''"

text \<open>A call that a fault stops before it has an effect.\<close>

definition sys_call :: "(world \<Rightarrow> (skill_error + 'a) \<times> world) \<Rightarrow> 'a io" where
  "sys_call act w =
     (case next_fault w of (f, w') \<Rightarrow> if f = Works then act w' else (Inl (fault_error f), w'))"

definition node_at :: "world \<Rightarrow> string \<Rightarrow> fs_node option" where
  "node_at w p = w_node w (path_clean p)"

definition set_node :: "string \<Rightarrow> fs_node option \<Rightarrow> world \<Rightarrow> world" where
  "set_node p n w = w\<lparr> w_node := (w_node w)(path_clean p := n) \<rparr>"

section \<open>Calls of the system\<close>

definition os_lstat :: "string \<Rightarrow> fs_node io" where
  "os_lstat p = sys_call (\<lambda>w. (case node_at w p of None \<Rightarrow> Inl not_exist | Some n \<Rightarrow> Inr n, w))"

text \<open>The final component is followed, at most 255 times.\<close>

fun eval_links :: "nat \<Rightarrow> (string \<Rightarrow> fs_node option) \<Rightarrow> string \<Rightarrow> skill_error + string" where
  "eval_links 0 nodes p = Inl (SysErr SysOther ''too many links'')"
| "eval_links (Suc n) nodes p =
     (case nodes (path_clean p) of
        None \<Rightarrow> Inl not_exist
      | Some (NLink t) \<Rightarrow> eval_links n nodes (if is_abs t then t else path_join (path_dir p) t)
      | Some _ \<Rightarrow> Inr (path_clean p))"

definition os_eval_symlinks :: "string \<Rightarrow> string io" where
  "os_eval_symlinks p = sys_call (\<lambda>w. (eval_links 256 (w_node w) p, w))"

definition os_readlink :: "string \<Rightarrow> string io" where
  "os_readlink p = sys_call (\<lambda>w.
     (case node_at w p of
        None \<Rightarrow> Inl not_exist
      | Some (NLink t) \<Rightarrow> Inr t
      | Some _ \<Rightarrow> Inl (SysErr SysOther ''invalid argument''), w))"

text \<open>\<open>digestTree\<close>; below a link as the root, \<open>WalkDir\<close> visits the root only.\<close>

definition digest_at ::
  "(string \<Rightarrow> string) \<Rightarrow> bool \<Rightarrow> (string \<Rightarrow> fs_node option) \<Rightarrow> string \<Rightarrow> skill_error + string" where
  "digest_at sha reject nodes p =
     (case nodes (path_clean p) of
        None \<Rightarrow> Inl not_exist
      | Some (NDir m t) \<Rightarrow> digest_tree sha reject p t
      | Some (NLink t) \<Rightarrow>
          (case eval_links 256 nodes p of
             Inl e \<Rightarrow> Inl e
           | Inr q \<Rightarrow> (case nodes q of
               Some (NDir _ _) \<Rightarrow> digest_tree sha reject p []
             | _ \<Rightarrow> Inl (SysErr SysOther ''not a directory'')))
      | Some NOther \<Rightarrow> Inl (SysErr SysOther ''not a directory''))"

definition os_digest :: "(string \<Rightarrow> string) \<Rightarrow> bool \<Rightarrow> string \<Rightarrow> string io" where
  "os_digest sha reject p = sys_call (\<lambda>w. (digest_at sha reject (w_node w) p, w))"

definition replaceable :: "fs_node \<Rightarrow> fs_node option \<Rightarrow> bool" where
  "replaceable n old =
     (case old of
        None \<Rightarrow> True
      | Some (NDir _ t) \<Rightarrow> (case n of NDir _ _ \<Rightarrow> t = [] | _ \<Rightarrow> False)
      | Some _ \<Rightarrow> (case n of NDir _ _ \<Rightarrow> False | _ \<Rightarrow> True))"

definition os_rename :: "string \<Rightarrow> string \<Rightarrow> unit io" where
  "os_rename p q = sys_call (\<lambda>w.
     (case node_at w p of
        None \<Rightarrow> (Inl not_exist, w)
      | Some n \<Rightarrow>
          if replaceable n (node_at w q) then (Inr (), set_node q (Some n) (set_node p None w))
          else (Inl (SysErr SysExist ''file exists''), w)))"

text \<open>\<open>renameat2\<close> with \<open>RENAME_NOREPLACE\<close>.\<close>

definition os_publish :: "string \<Rightarrow> string \<Rightarrow> unit io" where
  "os_publish p q = sys_call (\<lambda>w.
     (case node_at w p of
        None \<Rightarrow> (Inl not_exist, w)
      | Some n \<Rightarrow>
          if node_at w q = None then (Inr (), set_node q (Some n) (set_node p None w))
          else (Inl (SysErr SysExist ''atomic no-replace destination exists''), w)))"

definition os_symlink :: "string \<Rightarrow> string \<Rightarrow> unit io" where
  "os_symlink target p = sys_call (\<lambda>w.
     if target = [] then (Inl not_exist, w)
     else if node_at w p \<noteq> None then (Inl (SysErr SysExist ''file exists''), w)
     else (Inr (), set_node p (Some (NLink target)) w))"

definition os_remove :: "string \<Rightarrow> unit io" where
  "os_remove p = sys_call (\<lambda>w.
     (case node_at w p of
        None \<Rightarrow> (Inl not_exist, w)
      | Some (NDir _ (x # xs)) \<Rightarrow> (Inl (SysErr SysOther ''directory not empty''), w)
      | Some _ \<Rightarrow> (Inr (), set_node p None w)))"

definition os_remove_all :: "string \<Rightarrow> unit io" where
  "os_remove_all p w =
     (case next_fault w of (f, w') \<Rightarrow>
        (case f of
           Works \<Rightarrow> (Inr (), set_node p None w')
         | Partial t \<Rightarrow>
             (case node_at w' p of
                Some (NDir m _) \<Rightarrow> (Inl (fault_error f), set_node p (Some (NDir m t)) w')
              | _ \<Rightarrow> (Inl (fault_error f), w'))
         | _ \<Rightarrow> (Inl (fault_error f), w')))"

definition os_mkdir :: "string \<Rightarrow> unit io" where
  "os_mkdir p = sys_call (\<lambda>w.
     if node_at w p \<noteq> None then (Inl (SysErr SysExist ''file exists''), w)
     else (Inr (), set_node p (Some (NDir 448 [])) w))"

definition os_mkdir_all :: "string \<Rightarrow> unit io" where
  "os_mkdir_all p = sys_call (\<lambda>w. (Inr (), w))"

text \<open>The first of a hundred names beside a path that is free.\<close>

definition stage_name :: "string \<Rightarrow> nat \<Rightarrow> nat \<Rightarrow> string" where
  "stage_name p pid n =
     path_join (path_dir p)
       (''.'' @ path_base p @ ''.rootline-stage.'' @ nat_digits pid @ ''.'' @ nat_digits n)"

fun sibling_loop :: "nat \<Rightarrow> nat \<Rightarrow> string \<Rightarrow> string io" where
  "sibling_loop 0 i p = io_err (SysErr SysOther (''could not allocate staging path for '' @ p))"
| "sibling_loop (Suc n) i p = (\<lambda>w.
     let cand = stage_name p (w_pid w) (w_clock w + i); w' = w\<lparr> w_clock := w_clock w + 1 \<rparr> in
     io_catch (os_lstat cand)
       (\<lambda>r. case r of
          Inl e \<Rightarrow> if is_not_exist e then io_ok cand else io_err e
        | Inr _ \<Rightarrow> sibling_loop n (Suc i) p) w')"

definition unique_sibling_path :: "string \<Rightarrow> string io" where
  "unique_sibling_path p = sibling_loop 100 0 p"

text \<open>The parts of \<open>copyDirectory\<close>: whether the destination was created when it failed, and what the walk
  has copied.\<close>

definition copy_entry :: "(string \<Rightarrow> nat) \<Rightarrow> string \<Rightarrow> string \<times> tree_entry \<Rightarrow> string \<times> tree_entry" where
  "copy_entry dirsize dst e =
     (fst e, case snd e of
        TFile m c \<Rightarrow> TFile m c
      | TDir m _ \<Rightarrow> TDir m (dirsize (path_join dst (fst e)))
      | TLink _ _ t \<Rightarrow> TLink 511 (length t) t
      | TSpecial ty \<Rightarrow> TSpecial ty)"

definition special_in :: "file_tree \<Rightarrow> (string \<times> string) option" where
  "special_in t =
     (case List.map_filter (\<lambda>(rel, e). case e of TSpecial ty \<Rightarrow> Some (rel, ty) | _ \<Rightarrow> None) t of
        [] \<Rightarrow> None | x # _ \<Rightarrow> Some x)"

definition copied_before_special :: "file_tree \<Rightarrow> file_tree" where
  "copied_before_special t = takeWhile (\<lambda>(rel, e). case e of TSpecial _ \<Rightarrow> False | _ \<Rightarrow> True) t"

definition copy_contents :: "string \<Rightarrow> string \<Rightarrow> nat \<Rightarrow> file_tree \<Rightarrow> unit io" where
  "copy_contents src dst mode t w =
     (case next_fault w of (f, w') \<Rightarrow>
        let put = (\<lambda>m t'. set_node dst (Some (NDir m (map (copy_entry (w_dirsize w) dst) t'))) w') in
        (case f of
           Works \<Rightarrow>
             (case special_in t of
                None \<Rightarrow> (Inr (), put mode t)
              | Some (rel, ty) \<Rightarrow>
                  (Inl (op_error UnsupportedFileType (path_join src rel) []
                     (''unsupported file type '' @ ty)), put 448 (copied_before_special t)))
         | Partial t' \<Rightarrow> (Inl (fault_error f), put 448 t')
         | _ \<Rightarrow> (Inl (fault_error f), w')))"

definition copy_directory :: "string \<Rightarrow> string \<Rightarrow> (bool \<times> skill_error + unit) io" where
  "copy_directory src dst =
     (if src = [] \<or> dst = [] then
        io_ok (Inl (False, SysErr SysOther ''source and destination directories are required''))
      else
        io_catch (io_bind (os_lstat src) (\<lambda>n.
            case n of
              NDir m t \<Rightarrow> io_bind (os_mkdir_all (path_dir dst)) (\<lambda>_. io_bind (os_mkdir dst) (\<lambda>_. io_ok (m, t)))
            | _ \<Rightarrow> io_err (SysErr SysOther (''source '' @ go_quote src @ '' is not a directory''))))
          (\<lambda>r. case r of
             Inl e \<Rightarrow> io_ok (Inl (False, e))
           | Inr (m, t) \<Rightarrow>
               io_catch (copy_contents src dst m t)
                 (\<lambda>r'. case r' of Inl e \<Rightarrow> io_ok (Inl (True, e)) | Inr _ \<Rightarrow> io_ok (Inr ()))))"

section \<open>Weakest preconditions\<close>

text \<open>What holds of the result and of the nodes afterwards, for every schedule of faults.\<close>

type_synonym nodes = "string \<Rightarrow> fs_node option"

definition wp :: "'a io \<Rightarrow> (skill_error + 'a \<Rightarrow> nodes \<Rightarrow> bool) \<Rightarrow> nodes \<Rightarrow> bool" where
  "wp m Q N = (\<forall>w. w_node w = N \<longrightarrow> (case m w of (r, w') \<Rightarrow> Q r (w_node w')))"

named_theorems wp_intros \<open>rules that step through a computation\<close>

lemma wpD: "wp m Q (w_node w) \<Longrightarrow> m w = (r, w') \<Longrightarrow> Q r (w_node w')"
  by (auto simp: wp_def)

lemma wp_mono: "wp m R N \<Longrightarrow> (\<And>r N'. R r N' \<Longrightarrow> Q r N') \<Longrightarrow> wp m Q N"
  by (fastforce simp: wp_def split: prod.splits)

lemma wp_ok [wp_intros]: "Q (Inr x) N \<Longrightarrow> wp (io_ok x) Q N"
  by (simp add: wp_def io_ok_def)

lemma wp_err [wp_intros]: "Q (Inl e) N \<Longrightarrow> wp (io_err e) Q N"
  by (simp add: wp_def io_err_def)

lemma wp_catch [wp_intros]: "wp m (\<lambda>r. wp (k r) Q) N \<Longrightarrow> wp (io_catch m k) Q N"
  by (fastforce simp: wp_def io_catch_def split: prod.splits)

lemma wp_bind [wp_intros]:
  "wp m (\<lambda>r. case r of Inl e \<Rightarrow> Q (Inl e) | Inr x \<Rightarrow> wp (f x) Q) N \<Longrightarrow> wp (io_bind m f) Q N"
  unfolding io_bind_def
  by (rule wp_catch, erule wp_mono) (auto split: sum.splits intro: wp_err)

lemma wp_map_error [wp_intros]:
  "wp m (\<lambda>r. case r of Inl e \<Rightarrow> Q (Inl (g e)) | Inr x \<Rightarrow> Q (Inr x)) N \<Longrightarrow> wp (io_map_error g m) Q N"
  unfolding io_map_error_def
  by (rule wp_catch, erule wp_mono) (auto split: sum.splits intro: wp_err wp_ok)

lemma next_fault_frame [simp]:
  "w_node (snd (next_fault w)) = w_node w" "w_receipts (snd (next_fault w)) = w_receipts w"
  by (simp_all add: next_fault_def split: list.splits)

lemma fault_error_exists [simp]: "\<not> is_not_exist (fault_error f)"
  by (cases f) (simp_all add: fault_error_def is_not_exist_def)

lemma not_exist_simp [simp]: "is_not_exist not_exist"
  by (simp add: not_exist_def is_not_exist_def)

lemma wp_sys_call:
  assumes "\<And>e. \<not> is_not_exist e \<Longrightarrow> Q (Inl e) N"
    and "\<And>w. w_node w = N \<Longrightarrow> Q (fst (act w)) (w_node (snd (act w)))"
  shows "wp (sys_call act) Q N"
  unfolding wp_def
proof (intro allI impI)
  fix w :: world assume w: "w_node w = N"
  obtain f w' where f: "next_fault w = (f, w')" by fastforce
  then have "w_node w' = N" using next_fault_frame(1)[of w] w by simp
  then show "case sys_call act w of (r, w') \<Rightarrow> Q r (w_node w')"
    using assms by (auto simp: sys_call_def f split: prod.splits)
      (metis fst_conv snd_conv)
qed

lemma set_node_nodes [simp]: "w_node (set_node p n w) = (w_node w)(path_clean p := n)"
  by (simp add: set_node_def)

lemma wp_lstat [wp_intros]:
  assumes "\<And>e. \<not> is_not_exist e \<Longrightarrow> Q (Inl e) N" "N (path_clean p) = None \<Longrightarrow> Q (Inl not_exist) N"
    "\<And>n. N (path_clean p) = Some n \<Longrightarrow> Q (Inr n) N"
  shows "wp (os_lstat p) Q N"
  unfolding os_lstat_def using assms
  by (intro wp_sys_call) (auto simp: node_at_def split: option.splits)

lemma wp_eval [wp_intros]:
  assumes "\<And>e. Q (Inl e) N" "\<And>c. eval_links 256 N p = Inr c \<Longrightarrow> Q (Inr c) N"
  shows "wp (os_eval_symlinks p) Q N"
  unfolding os_eval_symlinks_def using assms
  by (intro wp_sys_call) (auto, metis sum.exhaust)

lemma wp_readlink [wp_intros]:
  assumes "\<And>e. Q (Inl e) N" "\<And>t. N (path_clean p) = Some (NLink t) \<Longrightarrow> Q (Inr t) N"
  shows "wp (os_readlink p) Q N"
  unfolding os_readlink_def using assms
  by (intro wp_sys_call) (auto simp: node_at_def split: option.splits fs_node.splits)

lemma wp_digest [wp_intros]:
  assumes "\<And>e. Q (Inl e) N" "\<And>d. digest_at sha rej N p = Inr d \<Longrightarrow> Q (Inr d) N"
  shows "wp (os_digest sha rej p) Q N"
  unfolding os_digest_def using assms
  by (intro wp_sys_call) (auto, metis sum.exhaust)

lemma wp_rename [wp_intros]:
  assumes "\<And>e. Q (Inl e) N"
    "\<And>n. N (path_clean p) = Some n \<Longrightarrow> replaceable n (N (path_clean q)) \<Longrightarrow>
       Q (Inr ()) (N(path_clean p := None, path_clean q := Some n))"
  shows "wp (os_rename p q) Q N"
  unfolding os_rename_def using assms
  by (intro wp_sys_call) (auto simp: node_at_def split: option.splits)

lemma wp_publish [wp_intros]:
  assumes "\<And>e. Q (Inl e) N"
    "\<And>n. N (path_clean p) = Some n \<Longrightarrow> N (path_clean q) = None \<Longrightarrow>
       Q (Inr ()) (N(path_clean p := None, path_clean q := Some n))"
  shows "wp (os_publish p q) Q N"
  unfolding os_publish_def using assms
  by (intro wp_sys_call) (auto simp: node_at_def split: option.splits)

lemma wp_symlink [wp_intros]:
  assumes "\<And>e. Q (Inl e) N"
    "N (path_clean p) = None \<Longrightarrow> Q (Inr ()) (N(path_clean p := Some (NLink t)))"
  shows "wp (os_symlink t p) Q N"
  unfolding os_symlink_def using assms
  by (intro wp_sys_call) (auto simp: node_at_def)

lemma wp_remove [wp_intros]:
  assumes "\<And>e. \<not> is_not_exist e \<Longrightarrow> Q (Inl e) N" "N (path_clean p) = None \<Longrightarrow> Q (Inl not_exist) N"
    "\<And>n. N (path_clean p) = Some n \<Longrightarrow> Q (Inr ()) (N(path_clean p := None))"
  shows "wp (os_remove p) Q N"
  unfolding os_remove_def using assms
  by (intro wp_sys_call) (auto simp: node_at_def is_not_exist_def split: option.splits fs_node.splits list.splits)

lemma wp_remove_all [wp_intros]:
  assumes "\<And>e. Q (Inl e) N" "Q (Inr ()) (N(path_clean p := None))"
    "\<And>e m t t'. N (path_clean p) = Some (NDir m t) \<Longrightarrow> Q (Inl e) (N(path_clean p := Some (NDir m t')))"
  shows "wp (os_remove_all p) Q N"
  unfolding wp_def
proof (intro allI impI)
  fix w :: world assume w: "w_node w = N"
  obtain f w' where f: "next_fault w = (f, w')" by fastforce
  then have "w_node w' = N" using next_fault_frame(1)[of w] w by simp
  then show "case os_remove_all p w of (r, w') \<Rightarrow> Q r (w_node w')"
    using assms by (auto simp: os_remove_all_def f node_at_def split: fault.splits option.splits fs_node.splits)
qed

lemma wp_mkdir [wp_intros]:
  assumes "\<And>e. Q (Inl e) N" "N (path_clean p) = None \<Longrightarrow> Q (Inr ()) (N(path_clean p := Some (NDir 448 [])))"
  shows "wp (os_mkdir p) Q N"
  unfolding os_mkdir_def using assms
  by (intro wp_sys_call) (auto simp: node_at_def)

lemma wp_mkdir_all [wp_intros]:
  assumes "\<And>e. Q (Inl e) N" "Q (Inr ()) N"
  shows "wp (os_mkdir_all p) Q N"
  unfolding os_mkdir_all_def using assms by (intro wp_sys_call) auto

definition stage_names :: "string \<Rightarrow> string set" where
  "stage_names p = {path_clean (stage_name p pid n) | pid n. True}"

lemma path_clean_nonempty [simp]: "path_clean p \<noteq> []"
  using join_with_head[OF plain_clean_comps[OF plain_path_comps], of False p "''/''"]
  by (auto simp: path_clean_def Let_def)

lemma stage_name_nonempty: "stage_name p pid n \<noteq> []"
  by (simp add: stage_name_def path_join_def)

lemma wp_sibling_loop:
  assumes "\<And>e. Q (Inl e) N"
    "\<And>c. N (path_clean c) = None \<Longrightarrow> path_clean c \<in> stage_names p \<Longrightarrow> c \<noteq> [] \<Longrightarrow> Q (Inr c) N"
  shows "wp (sibling_loop n i p) Q N"
proof (induction n arbitrary: i)
  case 0
  show ?case unfolding sibling_loop.simps by (intro wp_intros assms)
next
  case (Suc n)
  have step: "wp (io_catch (os_lstat c) (\<lambda>r. case r of
        Inl e \<Rightarrow> if is_not_exist e then io_ok c else io_err e | Inr _ \<Rightarrow> sibling_loop n (Suc i) p)) Q N"
    if "path_clean c \<in> stage_names p" "c \<noteq> []" for c
    using that by (intro wp_intros) (auto intro!: wp_intros assms Suc.IH)
  show ?case
    unfolding wp_def
  proof (intro allI impI)
    fix w :: world assume w: "w_node w = N"
    let ?c = "stage_name p (w_pid w) (w_clock w + i)" and ?w = "w\<lparr> w_clock := w_clock w + 1 \<rparr>"
    have "path_clean ?c \<in> stage_names p" by (auto simp: stage_names_def)
    from step[OF this stage_name_nonempty] have
      "wp (io_catch (os_lstat ?c) (\<lambda>r. case r of
        Inl e \<Rightarrow> if is_not_exist e then io_ok ?c else io_err e | Inr _ \<Rightarrow> sibling_loop n (Suc i) p)) Q (w_node ?w)"
      using w by simp
    then show "case sibling_loop (Suc n) i p w of (r, w') \<Rightarrow> Q r (w_node w')"
      by (simp add: wp_def Let_def)
  qed
qed

lemma wp_sibling [wp_intros]:
  assumes "\<And>e. Q (Inl e) N"
    "\<And>c. N (path_clean c) = None \<Longrightarrow> path_clean c \<in> stage_names p \<Longrightarrow> c \<noteq> [] \<Longrightarrow> Q (Inr c) N"
  shows "wp (unique_sibling_path p) Q N"
  unfolding unique_sibling_path_def by (rule wp_sibling_loop) (use assms in blast)+

section \<open>Backups\<close>

text \<open>What a service is configured with: the hash of a tree and of a plan, the root of the store, the
  destinations, and the sources of receipt ids and of time.\<close>

record skill_env =
  sk_sha :: "string \<Rightarrow> string"
  sk_hash :: "plan_key \<Rightarrow> string"
  sk_root :: string
  sk_destinations :: "destination list"
  sk_new_id :: "world \<Rightarrow> string"
  sk_now :: "world \<Rightarrow> string"

definition new_store_root :: "string \<Rightarrow> string" where
  "new_store_root state_root = path_join state_root (path_join ''rootline'' ''skill'')"

definition backups_root :: "skill_env \<Rightarrow> string" where
  "backups_root env = path_join (sk_root env) ''backups''"

definition receipt_backup_dir :: "skill_env \<Rightarrow> string \<Rightarrow> string" where
  "receipt_backup_dir env rid = path_join (backups_root env) rid"

definition backup_path :: "skill_env \<Rightarrow> string \<Rightarrow> destination_id \<Rightarrow> string" where
  "backup_path env rid i = path_join (receipt_backup_dir env rid) (id_text i)"

definition plain_error :: "string \<Rightarrow> skill_error" where
  "plain_error m = SysErr SysOther m"

definition check_name :: "string \<Rightarrow> string \<Rightarrow> unit io" where
  "check_name name label =
     (case validate_child_name name label of Some m \<Rightarrow> io_err (plain_error m) | None \<Rightarrow> io_ok ())"

definition store_reserve :: "skill_env \<Rightarrow> string \<Rightarrow> unit io" where
  "store_reserve env rid =
     io_bind (check_name rid ''receipt ID'') (\<lambda>_.
     io_bind (os_mkdir_all (backups_root env)) (\<lambda>_.
     os_mkdir (receipt_backup_dir env rid)))"

definition backup_error :: "error_code \<Rightarrow> string \<Rightarrow> skill_backup \<Rightarrow> string \<Rightarrow> skill_error" where
  "backup_error code path b msg = op_error code path (id_text (bk_dest b)) msg"

definition verify_backup :: "skill_env \<Rightarrow> skill_backup \<Rightarrow> unit io" where
  "verify_backup env b =
     (case bk_kind b of
        KindAbsent \<Rightarrow> io_ok ()
      | KindDirectory \<Rightarrow>
          if bk_stored b = [] then
            io_err (backup_error VerificationFailed (bk_original b) b ''directory backup has no stored path'')
          else io_bind (os_digest (sk_sha env) False (bk_stored b)) (\<lambda>d.
            if d \<noteq> bk_digest b then
              io_err (backup_error VerificationFailed (bk_stored b) b
                (''backup digest '' @ go_quote d @ '' does not match preimage digest '' @ go_quote (bk_digest b)))
            else io_ok ())
      | _ \<Rightarrow>
          if is_link_kind (bk_kind b) then
            if bk_link b = [] then
              io_err (backup_error VerificationFailed (bk_original b) b ''symlink backup has no link target'')
            else if bk_stored b \<noteq> [] then
              io_err (backup_error VerificationFailed (bk_stored b) b
                ''symlink backup unexpectedly has a stored tree'')
            else io_ok ()
          else io_err (backup_error UnsupportedFileType (bk_original b) b
            (''unsupported backup kind '' @ go_quote (kind_name (bk_kind b)))))"

definition after_copy ::
  "skill_env \<Rightarrow> skill_backup \<Rightarrow> bool \<times> skill_error + unit \<Rightarrow> skill_backup io" where
  "after_copy env b c =
     (case c of
        Inl (created, e) \<Rightarrow>
          if created then io_catch (os_remove_all (bk_stored b)) (\<lambda>_. io_err e) else io_err e
      | Inr _ \<Rightarrow> io_bind (verify_backup env b) (\<lambda>_. io_ok b))"

definition backup_directory :: "skill_env \<Rightarrow> string \<Rightarrow> destination_state \<Rightarrow> skill_backup \<Rightarrow> skill_backup io" where
  "backup_directory env rid st b =
     io_bind (os_lstat (de_path st)) (\<lambda>n.
       case n of
         NDir _ _ \<Rightarrow>
           io_bind (os_digest (sk_sha env) False (de_path st)) (\<lambda>d.
             if de_digest st \<noteq> [] \<and> d \<noteq> de_digest st then
               io_err (state_error PreimageDigestChanged st
                 (''preimage digest '' @ go_quote (de_digest st) @ '' does not match observed digest '' @ go_quote d))
             else
               let b' = b\<lparr> bk_digest := d, bk_stored := backup_path env rid (de_id st) \<rparr> in
               io_bind (copy_directory (de_path st) (bk_stored b')) (after_copy env b'))
       | _ \<Rightarrow> io_err (state_error PreimageDigestChanged st ''destination is no longer a directory''))"

definition backup_symlink :: "skill_env \<Rightarrow> string \<Rightarrow> destination_state \<Rightarrow> skill_backup \<Rightarrow> skill_backup io" where
  "backup_symlink env rid st b =
     io_bind (os_readlink (de_path st)) (\<lambda>t.
       if de_lexical st \<noteq> [] \<and> t \<noteq> de_lexical st then
         io_err (state_error PreimageDigestChanged st
           (''preimage symlink target '' @ go_quote (de_lexical st) @ '' does not match observed target '' @ go_quote t))
       else io_bind (os_mkdir (backup_path env rid (de_id st))) (\<lambda>_.
         let b' = b\<lparr> bk_link := t, bk_stored := [] \<rparr> in
         io_bind (verify_backup env b') (\<lambda>_. io_ok b')))"

definition os_stat :: "string \<Rightarrow> unit io" where
  "os_stat p = sys_call (\<lambda>w. (case eval_links 256 (w_node w) p of Inl e \<Rightarrow> Inl e | Inr _ \<Rightarrow> Inr (), w))"

definition backup_by_kind :: "skill_env \<Rightarrow> string \<Rightarrow> destination_state \<Rightarrow> skill_backup \<Rightarrow> skill_backup io" where
  "backup_by_kind env rid st b =
     (if de_kind st = KindAbsent then
        io_catch (os_lstat (de_path st)) (\<lambda>r. case r of
            Inr _ \<Rightarrow> io_err (state_error PreimageDigestChanged st
              ''destination exists but preimage was recorded absent'')
          | Inl e \<Rightarrow> if is_not_exist e then io_ok b else io_err e)
      else if de_kind st = KindDirectory then backup_directory env rid st b
      else if is_link_kind (de_kind st) then backup_symlink env rid st b
      else io_err (state_error UnsupportedFileType st
             (''unsupported backup kind '' @ go_quote (kind_name (de_kind st)))))"

definition store_backup :: "skill_env \<Rightarrow> string \<Rightarrow> destination_state \<Rightarrow> skill_backup io" where
  "store_backup env rid st =
     io_bind (check_name rid ''receipt ID'') (\<lambda>_.
     io_bind (check_name (id_text (de_id st)) ''destination ID'') (\<lambda>_.
     io_bind (io_map_error (\<lambda>e. if is_not_exist e then
            plain_error (''reserved receipt backup directory '' @ go_quote rid @ '' does not exist'') else e)
          (os_stat (receipt_backup_dir env rid))) (\<lambda>_.
     backup_by_kind env rid st
       \<lparr> bk_dest = de_id st, bk_original = de_path st, bk_stored = [], bk_kind = de_kind st,
         bk_digest = de_digest st, bk_link = [] \<rparr>)))"

section \<open>Restoring a backup\<close>

definition ensure_absent :: "string \<Rightarrow> destination_id \<Rightarrow> unit io" where
  "ensure_absent dest i =
     io_catch (os_lstat dest) (\<lambda>r. case r of
         Inr _ \<Rightarrow> io_err (op_error RestoreConflict dest (id_text i) ''destination already exists'')
       | Inl e \<Rightarrow> if is_not_exist e then io_ok () else io_err e)"

definition symlink_creation_error :: "string \<Rightarrow> string \<Rightarrow> skill_error \<Rightarrow> skill_error" where
  "symlink_creation_error path dest e =
     op_error (case e of SysErr SysPermission _ \<Rightarrow> SymlinkPermission | SysErr SysExist _ \<Rightarrow> RestoreConflict
               | _ \<Rightarrow> VerificationFailed) path dest (skill_error_text e)"

definition publish_error :: "string \<Rightarrow> destination_id \<Rightarrow> skill_error \<Rightarrow> skill_error" where
  "publish_error dest i e =
     (case e of
        SysErr SysExist m \<Rightarrow> op_error RestoreConflict dest (id_text i)
          (''destination already exists at publication: '' @ m)
      | _ \<Rightarrow> e)"

definition copy_result :: "bool \<times> skill_error + unit \<Rightarrow> unit io" where
  "copy_result c = (case c of Inl (_, e) \<Rightarrow> io_err e | Inr _ \<Rightarrow> io_ok ())"

definition restore_candidate :: "skill_backup \<Rightarrow> string \<Rightarrow> unit io" where
  "restore_candidate b cand =
     (if bk_kind b = KindDirectory then
        io_bind (copy_directory (bk_stored b) cand) copy_result
      else if is_link_kind (bk_kind b) then
        io_bind (os_mkdir_all (path_dir cand)) (\<lambda>_.
          io_map_error (symlink_creation_error cand (id_text (bk_dest b))) (os_symlink (bk_link b) cand))
      else io_err (backup_error UnsupportedFileType cand b
        (''unsupported restore kind '' @ go_quote (kind_name (bk_kind b)))))"

definition verify_candidate :: "skill_env \<Rightarrow> skill_backup \<Rightarrow> string \<Rightarrow> unit io" where
  "verify_candidate env b cand =
     (if bk_kind b = KindDirectory then
        io_bind (os_digest (sk_sha env) False cand) (\<lambda>d.
          if d \<noteq> bk_digest b then
            io_err (backup_error VerificationFailed cand b
              (''restored digest '' @ go_quote d @ '' does not match backup digest '' @ go_quote (bk_digest b)))
          else io_ok ())
      else if is_link_kind (bk_kind b) then
        io_bind (os_readlink cand) (\<lambda>t.
          if t \<noteq> bk_link b then
            io_err (backup_error VerificationFailed cand b
              (''restored symlink target '' @ go_quote t @ '' does not match backup target '' @ go_quote (bk_link b)))
          else io_ok ())
      else io_err (backup_error UnsupportedFileType cand b
        (''unsupported restore kind '' @ go_quote (kind_name (bk_kind b)))))"

definition publish_candidate :: "skill_env \<Rightarrow> skill_backup \<Rightarrow> string \<Rightarrow> string \<Rightarrow> unit io" where
  "publish_candidate env b dest cand =
     io_catch
       (io_bind (restore_candidate b cand) (\<lambda>_.
        io_bind (verify_candidate env b cand) (\<lambda>_.
        io_map_error (publish_error dest (bk_dest b)) (os_publish cand dest))))
       (\<lambda>r. case r of
          Inl e \<Rightarrow> io_catch (os_remove_all cand) (\<lambda>_. io_err e)
        | Inr _ \<Rightarrow> io_ok ())"

definition restore_backup :: "skill_env \<Rightarrow> skill_backup \<Rightarrow> string \<Rightarrow> unit io" where
  "restore_backup env b dest =
     io_bind (ensure_absent dest (bk_dest b)) (\<lambda>_.
       if bk_kind b = KindAbsent then io_ok ()
       else if bk_kind b = KindDirectory \<or> is_link_kind (bk_kind b) then
         io_bind (unique_sibling_path dest) (publish_candidate env b dest)
       else io_err (op_error UnsupportedFileType dest (id_text (bk_dest b))
         (''unsupported restore kind '' @ go_quote (kind_name (bk_kind b)))))"

section \<open>The log of receipts\<close>

definition malformed_line :: "nat \<Rightarrow> string \<Rightarrow> skill_error" where
  "malformed_line n m =
     plain_error (''malformed receipt JSONL at line '' @ nat_digits n @ '': '' @ m)"

fun scan_lines :: "nat \<Rightarrow> string list \<Rightarrow> receipt option list \<Rightarrow> skill_error + receipt list" where
  "scan_lines n seen [] = Inr []"
| "scan_lines n seen (l # ls) =
     (case l of
        None \<Rightarrow> Inl (malformed_line (Suc n) ''invalid JSON'')
      | Some r \<Rightarrow>
          if rp_id r = [] then Inl (malformed_line (Suc n) ''missing receipt ID'')
          else (case validate_receipt r of
            Some m \<Rightarrow> Inl (malformed_line (Suc n) m)
          | None \<Rightarrow>
              if rp_id r \<in> set seen then Inl (plain_error (''duplicate receipt ID '' @ go_quote (rp_id r)))
              else (case scan_lines (Suc n) (rp_id r # seen) ls of
                Inl e \<Rightarrow> Inl e | Inr rs \<Rightarrow> Inr (r # rs))))"

definition scan_receipts :: "receipt list io" where
  "scan_receipts = sys_call (\<lambda>w. (scan_lines 0 [] (w_receipts w), w))"

definition load_receipt :: "string \<Rightarrow> receipt option io" where
  "load_receipt rid = io_bind scan_receipts (\<lambda>rs. io_ok (List.find (\<lambda>r. rp_id r = rid) rs))"

definition latest_receipt :: "receipt option io" where
  "latest_receipt = io_bind scan_receipts (\<lambda>rs. io_ok (if rs = [] then None else Some (last rs)))"

definition write_line :: "receipt \<Rightarrow> unit io" where
  "write_line r w =
     (case next_fault w of (f, w') \<Rightarrow>
        (case f of
           Works \<Rightarrow> (Inr (), w'\<lparr> w_receipts := w_receipts w' @ [Some r] \<rparr>)
         | Partial _ \<Rightarrow> (Inl (SysErr SysOther ''short write''), w'\<lparr> w_receipts := w_receipts w' @ [None] \<rparr>)
         | _ \<Rightarrow> (Inl (fault_error f), w')))"

text \<open>Opening, writing, and then syncing and closing, whose error is reported although the line is there.\<close>

definition store_append :: "skill_env \<Rightarrow> receipt \<Rightarrow> unit io" where
  "store_append env r =
     (if rp_id r = [] then io_err (plain_error ''receipt ID is required'')
      else io_bind (load_receipt (rp_id r)) (\<lambda>found.
        if found \<noteq> None then io_err (plain_error (''duplicate receipt ID '' @ go_quote (rp_id r)))
        else io_bind (os_mkdir_all (sk_root env)) (\<lambda>_.
          io_bind (sys_call (\<lambda>w. (Inr (), w))) (\<lambda>_.
            io_catch (write_line r) (\<lambda>res.
              io_catch (sys_call (\<lambda>w. (Inr (), w))) (\<lambda>sync.
                case res of Inl e \<Rightarrow> io_err e | Inr _ \<Rightarrow>
                  (case sync of Inl e \<Rightarrow> io_err e | Inr _ \<Rightarrow> io_ok ())))))))"

section \<open>What a backup holds\<close>

lemma digest_tree_root: "digest_tree sha rej p t = Inr d \<Longrightarrow> digest_tree sha rej q t = Inr d"
proof -
  have e: "digest_entry rej p x = Inr s \<Longrightarrow> digest_entry rej q x = Inr s" for x s
    by (auto simp: digest_entry_def split: tree_entry.splits if_splits)
  have "try_map (digest_entry rej p) t = Inr ss \<Longrightarrow> try_map (digest_entry rej q) t = Inr ss" for ss
  proof (induction t arbitrary: ss)
    case (Cons x t)
    then show ?case using e by (auto split: sum.splits)
  qed simp
  then show "digest_tree sha rej p t = Inr d \<Longrightarrow> digest_tree sha rej q t = Inr d"
    by (auto simp: digest_tree_def digest_text_def split: sum.splits)
qed

definition backup_valid :: "(string \<Rightarrow> string) \<Rightarrow> nodes \<Rightarrow> skill_backup \<Rightarrow> bool" where
  "backup_valid sha N b =
     (bk_kind b = KindAbsent \<or>
      (bk_kind b = KindDirectory \<and> bk_stored b \<noteq> [] \<and> digest_at sha False N (bk_stored b) = Inr (bk_digest b)) \<or>
      (is_link_kind (bk_kind b) \<and> bk_link b \<noteq> [] \<and> bk_stored b = []))"

text \<open>The backup of a node: nothing for nothing, a copy with the digest of a directory, the target of a
  link.\<close>

definition backup_holds :: "(string \<Rightarrow> string) \<Rightarrow> nodes \<Rightarrow> skill_backup \<Rightarrow> fs_node option \<Rightarrow> bool" where
  "backup_holds sha N b n =
     (case n of
        None \<Rightarrow> bk_kind b = KindAbsent
      | Some (NDir m t) \<Rightarrow>
          bk_kind b = KindDirectory \<and> digest_tree sha False [] t = Inr (bk_digest b) \<and>
          (\<exists>m' t'. N (path_clean (bk_stored b)) = Some (NDir m' t') \<and>
             digest_tree sha False [] t' = Inr (bk_digest b))
      | Some (NLink t) \<Rightarrow> is_link_kind (bk_kind b) \<and> bk_link b = t \<and> t \<noteq> []
      | Some NOther \<Rightarrow> False)"

lemma wp_verify_backup:
  "wp (verify_backup env b) (\<lambda>r N'. N' = N \<and> (r = Inr () \<longrightarrow> backup_valid (sk_sha env) N b)) N"
proof (cases "bk_kind b")
  case KindDirectory
  then show ?thesis unfolding verify_backup_def
    by (auto simp: backup_valid_def intro!: wp_intros)
qed (auto simp: verify_backup_def backup_valid_def is_link_kind_def intro!: wp_intros)

lemma wp_copy_contents:
  "wp (copy_contents src dst m t)
     (\<lambda>r N'. case r of
        Inl e \<Rightarrow> \<exists>x. N' = N(path_clean dst := x)
      | Inr _ \<Rightarrow> \<exists>sz. N' = N(path_clean dst := Some (NDir m (map (copy_entry sz dst) t)))) N"
  if "N (path_clean dst) = Some y"
  unfolding wp_def
proof (intro allI impI)
  fix w :: world assume w: "w_node w = N"
  obtain f w' where f: "next_fault w = (f, w')" by fastforce
  then have n: "w_node w' = N" using next_fault_frame(1)[of w] w by simp
  have "N = N(path_clean dst := Some y)" using that by auto
  then show "case copy_contents src dst m t w of (r, w') \<Rightarrow> (case r of
        Inl e \<Rightarrow> \<exists>x. w_node w' = N(path_clean dst := x)
      | Inr _ \<Rightarrow> \<exists>sz. w_node w' = N(path_clean dst := Some (NDir m (map (copy_entry sz dst) t))))"
    using n by (cases f) (auto simp: copy_contents_def f Let_def split: option.splits)
qed

definition copy_post :: "string \<Rightarrow> string \<Rightarrow> nodes \<Rightarrow> skill_error + bool \<times> skill_error + unit \<Rightarrow> nodes \<Rightarrow> bool" where
  "copy_post src dst N r N' =
     (case r of
        Inl _ \<Rightarrow> False
      | Inr (Inl (created, e)) \<Rightarrow>
          if created then N (path_clean dst) = None \<and> (\<exists>x. N' = N(path_clean dst := x)) else N' = N
      | Inr (Inr _) \<Rightarrow>
          N (path_clean dst) = None \<and>
          (\<exists>m t sz. N (path_clean src) = Some (NDir m t) \<and>
             N' = N(path_clean dst := Some (NDir m (map (copy_entry sz dst) t)))))"

lemma wp_copy_directory: "wp (copy_directory src dst) (copy_post src dst N) N"
proof (cases "src = [] \<or> dst = []")
  case True
  then show ?thesis by (auto simp: copy_directory_def copy_post_def intro!: wp_intros)
next
  case False
  have inner: "wp (io_catch (copy_contents src dst m t)
        (\<lambda>r'. case r' of Inl e \<Rightarrow> io_ok (Inl (True, e)) | Inr _ \<Rightarrow> io_ok (Inr ())))
      (copy_post src dst N) (N(path_clean dst := Some (NDir 448 [])))"
    if "N (path_clean src) = Some (NDir m t)" "N (path_clean dst) = None" for m t
    by (rule wp_catch, rule wp_mono, rule wp_copy_contents)
      (use that in \<open>auto simp: copy_post_def split: sum.splits intro!: wp_intros\<close>)
  have err: "copy_post src dst N (Inr (Inl (False, e))) N" for e by (simp add: copy_post_def)
  have case': "wp (case n of NDir m t \<Rightarrow>
          io_bind (os_mkdir_all (path_dir dst)) (\<lambda>_. io_bind (os_mkdir dst) (\<lambda>_. io_ok (m, t)))
        | _ \<Rightarrow> io_err (SysErr SysOther (''source '' @ go_quote src @ '' is not a directory'')))
       (\<lambda>r. wp (case r of Inl e \<Rightarrow> io_ok (Inl (False, e))
           | Inr (m, t) \<Rightarrow> io_catch (copy_contents src dst m t)
               (\<lambda>r'. case r' of Inl e \<Rightarrow> io_ok (Inl (True, e)) | Inr _ \<Rightarrow> io_ok (Inr ())))
           (copy_post src dst N)) N"
    if "N (path_clean src) = Some n" for n
    using that by (cases n) (auto intro!: wp_bind wp_mkdir_all wp_mkdir wp_ok wp_err err inner)
  have "wp (copy_directory src dst) (copy_post src dst N) N"
    unfolding copy_directory_def if_not_P[OF False]
    by (intro wp_catch wp_bind wp_lstat) (auto intro!: wp_ok err case')
  then show ?thesis .
qed

text \<open>What a backup leaves behind: other nodes as they were, and on success a backup that holds the node.\<close>

definition backup_post ::
  "skill_env \<Rightarrow> string \<Rightarrow> destination_state \<Rightarrow> nodes \<Rightarrow> skill_error + skill_backup \<Rightarrow> nodes \<Rightarrow> bool" where
  "backup_post env rid st N r N' =
     ((\<forall>q. q \<noteq> path_clean (backup_path env rid (de_id st)) \<longrightarrow> N' q = N q) \<and>
      (case r of
         Inl _ \<Rightarrow> True
       | Inr b \<Rightarrow>
           bk_dest b = de_id st \<and> bk_original b = de_path st \<and> bk_kind b = de_kind st \<and>
           (bk_kind b = KindDirectory \<longrightarrow> bk_stored b = backup_path env rid (de_id st)) \<and>
           backup_holds (sk_sha env) N' b (N (path_clean (de_path st))) \<and>
           (de_digest st = [] \<or> de_kind st \<noteq> KindDirectory \<or> bk_digest b = de_digest st)))"

lemma wp_backup_directory:
  assumes "de_kind st = KindDirectory" "bk_dest b = de_id st" "bk_original b = de_path st" "bk_kind b = KindDirectory"
  shows "wp (backup_directory env rid st b) (backup_post env rid st N) N"
proof -
  let ?p = "de_path st" and ?slot = "backup_path env rid (de_id st)" and ?sha = "sk_sha env"
  have err: "backup_post env rid st N (Inl e) (N(path_clean ?slot := x))" for e x
    by (simp add: backup_post_def)
  have err': "backup_post env rid st N (Inl e) N" for e by (simp add: backup_post_def)
  let ?b = "\<lambda>d. b\<lparr> bk_digest := d, bk_stored := ?slot \<rparr>"
  have copied: "wp (after_copy env (?b d) c) (backup_post env rid st N) N'"
    if post: "copy_post ?p ?slot N (Inr c) N'" and d: "N (path_clean ?p) = Some (NDir m t)"
      "digest_at ?sha False N ?p = Inr d" "de_digest st = [] \<or> d = de_digest st" for c m t d N'
  proof (cases c)
    case (Inl x)
    then show ?thesis using post
      by (cases x) (auto simp: copy_post_def after_copy_def split: if_splits intro!: wp_intros err err')
  next
    case (Inr u)
    obtain m' t' sz where N': "N (path_clean ?slot) = None"
      "N' = N(path_clean ?slot := Some (NDir m' (map (copy_entry sz ?slot) t')))"
      using post Inr by (auto simp: copy_post_def)
    have dt: "digest_tree ?sha False [] t = Inr d"
      by (rule digest_tree_root[of _ _ ?p]) (use d(1,2) in \<open>simp add: digest_at_def\<close>)
    have ok: "backup_post env rid st N (Inr (?b d)) N'" if v: "backup_valid ?sha N' (?b d)"
    proof -
      have "digest_tree ?sha False [] (map (copy_entry sz ?slot) t') = Inr d"
        by (rule digest_tree_root[of _ _ ?slot])
          (use v assms N' in \<open>simp add: backup_valid_def is_link_kind_def digest_at_def\<close>)
      then show ?thesis using assms d dt N' by (auto simp: backup_post_def backup_holds_def)
    qed
    have bad: "backup_post env rid st N (Inl e) N'" for e using N'(2) err by simp
    have "wp (io_bind (verify_backup env (?b d)) (\<lambda>_. io_ok (?b d))) (backup_post env rid st N) N'"
    proof (rule wp_bind, rule wp_mono, rule wp_verify_backup)
      fix r :: "skill_error + unit" and M assume "M = N' \<and> (r = Inr () \<longrightarrow> backup_valid (sk_sha env) N' (?b d))"
      then show "(case r of Inl e \<Rightarrow> backup_post env rid st N (Inl e)
          | Inr x \<Rightarrow> wp (io_ok (?b d)) (backup_post env rid st N)) M"
        using ok bad by (cases r) (auto intro: wp_ok)
    qed
    then show ?thesis using Inr by (simp add: after_copy_def)
  qed
  have dir: "wp (io_bind (os_digest ?sha False ?p) (\<lambda>d.
        if de_digest st \<noteq> [] \<and> d \<noteq> de_digest st then io_err (e d)
        else let b' = ?b d in io_bind (copy_directory ?p (bk_stored b')) (after_copy env b')))
      (backup_post env rid st N) N"
    if m: "N (path_clean ?p) = Some (NDir m t)" for m t e
  proof (rule wp_bind, rule wp_digest)
    fix d assume d: "digest_at ?sha False N ?p = Inr d"
    have "wp (io_bind (copy_directory ?p ?slot) (after_copy env (?b d))) (backup_post env rid st N) N"
      if "de_digest st = [] \<or> d = de_digest st"
    proof (rule wp_bind, rule wp_mono, rule wp_copy_directory)
      fix r M assume "copy_post ?p ?slot N r M"
      then show "(case r of Inl e \<Rightarrow> backup_post env rid st N (Inl e)
          | Inr c \<Rightarrow> wp (after_copy env (?b d) c) (backup_post env rid st N)) M"
        using copied[OF _ m d that] by (cases r) (auto simp: copy_post_def[of _ _ _ "Inl _"])
    qed
    then show "(case Inr d of Inl e \<Rightarrow> backup_post env rid st N (Inl e)
        | Inr d \<Rightarrow> wp (if de_digest st \<noteq> [] \<and> d \<noteq> de_digest st then io_err (e d)
             else let b' = ?b d in io_bind (copy_directory ?p (bk_stored b')) (after_copy env b'))
             (backup_post env rid st N)) N"
      by (auto simp: Let_def intro: wp_err err')
  qed (simp add: err')
  show ?thesis unfolding backup_directory_def
  proof (rule wp_bind, rule wp_lstat)
    fix n assume "N (path_clean ?p) = Some n"
    then show "(case Inr n of Inl e \<Rightarrow> backup_post env rid st N (Inl e)
      | Inr n \<Rightarrow> wp (case n of NDir m t \<Rightarrow> io_bind (os_digest ?sha False ?p) (\<lambda>d.
          if de_digest st \<noteq> [] \<and> d \<noteq> de_digest st then
            io_err (state_error PreimageDigestChanged st (''preimage digest '' @ go_quote (de_digest st) @
              '' does not match observed digest '' @ go_quote d))
          else let b' = ?b d in io_bind (copy_directory ?p (bk_stored b')) (after_copy env b'))
        | _ \<Rightarrow> io_err (state_error PreimageDigestChanged st ''destination is no longer a directory''))
        (backup_post env rid st N)) N"
      using dir by (cases n) (simp_all add: wp_err err')
  qed (simp_all add: err')
qed

lemma wp_backup_symlink:
  assumes "is_link_kind (de_kind st)" "bk_dest b = de_id st" "bk_original b = de_path st" "bk_kind b = de_kind st"
  shows "wp (backup_symlink env rid st b) (backup_post env rid st N) N"
proof -
  let ?slot = "backup_path env rid (de_id st)" and ?b = "\<lambda>t. b\<lparr> bk_link := t, bk_stored := [] \<rparr>"
  have err: "backup_post env rid st N (Inl e) (N(path_clean ?slot := x))" for e x
    by (simp add: backup_post_def)
  have err': "backup_post env rid st N (Inl e) N" for e by (simp add: backup_post_def)
  have nd: "de_kind st \<noteq> KindDirectory" "de_kind st \<noteq> KindAbsent" using assms(1) by (auto simp: is_link_kind_def)
  have checked: "wp (io_bind (verify_backup env (?b t)) (\<lambda>_. io_ok (?b t))) (backup_post env rid st N)
      (N(path_clean ?slot := Some x))"
    if t: "N (path_clean (de_path st)) = Some (NLink t)" for t x
  proof (rule wp_bind, rule wp_mono, rule wp_verify_backup)
    let ?N = "N(path_clean ?slot := Some x)"
    fix r :: "skill_error + unit" and M assume "M = ?N \<and> (r = Inr () \<longrightarrow> backup_valid (sk_sha env) ?N (?b t))"
    moreover have "backup_post env rid st N (Inr (?b t)) ?N" if "backup_valid (sk_sha env) ?N (?b t)"
      using that assms t nd by (auto simp: backup_post_def backup_holds_def backup_valid_def)
    ultimately show "(case r of Inl e \<Rightarrow> backup_post env rid st N (Inl e)
        | Inr x \<Rightarrow> wp (io_ok (?b t)) (backup_post env rid st N)) M"
      using err by (cases r) (auto intro: wp_ok)
  qed
  show ?thesis unfolding backup_symlink_def
    by (intro wp_bind wp_readlink) (auto simp: Let_def intro!: wp_err wp_bind wp_mkdir err' checked)
qed

lemma wp_check_name:
  assumes "\<And>e. Q (Inl e) N" "validate_child_name name label = None \<Longrightarrow> Q (Inr ()) N"
  shows "wp (check_name name label) Q N"
  using assms by (auto simp: check_name_def split: option.splits intro!: wp_intros)

lemma wp_stat [wp_intros]:
  assumes "\<And>e. Q (Inl e) N" "Q (Inr ()) N"
  shows "wp (os_stat p) Q N"
  unfolding os_stat_def using assms by (intro wp_sys_call) (auto split: sum.splits)

lemma wp_store_backup: "wp (store_backup env rid st) (backup_post env rid st N) N"
proof -
  let ?b = "\<lparr> bk_dest = de_id st, bk_original = de_path st, bk_stored = [], bk_kind = de_kind st,
                bk_digest = de_digest st, bk_link = [] \<rparr>"
  have err: "backup_post env rid st N (Inl e) N" for e by (simp add: backup_post_def)
  have abs: "backup_post env rid st N (Inr ?b) N"
    if "N (path_clean (de_path st)) = None" "de_kind st = KindAbsent"
    using that by (simp add: backup_post_def backup_holds_def)
  have "wp (backup_by_kind env rid st ?b) (backup_post env rid st N) N"
    unfolding backup_by_kind_def
    using abs by (auto intro!: wp_backup_directory wp_backup_symlink wp_err wp_catch wp_lstat wp_ok err)
  then show ?thesis unfolding store_backup_def
    by (auto intro!: wp_bind wp_check_name wp_map_error wp_stat simp: err)
qed

section \<open>What a restored backup leaves behind\<close>

text \<open>Only the destination and free names beside it change; on success the destination holds what the backup
  stands for.\<close>

definition restored :: "(string \<Rightarrow> string) \<Rightarrow> skill_backup \<Rightarrow> fs_node option \<Rightarrow> bool" where
  "restored sha b n =
     (case n of
        None \<Rightarrow> bk_kind b = KindAbsent
      | Some (NDir m t) \<Rightarrow> bk_kind b = KindDirectory \<and> digest_tree sha False [] t = Inr (bk_digest b)
      | Some (NLink t) \<Rightarrow> is_link_kind (bk_kind b) \<and> t = bk_link b
      | Some NOther \<Rightarrow> False)"

definition restore_post ::
  "skill_env \<Rightarrow> skill_backup \<Rightarrow> string \<Rightarrow> nodes \<Rightarrow> skill_error + unit \<Rightarrow> nodes \<Rightarrow> bool" where
  "restore_post env b dest N r N' =
     ((\<forall>q. q \<noteq> path_clean dest \<longrightarrow> q \<notin> stage_names dest \<or> N q \<noteq> None \<longrightarrow> N' q = N q) \<and>
      (case r of
         Inl _ \<Rightarrow> N' (path_clean dest) = N (path_clean dest)
       | Inr _ \<Rightarrow> N (path_clean dest) = None \<and> restored (sk_sha env) b (N' (path_clean dest))))"

lemma wp_ensure_absent:
  assumes "\<And>e. Q (Inl e) N" "N (path_clean dest) = None \<Longrightarrow> Q (Inr ()) N"
  shows "wp (ensure_absent dest i) Q N"
  unfolding ensure_absent_def using assms by (auto intro!: wp_catch wp_lstat wp_err wp_ok)

lemma wp_restore_candidate:
  assumes "N (path_clean c) = None"
  shows "wp (restore_candidate b c) (\<lambda>r N'. (\<exists>x. N' = N(path_clean c := x)) \<and>
      (r = Inr () \<longrightarrow> (if bk_kind b = KindDirectory then \<exists>m t. N' (path_clean c) = Some (NDir m t)
                     else is_link_kind (bk_kind b) \<and> N' (path_clean c) = Some (NLink (bk_link b))))) N"
    (is "wp _ ?Q N")
proof -
  have bad: "?Q (Inl e) (N(path_clean c := x))" for e x by blast
  have bad': "?Q (Inl e) N" for e using bad[where x = "N (path_clean c)"] by simp
  have dir: "wp (copy_result d) ?Q N'"
    if "copy_post (bk_stored b) c N (Inr d) N'" "bk_kind b = KindDirectory" for d N'
  proof (cases d)
    case (Inl x)
    obtain created e where x: "x = (created, e)" by fastforce
    have "\<exists>y. N' = N(path_clean c := y)"
      using that Inl x by (cases created) (auto simp: copy_post_def intro: exI[of _ "N (path_clean c)"])
    then show ?thesis using Inl x bad by (auto simp: copy_result_def intro!: wp_err)
  next
    case (Inr u)
    then show ?thesis using that by (auto simp: copy_post_def copy_result_def intro!: wp_ok)
  qed
  show ?thesis
  proof (cases "bk_kind b = KindDirectory")
    case True
    have "wp (io_bind (copy_directory (bk_stored b) c) copy_result) ?Q N"
    proof (rule wp_bind, rule wp_mono, rule wp_copy_directory)
      fix r M assume "copy_post (bk_stored b) c N r M"
      then show "(case r of Inl e \<Rightarrow> ?Q (Inl e)
          | Inr d \<Rightarrow> wp (copy_result d) ?Q) M"
        using dir True by (cases r) (auto simp: copy_post_def[of _ _ _ "Inl _"])
    qed
    then show ?thesis using True by (simp add: restore_candidate_def)
  next
    case False
    then show ?thesis unfolding restore_candidate_def
      using bad' by (auto intro!: wp_bind wp_mkdir_all wp_map_error wp_symlink wp_err) blast+
  qed
qed

lemma wp_verify_candidate:
  assumes "\<And>e. Q (Inl e) N"
    "(bk_kind b = KindDirectory \<longrightarrow> digest_at (sk_sha env) False N c = Inr (bk_digest b)) \<Longrightarrow> Q (Inr ()) N"
  shows "wp (verify_candidate env b c) Q N"
  unfolding verify_candidate_def using assms
  by (auto intro!: wp_bind wp_digest wp_readlink wp_err wp_ok)

lemma wp_restore_backup:
  assumes apart: "path_clean dest \<notin> stage_names dest"
  shows "wp (restore_backup env b dest) (restore_post env b dest N) N"
proof -
  let ?Q = "restore_post env b dest N"
  have bad: "?Q (Inl e) (N(path_clean c := x))" if "N (path_clean c) = None" "path_clean c \<in> stage_names dest" for e c x
    using that apart by (auto simp: restore_post_def)
  have bad': "?Q (Inl e) N" for e by (simp add: restore_post_def)
  have undo: "wp (io_catch (os_remove_all c) (\<lambda>_. io_err e)) ?Q (N(path_clean c := x))"
    if "N (path_clean c) = None" "path_clean c \<in> stage_names dest" for c e x
    using bad[OF that, of e] by (auto intro!: wp_catch wp_remove_all wp_err)
  have good: "?Q (Inr ()) (N(path_clean c := None, path_clean dest := Some n))"
    if "N (path_clean dest) = None" "N (path_clean c) = None" "path_clean c \<in> stage_names dest"
      "restored (sk_sha env) b (Some n)" for c n
    using that apart by (auto simp: restore_post_def)
  have cand: "wp (publish_candidate env b dest c) ?Q N"
    if c: "N (path_clean c) = None" "path_clean c \<in> stage_names dest" and d: "N (path_clean dest) = None" for c
    unfolding publish_candidate_def
  proof (rule wp_catch, rule wp_bind, rule wp_mono, rule wp_restore_candidate, rule c(1))
    fix r :: "skill_error + unit" and M
    assume M: "(\<exists>x. M = N(path_clean c := x)) \<and>
      (r = Inr () \<longrightarrow> (if bk_kind b = KindDirectory then \<exists>m t. M (path_clean c) = Some (NDir m t)
                     else is_link_kind (bk_kind b) \<and> M (path_clean c) = Some (NLink (bk_link b))))"
    then obtain x where x: "M = N(path_clean c := x)" by blast
    let ?k = "\<lambda>r. wp (case r of Inl e \<Rightarrow> io_catch (os_remove_all c) (\<lambda>_. io_err e) | Inr _ \<Rightarrow> io_ok ()) ?Q"
    have e: "?k (Inl e) M" for e using undo[OF c, of e x] x by simp
    have "wp (io_bind (verify_candidate env b c) (\<lambda>_.
            io_map_error (publish_error dest (bk_dest b)) (os_publish c dest))) ?k M" if r: "r = Inr ()"
    proof (rule wp_bind, rule wp_verify_candidate)
      assume dg: "bk_kind b = KindDirectory \<longrightarrow> digest_at (sk_sha env) False M c = Inr (bk_digest b)"
      have res: "restored (sk_sha env) b (Some n)" if n: "M (path_clean c) = Some n" for n
      proof (cases "bk_kind b = KindDirectory")
        case True
        then obtain m t where t: "n = NDir m t" using M r n by auto
        have "digest_tree (sk_sha env) False [] t = Inr (bk_digest b)"
          by (rule digest_tree_root[of _ _ c]) (use dg True n t in \<open>simp add: digest_at_def\<close>)
        then show ?thesis using t True by (simp add: restored_def)
      next
        case False
        then show ?thesis using M r n by (auto simp: restored_def)
      qed
      have "?Q (Inr ()) (M(path_clean c := None, path_clean dest := Some n))"
        if "M (path_clean c) = Some n" for n
        using good[OF d c res[OF that]] x by simp
      then show "(case Inr () of Inl e \<Rightarrow> ?k (Inl e)
          | Inr _ \<Rightarrow> wp (io_map_error (publish_error dest (bk_dest b)) (os_publish c dest)) ?k) M"
        using e by (auto intro!: wp_map_error wp_publish wp_ok)
    qed (use e in simp)
    then show "(case r of Inl e \<Rightarrow> ?k (Inl e)
        | Inr _ \<Rightarrow> wp (io_bind (verify_candidate env b c) (\<lambda>_.
            io_map_error (publish_error dest (bk_dest b)) (os_publish c dest))) ?k) M"
      using e by (cases r) auto
  qed
  have abs: "?Q (Inr ()) N" if "N (path_clean dest) = None" "bk_kind b = KindAbsent"
    using that by (simp add: restore_post_def restored_def)
  show ?thesis unfolding restore_backup_def
    using bad' abs by (auto intro!: wp_bind wp_ensure_absent wp_ok wp_err wp_sibling cand)
qed

end
