(* ===== verification/Skill_Service.thy ===== *)
theory Skill_Service
  imports Skill_Store
begin

text \<open>
  The services that install, inspect, remove and restore the agent skill: \<open>inventory.go\<close> and \<open>service.go\<close>
  of \<open>internal/skilldist\<close>. \<open>ResolveSource\<close> asks Git and is a parameter: the source it finds. The hooks
  of the tests (\<open>beforeSymlink\<close>, \<open>afterRestoreBackup\<close>) are unset.
\<close>

section \<open>Inventory\<close>

definition supported_destinations :: "string \<Rightarrow> destination list" where
  "supported_destinations home =
     [\<lparr> ds_id = DestClaude, ds_path = path_join home (path_join ''.claude'' (path_join ''skills'' ''rootline'')) \<rparr>,
      \<lparr> ds_id = DestAgents, ds_path = path_join home (path_join ''.agents'' (path_join ''skills'' ''rootline'')) \<rparr>]"

definition dest_state :: "destination \<Rightarrow> entry_kind \<Rightarrow> destination_state" where
  "dest_state d k =
     \<lparr> de_id = ds_id d, de_path = ds_path d, de_kind = k, de_digest = [], de_lexical = [], de_canonical = [] \<rparr>"

definition inventory_symlink ::
  "skill_env \<Rightarrow> destination \<Rightarrow> skill_source \<Rightarrow> string \<Rightarrow> destination_state io" where
  "inventory_symlink env d source canon =
     io_bind (os_readlink (ds_path d)) (\<lambda>t.
       let st = (dest_state d KindDivergentSymlink)\<lparr> de_lexical := t \<rparr> in
       io_catch (os_eval_symlinks (ds_path d)) (\<lambda>r. case r of
           Inl _ \<Rightarrow> io_ok st
         | Inr c \<Rightarrow>
             let st' = st\<lparr> de_canonical := c \<rparr> in
             io_catch (os_digest (sk_sha env) False c) (\<lambda>r'. case r' of
                 Inl _ \<Rightarrow> io_ok st'
               | Inr dg \<Rightarrow>
                   io_ok (st'\<lparr> de_digest := dg,
                     de_kind := (if path_clean t = path_clean (so_path source) \<and>
                                    path_clean c = path_clean canon \<and> dg = so_digest source
                                 then KindCorrectSymlink else KindDivergentSymlink) \<rparr>))))"

definition inventory_destination ::
  "skill_env \<Rightarrow> destination \<Rightarrow> skill_source \<Rightarrow> string \<Rightarrow> destination_state io" where
  "inventory_destination env d source canon =
     io_catch (os_lstat (ds_path d)) (\<lambda>r. case r of
         Inl e \<Rightarrow> if is_not_exist e then io_ok (dest_state d KindAbsent) else io_err e
       | Inr (NLink _) \<Rightarrow> inventory_symlink env d source canon
       | Inr (NDir _ _) \<Rightarrow>
           io_bind (os_digest (sk_sha env) False (ds_path d))
             (\<lambda>dg. io_ok ((dest_state d KindDirectory)\<lparr> de_digest := dg \<rparr>))
       | Inr NOther \<Rightarrow> io_ok (dest_state d KindUnsupported))"

fun io_map_list :: "('a \<Rightarrow> 'b io) \<Rightarrow> 'a list \<Rightarrow> 'b list io" where
  "io_map_list f [] = io_ok []"
| "io_map_list f (x # xs) = io_bind (f x) (\<lambda>y. io_bind (io_map_list f xs) (\<lambda>ys. io_ok (y # ys)))"

definition inventory_destinations ::
  "skill_env \<Rightarrow> skill_source \<Rightarrow> destination_state list io" where
  "inventory_destinations env source =
     io_bind (os_eval_symlinks (so_path source)) (\<lambda>canon.
       io_map_list (\<lambda>d. inventory_destination env d source canon) (sk_destinations env))"

definition as_destination :: "destination_state \<Rightarrow> destination" where
  "as_destination st = \<lparr> ds_id = de_id st, ds_path = de_path st \<rparr>"

definition inventory_after_failure ::
  "skill_env \<Rightarrow> destination_state \<Rightarrow> skill_source \<Rightarrow> string \<Rightarrow> destination_state io" where
  "inventory_after_failure env st source canon =
     io_catch (inventory_destination env (as_destination st) source canon) (\<lambda>r. case r of
         Inl _ \<Rightarrow> io_ok (dest_state (as_destination st) KindUnsupported)
       | Inr s \<Rightarrow> io_ok s)"

section \<open>Checks after a change\<close>

definition verify_source_digest :: "skill_env \<Rightarrow> skill_source \<Rightarrow> unit io" where
  "verify_source_digest env source =
     io_catch (os_digest (sk_sha env) True (so_path source)) (\<lambda>r. case r of
         Inl e \<Rightarrow> io_err (OpErr (coerce_error SourceDigestChanged (so_path source) [] e))
       | Inr d \<Rightarrow>
           if d \<noteq> so_digest source then
             io_err (op_error SourceDigestChanged (so_path source) []
               (''source digest '' @ go_quote d @ '' does not match approved digest '' @ go_quote (so_digest source)))
           else io_ok ())"

text \<open>The state a check saw, and whether it is the preimage.\<close>

definition restored_mismatch :: "string \<Rightarrow> destination_state \<Rightarrow> string \<Rightarrow> string \<Rightarrow> string \<Rightarrow> skill_error" where
  "restored_mismatch dest pre what got want =
     op_error VerificationFailed dest (id_text (de_id pre))
       (''restored '' @ what @ '' '' @ go_quote got @ '' does not match preimage '' @
        (if what = ''digest'' then ''digest '' else ''target '') @ go_quote want)"

definition verify_restored_directory ::
  "skill_env \<Rightarrow> destination_state \<Rightarrow> skill_backup \<Rightarrow> string \<Rightarrow> destination_state \<Rightarrow>
     (destination_state \<times> skill_error option) io" where
  "verify_restored_directory env pre b dest st =
     io_catch (os_lstat dest) (\<lambda>r. case r of
         Inl e \<Rightarrow> io_ok (st, Some e)
       | Inr (NDir _ _) \<Rightarrow>
           io_catch (os_digest (sk_sha env) False dest) (\<lambda>r'. case r' of
               Inl e \<Rightarrow> io_ok (st, Some e)
             | Inr d \<Rightarrow>
                 let want = (if de_digest pre = [] then bk_digest b else de_digest pre);
                     st' = st\<lparr> de_digest := d \<rparr> in
                 io_ok (st', if d \<noteq> want then Some (restored_mismatch dest pre ''digest'' d want) else None))
       | Inr _ \<Rightarrow> io_ok (st, Some (op_error VerificationFailed dest (id_text (de_id pre))
                        ''restored preimage is not a directory'')))"

definition verify_restored_link ::
  "skill_env \<Rightarrow> destination_state \<Rightarrow> skill_backup \<Rightarrow> string \<Rightarrow> destination_state \<Rightarrow>
     (destination_state \<times> skill_error option) io" where
  "verify_restored_link env pre b dest st =
     io_catch (os_lstat dest) (\<lambda>r. case r of
         Inl e \<Rightarrow> io_ok (st, Some e)
       | Inr (NLink _) \<Rightarrow>
           io_catch (os_readlink dest) (\<lambda>r1. case r1 of
               Inl e \<Rightarrow> io_ok (st, Some e)
             | Inr t \<Rightarrow>
                 let want = (if de_lexical pre = [] then bk_link b else de_lexical pre);
                     st1 = st\<lparr> de_lexical := t \<rparr> in
                 if t \<noteq> want then io_ok (st1, Some (restored_mismatch dest pre ''target'' t want))
                 else io_catch (os_eval_symlinks dest) (\<lambda>r2. case r2 of
                     Inl _ \<Rightarrow> io_ok (st1, None)
                   | Inr c \<Rightarrow>
                       let st2 = st1\<lparr> de_canonical := c \<rparr> in
                       if de_canonical pre \<noteq> [] \<and> path_clean c \<noteq> path_clean (de_canonical pre) then
                         io_ok (st2, Some (restored_mismatch dest pre ''canonical target'' c (de_canonical pre)))
                       else io_catch (os_digest (sk_sha env) False c) (\<lambda>r3. case r3 of
                           Inl _ \<Rightarrow> io_ok (st2, None)
                         | Inr d \<Rightarrow>
                             io_ok (st2\<lparr> de_digest := d \<rparr>,
                               if de_digest pre \<noteq> [] \<and> d \<noteq> de_digest pre
                               then Some (restored_mismatch dest pre ''digest'' d (de_digest pre)) else None))))
       | Inr _ \<Rightarrow> io_ok (st, Some (op_error VerificationFailed dest (id_text (de_id pre))
                        ''restored preimage is not a symlink'')))"

definition verify_restored_preimage ::
  "skill_env \<Rightarrow> destination_state \<Rightarrow> skill_backup \<Rightarrow> string \<Rightarrow> (destination_state \<times> skill_error option) io" where
  "verify_restored_preimage env pre b dest =
     (let st = \<lparr> de_id = de_id pre, de_path = dest, de_kind = de_kind pre, de_digest = [], de_lexical = [],
                 de_canonical = [] \<rparr> in
      if de_kind pre = KindDirectory then verify_restored_directory env pre b dest st
      else if is_link_kind (de_kind pre) then verify_restored_link env pre b dest st
      else io_ok (st, Some (op_error UnsupportedFileType dest (id_text (de_id pre))
        (''unsupported preimage state '' @ go_quote (kind_name (de_kind pre))))))"

section \<open>Publishing the link\<close>

definition path_is_absent :: "string \<Rightarrow> bool io" where
  "path_is_absent p = io_catch (os_lstat p) (\<lambda>r. case r of Inl e \<Rightarrow> io_ok (is_not_exist e) | Inr _ \<Rightarrow> io_ok False)"

text \<open>\<open>restoreStaged\<close>: when something is at the destination again, the staged preimage is deleted, once the
  stored backup has been verified.\<close>

definition restore_staged :: "skill_env \<Rightarrow> destination_state \<Rightarrow> string \<Rightarrow> skill_backup \<Rightarrow> bool io" where
  "restore_staged env st staged b =
     io_catch (os_lstat (de_path st)) (\<lambda>r. case r of
         Inr _ \<Rightarrow>
           io_catch (if bk_kind b \<noteq> KindAbsent then verify_backup env b else io_ok ()) (\<lambda>v. case v of
               Inl _ \<Rightarrow> io_ok False
             | Inr _ \<Rightarrow> io_catch (os_remove_all staged) (\<lambda>_. io_ok False))
       | Inl e \<Rightarrow>
           if \<not> is_not_exist e then io_ok False
           else io_catch (os_rename staged (de_path st)) (\<lambda>m. case m of
               Inl _ \<Rightarrow> io_ok False
             | Inr _ \<Rightarrow> io_catch (verify_restored_preimage env st b (de_path st)) (\<lambda>v. case v of
                 Inl _ \<Rightarrow> io_ok False | Inr (_, err) \<Rightarrow> io_ok (err = None))))"

definition rollback_after_failure ::
  "skill_env \<Rightarrow> destination_state \<Rightarrow> string \<Rightarrow> skill_backup \<Rightarrow> bool \<Rightarrow> bool io" where
  "rollback_after_failure env st staged b created =
     io_catch (if created then os_remove (de_path st) else io_ok ()) (\<lambda>r.
       let finish = (if staged = [] then path_is_absent (de_path st) else restore_staged env st staged b) in
       case r of
         Inl e \<Rightarrow> if is_not_exist e then finish else io_ok False
       | Inr _ \<Rightarrow> finish)"

record publish_outcome =
  po_after :: destination_state
  po_rolled_back :: bool

text \<open>A failure: roll back, and report what is at the destination now.\<close>

definition publish_failed ::
  "skill_env \<Rightarrow> destination_state \<Rightarrow> skill_source \<Rightarrow> string \<Rightarrow> string \<Rightarrow> skill_backup \<Rightarrow> bool \<Rightarrow> bool \<Rightarrow>
     destination_state \<Rightarrow> skill_error \<Rightarrow> (publish_outcome \<times> skill_error option) io" where
  "publish_failed env st source canon staged b created look after e =
     io_bind (rollback_after_failure env st staged b created) (\<lambda>back.
       io_bind (if look then inventory_after_failure env st source canon else io_ok after) (\<lambda>s.
         io_ok (\<lparr> po_after = s, po_rolled_back = back \<rparr>, Some e)))"

text \<open>Moving the preimage aside and checking that it is still what the plan saw.\<close>

definition stage_preimage ::
  "skill_env \<Rightarrow> destination_state \<Rightarrow> skill_source \<Rightarrow> string \<Rightarrow> skill_backup \<Rightarrow>
     ((bool \<times> skill_error) + string) io" where
  "stage_preimage env st source canon b =
     (if de_kind st = KindAbsent then io_ok (Inr [])
      else
        io_catch (unique_sibling_path (de_path st)) (\<lambda>r. case r of
            Inl e \<Rightarrow> io_ok (Inl (False, e))
          | Inr staged \<Rightarrow>
              io_catch (os_rename (de_path st) staged) (\<lambda>m. case m of
                  Inl e \<Rightarrow> io_ok (Inl (False,
                    OpErr (coerce_error PreimageDigestChanged (de_path st) (id_text (de_id st)) e)))
                | Inr _ \<Rightarrow>
                    io_catch (inventory_destination env \<lparr> ds_id = de_id st, ds_path = staged \<rparr> source canon)
                      (\<lambda>i. case i of
                         Inl e \<Rightarrow> io_bind (restore_staged env st staged b) (\<lambda>back. io_ok (Inl (back,
                           OpErr (coerce_error VerificationFailed (de_path st) (id_text (de_id st)) e))))
                       | Inr s \<Rightarrow>
                           if \<not> staged_evidence_same st s b then
                             io_bind (restore_staged env st staged b) (\<lambda>back. io_ok (Inl (back,
                               state_error VerificationFailed st ''staged preimage evidence changed'')))
                           else io_ok (Inr staged)))))"

text \<open>The link exists: check source and link again, and delete the staged preimage.\<close>

definition undo_symlink ::
  "skill_env \<Rightarrow> destination_state \<Rightarrow> skill_source \<Rightarrow> string \<Rightarrow> string \<Rightarrow> skill_backup \<Rightarrow> bool \<Rightarrow>
     destination_state \<Rightarrow> skill_error \<Rightarrow> (publish_outcome \<times> skill_error option) io" where
  "undo_symlink env st source canon staged b look after e =
     io_catch (os_remove (de_path st)) (\<lambda>_.
       publish_failed env st source canon staged b True look after e)"

definition finish_publish ::
  "skill_env \<Rightarrow> destination_state \<Rightarrow> skill_source \<Rightarrow> string \<Rightarrow> string \<Rightarrow> skill_backup \<Rightarrow> destination_state \<Rightarrow>
     (publish_outcome \<times> skill_error option) io" where
  "finish_publish env st source canon staged b after =
     (if de_kind after \<noteq> KindCorrectSymlink then
        undo_symlink env st source canon staged b True after
          (state_error VerificationFailed st ''published symlink is not exact'')
      else if staged \<noteq> [] then
        io_catch (os_remove_all staged) (\<lambda>d. case d of
            Inl e \<Rightarrow> publish_failed env st source canon staged b True True after
              (OpErr (coerce_error VerificationFailed staged (id_text (de_id st)) e))
          | Inr _ \<Rightarrow> io_ok (\<lparr> po_after = after, po_rolled_back = False \<rparr>, None))
      else io_ok (\<lparr> po_after = after, po_rolled_back = False \<rparr>, None))"

definition confirm_symlink ::
  "skill_env \<Rightarrow> destination_state \<Rightarrow> skill_source \<Rightarrow> string \<Rightarrow> string \<Rightarrow> skill_backup \<Rightarrow>
     (publish_outcome \<times> skill_error option) io" where
  "confirm_symlink env st source canon staged b =
     io_catch (verify_source_digest env source) (\<lambda>r. case r of
         Inl e \<Rightarrow> undo_symlink env st source canon staged b True st e
       | Inr _ \<Rightarrow>
           io_catch (inventory_destination env (as_destination st) source canon) (\<lambda>i. case i of
               Inl e \<Rightarrow> undo_symlink env st source canon staged b False st
                 (OpErr (coerce_error VerificationFailed (de_path st) (id_text (de_id st)) e))
             | Inr after \<Rightarrow> finish_publish env st source canon staged b after))"

text \<open>The preimage is aside: check the source, make the directories, create the link.\<close>

definition create_symlink ::
  "skill_env \<Rightarrow> destination_state \<Rightarrow> skill_source \<Rightarrow> string \<Rightarrow> skill_backup \<Rightarrow> string \<Rightarrow>
     (publish_outcome \<times> skill_error option) io" where
  "create_symlink env st source canon b staged =
     io_catch (verify_source_digest env source) (\<lambda>v. case v of
         Inl e \<Rightarrow> publish_failed env st source canon staged b False True st e
       | Inr _ \<Rightarrow>
           io_catch (os_mkdir_all (path_dir (de_path st))) (\<lambda>m. case m of
               Inl e \<Rightarrow> publish_failed env st source canon staged b False False st e
             | Inr _ \<Rightarrow>
                 io_catch (os_symlink (so_path source) (de_path st)) (\<lambda>l. case l of
                     Inl e \<Rightarrow> publish_failed env st source canon staged b False True st
                       (symlink_creation_error (de_path st) (id_text (de_id st)) e)
                   | Inr _ \<Rightarrow> confirm_symlink env st source canon staged b)))"

definition publish_symlink ::
  "skill_env \<Rightarrow> destination_state \<Rightarrow> skill_source \<Rightarrow> skill_backup \<Rightarrow> (publish_outcome \<times> skill_error option) io" where
  "publish_symlink env st source b =
     io_catch (os_eval_symlinks (so_path source)) (\<lambda>c. case c of
         Inl e \<Rightarrow> io_ok (\<lparr> po_after = st, po_rolled_back = False \<rparr>, Some e)
       | Inr canon \<Rightarrow>
           io_bind (stage_preimage env st source canon b) (\<lambda>s. case s of
               Inl (undone, e) \<Rightarrow> io_ok (\<lparr> po_after = st, po_rolled_back = undone \<rparr>, Some e)
             | Inr staged \<Rightarrow> create_symlink env st source canon b staged))"

section \<open>What an inventory sees\<close>

definition observes :: "(string \<Rightarrow> string) \<Rightarrow> skill_source \<Rightarrow> nodes \<Rightarrow> destination_state \<Rightarrow> bool" where
  "observes sha source N s =
     (case N (path_clean (de_path s)) of
        None \<Rightarrow> de_kind s = KindAbsent
      | Some (NDir m t) \<Rightarrow> de_kind s = KindDirectory \<and> digest_tree sha False [] t = Inr (de_digest s)
      | Some (NLink t) \<Rightarrow> de_lexical s = t \<and> is_link_kind (de_kind s) \<and>
          (de_kind s = KindCorrectSymlink \<longrightarrow> path_clean t = path_clean (so_path source))
      | Some NOther \<Rightarrow> de_kind s = KindUnsupported)"

lemma dest_state_simps [simp]:
  "de_id (dest_state d k) = ds_id d" "de_path (dest_state d k) = ds_path d" "de_kind (dest_state d k) = k"
  "de_lexical (dest_state d k) = []" "de_digest (dest_state d k) = []"
  by (simp_all add: dest_state_def)

lemma as_destination_simps [simp]: "ds_id (as_destination st) = de_id st" "ds_path (as_destination st) = de_path st"
  by (simp_all add: as_destination_def)

lemma link_kinds [simp]: "is_link_kind KindCorrectSymlink" "is_link_kind KindDivergentSymlink"
  "\<not> is_link_kind KindAbsent" "\<not> is_link_kind KindDirectory" "\<not> is_link_kind KindUnsupported"
  by (simp_all add: is_link_kind_def)

abbreviation inventory_ok :: "skill_env \<Rightarrow> destination \<Rightarrow> skill_source \<Rightarrow> nodes \<Rightarrow> destination_state \<Rightarrow> bool" where
  "inventory_ok env d source N s \<equiv> de_id s = ds_id d \<and> de_path s = ds_path d \<and> observes (sk_sha env) source N s"

lemma wp_inventory_symlink:
  assumes "N (path_clean (ds_path d)) = Some (NLink t)" "\<And>e. Q (Inl e) N"
    "\<And>s. inventory_ok env d source N s \<Longrightarrow> Q (Inr s) N"
  shows "wp (inventory_symlink env d source canon) Q N"
  unfolding inventory_symlink_def using assms
  by (auto simp: Let_def observes_def intro!: wp_bind wp_readlink wp_catch wp_eval wp_digest wp_ok)

lemma wp_inventory:
  assumes "\<And>e. Q (Inl e) N" "\<And>s. inventory_ok env d source N s \<Longrightarrow> Q (Inr s) N"
  shows "wp (inventory_destination env d source canon) Q N"
  unfolding inventory_destination_def
proof (rule wp_catch, rule wp_lstat)
  fix n assume n: "N (path_clean (ds_path d)) = Some n"
  have "inventory_ok env d source N ((dest_state d KindDirectory)\<lparr> de_digest := dg \<rparr>)"
    if "n = NDir m t" "digest_at (sk_sha env) False N (ds_path d) = Inr dg" for m t dg
  proof -
    have "digest_tree (sk_sha env) False [] t = Inr dg"
      by (rule digest_tree_root[of _ _ "ds_path d"]) (use that n in \<open>simp add: digest_at_def\<close>)
    then show ?thesis using that n by (simp add: observes_def)
  qed
  then show "wp (case Inr n of
         Inl e \<Rightarrow> if is_not_exist e then io_ok (dest_state d KindAbsent) else io_err e
       | Inr (NLink _) \<Rightarrow> inventory_symlink env d source canon
       | Inr (NDir _ _) \<Rightarrow>
           io_bind (os_digest (sk_sha env) False (ds_path d))
             (\<lambda>dg. io_ok ((dest_state d KindDirectory)\<lparr> de_digest := dg \<rparr>))
       | Inr NOther \<Rightarrow> io_ok (dest_state d KindUnsupported)) Q N"
    using n assms
    by (cases n) (auto simp: observes_def intro!: wp_inventory_symlink wp_bind wp_digest wp_ok)
qed (use assms in \<open>auto simp: observes_def intro!: wp_ok wp_err\<close>)

lemma wp_inventory_after_failure:
  assumes "\<And>s. Q (Inr s) N" shows "wp (inventory_after_failure env st source canon) Q N"
  unfolding inventory_after_failure_def using assms by (auto intro!: wp_catch wp_inventory wp_ok)

section \<open>Verification of a restored preimage\<close>

definition wanted_digest :: "destination_state \<Rightarrow> skill_backup \<Rightarrow> string" where
  "wanted_digest pre b = (if de_digest pre = [] then bk_digest b else de_digest pre)"

definition wanted_link :: "destination_state \<Rightarrow> skill_backup \<Rightarrow> string" where
  "wanted_link pre b = (if de_lexical pre = [] then bk_link b else de_lexical pre)"

text \<open>The node a preimage and its backup ask for.\<close>

definition is_wanted :: "(string \<Rightarrow> string) \<Rightarrow> destination_state \<Rightarrow> skill_backup \<Rightarrow> fs_node option \<Rightarrow> bool" where
  "is_wanted sha pre b n =
     ((de_kind pre = KindDirectory \<and>
         (\<exists>m t. n = Some (NDir m t) \<and> digest_tree sha False [] t = Inr (wanted_digest pre b))) \<or>
      (is_link_kind (de_kind pre) \<and> n = Some (NLink (wanted_link pre b))))"

lemma wp_verify_restored:
  assumes "\<And>s e. Q (Inr (s, Some e)) N"
    "\<And>s. is_wanted (sk_sha env) pre b (N (path_clean dest)) \<Longrightarrow> de_kind s = de_kind pre \<Longrightarrow> de_id s = de_id pre \<Longrightarrow>
       de_path s = dest \<Longrightarrow> Q (Inr (s, None)) N"
  shows "wp (verify_restored_preimage env pre b dest) Q N"
proof -
  let ?st = "\<lparr> de_id = de_id pre, de_path = dest, de_kind = de_kind pre, de_digest = [], de_lexical = [],
                 de_canonical = [] \<rparr>"
  have dir: "wp (verify_restored_directory env pre b dest ?st) Q N" if k: "de_kind pre = KindDirectory"
    unfolding verify_restored_directory_def
  proof (rule wp_catch, rule wp_lstat)
    fix n assume n: "N (path_clean dest) = Some n"
    have w: "is_wanted (sk_sha env) pre b (N (path_clean dest))"
      if "n = NDir m t" "digest_at (sk_sha env) False N dest = Inr (wanted_digest pre b)" for m t
    proof -
      have "digest_tree (sk_sha env) False [] t = Inr (wanted_digest pre b)"
        by (rule digest_tree_root[of _ _ dest]) (use that n in \<open>simp add: digest_at_def\<close>)
      then show ?thesis using that k n by (simp add: is_wanted_def)
    qed
    show "wp (case Inr n of
         Inl e \<Rightarrow> io_ok (?st, Some e)
       | Inr (NDir _ _) \<Rightarrow>
           io_catch (os_digest (sk_sha env) False dest) (\<lambda>r'. case r' of
               Inl e \<Rightarrow> io_ok (?st, Some e)
             | Inr d \<Rightarrow>
                 let want = (if de_digest pre = [] then bk_digest b else de_digest pre);
                     st' = ?st\<lparr> de_digest := d \<rparr> in
                 io_ok (st', if d \<noteq> want then Some (restored_mismatch dest pre ''digest'' d want) else None))
       | Inr _ \<Rightarrow> io_ok (?st, Some (op_error VerificationFailed dest (id_text (de_id pre))
                        ''restored preimage is not a directory''))) Q N"
      using assms w unfolding wanted_digest_def
      by (cases n) (auto simp: Let_def intro!: wp_catch wp_digest wp_ok)
  qed (use assms in \<open>auto intro!: wp_ok\<close>)
  have link: "wp (verify_restored_link env pre b dest ?st) Q N" if k: "is_link_kind (de_kind pre)"
    unfolding verify_restored_link_def
  proof (rule wp_catch, rule wp_lstat)
    fix n assume n: "N (path_clean dest) = Some n"
    have ok: "Q (Inr (s, None)) N" if "N (path_clean dest) = Some (NLink (wanted_link pre b))"
      "de_kind s = de_kind pre" "de_id s = de_id pre" "de_path s = dest" for s
      using that k assms(2)[of s] by (simp add: is_wanted_def)
    show "wp (case Inr n of Inl e \<Rightarrow> io_ok (?st, Some e)
       | Inr (NLink _) \<Rightarrow>
           io_catch (os_readlink dest) (\<lambda>r1. case r1 of
               Inl e \<Rightarrow> io_ok (?st, Some e)
             | Inr t \<Rightarrow>
                 let want = (if de_lexical pre = [] then bk_link b else de_lexical pre);
                     st1 = ?st\<lparr> de_lexical := t \<rparr> in
                 if t \<noteq> want then io_ok (st1, Some (restored_mismatch dest pre ''target'' t want))
                 else io_catch (os_eval_symlinks dest) (\<lambda>r2. case r2 of
                     Inl _ \<Rightarrow> io_ok (st1, None)
                   | Inr c \<Rightarrow>
                       let st2 = st1\<lparr> de_canonical := c \<rparr> in
                       if de_canonical pre \<noteq> [] \<and> path_clean c \<noteq> path_clean (de_canonical pre) then
                         io_ok (st2, Some (restored_mismatch dest pre ''canonical target'' c (de_canonical pre)))
                       else io_catch (os_digest (sk_sha env) False c) (\<lambda>r3. case r3 of
                           Inl _ \<Rightarrow> io_ok (st2, None)
                         | Inr d \<Rightarrow>
                             io_ok (st2\<lparr> de_digest := d \<rparr>,
                               if de_digest pre \<noteq> [] \<and> d \<noteq> de_digest pre
                               then Some (restored_mismatch dest pre ''digest'' d (de_digest pre)) else None))))
       | Inr _ \<Rightarrow> io_ok (?st, Some (op_error VerificationFailed dest (id_text (de_id pre))
                        ''restored preimage is not a symlink''))) Q N"
      using assms(1) ok unfolding wanted_link_def
      by (cases n) (auto simp: Let_def intro!: wp_catch wp_readlink wp_eval wp_digest wp_ok)
  qed (use assms in \<open>auto intro!: wp_ok\<close>)
  show ?thesis unfolding verify_restored_preimage_def Let_def
    using dir link assms(1) by (auto intro: wp_ok)
qed

section \<open>Publishing is a transaction\<close>

text \<open>The same node, or a directory with the same mode and digest.\<close>

definition same_content :: "(string \<Rightarrow> string) \<Rightarrow> fs_node option \<Rightarrow> fs_node option \<Rightarrow> bool" where
  "same_content sha a b =
     (a = b \<or> (\<exists>m t t' d. a = Some (NDir m t) \<and> b = Some (NDir m t') \<and>
                digest_tree sha False [] t = Inr d \<and> digest_tree sha False [] t' = Inr d))"

text \<open>A node that is the preimage, or what a partial removal left of it.\<close>

definition remains_of :: "fs_node option \<Rightarrow> fs_node \<Rightarrow> bool" where
  "remains_of n0 y = (n0 = Some y \<or> (\<exists>m t t'. n0 = Some (NDir m t) \<and> y = NDir m t'))"

text \<open>What a plan and its backup know of the preimage of a destination.\<close>

definition preimage_known ::
  "(string \<Rightarrow> string) \<Rightarrow> destination_state \<Rightarrow> skill_backup \<Rightarrow> fs_node option \<Rightarrow> bool" where
  "preimage_known sha st b n0 =
     ((de_kind st = KindAbsent \<longrightarrow> n0 = None) \<and>
      (\<forall>m t. n0 = Some (NDir m t) \<longrightarrow> digest_tree sha False [] t = Inr (wanted_digest st b)))"

text \<open>Between the staging of the preimage and the end: only the destination and names beside it have
  changed, and the preimage is under the staged name, if there was one.\<close>

definition in_flight :: "nodes \<Rightarrow> string \<Rightarrow> string \<Rightarrow> nodes \<Rightarrow> bool" where
  "in_flight N p staged M =
     ((\<forall>q. q \<noteq> path_clean p \<longrightarrow> q \<notin> stage_names p \<longrightarrow> M q = N q) \<and>
      (if staged = [] then N (path_clean p) = None
       else path_clean staged \<in> stage_names p \<and>
            (\<exists>y. M (path_clean staged) = Some y \<and> remains_of (N (path_clean p)) y)))"

definition rollback_post :: "(string \<Rightarrow> string) \<Rightarrow> nodes \<Rightarrow> string \<Rightarrow> skill_error + bool \<Rightarrow> nodes \<Rightarrow> bool" where
  "rollback_post sha N p r M =
     ((\<forall>q. q \<noteq> path_clean p \<longrightarrow> q \<notin> stage_names p \<longrightarrow> M q = N q) \<and>
      (case r of Inl _ \<Rightarrow> False | Inr back \<Rightarrow> back \<longrightarrow> same_content sha (N (path_clean p)) (M (path_clean p))))"

lemma in_flight_set_dest:
  assumes "path_clean p \<notin> stage_names p" "in_flight N p staged M"
  shows "in_flight N p staged (M(path_clean p := x))"
  using assms by (auto simp: in_flight_def)

lemma rollback_False: "in_flight N p staged M \<Longrightarrow> rollback_post sha N p (Inr False) M"
  by (auto simp: in_flight_def rollback_post_def)

lemma restored_same_content:
  assumes "preimage_known sha st b n0" "remains_of n0 y" "is_wanted sha st b (Some y)"
  shows "same_content sha n0 (Some y)"
  using assms by (auto simp: preimage_known_def remains_of_def is_wanted_def same_content_def)

lemma wp_path_is_absent:
  assumes "\<And>e. Q (Inr False) N" "N (path_clean p) = None \<Longrightarrow> Q (Inr True) N"
  shows "wp (path_is_absent p) Q N"
  unfolding path_is_absent_def using assms by (auto intro!: wp_catch wp_lstat wp_ok)

lemma wp_restore_staged:
  assumes apart: "path_clean (de_path st) \<notin> stage_names (de_path st)" and st: "staged \<noteq> []"
    and fl: "in_flight N (de_path st) staged M" and kn: "preimage_known (sk_sha env) st b (N (path_clean (de_path st)))"
  shows "wp (restore_staged env st staged b) (rollback_post (sk_sha env) N (de_path st)) M"
proof -
  let ?p = "de_path st" and ?Q = "rollback_post (sk_sha env) N (de_path st)"
  have stg: "path_clean staged \<in> stage_names ?p" "path_clean staged \<noteq> path_clean ?p"
    using fl st apart by (auto simp: in_flight_def)
  have f: "?Q (Inr False) M" using rollback_False[OF fl] .
  have f2: "?Q (Inr False) (M(path_clean staged := x))" for x
    using fl stg(1) st by (auto simp: rollback_post_def in_flight_def)
  have f3: "?Q (Inr False) (M(path_clean staged := None, path_clean ?p := Some y))" for y
    using fl stg(1) st by (auto simp: rollback_post_def in_flight_def)
  have t: "?Q (Inr True) (M(path_clean staged := None, path_clean ?p := Some y))"
    if "M (path_clean staged) = Some y" "is_wanted (sk_sha env) st b (Some y)" for y
  proof -
    have "remains_of (N (path_clean ?p)) y" using fl st that(1) by (auto simp: in_flight_def)
    then have "same_content (sk_sha env) (N (path_clean ?p)) (Some y)"
      using restored_same_content kn that(2) by blast
    then show ?thesis using fl stg(1) st by (auto simp: rollback_post_def in_flight_def)
  qed
  have returned: "wp (io_catch (verify_restored_preimage env st b ?p) (\<lambda>v. case v of
         Inl _ \<Rightarrow> io_ok False | Inr (_, err) \<Rightarrow> io_ok (err = None))) ?Q
       (M(path_clean staged := None, path_clean ?p := Some y))"
    if "M (path_clean staged) = Some y" for y
    using f3 t[OF that] by (auto intro!: wp_catch wp_verify_restored wp_ok)
  have vb: "wp (if bk_kind b \<noteq> KindAbsent then verify_backup env b else io_ok ())
      (\<lambda>v. wp (case v of Inl _ \<Rightarrow> io_ok False | Inr _ \<Rightarrow> io_catch (os_remove_all staged) (\<lambda>_. io_ok False)) ?Q) M"
    using f f2
    by (auto intro!: wp_mono[OF wp_verify_backup] wp_ok wp_catch wp_remove_all split: sum.splits)
  show ?thesis unfolding restore_staged_def
    using f returned vb by (auto intro!: wp_catch wp_lstat wp_rename wp_ok)
qed

lemma wp_rollback:
  assumes apart: "path_clean (de_path st) \<notin> stage_names (de_path st)"
    and fl: "in_flight N (de_path st) staged M" and kn: "preimage_known (sk_sha env) st b (N (path_clean (de_path st)))"
  shows "wp (rollback_after_failure env st staged b created) (rollback_post (sk_sha env) N (de_path st)) M"
proof -
  let ?p = "de_path st" and ?Q = "rollback_post (sk_sha env) N (de_path st)"
  let ?finish = "if staged = [] then path_is_absent ?p else restore_staged env st staged b"
  have fin: "wp ?finish ?Q M'" if "in_flight N ?p staged M'" for M'
  proof (cases "staged = []")
    case True
    have "?Q (Inr True) M'" if "M' (path_clean ?p) = None"
      using that \<open>in_flight N ?p staged M'\<close> True by (auto simp: in_flight_def rollback_post_def same_content_def)
    then show ?thesis using True rollback_False[OF that] by (auto intro!: wp_path_is_absent)
  next
    case False
    then show ?thesis using wp_restore_staged[OF apart False that kn] by simp
  qed
  have "wp (io_catch (if created then os_remove ?p else io_ok ())
      (\<lambda>r. case r of Inl e \<Rightarrow> if is_not_exist e then ?finish else io_ok False | Inr _ \<Rightarrow> ?finish)) ?Q M"
    using fin[OF fl] fin[OF in_flight_set_dest[OF apart fl]] rollback_False[OF fl]
    by (cases created) (auto intro!: wp_catch wp_remove wp_ok)
  then show ?thesis unfolding rollback_after_failure_def Let_def .
qed

text \<open>The outcome of publishing: a link to the source, or an error and, where it says so, the preimage back
  in its place.\<close>

definition publish_post ::
  "(string \<Rightarrow> string) \<Rightarrow> nodes \<Rightarrow> destination_state \<Rightarrow> skill_source \<Rightarrow>
     skill_error + publish_outcome \<times> skill_error option \<Rightarrow> nodes \<Rightarrow> bool" where
  "publish_post sha N st source r M =
     ((\<forall>q. q \<noteq> path_clean (de_path st) \<longrightarrow> q \<notin> stage_names (de_path st) \<longrightarrow> M q = N q) \<and>
      (case r of
         Inl _ \<Rightarrow> False
       | Inr (po, None) \<Rightarrow>
           M (path_clean (de_path st)) = Some (NLink (so_path source)) \<and> \<not> po_rolled_back po \<and>
           de_kind (po_after po) = KindCorrectSymlink \<and> de_id (po_after po) = de_id st \<and>
           de_path (po_after po) = de_path st
       | Inr (po, Some _) \<Rightarrow>
           po_rolled_back po \<longrightarrow>
             same_content sha (N (path_clean (de_path st))) (M (path_clean (de_path st)))))"

lemma wp_publish_failed:
  assumes "path_clean (de_path st) \<notin> stage_names (de_path st)" "in_flight N (de_path st) staged M"
    "preimage_known (sk_sha env) st b (N (path_clean (de_path st)))"
  shows "wp (publish_failed env st source canon staged b created look after e)
           (publish_post (sk_sha env) N st source) M"
proof -
  let ?Q = "publish_post (sk_sha env) N st source"
  have fin: "?Q (Inr (\<lparr> po_after = s, po_rolled_back = ok \<rparr>, Some e)) M'"
    if "rollback_post (sk_sha env) N (de_path st) (Inr ok) M'" for s ok M'
    using that by (auto simp: publish_post_def rollback_post_def)
  show ?thesis unfolding publish_failed_def
  proof (rule wp_bind, rule wp_mono, rule wp_rollback[OF assms])
    fix r M' assume r: "rollback_post (sk_sha env) N (de_path st) r M'"
    then obtain ok where ok: "r = Inr ok" by (cases r) (auto simp: rollback_post_def)
    show "(case r of Inl e \<Rightarrow> ?Q (Inl e)
      | Inr back \<Rightarrow> wp (io_bind (if look then inventory_after_failure env st source canon else io_ok after)
          (\<lambda>s. io_ok (\<lparr> po_after = s, po_rolled_back = back \<rparr>, Some e))) ?Q) M'"
      using ok fin r by (cases look) (auto intro!: wp_bind wp_inventory_after_failure wp_ok)
  qed
qed

lemma wp_verify_source:
  assumes "\<And>e. Q (Inl e) N" "Q (Inr ()) N" shows "wp (verify_source_digest env source) Q N"
  unfolding verify_source_digest_def using assms by (auto intro!: wp_catch wp_digest wp_ok wp_err)

lemma wp_undo_symlink:
  assumes apart: "path_clean (de_path st) \<notin> stage_names (de_path st)"
    and fl: "in_flight N (de_path st) staged M"
    and kn: "preimage_known (sk_sha env) st b (N (path_clean (de_path st)))"
  shows "wp (undo_symlink env st source canon staged b look after e) (publish_post (sk_sha env) N st source) M"
  unfolding undo_symlink_def
  by (intro wp_catch wp_remove wp_publish_failed apart fl in_flight_set_dest kn)

lemma wp_finish_publish:
  assumes apart: "path_clean (de_path st) \<notin> stage_names (de_path st)"
    and fl: "in_flight N (de_path st) staged M"
    and kn: "preimage_known (sk_sha env) st b (N (path_clean (de_path st)))"
    and link: "M (path_clean (de_path st)) = Some (NLink (so_path source))"
    and after: "de_id after = de_id st" "de_path after = de_path st"
  shows "wp (finish_publish env st source canon staged b after) (publish_post (sk_sha env) N st source) M"
proof -
  let ?p = "de_path st" and ?Q = "publish_post (sk_sha env) N st source"
  note failed = wp_publish_failed[where N = N, OF apart _ kn]
  have removed: "wp (publish_failed env st source canon staged b True True after e) ?Q
      (M(path_clean staged := Some (NDir m t')))"
    if "M (path_clean staged) = Some (NDir m t)" "staged \<noteq> []" for e m t t'
    by (rule failed) (use fl that in \<open>auto simp: in_flight_def remains_of_def\<close>)
  have good: "?Q (Inr (\<lparr> po_after = after, po_rolled_back = False \<rparr>, None)) M'"
    if "de_kind after = KindCorrectSymlink" "M' = M \<or> (staged \<noteq> [] \<and> M' = M(path_clean staged := None))" for M'
    using fl that link apart after by (auto simp: publish_post_def in_flight_def)
  show ?thesis unfolding finish_publish_def
    using wp_undo_symlink[OF apart fl kn] removed failed[OF fl] good
    by (auto intro!: wp_catch wp_remove_all wp_ok)
qed

lemma wp_confirm:
  assumes apart: "path_clean (de_path st) \<notin> stage_names (de_path st)"
    and fl: "in_flight N (de_path st) staged M"
    and kn: "preimage_known (sk_sha env) st b (N (path_clean (de_path st)))"
    and link: "M (path_clean (de_path st)) = Some (NLink (so_path source))"
  shows "wp (confirm_symlink env st source canon staged b) (publish_post (sk_sha env) N st source) M"
  unfolding confirm_symlink_def
  using wp_undo_symlink[OF apart fl kn] wp_finish_publish[OF apart fl kn link]
  by (auto intro!: wp_catch wp_verify_source wp_inventory)

lemma wp_create_symlink:
  assumes apart: "path_clean (de_path st) \<notin> stage_names (de_path st)"
    and fl: "in_flight N (de_path st) staged M"
    and kn: "preimage_known (sk_sha env) st b (N (path_clean (de_path st)))"
  shows "wp (create_symlink env st source canon b staged) (publish_post (sk_sha env) N st source) M"
proof -
  have "wp (confirm_symlink env st source canon staged b) (publish_post (sk_sha env) N st source)
      (M(path_clean (de_path st) := Some (NLink (so_path source))))"
    by (rule wp_confirm[OF apart in_flight_set_dest[OF apart fl] kn]) simp
  then show ?thesis unfolding create_symlink_def
    using wp_publish_failed[where N = N, OF apart fl kn]
    by (auto intro!: wp_catch wp_verify_source wp_mkdir_all wp_symlink)
qed

lemma wp_stage_preimage:
  assumes apart: "path_clean (de_path st) \<notin> stage_names (de_path st)"
    and kn: "preimage_known (sk_sha env) st b (N (path_clean (de_path st)))"
    and good: "\<And>staged M. in_flight N (de_path st) staged M \<Longrightarrow> M (path_clean (de_path st)) = None \<Longrightarrow> Q (Inr (Inr staged)) M"
    and bad: "\<And>back e M. rollback_post (sk_sha env) N (de_path st) (Inr back) M \<Longrightarrow> Q (Inr (Inl (back, e))) M"
  shows "wp (stage_preimage env st source canon b) Q N"
proof -
  let ?p = "de_path st"
  have unchanged: "Q (Inr (Inl (False, e))) N" for e
    by (rule bad) (simp add: rollback_post_def)
  have fl: "in_flight N ?p c (N(path_clean ?p := None, path_clean c := Some n))"
    "(N(path_clean ?p := None, path_clean c := Some n)) (path_clean ?p) = None"
    if "path_clean c \<in> stage_names ?p" "c \<noteq> []" "N (path_clean ?p) = Some n" for c n
    using that apart by (auto simp: in_flight_def remains_of_def)
  have returned: "wp (io_bind (restore_staged env st c b) (\<lambda>back. io_ok (Inl (back, e)))) Q
      (N(path_clean ?p := None, path_clean c := Some n))"
    if "path_clean c \<in> stage_names ?p" "c \<noteq> []" "N (path_clean ?p) = Some n" for c n e
  proof (rule wp_bind, rule wp_mono, rule wp_restore_staged[OF apart that(2) fl(1)[OF that] kn])
    fix r M' assume r: "rollback_post (sk_sha env) N (de_path st) r M'"
    then obtain ok where "r = Inr ok" by (cases r) (auto simp: rollback_post_def)
    then show "(case r of Inl e \<Rightarrow> Q (Inl e) | Inr back \<Rightarrow> wp (io_ok (Inl (back, e))) Q) M'"
      using bad r by (auto intro!: wp_ok)
  qed
  show ?thesis
  proof (cases "de_kind st = KindAbsent")
    case True
    then have "N (path_clean ?p) = None" using kn by (simp add: preimage_known_def)
    then show ?thesis using True good[of "[]" N] by (auto simp: stage_preimage_def in_flight_def intro: wp_ok)
  next
    case False
    show ?thesis unfolding stage_preimage_def if_not_P[OF False]
      using unchanged
      by (auto intro!: wp_catch wp_sibling wp_rename wp_ok wp_inventory returned good fl)
  qed
qed

lemma wp_publish_symlink:
  assumes apart: "path_clean (de_path st) \<notin> stage_names (de_path st)"
    and kn: "preimage_known (sk_sha env) st b (N (path_clean (de_path st)))"
  shows "wp (publish_symlink env st source b) (publish_post (sk_sha env) N st source) N"
proof -
  let ?Q = "publish_post (sk_sha env) N st source"
  have none: "?Q (Inr (\<lparr> po_after = st, po_rolled_back = False \<rparr>, Some e)) N" for e
    by (simp add: publish_post_def)
  have bad: "?Q (Inr (\<lparr> po_after = st, po_rolled_back = ok \<rparr>, Some e)) M"
    if "rollback_post (sk_sha env) N (de_path st) (Inr ok) M" for ok e M
    using that by (auto simp: publish_post_def rollback_post_def)
  show ?thesis unfolding publish_symlink_def
    using none bad wp_create_symlink[where N = N, OF apart _ kn]
    by (auto intro!: wp_catch wp_eval wp_ok wp_bind wp_stage_preimage[where N = N, OF apart kn])
qed

end
