(* ===== verification/Skill_Operations.thy ===== *)
theory Skill_Operations
  imports Skill_Service
begin

text \<open>
  The operations of the service, \<open>Install\<close>, \<open>Status\<close>, \<open>Uninstall\<close> and \<open>Restore\<close> of
  \<open>internal/skilldist/service.go\<close>. Each first makes a plan; only with the digest of that plan as approval
  does it act, destination by destination, and it writes a receipt of what happened.
\<close>

definition zero_result :: "skill_op \<Rightarrow> skill_result" where
  "zero_result o' =
     \<lparr> rs_op = o', rs_attempted = False, rs_complete = False, rs_source = None, rs_plan = None,
       rs_destinations = [], rs_backups = [], rs_receipt = None, rs_drift = False, rs_errors = [] \<rparr>"

section \<open>Planning\<close>

definition install_plan ::
  "skill_env \<Rightarrow> string \<Rightarrow> skill_error + skill_source \<Rightarrow> skill_result \<Rightarrow>
     (skill_result \<times> (skill_source \<times> skill_plan) option) io" where
  "install_plan env path found r =
     (case found of
        Inl e \<Rightarrow> io_ok (add_error r (coerce_error SourceNotCanonical path [] e), None)
      | Inr source \<Rightarrow>
          let r1 = r\<lparr> rs_source := Some source \<rparr> in
          io_catch (inventory_destinations env source) (\<lambda>i. case i of
              Inl e \<Rightarrow> io_ok (add_error r1 (coerce_error VerificationFailed [] [] e), None)
            | Inr sts \<Rightarrow>
                let r2 = r1\<lparr> rs_destinations := sts \<rparr> in
                (case build_install_plan (sk_hash env) source sts of
                   Inl e \<Rightarrow> io_ok (add_error r2 (coerce_error UnsupportedFileType [] [] e), None)
                 | Inr p \<Rightarrow> io_ok (r2\<lparr> rs_plan := Some p \<rparr>, Some (source, p)))))"

definition latest_complete_install :: "receipt option io" where
  "latest_complete_install =
     io_bind scan_receipts (\<lambda>rs. io_ok (List.find (\<lambda>r. rp_op r = OpInstall \<and> rp_complete r) (rev rs)))"

text \<open>What the plans that start from a receipt have in common: its source and the current destinations.\<close>

definition plan_from_receipt ::
  "skill_env \<Rightarrow> receipt \<Rightarrow> (receipt \<Rightarrow> destination_state list \<Rightarrow> skill_error + skill_plan) \<Rightarrow> skill_source \<Rightarrow>
     skill_result \<Rightarrow> (skill_result \<times> (skill_source \<times> skill_plan) option) io" where
  "plan_from_receipt env rc build source r1 =
     io_catch (inventory_destinations env source) (\<lambda>i. case i of
         Inl e \<Rightarrow> io_ok (add_error r1 (coerce_error VerificationFailed [] [] e), None)
       | Inr sts \<Rightarrow>
           let r2 = r1\<lparr> rs_destinations := sts \<rparr> in
           (case build rc sts of
              Inl e \<Rightarrow> io_ok (add_error r2 (coerce_error RestoreConflict [] [] e), None)
            | Inr p \<Rightarrow> io_ok (r2\<lparr> rs_plan := Some p, rs_receipt := Some rc, rs_backups := rp_backups rc \<rparr>,
                            Some (source, p))))"

definition uninstall_plan ::
  "skill_env \<Rightarrow> skill_result \<Rightarrow> (skill_result \<times> (skill_source \<times> skill_plan) option) io" where
  "uninstall_plan env r =
     io_catch latest_complete_install (\<lambda>f. case f of
         Inl e \<Rightarrow> io_ok (add_error r (coerce_error BackupFailed [] [] e), None)
       | Inr None \<Rightarrow> io_ok (add_error r \<lparr> oe_code = RestoreConflict, oe_path = [], oe_destination = [],
                         oe_message = ''no complete install receipt found'' \<rparr>, None)
       | Inr (Some rc) \<Rightarrow>
           (case receipt_plan_source rc of
              Inl e \<Rightarrow> io_ok (add_error r (coerce_error RestoreConflict [] [] e), None)
            | Inr source \<Rightarrow>
                plan_from_receipt env rc (build_uninstall_plan (sk_hash env)) source
                  (r\<lparr> rs_source := Some source \<rparr>)))"

text \<open>The preimages a receipt records, each with a backup that has been verified.\<close>

fun verify_preimages ::
  "skill_env \<Rightarrow> receipt \<Rightarrow> action_result list \<Rightarrow>
     ((destination_id \<times> destination_state) list \<times> (destination_id \<times> skill_backup) list) io" where
  "verify_preimages env rc [] = io_ok ([], [])"
| "verify_preimages env rc (a # as) =
     (let pre = ar_before a;
          rest = (\<lambda>bs. io_bind (verify_preimages env rc as)
                   (\<lambda>(ps, vs). io_ok ((ar_dest a, pre) # ps, bs @ vs))) in
      if de_kind pre = KindAbsent then rest []
      else case backup_for (rp_backups rc) (ar_dest a) of
        None \<Rightarrow>
          if ar_action a = NoOp \<and> de_kind pre = KindCorrectSymlink \<and> de_lexical pre \<noteq> [] then
            rest [(ar_dest a, \<lparr> bk_dest = ar_dest a, bk_original = de_path pre, bk_stored = [],
                     bk_kind = de_kind pre, bk_digest = de_digest pre, bk_link = de_lexical pre \<rparr>)]
          else io_err (op_error VerificationFailed (de_path pre) (id_text (ar_dest a))
            (''missing backup for receipt '' @ go_quote (rp_id rc) @ '' destination '' @ go_quote (id_text (ar_dest a))))
      | Some b \<Rightarrow>
          if bk_kind b \<noteq> de_kind pre then
            io_err (op_error VerificationFailed (de_path pre) (id_text (ar_dest a))
              (''backup kind '' @ go_quote (kind_name (bk_kind b)) @ '' does not match preimage kind '' @
               go_quote (kind_name (de_kind pre))))
          else io_bind (verify_backup env b) (\<lambda>_. rest [(ar_dest a, b)]))"

text \<open>A Go map that is written in order: the last entry of a key counts, and a missing key is the zero value.\<close>

definition zero_dest_state :: destination_state where
  "zero_dest_state = \<lparr> de_id = OtherDest [], de_path = [], de_kind = OtherKind [], de_digest = [],
     de_lexical = [], de_canonical = [] \<rparr>"

definition zero_backup :: skill_backup where
  "zero_backup = \<lparr> bk_dest = OtherDest [], bk_original = [], bk_stored = [], bk_kind = OtherKind [],
     bk_digest = [], bk_link = [] \<rparr>"

definition last_entry :: "(destination_id \<times> 'a) list \<Rightarrow> 'a \<Rightarrow> destination_id \<Rightarrow> 'a" where
  "last_entry m zero i = (case map_of (rev m) i of None \<Rightarrow> zero | Some x \<Rightarrow> x)"

type_synonym restore_data =
  "skill_source \<times> skill_plan \<times> (destination_id \<times> destination_state) list \<times> (destination_id \<times> skill_backup) list"

definition restore_plan ::
  "skill_env \<Rightarrow> string \<Rightarrow> skill_result \<Rightarrow> (skill_result \<times> restore_data option) io" where
  "restore_plan env rid r =
     io_catch (load_receipt rid) (\<lambda>f. case f of
         Inl e \<Rightarrow> io_ok (add_error r (coerce_error BackupFailed [] [] e), None)
       | Inr None \<Rightarrow> io_ok (add_error r (coerce_error RestoreConflict [] [] (plain_error ''receipt not found'')), None)
       | Inr (Some rc) \<Rightarrow>
           (case receipt_plan_source rc of
              Inl e \<Rightarrow> io_ok (add_error r (coerce_error RestoreConflict [] [] e), None)
            | Inr source \<Rightarrow>
                let r1 = r\<lparr> rs_source := Some source \<rparr> in
                io_catch (verify_preimages env rc (rp_actions rc)) (\<lambda>v. case v of
                    Inl e \<Rightarrow> io_ok (add_error r1 (coerce_error VerificationFailed [] [] e), None)
                  | Inr (pres, bs) \<Rightarrow>
                      io_bind (plan_from_receipt env rc (build_restore_plan (sk_hash env)) source r1)
                        (\<lambda>(r2, sp). io_ok (r2, map_option (\<lambda>(s, p). (s, p, pres, bs)) sp)))))"

section \<open>Acting\<close>

definition new_receipt :: "skill_env \<Rightarrow> skill_op \<Rightarrow> skill_source \<Rightarrow> skill_plan \<Rightarrow> world \<Rightarrow> receipt" where
  "new_receipt env o' source p w =
     \<lparr> rp_version = 1, rp_kind = receipt_kind, rp_id = sk_new_id env w, rp_time = sk_now env w, rp_op = o',
       rp_complete = False, rp_source = Some source, rp_plan_digest = pl_digest p, rp_actions = [],
       rp_backups = [], rp_errors = [] \<rparr>"

definition start_action :: "plan_action \<Rightarrow> action_result" where
  "start_action a =
     \<lparr> ar_dest = de_id (ac_dest a), ar_action = ac_kind a, ar_before = ac_dest a, ar_after = zero_dest_state,
       ar_complete = False, ar_rolled_back = False, ar_error = None \<rparr>"

text \<open>One action: its result, the backup it made, and the error that stops the operation.\<close>

type_synonym action_outcome = "action_result \<times> skill_backup list \<times> op_error option"

definition failed_action :: "action_result \<Rightarrow> skill_backup list \<Rightarrow> op_error \<Rightarrow> action_outcome" where
  "failed_action ar bs e = (ar\<lparr> ar_error := Some e \<rparr>, bs, Some e)"

definition kept_backup :: "skill_backup \<Rightarrow> skill_backup list" where
  "kept_backup b = (if bk_kind b = KindAbsent then [] else [b])"

definition install_with_backup ::
  "skill_env \<Rightarrow> skill_source \<Rightarrow> plan_action \<Rightarrow> skill_backup \<Rightarrow> action_outcome io" where
  "install_with_backup env source a bk =
     (let st = ac_dest a in
      io_bind (publish_symlink env st source bk) (\<lambda>(po, err).
        let ar = (start_action a)\<lparr> ar_after := po_after po, ar_rolled_back := po_rolled_back po \<rparr> in
        case err of
          Some e \<Rightarrow> io_ok (failed_action ar (kept_backup bk)
            (coerce_error VerificationFailed (de_path st) (id_text (de_id st)) e))
        | None \<Rightarrow> io_ok (ar\<lparr> ar_complete := True \<rparr>, kept_backup bk, None)))"

definition install_one :: "skill_env \<Rightarrow> string \<Rightarrow> skill_source \<Rightarrow> plan_action \<Rightarrow> action_outcome io" where
  "install_one env rid source a =
     (let st = ac_dest a; ar = start_action a in
      if ac_kind a = NoOp then io_ok (ar\<lparr> ar_after := st, ar_complete := True \<rparr>, [], None)
      else io_catch (store_backup env rid st) (\<lambda>b. case b of
          Inl e \<Rightarrow> io_ok (failed_action ar [] (coerce_error BackupFailed (de_path st) (id_text (de_id st)) e))
        | Inr bk \<Rightarrow> install_with_backup env source a bk))"

definition removal_conflict :: "destination_state \<Rightarrow> string \<Rightarrow> skill_error" where
  "removal_conflict st msg = state_error RestoreConflict st msg"

text \<open>The checks both \<open>removeReceiptedSymlink\<close> and \<open>stageReceiptedSymlink\<close> make before they touch the link.\<close>

definition check_receipted_symlink :: "destination_state \<Rightarrow> unit io" where
  "check_receipted_symlink st =
     io_bind (io_map_error (\<lambda>e. removal_conflict st (skill_error_text e)) (os_lstat (de_path st))) (\<lambda>n.
       case n of
         NLink _ \<Rightarrow>
           io_bind (os_readlink (de_path st)) (\<lambda>t.
             if path_clean t \<noteq> path_clean (de_lexical st)
             then io_err (removal_conflict st ''destination symlink target changed'') else io_ok ())
       | _ \<Rightarrow> io_err (removal_conflict st ''destination is not a symlink''))"

definition absent_state :: "destination_state \<Rightarrow> destination_state" where
  "absent_state st = dest_state (as_destination st) KindAbsent"

definition remove_receipted_symlink ::
  "destination_state \<Rightarrow> (destination_state \<times> skill_error option) io" where
  "remove_receipted_symlink st =
     io_catch (io_bind (check_receipted_symlink st) (\<lambda>_.
         io_map_error (\<lambda>e. removal_conflict st (skill_error_text e)) (os_remove (de_path st))))
       (\<lambda>r. case r of
          Inl e \<Rightarrow> io_ok (st, Some e)
        | Inr _ \<Rightarrow>
            io_catch (os_lstat (de_path st)) (\<lambda>l. case l of
                Inl e \<Rightarrow> if is_not_exist e then io_ok (absent_state st, None) else io_ok (st, Some e)
              | Inr _ \<Rightarrow> io_ok (st, Some (state_error VerificationFailed st
                            ''destination still exists after symlink removal''))))"

definition uninstall_one :: "plan_action \<Rightarrow> action_outcome io" where
  "uninstall_one a =
     (let st = ac_dest a; ar = start_action a in
      io_bind (remove_receipted_symlink st) (\<lambda>(after, err).
        case err of
          Some e \<Rightarrow> io_ok (failed_action (ar\<lparr> ar_after := after \<rparr>) []
            (coerce_error RestoreConflict (de_path st) (id_text (de_id st)) e))
        | None \<Rightarrow> io_ok (ar\<lparr> ar_after := after, ar_complete := True \<rparr>, [], None)))"

text \<open>\<open>stageReceiptedSymlink\<close>: the name the link was moved to, if it was, the state now, and an error.\<close>

definition stage_receipted_symlink ::
  "destination_state \<Rightarrow> (string \<times> destination_state \<times> skill_error option) io" where
  "stage_receipted_symlink st =
     io_catch (io_bind (check_receipted_symlink st) (\<lambda>_.
         io_bind (unique_sibling_path (de_path st)) (\<lambda>staged.
         io_bind (io_map_error (\<lambda>e. removal_conflict st (skill_error_text e)) (os_rename (de_path st) staged))
           (\<lambda>_. io_ok staged))))
       (\<lambda>r. case r of
          Inl e \<Rightarrow> io_ok ([], st, Some e)
        | Inr staged \<Rightarrow>
            io_catch (os_lstat (de_path st)) (\<lambda>l. case l of
                Inl e \<Rightarrow> if is_not_exist e then io_ok (staged, absent_state st, None)
                         else io_ok (staged, st, Some e)
              | Inr _ \<Rightarrow> io_ok (staged, st, Some (state_error VerificationFailed st
                            ''destination still exists after symlink staging''))))"

definition restore_staged_current :: "string \<Rightarrow> string \<Rightarrow> bool io" where
  "restore_staged_current staged dest =
     (if staged = [] then io_ok False
      else io_catch (os_publish staged dest) (\<lambda>r. io_ok (case r of Inl _ \<Rightarrow> False | Inr _ \<Rightarrow> True)))"

definition state_of_backup :: "skill_backup \<Rightarrow> string \<Rightarrow> destination_state" where
  "state_of_backup b dest =
     \<lparr> de_id = bk_dest b, de_path = dest, de_kind = bk_kind b, de_digest = bk_digest b,
       de_lexical = bk_link b, de_canonical = [] \<rparr>"

definition rollback_current ::
  "skill_env \<Rightarrow> skill_backup \<Rightarrow> string \<Rightarrow> bool io" where
  "rollback_current env b dest =
     io_catch (os_lstat dest) (\<lambda>r. case r of
         Inr _ \<Rightarrow> io_ok False
       | Inl e \<Rightarrow>
           if \<not> is_not_exist e then io_ok False
           else io_catch (restore_backup env b dest) (\<lambda>x. case x of
               Inl _ \<Rightarrow> io_ok False
             | Inr _ \<Rightarrow>
                 if bk_kind b = KindAbsent then path_is_absent dest
                 else io_catch (verify_restored_preimage env (state_of_backup b dest) b dest) (\<lambda>v. case v of
                     Inl _ \<Rightarrow> io_ok False | Inr (_, err) \<Rightarrow> io_ok (err = None))))"

definition inventory_best_effort ::
  "skill_env \<Rightarrow> destination_state \<Rightarrow> destination_state \<Rightarrow> skill_backup \<Rightarrow> destination_state io" where
  "inventory_best_effort env current pre b =
     io_bind (path_is_absent (de_path current)) (\<lambda>gone.
       if gone then io_ok (absent_state current)
       else io_catch (verify_restored_preimage env pre b (de_path current)) (\<lambda>v. case v of
           Inr (after, None) \<Rightarrow> io_ok after | _ \<Rightarrow> io_ok current))"

text \<open>The rollback of a restore: the link that was moved aside goes back, or the backup of the current
  state is restored when nothing had been moved.\<close>

definition undo_restore :: "skill_env \<Rightarrow> string \<Rightarrow> skill_backup \<Rightarrow> string \<Rightarrow> bool io" where
  "undo_restore env staged current_backup dest =
     io_bind (restore_staged_current staged dest) (\<lambda>back.
       if staged = [] then rollback_current env current_backup dest else io_ok back)"

definition restore_preimage ::
  "skill_env \<Rightarrow> destination_state \<Rightarrow> destination_state \<Rightarrow> skill_backup \<Rightarrow> skill_backup \<Rightarrow> string \<Rightarrow>
     (destination_state \<times> bool \<times> skill_error option) io" where
  "restore_preimage env current pre pre_backup current_backup staged =
     (let dest = de_path current in
      io_catch (restore_backup env pre_backup dest) (\<lambda>r. case r of
          Inl e \<Rightarrow>
            io_bind (undo_restore env staged current_backup dest) (\<lambda>back.
              io_bind (inventory_best_effort env current pre current_backup) (\<lambda>s. io_ok (s, back, Some e)))
        | Inr _ \<Rightarrow>
            io_bind (verify_restored_preimage env pre pre_backup dest) (\<lambda>(after, err). case err of
                Some e \<Rightarrow> io_bind (undo_restore env staged current_backup dest) (\<lambda>back. io_ok (after, back, Some e))
              | None \<Rightarrow>
                  if staged = [] then io_ok (after, False, None)
                  else io_catch (os_remove staged) (\<lambda>d. case d of
                      Inl e \<Rightarrow> io_ok (after, False, Some e) | Inr _ \<Rightarrow> io_ok (after, False, None)))))"

definition restore_destination ::
  "skill_env \<Rightarrow> plan_action \<Rightarrow> destination_state \<Rightarrow> skill_backup \<Rightarrow> skill_backup \<Rightarrow>
     (destination_state \<times> bool \<times> skill_error option) io" where
  "restore_destination env a pre pre_backup current_backup =
     (let current = ac_dest a in
      if ac_kind a = NoOp then io_ok (current, False, None)
      else io_bind (if de_kind current = KindAbsent then io_ok ([], current, None)
                    else stage_receipted_symlink current) (\<lambda>(staged, removed, err).
        case err of
          Some e \<Rightarrow> io_ok (removed, False, Some e)
        | None \<Rightarrow>
            if ac_kind a = RemoveManagedSymlink then
              (if staged = [] then io_ok (removed, False, None)
               else io_catch (os_remove staged) (\<lambda>d. case d of
                   Inl e \<Rightarrow>
                     io_bind (inventory_best_effort env current pre current_backup) (\<lambda>s.
                       io_bind (restore_staged_current staged (de_path current)) (\<lambda>back. io_ok (s, back, Some e)))
                 | Inr _ \<Rightarrow> io_ok (removed, False, None)))
            else restore_preimage env current pre pre_backup current_backup staged))"

definition restore_one ::
  "skill_env \<Rightarrow> string \<Rightarrow> (destination_id \<times> destination_state) list \<Rightarrow>
     (destination_id \<times> skill_backup) list \<Rightarrow> plan_action \<Rightarrow> action_outcome io" where
  "restore_one env rid pres bs a =
     (let current = ac_dest a; ar = start_action a; i = de_id current in
      if ac_kind a = NoOp then io_ok (ar\<lparr> ar_after := current, ar_complete := True \<rparr>, [], None)
      else io_catch (store_backup env rid current) (\<lambda>b. case b of
          Inl e \<Rightarrow> io_ok (failed_action ar [] (coerce_error BackupFailed (de_path current) (id_text i) e))
        | Inr bk \<Rightarrow>
            io_bind (restore_destination env a (last_entry pres zero_dest_state i)
                (last_entry bs zero_backup i) bk) (\<lambda>(after, back, err).
              let ar' = ar\<lparr> ar_after := after, ar_rolled_back := back \<rparr> in
              case err of
                Some e \<Rightarrow> io_ok (failed_action ar' (kept_backup bk)
                  (coerce_error VerificationFailed (de_path current) (id_text i) e))
              | None \<Rightarrow> io_ok (ar'\<lparr> ar_complete := True \<rparr>, kept_backup bk, None))))"

text \<open>The loop of an operation: it stops at the first action that fails.\<close>

fun run_actions ::
  "(plan_action \<Rightarrow> action_outcome io) \<Rightarrow> plan_action list \<Rightarrow> receipt \<Rightarrow> (receipt \<times> op_error option) io" where
  "run_actions one [] rc = io_ok (rc, None)"
| "run_actions one (a # as) rc =
     io_bind (one a) (\<lambda>(ar, bs, err).
       let rc' = rc\<lparr> rp_actions := rp_actions rc @ [ar], rp_backups := rp_backups rc @ bs \<rparr> in
       case err of
         Some e \<Rightarrow> io_ok (rc'\<lparr> rp_errors := rp_errors rc' @ [e] \<rparr>, Some e)
       | None \<Rightarrow> run_actions one as rc')"

definition finish_operation :: "skill_env \<Rightarrow> skill_result \<Rightarrow> receipt \<times> op_error option \<Rightarrow> skill_result io" where
  "finish_operation env r re =
     (let rc = (fst re)\<lparr> rp_complete := (snd re = None) \<rparr>;
          r1 = (case snd re of None \<Rightarrow> r | Some e \<Rightarrow> add_error r e) in
      io_catch (store_append env rc) (\<lambda>x.
        let (rc', r2) =
          (case x of
             Inr _ \<Rightarrow> (rc, r1)
           | Inl e \<Rightarrow>
               let oe = \<lparr> oe_code = BackupFailed, oe_path = [], oe_destination = [],
                          oe_message = ''append receipt: '' @ skill_error_text e \<rparr>
               in (rc\<lparr> rp_errors := rp_errors rc @ [oe], rp_complete := False \<rparr>, add_error r1 oe))
        in io_ok (r2\<lparr> rs_receipt := Some rc', rs_backups := rp_backups rc', rs_complete := rp_complete rc' \<rparr>)))"

definition execute_plan ::
  "skill_env \<Rightarrow> skill_result \<Rightarrow> skill_source \<Rightarrow> skill_plan \<Rightarrow> (string \<Rightarrow> plan_action \<Rightarrow> action_outcome io) \<Rightarrow>
     skill_result io" where
  "execute_plan env r source p one w =
     (let rc = new_receipt env (pl_op p) source p w; r1 = r\<lparr> rs_attempted := True \<rparr> in
      io_catch (store_reserve env (rp_id rc)) (\<lambda>x. case x of
          Inl e \<Rightarrow>
            let oe = \<lparr> oe_code = BackupFailed, oe_path = [], oe_destination = [], oe_message = skill_error_text e \<rparr>
            in io_ok ((add_error r1 oe)\<lparr> rs_receipt := Some (rc\<lparr> rp_errors := [oe] \<rparr>) \<rparr>)
        | Inr _ \<Rightarrow> io_bind (run_actions (one (rp_id rc)) (pl_actions p) rc) (finish_operation env r1)) w)"

text \<open>Nothing happens without an approval, and a different approval is refused.\<close>

definition with_approval ::
  "string \<Rightarrow> skill_source \<Rightarrow> skill_plan \<Rightarrow> skill_result \<Rightarrow> skill_result io \<Rightarrow> skill_result io" where
  "with_approval approval source p r act =
     (if approval = [] then io_ok r
      else if approval \<noteq> pl_digest p then
        io_ok (add_error r \<lparr> oe_code = PreimageDigestChanged, oe_path = so_path source, oe_destination = [],
          oe_message = ''approval digest '' @ go_quote approval @ '' does not match current plan digest '' @
            go_quote (pl_digest p) \<rparr>)
      else act)"

definition skill_install :: "skill_env \<Rightarrow> string \<Rightarrow> skill_error + skill_source \<Rightarrow> string \<Rightarrow> skill_result io" where
  "skill_install env path found approval =
     io_bind (install_plan env path found (zero_result OpInstall)) (\<lambda>(r, sp). case sp of
         None \<Rightarrow> io_ok r
       | Some (source, p) \<Rightarrow>
           with_approval approval source p r
             (execute_plan env r source p (\<lambda>rid. install_one env rid source)))"

definition skill_uninstall :: "skill_env \<Rightarrow> string \<Rightarrow> skill_result io" where
  "skill_uninstall env approval =
     io_bind (uninstall_plan env (zero_result OpUninstall)) (\<lambda>(r, sp). case sp of
         None \<Rightarrow> io_ok r
       | Some (source, p) \<Rightarrow>
           with_approval approval source p r (execute_plan env r source p (\<lambda>_. uninstall_one)))"

definition skill_restore :: "skill_env \<Rightarrow> string \<Rightarrow> string \<Rightarrow> skill_result io" where
  "skill_restore env rid approval =
     io_bind (restore_plan env rid (zero_result OpRestore)) (\<lambda>(r, sp). case sp of
         None \<Rightarrow> io_ok r
       | Some (source, p, pres, bs) \<Rightarrow>
           with_approval approval source p r
             (execute_plan env r source p (\<lambda>new. restore_one env new pres bs)))"

definition skill_status :: "skill_env \<Rightarrow> string \<Rightarrow> skill_error + skill_source \<Rightarrow> skill_result io" where
  "skill_status env path found =
     (let r = zero_result OpStatus in
      case found of
        Inl e \<Rightarrow> io_ok (add_error r (coerce_error SourceNotCanonical path [] e))
      | Inr source \<Rightarrow>
          let r1 = r\<lparr> rs_source := Some source \<rparr> in
          io_catch (inventory_destinations env source) (\<lambda>i. case i of
              Inl e \<Rightarrow> io_ok (add_error r1 (coerce_error VerificationFailed [] [] e))
            | Inr sts \<Rightarrow>
                let r2 = r1\<lparr> rs_destinations := sts, rs_complete := all_destinations_exact sts \<rparr> in
                io_catch latest_receipt (\<lambda>l. case l of
                    Inl e \<Rightarrow> io_ok (add_error r2 (coerce_error BackupFailed [] [] e))
                  | Inr None \<Rightarrow> io_ok r2
                  | Inr (Some rc) \<Rightarrow>
                      io_ok (r2\<lparr> rs_receipt := Some rc, rs_backups := rp_backups rc,
                        rs_drift := receipt_drifted rc source sts \<rparr>))))"

section \<open>The loop of an operation\<close>

lemma run_actions_split:
  "wp (one a) (\<lambda>r. case r of Inl e \<Rightarrow> Q (Inl e)
      | Inr (ar, bs, err) \<Rightarrow>
          (let rc' = rc\<lparr> rp_actions := rp_actions rc @ [ar], rp_backups := rp_backups rc @ bs \<rparr> in
           case err of
             Some e \<Rightarrow> Q (Inr (rc'\<lparr> rp_errors := rp_errors rc' @ [e] \<rparr>, Some e))
           | None \<Rightarrow> wp (run_actions one as rc') Q)) N
   \<Longrightarrow> wp (run_actions one (a # as) rc) Q N"
  unfolding run_actions.simps
  by (rule wp_bind, erule wp_mono) (auto simp: Let_def split: sum.splits option.splits intro: wp_ok)

text \<open>What holds of every action that ran, between the state in which the operation starts and the one in
  which it ends, when actions touch different nodes.\<close>

definition ran_post ::
  "('a \<Rightarrow> string set) \<Rightarrow> ('a \<Rightarrow> action_outcome \<Rightarrow> nodes \<Rightarrow> nodes \<Rightarrow> bool) \<Rightarrow> 'a list \<Rightarrow> receipt \<Rightarrow> nodes \<Rightarrow>
     skill_error + receipt \<times> op_error option \<Rightarrow> nodes \<Rightarrow> bool" where
  "ran_post F R as rc N r M =
     (\<exists>rc' e ran rest outs. r = Inr (rc', e) \<and> as = ran @ rest \<and>
        list_all2 (\<lambda>a out. R a out N M) ran outs \<and>
        rp_actions rc' = rp_actions rc @ map fst outs \<and>
        rp_backups rc' = rp_backups rc @ concat (map (fst \<circ> snd) outs) \<and>
        rp_id rc' = rp_id rc \<and>
        (e = None \<longrightarrow> rest = [] \<and> list_all (\<lambda>out. snd (snd out) = None) outs) \<and>
        (\<forall>q. (\<forall>a \<in> set as. q \<notin> F a) \<longrightarrow> M q = N q) \<and>
        (\<forall>a \<in> set rest. \<forall>q \<in> F a. M q = N q))"

definition step_ok ::
  "('a \<Rightarrow> string set) \<Rightarrow> ('a \<Rightarrow> action_outcome \<Rightarrow> nodes \<Rightarrow> nodes \<Rightarrow> bool) \<Rightarrow> ('a \<Rightarrow> action_outcome io) \<Rightarrow> 'a \<Rightarrow> bool" where
  "step_ok F R one a =
     ((\<forall>N. wp (one a) (\<lambda>r M. (\<exists>out. r = Inr out \<and> R a out N M) \<and> (\<forall>q. q \<notin> F a \<longrightarrow> M q = N q)) N) \<and>
      (\<forall>out N M N' M'. R a out N M \<longrightarrow> (\<forall>q \<in> F a. N' q = N q) \<longrightarrow> (\<forall>q \<in> F a. M' q = M q) \<longrightarrow> R a out N' M'))"

lemma step_ok_stable:
  "step_ok F R one a \<Longrightarrow> R a out N M \<Longrightarrow> \<forall>q \<in> F a. N' q = N q \<Longrightarrow> \<forall>q \<in> F a. M' q = M q \<Longrightarrow> R a out N' M'"
  unfolding step_ok_def by blast

lemma wp_run_actions:
  assumes "\<forall>a \<in> set as. step_ok F R one a" "sorted_wrt (\<lambda>a b. F a \<inter> F b = {}) as"
  shows "wp (run_actions one as rc) (ran_post F R as rc N) N"
  using assms
proof (induction as arbitrary: rc N)
  case Nil
  show ?case by (auto simp: ran_post_def intro!: wp_ok)
next
  case (Cons a as)
  have dis: "F a \<inter> F b = {}" if "b \<in> set as" for b using Cons.prems(2) that by simp
  have stable: "R a out N' M'" if "R a out N M" "\<forall>q \<in> F a. N' q = N q" "\<forall>q \<in> F a. M' q = M q" for out N M N' M'
    by (rule step_ok_stable[of F R one a out N M]) (use Cons.prems(1) that in simp_all)
  have step: "wp (one a) (\<lambda>r M. (\<exists>out. r = Inr out \<and> R a out N M) \<and> (\<forall>q. q \<notin> F a \<longrightarrow> M q = N q)) N"
    using Cons.prems(1) by (simp add: step_ok_def)
  show ?case
  proof (rule run_actions_split, rule wp_mono[OF step], clarify)
    fix M1 ar bs err assume R: "R a (ar, bs, err) N M1" and fr: "\<forall>q. q \<notin> F a \<longrightarrow> M1 q = N q"
    let ?rc = "rc\<lparr> rp_actions := rp_actions rc @ [ar], rp_backups := rp_backups rc @ bs \<rparr>"
    have stop: "ran_post F R (a # as) rc N (Inr (?rc\<lparr> rp_errors := rp_errors ?rc @ [e] \<rparr>, Some e)) M1" for e
      unfolding ran_post_def
      by (rule exI[of _ "?rc\<lparr> rp_errors := rp_errors ?rc @ [e] \<rparr>"], rule exI[of _ "Some e"],
          rule exI[of _ "[a]"], rule exI[of _ as], rule exI[of _ "[(ar, bs, err)]"])
        (use R fr dis in auto)
    have go: "ran_post F R (a # as) rc N r M" if "ran_post F R as ?rc M1 r M" "err = None" for r M
    proof -
      obtain rc' e ran rest outs where p: "r = Inr (rc', e)" "as = ran @ rest"
        "list_all2 (\<lambda>a out. R a out M1 M) ran outs"
        "rp_actions rc' = rp_actions ?rc @ map fst outs"
        "rp_backups rc' = rp_backups ?rc @ concat (map (fst \<circ> snd) outs)" "rp_id rc' = rp_id ?rc"
        "e = None \<longrightarrow> rest = [] \<and> list_all (\<lambda>out. snd (snd out) = None) outs"
        "\<forall>q. (\<forall>a \<in> set as. q \<notin> F a) \<longrightarrow> M q = M1 q" "\<forall>a \<in> set rest. \<forall>q \<in> F a. M q = M1 q"
        using \<open>ran_post F R as ?rc M1 r M\<close> unfolding ran_post_def by blast
      have "\<forall>q \<in> F a. M q = M1 q" using p(8) dis by blast
      then have Ra: "R a (ar, bs, err) N M" using stable[OF R] by simp
      have out: "\<forall>q \<in> F b. M1 q = N q" if "b \<in> set as" for b using fr dis[OF that] by blast
      have later: "list_all2 (\<lambda>a out. R a out N M) ran outs"
      proof (rule list.rel_mono_strong[OF p(3)])
        fix b o' assume "b \<in> set ran" "o' \<in> set outs" "R b o' M1 M"
        moreover from this have "b \<in> set as" using p(2) by simp
        ultimately show "R b o' N M"
          using step_ok_stable[of F R one b o' M1 M N M] Cons.prems(1) out[of b] by simp
      qed
      show ?thesis unfolding ran_post_def
      proof (rule exI[of _ rc'], rule exI[of _ e], rule exI[of _ "a # ran"], rule exI[of _ rest],
          rule exI[of _ "(ar, bs, err) # outs"], intro conjI)
        show "\<forall>b \<in> set rest. \<forall>q \<in> F b. M q = N q" using p(2,9) out by auto
        show "\<forall>q. (\<forall>b \<in> set (a # as). q \<notin> F b) \<longrightarrow> M q = N q" using p(8) fr by simp
      qed (use p Ra later \<open>err = None\<close> in auto)
    qed
    have "wp (run_actions one as ?rc) (ran_post F R (a # as) rc N) M1" if "err = None"
      by (rule wp_mono[OF Cons.IH]) (use Cons.prems go that in auto)
    then show "(case Inr (ar, bs, err) of Inl e \<Rightarrow> ran_post F R (a # as) rc N (Inl e)
      | Inr (ar, bs, err) \<Rightarrow>
          (let rc' = rc\<lparr> rp_actions := rp_actions rc @ [ar], rp_backups := rp_backups rc @ bs \<rparr> in
           case err of
             Some e \<Rightarrow> ran_post F R (a # as) rc N (Inr (rc'\<lparr> rp_errors := rp_errors rc' @ [e] \<rparr>, Some e))
           | None \<Rightarrow> wp (run_actions one as rc') (ran_post F R (a # as) rc N))) M1"
      using stop by (cases err) (simp_all add: Let_def)
  qed
qed

section \<open>One action\<close>

definition touched :: "string \<Rightarrow> string set" where
  "touched p = insert (path_clean p) (stage_names p)"

definition footprint :: "skill_env \<Rightarrow> string \<Rightarrow> plan_action \<Rightarrow> string set" where
  "footprint env rid a =
     insert (path_clean (backup_path env rid (de_id (ac_dest a)))) (touched (de_path (ac_dest a)))"

text \<open>The node at a destination is still there, or a backup of the receipt holds it.\<close>

definition kept :: "(string \<Rightarrow> string) \<Rightarrow> nodes \<Rightarrow> nodes \<Rightarrow> skill_backup list \<Rightarrow> destination_id \<Rightarrow> string \<Rightarrow> bool" where
  "kept sha N M bs i p =
     (\<forall>n. N p = Some n \<longrightarrow> M p = Some n \<or> (\<exists>b \<in> set bs. bk_dest b = i \<and> backup_holds sha M b (Some n)))"

definition action_post ::
  "skill_env \<Rightarrow> string \<Rightarrow> (nodes \<Rightarrow> nodes \<Rightarrow> plan_action \<Rightarrow> destination_state \<Rightarrow> bool) \<Rightarrow> plan_action \<Rightarrow>
     action_outcome \<Rightarrow> nodes \<Rightarrow> nodes \<Rightarrow> bool" where
  "action_post env rid achieved a out N M =
     (case out of (ar, bs, err) \<Rightarrow>
        let st = ac_dest a; p = path_clean (de_path st) in
        ar_dest ar = de_id st \<and> ar_before ar = st \<and> ar_action ar = ac_kind a \<and>
        (err = None \<longleftrightarrow> ar_complete ar) \<and> (err = None \<longleftrightarrow> ar_error ar = None) \<and>
        (\<forall>b \<in> set bs. bk_dest b = de_id st \<and> bk_kind b = de_kind st \<and>
           (bk_kind b = KindDirectory \<longrightarrow> bk_stored b = backup_path env rid (de_id st))) \<and>
        kept (sk_sha env) N M bs (de_id st) p \<and>
        (err = None \<longrightarrow> achieved N M a (ar_after ar)))"

lemma backup_holds_stable:
  assumes "backup_holds sha M b n" "bk_kind b = KindDirectory \<longrightarrow> M' (path_clean (bk_stored b)) = M (path_clean (bk_stored b))"
  shows "backup_holds sha M' b n"
  using assms by (cases n; cases "the n") (auto simp: backup_holds_def)

lemma action_post_stable:
  assumes R: "action_post env rid achieved a out N M" and N: "\<forall>q \<in> footprint env rid a. N' q = N q"
    and M: "\<forall>q \<in> footprint env rid a. M' q = M q"
    and ach: "\<And>after. achieved N M a after \<Longrightarrow> achieved N' M' a after"
  shows "action_post env rid achieved a out N' M'"
proof -
  obtain ar bs err where out: "out = (ar, bs, err)" by (cases out) auto
  let ?i = "de_id (ac_dest a)" and ?p = "path_clean (de_path (ac_dest a))"
  have p: "N' ?p = N ?p" "M' ?p = M ?p" using N M by (simp_all add: footprint_def touched_def)
  have slot: "M' (path_clean (backup_path env rid ?i)) = M (path_clean (backup_path env rid ?i))"
    using M by (simp add: footprint_def)
  have bs: "\<forall>b \<in> set bs. bk_kind b = KindDirectory \<longrightarrow> bk_stored b = backup_path env rid ?i"
    using R by (auto simp: action_post_def out Let_def)
  have "kept (sk_sha env) N M bs ?i ?p" using R by (simp add: action_post_def out Let_def)
  moreover have "backup_holds (sk_sha env) M' b n" if "b \<in> set bs" "backup_holds (sk_sha env) M b n" for b n
    by (rule backup_holds_stable[OF that(2)]) (use bs that(1) slot in auto)
  ultimately have "kept (sk_sha env) N' M' bs ?i ?p" using p by (fastforce simp: kept_def)
  then show ?thesis using R ach by (auto simp: action_post_def out Let_def)
qed

lemma preimage_known_of_backup:
  assumes "backup_post env rid st N (Inr b) M"
  shows "preimage_known (sk_sha env) st b (N (path_clean (de_path st)))"
proof -
  have b: "bk_kind b = de_kind st" "backup_holds (sk_sha env) M b (N (path_clean (de_path st)))"
    "de_digest st = [] \<or> de_kind st \<noteq> KindDirectory \<or> bk_digest b = de_digest st"
    using assms by (simp_all add: backup_post_def)
  then show ?thesis
    by (auto simp: preimage_known_def backup_holds_def wanted_digest_def split: option.splits fs_node.splits)
qed

text \<open>An installed link, or the destination as it was when there is nothing to do.\<close>

definition installed :: "skill_source \<Rightarrow> nodes \<Rightarrow> nodes \<Rightarrow> plan_action \<Rightarrow> destination_state \<Rightarrow> bool" where
  "installed source N M a after =
     (let p = path_clean (de_path (ac_dest a)) in
      if ac_kind a = NoOp then M p = N p \<and> after = ac_dest a
      else M p = Some (NLink (so_path source)) \<and> de_kind after = KindCorrectSymlink \<and>
           de_id after = de_id (ac_dest a) \<and> de_path after = de_path (ac_dest a))"

lemma start_action_simps [simp]:
  "ar_dest (start_action a) = de_id (ac_dest a)" "ar_before (start_action a) = ac_dest a"
  "ar_action (start_action a) = ac_kind a" "ar_error (start_action a) = None" "\<not> ar_complete (start_action a)"
  by (simp_all add: start_action_def)

lemma kept_refl: "M p = N p \<Longrightarrow> kept sha N M bs i p"
  by (simp add: kept_def)

lemma kept_by_backup:
  assumes "backup_post env rid st N (Inr b) M" "N p = N (path_clean (de_path st))"
    "bk_kind b = KindDirectory \<longrightarrow> M' (path_clean (bk_stored b)) = M (path_clean (bk_stored b))"
  shows "kept (sk_sha env) N M' (kept_backup b) (de_id st) p"
proof -
  have b: "bk_dest b = de_id st" "backup_holds (sk_sha env) M b (N p)"
    using assms(1,2) by (simp_all add: backup_post_def)
  have "bk_kind b \<noteq> KindAbsent" if "N p = Some n" for n
    using b(2) that by (cases n) (auto simp: backup_holds_def)
  moreover have "backup_holds (sk_sha env) M' b (N p)" using backup_holds_stable[OF b(2)] assms(3) by blast
  ultimately show ?thesis using b(1) by (auto simp: kept_def kept_backup_def)
qed

lemma install_step_ok:
  assumes apart: "path_clean (de_path (ac_dest a)) \<notin> stage_names (de_path (ac_dest a))"
    and slot: "path_clean (backup_path env rid (de_id (ac_dest a))) \<notin> touched (de_path (ac_dest a))"
  shows "step_ok (footprint env rid) (action_post env rid (installed source)) (install_one env rid source) a"
  unfolding step_ok_def
proof (intro conjI allI impI)
  fix out N M N' M' assume R: "action_post env rid (installed source) a out N M"
    "\<forall>q \<in> footprint env rid a. N' q = N q" "\<forall>q \<in> footprint env rid a. M' q = M q"
  then show "action_post env rid (installed source) a out N' M'"
    by (rule action_post_stable) (use R(2,3) in \<open>auto simp: installed_def footprint_def touched_def Let_def split: if_splits\<close>)
next
  fix N
  let ?st = "ac_dest a" and ?p = "path_clean (de_path (ac_dest a))"
  let ?R = "action_post env rid (installed source) a"
  let ?Q = "\<lambda>r M. (\<exists>out. r = Inr out \<and> ?R out N M) \<and> (\<forall>q. q \<notin> footprint env rid a \<longrightarrow> M q = N q)"
  have noop: "?Q (Inr ((start_action a)\<lparr> ar_after := ?st, ar_complete := True \<rparr>, [], None)) N" if "ac_kind a = NoOp"
    using that by (auto simp: action_post_def Let_def installed_def intro: kept_refl)
  have fail: "?Q (Inr (failed_action (start_action a) [] e)) M" if "backup_post env rid ?st N (Inl e') M" for e e' M
  proof -
    have "\<forall>q. q \<noteq> path_clean (backup_path env rid (de_id ?st)) \<longrightarrow> M q = N q" using that by (simp add: backup_post_def)
    moreover from this have "M ?p = N ?p" using slot by (auto simp: touched_def)
    ultimately show ?thesis by (auto simp: action_post_def failed_action_def Let_def footprint_def intro: kept_refl)
  qed
  have pub: "wp (install_with_backup env source a b) ?Q M"
    if k: "ac_kind a \<noteq> NoOp" and b: "backup_post env rid ?st N (Inr b) M" for b M
  proof -
    have fr: "\<forall>q. q \<noteq> path_clean (backup_path env rid (de_id ?st)) \<longrightarrow> M q = N q"
      using b by (simp add: backup_post_def)
    have p: "M ?p = N ?p" using fr slot by (auto simp: touched_def)
    have kn: "preimage_known (sk_sha env) ?st b (M ?p)" using preimage_known_of_backup[OF b] p by simp
    have bs: "\<forall>c \<in> set (kept_backup b). bk_dest c = de_id ?st \<and> bk_kind c = de_kind ?st \<and>
        (bk_kind c = KindDirectory \<longrightarrow> bk_stored c = backup_path env rid (de_id ?st))"
      using b by (auto simp: backup_post_def kept_backup_def)
    have kept: "kept (sk_sha env) N M' (kept_backup b) (de_id ?st) ?p"
      if "publish_post (sk_sha env) M ?st source r M'" for r M'
    proof (rule kept_by_backup[OF b refl], intro impI)
      assume "bk_kind b = KindDirectory"
      then have "bk_stored b = backup_path env rid (de_id ?st)" using b by (simp add: backup_post_def)
      then show "M' (path_clean (bk_stored b)) = M (path_clean (bk_stored b))"
        using that slot by (auto simp: publish_post_def touched_def)
    qed
    have frame: "\<forall>q. q \<notin> footprint env rid a \<longrightarrow> M' q = N q" if "publish_post (sk_sha env) M ?st source r M'" for r M'
      using that fr by (auto simp: publish_post_def footprint_def touched_def)
    show ?thesis unfolding install_with_backup_def Let_def
    proof (rule wp_bind, rule wp_mono, rule wp_publish_symlink[where N = M, OF apart kn])
      fix r M' assume r: "publish_post (sk_sha env) M ?st source r M'"
      then obtain po err where po: "r = Inr (po, err)" by (cases r) (auto simp: publish_post_def)
      show "(case r of Inl e \<Rightarrow> ?Q (Inl e)
        | Inr x \<Rightarrow> wp (case x of (po, err) \<Rightarrow> case err of
            None \<Rightarrow> io_ok ((start_action a)\<lparr> ar_after := po_after po, ar_rolled_back := po_rolled_back po,
                ar_complete := True \<rparr>, kept_backup b, None)
          | Some e \<Rightarrow> io_ok (failed_action
              ((start_action a)\<lparr> ar_after := po_after po, ar_rolled_back := po_rolled_back po \<rparr>) (kept_backup b)
              (coerce_error VerificationFailed (de_path ?st) (id_text (de_id ?st)) e))) ?Q) M'"
        using po kept[OF r] frame[OF r] bs r k
        by (cases err) (auto simp: Let_def action_post_def failed_action_def installed_def publish_post_def intro!: wp_ok)
    qed
  qed
  show "wp (install_one env rid source a) ?Q N"
  proof (cases "ac_kind a = NoOp")
    case True
    then show ?thesis using noop by (simp add: install_one_def Let_def wp_ok)
  next
    case False
    show ?thesis unfolding install_one_def Let_def if_not_P[OF False]
    proof (rule wp_catch, rule wp_mono, rule wp_store_backup)
      fix r M assume r: "backup_post env rid ?st N r M"
      show "wp (case r of
          Inl e \<Rightarrow> io_ok (failed_action (start_action a) [] (coerce_error BackupFailed (de_path ?st) (id_text (de_id ?st)) e))
        | Inr bk \<Rightarrow> install_with_backup env source a bk) ?Q M"
      proof (cases r)
        case (Inl e)
        then show ?thesis using fail r by (simp only: sum.case) (rule wp_ok, blast)
      next
        case (Inr b)
        then show ?thesis using pub[OF False] r by simp
      qed
    qed
  qed
qed

end
