(* ===== verification/Skill_Layout.thy ===== *)
theory Skill_Layout
  imports Skill_Operations Component_Paths
begin

text \<open>
  A configured service, \<open>New\<close> of \<open>internal/skilldist/service.go\<close>: where its destinations, the names beside
  them and its store lie, and what the operations therefore promise as a whole.
\<close>

section \<open>The service\<close>

record skill_options =
  op_home :: string
  op_state :: string

text \<open>The home directory and \<open>XDG_STATE_HOME\<close> of the user are parameters.\<close>

definition default_state_dir :: "string \<Rightarrow> string \<Rightarrow> string" where
  "default_state_dir xdg home =
     (if xdg \<noteq> [] then path_clean xdg else path_join home (path_join ''.local'' ''state''))"

definition no_directory :: "string \<Rightarrow> bool" where
  "no_directory p = (p = ''.'' \<or> p = ''/'' \<or> p = [])"

definition new_service ::
  "string + string \<Rightarrow> string \<Rightarrow> (string \<Rightarrow> string) \<Rightarrow> (plan_key \<Rightarrow> string) \<Rightarrow> (world \<Rightarrow> string) \<Rightarrow>
     (world \<Rightarrow> string) \<Rightarrow> skill_options \<Rightarrow> string + skill_env" where
  "new_service user_home xdg sha hash new_id now opts =
     (case (if op_home opts = [] then user_home else Inr (op_home opts)) of
        Inl e \<Rightarrow> Inl (''resolve home directory: '' @ e)
      | Inr h \<Rightarrow>
          let home = path_clean h;
              state = (if op_state opts = [] then default_state_dir xdg home else path_clean (op_state opts)) in
          if no_directory home then Inl ''home directory is required''
          else if no_directory state then Inl ''state directory is required''
          else Inr \<lparr> sk_sha = sha, sk_hash = hash, sk_root = new_store_root state,
                     sk_destinations = supported_destinations home, sk_new_id = new_id, sk_now = now \<rparr>)"

text \<open>A service in an absolute home and an absolute state directory.\<close>

definition placed :: "skill_env \<Rightarrow> string list \<Rightarrow> string list \<Rightarrow> bool" where
  "placed env hs ss =
     (list_all plain_name hs \<and> list_all plain_name ss \<and> sk_root env = new_store_root (abs_path ss) \<and>
      sk_destinations env = supported_destinations (abs_path hs))"

section \<open>Where things lie\<close>

lemma path_join_names:
  "list_all plain_name cs \<Longrightarrow> list_all plain_name ds \<Longrightarrow>
     path_join (abs_path cs) (join_with ''/'' ds) = abs_path (cs @ ds)"
proof -
  assume n: "list_all plain_name cs" "list_all plain_name ds"
  have "path_comps (abs_path cs @ slash # join_with ''/'' ds) = cs @ ds"
    using path_comps_join[OF plain_comps_names[OF n(2)]]
    by (simp add: path_comps_append path_comps_abs_path[OF n(1)])
  moreover have "is_abs (abs_path cs @ slash # join_with ''/'' ds)" by (simp add: abs_path_def is_abs_def)
  ultimately have "path_clean (abs_path cs @ slash # join_with ''/'' ds) = abs_path (cs @ ds)"
    using path_clean_comps[of "abs_path cs @ slash # join_with ''/'' ds"] n by simp
  then show ?thesis by (simp add: path_join_def abs_path_def)
qed

lemma path_base_abs_path:
  assumes "plain_name n" shows "path_base (abs_path (cs @ [n])) = n"
proof -
  obtain d where d: "abs_path (cs @ [n]) = d @ slash # n" using abs_path_snoc_eq by blast
  have n: "slash \<notin> set n" "n \<noteq> []" using assms by (auto simp: plain_name_def)
  have "trim_right_chars [slash] (d @ slash # n) = d @ slash # n"
    using n by (cases n rule: rev_cases) (auto simp: trim_right_chars_def)
  then show ?thesis using file_part_slash[OF n(1)] by (simp add: path_base_def d)
qed

definition stage_file :: "string \<Rightarrow> nat \<Rightarrow> nat \<Rightarrow> string" where
  "stage_file m pid n = ''.'' @ m @ ''.rootline-stage.'' @ nat_digits pid @ ''.'' @ nat_digits n"

lemma digits_no_slash [simp]: "slash \<notin> set (nat_digits n)"
  using nat_digits_is_digit[of n] by (auto simp: is_digit_def)

lemma plain_stage_file [simp]: "plain_name m \<Longrightarrow> plain_name (stage_file m a b)"
  by (auto simp: plain_name_def stage_file_def)

lemma stage_file_other [simp]: "stage_file m a b \<noteq> m" "m \<noteq> stage_file m a b"
proof -
  have "length (stage_file m a b) \<noteq> length m" by (simp add: stage_file_def)
  then show "stage_file m a b \<noteq> m" "m \<noteq> stage_file m a b" by metis+
qed

lemma stage_names_abs_path:
  assumes "list_all plain_name cs" "plain_name m"
  shows "stage_names (abs_path (cs @ [m])) = {abs_path (cs @ [stage_file m pid n]) | pid n. True}"
proof -
  have "path_clean (stage_name (abs_path (cs @ [m])) pid n) = abs_path (cs @ [stage_file m pid n])" for pid n
    unfolding stage_name_def path_dir_abs_path[OF assms] path_base_abs_path[OF assms(2)] stage_file_def[symmetric]
    using path_join_abs_path[OF assms(1) plain_stage_file[OF assms(2)]] assms by (simp add: path_clean_abs_path)
  then show ?thesis by (simp add: stage_names_def)
qed

lemma touched_abs_path:
  assumes "list_all plain_name cs" "plain_name m" "q \<in> touched (abs_path (cs @ [m]))"
  shows "\<exists>x. plain_name x \<and> q = abs_path (cs @ [x])"
proof -
  have "q = abs_path (cs @ [m]) \<or> (\<exists>pid n. q = abs_path (cs @ [stage_file m pid n]))"
    using assms by (auto simp: touched_def stage_names_abs_path path_clean_abs_path)
  then show ?thesis using plain_stage_file[OF assms(2)] assms(2) by metis
qed

lemma apart_abs_path:
  assumes "list_all plain_name cs" "plain_name m"
  shows "path_clean (abs_path (cs @ [m])) \<notin> stage_names (abs_path (cs @ [m]))"
  using assms by (auto simp: stage_names_abs_path path_clean_abs_path abs_path_inj)

lemma new_store_root_names:
  "list_all plain_name ss \<Longrightarrow> new_store_root (abs_path ss) = abs_path (ss @ [''rootline'', ''skill''])"
proof -
  assume ss: "list_all plain_name ss"
  have "path_join ''rootline'' ''skill'' = join_with ''/'' [''rootline'', ''skill'']"
    by (simp add: path_join_def) code_simp
  then show ?thesis
    using path_join_names[OF ss, of "[''rootline'', ''skill'']"] by (simp add: new_store_root_def plain_name_def)
qed

lemma valid_child_name: "validate_child_name n l = None \<Longrightarrow> plain_name n"
  by (auto simp: validate_child_name_def plain_name_def split: if_splits)

text \<open>Where the destinations and the backups of a placed service lie.\<close>

definition home_dir_of :: "destination_id \<Rightarrow> string" where
  "home_dir_of i = (if i = DestClaude then ''.claude'' else ''.agents'')"

lemma plain_home_dir [simp]: "plain_name (home_dir_of i)" "plain_name ''skills''" "plain_name ''rootline''"
  "plain_name ''skill''" "plain_name ''backups''"
  by (simp_all add: plain_name_def home_dir_of_def)

lemma placed_destination:
  assumes "placed env hs ss" "d \<in> set (sk_destinations env)"
  shows "ds_path d = abs_path (hs @ [home_dir_of (ds_id d), ''skills'', ''rootline''])"
    "ds_id d \<in> {DestClaude, DestAgents}"
proof -
  have c: "path_join ''.claude'' (path_join ''skills'' ''rootline'') = join_with ''/'' [''.claude'', ''skills'', ''rootline'']"
    and a: "path_join ''.agents'' (path_join ''skills'' ''rootline'') = join_with ''/'' [''.agents'', ''skills'', ''rootline'']"
    by code_simp+
  have hs: "list_all plain_name hs" using assms(1) by (simp add: placed_def)
  have n: "list_all plain_name [''.claude'', ''skills'', ''rootline'']" "list_all plain_name [''.agents'', ''skills'', ''rootline'']"
    by (simp_all add: plain_name_def)
  have "ds_id d = DestClaude \<and> ds_path d = abs_path (hs @ [''.claude'', ''skills'', ''rootline'']) \<or>
        ds_id d = DestAgents \<and> ds_path d = abs_path (hs @ [''.agents'', ''skills'', ''rootline''])"
    using assms path_join_names[OF hs n(1)] path_join_names[OF hs n(2)]
    unfolding placed_def supported_destinations_def c a by (elim conjE) force
  then show "ds_path d = abs_path (hs @ [home_dir_of (ds_id d), ''skills'', ''rootline''])"
    by (elim disjE) (simp_all add: home_dir_of_def)
  show "ds_id d \<in> {DestClaude, DestAgents}"
    using assms by (auto simp: placed_def supported_destinations_def)
qed

lemma receipt_dir_names:
  assumes "placed env hs ss" "plain_name rid"
  shows "receipt_backup_dir env rid = abs_path (ss @ [''rootline'', ''skill'', ''backups'', rid])"
  using assms path_join_abs_path[of "ss @ [''rootline'', ''skill'']" "''backups''"]
    path_join_abs_path[of "ss @ [''rootline'', ''skill'', ''backups'']" rid]
  by (simp add: placed_def receipt_backup_dir_def backups_root_def new_store_root_names)

lemma backup_path_names:
  assumes "placed env hs ss" "plain_name rid" "plain_name (id_text i)"
  shows "backup_path env rid i = abs_path (ss @ [''rootline'', ''skill'', ''backups'', rid, id_text i])"
  using assms path_join_abs_path[of "ss @ [''rootline'', ''skill'', ''backups'', rid]" "id_text i"]
  by (simp add: backup_path_def receipt_dir_names) (simp add: placed_def)

definition destined :: "skill_env \<Rightarrow> destination_id \<Rightarrow> string \<Rightarrow> bool" where
  "destined env i p = (\<lparr> ds_id = i, ds_path = p \<rparr> \<in> set (sk_destinations env))"

lemma destined_iff: "destined env i p \<longleftrightarrow> (\<exists>d \<in> set (sk_destinations env). ds_id d = i \<and> ds_path d = p)"
proof
  assume "destined env i p"
  then show "\<exists>d \<in> set (sk_destinations env). ds_id d = i \<and> ds_path d = p"
    unfolding destined_def by (intro bexI[of _ "\<lparr> ds_id = i, ds_path = p \<rparr>"]) simp_all
next
  assume "\<exists>d \<in> set (sk_destinations env). ds_id d = i \<and> ds_path d = p"
  then obtain d where d: "d \<in> set (sk_destinations env)" "ds_id d = i" "ds_path d = p" by blast
  then have "d = \<lparr> ds_id = i, ds_path = p \<rparr>" by simp
  with d(1) show "destined env i p" by (simp add: destined_def)
qed

lemma destined_names:
  assumes "placed env hs ss" "destined env i p"
  shows "p = abs_path ((hs @ [home_dir_of i, ''skills'']) @ [''rootline''])" "i \<in> {DestClaude, DestAgents}"
    "list_all plain_name (hs @ [home_dir_of i, ''skills''])" "plain_name (id_text i)"
proof -
  show "p = abs_path ((hs @ [home_dir_of i, ''skills'']) @ [''rootline''])" "i \<in> {DestClaude, DestAgents}"
    using placed_destination[OF assms(1), of "\<lparr> ds_id = i, ds_path = p \<rparr>"] assms(2) by (simp_all add: destined_def)
  then show "plain_name (id_text i)" by (auto simp: id_text_def plain_name_def)
  show "list_all plain_name (hs @ [home_dir_of i, ''skills''])" using assms(1) by (simp add: placed_def)
qed

lemma destined_apart:
  assumes "placed env hs ss" "destined env i p" shows "path_clean p \<notin> stage_names p"
  unfolding destined_names(1)[OF assms] by (rule apart_abs_path[OF destined_names(3)[OF assms]]) simp

lemma destined_touched:
  assumes "placed env hs ss" "destined env i p" "q \<in> touched p"
  shows "\<exists>x. plain_name x \<and> q = abs_path (hs @ [home_dir_of i, ''skills'', x])"
  using destined_names[OF assms(1,2)] touched_abs_path[of "hs @ [home_dir_of i, ''skills'']" "''rootline''" q] assms(3)
  by auto

lemma destined_disjoint:
  assumes "placed env hs ss" "destined env i p" "destined env j q" "i \<noteq> j"
  shows "touched p \<inter> touched q = {}"
proof -
  have "home_dir_of i \<noteq> home_dir_of j"
    using destined_names(2)[OF assms(1,2)] destined_names(2)[OF assms(1,3)] assms(4) by (auto simp: home_dir_of_def)
  have hs: "list_all plain_name hs" using assms(1) by (simp add: placed_def)
  have False if x: "x \<in> touched p" "x \<in> touched q" for x
  proof -
    obtain y z where "plain_name y" "plain_name z" "x = abs_path (hs @ [home_dir_of i, ''skills'', y])"
      "x = abs_path (hs @ [home_dir_of j, ''skills'', z])"
      using destined_touched[OF assms(1,2) x(1)] destined_touched[OF assms(1,3) x(2)] by blast
    then show False using abs_path_inj hs \<open>home_dir_of i \<noteq> home_dir_of j\<close> by simp
  qed
  then show ?thesis by blast
qed

lemma store_not_touched:
  assumes "placed env hs ss" "destined env i p" "plain_name rid"
  shows "path_clean (receipt_backup_dir env rid) \<notin> touched p"
    "plain_name (id_text j) \<Longrightarrow> path_clean (backup_path env rid j) \<notin> touched p"
proof -
  have n: "list_all plain_name hs" "list_all plain_name ss" using assms(1) by (simp_all add: placed_def)
  note t = destined_touched[OF assms(1,2)]
  have d: "receipt_backup_dir env rid = abs_path (ss @ [''rootline'', ''skill'', ''backups'', rid])"
    by (rule receipt_dir_names[OF assms(1,3)])
  have c: "path_clean (receipt_backup_dir env rid) = receipt_backup_dir env rid"
    unfolding d using n assms(3) by (simp add: path_clean_abs_path)
  show "path_clean (receipt_backup_dir env rid) \<notin> touched p"
  proof
    assume "path_clean (receipt_backup_dir env rid) \<in> touched p"
    then obtain x where x: "plain_name x" "receipt_backup_dir env rid = abs_path (hs @ [home_dir_of i, ''skills'', x])"
      using t c by auto
    have "ss @ [''rootline'', ''skill'', ''backups'', rid] = hs @ [home_dir_of i, ''skills'', x]"
      using abs_path_inj n x assms(3) d by simp
    then have "rev (ss @ [''rootline'', ''skill'', ''backups'', rid]) = rev (hs @ [home_dir_of i, ''skills'', x])" by simp
    then show False by simp
  qed
  assume j: "plain_name (id_text j)"
  have b: "backup_path env rid j = abs_path (ss @ [''rootline'', ''skill'', ''backups'', rid, id_text j])"
    by (rule backup_path_names[OF assms(1,3) j])
  have cb: "path_clean (backup_path env rid j) = backup_path env rid j"
    unfolding b using n assms(3) j by (simp add: path_clean_abs_path)
  show "path_clean (backup_path env rid j) \<notin> touched p"
  proof
    assume "path_clean (backup_path env rid j) \<in> touched p"
    then obtain x where x: "plain_name x" "backup_path env rid j = abs_path (hs @ [home_dir_of i, ''skills'', x])"
      using t cb by auto
    have "ss @ [''rootline'', ''skill'', ''backups'', rid, id_text j] = hs @ [home_dir_of i, ''skills'', x]"
      using abs_path_inj n x assms(3) b j by simp
    then have "rev (ss @ [''rootline'', ''skill'', ''backups'', rid, id_text j]) = rev (hs @ [home_dir_of i, ''skills'', x])"
      by (rule arg_cong)
    then have "''backups'' = home_dir_of i" by (simp only: rev_append rev.simps append.simps list.inject)
    then show False by (auto simp: home_dir_of_def split: if_splits)
  qed
qed

lemma backup_slots_apart:
  assumes "placed env hs ss" "plain_name rid" "plain_name (id_text i)" "plain_name (id_text j)"
  shows "path_clean (backup_path env rid i) = path_clean (backup_path env rid j) \<longleftrightarrow> id_text i = id_text j"
proof -
  have ss: "list_all plain_name ss" using assms(1) by (simp add: placed_def)
  show ?thesis unfolding backup_path_names[OF assms(1,2,3)] backup_path_names[OF assms(1,2,4)]
    using ss assms(2-4) by (simp add: path_clean_abs_path abs_path_inj)
qed

lemma id_text_inj: "i \<in> {DestClaude, DestAgents} \<Longrightarrow> j \<in> {DestClaude, DestAgents} \<Longrightarrow> id_text i = id_text j \<longleftrightarrow> i = j"
  by (auto simp: id_text_def)

section \<open>Plans over the destinations\<close>

definition for_destinations :: "skill_env \<Rightarrow> plan_action list \<Rightarrow> bool" where
  "for_destinations env as =
     (map (\<lambda>a. (de_id (ac_dest a), de_path (ac_dest a))) as = map (\<lambda>d. (ds_id d, ds_path d)) (sk_destinations env))"

lemma for_destinations_destined:
  "for_destinations env as \<Longrightarrow> a \<in> set as \<Longrightarrow> destined env (de_id (ac_dest a)) (de_path (ac_dest a))"
proof -
  assume f: "for_destinations env as" "a \<in> set as"
  then have "(de_id (ac_dest a), de_path (ac_dest a)) \<in> set (map (\<lambda>d. (ds_id d, ds_path d)) (sk_destinations env))"
    unfolding for_destinations_def by (metis (mono_tags, lifting) image_eqI list.set_map)
  then show ?thesis by (auto simp: destined_iff)
qed

lemma for_destinations_disjoint:
  assumes "placed env hs ss" "for_destinations env as" "plain_name rid"
  shows "sorted_wrt (\<lambda>a b. footprint env rid a \<inter> footprint env rid b = {}) as"
proof -
  have two: "\<exists>a b. as = [a, b] \<and> de_id (ac_dest a) = DestClaude \<and> de_id (ac_dest b) = DestAgents"
    using assms(1,2) by (auto simp: for_destinations_def placed_def supported_destinations_def)
  then obtain a b where ab: "as = [a, b]" "de_id (ac_dest a) = DestClaude" "de_id (ac_dest b) = DestAgents" by blast
  have a: "destined env DestClaude (de_path (ac_dest a))" and b: "destined env DestAgents (de_path (ac_dest b))"
    using for_destinations_destined[OF assms(2), of a] for_destinations_destined[OF assms(2), of b] ab by simp_all
  note na = destined_names(4)[OF assms(1) a] and nb = destined_names(4)[OF assms(1) b]
  have "path_clean (backup_path env rid DestClaude) \<noteq> path_clean (backup_path env rid DestAgents)"
    using backup_slots_apart[OF assms(1,3) na nb] by (simp add: id_text_def)
  then show ?thesis
    using destined_disjoint[OF assms(1) a b] store_not_touched(2)[OF assms(1) a assms(3) nb]
      store_not_touched(2)[OF assms(1) b assms(3) na]
    by (auto simp: ab footprint_def)
qed

section \<open>Planning changes nothing\<close>

lemma wp_io_map_list:
  assumes "\<forall>d \<in> set ds. wp (f d) (\<lambda>r M. M = N \<and> (case r of Inl _ \<Rightarrow> True | Inr s \<Rightarrow> P d s)) N"
    and "\<And>e. Q (Inl e) N" "\<And>ss. list_all2 P ds ss \<Longrightarrow> Q (Inr ss) N"
  shows "wp (io_map_list f ds) Q N"
  using assms
proof (induction ds arbitrary: Q)
  case Nil
  then show ?case by (auto intro!: wp_ok)
next
  case (Cons d ds)
  have rest: "wp (io_bind (io_map_list f ds) (\<lambda>ys. io_ok (y # ys))) Q N" if "P d y" for y
    by (rule wp_bind, rule Cons.IH) (use Cons.prems that in \<open>auto intro!: wp_ok\<close>)
  have "wp (f d) (\<lambda>r M. M = N \<and> (case r of Inl _ \<Rightarrow> True | Inr s \<Rightarrow> P d s)) N" using Cons.prems(1) by simp
  then show ?case unfolding io_map_list.simps
    by (rule wp_bind[OF wp_mono]) (use Cons.prems(2) rest in \<open>auto split: sum.splits\<close>)
qed

lemma wp_inventory_destinations:
  assumes "\<And>e. Q (Inl e) N"
    "\<And>sts. list_all2 (\<lambda>d s. inventory_ok env d source N s) (sk_destinations env) sts \<Longrightarrow> Q (Inr sts) N"
  shows "wp (inventory_destinations env source) Q N"
proof -
  have "wp (inventory_destination env d source canon)
      (\<lambda>r M. M = N \<and> (case r of Inl _ \<Rightarrow> True | Inr s \<Rightarrow> inventory_ok env d source N s)) N" for d canon
    by (rule wp_inventory) auto
  then have "wp (io_map_list (\<lambda>d. inventory_destination env d source canon) (sk_destinations env)) Q N" for canon
    by (intro wp_io_map_list) (use assms in auto)
  then show ?thesis unfolding inventory_destinations_def using assms(1) by (auto intro!: wp_bind wp_eval)
qed

lemma wp_scan_receipts:
  assumes "\<And>r. Q r N" shows "wp (scan_receipts) Q N"
  unfolding scan_receipts_def using assms by (intro wp_sys_call) auto

lemma wp_latest_complete:
  assumes "\<And>r. Q r N" shows "wp latest_complete_install Q N"
  unfolding latest_complete_install_def using assms
  by (intro wp_bind wp_scan_receipts) (auto split: sum.splits intro!: wp_ok)

lemma wp_load_receipt:
  assumes "\<And>r. Q r N" shows "wp (load_receipt rid) Q N"
  unfolding load_receipt_def using assms
  by (intro wp_bind wp_scan_receipts) (auto split: sum.splits intro!: wp_ok)

definition unplanned :: "skill_result \<Rightarrow> bool" where
  "unplanned r = (\<not> rs_attempted r \<and> \<not> rs_complete r \<and> rs_backups r = [])"

lemma zero_result_simps [simp]:
  "unplanned (zero_result o')" "\<not> rs_attempted (zero_result o')" "\<not> rs_complete (zero_result o')"
  "rs_backups (zero_result o') = []"
  by (simp_all add: zero_result_def unplanned_def)

lemma add_error_simps [simp]:
  "rs_attempted (add_error r e) = rs_attempted r" "rs_complete (add_error r e) = rs_complete r"
  "rs_backups (add_error r e) = rs_backups r" "rs_source (add_error r e) = rs_source r"
  "rs_plan (add_error r e) = rs_plan r" "rs_destinations (add_error r e) = rs_destinations r"
  "rs_receipt (add_error r e) = rs_receipt r" "unplanned (add_error r e) = unplanned r"
  by (simp_all add: add_error_def unplanned_def)

definition planned ::
  "skill_env \<Rightarrow> nodes \<Rightarrow> skill_result \<Rightarrow> skill_source \<Rightarrow> skill_plan \<Rightarrow> destination_state list \<Rightarrow> bool" where
  "planned env N r source p sts =
     (\<not> rs_attempted r \<and> \<not> rs_complete r \<and> rs_source r = Some source \<and> rs_plan r = Some p \<and> rs_destinations r = sts \<and>
      list_all2 (\<lambda>d s. inventory_ok env d source N s) (sk_destinations env) sts)"

lemma wp_install_plan:
  assumes "\<And>r. unplanned r \<Longrightarrow> Q (Inr (r, None)) N"
    "\<And>r source p sts. planned env N r source p sts \<Longrightarrow> found = Inr source \<Longrightarrow> rs_backups r = [] \<Longrightarrow>
       build_install_plan (sk_hash env) source sts = Inr p \<Longrightarrow> Q (Inr (r, Some (source, p))) N"
  shows "wp (install_plan env path found (zero_result OpInstall)) Q N"
proof (cases found)
  case (Inl e)
  then show ?thesis using assms(1) by (simp add: install_plan_def) (auto intro!: wp_ok)
next
  case (Inr source)
  have pl: "wp (case build_install_plan (sk_hash env) source sts of
        Inl e \<Rightarrow> io_ok (add_error ((zero_result OpInstall)\<lparr> rs_source := Some source, rs_destinations := sts \<rparr>)
          (coerce_error UnsupportedFileType [] [] e), None)
      | Inr p \<Rightarrow> io_ok ((zero_result OpInstall)\<lparr> rs_source := Some source, rs_destinations := sts, rs_plan := Some p \<rparr>,
          Some (source, p))) Q N"
    if "list_all2 (\<lambda>d s. inventory_ok env d source N s) (sk_destinations env) sts" for sts
    using that assms Inr by (auto simp: unplanned_def planned_def intro!: wp_ok split: sum.splits)
  have un: "unplanned (add_error ((zero_result OpInstall)\<lparr> rs_source := Some source \<rparr>) e)" for e
    by (simp add: unplanned_def)
  show ?thesis unfolding install_plan_def Inr sum.case Let_def
    by (rule wp_catch, rule wp_inventory_destinations) (use pl assms(1)[OF un] in \<open>auto intro!: wp_ok\<close>)
qed

section \<open>Executing a plan\<close>

lemma wp_store_reserve:
  assumes "\<And>e. Q (Inl e) N"
    "plain_name rid \<Longrightarrow> N (path_clean (receipt_backup_dir env rid)) = None \<Longrightarrow>
       Q (Inr ()) (N(path_clean (receipt_backup_dir env rid) := Some (NDir 448 [])))"
  shows "wp (store_reserve env rid) Q N"
proof -
  have "wp (os_mkdir (receipt_backup_dir env rid)) Q N" if "validate_child_name rid l = None" for l
    by (rule wp_mkdir) (use assms valid_child_name[OF that] in auto)
  then show ?thesis unfolding store_reserve_def using assms(1)
    by (auto intro!: wp_bind wp_check_name wp_mkdir_all)
qed

text \<open>What executing a plan leaves: nothing done at all, or the directory of the receipt and the actions that
  ran, as \<^const>\<open>ran_post\<close> states it.\<close>

definition reserved :: "skill_env \<Rightarrow> string \<Rightarrow> nodes \<Rightarrow> nodes" where
  "reserved env rid N = N(path_clean (receipt_backup_dir env rid) := Some (NDir 448 []))"

definition exec_post ::
  "skill_env \<Rightarrow> (string \<Rightarrow> plan_action \<Rightarrow> string set) \<Rightarrow>
     (string \<Rightarrow> plan_action \<Rightarrow> action_outcome \<Rightarrow> nodes \<Rightarrow> nodes \<Rightarrow> bool) \<Rightarrow> skill_result \<Rightarrow> skill_plan \<Rightarrow> nodes \<Rightarrow>
     skill_error + skill_result \<Rightarrow> nodes \<Rightarrow> bool" where
  "exec_post env F R r p N res M =
     (\<exists>r'. res = Inr r' \<and> rs_attempted r' \<and> rs_source r' = rs_source r \<and> rs_plan r' = rs_plan r \<and>
        rs_destinations r' = rs_destinations r \<and>
        (M = N \<and> \<not> rs_complete r' \<or>
         (\<exists>rid rc0 rc e rc'. plain_name rid \<and> N (path_clean (receipt_backup_dir env rid)) = None \<and>
            rp_actions rc0 = [] \<and> rp_backups rc0 = [] \<and>
            ran_post (F rid) (R rid) (pl_actions p) rc0 (reserved env rid N) (Inr (rc, e)) M \<and>
            rs_backups r' = rp_backups rc \<and> (rs_complete r' \<longrightarrow> e = None) \<and> rs_receipt r' = Some rc' \<and>
            rp_actions rc' = rp_actions rc)))"

lemma wp_store_append:
  assumes "\<And>r. Q r N" shows "wp (store_append env rc) Q N"
proof -
  have ok: "wp (sys_call (\<lambda>w. (Inr (), w))) P N" if "\<And>r. P r N" for P :: "skill_error + unit \<Rightarrow> nodes \<Rightarrow> bool"
    using that by (intro wp_sys_call) auto
  have wr: "wp (write_line rc) P N" if "\<And>r. P r N" for P
    using that by (auto simp: wp_def write_line_def next_fault_def split: prod.splits fault.splits list.splits)
  have "wp (io_catch (sys_call (\<lambda>w. (Inr (), w))) (\<lambda>sync.
      case res of Inl e \<Rightarrow> io_err e | Inr _ \<Rightarrow> (case sync of Inl e \<Rightarrow> io_err e | Inr _ \<Rightarrow> io_ok ()))) Q N"
    for res :: "skill_error + unit"
    by (rule wp_catch, rule ok) (auto split: sum.splits intro!: assms wp_ok wp_err)
  then show ?thesis unfolding store_append_def
    by (auto intro!: wp_err wp_bind wp_load_receipt wp_mkdir_all wp_catch ok wr assms wp_ok split: sum.splits)
qed

lemma wp_finish_operation:
  assumes "\<And>r' rc. rs_attempted r' = rs_attempted r \<Longrightarrow> rs_source r' = rs_source r \<Longrightarrow> rs_plan r' = rs_plan r \<Longrightarrow>
      rs_destinations r' = rs_destinations r \<Longrightarrow> rs_backups r' = rp_backups (fst re) \<Longrightarrow>
      (rs_complete r' \<longrightarrow> snd re = None) \<Longrightarrow> rs_receipt r' = Some rc \<Longrightarrow> rp_actions rc = rp_actions (fst re) \<Longrightarrow>
      Q (Inr r') N"
  shows "wp (finish_operation env r re) Q N"
  unfolding finish_operation_def Let_def
  by (rule wp_catch, rule wp_store_append) (auto split: sum.splits option.splits intro!: wp_ok assms)

lemma wp_execute_plan:
  assumes "\<not> rs_complete r"
    and "\<And>rid a. plain_name rid \<Longrightarrow> a \<in> set (pl_actions p) \<Longrightarrow> step_ok (F rid) (R rid) (one rid) a"
    and "\<And>rid. plain_name rid \<Longrightarrow> sorted_wrt (\<lambda>a b. F rid a \<inter> F rid b = {}) (pl_actions p)"
  shows "wp (execute_plan env r source p one) (exec_post env F R r p N) N"
  unfolding wp_def
proof (intro allI impI)
  fix w :: world assume w: "w_node w = N"
  let ?rc = "new_receipt env (pl_op p) source p w"
  let ?r = "r\<lparr> rs_attempted := True \<rparr>"
  let ?Q = "exec_post env F R r p N"
  let ?body = "\<lambda>x. case x of
      Inl e \<Rightarrow>
        let oe = \<lparr> oe_code = BackupFailed, oe_path = [], oe_destination = [], oe_message = skill_error_text e \<rparr>
        in io_ok ((add_error ?r oe)\<lparr> rs_receipt := Some (?rc\<lparr> rp_errors := [oe] \<rparr>) \<rparr>)
    | Inr _ \<Rightarrow> io_bind (run_actions (one (rp_id ?rc)) (pl_actions p) ?rc) (finish_operation env ?r)"
  have none: "?Q (Inr ((add_error ?r oe)\<lparr> rs_receipt := Some x \<rparr>)) N" for oe x
    using assms(1) by (simp add: exec_post_def)
  have run: "wp (io_bind (run_actions (one (rp_id ?rc)) (pl_actions p) ?rc) (finish_operation env ?r)) ?Q
      (reserved env (rp_id ?rc) N)"
    if id: "plain_name (rp_id ?rc)" and free: "N (path_clean (receipt_backup_dir env (rp_id ?rc))) = None"
  proof (rule wp_bind, rule wp_mono, rule wp_run_actions[where F = "F (rp_id ?rc)" and R = "R (rp_id ?rc)"])
    fix res M assume ran: "ran_post (F (rp_id ?rc)) (R (rp_id ?rc)) (pl_actions p) ?rc (reserved env (rp_id ?rc) N) res M"
    then obtain rc e where res: "res = Inr (rc, e)" by (auto simp: ran_post_def)
    have zero: "rp_actions ?rc = []" "rp_backups ?rc = []" by (simp_all add: new_receipt_def)
    have "?Q (Inr r') M" if "rs_attempted r'" "rs_source r' = rs_source r" "rs_plan r' = rs_plan r"
      "rs_destinations r' = rs_destinations r" "rs_backups r' = rp_backups rc" "rs_complete r' \<longrightarrow> e = None"
      "rs_receipt r' = Some rc'" "rp_actions rc' = rp_actions rc" for r' rc'
      using that ran id free zero unfolding exec_post_def res by blast
    then have "wp (finish_operation env ?r (rc, e)) ?Q M" by (intro wp_finish_operation) auto
    then show "(case res of Inl e \<Rightarrow> ?Q (Inl e) | Inr x \<Rightarrow> wp (finish_operation env ?r x) ?Q) M"
      by (simp add: res)
  next
    show "\<forall>a \<in> set (pl_actions p). step_ok (F (rp_id ?rc)) (R (rp_id ?rc)) (one (rp_id ?rc)) a"
      using assms(2)[OF id] by blast
  next
    show "sorted_wrt (\<lambda>a b. F (rp_id ?rc) a \<inter> F (rp_id ?rc) b = {}) (pl_actions p)" by (rule assms(3)[OF id])
  qed
  have "wp (io_catch (store_reserve env (rp_id ?rc)) ?body) ?Q N"
    by (rule wp_catch, rule wp_store_reserve)
      (use none run in \<open>auto simp: Let_def reserved_def intro!: wp_ok\<close>)
  then show "case execute_plan env r source p one w of (res, w') \<Rightarrow> ?Q res (w_node w')"
    using w unfolding execute_plan_def Let_def wp_def by simp
qed

section \<open>What every operation keeps\<close>

text \<open>The nodes an operation with this receipt may change: the destinations, the names beside them and the
  slots of its backups.\<close>

definition may_change :: "skill_env \<Rightarrow> string \<Rightarrow> string set" where
  "may_change env rid =
     insert (path_clean (receipt_backup_dir env rid))
       (\<Union>d \<in> set (sk_destinations env). insert (path_clean (backup_path env rid (ds_id d))) (touched (ds_path d)))"

lemma footprint_may_change:
  "destined env (de_id (ac_dest a)) (de_path (ac_dest a)) \<Longrightarrow> footprint env rid a \<subseteq> may_change env rid"
proof -
  assume "destined env (de_id (ac_dest a)) (de_path (ac_dest a))"
  then obtain d where d: "d \<in> set (sk_destinations env)" "ds_id d = de_id (ac_dest a)" "ds_path d = de_path (ac_dest a)"
    by (auto simp: destined_iff)
  have "footprint env rid a = insert (path_clean (backup_path env rid (ds_id d))) (touched (ds_path d))"
    using d by (simp add: footprint_def)
  then show ?thesis unfolding may_change_def using d(1) by blast
qed

lemma list_all2_left: "list_all2 P xs ys \<Longrightarrow> x \<in> set xs \<Longrightarrow> \<exists>y \<in> set ys. P x y"
  by (induction rule: list_all2_induct) auto

lemma for_destinations_action:
  assumes "for_destinations env as" "d \<in> set (sk_destinations env)"
  shows "\<exists>a \<in> set as. de_id (ac_dest a) = ds_id d \<and> de_path (ac_dest a) = ds_path d"
proof -
  have "(ds_id d, ds_path d) \<in> set (map (\<lambda>a. (de_id (ac_dest a), de_path (ac_dest a))) as)"
    using assms unfolding for_destinations_def by (metis (mono_tags, lifting) image_eqI list.set_map)
  then show ?thesis by auto
qed

lemma exec_frame:
  assumes "for_destinations env (pl_actions p)" "exec_post env (footprint env) R r p N (Inr r') M"
  shows "\<exists>rid. \<forall>q. q \<notin> may_change env rid \<longrightarrow> M q = N q"
proof (cases "M = N")
  case False
  then obtain rid rc0 rc e where
    "ran_post (footprint env rid) (R rid) (pl_actions p) rc0 (reserved env rid N) (Inr (rc, e)) M"
    using assms(2) by (auto simp: exec_post_def)
  then have fr: "\<forall>q. (\<forall>a \<in> set (pl_actions p). q \<notin> footprint env rid a) \<longrightarrow> M q = reserved env rid N q"
    by (auto simp: ran_post_def)
  have "M q = N q" if "q \<notin> may_change env rid" for q
  proof -
    have "q \<notin> footprint env rid a" if "a \<in> set (pl_actions p)" for a
      using footprint_may_change[OF for_destinations_destined[OF assms(1) that]] \<open>q \<notin> may_change env rid\<close> by blast
    then show ?thesis using fr that by (simp add: reserved_def may_change_def)
  qed
  then show ?thesis by blast
qed simp

lemma reserved_destined:
  assumes "placed env hs ss" "destined env i p" "plain_name rid"
  shows "reserved env rid N (path_clean p) = N (path_clean p)"
  using store_not_touched(1)[OF assms] by (auto simp: reserved_def touched_def)

lemma kept_mono: "kept sha N M bs i p \<Longrightarrow> set bs \<subseteq> set cs \<Longrightarrow> kept sha N M cs i p"
  by (fastforce simp: kept_def)

lemma exec_kept:
  assumes "placed env hs ss" "for_destinations env (pl_actions p)" "d \<in> set (sk_destinations env)"
    "exec_post env (footprint env) (\<lambda>rid. action_post env rid ach) r p N (Inr r') M"
  shows "kept (sk_sha env) N M (rs_backups r') (ds_id d) (path_clean (ds_path d))"
proof (cases "M = N")
  case False
  then obtain rid rc0 rc e where rid: "plain_name rid" and bs: "rs_backups r' = rp_backups rc" "rp_backups rc0 = []"
    and ran: "ran_post (footprint env rid) (action_post env rid ach) (pl_actions p) rc0 (reserved env rid N) (Inr (rc, e)) M"
    using assms(4) by (auto simp: exec_post_def)
  obtain ran rest outs where as: "pl_actions p = ran @ rest"
    "list_all2 (\<lambda>a out. action_post env rid ach a out (reserved env rid N) M) ran outs"
    "rp_backups rc = rp_backups rc0 @ concat (map (fst \<circ> snd) outs)"
    "\<forall>a \<in> set rest. \<forall>q \<in> footprint env rid a. M q = reserved env rid N q"
    using ran unfolding ran_post_def by blast
  obtain a where a: "a \<in> set (pl_actions p)" "de_id (ac_dest a) = ds_id d" "de_path (ac_dest a) = ds_path d"
    using for_destinations_action[OF assms(2,3)] by blast
  have N: "reserved env rid N (path_clean (ds_path d)) = N (path_clean (ds_path d))"
    by (rule reserved_destined[OF assms(1) _ rid, of "ds_id d"]) (use assms(3) in \<open>auto simp: destined_iff\<close>)
  show ?thesis
  proof (cases "a \<in> set rest")
    case True
    moreover have "path_clean (ds_path d) \<in> footprint env rid a" using a by (simp add: footprint_def touched_def)
    ultimately have "M (path_clean (ds_path d)) = N (path_clean (ds_path d))" using as(4) N by metis
    then show ?thesis by (rule kept_refl)
  next
    case False
    then have "a \<in> set ran" using a(1) as(1) by simp
    then obtain out where out: "out \<in> set outs" "action_post env rid ach a out (reserved env rid N) M"
      using list_all2_left[OF as(2)] by blast
    obtain ar bs e where o': "out = (ar, bs, e)" by (cases out) auto
    have "kept (sk_sha env) (reserved env rid N) M bs (ds_id d) (path_clean (ds_path d))"
      using out(2) a by (simp add: action_post_def o' Let_def)
    then have "kept (sk_sha env) N M bs (ds_id d) (path_clean (ds_path d))" by (simp add: kept_def N)
    then show ?thesis
      by (rule kept_mono) (use out(1) o' as(3) \<open>rs_backups r' = rp_backups rc\<close> in force)
  qed
qed (simp add: kept_refl)

lemma exec_achieved:
  assumes "exec_post env (footprint env) (\<lambda>rid. action_post env rid ach) r p N (Inr r') M" "rs_complete r'"
    "a \<in> set (pl_actions p)"
  shows "\<exists>rid after. plain_name rid \<and> ach (reserved env rid N) M a after"
proof -
  obtain rid rc0 rc e where rid: "plain_name rid" and e: "rs_complete r' \<longrightarrow> e = None"
    and ran: "ran_post (footprint env rid) (action_post env rid ach) (pl_actions p) rc0 (reserved env rid N) (Inr (rc, e)) M"
    using assms(1,2) unfolding exec_post_def by blast
  obtain ran rest outs where as: "pl_actions p = ran @ rest"
    "list_all2 (\<lambda>a out. action_post env rid ach a out (reserved env rid N) M) ran outs"
    "e = None \<longrightarrow> rest = [] \<and> list_all (\<lambda>out. snd (snd out) = None) outs"
    using ran unfolding ran_post_def by blast
  have "a \<in> set ran" using as e assms(2,3) by simp
  then obtain out where out: "out \<in> set outs" "action_post env rid ach a out (reserved env rid N) M"
    using list_all2_left[OF as(2)] by blast
  have "snd (snd out) = None" using as(3) e assms(2) out(1) by (simp add: list_all_iff)
  then show ?thesis using out(2) rid by (cases out) (auto simp: action_post_def Let_def)
qed

end
