(* ===== verification/Skill_Promises.thy ===== *)
theory Skill_Promises
  imports Skill_Layout
begin

text \<open>
  What the operations of the skill service promise, over every schedule of faults of the system: an install
  never loses what a destination held, an operation without the approval of its plan changes nothing, an
  uninstall removes only the links it can account for, a restore brings the recorded state back.
\<close>

section \<open>Install\<close>

lemma install_for_destinations:
  assumes "build_install_plan hash source sts = Inr p"
    "list_all2 (\<lambda>d s. inventory_ok env d source N s) (sk_destinations env) sts"
  shows "for_destinations env (pl_actions p)"
proof -
  have "map (\<lambda>d. (ds_id d, ds_path d)) ds = map (\<lambda>s. (de_id s, de_path s)) ss"
    if "list_all2 (\<lambda>d s. inventory_ok env d source N s) ds ss" for ds ss
    using that by induction auto
  then have "map (\<lambda>d. (ds_id d, ds_path d)) (sk_destinations env) = map (\<lambda>s. (de_id s, de_path s)) sts"
    using assms(2) by blast
  also have "\<dots> = map (\<lambda>a. (de_id (ac_dest a), de_path (ac_dest a))) (pl_actions p)"
    unfolding build_install_planD(3)[OF assms(1), symmetric] by simp
  finally show ?thesis by (simp add: for_destinations_def)
qed

definition install_post ::
  "skill_env \<Rightarrow> skill_error + skill_source \<Rightarrow> string \<Rightarrow> nodes \<Rightarrow> skill_error + skill_result \<Rightarrow> nodes \<Rightarrow> bool" where
  "install_post env found approval N res M =
     (\<exists>r'. res = Inr r' \<and>
        (\<not> rs_attempted r' \<and> \<not> rs_complete r' \<and> M = N \<or>
         (\<exists>r source p sts. found = Inr source \<and> planned env N r source p sts \<and>
            build_install_plan (sk_hash env) source sts = Inr p \<and> approval = pl_digest p \<and> approval \<noteq> [] \<and>
            exec_post env (footprint env) (\<lambda>rid. action_post env rid (installed source)) r p N (Inr r') M)))"

lemma wp_skill_install:
  assumes placed: "placed env hs ss"
  shows "wp (skill_install env path found approval) (install_post env found approval N) N"
  unfolding skill_install_def
proof (rule wp_bind, rule wp_install_plan)
  fix r assume "unplanned r"
  then show "(case Inr (r, None) of Inl e \<Rightarrow> install_post env found approval N (Inl e)
    | Inr x \<Rightarrow> wp (case x of (r, None) \<Rightarrow> io_ok r
        | (r, Some (source, p)) \<Rightarrow> with_approval approval source p r
            (execute_plan env r source p (\<lambda>rid. install_one env rid source))) (install_post env found approval N)) N"
    by (auto simp: unplanned_def install_post_def intro!: wp_ok)
next
  fix r source p sts
  assume pl: "planned env N r source p sts" "found = Inr source" "rs_backups r = []"
    "build_install_plan (sk_hash env) source sts = Inr p"
  have for_ds: "for_destinations env (pl_actions p)"
    by (rule install_for_destinations[OF pl(4), of env N]) (use pl(1) in \<open>simp add: planned_def\<close>)
  have step: "step_ok (footprint env rid) (action_post env rid (installed source)) (install_one env rid source) a"
    if "plain_name rid" "a \<in> set (pl_actions p)" for rid a
    by (rule install_step_ok)
      (use destined_apart[OF placed] store_not_touched(2)[OF placed _ that(1)] destined_names(4)[OF placed]
         for_destinations_destined[OF for_ds that(2)] in blast)+
  have "wp (execute_plan env r source p (\<lambda>rid. install_one env rid source))
      (exec_post env (footprint env) (\<lambda>rid. action_post env rid (installed source)) r p N) N"
    by (rule wp_execute_plan) (use pl(1) step for_destinations_disjoint[OF placed for_ds] in \<open>auto simp: planned_def\<close>)
  then have "wp (execute_plan env r source p (\<lambda>rid. install_one env rid source)) (install_post env found approval N) N"
    if "approval = pl_digest p" "approval \<noteq> []"
  proof (rule wp_mono)
    fix res M assume "exec_post env (footprint env) (\<lambda>rid. action_post env rid (installed source)) r p N res M"
    moreover from this obtain r' where "res = Inr r'" by (auto simp: exec_post_def)
    ultimately show "install_post env found approval N res M" using pl that unfolding install_post_def by blast
  qed
  then show "(case Inr (r, Some (source, p)) of Inl e \<Rightarrow> install_post env found approval N (Inl e)
    | Inr x \<Rightarrow> wp (case x of (r, None) \<Rightarrow> io_ok r
        | (r, Some (source, p)) \<Rightarrow> with_approval approval source p r
            (execute_plan env r source p (\<lambda>rid. install_one env rid source))) (install_post env found approval N)) N"
    using pl(1) by (auto simp: with_approval_def install_post_def planned_def intro!: wp_ok)
qed

section \<open>An example\<close>

text \<open>A service over a small world: the claude destination is a directory, the other one is absent.\<close>

definition sample_env :: skill_env where
  "sample_env =
     \<lparr> sk_sha = (\<lambda>s. s), sk_hash = (\<lambda>k. ''plan''), sk_root = new_store_root (abs_path [''s'']),
       sk_destinations = supported_destinations (abs_path [''h'']), sk_new_id = (\<lambda>w. ''r'' @ nat_digits (Suc (length (w_receipts w)))), sk_now = (\<lambda>w. ''now'') \<rparr>"

definition skill_tree :: file_tree where
  "skill_tree = [(''SKILL.md'', TFile 420 ''x'')]"

definition sample_world :: world where
  "sample_world =
     \<lparr> w_node = [''/src'' \<mapsto> NDir 493 skill_tree, ''/h/.claude/skills/rootline'' \<mapsto> NDir 493 skill_tree],
       w_receipts = [], w_faults = [], w_clock = 0, w_pid = 1, w_dirsize = (\<lambda>_. 0) \<rparr>"

definition src_source :: skill_source where
  "src_source = sample_source\<lparr> so_path := ''/src'', so_digest := ''sha256:8:SKILL.md4:file:0644:1x'' \<rparr>"

lemma placed_sample: "placed sample_env [''h''] [''s'']"
  by (simp add: placed_def sample_env_def plain_name_def)

definition sample_run :: "(skill_error + skill_result) \<times> world" where
  "sample_run = skill_install sample_env [] (Inr src_source) ''plan'' sample_world"

lemma sample_run_complete: "case fst sample_run of Inr r \<Rightarrow> rs_complete r | Inl _ \<Rightarrow> False"
  unfolding sample_run_def by code_simp

lemma sample_runE:
  obtains r w' where "skill_install sample_env [] (Inr src_source) ''plan'' sample_world = (Inr r, w')" "rs_complete r"
  using sample_run_complete by (cases sample_run) (auto simp: sample_run_def split: sum.splits)

section \<open>The promises of an install\<close>

text \<open>C7: An install never loses what a destination held. Whatever calls of the system fail, for each
  destination the node that was there before is still there afterwards, or the result lists a backup for
  this destination that holds it: a stored tree with the same digest, or the same link target. Outside the
  destinations, the staging names beside them and the slots of the receipt nothing changes.\<close>

theorem install_keeps_what_was_there:
  assumes "placed env hs ss" "skill_install env path found approval w = (res, w')"
  shows "\<exists>r rid. res = Inr r \<and>
    (\<forall>d. d \<in> set (sk_destinations env) \<longrightarrow>
       kept (sk_sha env) (w_node w) (w_node w') (rs_backups r) (ds_id d) (path_clean (ds_path d))) \<and>
    (\<forall>q. q \<notin> may_change env rid \<longrightarrow> w_node w' q = w_node w q)"
proof -
  have post: "install_post env found approval (w_node w) res (w_node w')"
    using wpD[OF wp_skill_install[OF assms(1)] assms(2)] .
  then obtain r where r: "res = Inr r" by (auto simp: install_post_def)
  show ?thesis
  proof (cases "w_node w' = w_node w")
    case True
    then show ?thesis using r by (auto intro: kept_refl)
  next
    case False
    then obtain r0 source p sts where pl: "planned env (w_node w) r0 source p sts"
      "build_install_plan (sk_hash env) source sts = Inr p"
      and ex: "exec_post env (footprint env) (\<lambda>rid. action_post env rid (installed source)) r0 p (w_node w) (Inr r) (w_node w')"
      using post r by (auto simp: install_post_def)
    have for_ds: "for_destinations env (pl_actions p)"
      by (rule install_for_destinations[OF pl(2), of env "w_node w"]) (use pl(1) in \<open>simp add: planned_def\<close>)
    show ?thesis using exec_kept[OF assms(1) for_ds _ ex] exec_frame[OF for_ds ex] r by blast
  qed
qed

theorem install_keeps_what_was_there_witness:
  "\<exists>r. fst sample_run = Inr r \<and>
     kept (sk_sha sample_env) (w_node sample_world) (w_node (snd sample_run)) (rs_backups r) DestClaude
       ''/h/.claude/skills/rootline''"
proof -
  have d: "\<lparr> ds_id = DestClaude, ds_path = ''/h/.claude/skills/rootline'' \<rparr> \<in> set (sk_destinations sample_env)"
    by code_simp
  have c: "path_clean ''/h/.claude/skills/rootline'' = ''/h/.claude/skills/rootline''" by code_simp
  show ?thesis
    using install_keeps_what_was_there[OF placed_sample, of "[]" "Inr src_source" "''plan''" sample_world
      "fst sample_run" "snd sample_run"] d c by (fastforce simp: sample_run_def)
qed

text \<open>When an install reports that it is complete, it was approved with the digest of its plan and every
  destination is a symbolic link to the source.\<close>

theorem complete_install_links_destinations:
  assumes "placed env hs ss" "skill_install env path found approval w = (Inr r, w')" "rs_complete r"
    "d \<in> set (sk_destinations env)"
  shows "\<exists>source p t. found = Inr source \<and> rs_plan r = Some p \<and> approval = pl_digest p \<and>
    w_node w' (path_clean (ds_path d)) = Some (NLink t) \<and> path_clean t = path_clean (so_path source)"
proof -
  let ?N = "w_node w" and ?M = "w_node w'" and ?p = "path_clean (ds_path d)"
  obtain r0 source p sts where pl: "planned env ?N r0 source p sts" "found = Inr source"
    "build_install_plan (sk_hash env) source sts = Inr p" "approval = pl_digest p"
    and ex: "exec_post env (footprint env) (\<lambda>rid. action_post env rid (installed source)) r0 p ?N (Inr r) ?M"
    using wpD[OF wp_skill_install[OF assms(1)] assms(2)] assms(3) by (auto simp: install_post_def)
  have for_ds: "for_destinations env (pl_actions p)"
    by (rule install_for_destinations[OF pl(3), of env "?N"]) (use pl(1) in \<open>simp add: planned_def\<close>)
  obtain a where a: "a \<in> set (pl_actions p)" "de_id (ac_dest a) = ds_id d" "de_path (ac_dest a) = ds_path d"
    using for_destinations_action[OF for_ds assms(4)] by blast
  obtain rid after where rid: "plain_name rid" and ach: "installed source (reserved env rid ?N) ?M a after"
    using exec_achieved[OF ex assms(3) a(1)] by blast
  have plan: "rs_plan r = Some p" using ex pl(1) by (auto simp: exec_post_def planned_def)
  have "\<exists>t. ?M ?p = Some (NLink t) \<and> path_clean t = path_clean (so_path source)"
  proof (cases "ac_kind a = NoOp")
    case True
    then have "?M ?p = reserved env rid ?N ?p" using ach a by (simp add: installed_def Let_def)
    also have "\<dots> = ?N ?p"
      by (rule reserved_destined[OF assms(1) _ rid, of "ds_id d"]) (use assms(4) in \<open>auto simp: destined_iff\<close>)
    finally have M: "?M ?p = ?N ?p" .
    have "ac_dest a \<in> set sts" using a(1) build_install_planD(3)[OF pl(3)] by (metis image_eqI list.set_map)
    then have "observes (sk_sha env) source ?N (ac_dest a)"
      using pl(1) by (auto simp: planned_def list_all2_conv_all_nth in_set_conv_nth)
    moreover have "de_kind (ac_dest a) = KindCorrectSymlink"
      using install_action_InrD[of "ac_dest a" a] build_install_planD(5)[OF pl(3)] a(1) True by auto
    ultimately show ?thesis using M a(3) by (auto simp: observes_def split: option.splits fs_node.splits)
  next
    case False
    then show ?thesis using ach a by (simp add: installed_def Let_def)
  qed
  then show ?thesis using pl plan by blast
qed

theorem complete_install_links_destinations_witness:
  "\<exists>t. w_node (snd sample_run) ''/h/.claude/skills/rootline'' = Some (NLink t) \<and> path_clean t = ''/src''"
proof -
  obtain r w' where r: "skill_install sample_env [] (Inr src_source) ''plan'' sample_world = (Inr r, w')" "rs_complete r"
    by (rule sample_runE)
  have d: "\<lparr> ds_id = DestClaude, ds_path = ''/h/.claude/skills/rootline'' \<rparr> \<in> set (sk_destinations sample_env)"
    by code_simp
  have c: "path_clean ''/h/.claude/skills/rootline'' = ''/h/.claude/skills/rootline''"
    "path_clean (so_path src_source) = ''/src''" by code_simp+
  show ?thesis
    using complete_install_links_destinations[OF placed_sample r d] r(1) c by (auto simp: sample_run_def)
qed

section \<open>No change without approval\<close>

text \<open>Computations that change neither a node nor the log of receipts, and what a computation can return.\<close>

definition quiet :: "'a io \<Rightarrow> bool" where
  "quiet m = (\<forall>w. w_node (snd (m w)) = w_node w \<and> w_receipts (snd (m w)) = w_receipts w)"

definition returns :: "'a io \<Rightarrow> ('a \<Rightarrow> bool) \<Rightarrow> bool" where
  "returns m P = (\<forall>w x w'. m w = (Inr x, w') \<longrightarrow> P x)"

named_theorems quiet_intros \<open>rules for computations that change nothing\<close>

lemma quiet_ok [quiet_intros]: "quiet (io_ok x)" and quiet_err [quiet_intros]: "quiet (io_err e)"
  by (simp_all add: quiet_def io_ok_def io_err_def)

lemma quiet_catch [quiet_intros]: "quiet m \<Longrightarrow> (\<And>r. quiet (k r)) \<Longrightarrow> quiet (io_catch m k)"
  by (simp add: quiet_def io_catch_def split: prod.splits) (metis snd_conv)

lemma quiet_bind [quiet_intros]: "quiet m \<Longrightarrow> (\<And>x. quiet (f x)) \<Longrightarrow> quiet (io_bind m f)"
  unfolding io_bind_def by (auto intro!: quiet_intros split: sum.splits)

lemma quiet_map_error [quiet_intros]: "quiet m \<Longrightarrow> quiet (io_map_error g m)"
  unfolding io_map_error_def by (auto intro!: quiet_intros split: sum.splits)

lemma quiet_sys_call: "(\<And>w. snd (act w) = w) \<Longrightarrow> quiet (sys_call act)"
  unfolding quiet_def
proof
  fix w assume act: "\<And>w. snd (act w) = w"
  obtain f w1 where f: "next_fault w = (f, w1)" by fastforce
  then show "w_node (snd (sys_call act w)) = w_node w \<and> w_receipts (snd (sys_call act w)) = w_receipts w"
    using act next_fault_frame[of w] by (auto simp: sys_call_def)
qed

lemma quiet_calls [quiet_intros]:
  "quiet (os_lstat p)" "quiet (os_readlink p)" "quiet (os_eval_symlinks p)" "quiet (os_digest sha rej p)"
  "quiet scan_receipts" "quiet (os_stat p)"
  unfolding os_lstat_def os_readlink_def os_eval_symlinks_def os_digest_def scan_receipts_def os_stat_def
  by (auto intro!: quiet_sys_call split: option.splits)

lemma quiet_inventory [quiet_intros]: "quiet (inventory_destinations env source)"
proof -
  have one: "quiet (inventory_destination env d source canon)" for d canon
    unfolding inventory_destination_def inventory_symlink_def Let_def
    by (auto intro!: quiet_intros split: sum.splits fs_node.splits)
  have "quiet (io_map_list (\<lambda>d. inventory_destination env d source canon) ds)" for ds canon
    by (induction ds) (auto intro!: quiet_intros one)
  then show ?thesis unfolding inventory_destinations_def by (auto intro!: quiet_intros)
qed

lemma quiet_log [quiet_intros]: "quiet (load_receipt rid)" "quiet latest_complete_install" "quiet latest_receipt"
  unfolding load_receipt_def latest_complete_install_def latest_receipt_def by (auto intro!: quiet_intros)

lemma quiet_verify_backup [quiet_intros]: "quiet (verify_backup env b)"
  unfolding verify_backup_def by (auto intro!: quiet_intros split: entry_kind.splits)

lemma quiet_verify_preimages [quiet_intros]: "quiet (verify_preimages env rc as)"
  by (induction env rc as rule: verify_preimages.induct)
    (auto simp: Let_def intro!: quiet_intros split: option.splits)

lemma quiet_plans [quiet_intros]:
  "quiet (install_plan env path found r)" "quiet (plan_from_receipt env rc build source r)"
  "quiet (uninstall_plan env r)" "quiet (restore_plan env rid r)"
proof -
  show pf: "quiet (plan_from_receipt env rc build source r)" for rc build source r
    unfolding plan_from_receipt_def Let_def by (auto intro!: quiet_intros split: sum.splits)
  show "quiet (install_plan env path found r)"
    unfolding install_plan_def Let_def by (auto intro!: quiet_intros split: sum.splits)
  show "quiet (uninstall_plan env r)"
    unfolding uninstall_plan_def by (auto intro!: quiet_intros pf split: sum.splits option.splits)
  show "quiet (restore_plan env rid r)"
    unfolding restore_plan_def Let_def by (auto intro!: quiet_intros pf split: sum.splits option.splits)
qed

lemma quiet_status: "quiet (skill_status env path found)"
  unfolding skill_status_def Let_def by (auto intro!: quiet_intros split: sum.splits option.splits)

lemma returns_ok: "P x \<Longrightarrow> returns (io_ok x) P"
  by (simp add: returns_def io_ok_def)

lemma returns_bind: "(\<And>x. returns (f x) P) \<Longrightarrow> returns (io_bind m f) P"
  by (auto simp: returns_def io_bind_def io_catch_def io_err_def split: prod.splits sum.splits)

lemma returns_catch: "(\<And>r. returns (k r) P) \<Longrightarrow> returns (io_catch m k) P"
  by (fastforce simp: returns_def io_catch_def split: prod.splits)

lemma returns_execute:
  "returns (execute_plan env r source p one) (\<lambda>r'. rs_attempted r' \<and> rs_plan r' = rs_plan r)"
proof -
  let ?P = "\<lambda>r'. rs_attempted r' \<and> rs_plan r' = rs_plan r"
  have fin: "returns (finish_operation env (r\<lparr> rs_attempted := True \<rparr>) re) ?P" for re
    unfolding finish_operation_def Let_def
    by (rule returns_catch) (auto intro!: returns_ok split: sum.splits option.splits)
  have "returns (\<lambda>w. io_catch (m w) (\<lambda>x. case x of
          Inl e \<Rightarrow>
            let oe = \<lparr> oe_code = BackupFailed, oe_path = [], oe_destination = [], oe_message = skill_error_text e \<rparr>
            in io_ok ((add_error (r\<lparr> rs_attempted := True \<rparr>) oe)\<lparr> rs_receipt := Some (rc w\<lparr> rp_errors := [oe] \<rparr>) \<rparr>)
        | Inr _ \<Rightarrow> io_bind (acts w) (finish_operation env (r\<lparr> rs_attempted := True \<rparr>))) w) ?P"
    for m :: "world \<Rightarrow> unit io" and rc acts
  proof -
    have "returns (io_catch (m w) (\<lambda>x. case x of
          Inl e \<Rightarrow>
            let oe = \<lparr> oe_code = BackupFailed, oe_path = [], oe_destination = [], oe_message = skill_error_text e \<rparr>
            in io_ok ((add_error (r\<lparr> rs_attempted := True \<rparr>) oe)\<lparr> rs_receipt := Some (rc w\<lparr> rp_errors := [oe] \<rparr>) \<rparr>)
        | Inr _ \<Rightarrow> io_bind (acts w) (finish_operation env (r\<lparr> rs_attempted := True \<rparr>)))) ?P" for w
      by (rule returns_catch) (auto simp: Let_def intro!: returns_ok returns_bind fin split: sum.splits)
    then show ?thesis by (simp add: returns_def)
  qed
  then show ?thesis by (simp add: returns_def execute_plan_def Let_def)
qed

text \<open>What an operation that plans and then asks for approval does to the world.\<close>

lemma approved_frame:
  assumes "with_approval approval source p r (execute_plan env r source p one) w = (Inr r', w')"
    "\<not> rs_attempted r" "rs_plan r = Some p"
  shows "(\<not> rs_attempted r' \<longrightarrow> w' = w) \<and>
    (rs_attempted r' \<longrightarrow> rs_plan r' = Some p \<and> approval = pl_digest p \<and> approval \<noteq> [])"
  using assms returns_execute[of env r source p one, unfolded returns_def, rule_format, of w r' w']
  by (auto simp: with_approval_def io_ok_def split: if_splits)

lemma returns_mono: "returns m P \<Longrightarrow> (\<And>x. P x \<Longrightarrow> Q x) \<Longrightarrow> returns m Q"
  by (auto simp: returns_def)

lemma returns_err: "returns (io_err e) P"
  by (simp add: returns_def io_err_def)

lemma returns_bind2: "returns m R \<Longrightarrow> (\<And>x. R x \<Longrightarrow> returns (f x) P) \<Longrightarrow> returns (io_bind m f) P"
  by (fastforce simp: returns_def io_bind_def io_catch_def io_err_def split: prod.splits sum.splits)

definition plan_ready :: "skill_result \<times> (skill_source \<times> skill_plan) option \<Rightarrow> bool" where
  "plan_ready x = (\<not> rs_attempted (fst x) \<and> \<not> rs_complete (fst x) \<and> (\<forall>s p. snd x = Some (s, p) \<longrightarrow> rs_plan (fst x) = Some p))"

lemma plan_ready_simps [simp]:
  "plan_ready (r, None) = (\<not> rs_attempted r \<and> \<not> rs_complete r)"
  "plan_ready (r, Some (s, p)) = (\<not> rs_attempted r \<and> \<not> rs_complete r \<and> rs_plan r = Some p)"
  by (simp_all add: plan_ready_def)

lemma returns_plans:
  assumes "\<not> rs_attempted r" "\<not> rs_complete r"
  shows "returns (install_plan env path found r) plan_ready"
    "returns (plan_from_receipt env rc build source r) plan_ready" "returns (uninstall_plan env r) plan_ready"
    "returns (restore_plan env rid r) (\<lambda>(r', x). plan_ready (r', map_option (\<lambda>(s, p, pres, bs). (s, p)) x))"
proof -
  have pf: "returns (plan_from_receipt env rc build source r) plan_ready"
    if "\<not> rs_attempted r" "\<not> rs_complete r" for rc build source r
    unfolding plan_from_receipt_def Let_def by (rule returns_catch) (use that in \<open>auto intro!: returns_ok split: sum.splits\<close>)
  show "returns (plan_from_receipt env rc build source r) plan_ready" by (rule pf[OF assms])
  show "returns (install_plan env path found r) plan_ready"
    unfolding install_plan_def Let_def using assms by (auto intro!: returns_ok returns_catch split: sum.splits)
  show "returns (uninstall_plan env r) plan_ready"
    unfolding uninstall_plan_def using assms
    by (auto intro!: returns_catch returns_ok pf split: sum.splits option.splits)
  have pf2: "returns (io_bind (plan_from_receipt env rc build source r1)
      (\<lambda>(r2, sp). io_ok (r2, map_option (\<lambda>(s, p). (s, p, pres, bs)) sp)))
      (\<lambda>(r', x). plan_ready (r', map_option (\<lambda>(s, p, pres, bs). (s, p)) x))"
    if "\<not> rs_attempted r1" "\<not> rs_complete r1" for rc build source r1 pres bs
    by (rule returns_bind2[OF pf[OF that]])
      (auto simp: option.map_comp o_def plan_ready_def intro!: returns_ok split: option.splits)
  show "returns (restore_plan env rid r) (\<lambda>(r', x). plan_ready (r', map_option (\<lambda>(s, p, pres, bs). (s, p)) x))"
    unfolding restore_plan_def Let_def using assms
    by (auto intro!: returns_catch returns_ok pf2 split: sum.splits option.splits)
qed

lemma io_bind_InrE:
  assumes "io_bind m f w = (Inr x, w')"
  obtains y w1 where "m w = (Inr y, w1)" "f y w1 = (Inr x, w')"
  using assms by (auto simp: io_bind_def io_catch_def io_err_def split: prod.splits sum.splits)

lemma planned_operation_frame:
  assumes "io_bind plan k w = (Inr r', w')" "quiet plan" "returns plan ready"
    and "\<And>x w1. ready x \<Longrightarrow> k x w1 = (Inr r', w') \<Longrightarrow>
      (\<not> rs_attempted r' \<longrightarrow> w' = w1) \<and> (rs_attempted r' \<longrightarrow> (\<exists>p. rs_plan r' = Some p \<and> approval = pl_digest p \<and> approval \<noteq> []))"
  shows "(\<not> rs_attempted r' \<longrightarrow> w_node w' = w_node w \<and> w_receipts w' = w_receipts w) \<and>
    (rs_attempted r' \<longrightarrow> (\<exists>p. rs_plan r' = Some p \<and> approval = pl_digest p \<and> approval \<noteq> []))"
proof -
  obtain x w1 where x: "plan w = (Inr x, w1)" "k x w1 = (Inr r', w')" using assms(1) by (rule io_bind_InrE)
  have "w_node w1 = w_node w" "w_receipts w1 = w_receipts w"
    using assms(2) x(1) by (metis quiet_def snd_conv)+
  moreover have "ready x" using assms(3) x(1) by (auto simp: returns_def)
  ultimately show ?thesis using assms(4)[OF _ x(2)] by auto
qed

text \<open>C21: An operation acts only on the plan its caller has seen: unless the approval is the digest of the plan
  it computed, neither a node nor the log of receipts changes, whatever the state of the system; and when it
  has acted, the result shows the approved plan.\<close>

theorem operations_need_approval:
  assumes "act \<in> {skill_install env path found approval, skill_uninstall env approval, skill_restore env rid approval}"
    "act w = (Inr r, w')"
  shows "(\<not> rs_attempted r \<longrightarrow> w_node w' = w_node w \<and> w_receipts w' = w_receipts w) \<and>
    (rs_attempted r \<longrightarrow> (\<exists>p. rs_plan r = Some p \<and> approval = pl_digest p \<and> approval \<noteq> []))"
proof -
  let ?G = "(\<not> rs_attempted r \<longrightarrow> w_node w' = w_node w \<and> w_receipts w' = w_receipts w) \<and>
    (rs_attempted r \<longrightarrow> (\<exists>p. rs_plan r = Some p \<and> approval = pl_digest p \<and> approval \<noteq> []))"
  consider "skill_install env path found approval w = (Inr r, w')" | "skill_uninstall env approval w = (Inr r, w')"
    | "skill_restore env rid approval w = (Inr r, w')" using assms by auto
  then show ?G
  proof cases
    case 1
    then show ?thesis unfolding skill_install_def
      by (rule planned_operation_frame[OF _ quiet_plans(1) returns_plans(1)])
        (auto simp: io_ok_def dest!: approved_frame split: option.splits)
  next
    case 2
    then show ?thesis unfolding skill_uninstall_def
      by (rule planned_operation_frame[OF _ quiet_plans(3) returns_plans(3)])
        (auto simp: io_ok_def dest!: approved_frame split: option.splits)
  next
    case 3
    then show ?thesis unfolding skill_restore_def
      by (rule planned_operation_frame[OF _ quiet_plans(4) returns_plans(4)])
        (auto simp: io_ok_def dest!: approved_frame split: option.splits)
  qed
qed

theorem operations_need_approval_witness:
  "w_receipts (snd (skill_install sample_env [] (Inr src_source) ''other'' sample_world)) = []"
proof -
  have "case fst (skill_install sample_env [] (Inr src_source) ''other'' sample_world) of
      Inr r \<Rightarrow> \<not> rs_attempted r | Inl _ \<Rightarrow> False" by code_simp
  then obtain r w' where r: "skill_install sample_env [] (Inr src_source) ''other'' sample_world = (Inr r, w')"
    "\<not> rs_attempted r" by (cases "skill_install sample_env [] (Inr src_source) ''other'' sample_world") (auto split: sum.splits)
  show ?thesis
    using operations_need_approval[where act = "skill_install sample_env [] (Inr src_source) ''other''" and env = sample_env
        and path = "[]" and found = "Inr src_source" and approval = "''other''" and rid = "[]", OF _ r(1)] r
    by (simp add: sample_world_def)
qed

end
