(* ===== verification/Skill_Restore.thy ===== *)
theory Skill_Restore
  imports Skill_Promises
begin

text \<open>
  Uninstall and restore: what one action of them does for every schedule of faults, and what the operations
  promise as a whole.
\<close>

section \<open>Taking a receipted link away\<close>

lemma wp_check_receipted_symlink:
  assumes "\<And>e. Q (Inl e) N"
    "\<And>t. N (path_clean (de_path st)) = Some (NLink t) \<Longrightarrow> path_clean t = path_clean (de_lexical st) \<Longrightarrow> Q (Inr ()) N"
  shows "wp (check_receipted_symlink st) Q N"
proof -
  have "wp (case n of
      NLink _ \<Rightarrow> io_bind (os_readlink (de_path st)) (\<lambda>t.
          if path_clean t \<noteq> path_clean (de_lexical st)
          then io_err (removal_conflict st ''destination symlink target changed'') else io_ok ())
    | _ \<Rightarrow> io_err (removal_conflict st ''destination is not a symlink'')) Q N" for n
    using assms by (cases n) (auto intro!: wp_bind wp_readlink wp_err wp_ok)
  then show ?thesis unfolding check_receipted_symlink_def
    using assms(1) by (auto intro!: wp_bind wp_map_error wp_lstat)
qed

definition removed_link :: "destination_state \<Rightarrow> nodes \<Rightarrow> nodes \<Rightarrow> bool" where
  "removed_link st N M =
     (M (path_clean (de_path st)) = None \<and>
      (\<exists>t. N (path_clean (de_path st)) = Some (NLink t) \<and> path_clean t = path_clean (de_lexical st)))"

lemma wp_remove_receipted_symlink:
  assumes "\<And>e. Q (Inr (st, Some e)) N"
    "\<And>t s e. N (path_clean (de_path st)) = Some (NLink t) \<Longrightarrow> path_clean t = path_clean (de_lexical st) \<Longrightarrow>
       Q (Inr (s, e)) (N(path_clean (de_path st) := None))"
  shows "wp (remove_receipted_symlink st) Q N"
proof -
  have gone: "wp (io_catch (os_lstat (de_path st)) (\<lambda>l. case l of
      Inl e \<Rightarrow> if is_not_exist e then io_ok (absent_state st, None) else io_ok (st, Some e)
    | Inr _ \<Rightarrow> io_ok (st, Some (state_error VerificationFailed st
                  ''destination still exists after symlink removal'')))) Q (N(path_clean (de_path st) := None))"
    if "N (path_clean (de_path st)) = Some (NLink t)" "path_clean t = path_clean (de_lexical st)" for t
    using assms(2)[OF that] by (auto intro!: wp_catch wp_lstat wp_ok)
  show ?thesis unfolding remove_receipted_symlink_def
    using assms(1) gone
    by (auto intro!: wp_catch wp_bind wp_check_receipted_symlink wp_map_error wp_remove wp_ok)
qed

definition uninstall_post :: "plan_action \<Rightarrow> action_outcome \<Rightarrow> nodes \<Rightarrow> nodes \<Rightarrow> bool" where
  "uninstall_post a out N M =
     (case out of (ar, bs, err) \<Rightarrow>
        ar_dest ar = de_id (ac_dest a) \<and> bs = [] \<and>
        (M (path_clean (de_path (ac_dest a))) = N (path_clean (de_path (ac_dest a))) \<or> removed_link (ac_dest a) N M) \<and>
        (err = None \<longrightarrow> removed_link (ac_dest a) N M))"

text \<open>An uninstall works in place: nothing is renamed beside the destination and nothing is backed up.\<close>

definition link_only :: "plan_action \<Rightarrow> string set" where
  "link_only a = {path_clean (de_path (ac_dest a))}"

lemma uninstall_step_ok: "step_ok link_only uninstall_post uninstall_one a"
  unfolding step_ok_def
proof (intro conjI allI impI)
  fix out N M N' M' assume "uninstall_post a out N M" "\<forall>q \<in> link_only a. N' q = N q"
    "\<forall>q \<in> link_only a. M' q = M q"
  then show "uninstall_post a out N' M'"
    by (auto simp: uninstall_post_def removed_link_def link_only_def)
next
  fix N
  have "wp (remove_receipted_symlink (ac_dest a)) (\<lambda>r M. \<exists>after err. r = Inr (after, err) \<and>
      (\<forall>q. q \<noteq> path_clean (de_path (ac_dest a)) \<longrightarrow> M q = N q) \<and>
      (M = N \<and> err \<noteq> None \<or> removed_link (ac_dest a) N M)) N"
    by (rule wp_remove_receipted_symlink) (auto simp: removed_link_def)
  then show "wp (uninstall_one a) (\<lambda>r M. (\<exists>out. r = Inr out \<and> uninstall_post a out N M) \<and>
      (\<forall>q. q \<notin> link_only a \<longrightarrow> M q = N q)) N"
    unfolding uninstall_one_def Let_def
    by (rule wp_bind[OF wp_mono])
      (auto simp: uninstall_post_def failed_action_def link_only_def split: option.splits intro!: wp_ok)
qed

section \<open>Plans that start from a receipt\<close>

lemma scan_lines_InrD: "scan_lines n seen ls = Inr rs \<Longrightarrow> ls = map Some rs"
  by (induction n seen ls arbitrary: rs rule: scan_lines.induct)
    (auto split: option.splits if_splits sum.splits)

lemma scan_receipts_InrD: "scan_receipts w = (Inr rs, w') \<Longrightarrow> w_receipts w = map Some rs"
proof -
  assume s: "scan_receipts w = (Inr rs, w')"
  obtain f w1 where f: "next_fault w = (f, w1)" by fastforce
  then have "w_receipts w1 = w_receipts w" using next_fault_frame(2)[of w] by simp
  then show ?thesis using s scan_lines_InrD by (auto simp: scan_receipts_def sys_call_def f split: if_splits)
qed

lemma io_catchE:
  assumes "io_catch m k w = x" obtains r w1 where "m w = (r, w1)" "k r w1 = x"
  using assms by (auto simp: io_catch_def split: prod.splits)

lemma latest_complete_installD:
  assumes "latest_complete_install w = (Inr (Some rc), w')"
  shows "Some rc \<in> set (w_receipts w) \<and> rp_op rc = OpInstall \<and> rp_complete rc"
proof -
  obtain rs w1 where "scan_receipts w = (Inr rs, w1)"
    "List.find (\<lambda>r. rp_op r = OpInstall \<and> rp_complete r) (rev rs) = Some rc"
    using assms unfolding latest_complete_install_def by (elim io_bind_InrE) (auto simp: io_ok_def)
  then show ?thesis using scan_receipts_InrD[of w rs w1] by (auto dest: list_find_SomeD)
qed

lemma load_receiptD:
  assumes "load_receipt rid w = (Inr (Some rc), w')"
  shows "Some rc \<in> set (w_receipts w) \<and> rp_id rc = rid"
proof -
  obtain rs w1 where "scan_receipts w = (Inr rs, w1)" "List.find (\<lambda>r. rp_id r = rid) rs = Some rc"
    using assms unfolding load_receipt_def by (elim io_bind_InrE) (auto simp: io_ok_def)
  then show ?thesis using scan_receipts_InrD[of w rs w1] by (auto dest: list_find_SomeD)
qed

lemma receipt_plan_sourceD:
  "receipt_plan_source rc = Inr source \<Longrightarrow> rp_complete rc \<and> rp_source rc = Some source"
  by (auto simp: receipt_plan_source_def split: if_splits option.splits)

lemma wp_plan_from_receipt:
  assumes "unplanned r1" "rs_source r1 = Some source"
    "\<And>r. unplanned r \<Longrightarrow> Q (Inr (r, None)) N"
    "\<And>r p sts. planned env N r source p sts \<Longrightarrow> build rc sts = Inr p \<Longrightarrow> Q (Inr (r, Some (source, p))) N"
  shows "wp (plan_from_receipt env rc build source r1) Q N"
proof -
  have r1: "\<not> rs_attempted r1" "\<not> rs_complete r1" using assms(1) by (simp_all add: unplanned_def)
  have u: "unplanned (add_error (r1\<lparr> rs_destinations := sts \<rparr>) e)" for sts e
    using assms(1) by (simp add: unplanned_def)
  have pl: "wp (case build rc sts of
      Inl e \<Rightarrow> io_ok (add_error (r1\<lparr> rs_destinations := sts \<rparr>) (coerce_error RestoreConflict [] [] e), None)
    | Inr p \<Rightarrow> io_ok (r1\<lparr> rs_destinations := sts, rs_plan := Some p, rs_receipt := Some rc,
        rs_backups := rp_backups rc \<rparr>, Some (source, p))) Q N"
    if "list_all2 (\<lambda>d s. inventory_ok env d source N s) (sk_destinations env) sts" for sts
    using that assms u r1 by (auto simp: planned_def intro!: wp_ok split: sum.splits)
  have u1: "unplanned (add_error r1 e)" for e using assms(1) by simp
  show ?thesis unfolding plan_from_receipt_def Let_def
    by (rule wp_catch, rule wp_inventory_destinations) (use pl assms(3)[OF u1] in \<open>auto intro!: wp_ok\<close>)
qed

lemma plan_from_receiptD:
  assumes "plan_from_receipt env rc build source r1 w = (Inr (r, Some sp), w')" "unplanned r1" "rs_source r1 = Some source"
  shows "\<exists>p sts. sp = (source, p) \<and> planned env (w_node w) r source p sts \<and> build rc sts = Inr p"
proof -
  let ?Q = "\<lambda>x M. \<forall>r sp. x = Inr (r, Some sp) \<longrightarrow>
    (\<exists>p sts. sp = (source, p) \<and> planned env (w_node w) r source p sts \<and> build rc sts = Inr p)"
  have "wp (plan_from_receipt env rc build source r1) ?Q (w_node w)"
    by (rule wp_plan_from_receipt[OF assms(2,3)]) auto
  from wpD[OF this assms(1)] show ?thesis by blast
qed

lemma quiet_node: "quiet m \<Longrightarrow> m w = (r, w') \<Longrightarrow> w_node w' = w_node w"
  unfolding quiet_def by (metis snd_conv)

lemma uninstall_planD:
  assumes "uninstall_plan env (zero_result OpUninstall) w = (Inr (r, Some (source, p)), w1)"
  shows "\<exists>rc sts. Some rc \<in> set (w_receipts w) \<and> rp_op rc = OpInstall \<and> rp_complete rc \<and> rp_source rc = Some source \<and>
    build_uninstall_plan (sk_hash env) rc sts = Inr p \<and> planned env (w_node w) r source p sts"
proof -
  obtain f w0 where f: "latest_complete_install w = (f, w0)"
    and k: "(case f of
         Inl e \<Rightarrow> io_ok (add_error (zero_result OpUninstall) (coerce_error BackupFailed [] [] e), None)
       | Inr None \<Rightarrow> io_ok (add_error (zero_result OpUninstall) \<lparr> oe_code = RestoreConflict, oe_path = [], oe_destination = [],
                         oe_message = ''no complete install receipt found'' \<rparr>, None)
       | Inr (Some rc) \<Rightarrow>
           (case receipt_plan_source rc of
              Inl e \<Rightarrow> io_ok (add_error (zero_result OpUninstall) (coerce_error RestoreConflict [] [] e), None)
            | Inr source \<Rightarrow>
                plan_from_receipt env rc (build_uninstall_plan (sk_hash env)) source
                  ((zero_result OpUninstall)\<lparr> rs_source := Some source \<rparr>))) w0 = (Inr (r, Some (source, p)), w1)"
    using assms unfolding uninstall_plan_def by (rule io_catchE)
  obtain rc s where rc: "f = Inr (Some rc)" "receipt_plan_source rc = Inr s"
    "plan_from_receipt env rc (build_uninstall_plan (sk_hash env)) s
       ((zero_result OpUninstall)\<lparr> rs_source := Some s \<rparr>) w0 = (Inr (r, Some (source, p)), w1)"
    using k by (auto simp: io_ok_def split: sum.splits option.splits)
  have "w_node w0 = w_node w" by (rule quiet_node[OF quiet_log(2) f])
  moreover have "\<exists>p' sts. (source, p) = (s, p') \<and> planned env (w_node w0) r s p' sts \<and>
      build_uninstall_plan (sk_hash env) rc sts = Inr p'"
    by (rule plan_from_receiptD[OF rc(3)]) (simp_all add: unplanned_def)
  moreover have "Some rc \<in> set (w_receipts w) \<and> rp_op rc = OpInstall \<and> rp_complete rc"
    using latest_complete_installD f rc(1) by simp
  ultimately show ?thesis using receipt_plan_sourceD[OF rc(2)] by auto
qed

lemma inventory_ids:
  assumes "list_all2 (\<lambda>d s. inventory_ok env d source N s) (sk_destinations env) (map ac_dest as)"
  shows "for_destinations env as"
proof -
  have "map (\<lambda>d. (ds_id d, ds_path d)) ds = map (\<lambda>s. (de_id s, de_path s)) ss"
    if "list_all2 (\<lambda>d s. inventory_ok env d source N s) ds ss" for ds ss
    using that by induction auto
  from this[OF assms] show ?thesis by (simp add: for_destinations_def o_def)
qed

lemma build_uninstall_planD:
  assumes "build_uninstall_plan hash rc sts = Inr p"
  shows "map ac_dest (pl_actions p) = sts" "\<forall>a \<in> set (pl_actions p). uninstall_action rc (pl_source p) (ac_dest a) = Inr a"
    "receipt_plan_source rc = Inr (pl_source p)"
proof -
  obtain source as where s: "receipt_plan_source rc = Inr source" "try_map (uninstall_action rc source) sts = Inr as"
    "pl_actions p = as" "pl_source p = source"
    using assms by (auto simp: build_uninstall_plan_def split: sum.splits)
  show "receipt_plan_source rc = Inr (pl_source p)" using s by simp
  show "map ac_dest (pl_actions p) = sts"
    using try_map_dests[OF s(2), of ac_dest] uninstall_action_InrD(2) s(3) by blast
  show "\<forall>a \<in> set (pl_actions p). uninstall_action rc (pl_source p) (ac_dest a) = Inr a"
    using try_map_Inr_mem[OF s(2)] uninstall_action_InrD(2) s(3,4) by metis
qed

section \<open>Uninstall\<close>

text \<open>What becomes of one action, seen from a destination: it ran, or its nodes are as they were.\<close>

lemma exec_action:
  assumes "placed env hs ss" "for_destinations env (pl_actions p)" "d \<in> set (sk_destinations env)"
    "exec_post env F R r p N (Inr r') M" "\<And>rid a. path_clean (de_path (ac_dest a)) \<in> F rid a"
  obtains a where "a \<in> set (pl_actions p)" "de_id (ac_dest a) = ds_id d" "de_path (ac_dest a) = ds_path d"
    "M (path_clean (ds_path d)) = N (path_clean (ds_path d)) \<and> \<not> rs_complete r' \<or>
     (\<exists>rid out N'. plain_name rid \<and> N' (path_clean (ds_path d)) = N (path_clean (ds_path d)) \<and> R rid a out N' M \<and>
        (rs_complete r' \<longrightarrow> snd (snd out) = None))"
proof -
  obtain a where a: "a \<in> set (pl_actions p)" "de_id (ac_dest a) = ds_id d" "de_path (ac_dest a) = ds_path d"
    using for_destinations_action[OF assms(2,3)] by blast
  show thesis
  proof (cases "M = N \<and> \<not> rs_complete r'")
    case True
    then show thesis using that a by blast
  next
    case False
    then obtain rid rc0 rc e where rid: "plain_name rid" and e: "rs_complete r' \<longrightarrow> e = None"
      and ran: "ran_post (F rid) (R rid) (pl_actions p) rc0 (reserved env rid N) (Inr (rc, e)) M"
      using assms(4) unfolding exec_post_def by blast
    obtain ran rest outs where as: "pl_actions p = ran @ rest"
      "list_all2 (\<lambda>a out. R rid a out (reserved env rid N) M) ran outs"
      "e = None \<longrightarrow> rest = [] \<and> list_all (\<lambda>out. snd (snd out) = None) outs"
      "\<forall>a \<in> set rest. \<forall>q \<in> F rid a. M q = reserved env rid N q"
      using ran unfolding ran_post_def by blast
    have N: "reserved env rid N (path_clean (ds_path d)) = N (path_clean (ds_path d))"
      by (rule reserved_destined[OF assms(1) _ rid, of "ds_id d"]) (use assms(3) in \<open>auto simp: destined_iff\<close>)
    show thesis
    proof (cases "a \<in> set rest")
      case True
      moreover have "path_clean (ds_path d) \<in> F rid a" using a assms(5)[of a] by simp
      ultimately have "M (path_clean (ds_path d)) = N (path_clean (ds_path d))" using as(4) N by metis
      moreover have "\<not> rs_complete r'" using True as(3) e by auto
      ultimately show thesis using that a by blast
    next
      case False
      then have "a \<in> set ran" using a(1) as(1) by simp
      then obtain out where out: "out \<in> set outs" "R rid a out (reserved env rid N) M"
        using list_all2_left[OF as(2)] by blast
      have "rs_complete r' \<longrightarrow> snd (snd out) = None" using as(3) e out(1) by (auto simp: list_all_iff)
      then show thesis using that[OF a] rid N out(2) by blast
    qed
  qed
qed

text \<open>What an uninstall leaves of the other nodes: they are as they were, apart from the directory of the new
  receipt, which was free and is empty.\<close>

definition untouched_by_removal :: "skill_env \<Rightarrow> nodes \<Rightarrow> nodes \<Rightarrow> bool" where
  "untouched_by_removal env N M =
     (\<exists>slot \<in> range (\<lambda>rid. path_clean (receipt_backup_dir env rid)).
        (M slot = N slot \<or> N slot = None \<and> M slot = Some (NDir 448 [])) \<and>
        (\<forall>q. q \<noteq> slot \<and> q \<notin> (\<lambda>d. path_clean (ds_path d)) ` set (sk_destinations env) \<longrightarrow> M q = N q))"

lemma untouched_refl [simp]: "untouched_by_removal env N N"
  by (auto simp: untouched_by_removal_def)

lemma exec_untouched:
  assumes "placed env hs ss" "for_destinations env (pl_actions p)"
    "exec_post env (\<lambda>_. link_only) R r p N (Inr r') M"
  shows "untouched_by_removal env N M"
proof (cases "M = N")
  case True
  then show ?thesis by simp
next
  case False
  then obtain rid rc0 rc e where rid: "plain_name rid"
    and free: "N (path_clean (receipt_backup_dir env rid)) = None"
    and ran: "ran_post link_only (R rid) (pl_actions p) rc0 (reserved env rid N) (Inr (rc, e)) M"
    using assms(3) by (auto simp: exec_post_def)
  from ran have fr: "M q = reserved env rid N q" if "\<forall>a \<in> set (pl_actions p). q \<notin> link_only a" for q
    using that by (auto simp: ran_post_def)
  have act: "\<exists>d \<in> set (sk_destinations env). ds_path d = de_path (ac_dest a)" if "a \<in> set (pl_actions p)" for a
    using for_destinations_destined[OF assms(2) that] by (auto simp: destined_iff)
  have slot: "\<forall>a \<in> set (pl_actions p). path_clean (receipt_backup_dir env rid) \<notin> link_only a"
    using store_not_touched(1)[OF assms(1) for_destinations_destined[OF assms(2)] rid]
    by (auto simp: link_only_def touched_def)
  show ?thesis unfolding untouched_by_removal_def
  proof (intro bexI [of _ "path_clean (receipt_backup_dir env rid)"] conjI allI impI)
    show "M (path_clean (receipt_backup_dir env rid)) = N (path_clean (receipt_backup_dir env rid)) \<or>
        N (path_clean (receipt_backup_dir env rid)) = None \<and>
        M (path_clean (receipt_backup_dir env rid)) = Some (NDir 448 [])"
      using fr[OF slot] free by (simp add: reserved_def)
    fix q assume q: "q \<noteq> path_clean (receipt_backup_dir env rid) \<and>
      q \<notin> (\<lambda>d. path_clean (ds_path d)) ` set (sk_destinations env)"
    with act have "\<forall>a \<in> set (pl_actions p). q \<notin> link_only a"
      unfolding link_only_def by (metis (no_types, lifting) image_eqI singletonD)
    from fr[OF this] q show "M q = N q" by (simp add: reserved_def)
  qed simp
qed

lemma link_only_disjoint:
  assumes "placed env hs ss" "for_destinations env as" "plain_name rid"
  shows "sorted_wrt (\<lambda>a b. link_only a \<inter> link_only b = {}) as"
  by (rule sorted_wrt_mono_rel[OF _ for_destinations_disjoint[OF assms]])
    (auto simp: link_only_def footprint_def touched_def)

lemma wp_execute_uninstall:
  assumes "placed env hs ss" "planned env N r source p sts" "build_uninstall_plan hash rc sts = Inr p"
  shows "for_destinations env (pl_actions p)"
    "wp (execute_plan env r source p (\<lambda>_. uninstall_one)) (exec_post env (\<lambda>_. link_only) (\<lambda>_. uninstall_post) r p N) N"
proof -
  show f: "for_destinations env (pl_actions p)"
    by (rule inventory_ids[of env source N])
      (use assms(2) build_uninstall_planD(1)[OF assms(3)] in \<open>simp add: planned_def\<close>)
  show "wp (execute_plan env r source p (\<lambda>_. uninstall_one)) (exec_post env (\<lambda>_. link_only) (\<lambda>_. uninstall_post) r p N) N"
    by (rule wp_execute_plan)
      (use assms(2) uninstall_step_ok link_only_disjoint[OF assms(1) f] in \<open>auto simp: planned_def\<close>)
qed

text \<open>The links an uninstall may remove from a destination: to the source of a complete install of the log.\<close>

definition receipted_target :: "receipt option list \<Rightarrow> string \<Rightarrow> bool" where
  "receipted_target log t =
     (\<exists>rc source. Some rc \<in> set log \<and> rp_op rc = OpInstall \<and> rp_complete rc \<and> rp_source rc = Some source \<and>
        path_clean t = path_clean (so_path source))"

lemma filepath_clean_eq: "filepath_clean a = filepath_clean b \<Longrightarrow> path_clean a = path_clean b"
  by (metis filepath_clean_def path_clean_nonempty)

lemma with_approval_cases:
  assumes "with_approval approval source p r act w = (res, w')"
  shows "w' = w \<and> (\<exists>r'. res = Inr r' \<and> rs_complete r' = rs_complete r) \<or> act w = (res, w')"
  using assms by (auto simp: with_approval_def io_ok_def split: if_splits)

section \<open>Restore: one action\<close>

text \<open>The node a recorded preimage describes.\<close>

definition matches_preimage :: "(string \<Rightarrow> string) \<Rightarrow> destination_state \<Rightarrow> fs_node option \<Rightarrow> bool" where
  "matches_preimage sha pre n =
     (case n of
        None \<Rightarrow> de_kind pre = KindAbsent
      | Some (NDir m t) \<Rightarrow> de_kind pre = KindDirectory \<and>
          (\<exists>d. digest_tree sha False [] t = Inr d \<and> (de_digest pre \<noteq> [] \<longrightarrow> d = de_digest pre))
      | Some (NLink t) \<Rightarrow> is_link_kind (de_kind pre) \<and>
          (de_lexical pre \<noteq> [] \<longrightarrow> path_clean t = path_clean (de_lexical pre))
      | Some NOther \<Rightarrow> False)"

lemma is_wanted_matches: "is_wanted sha pre b n \<Longrightarrow> matches_preimage sha pre n"
  by (auto simp: is_wanted_def matches_preimage_def wanted_digest_def wanted_link_def)

lemma wp_stage_receipted_symlink:
  assumes "\<And>e. Q (Inr ([], st, Some e)) N"
    "\<And>staged s err t. N (path_clean (de_path st)) = Some (NLink t) \<Longrightarrow> staged \<noteq> [] \<Longrightarrow>
       path_clean staged \<in> stage_names (de_path st) \<Longrightarrow>
       Q (Inr (staged, s, err)) (N(path_clean (de_path st) := None, path_clean staged := Some (NLink t)))"
  shows "wp (stage_receipted_symlink st) Q N"
proof -
  let ?p = "path_clean (de_path st)"
  have after: "wp (io_catch (os_lstat (de_path st)) (\<lambda>l. case l of
        Inl e \<Rightarrow> if is_not_exist e then io_ok (staged, absent_state st, None) else io_ok (staged, st, Some e)
      | Inr _ \<Rightarrow> io_ok (staged, st, Some (state_error VerificationFailed st
                  ''destination still exists after symlink staging''))))
      Q (N(?p := None, path_clean staged := Some (NLink t)))"
    if "N ?p = Some (NLink t)" "staged \<noteq> []" "path_clean staged \<in> stage_names (de_path st)" for staged t
    using assms(2)[OF that] by (auto intro!: wp_catch wp_lstat wp_ok)
  let ?k = "\<lambda>r. wp (case r of
      Inl e \<Rightarrow> io_ok ([], st, Some e)
    | Inr staged \<Rightarrow> io_catch (os_lstat (de_path st)) (\<lambda>l. case l of
        Inl e \<Rightarrow> if is_not_exist e then io_ok (staged, absent_state st, None) else io_ok (staged, st, Some e)
      | Inr _ \<Rightarrow> io_ok (staged, st, Some (state_error VerificationFailed st
                  ''destination still exists after symlink staging'')))) Q"
  have fail: "?k (Inl e) N" for e using assms(1) by (auto intro!: wp_ok)
  have "wp (io_bind (unique_sibling_path (de_path st)) (\<lambda>staged.
         io_bind (io_map_error (\<lambda>e. removal_conflict st (skill_error_text e)) (os_rename (de_path st) staged))
           (\<lambda>_. io_ok staged))) ?k N" if "N ?p = Some (NLink t)" for t
    using fail after that by (auto intro!: wp_bind wp_sibling wp_map_error wp_rename wp_ok)
  then show ?thesis unfolding stage_receipted_symlink_def
    using fail by (auto intro!: wp_catch wp_bind wp_check_receipted_symlink)
qed

text \<open>While a restore is under way: the link that was there is under the staged name, if there was one.\<close>

definition aside :: "nodes \<Rightarrow> string \<Rightarrow> string \<Rightarrow> nodes \<Rightarrow> bool" where
  "aside N p staged M =
     ((\<forall>q. q \<notin> touched p \<longrightarrow> M q = N q) \<and>
      (if staged = [] then N (path_clean p) = None
       else path_clean staged \<in> stage_names p \<and> N (path_clean p) \<noteq> None \<and> M (path_clean staged) = N (path_clean p)))"

definition undone :: "nodes \<Rightarrow> string \<Rightarrow> skill_error + bool \<Rightarrow> nodes \<Rightarrow> bool" where
  "undone N p r M =
     ((\<forall>q. q \<notin> touched p \<longrightarrow> M q = N q) \<and>
      (case r of Inl _ \<Rightarrow> False | Inr back \<Rightarrow> back \<longrightarrow> M (path_clean p) = N (path_clean p)))"

lemma wp_restore_staged_current:
  assumes "Q (Inr False) N"
    "\<And>n. staged \<noteq> [] \<Longrightarrow> N (path_clean staged) = Some n \<Longrightarrow> N (path_clean dest) = None \<Longrightarrow>
       Q (Inr True) (N(path_clean staged := None, path_clean dest := Some n))"
  shows "wp (restore_staged_current staged dest) Q N"
  unfolding restore_staged_current_def using assms by (auto intro!: wp_ok wp_catch wp_publish)

lemma wp_staged_back:
  assumes "path_clean p \<notin> stage_names p" "aside N p staged M"
  shows "wp (restore_staged_current staged p) (undone N p) M"
  by (rule wp_restore_staged_current)
    (use assms in \<open>auto simp: undone_def aside_def touched_def split: if_splits\<close>)

lemma wp_undo_restore:
  assumes apart: "path_clean p \<notin> stage_names p" and a: "aside N p staged M"
    and abs: "staged = [] \<longrightarrow> bk_kind cb = KindAbsent"
  shows "wp (undo_restore env staged cb p) (undone N p) M"
proof -
  have fr: "\<forall>q. q \<notin> touched p \<longrightarrow> M q = N q" using a by (simp add: aside_def)
  have "wp (rollback_current env cb p) (undone N p) M" if s: "staged = []"
  proof -
    have none: "N (path_clean p) = None" using a s by (simp add: aside_def)
    have f: "undone N p (Inr False) M" using fr by (simp add: undone_def)
    have k: "bk_kind cb = KindAbsent" using abs s by simp
    have "wp (restore_backup env cb p)
      (\<lambda>r. wp (case r of Inl _ \<Rightarrow> io_ok False | Inr _ \<Rightarrow> path_is_absent p) (undone N p)) M"
    proof (rule wp_mono, rule wp_restore_backup[OF apart])
      fix r M' assume r: "restore_post env cb p M r M'"
      then have fr': "\<forall>q. q \<notin> touched p \<longrightarrow> M' q = N q" using fr by (auto simp: restore_post_def touched_def)
      have "wp (path_is_absent p) (undone N p) M'"
        by (rule wp_path_is_absent) (use fr' none in \<open>auto simp: undone_def\<close>)
      then show "wp (case r of Inl _ \<Rightarrow> io_ok False | Inr _ \<Rightarrow> path_is_absent p) (undone N p) M'"
        using fr' by (cases r) (auto simp: undone_def intro!: wp_ok)
    qed
    then show ?thesis unfolding rollback_current_def if_P[OF k]
      using f by (auto intro!: wp_catch wp_lstat wp_ok)
  qed
  moreover have "wp (restore_staged_current staged p) (\<lambda>r. case r of Inl e \<Rightarrow> undone N p (Inl e)
      | Inr back \<Rightarrow> wp (if staged = [] then rollback_current env cb p else io_ok back) (undone N p)) M"
    if "staged \<noteq> []"
    by (rule wp_mono, rule wp_staged_back[OF apart a]) (use that in \<open>auto simp: undone_def intro!: wp_ok split: sum.splits\<close>)
  ultimately show ?thesis unfolding undo_restore_def
    by (cases "staged = []") (auto simp: restore_staged_current_def intro!: wp_bind wp_ok)
qed

lemma wp_inventory_best_effort:
  assumes "\<And>s. Q (Inr s) N" shows "wp (inventory_best_effort env current pre b) Q N"
proof -
  have "wp (case v of Inr (after, None) \<Rightarrow> io_ok after | _ \<Rightarrow> io_ok current) Q N" for v :: "skill_error + destination_state \<times> skill_error option"
    using assms by (auto split: sum.splits option.splits intro!: wp_ok)
  then show ?thesis unfolding inventory_best_effort_def
    using assms by (auto intro!: wp_bind wp_path_is_absent wp_catch wp_verify_restored wp_ok)
qed

text \<open>What restoring one destination leaves: other nodes as they were; after a rollback the node that was
  there; and without an error what was asked for.\<close>

definition back_post ::
  "nodes \<Rightarrow> string \<Rightarrow> (fs_node option \<Rightarrow> bool) \<Rightarrow> skill_error + destination_state \<times> bool \<times> skill_error option \<Rightarrow>
     nodes \<Rightarrow> bool" where
  "back_post N p good r M =
     ((\<forall>q. q \<notin> touched p \<longrightarrow> M q = N q) \<and>
      (case r of
         Inl _ \<Rightarrow> False
       | Inr (after, back, err) \<Rightarrow>
           (back \<longrightarrow> M (path_clean p) = N (path_clean p)) \<and> (err = None \<longrightarrow> good (M (path_clean p)))))"

lemma wp_undo_then:
  assumes "path_clean p \<notin> stage_names p" "aside N p staged M" "staged = [] \<longrightarrow> bk_kind cb = KindAbsent"
    and "\<And>b M'. undone N p (Inr b) M' \<Longrightarrow> wp (k b) (back_post N p good) M'"
  shows "wp (io_bind (undo_restore env staged cb p) k) (back_post N p good) M"
  by (rule wp_bind, rule wp_mono, rule wp_undo_restore[OF assms(1-3)])
    (use assms(4) in \<open>auto simp: undone_def split: sum.splits\<close>)

lemma aside_set:
  assumes "path_clean p \<notin> stage_names p" "aside N p staged M" "\<forall>q. q \<notin> touched p \<longrightarrow> M' q = M q"
    "\<forall>q \<in> stage_names p. M q \<noteq> None \<longrightarrow> M' q = M q"
  shows "aside N p staged M'"
  using assms by (auto simp: aside_def split: if_splits)

lemma wp_restore_preimage:
  assumes apart: "path_clean (de_path current) \<notin> stage_names (de_path current)"
    and a: "aside N (de_path current) staged M" and abs: "staged = [] \<longrightarrow> bk_kind cb = KindAbsent"
  shows "wp (restore_preimage env current pre pb cb staged)
    (back_post N (de_path current) (matches_preimage (sk_sha env) pre)) M"
proof -
  let ?p = "de_path current" and ?Q = "back_post N (de_path current) (matches_preimage (sk_sha env) pre)"
  have undo_fin: "?Q (Inr (s, b, Some e)) M'" if "undone N ?p (Inr b) M'" for s b e M'
    using that by (simp add: undone_def back_post_def)
  have u1: "wp (io_bind (undo_restore env staged cb ?p) (\<lambda>back.
      io_bind (inventory_best_effort env current pre cb) (\<lambda>s. io_ok (s, back, Some e)))) ?Q M'"
    if "aside N ?p staged M'" for M' e
    by (rule wp_undo_then[OF apart that abs])
      (use undo_fin in \<open>auto intro!: wp_bind wp_inventory_best_effort wp_ok\<close>)
  have u2: "wp (io_bind (undo_restore env staged cb ?p) (\<lambda>back. io_ok (after, back, Some e))) ?Q M'"
    if "aside N ?p staged M'" for M' e after
    by (rule wp_undo_then[OF apart that abs]) (use undo_fin in \<open>auto intro!: wp_ok\<close>)
  have fin: "?Q (Inr (s, False, e)) M'"
    if "\<forall>q. q \<notin> touched ?p \<longrightarrow> M' q = N q" "is_wanted (sk_sha env) pre pb (M' (path_clean ?p))" for s e M'
    using that is_wanted_matches by (auto simp: back_post_def)
  have rm: "wp (if staged = [] then io_ok (after, False, None)
      else io_catch (os_remove staged) (\<lambda>d. case d of
          Inl e \<Rightarrow> io_ok (after, False, Some e) | Inr _ \<Rightarrow> io_ok (after, False, None))) ?Q M'"
    if w: "is_wanted (sk_sha env) pre pb (M' (path_clean ?p))" "aside N ?p staged M'" for M' after
  proof (cases "staged = []")
    case True
    moreover have "?Q (Inr (after, False, None)) M'" by (rule fin) (use w in \<open>simp_all add: aside_def\<close>)
    ultimately show ?thesis by (auto intro!: wp_ok)
  next
    case False
    then have s: "path_clean staged \<in> stage_names ?p" "path_clean staged \<noteq> path_clean ?p"
      using w(2) apart by (auto simp: aside_def)
    then have "?Q (Inr (after, False, None)) (M'(path_clean staged := None))"
      by (intro fin) (use w in \<open>auto simp: aside_def touched_def\<close>)
    moreover have "?Q (Inr (after, False, Some e)) M'" for e
      by (rule fin) (use w in \<open>simp_all add: aside_def\<close>)
    ultimately show ?thesis unfolding if_not_P[OF False]
      by (intro wp_catch wp_remove) (auto intro!: wp_ok)
  qed
  show ?thesis unfolding restore_preimage_def Let_def
  proof (rule wp_catch, rule wp_mono, rule wp_restore_backup[OF apart])
    fix r M' assume r: "restore_post env pb ?p M r M'"
    have fr: "\<forall>q. q \<noteq> path_clean ?p \<longrightarrow> q \<notin> stage_names ?p \<or> M q \<noteq> None \<longrightarrow> M' q = M q"
      using r by (simp add: restore_post_def)
    have a': "aside N ?p staged M'"
    proof (rule aside_set[OF apart a])
      show "\<forall>q. q \<notin> touched ?p \<longrightarrow> M' q = M q" using fr by (auto simp: touched_def)
      show "\<forall>q \<in> stage_names ?p. M q \<noteq> None \<longrightarrow> M' q = M q"
      proof (intro ballI impI)
        fix q assume q: "q \<in> stage_names ?p" "M q \<noteq> None"
        then have "q \<noteq> path_clean ?p" using apart by metis
        then show "M' q = M q" using fr q(2) by simp
      qed
    qed
    have "wp (io_bind (verify_restored_preimage env pre pb ?p) (\<lambda>(after, err). case err of
        Some e \<Rightarrow> io_bind (undo_restore env staged cb ?p) (\<lambda>back. io_ok (after, back, Some e))
      | None \<Rightarrow>
          if staged = [] then io_ok (after, False, None)
          else io_catch (os_remove staged) (\<lambda>d. case d of
              Inl e \<Rightarrow> io_ok (after, False, Some e) | Inr _ \<Rightarrow> io_ok (after, False, None)))) ?Q M'"
      by (rule wp_bind, rule wp_verify_restored) (use u2 rm a' in auto)
    then show "wp (case r of
        Inl e \<Rightarrow> io_bind (undo_restore env staged cb ?p) (\<lambda>back.
            io_bind (inventory_best_effort env current pre cb) (\<lambda>s. io_ok (s, back, Some e)))
      | Inr _ \<Rightarrow> io_bind (verify_restored_preimage env pre pb ?p) (\<lambda>(after, err). case err of
            Some e \<Rightarrow> io_bind (undo_restore env staged cb ?p) (\<lambda>back. io_ok (after, back, Some e))
          | None \<Rightarrow>
              if staged = [] then io_ok (after, False, None)
              else io_catch (os_remove staged) (\<lambda>d. case d of
                  Inl e \<Rightarrow> io_ok (after, False, Some e) | Inr _ \<Rightarrow> io_ok (after, False, None)))) ?Q M'"
      using u1[OF a'] by (cases r) auto
  qed
qed

definition restore_good ::
  "(string \<Rightarrow> string) \<Rightarrow> (destination_id \<times> destination_state) list \<Rightarrow> plan_action \<Rightarrow> fs_node option \<Rightarrow>
     fs_node option \<Rightarrow> bool" where
  "restore_good sha pres a n0 n =
     (if ac_kind a = NoOp then n = n0
      else if ac_kind a = RemoveManagedSymlink then n = None
      else matches_preimage sha (last_entry pres zero_dest_state (de_id (ac_dest a))) n)"

lemma aside_fails: "aside N p staged M \<Longrightarrow> back_post N p good (Inr (s, False, Some e)) M"
  by (simp add: aside_def back_post_def)

lemma wp_remove_staged:
  assumes apart: "path_clean p \<notin> stage_names p" and a: "aside N p staged M" and s: "staged \<noteq> []"
    and gone: "M (path_clean p) = None" and p: "p = de_path current" and g: "good None"
  shows "wp (io_catch (os_remove staged) (\<lambda>d. case d of
      Inl e \<Rightarrow>
        io_bind (inventory_best_effort env current pre cb) (\<lambda>s.
          io_bind (restore_staged_current staged (de_path current)) (\<lambda>back. io_ok (s, back, Some e)))
    | Inr _ \<Rightarrow> io_ok (removed, False, None))) (back_post N p good) M"
proof -
  have fail: "wp (io_bind (inventory_best_effort env current pre cb) (\<lambda>s.
      io_bind (restore_staged_current staged (de_path current)) (\<lambda>back. io_ok (s, back, Some e))))
      (back_post N p good) M" for e
  proof (rule wp_bind, rule wp_inventory_best_effort)
    fix st :: destination_state
    have "wp (io_bind (restore_staged_current staged p) (\<lambda>back. io_ok (st, back, Some e))) (back_post N p good) M"
      by (rule wp_bind, rule wp_mono, rule wp_staged_back[OF apart a])
        (auto simp: undone_def back_post_def intro!: wp_ok split: sum.splits)
    then show "(case Inr st of Inl e' \<Rightarrow> back_post N p good (Inl e')
      | Inr s \<Rightarrow> wp (io_bind (restore_staged_current staged (de_path current)) (\<lambda>back. io_ok (s, back, Some e)))
          (back_post N p good)) M" by (simp add: p)
  qed
  have ok: "back_post N p good (Inr (removed, False, None)) (M(path_clean staged := None))"
    using a s gone g by (auto simp: aside_def back_post_def touched_def)
  show ?thesis by (intro wp_catch wp_remove) (use fail ok in \<open>auto intro!: wp_ok\<close>)
qed

lemma wp_restore_destination:
  assumes apart: "path_clean (de_path (ac_dest a)) \<notin> stage_names (de_path (ac_dest a))"
    and abs: "de_kind (ac_dest a) = KindAbsent \<longrightarrow> N (path_clean (de_path (ac_dest a))) = None"
    and cb: "bk_kind cb = de_kind (ac_dest a)" and k: "ac_kind a \<noteq> NoOp"
  shows "wp (restore_destination env a (last_entry pres zero_dest_state (de_id (ac_dest a))) pb cb)
    (back_post N (de_path (ac_dest a)) (restore_good (sk_sha env) pres a (N (path_clean (de_path (ac_dest a)))))) N"
proof -
  let ?c = "ac_dest a" and ?pre = "last_entry pres zero_dest_state (de_id (ac_dest a))"
  let ?p = "de_path ?c"
  let ?good = "restore_good (sk_sha env) pres a (N (path_clean (de_path (ac_dest a))))"
  let ?Q = "back_post N ?p ?good"
  let ?rest = "\<lambda>(staged, removed, err). case err of
      Some e \<Rightarrow> io_ok (removed, False, Some e)
    | None \<Rightarrow>
        if ac_kind a = RemoveManagedSymlink then
          (if staged = [] then io_ok (removed, False, None)
           else io_catch (os_remove staged) (\<lambda>d. case d of
               Inl e \<Rightarrow>
                 io_bind (inventory_best_effort env ?c ?pre cb) (\<lambda>s.
                   io_bind (restore_staged_current staged ?p) (\<lambda>back. io_ok (s, back, Some e)))
             | Inr _ \<Rightarrow> io_ok (removed, False, None)))
        else restore_preimage env ?c ?pre pb cb staged"
  have rest: "wp (?rest (staged, removed, err)) ?Q M"
    if as: "aside N ?p staged M" and gone: "M (path_clean ?p) = None" and sk: "staged = [] \<longrightarrow> bk_kind cb = KindAbsent"
    for staged removed err M
  proof (cases err)
    case (Some e)
    then show ?thesis using aside_fails[OF as] by (auto intro!: wp_ok)
  next
    case None
    show ?thesis
    proof (cases "ac_kind a = RemoveManagedSymlink")
      case True
      then have g: "?good None" by (simp add: restore_good_def)
      have "?Q (Inr (removed, False, None)) M"
        using as gone g by (simp add: back_post_def aside_def)
      then show ?thesis
        using True None wp_remove_staged[OF apart as _ gone refl, of "?good"] g by (auto intro!: wp_ok)
    next
      case False
      then have "?good = matches_preimage (sk_sha env) ?pre" using k by (auto simp: restore_good_def)
      then show ?thesis using wp_restore_preimage[OF apart as sk] False None by simp
    qed
  qed
  have none: "?Q (Inr (s, False, Some e)) N" for s e by (simp add: back_post_def)
  show ?thesis
  proof (cases "de_kind ?c = KindAbsent")
    case True
    have "wp (?rest ([], ?c, None)) ?Q N"
      by (rule rest) (use True abs cb in \<open>simp_all add: aside_def\<close>)
    then show ?thesis unfolding restore_destination_def Let_def if_not_P[OF k] if_P[OF True]
      by (auto intro!: wp_bind wp_ok)
  next
    case False
    have "wp (stage_receipted_symlink ?c) (\<lambda>r. case r of Inl e \<Rightarrow> ?Q (Inl e) | Inr x \<Rightarrow> wp (?rest x) ?Q) N"
    proof (rule wp_stage_receipted_symlink)
      fix e show "(case Inr ([], ?c, Some e) of Inl e \<Rightarrow> ?Q (Inl e) | Inr x \<Rightarrow> wp (?rest x) ?Q) N"
        using none by (auto intro!: wp_ok)
    next
      fix staged s err t
      assume n: "N (path_clean ?p) = Some (NLink t)" "staged \<noteq> []" "path_clean staged \<in> stage_names ?p"
      let ?M = "N(path_clean ?p := None, path_clean staged := Some (NLink t))"
      have "wp (?rest (staged, s, err)) ?Q ?M"
        by (rule rest) (use n apart in \<open>auto simp: aside_def touched_def\<close>)
      then show "(case Inr (staged, s, err) of Inl e \<Rightarrow> ?Q (Inl e) | Inr x \<Rightarrow> wp (?rest x) ?Q) ?M" by simp
    qed
    then show ?thesis unfolding restore_destination_def Let_def if_not_P[OF k] if_not_P[OF False]
      by (rule wp_bind)
  qed
qed

definition brought_back ::
  "(string \<Rightarrow> string) \<Rightarrow> (destination_id \<times> destination_state) list \<Rightarrow> nodes \<Rightarrow> nodes \<Rightarrow> plan_action \<Rightarrow>
     destination_state \<Rightarrow> bool" where
  "brought_back sha pres N M a after =
     restore_good sha pres a (N (path_clean (de_path (ac_dest a)))) (M (path_clean (de_path (ac_dest a))))"

definition restore_action_post ::
  "skill_env \<Rightarrow> (destination_id \<times> destination_state) list \<Rightarrow> string \<Rightarrow> plan_action \<Rightarrow> action_outcome \<Rightarrow>
     nodes \<Rightarrow> nodes \<Rightarrow> bool" where
  "restore_action_post env pres rid a out N M =
     (action_post env rid (brought_back (sk_sha env) pres) a out N M \<and>
      (ar_rolled_back (fst out) \<longrightarrow> M (path_clean (de_path (ac_dest a))) = N (path_clean (de_path (ac_dest a)))))"

lemma restore_step_ok:
  assumes apart: "path_clean (de_path (ac_dest a)) \<notin> stage_names (de_path (ac_dest a))"
    and slot: "path_clean (backup_path env rid (de_id (ac_dest a))) \<notin> touched (de_path (ac_dest a))"
  shows "step_ok (footprint env rid) (restore_action_post env pres rid) (restore_one env rid pres bs) a"
  unfolding step_ok_def
proof (intro conjI allI impI)
  fix out N M N' M' assume R: "restore_action_post env pres rid a out N M"
    "\<forall>q \<in> footprint env rid a. N' q = N q" "\<forall>q \<in> footprint env rid a. M' q = M q"
  have p: "path_clean (de_path (ac_dest a)) \<in> footprint env rid a" by (simp add: footprint_def touched_def)
  have "action_post env rid (brought_back (sk_sha env) pres) a out N' M'"
    by (rule action_post_stable[of env rid _ a out N M])
      (use R p in \<open>simp_all add: restore_action_post_def brought_back_def\<close>)
  then show "restore_action_post env pres rid a out N' M'" using R p by (simp add: restore_action_post_def)
next
  fix N
  let ?st = "ac_dest a" and ?p = "path_clean (de_path (ac_dest a))" and ?i = "de_id (ac_dest a)"
  let ?R = "restore_action_post env pres rid a"
  let ?Q = "\<lambda>r M. (\<exists>out. r = Inr out \<and> ?R out N M) \<and> (\<forall>q. q \<notin> footprint env rid a \<longrightarrow> M q = N q)"
  let ?pre = "last_entry pres zero_dest_state ?i" and ?pb = "last_entry bs zero_backup ?i"
  have sa [simp]: "\<not> ar_rolled_back (start_action a)" by (simp add: start_action_def)
  have noop: "?Q (Inr ((start_action a)\<lparr> ar_after := ?st, ar_complete := True \<rparr>, [], None)) N" if "ac_kind a = NoOp"
    using that by (auto simp: restore_action_post_def action_post_def Let_def brought_back_def restore_good_def intro: kept_refl)
  have fail: "?Q (Inr (failed_action (start_action a) [] e)) M" if "backup_post env rid ?st N (Inl e') M" for e e' M
  proof -
    have "\<forall>q. q \<noteq> path_clean (backup_path env rid ?i) \<longrightarrow> M q = N q" using that by (simp add: backup_post_def)
    moreover from this have "M ?p = N ?p" using slot by (auto simp: touched_def)
    ultimately show ?thesis
      by (auto simp: restore_action_post_def action_post_def failed_action_def Let_def footprint_def intro: kept_refl)
  qed
  have act: "wp (io_bind (restore_destination env a ?pre ?pb b) (\<lambda>(after, back, err).
      let ar' = (start_action a)\<lparr> ar_after := after, ar_rolled_back := back \<rparr> in
      case err of
        Some e \<Rightarrow> io_ok (failed_action ar' (kept_backup b)
          (coerce_error VerificationFailed (de_path ?st) (id_text ?i) e))
      | None \<Rightarrow> io_ok (ar'\<lparr> ar_complete := True \<rparr>, kept_backup b, None))) ?Q M"
    if k: "ac_kind a \<noteq> NoOp" and b: "backup_post env rid ?st N (Inr b) M" for b M
  proof -
    have fr: "\<forall>q. q \<noteq> path_clean (backup_path env rid ?i) \<longrightarrow> M q = N q" using b by (simp add: backup_post_def)
    have p: "M ?p = N ?p" using fr slot by (auto simp: touched_def)
    have bk: "bk_kind b = de_kind ?st" using b by (simp add: backup_post_def)
    have abs: "de_kind ?st = KindAbsent \<longrightarrow> M ?p = None"
      using b p by (auto simp: backup_post_def backup_holds_def split: option.splits fs_node.splits)
    have bs: "\<forall>c \<in> set (kept_backup b). bk_dest c = ?i \<and> bk_kind c = de_kind ?st \<and>
        (bk_kind c = KindDirectory \<longrightarrow> bk_stored c = backup_path env rid ?i)"
      using b by (auto simp: backup_post_def kept_backup_def)
    have kept: "kept (sk_sha env) N M' (kept_backup b) ?i ?p" if "\<forall>q. q \<notin> touched (de_path ?st) \<longrightarrow> M' q = M q" for M'
    proof (rule kept_by_backup[OF b refl], intro impI)
      assume "bk_kind b = KindDirectory"
      then have "bk_stored b = backup_path env rid ?i" using b by (simp add: backup_post_def)
      then show "M' (path_clean (bk_stored b)) = M (path_clean (bk_stored b))" using that slot by simp
    qed
    have frame: "\<forall>q. q \<notin> footprint env rid a \<longrightarrow> M' q = N q" if "\<forall>q. q \<notin> touched (de_path ?st) \<longrightarrow> M' q = M q" for M'
      using that fr by (auto simp: footprint_def)
    show ?thesis
    proof (rule wp_bind, rule wp_mono, rule wp_restore_destination[where N = M, OF apart abs bk k])
      fix r M' assume r: "back_post M (de_path ?st) (restore_good (sk_sha env) pres a (M ?p)) r M'"
      then obtain after undid err where o': "r = Inr (after, undid, err)" by (cases r) (auto simp: back_post_def)
      have f: "\<forall>q. q \<notin> touched (de_path ?st) \<longrightarrow> M' q = M q" using r by (simp add: back_post_def)
      have done': "undid \<longrightarrow> M' ?p = N ?p" "err = None \<longrightarrow> restore_good (sk_sha env) pres a (N ?p) (M' ?p)"
        using r p o' by (simp_all add: back_post_def)
      show "(case r of Inl e \<Rightarrow> ?Q (Inl e)
        | Inr x \<Rightarrow> wp (case x of (after, back, err) \<Rightarrow>
            let ar' = (start_action a)\<lparr> ar_after := after, ar_rolled_back := back \<rparr> in
            case err of
              Some e \<Rightarrow> io_ok (failed_action ar' (kept_backup b)
                (coerce_error VerificationFailed (de_path ?st) (id_text ?i) e))
            | None \<Rightarrow> io_ok (ar'\<lparr> ar_complete := True \<rparr>, kept_backup b, None)) ?Q) M'"
        using o' kept[OF f] frame[OF f] bs done' k
        by (cases err) (auto simp: Let_def restore_action_post_def action_post_def failed_action_def brought_back_def intro!: wp_ok)
    qed
  qed
  show "wp (restore_one env rid pres bs a) ?Q N"
  proof (cases "ac_kind a = NoOp")
    case True
    then show ?thesis using noop by (simp add: restore_one_def Let_def wp_ok)
  next
    case False
    show ?thesis unfolding restore_one_def Let_def if_not_P[OF False]
    proof (rule wp_catch, rule wp_mono, rule wp_store_backup)
      fix r M assume r: "backup_post env rid ?st N r M"
      show "wp (case r of
          Inl e \<Rightarrow> io_ok (failed_action (start_action a) [] (coerce_error BackupFailed (de_path ?st) (id_text ?i) e))
        | Inr bk \<Rightarrow> io_bind (restore_destination env a ?pre ?pb bk) (\<lambda>(after, back, err).
            case err of
              Some e \<Rightarrow> io_ok (failed_action ((start_action a)\<lparr> ar_after := after, ar_rolled_back := back \<rparr>) (kept_backup bk)
                (coerce_error VerificationFailed (de_path ?st) (id_text ?i) e))
            | None \<Rightarrow> io_ok ((start_action a)\<lparr> ar_after := after, ar_rolled_back := back, ar_complete := True \<rparr>,
                kept_backup bk, None))) ?Q M"
      proof (cases r)
        case (Inl e)
        then show ?thesis using fail r by (simp only: sum.case) (rule wp_ok, blast)
      next
        case (Inr b)
        then show ?thesis using act[OF False, unfolded Let_def] r by (simp only: sum.case)
      qed
    qed
  qed
qed

section \<open>Restore: the operation\<close>

lemma returns_verify_preimages:
  "returns (verify_preimages env rc as) (\<lambda>(ps, bs). ps = map (\<lambda>a. (ar_dest a, ar_before a)) as)"
proof (induction as)
  case Nil
  show ?case by (simp add: returns_ok)
next
  case (Cons a as)
  have rest: "returns (io_bind (verify_preimages env rc as) (\<lambda>(ps, vs). io_ok ((ar_dest a, ar_before a) # ps, bs @ vs)))
      (\<lambda>(ps, bs). ps = map (\<lambda>a. (ar_dest a, ar_before a)) (a # as))" for bs
    by (rule returns_bind2[OF Cons.IH]) (auto intro!: returns_ok)
  have checked: "returns (io_bind m (\<lambda>_. io_bind (verify_preimages env rc as)
      (\<lambda>(ps, vs). io_ok ((ar_dest a, ar_before a) # ps, bs @ vs))))
      (\<lambda>(ps, bs). ps = map (\<lambda>a. (ar_dest a, ar_before a)) (a # as))" for bs and m :: "unit io"
    by (rule returns_bind[OF rest])
  show ?case
    unfolding verify_preimages.simps Let_def
    by (auto simp del: list.map append.simps intro: rest checked returns_err split: option.splits)
qed

lemma last_entry_action_for:
  "action_for rc i = Some a \<Longrightarrow>
     last_entry (map (\<lambda>a. (ar_dest a, ar_before a)) (rp_actions rc)) zero i = ar_before a"
proof -
  have "map_of (map (\<lambda>a. (ar_dest a, ar_before a)) xs) i = map_option ar_before (List.find (\<lambda>a. ar_dest a = i) xs)" for xs :: "action_result list"
    by (induction xs) auto
  then show "action_for rc i = Some a \<Longrightarrow> ?thesis"
    by (simp add: last_entry_def action_for_def rev_map)
qed

lemma restore_action_InrD:
  assumes "restore_action rc st = Inr (a, pre)"
  shows "ac_dest a = st" "\<exists>x. action_for rc (de_id st) = Some x \<and> ar_before x = pre"
    "restore_action_kind pre \<noteq> Inl e"
    "ac_kind a = NoOp \<and> same_evidence pre st \<or> ac_kind a \<noteq> NoOp \<and> restore_action_kind pre = Inr (ac_kind a)"
  using assms
  by (auto simp: restore_action_def restore_action_kind_def Let_def
      split: if_splits option.splits sum.splits entry_kind.splits)

lemma build_restore_planD:
  assumes "build_restore_plan hash rc sts = Inr p"
  shows "map ac_dest (pl_actions p) = sts" "\<forall>a \<in> set (pl_actions p). \<exists>pre. restore_action rc (ac_dest a) = Inr (a, pre)"
proof -
  obtain source aps where s: "try_map (restore_action rc) sts = Inr aps" "pl_actions p = map fst aps"
    using assms by (auto simp: build_restore_plan_def split: sum.splits)
  have d: "restore_action rc st = Inr ap \<Longrightarrow> ac_dest (fst ap) = st" for st ap
    using restore_action_InrD(1)[of rc st "fst ap" "snd ap"] by simp
  show "map ac_dest (pl_actions p) = sts"
    using try_map_dests[OF s(1), of "ac_dest \<circ> fst"] d by (simp add: s(2))
  show "\<forall>a \<in> set (pl_actions p). \<exists>pre. restore_action rc (ac_dest a) = Inr (a, pre)"
  proof
    fix a assume "a \<in> set (pl_actions p)"
    then obtain ap where ap: "ap \<in> set aps" "a = fst ap" by (auto simp: s(2))
    then obtain st where "restore_action rc st = Inr ap" using try_map_Inr_mem[OF s(1)] by blast
    with d[OF this] ap(2) show "\<exists>pre. restore_action rc (ac_dest a) = Inr (a, pre)" by (cases ap) auto
  qed
qed

lemma restore_planD:
  assumes "restore_plan env rid (zero_result OpRestore) w = (Inr (r, Some (source, p, pres, bs)), w1)"
  shows "\<exists>rc sts. Some rc \<in> set (w_receipts w) \<and> rp_id rc = rid \<and> rp_complete rc \<and>
    pres = map (\<lambda>a. (ar_dest a, ar_before a)) (rp_actions rc) \<and>
    build_restore_plan (sk_hash env) rc sts = Inr p \<and> planned env (w_node w) r source p sts"
proof -
  let ?r = "zero_result OpRestore"
  obtain f w0 where f: "load_receipt rid w = (f, w0)"
    and k: "(case f of
         Inl e \<Rightarrow> io_ok (add_error ?r (coerce_error BackupFailed [] [] e), None)
       | Inr None \<Rightarrow> io_ok (add_error ?r (coerce_error RestoreConflict [] [] (plain_error ''receipt not found'')), None)
       | Inr (Some rc) \<Rightarrow>
           (case receipt_plan_source rc of
              Inl e \<Rightarrow> io_ok (add_error ?r (coerce_error RestoreConflict [] [] e), None)
            | Inr source \<Rightarrow>
                let r1 = ?r\<lparr> rs_source := Some source \<rparr> in
                io_catch (verify_preimages env rc (rp_actions rc)) (\<lambda>v. case v of
                    Inl e \<Rightarrow> io_ok (add_error r1 (coerce_error VerificationFailed [] [] e), None)
                  | Inr (pres, bs) \<Rightarrow>
                      io_bind (plan_from_receipt env rc (build_restore_plan (sk_hash env)) source r1)
                        (\<lambda>(r2, sp). io_ok (r2, map_option (\<lambda>(s, p). (s, p, pres, bs)) sp))))) w0
       = (Inr (r, Some (source, p, pres, bs)), w1)"
    using assms unfolding restore_plan_def by (rule io_catchE)
  obtain rc s where rc: "f = Inr (Some rc)" "receipt_plan_source rc = Inr s"
    "io_catch (verify_preimages env rc (rp_actions rc)) (\<lambda>v. case v of
         Inl e \<Rightarrow> io_ok (add_error (?r\<lparr> rs_source := Some s \<rparr>) (coerce_error VerificationFailed [] [] e), None)
       | Inr (pres, bs) \<Rightarrow>
           io_bind (plan_from_receipt env rc (build_restore_plan (sk_hash env)) s (?r\<lparr> rs_source := Some s \<rparr>))
             (\<lambda>(r2, sp). io_ok (r2, map_option (\<lambda>(s, p). (s, p, pres, bs)) sp))) w0
       = (Inr (r, Some (source, p, pres, bs)), w1)"
    using k by (auto simp: io_ok_def Let_def split: sum.splits option.splits)
  obtain v w2 where v: "verify_preimages env rc (rp_actions rc) w0 = (v, w2)"
    and k2: "(case v of
         Inl e \<Rightarrow> io_ok (add_error (?r\<lparr> rs_source := Some s \<rparr>) (coerce_error VerificationFailed [] [] e), None)
       | Inr (pres, bs) \<Rightarrow>
           io_bind (plan_from_receipt env rc (build_restore_plan (sk_hash env)) s (?r\<lparr> rs_source := Some s \<rparr>))
             (\<lambda>(r2, sp). io_ok (r2, map_option (\<lambda>(s, p). (s, p, pres, bs)) sp))) w2
       = (Inr (r, Some (source, p, pres, bs)), w1)"
    using rc(3) by (rule io_catchE)
  obtain pres' bs' where v': "v = Inr (pres', bs')" using k2 by (cases v) (auto simp: io_ok_def)
  then have "io_bind (plan_from_receipt env rc (build_restore_plan (sk_hash env)) s (?r\<lparr> rs_source := Some s \<rparr>))
      (\<lambda>(r2, sp). io_ok (r2, map_option (\<lambda>(s, p). (s, p, pres', bs')) sp)) w2 = (Inr (r, Some (source, p, pres, bs)), w1)"
    using k2 by simp
  then obtain y w3 where y: "plan_from_receipt env rc (build_restore_plan (sk_hash env)) s
      (?r\<lparr> rs_source := Some s \<rparr>) w2 = (Inr y, w3)"
    "(case y of (r2, sp) \<Rightarrow> io_ok (r2, map_option (\<lambda>(s, p). (s, p, pres', bs')) sp)) w3 = (Inr (r, Some (source, p, pres, bs)), w1)"
    by (rule io_bind_InrE)
  then have y': "y = (r, Some (source, p))" "pres = pres'" by (auto simp: io_ok_def split: prod.splits)
  have w: "w_node w2 = w_node w" using quiet_node[OF quiet_log(1) f] quiet_node[OF quiet_verify_preimages v] by simp
  have "\<exists>p' sts. (source, p) = (s, p') \<and> planned env (w_node w2) r s p' sts \<and> build_restore_plan (sk_hash env) rc sts = Inr p'"
    by (rule plan_from_receiptD[of env rc "build_restore_plan (sk_hash env)" s "?r\<lparr> rs_source := Some s \<rparr>" w2 r "(source, p)" w3])
      (use y(1) y'(1) in \<open>simp_all add: unplanned_def\<close>)
  moreover have "pres = map (\<lambda>a. (ar_dest a, ar_before a)) (rp_actions rc)"
    using returns_verify_preimages[of env rc "rp_actions rc", unfolded returns_def, rule_format, OF v[unfolded v']] y'(2) by simp
  moreover have "Some rc \<in> set (w_receipts w) \<and> rp_id rc = rid" using load_receiptD f rc(1) by simp
  ultimately show ?thesis using receipt_plan_sourceD[OF rc(2)] w by auto
qed

lemma wp_execute_restore:
  assumes "placed env hs ss" "planned env N r source p sts" "build_restore_plan hash rc sts = Inr p"
  shows "for_destinations env (pl_actions p)"
    "wp (execute_plan env r source p (\<lambda>rid. restore_one env rid pres bs))
       (exec_post env (footprint env) (restore_action_post env pres) r p N) N"
proof -
  show f: "for_destinations env (pl_actions p)"
    by (rule inventory_ids[of env source N])
      (use assms(2) build_restore_planD(1)[OF assms(3)] in \<open>simp add: planned_def\<close>)
  have "step_ok (footprint env rid) (restore_action_post env pres rid) (restore_one env rid pres bs) a"
    if "plain_name rid" "a \<in> set (pl_actions p)" for rid a
    by (rule restore_step_ok)
      (use destined_apart[OF assms(1)] store_not_touched(2)[OF assms(1) _ that(1)] destined_names(4)[OF assms(1)]
         for_destinations_destined[OF f that(2)] in blast)+
  then show "wp (execute_plan env r source p (\<lambda>rid. restore_one env rid pres bs))
       (exec_post env (footprint env) (restore_action_post env pres) r p N) N"
    by (intro wp_execute_plan) (use assms(2) for_destinations_disjoint[OF assms(1) f] in \<open>auto simp: planned_def\<close>)
qed

lemma ran_post_mono:
  "ran_post F R as rc N r M \<Longrightarrow> (\<And>a out. R a out N M \<Longrightarrow> R' a out N M) \<Longrightarrow> ran_post F R' as rc N r M"
  unfolding ran_post_def by (blast intro: list.rel_mono_strong)

lemma exec_post_mono:
  assumes "exec_post env F R r p N res M" "\<And>rid a out N. R rid a out N M \<Longrightarrow> R' rid a out N M"
  shows "exec_post env F R' r p N res M"
proof -
  have mono: "ran_post (F rid) (R' rid) as rc N0 x M" if "ran_post (F rid) (R rid) as rc N0 x M" for rid as rc N0 x
    by (rule ran_post_mono[OF that]) (rule assms(2))
  show ?thesis using assms(1) unfolding exec_post_def
    apply (elim exE)
    subgoal for r'
      apply (rule exI[of _ r'])
      apply (elim conjE disjE)
      subgoal by simp
      subgoal
        apply (elim exE conjE)
        subgoal for rid rc0 rc e rc'
          by (intro conjI disjI2 exI[of _ rid] exI[of _ rc0] exI[of _ rc] exI[of _ e] exI[of _ rc'] mono) assumption+
        done
      done
    done
qed

lemma exec_restore_kept:
  assumes "exec_post env F (restore_action_post env pres) r p N res M"
  shows "exec_post env F (\<lambda>rid. action_post env rid (brought_back (sk_sha env) pres)) r p N res M"
  by (rule exec_post_mono[OF assms]) (simp add: restore_action_post_def)

text \<open>The run of a restore: nothing happened, or a plan made from the receipt was executed.\<close>

lemma skill_restore_runs:
  assumes "placed env hs ss" "skill_restore env rid approval w = (Inr r, w')"
  shows "w_node w' = w_node w \<and> \<not> rs_complete r \<or>
    (\<exists>rc sts source p pres r1. Some rc \<in> set (w_receipts w) \<and> rp_id rc = rid \<and> rp_complete rc \<and>
       pres = map (\<lambda>a. (ar_dest a, ar_before a)) (rp_actions rc) \<and> build_restore_plan (sk_hash env) rc sts = Inr p \<and>
       planned env (w_node w) r1 source p sts \<and> for_destinations env (pl_actions p) \<and>
       exec_post env (footprint env) (restore_action_post env pres) r1 p (w_node w) (Inr r) (w_node w'))"
proof -
  obtain r1 sp w1 where pl: "restore_plan env rid (zero_result OpRestore) w = (Inr (r1, sp), w1)"
    and k: "(case sp of None \<Rightarrow> io_ok r1 | Some (source, p, pres, bs) \<Rightarrow>
      with_approval approval source p r1 (execute_plan env r1 source p (\<lambda>new. restore_one env new pres bs))) w1 = (Inr r, w')"
    using assms(2) unfolding skill_restore_def by (elim io_bind_InrE) auto
  have w1: "w_node w1 = w_node w" by (rule quiet_node[OF quiet_plans(4) pl])
  show ?thesis
  proof (cases sp)
    case None
    then have "\<not> rs_complete r1"
      using returns_plans(4)[of "zero_result OpRestore" env rid, unfolded returns_def, rule_format, OF _ _ pl] by simp
    then show ?thesis using k w1 None by (simp add: io_ok_def)
  next
    case (Some x)
    obtain source p pres bs where x: "x = (source, p, pres, bs)" by (cases x) auto
    obtain rc sts where rc: "Some rc \<in> set (w_receipts w)" "rp_id rc = rid" "rp_complete rc"
      "pres = map (\<lambda>a. (ar_dest a, ar_before a)) (rp_actions rc)"
      "build_restore_plan (sk_hash env) rc sts = Inr p" "planned env (w_node w) r1 source p sts"
      using restore_planD[of env rid w r1 source p pres bs w1] pl Some x by blast
    have "w' = w1 \<and> rs_complete r = rs_complete r1 \<or>
        execute_plan env r1 source p (\<lambda>new. restore_one env new pres bs) w1 = (Inr r, w')"
      using with_approval_cases[of approval source p r1 _ w1 "Inr r" w'] k Some x by auto
    then show ?thesis
    proof
      assume "w' = w1 \<and> rs_complete r = rs_complete r1"
      then show ?thesis using w1 rc(6) by (simp add: planned_def)
    next
      assume ex: "execute_plan env r1 source p (\<lambda>new. restore_one env new pres bs) w1 = (Inr r, w')"
      note f = wp_execute_restore(1)[OF assms(1) rc(6,5)]
      have "exec_post env (footprint env) (restore_action_post env pres) r1 p (w_node w) (Inr r) (w_node w')"
        using wpD[OF wp_execute_restore(2)[OF assms(1) rc(6,5), folded w1] ex] unfolding w1 .
      then show ?thesis using rc f by blast
    qed
  qed
qed

lemma observed_preimage:
  assumes "observes sha source N st" "same_evidence pre st" "\<And>e. restore_action_kind pre \<noteq> Inl e"
  shows "matches_preimage sha pre (N (path_clean (de_path st)))"
proof -
  have "\<exists>e. restore_action_kind pre = Inl e" if "de_kind pre = KindUnsupported"
    unfolding restore_action_kind_def that by simp
  then have u: "de_kind pre \<noteq> KindUnsupported" using assms(3) by blast
  show ?thesis using assms(1,2) u
    by (auto simp: observes_def matches_preimage_def same_evidence_def split: option.splits fs_node.splits)
qed

section \<open>The example, continued\<close>

text \<open>The world after an install that found the claude destination linked already, with its receipt.\<close>

definition sample_state :: "destination_id \<Rightarrow> string \<Rightarrow> entry_kind \<Rightarrow> string \<Rightarrow> string \<Rightarrow> destination_state" where
  "sample_state i p k d t =
     \<lparr> de_id = i, de_path = p, de_kind = k, de_digest = d, de_lexical = t, de_canonical = t \<rparr>"

definition sample_done :: "destination_state \<Rightarrow> action_kind \<Rightarrow> action_result" where
  "sample_done pre k =
     \<lparr> ar_dest = de_id pre, ar_action = k, ar_before = pre,
       ar_after = sample_state (de_id pre) (de_path pre) KindCorrectSymlink (so_digest src_source) ''/src'',
       ar_complete = True, ar_rolled_back = False, ar_error = None \<rparr>"

definition linked_receipt :: receipt where
  "linked_receipt =
     \<lparr> rp_version = 1, rp_kind = receipt_kind, rp_id = ''r1'', rp_time = ''now'', rp_op = OpInstall,
       rp_complete = True, rp_source = Some src_source, rp_plan_digest = ''plan'',
       rp_actions =
         [sample_done (sample_state DestClaude ''/h/.claude/skills/rootline'' KindCorrectSymlink (so_digest src_source) ''/src'')
            NoOp,
          sample_done (sample_state DestAgents ''/h/.agents/skills/rootline'' KindAbsent [] []) CreateSymlink],
       rp_backups = [],
       rp_errors = [] \<rparr>"

definition linked_world :: world where
  "linked_world =
     \<lparr> w_node = [''/src'' \<mapsto> NDir 493 skill_tree, ''/h/.claude/skills/rootline'' \<mapsto> NLink ''/src'',
         ''/h/.agents/skills/rootline'' \<mapsto> NLink ''/src''],
       w_receipts = [Some linked_receipt], w_faults = [], w_clock = 0, w_pid = 1, w_dirsize = (\<lambda>_. 0) \<rparr>"

lemma removed_run_complete:
  "case fst (skill_uninstall sample_env ''plan'' linked_world) of Inr r \<Rightarrow> rs_complete r | Inl _ \<Rightarrow> False"
  by code_simp

lemma restored_run_complete:
  "case fst (skill_restore sample_env ''r1'' ''plan'' linked_world) of Inr r \<Rightarrow> rs_complete r | Inl _ \<Rightarrow> False"
  by code_simp

lemma restored_runE:
  obtains r w' where "skill_restore sample_env ''r1'' ''plan'' linked_world = (Inr r, w')" "rs_complete r"
  using restored_run_complete by (cases "skill_restore sample_env ''r1'' ''plan'' linked_world") (auto split: sum.splits)

lemma sample_destination:
  "\<lparr> ds_id = DestAgents, ds_path = ''/h/.agents/skills/rootline'' \<rparr> \<in> set (sk_destinations sample_env)"
  by code_simp

lemma sample_clean: "path_clean ''/h/.agents/skills/rootline'' = ''/h/.agents/skills/rootline''"
  by code_simp

section \<open>The promises of an uninstall and of a restore\<close>

text \<open>C22: An uninstall takes away nothing but managed links: a destination is as it was, or it was a symbolic
  link to the source of a complete install in the log and is gone now. Every other node of the file system
  is as it was (so no link is moved aside and nothing of the store changes), except that the directory of the new
  receipt, free before, may now be there and empty. A complete uninstall leaves every destination absent. This holds
  for every schedule of failing system calls, in an environment where the two destinations and the
  store lie apart. The nodes are those of the destinations and of the store; the parent directories \<open>MkdirAll\<close>
  provides for them are not among them, and the log of receipts is kept beside them.\<close>

theorem uninstall_removes_only_managed_links:
  assumes "placed env hs ss" "skill_uninstall env approval w = (Inr r, w')"
  shows "(\<forall>d. d \<in> set (sk_destinations env) \<longrightarrow>
      (let p = path_clean (ds_path d) in
       w_node w' p = w_node w p \<and> \<not> rs_complete r \<or>
       w_node w' p = None \<and> (\<exists>t. w_node w p = Some (NLink t) \<and> receipted_target (w_receipts w) t))) \<and>
    untouched_by_removal env (w_node w) (w_node w')"
    (is "?destinations \<and> ?frame")
proof -
  obtain r1 sp w1 where pl: "uninstall_plan env (zero_result OpUninstall) w = (Inr (r1, sp), w1)"
    and k: "(case sp of None \<Rightarrow> io_ok r1 | Some (source, p) \<Rightarrow>
      with_approval approval source p r1 (execute_plan env r1 source p (\<lambda>_. uninstall_one))) w1 = (Inr r, w')"
    using assms(2) unfolding skill_uninstall_def by (elim io_bind_InrE) auto
  have w1: "w_node w1 = w_node w" by (rule quiet_node[OF quiet_plans(3) pl])
  have nothing: "?destinations \<and> ?frame" if "w_node w' = w_node w" "\<not> rs_complete r"
    using that by (simp add: Let_def)
  show ?thesis
  proof (cases sp)
    case None
    then have "\<not> rs_complete r1"
      using returns_plans(3)[of "zero_result OpUninstall" env, unfolded returns_def, rule_format, OF _ _ pl] by simp
    then show ?thesis using nothing k w1 None by (simp add: io_ok_def)
  next
    case (Some x)
    obtain source p where x: "x = (source, p)" by (cases x) auto
    obtain rc sts where rc: "Some rc \<in> set (w_receipts w)" "rp_op rc = OpInstall" "rp_complete rc"
      "rp_source rc = Some source" "build_uninstall_plan (sk_hash env) rc sts = Inr p"
      "planned env (w_node w) r1 source p sts"
      using uninstall_planD[of env w r1 source p w1] pl Some x by blast
    have "w' = w1 \<and> rs_complete r = rs_complete r1 \<or>
        execute_plan env r1 source p (\<lambda>_. uninstall_one) w1 = (Inr r, w')"
      using with_approval_cases[of approval source p r1 _ w1 "Inr r" w'] k Some x by auto
    then show ?thesis
    proof
      assume "w' = w1 \<and> rs_complete r = rs_complete r1"
      then show ?thesis using nothing w1 rc(6) by (simp add: planned_def)
    next
      assume ex: "execute_plan env r1 source p (\<lambda>_. uninstall_one) w1 = (Inr r, w')"
      note f = wp_execute_uninstall(1)[OF assms(1) rc(6,5)]
      have post: "exec_post env (\<lambda>_. link_only) (\<lambda>_. uninstall_post) r1 p (w_node w) (Inr r) (w_node w')"
        using wpD[OF wp_execute_uninstall(2)[OF assms(1) rc(6,5), folded w1] ex] unfolding w1 .
      have "let q = path_clean (ds_path d) in w_node w' q = w_node w q \<and> \<not> rs_complete r \<or>
          w_node w' q = None \<and> (\<exists>t. w_node w q = Some (NLink t) \<and> receipted_target (w_receipts w) t)"
        if d: "d \<in> set (sk_destinations env)" for d
      proof -
        obtain a where a: "a \<in> set (pl_actions p)" "de_id (ac_dest a) = ds_id d" "de_path (ac_dest a) = ds_path d"
          "w_node w' (path_clean (ds_path d)) = w_node w (path_clean (ds_path d)) \<and> \<not> rs_complete r \<or>
           (\<exists>rid out N'. plain_name rid \<and> N' (path_clean (ds_path d)) = w_node w (path_clean (ds_path d)) \<and>
              uninstall_post a out N' (w_node w') \<and> (rs_complete r \<longrightarrow> snd (snd out) = None))"
          by (rule exec_action[OF assms(1) f d post]) (simp add: link_only_def)
        have "uninstall_action rc (pl_source p) (ac_dest a) = Inr a"
          using build_uninstall_planD(2)[OF rc(5)] a(1) by blast
        from filepath_clean_eq[OF uninstall_action_InrD(5)[OF this]]
        have "path_clean (de_lexical (ac_dest a)) = path_clean (so_path source)"
          using receipt_plan_sourceD[OF build_uninstall_planD(3)[OF rc(5)]] rc(4) by simp
        then have tgt: "receipted_target (w_receipts w) t" if "path_clean t = path_clean (de_lexical (ac_dest a))" for t
          using that rc(1-4) unfolding receipted_target_def by auto
        have gone: "\<exists>t. N' (path_clean (ds_path d)) = Some (NLink t) \<and> receipted_target (w_receipts w) t"
          "w_node w' (path_clean (ds_path d)) = None" if "removed_link (ac_dest a) N' (w_node w')" for N'
          using that tgt a(3) by (auto simp: removed_link_def)
        from a(4) show ?thesis
        proof
          assume "\<exists>rid out N'. plain_name rid \<and> N' (path_clean (ds_path d)) = w_node w (path_clean (ds_path d)) \<and>
              uninstall_post a out N' (w_node w') \<and> (rs_complete r \<longrightarrow> snd (snd out) = None)"
          then obtain ar bs err N' where o': "N' (path_clean (ds_path d)) = w_node w (path_clean (ds_path d))"
            "uninstall_post a (ar, bs, err) N' (w_node w')" "rs_complete r \<longrightarrow> err = None" by auto
          then have "w_node w' (path_clean (ds_path d)) = N' (path_clean (ds_path d)) \<and> \<not> rs_complete r \<or>
              removed_link (ac_dest a) N' (w_node w')"
            using a(3) by (cases err) (simp_all add: uninstall_post_def)
          then show ?thesis using gone[of N'] o'(1) by (simp add: Let_def) blast
        qed (simp add: Let_def)
      qed
      then show ?thesis using exec_untouched[OF assms(1) f post] by blast
    qed
  qed
qed

theorem uninstall_removes_only_managed_links_witness:
  "w_node (snd (skill_uninstall sample_env ''plan'' linked_world)) ''/h/.agents/skills/rootline'' = None"
proof -
  obtain r w' where r: "skill_uninstall sample_env ''plan'' linked_world = (Inr r, w')" "rs_complete r"
    using removed_run_complete by (cases "skill_uninstall sample_env ''plan'' linked_world") (auto split: sum.splits)
  show ?thesis
    using uninstall_removes_only_managed_links[OF placed_sample r(1)] sample_destination r sample_clean
    by (force simp: Let_def)
qed

text \<open>C8: A restore that reports to be complete has brought the state of its receipt back: every destination
  holds what the receipt recorded before its last action for this destination, that is nothing, a directory
  with the recorded digest or a link to the recorded target.\<close>

theorem complete_restore_brings_back:
  assumes "placed env hs ss" "skill_restore env rid approval w = (Inr r, w')" "rs_complete r"
    "d \<in> set (sk_destinations env)"
  shows "\<exists>rc a. Some rc \<in> set (w_receipts w) \<and> rp_id rc = rid \<and> action_for rc (ds_id d) = Some a \<and>
    matches_preimage (sk_sha env) (ar_before a) (w_node w' (path_clean (ds_path d)))"
proof -
  obtain rc sts source p pres r1 where rc: "Some rc \<in> set (w_receipts w)" "rp_id rc = rid"
    "pres = map (\<lambda>a. (ar_dest a, ar_before a)) (rp_actions rc)" "build_restore_plan (sk_hash env) rc sts = Inr p"
    "planned env (w_node w) r1 source p sts" "for_destinations env (pl_actions p)"
    and post: "exec_post env (footprint env) (restore_action_post env pres) r1 p (w_node w) (Inr r) (w_node w')"
    using skill_restore_runs[OF assms(1,2)] assms(3) by blast
  obtain a where a: "a \<in> set (pl_actions p)" "de_id (ac_dest a) = ds_id d" "de_path (ac_dest a) = ds_path d"
    using for_destinations_action[OF rc(6) assms(4)] by blast
  obtain new after where new: "plain_name new"
    and back': "brought_back (sk_sha env) pres (reserved env new (w_node w)) (w_node w') a after"
    using exec_achieved[OF exec_restore_kept[OF post] assms(3) a(1)] by blast
  have N: "reserved env new (w_node w) (path_clean (ds_path d)) = w_node w (path_clean (ds_path d))"
    by (rule reserved_destined[OF assms(1) _ new, of "ds_id d"]) (use assms(4) in \<open>auto simp: destined_iff\<close>)
  obtain pre where pre: "restore_action rc (ac_dest a) = Inr (a, pre)"
    using build_restore_planD(2)[OF rc(4)] a(1) by blast
  obtain x where x: "action_for rc (ds_id d) = Some x" "ar_before x = pre"
    using restore_action_InrD(2)[OF pre] a(2) by auto
  have entry: "last_entry pres zero_dest_state (ds_id d) = pre"
    using last_entry_action_for[OF x(1)] x(2) rc(3) by simp
  have good: "restore_good (sk_sha env) pres a (w_node w (path_clean (ds_path d))) (w_node w' (path_clean (ds_path d)))"
    using back' a(3) N by (simp add: brought_back_def)
  have "matches_preimage (sk_sha env) pre (w_node w' (path_clean (ds_path d)))"
    using restore_action_InrD(4)[OF pre]
  proof
    assume noop: "ac_kind a = NoOp \<and> same_evidence pre (ac_dest a)"
    have "ac_dest a \<in> set sts" using a(1) build_restore_planD(1)[OF rc(4)] by (metis image_eqI list.set_map)
    then have "observes (sk_sha env) source (w_node w) (ac_dest a)"
      using rc(5) by (auto simp: planned_def list_all2_conv_all_nth in_set_conv_nth)
    from observed_preimage[OF this] noop have "matches_preimage (sk_sha env) pre (w_node w (path_clean (ds_path d)))"
      using restore_action_InrD(3)[OF pre] a(3) by simp
    then show ?thesis using good noop by (simp add: restore_good_def)
  next
    assume k: "ac_kind a \<noteq> NoOp \<and> restore_action_kind pre = Inr (ac_kind a)"
    then have "ac_kind a = RemoveManagedSymlink \<longleftrightarrow> de_kind pre = KindAbsent"
      by (auto simp: restore_action_kind_def split: entry_kind.splits)
    then show ?thesis using good k entry a(2) by (auto simp: restore_good_def matches_preimage_def split: if_splits)
  qed
  then show ?thesis using rc x by blast
qed

theorem complete_restore_brings_back_witness:
  "w_node (snd (skill_restore sample_env ''r1'' ''plan'' linked_world)) ''/h/.agents/skills/rootline'' = None"
proof -
  obtain r w' where r: "skill_restore sample_env ''r1'' ''plan'' linked_world = (Inr r, w')" "rs_complete r"
    by (rule restored_runE)
  obtain rc a where a: "Some rc \<in> set (w_receipts linked_world)" "action_for rc DestAgents = Some a"
    "matches_preimage (sk_sha sample_env) (ar_before a) (w_node w' ''/h/.agents/skills/rootline'')"
    using complete_restore_brings_back[OF placed_sample r sample_destination] sample_clean by auto
  have "rc = linked_receipt" using a(1) by (simp add: linked_world_def)
  then have "de_kind (ar_before a) = KindAbsent"
    using a(2) by (auto simp: action_for_def linked_receipt_def sample_done_def sample_state_def split: if_splits)
  then show ?thesis using a(3) r(1) by (auto simp: matches_preimage_def split: option.splits fs_node.splits)
qed

text \<open>A restore that fails half-way loses nothing either: for each destination the node that was there when
  it started is still there, or the result lists a backup that holds it; other nodes do not change.\<close>

theorem restore_keeps_what_was_there:
  assumes "placed env hs ss" "skill_restore env rid approval w = (Inr r, w')"
  shows "(\<forall>d. d \<in> set (sk_destinations env) \<longrightarrow>
      kept (sk_sha env) (w_node w) (w_node w') (rs_backups r) (ds_id d) (path_clean (ds_path d))) \<and>
    (\<exists>new. \<forall>q. q \<notin> may_change env new \<longrightarrow> w_node w' q = w_node w q)"
  using skill_restore_runs[OF assms]
proof
  assume "w_node w' = w_node w \<and> \<not> rs_complete r"
  then show ?thesis by (simp add: kept_refl)
next
  assume "\<exists>rc sts source p pres r1. Some rc \<in> set (w_receipts w) \<and> rp_id rc = rid \<and> rp_complete rc \<and>
       pres = map (\<lambda>a. (ar_dest a, ar_before a)) (rp_actions rc) \<and> build_restore_plan (sk_hash env) rc sts = Inr p \<and>
       planned env (w_node w) r1 source p sts \<and> for_destinations env (pl_actions p) \<and>
       exec_post env (footprint env) (restore_action_post env pres) r1 p (w_node w) (Inr r) (w_node w')"
  then obtain p pres r1 where f: "for_destinations env (pl_actions p)"
    and post: "exec_post env (footprint env) (restore_action_post env pres) r1 p (w_node w) (Inr r) (w_node w')"
    by blast
  show ?thesis using exec_kept[OF assms(1) f _ exec_restore_kept[OF post]] exec_frame[OF f post] by blast
qed

theorem restore_keeps_what_was_there_witness:
  "\<exists>r. fst (skill_restore sample_env ''r1'' ''plan'' linked_world) = Inr r \<and>
     kept (sk_sha sample_env) (w_node linked_world) (w_node (snd (skill_restore sample_env ''r1'' ''plan'' linked_world)))
       (rs_backups r) DestAgents ''/h/.agents/skills/rootline''"
proof -
  obtain r w' where r: "skill_restore sample_env ''r1'' ''plan'' linked_world = (Inr r, w')" by (rule restored_runE)
  show ?thesis
    using restore_keeps_what_was_there[OF placed_sample r] sample_destination sample_clean r by fastforce
qed

section \<open>An error after the link was moved aside\<close>

text \<open>\<open>restoreDestination\<close> returns at once when \<open>stageReceiptedSymlink\<close> fails, also when it fails after the
  rename: then the link stays under its staged name, the destination is empty, nothing is rolled back and the
  receipt records the link as still in place. The other failures of the same function put the link back.\<close>

definition sample_link_action :: plan_action where
  "sample_link_action =
     \<lparr> ac_kind = RemoveManagedSymlink,
       ac_dest = sample_state DestAgents ''/h/.agents/skills/rootline'' KindCorrectSymlink (so_digest src_source) ''/src'' \<rparr>"

definition stage_fault_world :: world where
  "stage_fault_world = linked_world\<lparr> w_faults := replicate 4 Works @ [Denied] \<rparr>"

lemma staged_link_is_not_put_back:
  "(case restore_destination sample_env sample_link_action zero_dest_state zero_backup zero_backup stage_fault_world of
      (Inr (after, undid, Some _), w') \<Rightarrow>
        w_node w' ''/h/.agents/skills/rootline'' = None \<and>
        w_node w' ''/h/.agents/skills/.rootline.rootline-stage.1.0'' = Some (NLink ''/src'') \<and>
        de_kind after = KindCorrectSymlink \<and> \<not> undid
    | _ \<Rightarrow> False)"
  by code_simp

end
