(* ===== verification/Proposals.thy ===== *)
theory Proposals
  imports Stem_Health Inference Doc_Extraction
begin

text \<open>
  Proposals for repairs, \<open>internal/proposal\<close>: what the detectors make of the errors of a validation, how
  \<open>Analyze\<close> lets one kind of proposal take precedence over another, and the report.

  Parameters: \<open>fuzzy\<close>, the closest match of \<open>picokit/fuzzy\<close> (the empty string for none), and \<open>re\<close>,
  \<open>regexp.MatchString\<close>. The errors of a batch are a list of paths with their errors, one iteration order of
  the Go map; the regular expressions the package compiles itself are written out as recognisers. A ratio of
  counts is compared with its threshold as a fraction, which is exact below \<open>2^50\<close> records.
\<close>

section \<open>Proposals\<close>

datatype proposal_type =
    ExtendEnum | MigrateValue | CorrectValue | ExtractBody | InferFromChildren | AddField | CorrectLink
  | InferFromSiblings | CorrectOutlier | AddAggregate | RemoveStemField | PropagateAggregate | SetField
  | SetSection | SchemaEvolution | RemoveField | LooseRequired | ChangeType | ReplaceEnumValues
  | LoosenSeverity | OtherProposal string

record proposal =
  pp_type :: proposal_type
  pp_field :: string
  pp_description :: string
  pp_paths :: "string list"
  pp_value :: string
  pp_from :: string
  pp_to :: string
  pp_wiki_links :: "string list"
  pp_aggregate :: string
  pp_note :: string
  pp_value_source :: string
  pp_from_representation :: string
  pp_heading :: string
  pp_mode :: string

definition mk_proposal :: "proposal_type \<Rightarrow> string \<Rightarrow> string \<Rightarrow> string list \<Rightarrow> proposal" where
  "mk_proposal ty field description paths =
     \<lparr> pp_type = ty, pp_field = field, pp_description = description, pp_paths = paths, pp_value = [],
       pp_from = [], pp_to = [], pp_wiki_links = [], pp_aggregate = [], pp_note = [], pp_value_source = [],
       pp_from_representation = [], pp_heading = [], pp_mode = [] \<rparr>"

record link_finding =
  lf_path :: string
  lf_rule :: string
  lf_message :: string
  lf_suggestion :: string

record type_finding =
  tf_path :: string
  tf_field :: string
  tf_message :: string
  tf_actual :: string

datatype surface =
    SurfaceSchema | SurfaceRepair | SurfaceBootstrap | SurfaceMigration | SurfaceDiagnostic
  | SurfaceRequiresAgent

definition surface_of :: "proposal \<Rightarrow> surface" where
  "surface_of p =
     (let t = pp_type p in
      if t \<in> {ExtendEnum, AddAggregate, RemoveStemField} then SurfaceSchema
      else if t \<in> {CorrectValue, MigrateValue, AddField, ExtractBody, InferFromChildren, InferFromSiblings,
                   CorrectOutlier, CorrectLink} then SurfaceRepair
      else if t \<in> {SchemaEvolution, RemoveField, LooseRequired, ChangeType, ReplaceEnumValues, LoosenSeverity}
        then SurfaceMigration
      else if t = PropagateAggregate then SurfaceRepair
      else if t \<in> {SetField, SetSection} then SurfaceRepair
      else SurfaceDiagnostic)"

section \<open>Reports\<close>

record summary =
  sy_total :: nat
  sy_counts :: "proposal_type \<Rightarrow> nat"

record report =
  rt_version :: nat
  rt_kind :: string
  rt_proposals :: "proposal list"
  rt_suggestions :: "proposal list"
  rt_link_findings :: "link_finding list"
  rt_type_findings :: "type_finding list"
  rt_summary :: summary

text \<open>The kinds a summary has a counter for.\<close>

definition counted :: "proposal_type \<Rightarrow> bool" where
  "counted t = (case t of SetField \<Rightarrow> False | SetSection \<Rightarrow> False | OtherProposal _ \<Rightarrow> False | _ \<Rightarrow> True)"

definition count_proposal :: "summary \<Rightarrow> proposal \<Rightarrow> summary" where
  "count_proposal s p =
     (if counted (pp_type p)
      then s\<lparr> sy_counts := (sy_counts s)(pp_type p := sy_counts s (pp_type p) + 1) \<rparr> else s)"

definition summarize :: "proposal list \<Rightarrow> summary" where
  "summarize ps = foldl count_proposal \<lparr> sy_total = length ps, sy_counts = (\<lambda>_. 0) \<rparr> ps"

definition new_report :: "proposal list \<Rightarrow> type_finding list \<Rightarrow> report" where
  "new_report ps fs =
     \<lparr> rt_version = 1, rt_kind = ''rootline/proposals'', rt_proposals = ps, rt_suggestions = [],
       rt_link_findings = [], rt_type_findings = fs, rt_summary = summarize ps \<rparr>"

definition combine_reports :: "report option list \<Rightarrow> report" where
  "combine_reports rs =
     (let present = List.map_filter (\<lambda>r. r) rs;
          ps = concat (map rt_proposals present);
          ss = concat (map rt_suggestions present)
      in (new_report ps (concat (map rt_type_findings present)))
           \<lparr> rt_suggestions := ss, rt_link_findings := concat (map rt_link_findings present),
             rt_summary := summarize (ps @ ss) \<rparr>)"

section \<open>Reading messages\<close>

definition dquote :: string where "dquote = [CHR 0x22]"

text \<open>The text between the first pair of double quotes, and what follows it.\<close>

definition first_quoted :: "string \<Rightarrow> (string \<times> string) option" where
  "first_quoted msg =
     (case index_of msg dquote of
        None \<Rightarrow> None
      | Some i \<Rightarrow>
          let rest = drop (i + 1) msg in
          (case index_of rest dquote of None \<Rightarrow> None | Some j \<Rightarrow> Some (take j rest, drop (j + 1) rest)))"

definition not_allowed :: string where "not_allowed = '' is not in allowed''"

definition unquoted_value :: "string \<Rightarrow> string option" where
  "unquoted_value msg =
     (if has_prefix msg ''value '' then
        let rest = drop 6 msg in
        (case index_of rest not_allowed of
           None \<Rightarrow> None | Some i \<Rightarrow> if i > 0 then Some (take i rest) else None)
      else None)"

definition extract_enum_value :: "string \<Rightarrow> string" where
  "extract_enum_value msg =
     (case unquoted_value msg of
        Some v \<Rightarrow> v
      | None \<Rightarrow> (case first_quoted msg of None \<Rightarrow> [] | Some (v, _) \<Rightarrow> v))"

definition extract_link_target_and_pattern :: "string \<Rightarrow> string \<times> string" where
  "extract_link_target_and_pattern msg =
     (case first_quoted msg of
        None \<Rightarrow> ([], [])
      | Some (target, rest) \<Rightarrow> (target, case first_quoted rest of None \<Rightarrow> [] | Some (p, _) \<Rightarrow> p))"

section \<open>Blocking information\<close>

function id_like :: "string \<Rightarrow> bool" where
  "id_like s =
     (case s of
        [] \<Rightarrow> False
      | c # cs \<Rightarrow>
          is_upper c \<and> length (takeWhile is_digit cs) \<ge> 2 \<and>
          (case dropWhile is_digit cs of
             [] \<Rightarrow> True
           | sep # rest \<Rightarrow> (sep = CHR ''/'' \<or> sep = CHR ''-'') \<and> id_like rest))"
  by pat_completeness auto
termination
proof (relation "measure length")
  fix s :: string and c cs sep rest assume "s = c # cs" "dropWhile is_digit cs = sep # rest"
  moreover have "length (dropWhile is_digit cs) \<le> length cs" by (rule length_dropWhile_le)
  ultimately show "(rest, s) \<in> measure length" by simp
qed simp

text \<open>What \<open>\s+(.+)\)$\<close> captures.\<close>

definition blocked_tail :: "string \<Rightarrow> string option" where
  "blocked_tail t =
     (if t = [] \<or> last t \<noteq> CHR '')'' then None
      else let u = butlast t; sp = takeWhile re_space u; r = dropWhile re_space u in
        if sp = [] then None
        else if r \<noteq> [] then (if CHR 10 \<in> set r then None else Some r)
        else if length sp \<ge> 2 \<and> last sp \<noteq> CHR 10 then Some [last sp] else None)"

text \<open>The first group is as short as possible, so the first position decides.\<close>

fun blocked_by :: "string \<Rightarrow> string \<Rightarrow> (string \<times> string) option" where
  "blocked_by pre [] = None"
| "blocked_by pre (c # cs) =
     (if c = CHR 10 then None
      else let base = pre @ [c]; rest = dropWhile re_space cs in
        if has_prefix rest ''(blocked by'' then
          (case blocked_tail (drop 11 rest) of
             Some inner \<Rightarrow> Some (base, inner) | None \<Rightarrow> blocked_by base cs)
        else blocked_by base cs)"

definition parse_blocking_info :: "string \<Rightarrow> string \<times> string list \<times> string list" where
  "parse_blocking_info value =
     (case blocked_by [] value of
        None \<Rightarrow> (value, [], [])
      | Some (base, inner) \<Rightarrow>
          let parts = filter (\<lambda>p. p \<noteq> []) (map trim_space (split_on (CHR ''+'') inner)) in
          (trim_space base, filter id_like parts, filter (\<lambda>p. \<not> id_like p) parts))"

section \<open>Detectors of enum errors\<close>

type_synonym batch_errors = "(string \<times> validation_error list) list"

text \<open>The errors of one rule that concern a field of the schema, with the value their message names.\<close>

definition enum_error_value :: "stem_file \<Rightarrow> validation_error \<Rightarrow> (schema_field \<times> string) option" where
  "enum_error_value eff e =
     (if ve_rule e \<noteq> ''enum'' then None
      else case map_of (st_schema eff) (ve_field e) of
        None \<Rightarrow> None
      | Some sf \<Rightarrow>
          let v = extract_enum_value (ve_message e) in
          if v = [] then None else Some (sf, v))"

definition enum_occurrences :: "stem_file \<Rightarrow> batch_errors \<Rightarrow> ((string \<times> string) \<times> string) list" where
  "enum_occurrences eff errs =
     concat (map (\<lambda>(path, es). List.map_filter (\<lambda>e. map_option (\<lambda>(_, v). ((ve_field e, v), path))
       (enum_error_value eff e)) es) errs)"

definition group_paths :: "('k \<times> string) list \<Rightarrow> ('k \<times> string list) list" where
  "group_paths occ = map (\<lambda>k. (k, map snd (filter (\<lambda>x. fst x = k) occ))) (remdups (map fst occ))"

text \<open>The keys of the groups are different, so sorting by them leaves no choice.\<close>

definition detect_extend_enum :: "stem_file \<Rightarrow> batch_errors \<Rightarrow> proposal list" where
  "detect_extend_enum eff errs =
     sort_key (\<lambda>p. [pp_field p, pp_value p])
       (List.map_filter (\<lambda>((field, v), paths).
          if length paths < 2 \<or> str_contains v ''('' then None
          else Some ((mk_proposal ExtendEnum field
                 (''value '' @ go_quote v @ '' appears in '' @ nat_digits (length paths) @
                  '' records; consider adding to .stem enum'') (sort paths))\<lparr> pp_value := v \<rparr>))
          (group_paths (enum_occurrences eff errs)))"

definition for_errors :: "(string \<Rightarrow> validation_error \<Rightarrow> 'a option) \<Rightarrow> batch_errors \<Rightarrow> 'a list" where
  "for_errors f errs = concat (map (\<lambda>(path, es). List.map_filter (f path) es) errs)"

definition migrate_value ::
  "(string \<Rightarrow> string list \<Rightarrow> string) \<Rightarrow> stem_file \<Rightarrow> string \<Rightarrow> validation_error \<Rightarrow> proposal option" where
  "migrate_value fuzzy eff path e =
     (case enum_error_value eff e of
        None \<Rightarrow> None
      | Some (sf, v) \<Rightarrow>
          if sf_values sf = [] then None
          else case parse_blocking_info v of
            (base, targets, notes) \<Rightarrow>
              if targets = [] \<and> notes = [] then None
              else let closest = fuzzy base (sf_values sf);
                       new = (if closest = [] then base else closest) in
                Some ((mk_proposal MigrateValue (ve_field e)
                    (''migrate '' @ go_quote v @ '' to '' @ go_quote new @
                     (if notes = [] then [] else '' (notes: '' @ join_with '', '' notes @ '')'')) [path])
                  \<lparr> pp_from := v, pp_to := new,
                    pp_wiki_links := map (\<lambda>t. ''[[blocks:'' @ t @ '']]'') targets @
                                     map (\<lambda>n. ''[[note:'' @ n @ '']]'') notes \<rparr>))"

definition detect_migrate_value ::
  "(string \<Rightarrow> string list \<Rightarrow> string) \<Rightarrow> stem_file \<Rightarrow> batch_errors \<Rightarrow> proposal list" where
  "detect_migrate_value fuzzy eff errs = for_errors (migrate_value fuzzy eff) errs"

definition correct_value ::
  "(string \<Rightarrow> string list \<Rightarrow> string) \<Rightarrow> stem_file \<Rightarrow> string \<Rightarrow> validation_error \<Rightarrow> proposal option" where
  "correct_value fuzzy eff path e =
     (case enum_error_value eff e of
        None \<Rightarrow> None
      | Some (sf, v) \<Rightarrow>
          if sf_values sf = [] then None
          else let closest = fuzzy v (sf_values sf) in
            if closest \<noteq> [] \<and> closest \<noteq> v then
              Some ((mk_proposal CorrectValue (ve_field e)
                  (''value '' @ go_quote v @ '' is close to '' @ go_quote closest) [path])
                \<lparr> pp_from := v, pp_to := closest \<rparr>)
            else None)"

definition detect_correct_value ::
  "(string \<Rightarrow> string list \<Rightarrow> string) \<Rightarrow> stem_file \<Rightarrow> batch_errors \<Rightarrow> proposal list" where
  "detect_correct_value fuzzy eff errs = for_errors (correct_value fuzzy eff) errs"

section \<open>Detectors of missing fields\<close>

definition map_value :: "string \<Rightarrow> string" where
  "map_value v =
     (let l = to_lower v in
      if l = ''completada'' then ''Completed''
      else if l = ''activa'' then ''In Progress''
      else if l = ''activo'' then ''In Progress''
      else if l = ''pendiente'' then ''Pending'' else v)"

text \<open>The record of a path, the last one of the list.\<close>

definition record_at :: "doc list \<Rightarrow> string \<Rightarrow> doc option" where
  "record_at records path = map_of (rev (map (\<lambda>r. (rc_path r, r)) records)) path"

definition mapped_value :: "(string \<Rightarrow> string list \<Rightarrow> string) \<Rightarrow> stem_file \<Rightarrow> string \<Rightarrow> string \<Rightarrow> string" where
  "mapped_value fuzzy eff field v =
     (let m = map_value v in
      case map_of (st_schema eff) field of
        None \<Rightarrow> m
      | Some sf \<Rightarrow> if sf_values sf \<noteq> [] \<and> m \<notin> set (sf_values sf) then fuzzy m (sf_values sf) else m)"

definition extract_body_value ::
  "(string \<Rightarrow> string list \<Rightarrow> string) \<Rightarrow> doc list \<Rightarrow> stem_file \<Rightarrow> string \<Rightarrow> validation_error \<Rightarrow> proposal option" where
  "extract_body_value fuzzy records eff path e =
     (case record_at records path of
        None \<Rightarrow> None
      | Some r \<Rightarrow>
          if rc_body r = [] \<or> ve_rule e \<noteq> ''required'' then None
          else case map_of (scan_body_fields (rc_body r)) (ve_field e) of
            None \<Rightarrow> None
          | Some v \<Rightarrow>
              let m = mapped_value fuzzy eff (ve_field e) v in
              Some ((mk_proposal ExtractBody (ve_field e)
                  (''extract '' @ go_quote v @ '' from body to frontmatter as '' @ go_quote m) [path])
                \<lparr> pp_from := v, pp_to := m \<rparr>))"

definition detect_extract_body ::
  "(string \<Rightarrow> string list \<Rightarrow> string) \<Rightarrow> doc list \<Rightarrow> stem_file \<Rightarrow> batch_errors \<Rightarrow> proposal list" where
  "detect_extract_body fuzzy records eff errs = for_errors (extract_body_value fuzzy records eff) errs"

definition detect_infer_from_children :: "doc list \<Rightarrow> stem_file \<Rightarrow> batch_errors \<Rightarrow> proposal list" where
  "detect_infer_from_children records eff errs = []"

text \<open>Where the value of an added field comes from.\<close>

definition is_engine_chosen :: "string \<Rightarrow> bool" where
  "is_engine_chosen s = (s = ''enum_first'' \<or> s = ''empty'')"

definition add_field_value :: "schema_field \<Rightarrow> string \<times> string" where
  "add_field_value sf =
     (if sf_default sf \<noteq> [] then (sf_default sf, ''schema_default'')
      else case sf_values sf of v # _ \<Rightarrow> (v, ''enum_first'') | [] \<Rightarrow> ([], ''empty''))"

definition add_field :: "stem_file \<Rightarrow> string \<Rightarrow> validation_error \<Rightarrow> proposal option" where
  "add_field eff path e =
     (if ve_rule e \<noteq> ''required'' then None
      else case map_of (st_schema eff) (ve_field e) of
        None \<Rightarrow> None
      | Some sf \<Rightarrow>
          (case add_field_value sf of
             (v, src) \<Rightarrow> Some ((mk_proposal AddField (ve_field e)
                 (''required field '' @ go_quote (ve_field e) @ '' is missing'') [path])
               \<lparr> pp_value := v, pp_value_source := src \<rparr>)))"

definition detect_add_field :: "stem_file \<Rightarrow> batch_errors \<Rightarrow> proposal list" where
  "detect_add_field eff errs = for_errors (add_field eff) errs"

section \<open>Siblings\<close>

text \<open>The counts of the values, in some iteration order of the map, and the loop over them.\<close>

definition value_counts :: "string list \<Rightarrow> (string \<times> nat) list" where
  "value_counts vs = map (\<lambda>v. (v, count_list vs v)) (remdups vs)"

fun majority_step :: "string \<times> nat \<times> bool \<Rightarrow> string \<times> nat \<Rightarrow> string \<times> nat \<times> bool" where
  "majority_step (best, n, tied) (v, c) =
     (if c > n then (v, c, False) else if c = n then (best, n, True) else (best, n, tied))"

definition majority_of_counts :: "(string \<times> nat) list \<Rightarrow> nat \<Rightarrow> string \<times> nat \<times> nat" where
  "majority_of_counts counts n =
     (case foldl majority_step ([], 0, False) counts of
        (best, c, tied) \<Rightarrow> (if tied then [] else best, c, n))"

definition majority_value :: "string list \<Rightarrow> string \<times> nat \<times> nat" where
  "majority_value vs = (if vs = [] then ([], 0, 0) else majority_of_counts (value_counts vs) (length vs))"

text \<open>The records of each directory, without its index.\<close>

definition sibling_groups :: "doc list \<Rightarrow> doc list list" where
  "sibling_groups records =
     (let rs = filter (\<lambda>r. \<not> has_suffix (rc_path r) ''README.md'') records
      in map (\<lambda>d. filter (\<lambda>r. path_dir (rc_path r) = d) rs) (remdups (map (\<lambda>r. path_dir (rc_path r)) rs)))"

definition pair_key :: "string \<Rightarrow> string \<Rightarrow> string" where
  "pair_key path field = path @ [CHR 0x00] @ field"

definition required_error :: "batch_errors \<Rightarrow> string \<Rightarrow> string \<Rightarrow> bool" where
  "required_error errs path field =
     list_ex (\<lambda>(p, es). p = path \<and> list_ex (\<lambda>e. ve_rule e = ''required'' \<and> ve_field e = field) es) errs"

definition has_error_for :: "batch_errors \<Rightarrow> string \<Rightarrow> string \<Rightarrow> bool" where
  "has_error_for errs path field =
     list_ex (\<lambda>(p, es). list_ex (\<lambda>e. pair_key p (ve_field e) = pair_key path field) es) errs"

definition text_value :: "doc \<Rightarrow> string \<Rightarrow> string option" where
  "text_value r field =
     (case map_of (rc_frontmatter r) field of
        Some (VStr s) \<Rightarrow> if s = [] then None else Some s
      | _ \<Rightarrow> None)"

definition enum_fields :: "stem_file \<Rightarrow> string list" where
  "enum_fields eff = map fst (filter (\<lambda>(_, sf). sf_type sf = ''enum'' \<and> sf_values sf \<noteq> []) (st_schema eff))"

definition infer_sibling_field :: "batch_errors \<Rightarrow> doc list \<Rightarrow> string \<Rightarrow> proposal list" where
  "infer_sibling_field errs siblings field =
     (case majority_value (List.map_filter (\<lambda>r. text_value r field) siblings) of
        (m, c, t) \<Rightarrow>
          if m = [] \<or> t = 0 \<or> 5 * c < 3 * t \<or> c < 2 then []
          else map (\<lambda>r. (mk_proposal InferFromSiblings field
                   (''infer '' @ go_quote m @ '' from '' @ nat_digits t @ '' siblings ('' @ nat_digits c @
                    ''/'' @ nat_digits t @ '' agree)'') [rc_path r])\<lparr> pp_value := m \<rparr>)
                 (filter (\<lambda>r. required_error errs (rc_path r) field) siblings))"

definition detect_infer_from_siblings :: "doc list \<Rightarrow> stem_file \<Rightarrow> batch_errors \<Rightarrow> proposal list" where
  "detect_infer_from_siblings records eff errs =
     concat (map (\<lambda>g. concat (map (infer_sibling_field errs g) (enum_fields eff))) (sibling_groups records))"

definition outlier_candidates :: "batch_errors \<Rightarrow> doc list \<Rightarrow> string \<Rightarrow> (doc \<times> string) list" where
  "outlier_candidates errs siblings field =
     List.map_filter (\<lambda>r. case text_value r field of
        None \<Rightarrow> None | Some s \<Rightarrow> if has_error_for errs (rc_path r) field then None else Some (r, s)) siblings"

definition outlier_field :: "batch_errors \<Rightarrow> doc list \<Rightarrow> string \<Rightarrow> proposal list" where
  "outlier_field errs siblings field =
     (let cs = outlier_candidates errs siblings field in
      case majority_value (map snd cs) of
        (m, c, t) \<Rightarrow>
          if m = [] \<or> t = 0 \<or> 4 * c < 3 * t \<or> c < 3 then []
          else map (\<lambda>(r, s). (mk_proposal CorrectOutlier field
                   (''value '' @ go_quote s @ '' is an outlier among '' @ nat_digits t @
                    '' siblings (majority: '' @ go_quote m @ '', '' @ nat_digits c @ ''/'' @ nat_digits t @ '')'')
                   [rc_path r])\<lparr> pp_from := s, pp_to := m \<rparr>)
                 (filter (\<lambda>(_, s). s \<noteq> m) cs))"

definition detect_outlier_value :: "doc list \<Rightarrow> stem_file \<Rightarrow> batch_errors \<Rightarrow> proposal list" where
  "detect_outlier_value records eff errs =
     concat (map (\<lambda>g. concat (map (outlier_field errs g) (enum_fields eff))) (sibling_groups records))"

section \<open>Links\<close>

definition try_expand_target :: "string \<Rightarrow> string \<Rightarrow> doc list \<Rightarrow> string" where
  "try_expand_target target path records =
     (case filter (\<lambda>b. has_prefix b (target @ ''-''))
             (map (\<lambda>r. trim_suffix (path_base (rc_path r)) ''.md'')
               (filter (\<lambda>r. path_dir (rc_path r) = path_dir path) records)) of
        [b] \<Rightarrow> b | _ \<Rightarrow> [])"

definition retype_accepts :: "(string \<Rightarrow> string \<Rightarrow> string + bool) \<Rightarrow> link_schema \<Rightarrow> string \<Rightarrow> string \<Rightarrow> bool" where
  "retype_accepts re ls target ty =
     (case map_of (ls_rules ls) ty of
        None \<Rightarrow> True
      | Some rule \<Rightarrow> lr_target rule = [] \<or> re (lr_target rule) target = Inr True)"

definition try_retype_link ::
  "(string \<Rightarrow> string \<Rightarrow> string + bool) \<Rightarrow> string \<Rightarrow> string \<Rightarrow> link_schema \<Rightarrow> string" where
  "try_retype_link re target current ls =
     (case find (\<lambda>ty. ty \<noteq> current \<and> retype_accepts re ls target ty) (opt_list (ls_allowed ls)) of
        None \<Rightarrow> [] | Some ty \<Rightarrow> ty)"

definition link_text :: "string \<Rightarrow> string \<Rightarrow> string" where
  "link_text ty target = ''[['' @ ty @ '':'' @ target @ '']]''"

definition link_proposal :: "string \<Rightarrow> string \<Rightarrow> string \<Rightarrow> string \<Rightarrow> proposal" where
  "link_proposal path description old new =
     (mk_proposal CorrectLink ''links'' description [path])\<lparr> pp_from := old, pp_to := new \<rparr>"

definition correct_link ::
  "(string \<Rightarrow> string \<Rightarrow> string + bool) \<Rightarrow> doc list \<Rightarrow> stem_file \<Rightarrow> string \<Rightarrow> validation_error \<Rightarrow> proposal option" where
  "correct_link re records eff path e =
     (case record_at records path of
        None \<Rightarrow> None
      | Some r \<Rightarrow>
          if ve_rule e \<noteq> ''link_target'' then None
          else let target = fst (extract_link_target_and_pattern (ve_message e));
                   ty = (case find (\<lambda>l. lk_target l = target) (rc_links r) of None \<Rightarrow> [] | Some l \<Rightarrow> lk_type l);
                   expanded = try_expand_target target path records;
                   retyped = try_retype_link re target ty (st_links eff)
            in if target = [] \<or> ty = [] then None
               else if expanded \<noteq> [] then
                 Some (link_proposal path
                   (''link '' @ link_text ty target @ '' target abbreviated; expand to '' @ link_text ty expanded)
                   (link_text ty target) (link_text ty expanded))
               else if retyped \<noteq> [] then
                 Some (link_proposal path
                   (''link '' @ link_text ty target @ '' target does not match '' @ ty @
                    '' pattern; change to '' @ link_text retyped target)
                   (link_text ty target) (link_text retyped target))
               else None)"

definition detect_correct_link ::
  "(string \<Rightarrow> string \<Rightarrow> string + bool) \<Rightarrow> doc list \<Rightarrow> stem_file \<Rightarrow> batch_errors \<Rightarrow> proposal list" where
  "detect_correct_link re records eff errs =
     (if links_empty (st_links eff) then [] else for_errors (correct_link re records eff) errs)"

section \<open>Representation errors\<close>

definition scalar_at :: "extracted list \<Rightarrow> string \<Rightarrow> string \<Rightarrow> fm_scalar option" where
  "scalar_at records path field =
     (case map_of (rev (map (\<lambda>x. (rc_path (ex_doc x), x)) records)) path of
        None \<Rightarrow> None | Some x \<Rightarrow> map_of (ex_scalars x) field)"

definition type_repair :: "extracted list \<Rightarrow> string \<Rightarrow> validation_error \<Rightarrow> (proposal + type_finding) option" where
  "type_repair records path e =
     (if ve_rule e \<noteq> ''type'' then None
      else case scalar_at records path (ve_field e) of
        Some sc \<Rightarrow>
          if ve_expected e = ''string'' \<and> is_repairable_representation (ve_actual e) \<and>
             fs_representation sc = ve_actual e
          then Some (Inl ((mk_proposal CorrectValue (ve_field e)
                  (''quote '' @ fs_representation sc @ '' value '' @ go_quote (fs_lexeme sc) @
                   '' as an exact string'') [path])
                \<lparr> pp_from := fs_lexeme sc, pp_to := fs_lexeme sc,
                  pp_from_representation := fs_representation sc \<rparr>))
          else Some (Inr \<lparr> tf_path = path, tf_field = ve_field e, tf_message = ve_message e,
                           tf_actual = ve_actual e \<rparr>)
      | None \<Rightarrow> Some (Inr \<lparr> tf_path = path, tf_field = ve_field e, tf_message = ve_message e,
                             tf_actual = ve_actual e \<rparr>))"

definition detect_type_repairs :: "extracted list \<Rightarrow> batch_errors \<Rightarrow> proposal list \<times> type_finding list" where
  "detect_type_repairs records errs =
     (let xs = for_errors (type_repair records) errs in
      (List.map_filter (case_sum Some (\<lambda>_. None)) xs, List.map_filter (case_sum (\<lambda>_. None) Some) xs))"

section \<open>The analysis\<close>

definition keys_of :: "proposal list \<Rightarrow> string list" where
  "keys_of ps = concat (map (\<lambda>p. map (\<lambda>path. pair_key path (pp_field p)) (pp_paths p)) ps)"

definition uncovered :: "string list \<Rightarrow> proposal \<Rightarrow> bool" where
  "uncovered keys p = list_all (\<lambda>path. pair_key path (pp_field p) \<notin> set keys) (pp_paths p)"

definition schema_proposals ::
  "(string \<Rightarrow> string list \<Rightarrow> string) \<Rightarrow> (string \<Rightarrow> string \<Rightarrow> string + bool) \<Rightarrow> doc list \<Rightarrow> stem_file \<Rightarrow>
     batch_errors \<Rightarrow> proposal list" where
  "schema_proposals fuzzy re records eff errs =
     (let migrate = detect_migrate_value fuzzy eff errs;
          values = filter (\<lambda>v. v \<noteq> []) (map pp_from migrate);
          extend = filter (\<lambda>p. pp_value p \<notin> set values) (detect_extend_enum eff errs);
          correct = filter (uncovered (keys_of migrate)) (detect_correct_value fuzzy eff errs);
          extract = detect_extract_body fuzzy records eff errs;
          children = detect_infer_from_children records eff errs;
          sibling = detect_infer_from_siblings records eff errs;
          add = filter (uncovered (keys_of (extract @ children @ sibling))) (detect_add_field eff errs)
      in extend @ migrate @ correct @ extract @ children @ sibling @ add @
         detect_correct_link re records eff errs @ detect_outlier_value records eff errs)"

definition analyze_errors ::
  "(string \<Rightarrow> string list \<Rightarrow> string) \<Rightarrow> (string \<Rightarrow> string \<Rightarrow> string + bool) \<Rightarrow> extracted list \<Rightarrow>
     stem_file option \<Rightarrow> batch_errors \<Rightarrow> report" where
  "analyze_errors fuzzy re records effective errs =
     (let ps = (case effective of
                  None \<Rightarrow> [] | Some eff \<Rightarrow> schema_proposals fuzzy re (map ex_doc records) eff errs)
      in case detect_type_repairs records errs of (repairs, findings) \<Rightarrow> new_report (ps @ repairs) findings)"

section \<open>Aggregates\<close>

definition detect_missing_aggregates :: "string \<Rightarrow> doc list \<Rightarrow> stem_file option \<Rightarrow> proposal list" where
  "detect_missing_aggregates root records effective =
     (case (effective, analyze_hierarchy records root) of
        (Some eff, Some (root_sch, _)) \<Rightarrow>
          List.map_filter (\<lambda>(name, sf).
            if sf_type sf \<noteq> ''enum'' \<or> sf_values sf = [] \<or> has_key (st_aggregate eff) name \<or>
               generate_aggregate_expr sf = [] then None
            else Some ((mk_proposal AddAggregate name
                   (''would add aggregate for '' @ [CHR 0x27] @ name @ [CHR 0x27]) [path_join root ''.stem''])
                 \<lparr> pp_aggregate := generate_aggregate_expr sf \<rparr>)) root_sch
      | _ \<Rightarrow> [])"

definition descendant_values :: "string \<Rightarrow> string \<Rightarrow> string \<Rightarrow> doc list \<Rightarrow> string list" where
  "descendant_values field dir index records =
     List.map_filter (\<lambda>r. if rc_path r = index \<or> \<not> has_prefix (rc_path r) dir then None
                          else map_option fmt_v (map_of (rc_frontmatter r) field)) records"

definition formula_covers_values :: "string \<Rightarrow> string list \<Rightarrow> bool" where
  "formula_covers_values expr vs = list_all (\<lambda>v. str_contains expr (dquote @ v @ dquote)) vs"

definition propagate_field :: "doc list \<Rightarrow> doc \<Rightarrow> string \<times> val \<Rightarrow> proposal option" where
  "propagate_field records r entry =
     (case entry of (field, formula) \<Rightarrow>
      (case (formula, map_of (rc_derived r) field, map_of (rc_frontmatter r) field) of
         (VStr expr, Some d, Some s) \<Rightarrow>
           if fmt_v d = fmt_v s \<or>
              \<not> formula_covers_values expr
                  (descendant_values field (trim_suffix (rc_path r) ''README.md'') (rc_path r) records)
           then None
           else Some ((mk_proposal PropagateAggregate field
                  (''aggregate computes '' @ go_quote (fmt_v d) @ '' but stored value is '' @ go_quote (fmt_v s))
                  [rc_path r])\<lparr> pp_from := fmt_v s, pp_to := fmt_v d \<rparr>)
       | _ \<Rightarrow> None))"

definition detect_propagate_for_records :: "doc list \<Rightarrow> doc list \<Rightarrow> stem_file option \<Rightarrow> proposal list" where
  "detect_propagate_for_records records targets effective =
     (case effective of
        None \<Rightarrow> []
      | Some eff \<Rightarrow>
          concat (map (\<lambda>r. List.map_filter (propagate_field records r) (st_aggregate eff))
            (filter (\<lambda>r. has_suffix (rc_path r) ''README.md'') targets)))"

definition detect_propagate_aggregate :: "doc list \<Rightarrow> stem_file option \<Rightarrow> proposal list" where
  "detect_propagate_aggregate records effective = detect_propagate_for_records records records effective"

section \<open>Schema evolution and stem health\<close>

definition breaking_change_proposal :: "change \<Rightarrow> string \<Rightarrow> proposal" where
  "breaking_change_proposal c stem =
     (let p = (\<lambda>ty note. (mk_proposal ty (ch_field c) (ch_message c) [stem])\<lparr> pp_note := note \<rparr>);
          moved = (\<lambda>q. q\<lparr> pp_from := ch_before c, pp_to := ch_after c \<rparr>)
      in case ch_kind c of
           FieldRemoved \<Rightarrow> p RemoveField ''field removed from schema during migration''
         | RequiredRemoved \<Rightarrow> moved (p LooseRequired ''required constraint loosened to support legacy records'')
         | TypeChanged \<Rightarrow> moved (p ChangeType ''field type changed during schema evolution'')
         | EnumValueRemoved \<Rightarrow>
             p ReplaceEnumValues ''enum value removed during migration; may require data repair''
         | SeverityChanged \<Rightarrow> moved (p LoosenSeverity ''validation severity reduced'')
         | _ \<Rightarrow> p SchemaEvolution ''breaking change requires explicit evolution approval'')"

definition diff_to_evolution_report :: "diff_result \<Rightarrow> report" where
  "diff_to_evolution_report d =
     (let ps = map (\<lambda>c. breaking_change_proposal c (df_stem_path d)) (filter ch_breaking (df_changes d))
      in (new_report ps [])\<lparr> rt_kind := ''rootline/schema-evolution-proposals'' \<rparr>)"

definition is_sequence_field :: "health_check \<Rightarrow> bool" where
  "is_sequence_field c = (hc_field c = ''id'')"

definition dedup_path ::
  "proposal \<Rightarrow> (string \<times> string) list \<times> proposal list \<Rightarrow> string \<Rightarrow> (string \<times> string) list \<times> proposal list" where
  "dedup_path p acc path =
     (case acc of (seen, result) \<Rightarrow>
        if (path, pp_field p) \<in> set seen then acc else ((path, pp_field p) # seen, result @ [p]))"

definition deduplicate_proposals :: "proposal list \<Rightarrow> proposal list" where
  "deduplicate_proposals ps = snd (foldl (\<lambda>acc p. foldl (dedup_path p) acc (pp_paths p)) ([], []) ps)"

definition remove_stem_field :: "health_check \<Rightarrow> proposal option" where
  "remove_stem_field c =
     (if hc_status c = ''pass'' \<or> hc_field c = [] \<or> hc_path c = [] then None
      else if hc_name c = ''field-override'' then
        if is_sequence_field c then None
        else Some (mk_proposal RemoveStemField (hc_field c)
          (''remove redundant field '' @ go_quote (hc_field c) @ '' from child .stem (inherited from parent)'')
          [hc_path c])
      else if hc_name c = ''type-consistency'' then
        Some (mk_proposal RemoveStemField (hc_field c)
          (''remove field '' @ go_quote (hc_field c) @ '' from child .stem to resolve type conflict with parent'')
          [hc_path c])
      else None)"

definition detect_remove_stem_field :: "health_check list \<Rightarrow> proposal list" where
  "detect_remove_stem_field checks = deduplicate_proposals (List.map_filter remove_stem_field checks)"

section \<open>Lemmas on the majority\<close>

lemma majority_fold_max:
  "foldl majority_step ([], 0, False) cs = (b, n, t) \<Longrightarrow>
     (\<forall>(v, c) \<in> set cs. c \<le> n) \<and> (n > 0 \<longrightarrow> (b, n) \<in> set cs)"
proof (induction cs arbitrary: b n t rule: rev_induct)
  case (snoc x cs)
  obtain v c where x: "x = (v, c)" by (cases x)
  obtain b' n' t' where f: "foldl majority_step ([], 0, False) cs = (b', n', t')" by (metis prod_cases3)
  have le: "\<forall>(v, c) \<in> set cs. c \<le> n'" and mem: "n' > 0 \<longrightarrow> (b', n') \<in> set cs"
    using snoc.IH [OF f] by auto
  show ?case using snoc.prems le mem x f by (auto split: if_splits)
qed simp

lemma majority_fold_tied:
  "\<lbrakk>foldl majority_step ([], 0, False) cs = (b, n, t); distinct (map fst cs); \<forall>(v, c) \<in> set cs. c > 0\<rbrakk> \<Longrightarrow>
     t \<longleftrightarrow> (\<exists>v. v \<noteq> b \<and> (v, n) \<in> set cs)"
proof (induction cs arbitrary: b n t rule: rev_induct)
  case (snoc x cs)
  obtain v c where x: "x = (v, c)" by (cases x)
  obtain b' n' t' where f: "foldl majority_step ([], 0, False) cs = (b', n', t')" by (metis prod_cases3)
  have ih: "t' \<longleftrightarrow> (\<exists>w. w \<noteq> b' \<and> (w, n') \<in> set cs)"
    using snoc.IH [OF f] snoc.prems by auto
  have le: "\<forall>(w, k) \<in> set cs. k \<le> n'" and mem: "n' > 0 \<longrightarrow> (b', n') \<in> set cs"
    using majority_fold_max [OF f] by auto
  have pos: "c > 0" and new: "v \<notin> fst ` set cs" using snoc.prems(2,3) x by auto
  consider "c > n'" | "c = n'" | "c < n'" by linarith
  then show ?case
  proof cases
    case 1
    then have "b = v" "n = c" "\<not> t" using snoc.prems(1) x f by simp_all
    then show ?thesis using le 1 x by fastforce
  next
    case 2
    then have eq: "b = b'" "n = n'" "t" using snoc.prems(1) x f by simp_all
    have "(b', n') \<in> set cs" using mem pos 2 by simp
    then have "v \<noteq> b'" using new by force
    then show ?thesis using eq 2 x by auto
  next
    case 3
    then have "b = b'" "n = n'" "t = t'" using snoc.prems(1) x f by simp_all
    then show ?thesis using ih 3 x by auto
  qed
qed simp

lemma value_counts_facts:
  "distinct (map fst (value_counts vs))"
  "(v, c) \<in> set (value_counts vs) \<longleftrightarrow> v \<in> set vs \<and> c = count_list vs v"
  "\<forall>(v, c) \<in> set (value_counts vs). c > 0"
proof -
  show "distinct (map fst (value_counts vs))" by (simp add: value_counts_def comp_def)
  show mem: "(v, c) \<in> set (value_counts vs) \<longleftrightarrow> v \<in> set vs \<and> c = count_list vs v" for v c
    by (auto simp: value_counts_def)
  have "count_list vs v > 0" if "v \<in> set vs" for v using that by (metis count_list_0_iff gr0I)
  then show "\<forall>(v, c) \<in> set (value_counts vs). c > 0" using mem by auto
qed

text \<open>What the loop gives does not depend on the order in which the map is iterated: the value that is strictly
  more frequent than every other, if there is one.\<close>

lemma majority_of_counts_spec:
  assumes m: "mset cs = mset (value_counts vs)" and vs: "vs \<noteq> []" "[] \<notin> set vs"
    and r: "majority_of_counts cs n = (m, c, k)"
  shows "k = n \<and> c = Max (set (map (count_list vs) vs)) \<and>
         (if m = [] then \<not> (\<exists>w. \<forall>x. x \<noteq> w \<longrightarrow> count_list vs x < count_list vs w)
          else c = count_list vs m \<and> (\<forall>x. x \<noteq> m \<longrightarrow> count_list vs x < c))"
proof -
  obtain b c' t where f: "foldl majority_step ([], 0, False) cs = (b, c', t)" by (metis prod_cases3)
  have s: "set cs = set (value_counts vs)" using m by (metis set_mset_mset)
  have d: "distinct (map fst cs)"
    using m value_counts_facts(1) [of vs] by (metis mset_eq_imp_distinct_iff mset_map)
  have pos: "\<forall>(v, c) \<in> set cs. c > 0" using s value_counts_facts(3) by auto
  have le: "\<And>v. v \<in> set vs \<Longrightarrow> count_list vs v \<le> c'"
    using majority_fold_max [OF f] s value_counts_facts(2) by fastforce
  obtain v0 where v0: "v0 \<in> set vs" using vs(1) by (cases vs) auto
  then have "c' > 0" using le [OF v0] by (metis count_list_0_iff gr0I le_zero_eq)
  then have b: "b \<in> set vs" "c' = count_list vs b"
    using majority_fold_max [OF f] s value_counts_facts(2) by auto
  have mx: "c' = Max (set (map (count_list vs) vs))"
    by (rule sym, rule Max_eqI) (use b le in auto)
  have le': "count_list vs x \<le> c'" for x
    using le [of x] by (cases "x \<in> set vs") (simp_all add: count_list_0_iff)
  have t: "t \<longleftrightarrow> (\<exists>v. v \<noteq> b \<and> count_list vs v = c')"
    using majority_fold_tied [OF f d pos] s value_counts_facts(2) \<open>c' > 0\<close>
    by (metis count_list_0_iff less_irrefl)
  show ?thesis
  proof (cases t)
    case True
    then have "m = []" "c = c'" "k = n" using r f by (simp_all add: majority_of_counts_def)
    moreover have "\<not> (\<exists>w. \<forall>x. x \<noteq> w \<longrightarrow> count_list vs x < count_list vs w)"
    proof
      assume "\<exists>w. \<forall>x. x \<noteq> w \<longrightarrow> count_list vs x < count_list vs w"
      then obtain w where w: "\<forall>x. x \<noteq> w \<longrightarrow> count_list vs x < count_list vs w" by auto
      obtain v where v: "v \<noteq> b" "count_list vs v = c'" using True t by auto
      show False using w v b(2) le' [of w] by (metis leD)
    qed
    ultimately show ?thesis using mx by simp
  next
    case False
    then have e: "m = b" "c = c'" "k = n" using r f by (simp_all add: majority_of_counts_def)
    then have "m \<noteq> []" using b(1) vs(2) by auto
    moreover have "count_list vs x < c'" if "x \<noteq> b" for x
      using le' [of x] that False t by (metis order_le_imp_less_or_eq)
    ultimately show ?thesis using e mx b by simp
  qed
qed

section \<open>What the detectors give\<close>

lemma set_map_filter_iff: "y \<in> set (List.map_filter f xs) \<longleftrightarrow> (\<exists>x \<in> set xs. f x = Some y)"
  by (force simp: List.map_filter_def)

lemma for_errors_iff:
  "p \<in> set (for_errors f errs) \<longleftrightarrow> (\<exists>path es e. (path, es) \<in> set errs \<and> e \<in> set es \<and> f path e = Some p)"
  by (force simp: for_errors_def set_map_filter_iff)

lemma mk_proposal_simps [simp]:
  "pp_type (mk_proposal ty field d paths) = ty" "pp_field (mk_proposal ty field d paths) = field"
  "pp_paths (mk_proposal ty field d paths) = paths" "pp_value (mk_proposal ty field d paths) = []"
  "pp_from (mk_proposal ty field d paths) = []" "pp_from_representation (mk_proposal ty field d paths) = []"
  by (simp_all add: mk_proposal_def)

text \<open>What a proposal that one error gives says: its kind, its field and its path.\<close>

lemma migrate_value_says:
  "migrate_value fuzzy eff path e = Some p \<Longrightarrow>
     pp_type p = MigrateValue \<and> pp_field p = ve_field e \<and> pp_paths p = [path] \<and> pp_from p \<noteq> []"
  by (auto simp: migrate_value_def enum_error_value_def Let_def split: option.splits if_splits prod.splits)

lemma correct_value_says:
  "correct_value fuzzy eff path e = Some p \<Longrightarrow>
     pp_type p = CorrectValue \<and> pp_field p = ve_field e \<and> pp_paths p = [path] \<and>
     (\<exists>sf. map_of (st_schema eff) (ve_field e) = Some sf \<and> pp_to p = fuzzy (pp_from p) (sf_values sf) \<and>
           pp_to p \<noteq> [] \<and> pp_to p \<noteq> pp_from p \<and> pp_from p = extract_enum_value (ve_message e))"
  by (auto simp: correct_value_def enum_error_value_def Let_def split: option.splits if_splits)

lemma extract_body_says:
  "extract_body_value fuzzy records eff path e = Some p \<Longrightarrow>
     pp_type p = ExtractBody \<and> pp_field p = ve_field e \<and> pp_paths p = [path]"
  by (auto simp: extract_body_value_def Let_def split: option.splits if_splits)

lemma add_field_says:
  "add_field eff path e = Some p \<Longrightarrow>
     pp_type p = AddField \<and> pp_field p = ve_field e \<and> pp_paths p = [path]"
  by (auto simp: add_field_def split: option.splits if_splits prod.splits)

lemma correct_link_says:
  "correct_link re records eff path e = Some p \<Longrightarrow>
     pp_type p = CorrectLink \<and> pp_paths p = [path] \<and> ve_rule e = ''link_target''"
  by (auto simp: correct_link_def link_proposal_def Let_def split: option.splits if_splits)

lemma type_repair_says:
  "type_repair records path e = Some (Inl p) \<Longrightarrow>
     pp_type p = CorrectValue \<and> pp_field p = ve_field e \<and> pp_paths p = [path] \<and>
     pp_from_representation p \<noteq> [] \<and> pp_to p = pp_from p"
  by (auto simp: type_repair_def is_repairable_representation_def split: option.splits if_splits)

lemma infer_sibling_says:
  "p \<in> set (detect_infer_from_siblings records eff errs) \<Longrightarrow>
     pp_type p = InferFromSiblings \<and> list_all (\<lambda>path. required_error errs path (pp_field p)) (pp_paths p)"
  by (auto simp: detect_infer_from_siblings_def infer_sibling_field_def split: prod.splits if_splits)

lemma outlier_says: "p \<in> set (detect_outlier_value records eff errs) \<Longrightarrow> pp_type p = CorrectOutlier"
  by (auto simp: detect_outlier_value_def outlier_field_def Let_def split: prod.splits if_splits)

lemma extend_enum_says:
  "p \<in> set (detect_extend_enum eff errs) \<Longrightarrow>
     pp_type p = ExtendEnum \<and>
     pp_paths p = sort (map snd (filter (\<lambda>x. fst x = (pp_field p, pp_value p)) (enum_occurrences eff errs)))"
  by (auto simp: detect_extend_enum_def set_map_filter_iff group_paths_def split: if_splits)

lemmas detector_says = migrate_value_says correct_value_says extract_body_says add_field_says
  correct_link_says type_repair_says infer_sibling_says outlier_says extend_enum_says

lemma detected_kinds:
  "p \<in> set (detect_migrate_value fuzzy eff errs) \<Longrightarrow> pp_type p = MigrateValue"
  "p \<in> set (detect_correct_value fuzzy eff errs) \<Longrightarrow> pp_type p = CorrectValue"
  "p \<in> set (detect_extract_body fuzzy records eff errs) \<Longrightarrow> pp_type p = ExtractBody"
  "p \<in> set (detect_add_field eff errs) \<Longrightarrow> pp_type p = AddField"
  "p \<in> set (detect_correct_link re records eff errs) \<Longrightarrow> pp_type p = CorrectLink"
  "p \<in> set (detect_infer_from_siblings records eff errs) \<Longrightarrow> pp_type p = InferFromSiblings"
  "p \<in> set (detect_outlier_value records eff errs) \<Longrightarrow> pp_type p = CorrectOutlier"
  "p \<in> set (detect_extend_enum eff errs) \<Longrightarrow> pp_type p = ExtendEnum"
  by (auto simp: detect_migrate_value_def detect_correct_value_def detect_extract_body_def
      detect_add_field_def detect_correct_link_def for_errors_iff split: if_splits dest: detector_says)

text \<open>The proposals of each kind come from its detector, filtered by the kinds that take precedence.\<close>

lemma schema_proposals_by_kind:
  assumes p: "p \<in> set (schema_proposals fuzzy re records eff errs)"
  shows "pp_type p = MigrateValue \<longleftrightarrow> p \<in> set (detect_migrate_value fuzzy eff errs)"
    "pp_type p = ExtractBody \<longleftrightarrow> p \<in> set (detect_extract_body fuzzy records eff errs)"
    "pp_type p = InferFromSiblings \<longleftrightarrow> p \<in> set (detect_infer_from_siblings records eff errs)"
    "pp_type p = CorrectOutlier \<longleftrightarrow> p \<in> set (detect_outlier_value records eff errs)"
    "pp_type p = CorrectLink \<longleftrightarrow> p \<in> set (detect_correct_link re records eff errs)"
    "pp_type p = CorrectValue \<Longrightarrow> p \<in> set (detect_correct_value fuzzy eff errs) \<and>
       uncovered (keys_of (detect_migrate_value fuzzy eff errs)) p"
    "pp_type p = AddField \<Longrightarrow> p \<in> set (detect_add_field eff errs) \<and>
       uncovered (keys_of (detect_extract_body fuzzy records eff errs @
         detect_infer_from_siblings records eff errs)) p"
    "pp_type p = ExtendEnum \<Longrightarrow> p \<in> set (detect_extend_enum eff errs) \<and>
       pp_value p \<notin> set (filter (\<lambda>v. v \<noteq> []) (map pp_from (detect_migrate_value fuzzy eff errs)))"
    "pp_type p \<in> {MigrateValue, ExtractBody, InferFromSiblings, CorrectOutlier, CorrectLink, CorrectValue,
       AddField, ExtendEnum}"
  using p unfolding schema_proposals_def Let_def detect_infer_from_children_def
  by (auto dest: detected_kinds)

section \<open>Precedence\<close>

text \<open>A proposal of a kind that gives way to one of another kind for the same field of the same document: a
  correction or an extension of an enum to a migration of the value, an invented value to a found one.\<close>

definition shares_field :: "proposal \<Rightarrow> proposal \<Rightarrow> bool" where
  "shares_field p q \<longleftrightarrow> pp_field p = pp_field q \<and> (\<exists>path \<in> set (pp_paths p). path \<in> set (pp_paths q))"

definition overruled :: "proposal \<Rightarrow> proposal \<Rightarrow> bool" where
  "overruled p q =
     (if pp_type p = MigrateValue \<and> pp_type q = CorrectValue
        then pp_from_representation q = [] \<and> shares_field p q
      else if pp_type p = MigrateValue \<and> pp_type q = ExtendEnum then pp_value q = pp_from p
      else if (pp_type p = ExtractBody \<or> pp_type p = InferFromSiblings) \<and> pp_type q = AddField
        then shares_field p q
      else False)"

lemma uncovered_not_shared:
  "\<lbrakk>uncovered (keys_of ps) q; p \<in> set ps\<rbrakk> \<Longrightarrow> \<not> shares_field p q"
  by (fastforce simp: uncovered_def keys_of_def shares_field_def list_all_iff)

lemma analyze_errors_proposals:
  "set (rt_proposals (analyze_errors fuzzy re records effective errs)) =
     (case effective of None \<Rightarrow> {} | Some eff \<Rightarrow> set (schema_proposals fuzzy re (map ex_doc records) eff errs)) \<union>
     {p. Inl p \<in> set (for_errors (type_repair records) errs)}"
proof -
  have inl: "case_sum Some (\<lambda>_. None) x = Some p \<longleftrightarrow> x = Inl p" for x :: "proposal + type_finding" and p
    by (cases x) auto
  show ?thesis
    by (auto simp: analyze_errors_def detect_type_repairs_def new_report_def set_map_filter_iff inl Let_def
        split: option.splits)
qed

text \<open>C11: The analysis never lists a proposal together with one that takes precedence over it: no value is both
  migrated and corrected or added to its enum, and no missing field gets an invented value where the body of the
  document or its siblings give one.\<close>

theorem analysis_respects_precedence:
  "\<not> (\<exists>p \<in> set (rt_proposals (analyze_errors fuzzy re records effective errs)).
       \<exists>q \<in> set (rt_proposals (analyze_errors fuzzy re records effective errs)). overruled p q)"
proof -
  have False
    if p: "p \<in> set (rt_proposals (analyze_errors fuzzy re records effective errs))"
      and q: "q \<in> set (rt_proposals (analyze_errors fuzzy re records effective errs))"
      and o: "overruled p q" for p q
  proof -
    have kinds: "pp_type p \<in> {MigrateValue, ExtractBody, InferFromSiblings}"
      "pp_type q \<noteq> CorrectValue \<or> pp_from_representation q = []"
      using o by (auto simp: overruled_def split: if_splits)
    have "Inl p \<notin> set (for_errors (type_repair records) errs)"
      "Inl q \<notin> set (for_errors (type_repair records) errs)"
      using kinds o by (auto simp: for_errors_iff overruled_def split: if_splits dest!: type_repair_says)
    then obtain eff where pq: "p \<in> set (schema_proposals fuzzy re (map ex_doc records) eff errs)"
        "q \<in> set (schema_proposals fuzzy re (map ex_doc records) eff errs)"
      using p q by (auto simp: analyze_errors_proposals split: option.splits)
    note P = schema_proposals_by_kind [OF pq(1)] and Q = schema_proposals_by_kind [OF pq(2)]
    consider "pp_type p = MigrateValue" "pp_type q = CorrectValue" "shares_field p q"
      | "pp_type p = MigrateValue" "pp_type q = ExtendEnum" "pp_value q = pp_from p"
      | "pp_type p = ExtractBody \<or> pp_type p = InferFromSiblings" "pp_type q = AddField" "shares_field p q"
      using o by (auto simp: overruled_def split: if_splits)
    then show False
    proof cases
      case 1
      then show False using P(1) Q(6) uncovered_not_shared by metis
    next
      case 2
      have m: "p \<in> set (detect_migrate_value fuzzy eff errs)" using 2(1) P(1) by simp
      then have "pp_from p \<noteq> []"
        by (auto simp: detect_migrate_value_def for_errors_iff dest: migrate_value_says)
      then show False using m Q(8) [OF 2(2)] 2(3) by auto
    next
      case 3
      then have "p \<in> set (detect_extract_body fuzzy (map ex_doc records) eff errs @
          detect_infer_from_siblings (map ex_doc records) eff errs)"
        using P(2,3) by auto
      then show False using uncovered_not_shared Q(7) [OF 3(2)] 3(3) by metis
    qed
  qed
  then show ?thesis by blast
qed

section \<open>Proposals and the errors they answer\<close>

text \<open>The error a proposal answers, by its kind: a missing field, a value outside the enum that the message of the
  error names, a scalar that is no string, or a link whose target the message names.\<close>

definition answers_error :: "proposal \<Rightarrow> validation_error \<Rightarrow> bool" where
  "answers_error p e =
     (let v = extract_enum_value (ve_message e) in
      case pp_type p of
        AddField \<Rightarrow> ve_rule e = ''required'' \<and> ve_field e = pp_field p
      | ExtractBody \<Rightarrow> ve_rule e = ''required'' \<and> ve_field e = pp_field p
      | InferFromSiblings \<Rightarrow> ve_rule e = ''required'' \<and> ve_field e = pp_field p
      | ExtendEnum \<Rightarrow> ve_rule e = ''enum'' \<and> ve_field e = pp_field p \<and> pp_value p = v
      | MigrateValue \<Rightarrow> ve_rule e = ''enum'' \<and> ve_field e = pp_field p \<and> pp_from p = v
      | CorrectValue \<Rightarrow> ve_field e = pp_field p \<and>
          (if pp_from_representation p = [] then ve_rule e = ''enum'' \<and> pp_from p = v
           else ve_rule e = ''type'' \<and> ve_expected e = ''string'' \<and> ve_actual e = pp_from_representation p)
      | CorrectLink \<Rightarrow> ve_rule e = ''link_target'' \<and>
          (\<exists>ty. pp_from p = link_text ty (fst (extract_link_target_and_pattern (ve_message e))))
      | _ \<Rightarrow> False)"

definition answers :: "batch_errors \<Rightarrow> proposal \<Rightarrow> string \<Rightarrow> bool" where
  "answers errs p path = (\<exists>(q, es) \<in> set errs. q = path \<and> (\<exists>e \<in> set es. answers_error p e))"

text \<open>The values the documents of a directory have for a field, without its index and without the documents
  that have an error for the field.\<close>

definition sibling_values :: "batch_errors \<Rightarrow> doc list \<Rightarrow> string \<Rightarrow> string \<Rightarrow> string list" where
  "sibling_values errs records dir field =
     List.map_filter (\<lambda>r. text_value r field)
       (filter (\<lambda>r. \<not> has_suffix (rc_path r) ''README.md'' \<and> path_dir (rc_path r) = dir \<and>
          \<not> has_error_for errs (rc_path r) field) records)"

text \<open>An outlier: the document has another value than at least three of its siblings, and three in four of
  them all.\<close>

definition is_outlier :: "batch_errors \<Rightarrow> doc list \<Rightarrow> stem_file \<Rightarrow> proposal \<Rightarrow> bool" where
  "is_outlier errs records eff p =
     (pp_field p \<in> set (enum_fields eff) \<and>
      (\<exists>r \<in> set records. pp_paths p = [rc_path r] \<and> \<not> has_suffix (rc_path r) ''README.md'' \<and>
         \<not> has_error_for errs (rc_path r) (pp_field p) \<and>
         text_value r (pp_field p) = Some (pp_from p) \<and> pp_from p \<noteq> pp_to p \<and>
         (let vs = sibling_values errs records (path_dir (rc_path r)) (pp_field p); n = count_list vs (pp_to p)
          in n \<ge> 3 \<and> 4 * n \<ge> 3 * length vs)))"

lemma enum_error_valueD:
  "enum_error_value eff e = Some (sf, v) \<Longrightarrow>
     ve_rule e = ''enum'' \<and> v = extract_enum_value (ve_message e) \<and> v \<noteq> []"
  by (auto simp: enum_error_value_def Let_def split: option.splits if_splits)

lemma for_errors_answers:
  assumes "p \<in> set (for_errors f errs)"
    and "\<And>path e. f path e = Some p \<Longrightarrow> pp_paths p = [path] \<and> answers_error p e"
  shows "pp_paths p \<noteq> [] \<and> (\<forall>path \<in> set (pp_paths p). answers errs p path)"
  using assms by (fastforce simp: for_errors_iff answers_def)

lemma migrate_value_answers:
  "migrate_value fuzzy eff path e = Some p \<Longrightarrow> pp_paths p = [path] \<and> answers_error p e"
  by (auto simp: migrate_value_def answers_error_def Let_def dest!: enum_error_valueD
      split: option.splits if_splits prod.splits)

lemma correct_value_answers:
  "correct_value fuzzy eff path e = Some p \<Longrightarrow> pp_paths p = [path] \<and> answers_error p e"
  by (auto simp: correct_value_def answers_error_def Let_def dest!: enum_error_valueD
      split: option.splits if_splits prod.splits)

lemma extract_body_answers:
  "extract_body_value fuzzy records eff path e = Some p \<Longrightarrow> pp_paths p = [path] \<and> answers_error p e"
  by (auto simp: extract_body_value_def answers_error_def Let_def split: option.splits if_splits)

lemma add_field_answers:
  "add_field eff path e = Some p \<Longrightarrow> pp_paths p = [path] \<and> answers_error p e"
  by (auto simp: add_field_def answers_error_def Let_def split: option.splits if_splits prod.splits)

lemma correct_link_answers:
  "correct_link re records eff path e = Some p \<Longrightarrow> pp_paths p = [path] \<and> answers_error p e"
  by (auto simp: correct_link_def link_proposal_def answers_error_def Let_def split: option.splits if_splits)

lemma type_repair_answers:
  "type_repair records path e = Some (Inl p) \<Longrightarrow> pp_paths p = [path] \<and> answers_error p e"
  by (auto simp: type_repair_def answers_error_def is_repairable_representation_def Let_def
      split: option.splits if_splits)

lemma extend_enum_answers:
  assumes "p \<in> set (detect_extend_enum eff errs)"
  shows "pp_paths p \<noteq> [] \<and> (\<forall>path \<in> set (pp_paths p). answers errs p path)"
proof
  from assms have ty: "pp_type p = ExtendEnum"
    and paths: "pp_paths p = sort (map snd (filter (\<lambda>x. fst x = (pp_field p, pp_value p)) (enum_occurrences eff errs)))"
    using extend_enum_says by blast+
  from assms have "2 \<le> length (pp_paths p)"
    by (auto simp: detect_extend_enum_def set_map_filter_iff split: if_splits)
  then show "pp_paths p \<noteq> []" by auto
  show "\<forall>path \<in> set (pp_paths p). answers errs p path"
  proof
    fix path assume "path \<in> set (pp_paths p)"
    then have "((pp_field p, pp_value p), path) \<in> set (enum_occurrences eff errs)" by (auto simp: paths)
    then obtain es e sf where "(path, es) \<in> set errs" "e \<in> set es" "ve_field e = pp_field p"
      "enum_error_value eff e = Some (sf, pp_value p)"
      by (auto simp: enum_occurrences_def set_map_filter_iff)
    then show "answers errs p path"
      using enum_error_valueD [of eff e sf] ty by (fastforce simp: answers_def answers_error_def Let_def)
  qed
qed

lemma sibling_answers:
  assumes "p \<in> set (detect_infer_from_siblings records eff errs)"
  shows "pp_paths p \<noteq> [] \<and> (\<forall>path \<in> set (pp_paths p). answers errs p path)"
proof -
  from assms have "pp_paths p \<noteq> []"
    by (auto simp: detect_infer_from_siblings_def infer_sibling_field_def split: prod.splits if_splits)
  with infer_sibling_says [OF assms] show ?thesis
    by (fastforce simp: list_all_iff list_ex_iff answers_def answers_error_def required_error_def Let_def)
qed

lemma schema_proposal_answers:
  assumes p: "p \<in> set (schema_proposals fuzzy re records eff errs)" and o: "pp_type p \<noteq> CorrectOutlier"
  shows "pp_paths p \<noteq> [] \<and> (\<forall>path \<in> set (pp_paths p). answers errs p path)"
proof -
  note K = schema_proposals_by_kind [OF p]
  consider "p \<in> set (for_errors (migrate_value fuzzy eff) errs)"
    | "p \<in> set (for_errors (extract_body_value fuzzy records eff) errs)"
    | "p \<in> set (for_errors (correct_link re records eff) errs)"
    | "p \<in> set (for_errors (correct_value fuzzy eff) errs)" | "p \<in> set (for_errors (add_field eff) errs)"
    | "p \<in> set (detect_infer_from_siblings records eff errs)" | "p \<in> set (detect_extend_enum eff errs)"
    using K o by (auto simp: detect_migrate_value_def detect_extract_body_def detect_correct_link_def
        detect_correct_value_def detect_add_field_def split: if_splits)
  then show ?thesis
  proof cases
    case 1
    show ?thesis by (rule for_errors_answers [OF 1 migrate_value_answers])
  next
    case 2
    show ?thesis by (rule for_errors_answers [OF 2 extract_body_answers])
  next
    case 3
    show ?thesis by (rule for_errors_answers [OF 3 correct_link_answers])
  next
    case 4
    show ?thesis by (rule for_errors_answers [OF 4 correct_value_answers])
  next
    case 5
    show ?thesis by (rule for_errors_answers [OF 5 add_field_answers])
  qed (simp_all add: sibling_answers extend_enum_answers)
qed

lemma text_value_nonempty: "text_value r field \<noteq> Some []"
  by (auto simp: text_value_def split: option.splits val.splits)

lemma majority_value_counts:
  assumes "majority_value vs = (m, c, t)" "m \<noteq> []" "[] \<notin> set vs"
  shows "t = length vs \<and> c = count_list vs m"
proof (cases "vs = []")
  case False
  with assms majority_of_counts_spec [of "value_counts vs" vs "length vs" m c t] show ?thesis
    by (simp add: majority_value_def)
qed (use assms in \<open>simp add: majority_value_def\<close>)

lemma outlier_candidate_values:
  "map snd (outlier_candidates errs rs field) =
     List.map_filter (\<lambda>r. text_value r field) (filter (\<lambda>r. \<not> has_error_for errs (rc_path r) field) rs)"
  by (induction rs) (auto simp: outlier_candidates_def List.map_filter_def split: option.split)

lemma outlier_field_is_outlier:
  assumes p: "p \<in> set (outlier_field errs g field)" and g: "g \<in> set (sibling_groups records)"
    and field: "field \<in> set (enum_fields eff)"
  shows "is_outlier errs records eff p"
proof -
  let ?cs = "outlier_candidates errs g field"
  obtain dir where dir: "g = filter (\<lambda>r. path_dir (rc_path r) = dir)
      (filter (\<lambda>r. \<not> has_suffix (rc_path r) ''README.md'') records)"
    using g by (auto simp: sibling_groups_def Let_def)
  have vs: "map snd ?cs = sibling_values errs records dir field"
    unfolding outlier_candidate_values dir sibling_values_def filter_filter by (simp add: conj_ac)
  obtain m c t where m: "majority_value (map snd ?cs) = (m, c, t)" by (metis prod_cases3)
  with p obtain r v where rv: "(r, v) \<in> set ?cs" "v \<noteq> m" "m \<noteq> []" "4 * c \<ge> 3 * t" "c \<ge> 3"
    "pp_field p = field" "pp_paths p = [rc_path r]" "pp_from p = v" "pp_to p = m"
    by (auto simp: outlier_field_def Let_def not_less split: if_splits)
  have "[] \<notin> set (map snd ?cs)"
    unfolding outlier_candidate_values using text_value_nonempty by (simp add: set_map_filter_iff)
  from majority_value_counts [OF m rv(3) this] vs
  have "t = length (sibling_values errs records dir field)" "c = count_list (sibling_values errs records dir field) m"
    by simp_all
  moreover from rv(1) have "r \<in> set g" "text_value r field = Some v" "\<not> has_error_for errs (rc_path r) field"
    by (auto simp: outlier_candidates_def set_map_filter_iff split: option.splits if_splits)
  ultimately show ?thesis using rv field dir unfolding is_outlier_def Let_def by auto
qed

text \<open>C39: Every proposal of the analysis answers errors that the validation reported, one for each of its documents: a value
  is added, taken from the body or inferred from the siblings only for a required field that is reported as missing, a value is
  migrated, corrected or added to the enum only where an enum error of the field names it, a scalar is
  quoted only for a type error of the field that expected a string, and a link is changed only for a link
  error that names its target. The one kind that touches a document without an error for the field is the correction of an
  outlier: its value of an enum field differs from one that at least three and at least three quarters of the
  documents of its directory have, not counting the index and those with an error for the field.\<close>

theorem proposals_answer_errors:
  "\<forall>p \<in> set (rt_proposals (analyze_errors fuzzy re records effective errs)).
     if pp_type p = CorrectOutlier
     then \<exists>eff. effective = Some eff \<and> is_outlier errs (map ex_doc records) eff p
     else pp_paths p \<noteq> [] \<and> (\<forall>path \<in> set (pp_paths p). answers errs p path)"
proof
  fix p assume p: "p \<in> set (rt_proposals (analyze_errors fuzzy re records effective errs))"
  show "if pp_type p = CorrectOutlier
     then \<exists>eff. effective = Some eff \<and> is_outlier errs (map ex_doc records) eff p
     else pp_paths p \<noteq> [] \<and> (\<forall>path \<in> set (pp_paths p). answers errs p path)"
  proof (cases "Inl p \<in> set (for_errors (type_repair records) errs)")
    case True
    then obtain path es e where e: "(path, es) \<in> set errs" "e \<in> set es" "type_repair records path e = Some (Inl p)"
      by (auto simp: for_errors_iff)
    with type_repair_answers [OF e(3)] type_repair_says [OF e(3)] show ?thesis
      by (fastforce simp: answers_def)
  next
    case False
    with p obtain eff where eff: "effective = Some eff"
      and s: "p \<in> set (schema_proposals fuzzy re (map ex_doc records) eff errs)"
      by (auto simp: analyze_errors_proposals split: option.splits)
    show ?thesis
    proof (cases "pp_type p = CorrectOutlier")
      case True
      with schema_proposals_by_kind(4) [OF s] outlier_field_is_outlier eff show ?thesis
        by (auto simp: detect_outlier_value_def)
    next
      case False
      with schema_proposal_answers [OF s] show ?thesis by simp
    qed
  qed
qed

section \<open>Reading the messages of the validation back\<close>

lemma not_allowed_no_border:
  assumes "0 < k" "k < length not_allowed" shows "drop k not_allowed \<noteq> take (length not_allowed - k) not_allowed"
proof -
  have "list_all (\<lambda>k. drop k not_allowed \<noteq> take (length not_allowed - k) not_allowed) [1..<length not_allowed]"
    by code_simp
  then show ?thesis using assms by (simp add: list_all_iff)
qed

lemma not_allowed_first:
  assumes "\<not> str_contains v not_allowed" "v \<noteq> []" shows "\<not> has_prefix (v @ not_allowed @ r) not_allowed"
proof
  assume "has_prefix (v @ not_allowed @ r) not_allowed"
  then obtain s where s: "v @ not_allowed @ r = not_allowed @ s" by (auto simp: has_prefix_iff)
  show False
  proof (cases "length not_allowed \<le> length v")
    case True
    then have "not_allowed = take (length not_allowed) v" using arg_cong [OF s, of "take (length not_allowed)"] by simp
    then have "v = [] @ not_allowed @ drop (length not_allowed) v" by (metis append_Nil append_take_drop_id)
    then show False using assms(1) str_contains_iff by blast
  next
    case False
    define k where "k = length v"
    have k: "0 < k" "k < length not_allowed" using False assms(2) by (auto simp: k_def)
    have "take (length not_allowed - k) not_allowed = take (length not_allowed - k) (drop k (v @ not_allowed @ r))"
      using k by (simp add: k_def)
    also have "\<dots> = drop k not_allowed" unfolding s using k by (simp add: drop_append)
    finally show False using not_allowed_no_border [OF k] by simp
  qed
qed

lemma index_of_not_allowed:
  "\<not> str_contains v not_allowed \<Longrightarrow> index_of (v @ not_allowed @ r) not_allowed = Some (length v)"
proof (induction v)
  case Nil
  show ?case by (cases "not_allowed @ r") (simp_all add: not_allowed_def)
next
  case (Cons c v)
  have "\<not> str_contains v not_allowed" using Cons.prems str_contains_Cons by blast
  moreover have "\<not> has_prefix (c # v @ not_allowed @ r) not_allowed"
    using not_allowed_first [OF Cons.prems] by simp
  ultimately show ?case using Cons.IH by simp
qed

text \<open>The first quoted text of a message, the empty text when there is none.\<close>

definition quoted_in :: "string \<Rightarrow> string" where
  "quoted_in msg = (case first_quoted msg of None \<Rightarrow> [] | Some (v, _) \<Rightarrow> v)"

lemma extract_from_message:
  assumes "\<not> str_contains v not_allowed"
  shows "extract_enum_value (''value '' @ v @ not_allowed @ r) =
     (if v \<noteq> [] then v else quoted_in (''value '' @ not_allowed @ r))"
proof -
  have "unquoted_value (''value '' @ v @ not_allowed @ r) = (if v \<noteq> [] then Some v else None)"
    using index_of_not_allowed [OF assms, of r] has_prefix_append [of "''value ''"]
    by (simp add: unquoted_value_def Let_def)
  then show ?thesis by (simp add: extract_enum_value_def quoted_in_def)
qed

lemma contract_enum_message:
  assumes "is_code i = ''invalid-enum''"
  shows "\<exists>r. ve_message (validation_error_from_contract fuzzy name field i) = ''value '' @ is_actual i @ not_allowed @ r"
  using assms by (simp add: validation_error_from_contract_def Let_def not_allowed_def)

lemma rule_enum_message:
  assumes "resolve_effective_field gm r eff (vr_field rule) = Inr (Some w)" "e \<in> set (check_enum gm fuzzy r eff rule)"
  shows "\<exists>r. ve_message e = ''value '' @ fmt_v w @ not_allowed @ r"
  using assms by (auto simp: check_enum_def Let_def not_allowed_def mk_error_def split: option.splits if_splits)

text \<open>C38: The analysis reads back from the message of an enum error exactly the value that the validation refused, as it
  prints it, whatever suggestion the message adds: this is what is corrected, migrated or added to the enum. It holds for both
  sources of such errors, the type check of a field and an \<open>enum\<close> rule. Two exceptions: a value that itself contains
  the words \<open> is not in allowed\<close>, which the theorem excludes, and the empty value, for which the analysis takes the
  first quoted text of the message, or nothing when there is none.
\<close>

theorem enum_message_read_back:
  assumes "\<not> str_contains v not_allowed"
  shows "(is_code i = ''invalid-enum'' \<and> is_actual i = v \<longrightarrow>
       (let msg = ve_message (validation_error_from_contract fuzzy name field i) in
        extract_enum_value msg = (if v \<noteq> [] then v else quoted_in msg))) \<and>
     (resolve_effective_field gm r eff (vr_field rule) = Inr (Some w) \<and> fmt_v w = v \<longrightarrow>
       (\<forall>e \<in> set (check_enum gm fuzzy r eff rule).
          extract_enum_value (ve_message e) = (if v \<noteq> [] then v else quoted_in (ve_message e))))"
proof (intro conjI impI ballI; (elim conjE)?)
  assume i: "is_code i = ''invalid-enum''" "is_actual i = v"
  with contract_enum_message [OF i(1), of fuzzy name field] extract_from_message [OF assms]
  show "let msg = ve_message (validation_error_from_contract fuzzy name field i) in
        extract_enum_value msg = (if v \<noteq> [] then v else quoted_in msg)" by fastforce
next
  fix e assume "resolve_effective_field gm r eff (vr_field rule) = Inr (Some w)" "fmt_v w = v"
    "e \<in> set (check_enum gm fuzzy r eff rule)"
  with rule_enum_message [of gm r eff rule w e fuzzy] extract_from_message [OF assms]
  show "extract_enum_value (ve_message e) = (if v \<noteq> [] then v else quoted_in (ve_message e))" by fastforce
qed

text \<open>For an empty value the quoted suggestion is read as the value of the document.\<close>

lemma empty_value_reads_suggestion:
  "extract_enum_value (ve_message (validation_error_from_contract (\<lambda>_ vs. hd vs) ''state''
     (zero_field\<lparr> sf_type := ''enum'', sf_values := [''Open'', ''Done''] \<rparr>)
     (mk_issue ''invalid-enum'' [] [] []))) = ''Open''"
  by code_simp

text \<open>A proposal to correct an enum value (the exact quoting of a scalar apart) names a declared value of the
  field that is not the value it replaces, for every fuzzy matcher that answers with a candidate or nothing.
\<close>

theorem corrections_are_declared:
  assumes fuzzy: "\<And>s vs. fuzzy s vs \<noteq> [] \<Longrightarrow> fuzzy s vs \<in> set vs"
    and p: "p \<in> set (rt_proposals (analyze_errors fuzzy re records (Some eff) errs))"
    and k: "pp_type p = CorrectValue" "pp_from_representation p = []"
  shows "\<exists>sf. map_of (st_schema eff) (pp_field p) = Some sf \<and> pp_to p \<in> set (sf_values sf) \<and> pp_to p \<noteq> pp_from p"
proof -
  have "Inl p \<notin> set (for_errors (type_repair records) errs)"
    using k(2) by (auto simp: for_errors_iff dest!: type_repair_says)
  then have s: "p \<in> set (schema_proposals fuzzy re (map ex_doc records) eff errs)"
    using p by (simp add: analyze_errors_proposals)
  then obtain path e where e: "correct_value fuzzy eff path e = Some p"
    using schema_proposals_by_kind(6) [OF s k(1)] by (auto simp: detect_correct_value_def for_errors_iff)
  then show ?thesis using correct_value_says [OF e] fuzzy by metis
qed

definition sample_enum :: schema_field where
  "sample_enum = zero_field\<lparr> sf_type := ''enum'', sf_required := True, sf_values := [''Open'', ''Done''] \<rparr>"

definition sample_stem :: stem_file where
  "sample_stem = zero_stem\<lparr> st_schema := [(''state'', sample_enum)] \<rparr>"

definition first_candidate :: "string \<Rightarrow> string list \<Rightarrow> string" where
  "first_candidate s vs = (case vs of [] \<Rightarrow> [] | v # _ \<Rightarrow> v)"

definition no_candidate :: "string \<Rightarrow> string list \<Rightarrow> string" where
  "no_candidate s vs = []"

definition sample_errors :: batch_errors where
  "sample_errors = [(''a.md'', [validation_error_from_contract first_candidate ''state'' sample_enum
     (mk_issue ''invalid-enum'' [] ''Opne'' [])])]"

lemma sample_analysis:
  "map (\<lambda>p. (pp_type p, pp_field p, pp_from p, pp_to p, pp_paths p, pp_from_representation p))
     (rt_proposals (analyze_errors first_candidate any_regexp [] (Some sample_stem) sample_errors)) =
   [(CorrectValue, ''state'', ''Opne'', ''Open'', [''a.md''], [])]"
  by code_simp

theorem corrections_are_declared_witness:
  "\<exists>p \<in> set (rt_proposals (analyze_errors first_candidate any_regexp [] (Some sample_stem) sample_errors)).
     \<exists>sf. map_of (st_schema sample_stem) (pp_field p) = Some sf \<and> pp_to p \<in> set (sf_values sf) \<and> pp_to p \<noteq> pp_from p"
proof -
  obtain p where p: "p \<in> set (rt_proposals (analyze_errors first_candidate any_regexp [] (Some sample_stem) sample_errors))"
      "pp_type p = CorrectValue" "pp_from_representation p = []"
    using sample_analysis by (auto simp: map_eq_Cons_conv)
  have "\<And>s vs. first_candidate s vs \<noteq> [] \<Longrightarrow> first_candidate s vs \<in> set vs"
    by (auto simp: first_candidate_def split: list.splits)
  from corrections_are_declared [OF this p] p(1) show ?thesis by blast
qed

text \<open>A misspelt value beside a document that disagrees with three siblings.\<close>

definition state_doc :: "string \<Rightarrow> string \<Rightarrow> extracted" where
  "state_doc path v = \<lparr> ex_doc = zero_doc\<lparr> rc_path := path, rc_frontmatter := [(''state'', VStr v)] \<rparr>, ex_scalars = [] \<rparr>"

definition sample_siblings :: "extracted list" where
  "sample_siblings = [state_doc ''a.md'' ''Opne'', state_doc ''b.md'' ''Done'', state_doc ''c.md'' ''Done'',
     state_doc ''d.md'' ''Done'', state_doc ''e.md'' ''Open'']"

theorem proposals_answer_errors_witness:
  "\<exists>p q. rt_proposals (analyze_errors first_candidate any_regexp sample_siblings (Some sample_stem) sample_errors) = [p, q] \<and>
     pp_type p = CorrectValue \<and> pp_paths p = [''a.md''] \<and> answers sample_errors p ''a.md'' \<and>
     pp_type q = CorrectOutlier \<and> is_outlier sample_errors (map ex_doc sample_siblings) sample_stem q"
proof -
  let ?ps = "rt_proposals (analyze_errors first_candidate any_regexp sample_siblings (Some sample_stem) sample_errors)"
  have "map (\<lambda>p. (pp_type p, pp_paths p)) ?ps = [(CorrectValue, [''a.md'']), (CorrectOutlier, [''e.md''])]"
    by code_simp
  then obtain p q where pq: "?ps = [p, q]" "pp_type p = CorrectValue" "pp_paths p = [''a.md'']"
    "pp_type q = CorrectOutlier" by (auto simp: map_eq_Cons_conv)
  with proposals_answer_errors [of first_candidate any_regexp sample_siblings "Some sample_stem" sample_errors]
  have "answers sample_errors p ''a.md''" "is_outlier sample_errors (map ex_doc sample_siblings) sample_stem q"
    by simp_all
  with pq show ?thesis by blast
qed

definition enum_rule :: validation_rule where
  "enum_rule = \<lparr> vr_field = ''state'', vr_rule = ''enum'', vr_if = [], vr_then = [], vr_severity = ''error'',
     vr_source = ''.stem'' \<rparr>"

definition misspelt_doc :: doc where
  "misspelt_doc = zero_doc\<lparr> rc_path := ''a.md'', rc_frontmatter := [(''state'', VStr ''Opne'')] \<rparr>"

theorem enum_message_read_back_witness:
  "extract_enum_value (ve_message (validation_error_from_contract first_candidate ''state'' sample_enum
     (mk_issue ''invalid-enum'' [] ''Opne'' []))) = ''Opne'' \<and>
   (\<exists>e. check_enum (\<lambda>_. []) first_candidate misspelt_doc sample_stem enum_rule = [e] \<and>
      extract_enum_value (ve_message e) = ''Opne'')"
proof -
  let ?es = "check_enum (\<lambda>_. []) first_candidate misspelt_doc sample_stem enum_rule"
  have v: "\<not> str_contains ''Opne'' not_allowed" by code_simp
  have r: "resolve_effective_field (\<lambda>_. []) misspelt_doc sample_stem (vr_field enum_rule) = Inr (Some (VStr ''Opne''))"
    "fmt_v (VStr ''Opne'') = ''Opne''" "length ?es = 1" by code_simp+
  then obtain e where e: "?es = [e]" by (auto simp: length_Suc_conv)
  show ?thesis
    using enum_message_read_back [OF v, of "mk_issue ''invalid-enum'' [] ''Opne'' []" first_candidate "''state''"
        sample_enum "\<lambda>_. []" misspelt_doc sample_stem enum_rule "VStr ''Opne''"] r e
    by (simp add: mk_issue_def Let_def)
qed

section \<open>Other reports\<close>

text \<open>An aggregate is only propagated by a formula that names every value of the descendants.\<close>

lemma propagate_field_says:
  assumes "propagate_field records r (f, formula) = Some p"
  obtains expr where "formula = VStr expr" "pp_field p = f" "pp_paths p = [rc_path r]" "pp_from p \<noteq> pp_to p"
    "formula_covers_values expr (descendant_values f (trim_suffix (rc_path r) ''README.md'') (rc_path r) records)"
proof -
  obtain expr d s where e: "formula = VStr expr" "map_of (rc_derived r) f = Some d"
      "map_of (rc_frontmatter r) f = Some s"
    using assms by (auto simp: propagate_field_def split: val.splits option.splits)
  show thesis
    by (rule that [of expr]) (use assms in \<open>auto simp: propagate_field_def e split: if_splits\<close>)
qed

lemma propagated_formula_covers:
  assumes "p \<in> set (detect_propagate_for_records records targets (Some eff))"
  shows "\<exists>r expr. r \<in> set targets \<and> (pp_field p, VStr expr) \<in> set (st_aggregate eff) \<and>
    pp_paths p = [rc_path r] \<and> pp_from p \<noteq> pp_to p \<and>
    formula_covers_values expr
      (descendant_values (pp_field p) (trim_suffix (rc_path r) ''README.md'') (rc_path r) records)"
proof -
  obtain r f formula where r: "r \<in> set targets" "(f, formula) \<in> set (st_aggregate eff)"
      "propagate_field records r (f, formula) = Some p"
    using assms by (auto simp: detect_propagate_for_records_def set_map_filter_iff)
  show ?thesis using propagate_field_says [OF r(3)] r(1,2) by metis
qed

lemma evolution_report_covers_breaking:
  "map pp_field (rt_proposals (diff_to_evolution_report d)) = map ch_field (filter ch_breaking (df_changes d))"
  "list_all (\<lambda>p. surface_of p = SurfaceMigration) (rt_proposals (diff_to_evolution_report d))"
proof -
  have f: "pp_field (breaking_change_proposal c stem) = ch_field c" for c stem
    by (cases "ch_kind c") (simp_all add: breaking_change_proposal_def Let_def)
  have s: "surface_of (breaking_change_proposal c stem) = SurfaceMigration" for c stem
    by (cases "ch_kind c") (simp_all add: breaking_change_proposal_def Let_def surface_of_def)
  show "map pp_field (rt_proposals (diff_to_evolution_report d)) = map ch_field (filter ch_breaking (df_changes d))"
    by (simp add: diff_to_evolution_report_def Let_def new_report_def f)
  show "list_all (\<lambda>p. surface_of p = SurfaceMigration) (rt_proposals (diff_to_evolution_report d))"
    by (simp add: diff_to_evolution_report_def Let_def new_report_def list_all_iff s)
qed

definition path_fields :: "proposal list \<Rightarrow> (string \<times> string) list" where
  "path_fields ps = concat (map (\<lambda>p. map (\<lambda>path. (path, pp_field p)) (pp_paths p)) ps)"

lemma path_fields_append [simp]: "path_fields (xs @ ys) = path_fields xs @ path_fields ys"
  by (simp add: path_fields_def)

lemma path_fields_single: "pp_paths p = [path] \<Longrightarrow> path_fields [p] = [(path, pp_field p)]"
  by (simp add: path_fields_def)

lemma dedup_invariant:
  "\<lbrakk>list_all (\<lambda>p. length (pp_paths p) = 1) ps;
    foldl (\<lambda>acc p. foldl (dedup_path p) acc (pp_paths p)) ([], []) ps = (seen, result)\<rbrakk> \<Longrightarrow>
     set seen = set (path_fields ps) \<and> set (path_fields result) = set (path_fields ps) \<and>
     distinct (path_fields result)"
proof (induction ps arbitrary: seen result rule: rev_induct)
  case (snoc p ps)
  obtain path where path: "pp_paths p = [path]" using snoc.prems(1) by (auto simp: length_Suc_conv)
  obtain seen' result' where f: "foldl (\<lambda>acc p. foldl (dedup_path p) acc (pp_paths p)) ([], []) ps = (seen', result')"
    by fastforce
  have ih: "set seen' = set (path_fields ps)" "set (path_fields result') = set (path_fields ps)"
    "distinct (path_fields result')"
    using snoc.IH [OF _ f] snoc.prems(1) by auto
  have "(seen, result) = dedup_path p (seen', result') path" using snoc.prems(2) f path by simp
  then show ?case using ih path_fields_single [OF path]
    by (cases "(path, pp_field p) \<in> set seen'") (auto simp: dedup_path_def)
qed (simp add: path_fields_def)

lemma removals_are_distinct:
  "distinct (path_fields (detect_remove_stem_field checks))"
proof -
  have "list_all (\<lambda>p. length (pp_paths p) = 1) (List.map_filter remove_stem_field checks)"
    by (auto simp: list_all_iff set_map_filter_iff remove_stem_field_def split: if_splits)
  from dedup_invariant [OF this surjective_pairing] show ?thesis
    unfolding detect_remove_stem_field_def deduplicate_proposals_def by blast
qed

section \<open>Observed behaviour\<close>

text \<open>A value of the body that no member of the enum is close to is proposed as the empty string, in place of
  the declared default.\<close>

definition bold_doc :: extracted where
  "bold_doc = (base_record ''a.md'')\<lparr> ex_doc := zero_doc\<lparr> rc_path := ''a.md'', rc_body := ''**state**: xyz'' \<rparr> \<rparr>"

definition missing_state :: batch_errors where
  "missing_state = [(''a.md'', [mk_error ''required'' ''state'' [] [] ''error''])]"

lemma unmatched_body_value_proposed_empty:
  "map (\<lambda>p. (pp_type p, pp_from p, pp_to p))
     (rt_proposals (analyze_errors no_candidate any_regexp [bold_doc]
       (Some (zero_stem\<lparr> st_schema := [(''state'', sample_enum\<lparr> sf_default := ''Open'' \<rparr>)] \<rparr>)) missing_state)) =
   [(ExtractBody, ''xyz'', [])]"
  by code_simp

text \<open>The majority of the siblings is proposed also when the schema no longer declares it.\<close>

definition old_state_doc :: "string \<Rightarrow> vmap \<Rightarrow> extracted" where
  "old_state_doc path fm = (base_record path)\<lparr> ex_doc := zero_doc\<lparr> rc_path := path, rc_frontmatter := fm \<rparr> \<rparr>"

lemma undeclared_majority_proposed:
  "map (\<lambda>p. (pp_type p, pp_value p, pp_paths p))
     (rt_proposals (analyze_errors no_candidate any_regexp
       [old_state_doc ''a.md'' [], old_state_doc ''b.md'' [(''state'', VStr ''Old'')],
        old_state_doc ''c.md'' [(''state'', VStr ''Old'')]]
       (Some sample_stem) missing_state)) =
   [(InferFromSiblings, ''Old'', [''a.md''])]"
  by code_simp

end
