(* ===== verification/Fix_Text.thy ===== *)
theory Fix_Text
  imports Proposals
begin

text \<open>
  The changes of a text that the repairs make, \<open>internal/fix/fix.go\<close> and \<open>repair.go\<close>: links put in front of
  the first section, a section set to a value, one occurrence replaced, and the fixes of a record in memory.
  The rewriting of the frontmatter is in \<open>Frontmatter\<close>.
\<close>

section \<open>Links in front of the first section\<close>

definition missing_standalone_links :: "string \<Rightarrow> string list \<Rightarrow> string list" where
  "missing_standalone_links content links =
     filter (\<lambda>l. l \<notin> set (map trim_space (split_on LF content))) (rev (remdups (rev links)))"

definition first_section :: string where "first_section = LF # ''## ''"

definition insert_wiki_links :: "string \<Rightarrow> string list \<Rightarrow> string" where
  "insert_wiki_links content links =
     (let missing = missing_standalone_links content links in
      if missing = [] then content
      else let block = join_with [LF] missing @ [LF, LF] in
        case index_of content first_section of
          Some i \<Rightarrow> take (i + 1) content @ block @ drop (i + 1) content
        | None \<Rightarrow> content @ [LF] @ block)"

section \<open>Setting a section\<close>

definition hashes :: "string \<Rightarrow> nat" where
  "hashes s = length (takeWhile (\<lambda>c. c = CHR ''#'') s)"

text \<open>Where the body of a heading starts: after its line, which may be the first of the text.\<close>

definition heading_end :: "string \<Rightarrow> string \<Rightarrow> nat option" where
  "heading_end content heading =
     (case index_of content (LF # heading @ [LF]) of
        Some i \<Rightarrow> Some (i + length heading + 2)
      | None \<Rightarrow> if has_prefix content (heading @ [LF]) then Some (length heading + 1) else None)"

text \<open>The offset of the first line that starts with a heading of the level or above.\<close>

fun section_end :: "nat \<Rightarrow> nat \<Rightarrow> string list \<Rightarrow> nat option" where
  "section_end level offset [] = None"
| "section_end level offset (l # ls) =
     (if 0 < hashes l \<and> hashes l \<le> level then Some offset
      else section_end level (offset + length l + 1) ls)"

definition transform_set_section :: "string \<Rightarrow> proposal \<Rightarrow> string \<Rightarrow> string + string" where
  "transform_set_section content p path =
     (let v = trim_right_chars [LF] (pp_value p) in
      case heading_end content (pp_heading p) of
        None \<Rightarrow>
          if pp_mode p = ''create'' then
            Inr ((if has_suffix content [LF] then content else content @ [LF]) @
                 [LF] @ pp_heading p @ [LF, LF] @ v @ [LF])
          else Inl (''section '' @ go_quote (pp_heading p) @ '' not found in '' @ path)
      | Some b \<Rightarrow>
          let e = (case section_end (hashes (pp_heading p)) b (split_on LF (drop b content)) of
                     Some e \<Rightarrow> e | None \<Rightarrow> length content)
          in if pp_mode p = ''replace'' \<or> pp_mode p = [] then
               Inr (take b content @ [LF] @ v @ [LF] @ drop e content)
             else if pp_mode p = ''append'' \<or> pp_mode p = ''create'' then
               Inr (take b content @ trim_right_chars [LF, CR, CHR '' ''] (slice content b e) @
                    [LF, LF] @ v @ [LF] @ drop e content)
             else Inl (''unknown mode '' @ go_quote (pp_mode p) @ '' for set_section''))"

section \<open>Replacing one occurrence\<close>

definition replace_once :: "string \<Rightarrow> string \<Rightarrow> string \<Rightarrow> string \<times> bool" where
  "replace_once content old new =
     (if old = [] \<or> old = new then (content, False)
      else case index_of content old of
        None \<Rightarrow> (content, False)
      | Some i \<Rightarrow> (take i content @ new @ drop (i + length old) content, True))"

section \<open>Fixing a record in memory\<close>

record fix_outcome =
  fo_frontmatter :: vmap
  fo_added :: "string list"
  fo_corrected :: "string list"
  fo_skipped :: "string list"

definition fix_error ::
  "(string \<Rightarrow> string list \<Rightarrow> string) \<Rightarrow> stem_file \<Rightarrow> bool \<Rightarrow> fix_outcome \<Rightarrow> validation_error \<Rightarrow> fix_outcome" where
  "fix_error fuzzy eff fill_missing o' e =
     (let field = ve_field e in
      case map_of (st_schema eff) field of
        None \<Rightarrow> o'
      | Some sf \<Rightarrow>
          if ve_rule e = ''required'' then
            (case add_field_value sf of (v, src) \<Rightarrow>
               if is_engine_chosen src \<and> \<not> fill_missing then
                 o'\<lparr> fo_skipped := fo_skipped o' @
                   [field @ '' (no default declared; pass --fill-missing to write '' @ go_quote v @ '')''] \<rparr>
               else o'\<lparr> fo_frontmatter := AList.update field (VStr v) (fo_frontmatter o'),
                        fo_added := fo_added o' @ [field @ ''='' @ go_quote v] \<rparr>)
          else if ve_rule e = ''enum'' then
            (case map_of (fo_frontmatter o') field of
               None \<Rightarrow> o'
             | Some c \<Rightarrow>
                 let current = fmt_v c; closest = fuzzy current (sf_values sf) in
                 if closest \<noteq> [] \<and> closest \<noteq> current then
                   o'\<lparr> fo_frontmatter := AList.update field (VStr closest) (fo_frontmatter o'),
                      fo_corrected := fo_corrected o' @
                        [field @ '': '' @ go_quote current @ '' -> '' @ go_quote closest] \<rparr>
                 else o')
          else o')"

definition apply_fixes ::
  "(string \<Rightarrow> string list \<Rightarrow> string) \<Rightarrow> vmap \<Rightarrow> stem_file option \<Rightarrow> validation_error list \<Rightarrow> bool \<Rightarrow> fix_outcome" where
  "apply_fixes fuzzy fm effective errs fill_missing =
     (let start = \<lparr> fo_frontmatter = fm, fo_added = [], fo_corrected = [], fo_skipped = [] \<rparr> in
      case effective of
        None \<Rightarrow> start
      | Some eff \<Rightarrow> foldl (fix_error fuzzy eff fill_missing) start errs)"

section \<open>What the fixes of a record change\<close>

text \<open>A field with no error keeps its value; a field with one keeps it, or gets a string its schema declares.\<close>

definition declared_value :: "schema_field \<Rightarrow> val \<Rightarrow> bool" where
  "declared_value sf v =
     (case v of VStr s \<Rightarrow> s \<in> set (sf_values sf) \<or> s = sf_default sf \<and> s \<noteq> [] | _ \<Rightarrow> False)"

definition fix_keeps :: "stem_file \<Rightarrow> vmap \<Rightarrow> vmap \<Rightarrow> string \<Rightarrow> bool" where
  "fix_keeps eff fm fm' k =
     (map_of fm' k = map_of fm k \<or>
      (\<exists>sf v. map_of (st_schema eff) k = Some sf \<and> map_of fm' k = Some v \<and> declared_value sf v))"

lemma fix_error_keeps:
  assumes fuzzy: "\<And>s vs. fuzzy s vs \<noteq> [] \<Longrightarrow> fuzzy s vs \<in> set vs"
    and inv: "fix_keeps eff fm (fo_frontmatter o') k"
  shows "fix_keeps eff fm (fo_frontmatter (fix_error fuzzy eff False o' e)) k"
proof (cases "ve_field e = k")
  case False
  then show ?thesis using inv
    by (auto simp: fix_error_def fix_keeps_def Let_def update_conv' split: option.splits prod.splits)
next
  case True
  show ?thesis
  proof (cases "map_of (st_schema eff) k")
    case None
    then show ?thesis using inv True by (simp add: fix_error_def)
  next
    case (Some sf)
    show ?thesis using inv True Some fuzzy
      by (fastforce simp: fix_error_def fix_keeps_def Let_def update_conv' declared_value_def
          add_field_value_def is_engine_chosen_def split: option.splits prod.splits list.splits if_splits)
  qed
qed

text \<open>C40: The fixes of a record, without leave to invent values, only ever write a value that the schema declares
  for the field, and only to a field of the schema; every other field keeps its value.\<close>

theorem fixes_write_declared_values:
  assumes "\<And>s vs. fuzzy s vs \<noteq> [] \<Longrightarrow> fuzzy s vs \<in> set vs"
  shows "fix_keeps eff fm (fo_frontmatter (apply_fixes fuzzy fm (Some eff) errs False)) k"
proof -
  have "fix_keeps eff fm (fo_frontmatter o') k \<Longrightarrow>
      fix_keeps eff fm (fo_frontmatter (foldl (fix_error fuzzy eff False) o' errs)) k" for o'
    by (induction errs arbitrary: o') (simp_all add: fix_error_keeps [OF assms])
  then show ?thesis by (simp add: apply_fixes_def fix_keeps_def)
qed

theorem fixes_write_declared_values_witness:
  "fix_keeps sample_stem [(''state'', VStr ''Opne''), (''k'', VInt 1)]
     (fo_frontmatter (apply_fixes first_candidate [(''state'', VStr ''Opne''), (''k'', VInt 1)]
        (Some sample_stem) [mk_error ''enum'' ''state'' [] [] ''error''] False)) ''state''"
  by (rule fixes_write_declared_values) (auto simp: first_candidate_def split: list.splits)

section \<open>Observed behaviour\<close>

text \<open>A line of a code block that starts with the number sign ends the section, so the block's rest stays.\<close>

definition fenced_section :: string where
  "fenced_section = concat (map (\<lambda>l. l @ [LF])
     [''# T'', ''## S'', ''```'', ''# comment'', ''code'', ''```'', ''## N''])"

lemma code_comment_ends_section:
  "transform_set_section fenced_section ((mk_proposal SetSection [] [] [''a.md''])
       \<lparr> pp_heading := ''## S'', pp_value := ''new'' \<rparr>) ''a.md'' =
     Inr (concat (map (\<lambda>l. l @ [LF]) [''# T'', ''## S'', [], ''new'', ''# comment'', ''code'', ''```'', ''## N'']))"
  by code_simp

end
