(* ===== verification/Repair.thy ===== *)
theory Repair
  imports Fix_Text Link_Resolution
begin

text \<open>
  Applying the proposals of a report to documents, \<open>internal/fix/repair.go\<close>, with the containment of
  \<open>contain.go\<close>: every path of the report is checked against the root before anything is read, each proposal is
  applied whole or not at all, and every written file is validated afterwards and put back when its schema
  refuses it.

  The world is the file system of \<open>Discovery\<close>, whose \<open>fs_read\<close> the writes update, and a schedule of faults that
  each system call consumes one entry of (\<open>None\<close> for a call that works). A write is \<open>fsx.WriteFileAtomic\<close> step
  by step: before the final rename no step changes the target, and a staging file is left behind only when its
  removal fails. File modes are not modelled, and two paths that reach one file through a symbolic link are two
  files. Parameters: those of \<open>Link_Resolution\<close>, and the YAML rendering of \<open>Frontmatter\<close>.
\<close>

section \<open>Environment and world\<close>

record repair_env =
  rv_link :: link_env
  rv_marshal :: "val \<Rightarrow> string option"
  rv_render :: "string \<Rightarrow> vmap \<Rightarrow> string option"
  rv_re :: "string \<Rightarrow> string \<Rightarrow> string + bool"
  rv_root :: string

record repair_world =
  wd_fs :: filesys
  wd_faults :: "string option list"
  wd_staged :: "string list"

definition next_call :: "repair_world \<Rightarrow> string option \<times> repair_world" where
  "next_call w = (case wd_faults w of [] \<Rightarrow> (None, w) | f # fs \<Rightarrow> (f, w\<lparr> wd_faults := fs \<rparr>))"

definition read_file :: "string \<Rightarrow> repair_world \<Rightarrow> (string + string) \<times> repair_world" where
  "read_file path w =
     (case next_call w of
        (Some m, w') \<Rightarrow> (Inl m, w')
      | (None, w') \<Rightarrow>
          (case fs_read (wd_fs w') path of Inl e \<Rightarrow> (Inl (fs_err_text e), w') | Inr c \<Rightarrow> (Inr c, w')))"

definition set_file :: "string \<Rightarrow> string \<Rightarrow> filesys \<Rightarrow> filesys" where
  "set_file path content fs = fs\<lparr> fs_read := (fs_read fs)(path := Inr content) \<rparr>"

text \<open>Calls in a row up to the first that fails, with the text its error starts with.\<close>

fun run_steps :: "string list \<Rightarrow> string \<Rightarrow> repair_world \<Rightarrow> string option \<times> repair_world" where
  "run_steps [] target w = (None, w)"
| "run_steps (step # steps) target w =
     (case next_call w of
        (Some m, w') \<Rightarrow> (Some (step @ '' '' @ target @ '': '' @ m), w')
      | (None, w') \<Rightarrow> run_steps steps target w')"

definition remove_staged :: "string \<Rightarrow> repair_world \<Rightarrow> repair_world" where
  "remove_staged dir w =
     (case next_call w of
        (None, w') \<Rightarrow> w'
      | (Some _, w') \<Rightarrow> w'\<lparr> wd_staged := wd_staged w' @ [dir] \<rparr>)"

definition write_file_atomic :: "string \<Rightarrow> string \<Rightarrow> repair_world \<Rightarrow> string option \<times> repair_world" where
  "write_file_atomic target content w =
     (case run_steps [''stating'', ''staging a write for''] target w of
        (Some e, w1) \<Rightarrow> (Some e, w1)
      | (None, w1) \<Rightarrow>
          (case run_steps [''writing staged content for'', ''flushing staged content for'',
                  ''setting mode on staged content for'', ''closing staged content for'', ''replacing''] target w1 of
             (Some e, w2) \<Rightarrow> (Some e, remove_staged (path_dir target) w2)
           | (None, w2) \<Rightarrow> (None, w2\<lparr> wd_fs := set_file target content (wd_fs w2) \<rparr>)))"

section \<open>Containment\<close>

datatype contain_error = ContainmentError string string string | PathError string

definition contain_error_text :: "contain_error \<Rightarrow> string" where
  "contain_error_text e =
     (case e of
        ContainmentError requested root message \<Rightarrow>
          ''containment violation: path '' @ go_quote requested @ '' '' @ message @ '' (root '' @ go_quote root @ '')''
      | PathError m \<Rightarrow> m)"

definition containment_reason :: "contain_error \<Rightarrow> string" where
  "containment_reason e = (case e of ContainmentError _ _ message \<Rightarrow> message | PathError m \<Rightarrow> m)"

definition leaves_root :: "string \<Rightarrow> bool" where
  "leaves_root rel \<longleftrightarrow> rel = ''..'' \<or> has_prefix rel ''../''"

definition rel_error :: "string \<Rightarrow> string \<Rightarrow> string" where
  "rel_error base target = ''Rel: can'' @ [CHR 0x27] @ ''t make '' @ target @ '' relative to '' @ base"

definition contain_target :: "string \<Rightarrow> string \<Rightarrow> bool \<Rightarrow> contain_error + string" where
  "contain_target abs_root path accept_absolute =
     (if is_abs path \<and> \<not> accept_absolute
        then Inl (ContainmentError path abs_root ''absolute paths are not allowed'')
      else let target = (if is_abs path then path_clean path else path_join abs_root path) in
        case path_rel abs_root target of
          None \<Rightarrow> Inl (ContainmentError path abs_root
                     (''cannot be resolved relative to root: '' @ rel_error abs_root target))
        | Some rel \<Rightarrow>
            if leaves_root rel then Inl (ContainmentError path abs_root ''escapes root'') else Inr target)"

definition contain_path :: "link_env \<Rightarrow> string \<Rightarrow> string \<Rightarrow> bool \<Rightarrow> contain_error + string" where
  "contain_path env root path accept_absolute =
     (let abs_root = path_abs (fs_cwd (le_fs env)) root in
      case contain_target abs_root path accept_absolute of
        Inl e \<Rightarrow> Inl e
      | Inr target \<Rightarrow>
          (case canonical_physical_path env abs_root of
             Inl e \<Rightarrow> Inl (PathError (''resolve report root '' @ go_quote abs_root @ '' physically: '' @ fs_err_text e))
           | Inr physical_root \<Rightarrow>
               (case canonical_physical_path env target of
                  Inl NotExist \<Rightarrow> Inl (ContainmentError path abs_root
                      (''cannot be physically resolved: '' @ fs_err_text NotExist))
                | Inl e \<Rightarrow> Inl (PathError (''resolve report path '' @ go_quote path @ '' physically: '' @ fs_err_text e))
                | Inr physical_target \<Rightarrow>
                    (case path_rel physical_root physical_target of
                       None \<Rightarrow> Inl (ContainmentError path abs_root
                         (''cannot be physically resolved relative to root: '' @ rel_error physical_root physical_target))
                     | Some rel \<Rightarrow>
                         if leaves_root rel
                         then Inl (ContainmentError path abs_root ''escapes root through symlink'')
                         else Inr target))))"

section \<open>Targets and results\<close>

record repair_target =
  tg_abs :: string
  tg_record :: extracted
  tg_original :: string
  tg_content :: "string option"
  tg_written :: bool

definition current_content :: "repair_target \<Rightarrow> string" where
  "current_content t = (case tg_content t of None \<Rightarrow> tg_original t | Some c \<Rightarrow> c)"

record repair_result =
  rr_root :: string
  rr_complete :: bool
  rr_dry_run :: bool
  rr_changed :: "(string \<times> string) list"
  rr_rolled_back :: "(string \<times> string list) list"
  rr_skipped :: "string list"
  rr_rejected :: "string list"
  rr_errors :: "string list"
  rr_resolved :: "((string \<times> string) list \<times> (string \<times> string) list) option"

text \<open>\<open>Changed\<close> and \<open>changedPaths\<close> run in parallel: one list of a path with its message.\<close>

record repair_state =
  rx_targets :: "(string \<times> repair_target) list"
  rx_result :: repair_result
  rx_world :: repair_world

definition seal :: "repair_result \<Rightarrow> repair_result" where
  "seal r = r\<lparr> rr_complete := (rr_errors r = [] \<and> rr_rolled_back r = []) \<rparr>"

definition record_change :: "string \<Rightarrow> string \<Rightarrow> repair_state \<Rightarrow> repair_state" where
  "record_change path msg s = s\<lparr> rx_result := (rx_result s)\<lparr> rr_changed := rr_changed (rx_result s) @ [(path, msg)] \<rparr> \<rparr>"

definition retract_changes :: "string \<Rightarrow> repair_result \<Rightarrow> repair_result" where
  "retract_changes path r = r\<lparr> rr_changed := filter (\<lambda>(p, _). p \<noteq> path) (rr_changed r) \<rparr>"

definition note_skipped :: "string \<Rightarrow> repair_state \<Rightarrow> repair_state" where
  "note_skipped msg s = s\<lparr> rx_result := (rx_result s)\<lparr> rr_skipped := rr_skipped (rx_result s) @ [msg] \<rparr> \<rparr>"

definition note_rejected :: "string \<Rightarrow> repair_state \<Rightarrow> repair_state" where
  "note_rejected msg s = s\<lparr> rx_result := (rx_result s)\<lparr> rr_rejected := rr_rejected (rx_result s) @ [msg] \<rparr> \<rparr>"

definition note_error :: "string \<Rightarrow> repair_state \<Rightarrow> repair_state" where
  "note_error msg s = s\<lparr> rx_result := (rx_result s)\<lparr> rr_errors := rr_errors (rx_result s) @ [msg] \<rparr> \<rparr>"

definition put_target :: "string \<Rightarrow> repair_target \<Rightarrow> repair_state \<Rightarrow> repair_state" where
  "put_target path t s = s\<lparr> rx_targets := AList.update path t (rx_targets s) \<rparr>"

section \<open>Paths of the report\<close>

type_synonym path_verdicts = "(string \<times> string) list \<times> (string \<times> string) list"

definition contain_step ::
  "repair_env \<Rightarrow> path_verdicts \<times> repair_result \<Rightarrow> string \<Rightarrow> path_verdicts \<times> repair_result" where
  "contain_step env acc path =
     (case acc of ((accepted, rejected), r) \<Rightarrow>
        if has_key accepted path \<or> has_key rejected path then acc
        else case contain_path (rv_link env) (rv_root env) path False of
          Inr target \<Rightarrow> ((AList.update path target accepted, rejected), r)
        | Inl e \<Rightarrow>
            ((accepted, AList.update path (containment_reason e) rejected),
             (case e of
                ContainmentError _ _ _ \<Rightarrow> r\<lparr> rr_rejected := rr_rejected r @ [contain_error_text e] \<rparr>
              | PathError m \<Rightarrow> r\<lparr> rr_errors := rr_errors r @ [''resolve '' @ path @ '': '' @ m] \<rparr>)))"

definition contain_proposal_paths ::
  "repair_env \<Rightarrow> proposal list \<Rightarrow> repair_result \<Rightarrow> path_verdicts \<times> repair_result" where
  "contain_proposal_paths env ps r = foldl (contain_step env) (([], []), r) (concat (map pp_paths ps))"

definition has_rejected_path :: "proposal \<Rightarrow> (string \<times> string) list \<Rightarrow> bool" where
  "has_rejected_path p rejected = list_ex (has_key rejected) (pp_paths p)"

definition accepted_proposal_paths :: "proposal \<Rightarrow> (string \<times> string) list \<Rightarrow> string list" where
  "accepted_proposal_paths p accepted = filter (has_key accepted) (pp_paths p)"

text \<open>One iteration order of the map of paths: the order of the report.\<close>

definition applicable_proposal_paths :: "proposal list \<Rightarrow> path_verdicts \<Rightarrow> (string \<times> string) list" where
  "applicable_proposal_paths ps verdicts =
     (case verdicts of (accepted, rejected) \<Rightarrow>
        List.map_filter (\<lambda>path. map_option (Pair path) (map_of accepted path))
          (remdups (concat (map pp_paths (filter (\<lambda>p. \<not> has_rejected_path p rejected) ps)))))"

section \<open>Reading the documents\<close>

definition document_extractor :: "string \<Rightarrow> extractor option" where
  "document_extractor path = (case new_registry of Inl _ \<Rightarrow> None | Inr g \<Rightarrow> for_file g path [])"

definition read_document :: "repair_env \<Rightarrow> string \<Rightarrow> string \<Rightarrow> extracted" where
  "read_document env path content =
     extract_document (le_headings (rv_link env)) (le_doc_yaml (rv_link env)) True path content"

definition schema_of_document :: "repair_env \<Rightarrow> filesys \<Rightarrow> string \<Rightarrow> go_error + stem_file" where
  "schema_of_document env fs apath = resolve_for_record (le_stem_yaml (rv_link env)) fs (path_dir apath) apath"

definition stat_is_dir :: "string \<Rightarrow> repair_world \<Rightarrow> bool \<times> repair_world" where
  "stat_is_dir path w =
     (case next_call w of (Some _, w') \<Rightarrow> (False, w') | (None, w') \<Rightarrow> (fs_stat (wd_fs w') path = Inr KDir, w'))"

definition load_target ::
  "repair_env \<Rightarrow> string list \<times> repair_state \<Rightarrow> string \<times> string \<Rightarrow> string list \<times> repair_state" where
  "load_target env acc entry =
     (case (acc, entry) of ((dropped, s), (path, apath)) \<Rightarrow>
      (case stat_is_dir apath (rx_world s) of
         (True, w) \<Rightarrow>
           (dropped, note_error (path @ '' is a directory; use '' @ [CHR 0x27] @
              ''rootline repair apply --report <file>.json'' @ [CHR 0x27]) (s\<lparr> rx_world := w \<rparr>))
       | (False, w) \<Rightarrow>
           (case read_file apath w of
              (Inl m, w') \<Rightarrow> (dropped, note_error (''read '' @ path @ '': '' @ m) (s\<lparr> rx_world := w' \<rparr>))
            | (Inr content, w') \<Rightarrow>
                let s' = s\<lparr> rx_world := w' \<rparr> in
                (case document_extractor apath of
                   None \<Rightarrow> (dropped, note_error (''no extractor for '' @ path) s')
                 | Some _ \<Rightarrow>
                     let t = \<lparr> tg_abs = apath, tg_record = read_document env path content,
                               tg_original = content, tg_content = None, tg_written = False \<rparr> in
                     (case schema_of_document env (wd_fs w') apath of
                        Inr _ \<Rightarrow> (dropped, put_target path t s')
                      | Inl e \<Rightarrow>
                          if is_no_schema e then (dropped, put_target path t s')
                          else (dropped @ [path],
                                note_error (''resolve schema for '' @ path @ '': '' @ error_text e) s'))))))"

section \<open>Applying one proposal\<close>

fun for_paths :: "(string \<Rightarrow> 's \<Rightarrow> string option \<times> 's) \<Rightarrow> string list \<Rightarrow> 's \<Rightarrow> string option \<times> 's" where
  "for_paths f [] s = (None, s)"
| "for_paths f (p # ps) s =
     (case f p s of (Some e, s') \<Rightarrow> (Some e, s') | (None, s') \<Rightarrow> for_paths f ps s')"

definition frontmatter_of :: "repair_target \<Rightarrow> vmap" where
  "frontmatter_of t = rc_frontmatter (ex_doc (tg_record t))"

definition with_field :: "string \<Rightarrow> string \<Rightarrow> repair_target \<Rightarrow> repair_target" where
  "with_field field v t =
     t\<lparr> tg_record := (tg_record t)\<lparr> ex_doc := (ex_doc (tg_record t))
          \<lparr> rc_frontmatter := AList.update field (VStr v) (frontmatter_of t) \<rparr> \<rparr> \<rparr>"

definition invalidate_scalar :: "string \<Rightarrow> repair_target \<Rightarrow> repair_target" where
  "invalidate_scalar field t =
     t\<lparr> tg_record := (tg_record t)\<lparr> ex_scalars := AList.delete field (ex_scalars (tg_record t)) \<rparr> \<rparr>"

definition rewrite_text :: "repair_env \<Rightarrow> string \<Rightarrow> vmap \<Rightarrow> string" where
  "rewrite_text env content fm = rewrite_frontmatter (rv_marshal env) (rv_render env) content fm"

text \<open>
  The step that the repairs of the frontmatter share: a dry run changes the text in memory, a real one the text
  on disk, which must become another one.
\<close>

definition rewrite_target ::
  "bool \<Rightarrow> string \<Rightarrow> repair_target \<Rightarrow> repair_target \<Rightarrow> (string \<Rightarrow> string) \<Rightarrow> string \<Rightarrow> string \<Rightarrow> repair_state \<Rightarrow>
     string option \<times> repair_state" where
  "rewrite_target dry path t t' new no_change msg s =
     (if dry then
        (None, record_change path msg (put_target path (t'\<lparr> tg_content := Some (new (current_content t)) \<rparr>) s))
      else
        case read_file (tg_abs t) (rx_world s) of
          (Inl m, w) \<Rightarrow> (Some (''reading '' @ path @ '': '' @ m), s\<lparr> rx_world := w \<rparr>)
        | (Inr c, w) \<Rightarrow>
            if new c = c then (Some no_change, s\<lparr> rx_world := w \<rparr>)
            else
              (case write_file_atomic (tg_abs t) (new c) w of
                 (Some e, w') \<Rightarrow> (Some (''writing '' @ path @ '': '' @ e), s\<lparr> rx_world := w' \<rparr>)
               | (None, w') \<Rightarrow>
                   (None, record_change path msg
                      (put_target path (t'\<lparr> tg_content := Some (new c), tg_written := True \<rparr>)
                        (s\<lparr> rx_world := w' \<rparr>)))))"

definition proposal_source_matches :: "extracted \<Rightarrow> val \<Rightarrow> proposal \<Rightarrow> bool" where
  "proposal_source_matches r current p =
     (if pp_from_representation p = [] then current = VStr (pp_from p)
      else if \<not> is_repairable_representation (pp_from_representation p) then False
      else case map_of (ex_scalars r) (pp_field p) of
        None \<Rightarrow> False
      | Some sc \<Rightarrow> fs_representation sc = pp_from_representation p \<and> fs_lexeme sc = pp_from p)"

definition unexpected_value :: "extracted \<Rightarrow> val option \<Rightarrow> proposal \<Rightarrow> bool" where
  "unexpected_value r current p =
     (case current of None \<Rightarrow> True | Some c \<Rightarrow> \<not> proposal_source_matches r c p)"

text \<open>The text and the message of a correction.\<close>

definition corrected_text :: "repair_env \<Rightarrow> proposal \<Rightarrow> repair_target \<Rightarrow> string \<Rightarrow> string" where
  "corrected_text env p t c =
     (let c1 = rewrite_text env c (frontmatter_of (with_field (pp_field p) (pp_to p) t)) in
      if pp_type p = MigrateValue \<and> pp_wiki_links p \<noteq> [] then insert_wiki_links c1 (pp_wiki_links p) else c1)"

definition correct_message :: "proposal \<Rightarrow> string \<Rightarrow> string" where
  "correct_message p path =
     ''correct '' @ pp_field p @ '': '' @ go_quote (pp_from p) @ ''->'' @ go_quote (pp_to p) @ '' in '' @ path"

definition correct_value_path ::
  "repair_env \<Rightarrow> bool \<Rightarrow> proposal \<Rightarrow> string \<Rightarrow> repair_state \<Rightarrow> string option \<times> repair_state" where
  "correct_value_path env dry p path s =
     (case map_of (rx_targets s) path of
        None \<Rightarrow> (None, s)
      | Some t \<Rightarrow>
          let current = map_of (frontmatter_of t) (pp_field p) in
          if pp_from_representation p = [] \<and> current = Some (VStr (pp_to p)) then
            (None, note_skipped (pp_field p @ '' already '' @ go_quote (pp_to p) @ '' in '' @ path) s)
          else if unexpected_value (tg_record t) current p then
            (None, note_rejected (pp_field p @ '' in '' @ path @ '' is not expected value '' @ go_quote (pp_from p)) s)
          else
            let t1 = with_field (pp_field p) (pp_to p) t;
                t2 = (if pp_from_representation p \<noteq> [] then invalidate_scalar (pp_field p) t1 else t1)
            in rewrite_target dry path t t2 (corrected_text env p t) (''rewrite produced no changes for '' @ path)
                 (correct_message p path) s)"

definition add_field_path ::
  "repair_env \<Rightarrow> bool \<Rightarrow> proposal \<Rightarrow> string \<Rightarrow> repair_state \<Rightarrow> string option \<times> repair_state" where
  "add_field_path env dry p path s =
     (case map_of (rx_targets s) path of
        None \<Rightarrow> (None, s)
      | Some t \<Rightarrow>
          let v = (if pp_value p = [] then pp_to p else pp_value p) in
          (case map_of (frontmatter_of t) (pp_field p) of
             Some c \<Rightarrow>
               if c = VStr v then
                 (None, note_skipped (pp_field p @ '' already '' @ go_quote v @ '' in '' @ path) s)
               else (None, note_rejected (pp_field p @ '' in '' @ path @ '' already has a conflicting value'') s)
           | None \<Rightarrow>
               let t1 = with_field (pp_field p) v t in
               rewrite_target dry path t t1 (\<lambda>c. rewrite_text env c (frontmatter_of t1))
                 (''frontmatter rewrite produced no changes for '' @ path)
                 (''add '' @ pp_field p @ ''='' @ go_quote v @ '' in '' @ path) s))"

text \<open>Here the record is changed before the file is read, and stays changed when that fails.\<close>

definition set_field_path ::
  "repair_env \<Rightarrow> bool \<Rightarrow> proposal \<Rightarrow> string \<Rightarrow> repair_state \<Rightarrow> string option \<times> repair_state" where
  "set_field_path env dry p path s =
     (case map_of (rx_targets s) path of
        None \<Rightarrow> (None, s)
      | Some t \<Rightarrow>
          if map_of (frontmatter_of t) (pp_field p) = Some (VStr (pp_value p)) then
            (None, note_skipped (pp_field p @ '' already '' @ go_quote (pp_value p) @ '' in '' @ path) s)
          else
            let t1 = invalidate_scalar (pp_field p) (with_field (pp_field p) (pp_value p) t) in
            rewrite_target dry path t1 t1 (\<lambda>c. rewrite_text env c (frontmatter_of t1))
              (''frontmatter rewrite produced no changes for '' @ path)
              (''set '' @ pp_field p @ ''='' @ go_quote (pp_value p) @ '' in '' @ path) (put_target path t1 s))"

text \<open>The last step of the other two repairs: the new text goes to disk, unless the run is dry, and to memory.\<close>

definition store_text ::
  "bool \<Rightarrow> string \<Rightarrow> repair_target \<Rightarrow> string \<Rightarrow> string \<Rightarrow> repair_state \<Rightarrow> string option \<times> repair_state" where
  "store_text dry path t content msg s =
     (if dry then (None, record_change path msg (put_target path (t\<lparr> tg_content := Some content \<rparr>) s))
      else
        case write_file_atomic (tg_abs t) content (rx_world s) of
          (Some e, w) \<Rightarrow> (Some (''writing '' @ path @ '': '' @ e), s\<lparr> rx_world := w \<rparr>)
        | (None, w) \<Rightarrow>
            (None, record_change path msg
               (put_target path (t\<lparr> tg_content := Some content, tg_written := True \<rparr>) (s\<lparr> rx_world := w \<rparr>))))"

definition set_section_path ::
  "bool \<Rightarrow> proposal \<Rightarrow> string \<Rightarrow> repair_state \<Rightarrow> string option \<times> repair_state" where
  "set_section_path dry p path s =
     (case map_of (rx_targets s) path of
        None \<Rightarrow> (None, s)
      | Some t \<Rightarrow>
          (case transform_set_section (current_content t) p path of
             Inl e \<Rightarrow> (Some e, s)
           | Inr content \<Rightarrow>
               store_text dry path t content
                 ((if pp_mode p = [] then ''replace'' else pp_mode p) @ '' section '' @ pp_heading p @
                  '' in '' @ path) s))"

definition link_source :: "bool \<Rightarrow> string \<Rightarrow> repair_target \<Rightarrow> repair_state \<Rightarrow> (string + string) \<times> repair_state" where
  "link_source dry path t s =
     (if dry then (Inr (current_content t), s)
      else case read_file (tg_abs t) (rx_world s) of
        (Inl m, w) \<Rightarrow> (Inl (''reading '' @ path @ '': '' @ m), s\<lparr> rx_world := w \<rparr>)
      | (Inr c, w) \<Rightarrow> (Inr c, s\<lparr> rx_world := w \<rparr>))"

definition correct_link_path ::
  "bool \<Rightarrow> proposal \<Rightarrow> string \<Rightarrow> repair_state \<Rightarrow> string option \<times> repair_state" where
  "correct_link_path dry p path s =
     (case map_of (rx_targets s) path of
        None \<Rightarrow> (None, s)
      | Some t \<Rightarrow>
          (case link_source dry path t s of
             (Inl e, s') \<Rightarrow> (Some e, s')
           | (Inr c, s') \<Rightarrow>
               (case replace_once c (pp_from p) (pp_to p) of
                  (_, False) \<Rightarrow>
                    (None, note_skipped (''link '' @ go_quote (pp_from p) @ '' in '' @ path @
                       '': no content change'') s')
                | (candidate, True) \<Rightarrow>
                    store_text dry path t candidate
                      (''correct link: '' @ pp_from p @ '' -> '' @ pp_to p @ '' in '' @ path) s')))"

section \<open>The report\<close>

definition type_text :: "proposal_type \<Rightarrow> string" where
  "type_text t =
     (case t of
        ExtendEnum \<Rightarrow> ''extend_enum'' | MigrateValue \<Rightarrow> ''migrate_value'' | CorrectValue \<Rightarrow> ''correct_value''
      | ExtractBody \<Rightarrow> ''extract_body'' | InferFromChildren \<Rightarrow> ''infer_from_children'' | AddField \<Rightarrow> ''add_field''
      | CorrectLink \<Rightarrow> ''correct_link'' | InferFromSiblings \<Rightarrow> ''infer_from_siblings''
      | CorrectOutlier \<Rightarrow> ''correct_outlier'' | AddAggregate \<Rightarrow> ''add_aggregate''
      | RemoveStemField \<Rightarrow> ''remove_stem_field'' | PropagateAggregate \<Rightarrow> ''propagate_aggregate''
      | SetField \<Rightarrow> ''set_field'' | SetSection \<Rightarrow> ''set_section'' | SchemaEvolution \<Rightarrow> ''schema_evolution''
      | RemoveField \<Rightarrow> ''remove_field'' | LooseRequired \<Rightarrow> ''loosen_required'' | ChangeType \<Rightarrow> ''change_type''
      | ReplaceEnumValues \<Rightarrow> ''replace_enum_values'' | LoosenSeverity \<Rightarrow> ''loosen_severity'' | OtherProposal s \<Rightarrow> s)"

definition surface_text :: "surface \<Rightarrow> string" where
  "surface_text s =
     (case s of
        SurfaceSchema \<Rightarrow> ''schema'' | SurfaceRepair \<Rightarrow> ''repair'' | SurfaceBootstrap \<Rightarrow> ''bootstrap''
      | SurfaceMigration \<Rightarrow> ''migration'' | SurfaceDiagnostic \<Rightarrow> ''diagnostic''
      | SurfaceRequiresAgent \<Rightarrow> ''requires_agent'')"

definition typed_proposal_contract_ok :: "proposal \<Rightarrow> bool" where
  "typed_proposal_contract_ok p =
     (pp_from_representation p = [] \<or>
      pp_type p = CorrectValue \<and> pp_to p = pp_from p \<and> is_repairable_representation (pp_from_representation p))"

definition repair_handler ::
  "repair_env \<Rightarrow> bool \<Rightarrow> proposal \<Rightarrow> string \<Rightarrow> repair_state \<Rightarrow> string option \<times> repair_state" where
  "repair_handler env dry p =
     (if pp_type p \<in> {CorrectValue, MigrateValue, CorrectOutlier, PropagateAggregate}
        then correct_value_path env dry p
      else if pp_type p \<in> {AddField, ExtractBody, InferFromChildren, InferFromSiblings}
        then add_field_path env dry p
      else if pp_type p = SetField then set_field_path env dry p
      else if pp_type p = SetSection then set_section_path dry p
      else correct_link_path dry p)"

definition handler_error :: "proposal \<Rightarrow> string \<Rightarrow> string" where
  "handler_error p e =
     type_text (pp_type p) @ '' '' @
     (if pp_type p = SetSection then pp_heading p else ''['' @ join_with '' '' (pp_paths p) @ '']'') @ '': '' @ e"

definition apply_proposal ::
  "repair_env \<Rightarrow> bool \<Rightarrow> bool \<Rightarrow> path_verdicts \<Rightarrow> repair_state \<Rightarrow> proposal \<Rightarrow> repair_state" where
  "apply_proposal env dry fill_missing verdicts s p =
     (case verdicts of (accepted, rejected) \<Rightarrow>
        if has_rejected_path p rejected then s
        else if pp_type p = AddField \<and> is_engine_chosen (pp_value_source p) \<and> \<not> fill_missing then
          note_skipped (pp_field p @ '': engine-chosen value ('' @ pp_value_source p @
            ''); pass --fill-missing to apply'') s
        else if surface_of p \<noteq> SurfaceRepair then
          note_rejected (pp_field p @ '': '' @ pp_description p @ '' (surface='' @
            surface_text (surface_of p) @ '')'') s
        else
          let p' = p\<lparr> pp_paths := accepted_proposal_paths p accepted \<rparr> in
          if pp_paths p' = [] then s
          else if \<not> typed_proposal_contract_ok p' then
            note_rejected (pp_field p @ '': invalid typed repair contract'') s
          else case for_paths (repair_handler env dry p') (pp_paths p') s of
            (None, s') \<Rightarrow> s'
          | (Some e, s') \<Rightarrow> note_error (handler_error p' e) s')"

section \<open>Validation after the writes\<close>

text \<open>What the schema of a document says of a text.\<close>

definition document_messages :: "repair_env \<Rightarrow> filesys \<Rightarrow> string \<Rightarrow> string \<Rightarrow> string \<Rightarrow> string list" where
  "document_messages env fs path apath content =
     (case document_extractor apath of
        None \<Rightarrow> []
      | Some _ \<Rightarrow>
          let r = ex_doc (read_document env path content) in
          (case schema_of_document env fs apath of
             Inl e \<Rightarrow> if is_no_schema e then [] else [''resolving schema after write: '' @ error_text e]
           | Inr eff \<Rightarrow>
               sort (map (\<lambda>e. ve_field e @ '': '' @ ve_message e)
                 (validate_record (le_headings (rv_link env)) (le_fuzzy (rv_link env)) (rv_re env) r (Some eff)))))"

definition validate_written_target :: "repair_env \<Rightarrow> string \<Rightarrow> repair_target \<Rightarrow> repair_world \<Rightarrow> string list \<times> repair_world" where
  "validate_written_target env path t w =
     (case read_file (tg_abs t) w of
        (Inl m, w') \<Rightarrow> ([''re-reading after write: '' @ m], w')
      | (Inr content, w') \<Rightarrow> (document_messages env (wd_fs w') path (tg_abs t) content, w'))"

definition rollback_error :: "string \<Rightarrow> string \<Rightarrow> string" where
  "rollback_error path e = ''post-validation failed for '' @ path @ '' and rollback failed: '' @ e"

definition post_validate_path :: "repair_env \<Rightarrow> repair_state \<Rightarrow> string \<Rightarrow> repair_state" where
  "post_validate_path env s path =
     (case map_of (rx_targets s) path of
        None \<Rightarrow> s
      | Some t \<Rightarrow>
          if \<not> tg_written t then s
          else case validate_written_target env path t (rx_world s) of
            ([], w) \<Rightarrow> s\<lparr> rx_world := w \<rparr>
          | (msgs, w) \<Rightarrow>
              (case write_file_atomic (tg_abs t) (tg_original t) w of
                 (Some e, w') \<Rightarrow> note_error (rollback_error path e) (s\<lparr> rx_world := w' \<rparr>)
               | (None, w') \<Rightarrow>
                   s\<lparr> rx_world := w',
                      rx_result := retract_changes path ((rx_result s)
                        \<lparr> rr_rolled_back := rr_rolled_back (rx_result s) @ [(path, msgs)] \<rparr>) \<rparr>))"

definition post_validate :: "repair_env \<Rightarrow> repair_state \<Rightarrow> repair_state" where
  "post_validate env s = foldl (post_validate_path env) s (sort (map fst (rx_targets s)))"

section \<open>The operation\<close>

definition new_result :: "repair_env \<Rightarrow> bool \<Rightarrow> repair_result" where
  "new_result env dry =
     \<lparr> rr_root = rv_root env, rr_complete = False, rr_dry_run = dry, rr_changed = [], rr_rolled_back = [],
       rr_skipped = [], rr_rejected = [], rr_errors = [], rr_resolved = None \<rparr>"

text \<open>The state after the documents are read, with the paths that stay accepted.\<close>

definition load_targets ::
  "repair_env \<Rightarrow> proposal list \<Rightarrow> path_verdicts \<Rightarrow> repair_state \<Rightarrow> path_verdicts \<times> repair_state" where
  "load_targets env ps verdicts s =
     (case foldl (load_target env) ([], s) (applicable_proposal_paths ps verdicts) of
        (dropped, s') \<Rightarrow> ((filter (\<lambda>(p, _). p \<notin> set dropped) (fst verdicts), snd verdicts), s'))"

definition apply_repair ::
  "repair_env \<Rightarrow> proposal list \<Rightarrow> bool \<Rightarrow> bool \<Rightarrow> repair_world \<Rightarrow> repair_result \<times> repair_world" where
  "apply_repair env ps dry fill_missing w =
     (if ps = [] then (seal (new_result env dry), w)
      else case contain_proposal_paths env ps (new_result env dry) of
        (verdicts, r) \<Rightarrow>
          (case load_targets env ps verdicts \<lparr> rx_targets = [], rx_result = r, rx_world = w \<rparr> of
             (verdicts', s) \<Rightarrow>
               let s1 = s\<lparr> rx_result := (rx_result s)\<lparr> rr_resolved := (if dry then Some verdicts' else None) \<rparr> \<rparr>;
                   s2 = foldl (apply_proposal env dry fill_missing verdicts') s1 ps;
                   s3 = (if dry then s2 else post_validate env s2)
               in (seal (rx_result s3), rx_world s3)))"

section \<open>Documents and stem files\<close>

lemma document_extractor_iff: "document_extractor p \<noteq> None \<longleftrightarrow> path_ext p = ''.md'' \<or> path_ext p = ''.markdown''"
proof -
  have e: "new_registry = Inr \<lparr> rg_by_name = [(''markdown'', markdown_extractor)],
      rg_by_extension = [(''.md'', markdown_extractor), (''.markdown'', markdown_extractor)] \<rparr>"
    by code_simp
  show ?thesis unfolding document_extractor_def e by (simp add: for_file_def)
qed

lemma file_part_stem: "file_part (stem_path_of d) = ''.stem''"
proof (cases "d = []")
  case True
  show ?thesis unfolding True by code_simp
next
  case False
  define cs where "cs = clean_comps (is_abs d) (path_comps d)"
  have "path_comps (d @ slash # ''.stem'') = path_comps d @ [''.stem'']"
    by (simp add: path_comps_append) (code_simp)
  moreover have "is_abs (d @ slash # ''.stem'') = is_abs d"
    using False by (cases d) (simp_all add: is_abs_def)
  ultimately have c: "clean_comps (is_abs (d @ slash # ''.stem'')) (path_comps (d @ slash # ''.stem'')) = cs @ [''.stem'']"
    by (simp add: clean_comps_def cs_def)
  have one: "file_part ''.stem'' = ''.stem''" by code_simp
  have two: "file_part (x @ slash # ''.stem'') = ''.stem''" for x by (rule file_part_slash) simp
  have j: "file_part (join_with ''/'' (cs @ [''.stem''])) = ''.stem''"
    using one two by (cases "cs = []") (simp_all add: join_with_snoc)
  have k: "file_part (slash # join_with ''/'' (cs @ [''.stem''])) = ''.stem''"
    using two [of "[]"] two [of "slash # join_with ''/'' cs"]
    by (cases "cs = []") (simp_all add: join_with_snoc)
  have "stem_path_of d = path_clean (d @ slash # ''.stem'')"
    using False by (simp add: stem_path_of_def path_join_def)
  then show ?thesis unfolding path_clean_def Let_def c using j k by simp
qed

lemma document_not_stem:
  assumes "document_extractor a \<noteq> None" shows "a \<noteq> stem_path_of d"
proof
  assume "a = stem_path_of d"
  then have "path_ext a = (case last_index_char ''.stem'' (CHR ''.'') of None \<Rightarrow> [] | Some i \<Rightarrow> drop i ''.stem'')"
    by (simp add: path_ext_def file_part_stem Let_def)
  moreover have "(case last_index_char ''.stem'' (CHR ''.'') of None \<Rightarrow> [] | Some i \<Rightarrow> drop i ''.stem'') = ''.stem''"
    by code_simp
  ultimately show False using assms document_extractor_iff by simp
qed

text \<open>Writing a document changes no schema, so it changes what the schema says of no text.\<close>

lemma set_file_simps [simp]:
  "fs_cwd (set_file a c fs) = fs_cwd fs" "fs_stat (set_file a c fs) = fs_stat fs"
  "fs_lstat (set_file a c fs) = fs_lstat fs" "fs_list (set_file a c fs) = fs_list fs"
  "fs_read (set_file a c fs) = (fs_read fs)(a := Inr c)"
  by (simp_all add: set_file_def)

lemma missing_loop_set_file: "missing_loop (set_file a c fs) p e = missing_loop fs p e"
proof (induction fs p e rule: missing_loop.induct)
  case (1 fs p e)
  show ?case
    by (subst (1 2) missing_loop.simps)
      (use "1.IH" in \<open>auto split: sum.splits simp del: missing_loop.simps\<close>)
qed

lemma discovery_start_dir_set_file: "discovery_start_dir (set_file a c fs) t = discovery_start_dir fs t"
proof -
  have "discovery_path_error (set_file a c fs) = discovery_path_error fs"
    by (intro ext) (simp add: discovery_path_error_def missing_loop_set_file del: missing_loop.simps)
  then show ?thesis by (simp only: discovery_start_dir_def set_file_simps)
qed

lemma walk_loop_cong:
  "(\<And>d. load (stem_path_of d) = load' (stem_path_of d)) \<Longrightarrow> walk_loop load dir es = walk_loop load' dir es"
proof (induction load dir es rule: walk_loop.induct)
  case (1 load dir es)
  show ?case
    by (subst (1 2) walk_loop.simps, subst "1.prems")
      (use 1 in \<open>auto simp: Let_def split: sum.splits option.splits\<close>)
qed

lemma schema_of_document_set_file:
  assumes "document_extractor a \<noteq> None"
  shows "schema_of_document env (set_file a c fs) b = schema_of_document env fs b"
proof -
  have "load_optional_stem y (set_file a c fs) (stem_path_of d) = load_optional_stem y fs (stem_path_of d)" for y d
  proof -
    have "fs_read (set_file a c fs) (stem_path_of d) = fs_read fs (stem_path_of d)"
      using document_not_stem [OF assms, of d] by simp
    then show ?thesis by (simp only: load_optional_stem_def set_file_simps(3))
  qed
  then have l: "walk_loop (load_optional_stem y (set_file a c fs)) dir es = walk_loop (load_optional_stem y fs) dir es"
    for y dir es by (rule walk_loop_cong)
  have "walk_up y (set_file a c fs) t = walk_up y fs t" for y t
    by (simp only: walk_up_def discovery_start_dir_set_file l)
  then show ?thesis by (simp only: schema_of_document_def resolve_for_record_def)
qed

lemma document_messages_set_file:
  assumes "document_extractor a \<noteq> None"
  shows "document_messages env (set_file a c fs) path b content = document_messages env fs path b content"
  unfolding document_messages_def schema_of_document_set_file [OF assms] by (rule refl)

section \<open>System calls\<close>

lemma next_call_fs [simp]: "next_call w = (r, w') \<Longrightarrow> wd_fs w' = wd_fs w"
  by (auto simp: next_call_def split: list.splits)

lemma read_file_fs: "read_file p w = (r, w') \<Longrightarrow> wd_fs w' = wd_fs w \<and> (\<forall>c. r = Inr c \<longrightarrow> fs_read (wd_fs w) p = Inr c)"
  by (auto simp: read_file_def split: prod.splits option.splits sum.splits)

lemma run_steps_fs: "run_steps ss t w = (r, w') \<Longrightarrow> wd_fs w' = wd_fs w"
  by (induction ss t w rule: run_steps.induct) (auto split: prod.splits option.splits)

lemma remove_staged_fs [simp]: "wd_fs (remove_staged d w) = wd_fs w"
  by (auto simp: remove_staged_def split: prod.splits option.splits)

lemma stat_is_dir_fs: "stat_is_dir p w = (b, w') \<Longrightarrow> wd_fs w' = wd_fs w"
  by (auto simp: stat_is_dir_def split: prod.splits option.splits)

text \<open>A write replaces the file, or leaves it as it is and says so.\<close>

lemma write_file_atomic_fs:
  assumes "write_file_atomic a c w = (r, w')"
  shows "wd_fs w' = (if r = None then set_file a c (wd_fs w) else wd_fs w)"
  using assms
  by (auto simp: write_file_atomic_def split: prod.splits option.splits dest!: run_steps_fs)

section \<open>What a run tracks\<close>

text \<open>
  Every target is a contained document with its first text, and every file is as it was at the start unless a
  target that reaches it has been written.
\<close>

definition contained :: "repair_env \<Rightarrow> string \<Rightarrow> string \<Rightarrow> bool" where
  "contained env path apath \<longleftrightarrow> contain_path (rv_link env) (rv_root env) path False = Inr apath"

definition target_ok :: "repair_env \<Rightarrow> filesys \<Rightarrow> string \<Rightarrow> repair_target \<Rightarrow> bool" where
  "target_ok env fs0 path t \<longleftrightarrow>
     contained env path (tg_abs t) \<and> document_extractor (tg_abs t) \<noteq> None \<and>
     fs_read fs0 (tg_abs t) = Inr (tg_original t)"

definition written_to :: "repair_state \<Rightarrow> string set \<Rightarrow> string \<Rightarrow> bool" where
  "written_to s paths a \<longleftrightarrow> (\<exists>p \<in> paths. \<exists>t. map_of (rx_targets s) p = Some t \<and> tg_written t \<and> tg_abs t = a)"

definition tracked :: "repair_env \<Rightarrow> filesys \<Rightarrow> repair_state \<Rightarrow> bool" where
  "tracked env fs0 s \<longleftrightarrow>
     (\<forall>p t. map_of (rx_targets s) p = Some t \<longrightarrow> target_ok env fs0 p t) \<and>
     (\<forall>a. fs_read (wd_fs (rx_world s)) a = fs_read fs0 a \<or> written_to s UNIV a)"

lemma note_fields [simp]:
  "rx_targets (note_skipped m s) = rx_targets s" "rx_world (note_skipped m s) = rx_world s"
  "rx_targets (note_rejected m s) = rx_targets s" "rx_world (note_rejected m s) = rx_world s"
  "rx_targets (note_error m s) = rx_targets s" "rx_world (note_error m s) = rx_world s"
  "rx_targets (record_change p m s) = rx_targets s" "rx_world (record_change p m s) = rx_world s"
  "rx_world (put_target p t s) = rx_world s" "rx_targets (s\<lparr> rx_world := w \<rparr>) = rx_targets s"
  "map_of (rx_targets (put_target p t s)) = (map_of (rx_targets s))(p := Some t)"
  by (simp_all add: note_skipped_def note_rejected_def note_error_def record_change_def put_target_def update_conv')

lemma tracked_same:
  "\<lbrakk>tracked env fs0 s; rx_targets s' = rx_targets s; wd_fs (rx_world s') = wd_fs (rx_world s)\<rbrakk> \<Longrightarrow> tracked env fs0 s'"
  by (simp add: tracked_def written_to_def)

lemma tracked_notes [simp]:
  "tracked env fs0 (note_skipped m s) = tracked env fs0 s" "tracked env fs0 (note_rejected m s) = tracked env fs0 s"
  "tracked env fs0 (note_error m s) = tracked env fs0 s" "tracked env fs0 (record_change p m s) = tracked env fs0 s"
  by (simp_all add: tracked_def written_to_def)

lemma tracked_world: "\<lbrakk>tracked env fs0 s; wd_fs w = wd_fs (rx_world s)\<rbrakk> \<Longrightarrow> tracked env fs0 (s\<lparr> rx_world := w \<rparr>)"
  by (rule tracked_same) simp_all

text \<open>A target is replaced by one of the same file and first text, written or not.\<close>

definition same_file :: "repair_target \<Rightarrow> repair_target \<Rightarrow> bool" where
  "same_file t t' \<longleftrightarrow> tg_abs t' = tg_abs t \<and> tg_original t' = tg_original t \<and> (tg_written t \<longrightarrow> tg_written t')"

lemma written_to_world [simp]: "written_to (s\<lparr> rx_world := w \<rparr>) ps a = written_to s ps a"
  by (simp add: written_to_def)

lemma written_to_put:
  assumes m: "map_of (rx_targets s) p = Some t" and f: "same_file t t'" and w: "written_to s ps a"
  shows "written_to (put_target p t' s) ps a"
proof -
  obtain q u where q: "q \<in> ps" "map_of (rx_targets s) q = Some u" "tg_written u" "tg_abs u = a"
    using w by (auto simp: written_to_def)
  show ?thesis
  proof (cases "q = p")
    case True
    then have "u = t" using q(2) m by simp
    then show ?thesis using q True f unfolding written_to_def same_file_def
      by (intro bexI [of _ p] exI [of _ t']) simp_all
  next
    case False
    then show ?thesis using q unfolding written_to_def by (intro bexI [of _ q] exI [of _ u]) simp_all
  qed
qed

lemma tracked_put:
  assumes tr: "tracked env fs0 s" and m: "map_of (rx_targets s) p = Some t" and f: "same_file t t'"
  shows "tracked env fs0 (put_target p t' s)"
proof -
  have "target_ok env fs0 p t'" using tr m f by (auto simp: tracked_def target_ok_def same_file_def)
  then show ?thesis using tr written_to_put [OF m f] by (auto simp: tracked_def)
qed

lemma tracked_write:
  assumes tr: "tracked env fs0 s" and m: "map_of (rx_targets s) p = Some t" and f: "same_file t t'" "tg_written t'"
    and w: "wd_fs w = set_file (tg_abs t) c (wd_fs (rx_world s))"
  shows "tracked env fs0 (put_target p t' (s\<lparr> rx_world := w \<rparr>))"
proof -
  have "target_ok env fs0 p t'" using tr m f by (auto simp: tracked_def target_ok_def same_file_def)
  moreover have "fs_read (wd_fs w) a = fs_read fs0 a \<or> written_to (put_target p t' (s\<lparr> rx_world := w \<rparr>)) UNIV a" for a
  proof (cases "a = tg_abs t")
    case True
    then show ?thesis using f unfolding written_to_def same_file_def
      by (intro disjI2 bexI [of _ p] exI [of _ t']) simp_all
  next
    case False
    then have "fs_read (wd_fs w) a = fs_read fs0 a \<or> written_to s UNIV a" using tr w by (simp add: tracked_def)
    moreover have "written_to s UNIV a \<Longrightarrow> written_to (put_target p t' (s\<lparr> rx_world := w \<rparr>)) UNIV a"
      by (rule written_to_put [of _ _ t]) (use m f in simp_all)
    ultimately show ?thesis by blast
  qed
  ultimately show ?thesis using tr by (auto simp: tracked_def)
qed

section \<open>The handlers keep track\<close>

lemma same_file_simps [simp]:
  "same_file t t" "same_file t (with_field f v t)" "same_file t (invalidate_scalar f t) "
  "same_file t (invalidate_scalar f (with_field f v t))"
  by (simp_all add: same_file_def with_field_def invalidate_scalar_def)

lemma same_file_content:
  "same_file t t' \<Longrightarrow> same_file t (t'\<lparr> tg_content := c \<rparr>)"
  "same_file t t' \<Longrightarrow> same_file t (t'\<lparr> tg_content := c, tg_written := True \<rparr>)"
  by (simp_all add: same_file_def)

lemma rewrite_target_tracked:
  assumes tr: "tracked env fs0 s" and m: "map_of (rx_targets s) p = Some t" and f: "same_file t t'"
    and r: "rewrite_target dry p t t' new nc msg s = (r, s')"
  shows "tracked env fs0 s'"
proof (cases dry)
  case True
  then show ?thesis using r tracked_put [OF tr m same_file_content(1) [OF f]] by (auto simp: rewrite_target_def)
next
  case False
  obtain rd w where rd: "read_file (tg_abs t) (rx_world s) = (rd, w)" by fastforce
  note w = read_file_fs [OF rd]
  show ?thesis
  proof (cases rd)
    case (Inl e)
    then show ?thesis using r False rd w tr by (auto simp: rewrite_target_def intro: tracked_world)
  next
    case (Inr c)
    obtain wr w' where wr: "write_file_atomic (tg_abs t) (new c) w = (wr, w')" by fastforce
    note w' = write_file_atomic_fs [OF wr]
    have same: "tracked env fs0 (s\<lparr> rx_world := v \<rparr>)" if "wd_fs v = wd_fs (rx_world s)" for v
      using tr that by (rule tracked_world)
    have "tracked env fs0 (put_target p (t'\<lparr> tg_content := Some (new c), tg_written := True \<rparr>) (s\<lparr> rx_world := w' \<rparr>))"
      if "wr = None"
      by (rule tracked_write [OF tr m same_file_content(2) [OF f]]) (use w w' that in simp_all)
    then show ?thesis using r False rd Inr wr w w' same
      by (cases wr) (auto simp: rewrite_target_def split: if_splits)
  qed
qed

lemma store_text_tracked:
  assumes tr: "tracked env fs0 s" and m: "map_of (rx_targets s) p = Some t"
    and r: "store_text dry p t c msg s = (r, s')"
  shows "tracked env fs0 s'"
proof (cases dry)
  case True
  then show ?thesis using r tracked_put [OF tr m same_file_content(1) [OF same_file_simps(1)]]
    by (auto simp: store_text_def)
next
  case False
  obtain wr w' where wr: "write_file_atomic (tg_abs t) c (rx_world s) = (wr, w')" by fastforce
  note w' = write_file_atomic_fs [OF wr]
  have "tracked env fs0 (put_target p (t\<lparr> tg_content := Some c, tg_written := True \<rparr>) (s\<lparr> rx_world := w' \<rparr>))"
    if "wr = None"
    by (rule tracked_write [OF tr m same_file_content(2) [OF same_file_simps(1)]]) (use w' that in simp_all)
  then show ?thesis using r False wr w' tr
    by (cases wr) (auto simp: store_text_def intro: tracked_world)
qed

lemma repair_handler_tracked:
  assumes tr: "tracked env fs0 s" and r: "repair_handler env dry p path s = (r, s')"
  shows "tracked env fs0 s'"
proof (cases "map_of (rx_targets s) path")
  case None
  then show ?thesis using r tr
    by (auto simp: repair_handler_def correct_value_path_def add_field_path_def set_field_path_def
        set_section_path_def correct_link_path_def split: if_splits)
next
  case (Some t)
  have R: "\<And>t' new nc msg r s'. same_file t t' \<Longrightarrow> rewrite_target dry path t t' new nc msg s = (r, s') \<Longrightarrow> tracked env fs0 s'"
    by (rule rewrite_target_tracked [OF tr Some])
  consider (correct) "correct_value_path env dry p path s = (r, s')"
    | (add) "add_field_path env dry p path s = (r, s')" | (set) "set_field_path env dry p path s = (r, s')"
    | (sec) "set_section_path dry p path s = (r, s')" | (link) "correct_link_path dry p path s = (r, s')"
    using r by (auto simp: repair_handler_def split: if_splits)
  then show ?thesis
  proof cases
    case correct
    then show ?thesis using Some tr
      by (auto simp: correct_value_path_def Let_def split: if_splits intro: R [rotated])
  next
    case add
    then show ?thesis using Some tr
      by (auto simp: add_field_path_def Let_def split: if_splits option.splits intro: R [rotated])
  next
    case set
    let ?t1 = "invalidate_scalar (pp_field p) (with_field (pp_field p) (pp_value p) t)"
    have "tracked env fs0 (put_target path ?t1 s)" by (rule tracked_put [OF tr Some]) simp
    then show ?thesis using set Some tr
      by (auto simp: set_field_path_def Let_def split: if_splits
          intro: rewrite_target_tracked [where t = ?t1 and t' = ?t1])
  next
    case sec
    then show ?thesis using Some tr store_text_tracked [OF tr Some]
      by (auto simp: set_section_path_def split: sum.splits)
  next
    case link
    obtain src s1 where l: "link_source dry path t s = (src, s1)" by fastforce
    have "rx_targets s1 = rx_targets s" "tracked env fs0 s1"
      using l tr by (auto simp: link_source_def split: if_splits prod.splits sum.splits
          dest: read_file_fs intro: tracked_world)
    then show ?thesis using link Some l store_text_tracked [of env fs0 s1 path t]
      by (auto simp: correct_link_path_def split: sum.splits prod.splits bool.splits)
  qed
qed

lemma for_paths_invariant:
  assumes step: "\<And>p s r s'. I s \<Longrightarrow> f p s = (r, s') \<Longrightarrow> I s'"
  shows "\<lbrakk>I s; for_paths f ps s = (r, s')\<rbrakk> \<Longrightarrow> I s'"
proof (induction ps arbitrary: s)
  case (Cons p ps)
  obtain r1 s1 where f: "f p s = (r1, s1)" by fastforce
  show ?case using Cons.IH [of s1] step [OF Cons.prems(1) f] Cons.prems(2) f by (cases r1) auto
qed simp

lemma apply_proposal_tracked:
  assumes tr: "tracked env fs0 s" shows "tracked env fs0 (apply_proposal env dry fm v s p)"
proof -
  let ?p = "p\<lparr> pp_paths := accepted_proposal_paths p (fst v) \<rparr>"
  obtain r s' where r: "for_paths (repair_handler env dry ?p) (pp_paths ?p) s = (r, s')" by fastforce
  have "tracked env fs0 s'"
    by (rule for_paths_invariant [where I = "tracked env fs0", OF repair_handler_tracked tr r])
  then show ?thesis using r tr
    by (cases v; cases r) (auto simp: apply_proposal_def Let_def)
qed

lemma load_target_tracked:
  assumes "tracked env fs0 s" "wd_fs (rx_world s) = fs0" "contained env path apath"
    and "load_target env (d, s) (path, apath) = (d', s')"
  shows "tracked env fs0 s' \<and> wd_fs (rx_world s') = fs0"
proof -
  obtain b w where st: "stat_is_dir apath (rx_world s) = (b, w)" by fastforce
  obtain rd w' where rd: "read_file apath w = (rd, w')" by fastforce
  note w = stat_is_dir_fs [OF st] read_file_fs [OF rd]
  have put: "tracked env fs0 (put_target path t (s\<lparr> rx_world := w' \<rparr>))"
    if "target_ok env fs0 path t" for t
    using assms(1,2) that w by (auto simp: tracked_def written_to_def)
  show ?thesis using assms(4) st rd w assms(1-3) put
    by (auto simp: load_target_def Let_def target_ok_def split: if_splits sum.splits option.splits bool.splits
        intro!: tracked_world)
qed

section \<open>Containment of the targets\<close>

definition verdicts_ok :: "repair_env \<Rightarrow> path_verdicts \<Rightarrow> bool" where
  "verdicts_ok env v \<longleftrightarrow> (\<forall>p a. map_of (fst v) p = Some a \<longrightarrow> contained env p a)"

lemma contain_step_ok: "verdicts_ok env (fst acc) \<Longrightarrow> verdicts_ok env (fst (contain_step env acc p))"
  by (auto simp: contain_step_def verdicts_ok_def contained_def update_conv' split: prod.splits sum.splits
      contain_error.splits)

lemma contain_proposal_paths_ok:
  "contain_proposal_paths env ps r = (v, r') \<Longrightarrow> verdicts_ok env v"
proof -
  have "verdicts_ok env (fst acc) \<Longrightarrow> verdicts_ok env (fst (foldl (contain_step env) acc paths))" for acc paths
    by (induction paths arbitrary: acc) (simp_all add: contain_step_ok)
  moreover have "verdicts_ok env (fst ((([], []) :: path_verdicts), r))" by (simp add: verdicts_ok_def)
  moreover assume "contain_proposal_paths env ps r = (v, r')"
  ultimately show ?thesis unfolding contain_proposal_paths_def by (metis fst_conv)
qed

lemma applicable_contained:
  "\<lbrakk>verdicts_ok env v; (p, a) \<in> set (applicable_proposal_paths ps v)\<rbrakk> \<Longrightarrow> contained env p a"
  by (auto simp: applicable_proposal_paths_def set_map_filter_iff verdicts_ok_def split: prod.splits)

lemma load_fold_tracked:
  assumes "\<And>p a. (p, a) \<in> set entries \<Longrightarrow> contained env p a"
    and "tracked env fs0 s" "wd_fs (rx_world s) = fs0"
    and "foldl (load_target env) (d, s) entries = (d', s')"
  shows "tracked env fs0 s' \<and> wd_fs (rx_world s') = fs0"
  using assms
proof (induction entries arbitrary: d s)
  case (Cons e entries)
  obtain p a where e: "e = (p, a)" by (cases e)
  obtain d1 s1 where l: "load_target env (d, s) (p, a) = (d1, s1)" by fastforce
  have "tracked env fs0 s1 \<and> wd_fs (rx_world s1) = fs0"
    by (rule load_target_tracked [OF Cons.prems(2,3) _ l]) (use Cons.prems(1) e in auto)
  then show ?case using Cons.IH [of s1 d1] Cons.prems(1,4) e l by auto
qed simp

lemma load_targets_tracked:
  assumes "verdicts_ok env v" "load_targets env ps v \<lparr> rx_targets = [], rx_result = r, rx_world = w \<rparr> = (v', s)"
  shows "tracked env (wd_fs w) s"
proof -
  let ?s0 = "\<lparr> rx_targets = [], rx_result = r, rx_world = w \<rparr>"
  obtain d s' where f: "foldl (load_target env) ([], ?s0) (applicable_proposal_paths ps v) = (d, s')" by fastforce
  have "tracked env (wd_fs w) ?s0" by (simp add: tracked_def)
  then have "tracked env (wd_fs w) s'"
    using load_fold_tracked [OF _ _ _ f] applicable_contained [OF assms(1)] by simp
  then show ?thesis using assms(2) f by (simp add: load_targets_def)
qed

lemma load_targets_fs:
  assumes "verdicts_ok env v" "load_targets env ps v \<lparr> rx_targets = [], rx_result = r, rx_world = w \<rparr> = (v', s)"
  shows "wd_fs (rx_world s) = wd_fs w"
proof -
  let ?s0 = "\<lparr> rx_targets = [], rx_result = r, rx_world = w \<rparr>"
  obtain d s' where f: "foldl (load_target env) ([], ?s0) (applicable_proposal_paths ps v) = (d, s')" by fastforce
  have "tracked env (wd_fs w) ?s0" by (simp add: tracked_def)
  then have "wd_fs (rx_world s') = wd_fs w"
    using load_fold_tracked [OF _ _ _ f] applicable_contained [OF assms(1)] by simp
  then show ?thesis using assms(2) f by (simp add: load_targets_def)
qed

lemma foldl_tracked: "tracked env fs0 s \<Longrightarrow> tracked env fs0 (foldl (apply_proposal env dry fm v) s ps)"
  by (induction ps arbitrary: s) (simp_all add: apply_proposal_tracked)

section \<open>Post-validation\<close>

text \<open>What holds of a file that the validation has dealt with.\<close>

definition accepted_by_schema :: "repair_env \<Rightarrow> filesys \<Rightarrow> string \<Rightarrow> bool" where
  "accepted_by_schema env fs a \<longleftrightarrow>
     (\<exists>path content. contained env path a \<and> fs_read fs a = Inr content \<and>
        document_messages env fs path a content = [])"

definition rollback_reported :: "repair_env \<Rightarrow> repair_result \<Rightarrow> string \<Rightarrow> bool" where
  "rollback_reported env r a \<longleftrightarrow> (\<exists>path e. contained env path a \<and> rollback_error path e \<in> set (rr_errors r))"

definition settled :: "repair_env \<Rightarrow> filesys \<Rightarrow> repair_state \<Rightarrow> string \<Rightarrow> bool" where
  "settled env fs0 s a \<longleftrightarrow>
     fs_read (wd_fs (rx_world s)) a = fs_read fs0 a \<or>
     accepted_by_schema env (wd_fs (rx_world s)) a \<or> rollback_reported env (rx_result s) a"

definition targets_ok :: "repair_env \<Rightarrow> filesys \<Rightarrow> repair_state \<Rightarrow> bool" where
  "targets_ok env fs0 s \<longleftrightarrow> (\<forall>p t. map_of (rx_targets s) p = Some t \<longrightarrow> target_ok env fs0 p t)"

lemma validate_written_fs: "validate_written_target env p t w = (ms, w') \<Longrightarrow> wd_fs w' = wd_fs w"
  by (auto simp: validate_written_target_def split: prod.splits sum.splits dest: read_file_fs)

lemma validate_written_accepts:
  assumes "validate_written_target env p t w = ([], w')" "contained env p (tg_abs t)"
  shows "accepted_by_schema env (wd_fs w') (tg_abs t)"
proof -
  obtain rd w1 where rd: "read_file (tg_abs t) w = (rd, w1)" by fastforce
  then obtain c where c: "rd = Inr c" "w1 = w'" "document_messages env (wd_fs w') p (tg_abs t) c = []"
    using assms(1) by (cases rd) (auto simp: validate_written_target_def)
  then show ?thesis using read_file_fs [OF rd] assms(2) unfolding accepted_by_schema_def
    by (intro exI [of _ p] exI [of _ c]) simp
qed

lemma written_to_targets:
  "written_to s UNIV a \<Longrightarrow> written_to s (set (map fst (rx_targets s))) a"
proof -
  assume "written_to s UNIV a"
  then obtain p t where t: "map_of (rx_targets s) p = Some t" "tg_written t" "tg_abs t = a"
    by (auto simp: written_to_def)
  then have "p \<in> set (map fst (rx_targets s))" by (metis domI dom_map_of_conv_image_fst list.set_map)
  then show ?thesis using t unfolding written_to_def by (intro bexI [of _ p] exI [of _ t]) simp_all
qed

lemma settled_write:
  assumes "settled env fs0 s a" "b \<noteq> a" "document_extractor b \<noteq> None"
    and "wd_fs (rx_world s') = set_file b c (wd_fs (rx_world s))"
    and "set (rr_errors (rx_result s)) \<subseteq> set (rr_errors (rx_result s'))"
  shows "settled env fs0 s' a"
  using assms document_messages_set_file [OF assms(3)]
  unfolding settled_def accepted_by_schema_def rollback_reported_def by auto

lemma settled_same:
  assumes "settled env fs0 s a" "wd_fs (rx_world s') = wd_fs (rx_world s)"
    and "set (rr_errors (rx_result s)) \<subseteq> set (rr_errors (rx_result s'))"
  shows "settled env fs0 s' a"
  using assms unfolding settled_def rollback_reported_def by auto

lemma post_validate_path_settles:
  assumes ok: "targets_ok env fs0 s"
  shows "rx_targets (post_validate_path env s p) = rx_targets s"
    "settled env fs0 s a \<Longrightarrow> settled env fs0 (post_validate_path env s p) a"
    "written_to s {p} a \<Longrightarrow> settled env fs0 (post_validate_path env s p) a"
proof -
  have goals: "rx_targets (post_validate_path env s p) = rx_targets s \<and>
      (settled env fs0 s a \<or> written_to s {p} a \<longrightarrow> settled env fs0 (post_validate_path env s p) a)" for a
  proof (cases "map_of (rx_targets s) p")
    case None
    then show ?thesis by (simp add: post_validate_path_def written_to_def)
  next
    case (Some t)
    show ?thesis
    proof (cases "tg_written t")
      case False
      then show ?thesis using Some by (simp add: post_validate_path_def written_to_def)
    next
      case True
      have t: "target_ok env fs0 p t" using ok Some by (simp add: targets_ok_def)
      have wr: "written_to s {p} a \<Longrightarrow> a = tg_abs t" using Some by (simp add: written_to_def)
      obtain ms w where v: "validate_written_target env p t (rx_world s) = (ms, w)" by fastforce
      note w = validate_written_fs [OF v]
      show ?thesis
      proof (cases ms)
        case Nil
        have s': "post_validate_path env s p = s\<lparr> rx_world := w \<rparr>"
          using Some True v Nil by (simp add: post_validate_path_def)
        have "settled env fs0 (s\<lparr> rx_world := w \<rparr>) (tg_abs t)"
          using validate_written_accepts [OF v [unfolded Nil]] t by (simp add: settled_def target_ok_def)
        moreover have "settled env fs0 s a \<Longrightarrow> settled env fs0 (s\<lparr> rx_world := w \<rparr>) a"
          by (erule settled_same) (simp_all add: w)
        ultimately show ?thesis using s' wr by auto
      next
        case (Cons m ms')
        obtain r w' where wf: "write_file_atomic (tg_abs t) (tg_original t) w = (r, w')" by fastforce
        note w' = write_file_atomic_fs [OF wf]
        show ?thesis
        proof (cases r)
          case None
          define s' where "s' = post_validate_path env s p"
          have s': "s' = s\<lparr> rx_world := w', rx_result := retract_changes p ((rx_result s)
              \<lparr> rr_rolled_back := rr_rolled_back (rx_result s) @ [(p, ms)] \<rparr>) \<rparr>"
            using Some True v Cons wf None by (simp add: post_validate_path_def s'_def)
          then have errs: "rr_errors (rx_result s') = rr_errors (rx_result s)" and
            fs: "wd_fs (rx_world s') = set_file (tg_abs t) (tg_original t) (wd_fs (rx_world s))" and
            tg: "rx_targets s' = rx_targets s"
            using w w' None by (simp_all add: retract_changes_def)
          have "settled env fs0 s' (tg_abs t)" using fs t by (simp add: settled_def target_ok_def)
          moreover have "settled env fs0 s' a" if "settled env fs0 s a" "a \<noteq> tg_abs t"
            by (rule settled_write [OF that(1) that(2) [symmetric] _ fs]) (use t errs in \<open>simp_all add: target_ok_def\<close>)
          ultimately show ?thesis using tg wr unfolding s'_def [symmetric] by auto
        next
          case (Some e)
          have s': "post_validate_path env s p = note_error (rollback_error p e) (s\<lparr> rx_world := w' \<rparr>)"
            using \<open>map_of (rx_targets s) p = Some t\<close> True v Cons wf Some by (simp add: post_validate_path_def)
          have "settled env fs0 (note_error (rollback_error p e) (s\<lparr> rx_world := w' \<rparr>)) (tg_abs t)"
            using t by (auto simp: settled_def rollback_reported_def target_ok_def note_error_def)
          moreover have "settled env fs0 s a \<Longrightarrow> settled env fs0 (note_error (rollback_error p e) (s\<lparr> rx_world := w' \<rparr>)) a"
            by (erule settled_same) (use w w' Some in \<open>auto simp: note_error_def\<close>)
          ultimately show ?thesis using s' wr by auto
        qed
      qed
    qed
  qed
  then show "rx_targets (post_validate_path env s p) = rx_targets s"
    "settled env fs0 s a \<Longrightarrow> settled env fs0 (post_validate_path env s p) a"
    "written_to s {p} a \<Longrightarrow> settled env fs0 (post_validate_path env s p) a" by blast+
qed

lemma post_validate_fold:
  assumes "targets_ok env fs0 s" "settled env fs0 s a \<or> written_to s (set ps) a"
  shows "settled env fs0 (foldl (post_validate_path env) s ps) a"
  using assms
proof (induction ps arbitrary: s)
  case (Cons p ps)
  let ?s = "post_validate_path env s p"
  have P1: "rx_targets ?s = rx_targets s" by (rule post_validate_path_settles(1) [OF Cons.prems(1)])
  have P2: "settled env fs0 s a \<Longrightarrow> settled env fs0 ?s a" by (rule post_validate_path_settles(2) [OF Cons.prems(1)])
  have P3: "written_to s {p} a \<Longrightarrow> settled env fs0 ?s a" by (rule post_validate_path_settles(3) [OF Cons.prems(1)])
  have "targets_ok env fs0 ?s" using Cons.prems(1) P1 by (simp add: targets_ok_def)
  moreover have "settled env fs0 ?s a \<or> written_to ?s (set ps) a"
  proof -
    have "written_to s (set (p # ps)) a \<Longrightarrow> written_to s {p} a \<or> written_to ?s (set ps) a"
      by (auto simp: written_to_def P1)
    then show ?thesis using Cons.prems(2) P2 P3 by blast
  qed
  ultimately show ?case using Cons.IH by simp
qed (simp add: written_to_def)

text \<open>C9: Whatever a report asks and whatever system calls fail, after a repair every file either is as it was, or
  lies inside the root and is accepted by its own schema as it now reads; or the run reports as an error that it
  could not undo its write to the file. No other file of the file system is touched.\<close>

theorem repair_leaves_nothing_refused:
  "case apply_repair env ps False fill_missing w of (r, w') \<Rightarrow>
     fs_read (wd_fs w') a = fs_read (wd_fs w) a \<or> accepted_by_schema env (wd_fs w') a \<or> rollback_reported env r a"
proof (cases "ps = []")
  case True
  then show ?thesis by (simp add: apply_repair_def)
next
  case False
  obtain v r where c: "contain_proposal_paths env ps (new_result env False) = (v, r)" by fastforce
  obtain v' s where l: "load_targets env ps v \<lparr> rx_targets = [], rx_result = r, rx_world = w \<rparr> = (v', s)" by fastforce
  define s1 where "s1 = s\<lparr> rx_result := (rx_result s)\<lparr> rr_resolved := None \<rparr> \<rparr>"
  define s2 where "s2 = foldl (apply_proposal env False fill_missing v') s1 ps"
  have "tracked env (wd_fs w) s1"
    using tracked_same [OF load_targets_tracked [OF contain_proposal_paths_ok [OF c] l], of s1] by (simp add: s1_def)
  then have tr: "tracked env (wd_fs w) s2" unfolding s2_def by (rule foldl_tracked)
  have "settled env (wd_fs w) s2 a \<or> written_to s2 (set (sort (map fst (rx_targets s2)))) a"
    using tr written_to_targets [of s2 a] by (auto simp: tracked_def settled_def)
  then have "settled env (wd_fs w) (post_validate env s2) a"
    unfolding post_validate_def using tr by (intro post_validate_fold) (auto simp: tracked_def targets_ok_def)
  then show ?thesis using False c l
    by (simp add: apply_repair_def s1_def [symmetric] s2_def [symmetric] settled_def seal_def
        rollback_reported_def Let_def)
qed

section \<open>The dry run\<close>

text \<open>A state of a dry run and one of a real run that has had the same effects.\<close>

definition twin :: "repair_target \<Rightarrow> repair_target \<Rightarrow> bool" where
  "twin td tr \<longleftrightarrow> tg_abs td = tg_abs tr \<and> tg_record td = tg_record tr \<and> current_content td = current_content tr"

definition same_report :: "repair_result \<Rightarrow> repair_result \<Rightarrow> bool" where
  "same_report r r' \<longleftrightarrow> rr_changed r = rr_changed r' \<and> rr_skipped r = rr_skipped r' \<and>
     rr_rejected r = rr_rejected r' \<and> rr_errors r = rr_errors r'"

definition on_disk :: "repair_state \<Rightarrow> bool" where
  "on_disk s \<longleftrightarrow>
     (\<forall>p t. map_of (rx_targets s) p = Some t \<longrightarrow> fs_read (wd_fs (rx_world s)) (tg_abs t) = Inr (current_content t))"

definition one_path :: "repair_state \<Rightarrow> bool" where
  "one_path s \<longleftrightarrow>
     (\<forall>p q t u. map_of (rx_targets s) p = Some t \<and> map_of (rx_targets s) q = Some u \<and> tg_abs t = tg_abs u \<longrightarrow> p = q)"

definition simulates :: "repair_state \<Rightarrow> repair_state \<Rightarrow> bool" where
  "simulates sd sr \<longleftrightarrow>
     same_report (rx_result sd) (rx_result sr) \<and> on_disk sr \<and> one_path sr \<and>
     (\<forall>p. rel_option twin (map_of (rx_targets sd) p) (map_of (rx_targets sr) p))"

lemma current_content_update [simp]:
  "current_content (t\<lparr> tg_content := Some c \<rparr>) = c"
  "current_content (t\<lparr> tg_content := Some c, tg_written := b \<rparr>) = c"
  "current_content (t\<lparr> tg_record := r \<rparr>) = current_content t"
  by (simp_all add: current_content_def split: option.split)

lemma twin_intros:
  "twin t t" "twin td tr \<Longrightarrow> twin (with_field f v td) (with_field f v tr)"
  "twin td tr \<Longrightarrow> twin (invalidate_scalar f td) (invalidate_scalar f tr)"
  "twin td tr \<Longrightarrow> twin (td\<lparr> tg_content := Some c \<rparr>) (tr\<lparr> tg_content := Some c, tg_written := b \<rparr>)"
  by (simp_all add: twin_def with_field_def invalidate_scalar_def frontmatter_of_def)

lemma simulates_notes:
  assumes "simulates sd sr"
  shows "simulates (note_skipped m sd) (note_skipped m sr)" "simulates (note_rejected m sd) (note_rejected m sr)"
    "simulates (record_change p m sd) (record_change p m sr)"
  using assms
  by (auto simp: simulates_def same_report_def on_disk_def one_path_def note_skipped_def note_rejected_def
      record_change_def)

lemma simulates_put:
  assumes s: "simulates sd sr" and m: "map_of (rx_targets sr) p = Some tr" and tw: "twin td' tr'"
    and a: "tg_abs tr' = tg_abs tr"
    and disk: "fs_read (wd_fs w) (tg_abs tr) = Inr (current_content tr')"
      "\<And>a. a \<noteq> tg_abs tr \<Longrightarrow> fs_read (wd_fs w) a = fs_read (wd_fs (rx_world sr)) a"
  shows "simulates (put_target p td' sd) (put_target p tr' (sr\<lparr> rx_world := w \<rparr>))"
proof -
  let ?s = "put_target p tr' (sr\<lparr> rx_world := w \<rparr>)"
  have od: "on_disk sr" and op: "one_path sr" using s by (simp_all add: simulates_def)
  have "on_disk ?s" unfolding on_disk_def
  proof (intro allI impI)
    fix q t assume t: "map_of (rx_targets ?s) q = Some t"
    show "fs_read (wd_fs (rx_world ?s)) (tg_abs t) = Inr (current_content t)"
    proof (cases "q = p")
      case True
      then show ?thesis using t disk(1) a by simp
    next
      case False
      then have q: "map_of (rx_targets sr) q = Some t" using t by simp
      then have "tg_abs t \<noteq> tg_abs tr" using op m False unfolding one_path_def by blast
      then show ?thesis using q od disk(2) by (simp add: on_disk_def)
    qed
  qed
  moreover have "one_path ?s" unfolding one_path_def
  proof (intro allI impI)
    fix q r t u
    assume h: "map_of (rx_targets ?s) q = Some t \<and> map_of (rx_targets ?s) r = Some u \<and> tg_abs t = tg_abs u"
    have "\<exists>t'. map_of (rx_targets sr) x = Some t' \<and> tg_abs t' = tg_abs v" if "map_of (rx_targets ?s) x = Some v" for x v
      using that m a by (cases "x = p") auto
    then show "q = r" using h op unfolding one_path_def by metis
  qed
  moreover have "same_report (rx_result (put_target p td' sd)) (rx_result ?s)"
    using s by (simp add: simulates_def put_target_def)
  ultimately show ?thesis using s tw by (simp add: simulates_def)
qed

lemma simulates_rewrite:
  assumes s: "simulates sd sr" and m: "map_of (rx_targets sr) p = Some tr"
    and t: "twin td tr" "twin td' tr'" "tg_abs tr' = tg_abs tr"
    and r: "rewrite_target False p tr tr' new nc msg sr = (None, sr')"
  shows "\<exists>sd'. rewrite_target True p td td' new nc msg sd = (None, sd') \<and> simulates sd' sr'"
proof -
  obtain rd w where rd: "read_file (tg_abs tr) (rx_world sr) = (rd, w)" by fastforce
  then obtain c where c: "rd = Inr c" using r by (cases rd) (auto simp: rewrite_target_def)
  obtain wr w' where wr: "write_file_atomic (tg_abs tr) (new c) w = (wr, w')" by fastforce
  have wr0: "wr = None" using r rd c wr by (cases wr) (auto simp: rewrite_target_def split: if_splits)
  have sr': "sr' = record_change p msg (put_target p (tr'\<lparr> tg_content := Some (new c), tg_written := True \<rparr>)
      (sr\<lparr> rx_world := w' \<rparr>))"
    using r rd c wr wr0 by (auto simp: rewrite_target_def split: if_splits)
  have "current_content tr = c"
    using read_file_fs [OF rd] c s m by (auto simp: simulates_def on_disk_def)
  then have cd: "current_content td = c" using t(1) by (simp add: twin_def)
  have fs: "wd_fs w' = set_file (tg_abs tr) (new c) (wd_fs (rx_world sr))"
    using write_file_atomic_fs [OF wr] wr0 read_file_fs [OF rd] by simp
  have "simulates (put_target p (td'\<lparr> tg_content := Some (new c) \<rparr>) sd)
      (put_target p (tr'\<lparr> tg_content := Some (new c), tg_written := True \<rparr>) (sr\<lparr> rx_world := w' \<rparr>))"
    by (rule simulates_put [OF s m twin_intros(4) [OF t(2)]]) (use t(3) fs in simp_all)
  then show ?thesis using simulates_notes(3) sr' cd by (simp add: rewrite_target_def)
qed

lemma simulates_store:
  assumes s: "simulates sd sr" and m: "map_of (rx_targets sr) p = Some tr" and t: "twin td tr"
    and r: "store_text False p tr c msg sr = (None, sr')"
  shows "\<exists>sd'. store_text True p td c msg sd = (None, sd') \<and> simulates sd' sr'"
proof -
  obtain wr w' where wr: "write_file_atomic (tg_abs tr) c (rx_world sr) = (wr, w')" by fastforce
  have wr0: "wr = None" using r wr by (cases wr) (auto simp: store_text_def)
  have sr': "sr' = record_change p msg (put_target p (tr\<lparr> tg_content := Some c, tg_written := True \<rparr>)
      (sr\<lparr> rx_world := w' \<rparr>))"
    using r wr wr0 by (auto simp: store_text_def)
  have "simulates (put_target p (td\<lparr> tg_content := Some c \<rparr>) sd)
      (put_target p (tr\<lparr> tg_content := Some c, tg_written := True \<rparr>) (sr\<lparr> rx_world := w' \<rparr>))"
    by (rule simulates_put [OF s m twin_intros(4) [OF t]]) (use write_file_atomic_fs [OF wr] wr0 in simp_all)
  then show ?thesis using simulates_notes(3) sr' by (simp add: store_text_def)
qed

lemma simulates_world:
  "\<lbrakk>simulates sd sr; wd_fs w = wd_fs (rx_world sr)\<rbrakk> \<Longrightarrow> simulates sd (sr\<lparr> rx_world := w \<rparr>)"
  by (simp add: simulates_def on_disk_def one_path_def)

lemma simulates_lookup:
  assumes "simulates sd sr"
  shows "map_of (rx_targets sr) p = None \<Longrightarrow> map_of (rx_targets sd) p = None"
    "map_of (rx_targets sr) p = Some tr \<Longrightarrow> \<exists>td. map_of (rx_targets sd) p = Some td \<and> twin td tr"
  using assms by (auto simp: simulates_def dest!: spec [of _ p] simp: option_rel_Some2 elim: option.rel_cases)

lemma twin_same:
  assumes "twin td tr"
  shows "frontmatter_of td = frontmatter_of tr" "tg_record td = tg_record tr"
    "current_content td = current_content tr"
    "frontmatter_of (with_field f v td) = frontmatter_of (with_field f v tr)"
    "frontmatter_of (invalidate_scalar f (with_field f v td)) = frontmatter_of (invalidate_scalar f (with_field f v tr))"
  using assms by (simp_all add: twin_def frontmatter_of_def with_field_def invalidate_scalar_def)

lemma same_abs [simp]:
  "tg_abs (with_field f v t) = tg_abs t" "tg_abs (invalidate_scalar f t) = tg_abs t"
  by (simp_all add: with_field_def invalidate_scalar_def)

lemma simulates_correct_value:
  assumes s: "simulates sd sr" and r: "correct_value_path env False p path sr = (None, sr')"
  shows "\<exists>sd'. correct_value_path env True p path sd = (None, sd') \<and> simulates sd' sr'"
proof (cases "map_of (rx_targets sr) path")
  case None
  then show ?thesis using simulates_lookup(1) [OF s None] s r by (simp add: correct_value_path_def)
next
  case (Some tr)
  obtain td where td: "map_of (rx_targets sd) path = Some td" "twin td tr"
    using simulates_lookup(2) [OF s Some] by auto
  note eq = twin_same [OF td(2)]
  let ?wf = "with_field (pp_field p) (pp_to p)"
  let ?f = "\<lambda>t. if pp_from_representation p \<noteq> [] then invalidate_scalar (pp_field p) (?wf t) else ?wf t"
  have t2: "twin (?f td) (?f tr)" and a2: "tg_abs (?f tr) = tg_abs tr" using td(2) by (simp_all add: twin_intros)
  note R = simulates_rewrite [OF s Some td(2) t2 a2]
  let ?skip = "pp_from_representation p = [] \<and> map_of (frontmatter_of tr) (pp_field p) = Some (VStr (pp_to p))"
  let ?reject = "unexpected_value (tg_record tr) (map_of (frontmatter_of tr) (pp_field p)) p"
  show ?thesis
  proof (cases ?skip)
    case True
    then show ?thesis using r Some td(1) simulates_notes [OF s]
      by (auto simp: correct_value_path_def Let_def eq)
  next
    case skip: False
    show ?thesis
    proof (cases ?reject)
      case True
      then show ?thesis using r Some td(1) skip simulates_notes [OF s]
        by (auto simp: correct_value_path_def Let_def eq)
    next
      case reject: False
      have rw: "correct_value_path env dry p path s =
          rewrite_target dry path t (?f t) (corrected_text env p t) (''rewrite produced no changes for '' @ path)
            (correct_message p path) s"
        if "map_of (rx_targets s) path = Some t" "twin t tr" for s t dry
        using skip reject that(1) twin_same(1,2) [OF that(2)]
        unfolding correct_value_path_def Let_def by auto
      have "corrected_text env p td = corrected_text env p tr"
        by (simp add: corrected_text_def [abs_def] twin_same(4) [OF td(2)])
      then have d: "correct_value_path env True p path sd = rewrite_target True path td (?f td) (corrected_text env p tr)
          (''rewrite produced no changes for '' @ path) (correct_message p path) sd"
        using rw [OF td] by simp
      have "rewrite_target False path tr (?f tr) (corrected_text env p tr)
          (''rewrite produced no changes for '' @ path) (correct_message p path) sr = (None, sr')"
        using r rw [OF Some twin_intros(1)] by simp
      from R [OF this] show ?thesis unfolding d .
    qed
  qed
qed

lemma simulates_add_field:
  assumes s: "simulates sd sr" and r: "add_field_path env False p path sr = (None, sr')"
  shows "\<exists>sd'. add_field_path env True p path sd = (None, sd') \<and> simulates sd' sr'"
proof (cases "map_of (rx_targets sr) path")
  case None
  then show ?thesis using simulates_lookup(1) [OF s None] s r by (simp add: add_field_path_def)
next
  case (Some tr)
  obtain td where td: "map_of (rx_targets sd) path = Some td" "twin td tr"
    using simulates_lookup(2) [OF s Some] by auto
  note eq = twin_same [OF td(2)]
  show ?thesis
  proof (cases "map_of (frontmatter_of tr) (pp_field p)")
    case (Some c)
    then show ?thesis using r \<open>map_of (rx_targets sr) path = Some tr\<close> td(1) simulates_notes [OF s]
      by (auto simp: add_field_path_def Let_def eq split: if_split_asm)
  next
    case None
    show ?thesis
      using r \<open>map_of (rx_targets sr) path = Some tr\<close> td(1) None
        simulates_rewrite [OF s \<open>map_of (rx_targets sr) path = Some tr\<close> td(2) twin_intros(2) [OF td(2)]]
      by (simp add: add_field_path_def Let_def eq)
  qed
qed

lemma simulates_set_field:
  assumes s: "simulates sd sr" and r: "set_field_path env False p path sr = (None, sr')"
  shows "\<exists>sd'. set_field_path env True p path sd = (None, sd') \<and> simulates sd' sr'"
proof (cases "map_of (rx_targets sr) path")
  case None
  then show ?thesis using simulates_lookup(1) [OF s None] s r by (simp add: set_field_path_def)
next
  case (Some tr)
  obtain td where td: "map_of (rx_targets sd) path = Some td" "twin td tr"
    using simulates_lookup(2) [OF s Some] by auto
  note eq = twin_same [OF td(2)]
  let ?f = "\<lambda>t. invalidate_scalar (pp_field p) (with_field (pp_field p) (pp_value p) t)"
  have tw: "twin (?f td) (?f tr)" by (intro twin_intros td(2))
  have cc: "current_content (?f tr) = current_content tr"
    by (simp add: invalidate_scalar_def with_field_def)
  have "simulates (put_target path (?f td) sd) (put_target path (?f tr) (sr\<lparr> rx_world := rx_world sr \<rparr>))"
    by (rule simulates_put [OF s Some tw]) (use s Some cc in \<open>auto simp: simulates_def on_disk_def\<close>)
  then have s1: "simulates (put_target path (?f td) sd) (put_target path (?f tr) sr)" by simp
  have m1: "map_of (rx_targets (put_target path (?f tr) sr)) path = Some (?f tr)" by simp
  note R = simulates_rewrite [OF s1 m1 tw tw refl]
  show ?thesis using r Some td(1) simulates_notes [OF s] R
    by (auto simp: set_field_path_def Let_def eq split: if_split_asm)
qed

lemma simulates_set_section:
  assumes s: "simulates sd sr" and r: "set_section_path False p path sr = (None, sr')"
  shows "\<exists>sd'. set_section_path True p path sd = (None, sd') \<and> simulates sd' sr'"
proof (cases "map_of (rx_targets sr) path")
  case None
  then show ?thesis using simulates_lookup(1) [OF s None] s r by (simp add: set_section_path_def)
next
  case (Some tr)
  obtain td where td: "map_of (rx_targets sd) path = Some td" "twin td tr"
    using simulates_lookup(2) [OF s Some] by auto
  show ?thesis using r Some td(1) simulates_store [OF s Some td(2)]
    by (auto simp: set_section_path_def twin_same [OF td(2)] split: sum.splits)
qed

lemma simulates_correct_link:
  assumes s: "simulates sd sr" and r: "correct_link_path False p path sr = (None, sr')"
  shows "\<exists>sd'. correct_link_path True p path sd = (None, sd') \<and> simulates sd' sr'"
proof (cases "map_of (rx_targets sr) path")
  case None
  then show ?thesis using simulates_lookup(1) [OF s None] s r by (simp add: correct_link_path_def)
next
  case (Some tr)
  obtain td where td: "map_of (rx_targets sd) path = Some td" "twin td tr"
    using simulates_lookup(2) [OF s Some] by auto
  obtain rd w where rd: "read_file (tg_abs tr) (rx_world sr) = (rd, w)" by fastforce
  then obtain c where c: "rd = Inr c" using r Some by (cases rd) (auto simp: correct_link_path_def link_source_def)
  have cd: "current_content td = c"
    using read_file_fs [OF rd] c s Some twin_same(3) [OF td(2)] by (auto simp: simulates_def on_disk_def)
  have s1: "simulates sd (sr\<lparr> rx_world := w \<rparr>)" by (rule simulates_world [OF s]) (use read_file_fs [OF rd] in simp)
  have m1: "map_of (rx_targets (sr\<lparr> rx_world := w \<rparr>)) path = Some tr" using Some by simp
  obtain cand b where rep: "replace_once c (pp_from p) (pp_to p) = (cand, b)" by fastforce
  show ?thesis
    using r Some td(1) rd c cd rep simulates_notes(1) [OF s1] simulates_store [OF s1 m1 td(2)]
    by (cases b) (auto simp: correct_link_path_def link_source_def)
qed

lemma repair_handler_cases:
  obtains "\<And>d. repair_handler env d p = correct_value_path env d p" | "\<And>d. repair_handler env d p = add_field_path env d p"
    | "\<And>d. repair_handler env d p = set_field_path env d p" | "\<And>d. repair_handler env d p = set_section_path d p"
    | "\<And>d. repair_handler env d p = correct_link_path d p"
  by (cases "pp_type p") (simp_all add: repair_handler_def)

lemma simulates_handler:
  assumes s: "simulates sd sr" and r: "repair_handler env False p path sr = (None, sr')"
  shows "\<exists>sd'. repair_handler env True p path sd = (None, sd') \<and> simulates sd' sr'"
  by (rule repair_handler_cases [of env p])
    (use r in \<open>simp_all add: simulates_correct_value [OF s] simulates_add_field [OF s] simulates_set_field [OF s]
       simulates_set_section [OF s] simulates_correct_link [OF s]\<close>)

lemma simulates_for_paths:
  "\<lbrakk>simulates sd sr; for_paths (repair_handler env False p) paths sr = (None, sr')\<rbrakk> \<Longrightarrow>
     \<exists>sd'. for_paths (repair_handler env True p) paths sd = (None, sd') \<and> simulates sd' sr'"
proof (induction paths arbitrary: sd sr)
  case (Cons path paths)
  obtain e sr1 where h: "repair_handler env False p path sr = (e, sr1)" by fastforce
  then have e: "e = None" and rest: "for_paths (repair_handler env False p) paths sr1 = (None, sr')"
    using Cons.prems(2) by (auto split: option.splits)
  obtain sd1 where d: "repair_handler env True p path sd = (None, sd1)" "simulates sd1 sr1"
    using simulates_handler [OF Cons.prems(1)] h e by blast
  show ?case using Cons.IH [OF d(2) rest] d(1) by simp
qed simp

definition errors_of :: "repair_state \<Rightarrow> string list" where
  "errors_of s = rr_errors (rx_result s)"

lemma errors_notes [simp]:
  "errors_of (note_skipped m s) = errors_of s" "errors_of (note_rejected m s) = errors_of s"
  "errors_of (record_change p m s) = errors_of s" "errors_of (put_target p t s) = errors_of s"
  "errors_of (note_error m s) = errors_of s @ [m]" "errors_of (s\<lparr> rx_world := w \<rparr>) = errors_of s"
  by (simp_all add: errors_of_def note_skipped_def note_rejected_def note_error_def record_change_def put_target_def)

lemma rewrite_target_errors: "rewrite_target dry p t t' new nc msg s = (r, s') \<Longrightarrow> errors_of s' = errors_of s"
  by (auto simp: rewrite_target_def split: if_splits prod.splits sum.splits option.splits)

lemma store_text_errors: "store_text dry p t c msg s = (r, s') \<Longrightarrow> errors_of s' = errors_of s"
  by (auto simp: store_text_def split: if_splits prod.splits option.splits)

lemma link_source_errors: "link_source dry p t s = (r, s') \<Longrightarrow> errors_of s' = errors_of s"
  by (auto simp: link_source_def split: if_splits prod.splits sum.splits)

lemma repair_handler_errors:
  assumes "repair_handler env dry p path s = (r, s')" shows "errors_of s' = errors_of s"
proof -
  consider (correct) "correct_value_path env dry p path s = (r, s')"
    | (add) "add_field_path env dry p path s = (r, s')" | (set) "set_field_path env dry p path s = (r, s')"
    | (sec) "set_section_path dry p path s = (r, s')" | (link) "correct_link_path dry p path s = (r, s')"
    using assms by (auto simp: repair_handler_def split: if_splits)
  then show ?thesis
  proof cases
    case correct
    then show ?thesis
      by (auto simp: correct_value_path_def Let_def split: option.splits if_splits dest: rewrite_target_errors)
  next
    case add
    then show ?thesis
      by (auto simp: add_field_path_def Let_def split: option.splits if_splits dest: rewrite_target_errors)
  next
    case set
    then show ?thesis
      by (auto simp: set_field_path_def Let_def split: option.splits if_splits dest: rewrite_target_errors)
  next
    case sec
    then show ?thesis
      by (auto simp: set_section_path_def split: option.splits sum.splits dest: store_text_errors)
  next
    case link
    then show ?thesis
      by (auto simp: correct_link_path_def split: option.splits sum.splits prod.splits bool.splits
          dest!: store_text_errors link_source_errors)
  qed
qed

lemma for_paths_errors:
  "for_paths (repair_handler env dry p) paths s = (r, s') \<Longrightarrow> errors_of s' = errors_of s"
proof (induction paths arbitrary: s)
  case (Cons path paths)
  obtain e s1 where h: "repair_handler env dry p path s = (e, s1)" by fastforce
  then show ?case using Cons repair_handler_errors [OF h] by (cases e) auto
qed simp

lemma apply_proposal_errors: "errors_of (apply_proposal env dry fm v s p) = [] \<Longrightarrow> errors_of s = []"
  by (auto simp: apply_proposal_def Let_def split: prod.splits if_splits option.splits dest: for_paths_errors)

lemma simulates_proposal:
  assumes s: "simulates sd sr" and e: "errors_of (apply_proposal env False fm v sr p) = []"
  shows "simulates (apply_proposal env True fm v sd p) (apply_proposal env False fm v sr p)"
proof -
  let ?p = "p\<lparr> pp_paths := accepted_proposal_paths p (fst v) \<rparr>"
  obtain r sr' where r: "for_paths (repair_handler env False ?p) (pp_paths ?p) sr = (r, sr')" by fastforce
  show ?thesis
  proof (cases r)
    case None
    then obtain sd' where d: "for_paths (repair_handler env True ?p) (pp_paths ?p) sd = (None, sd')" "simulates sd' sr'"
      using simulates_for_paths [OF s] r by blast
    then show ?thesis using r None s simulates_notes [OF s]
      by (cases v) (simp add: apply_proposal_def Let_def)
  next
    case (Some m)
    then show ?thesis using r e s simulates_notes [OF s]
      by (cases v) (auto simp: apply_proposal_def Let_def split: if_splits)
  qed
qed

lemma foldl_errors: "errors_of (foldl (apply_proposal env dry fm v) s ps) = [] \<Longrightarrow> errors_of s = []"
proof (induction ps arbitrary: s)
  case (Cons p ps)
  show ?case by (rule apply_proposal_errors, rule Cons.IH) (use Cons.prems in simp)
qed simp

lemma simulates_fold:
  "\<lbrakk>simulates sd sr; errors_of (foldl (apply_proposal env False fm v) sr ps) = []\<rbrakk> \<Longrightarrow>
     simulates (foldl (apply_proposal env True fm v) sd ps) (foldl (apply_proposal env False fm v) sr ps)"
proof (induction ps arbitrary: sd sr)
  case (Cons p ps)
  have e: "errors_of (foldl (apply_proposal env False fm v) (apply_proposal env False fm v sr p) ps) = []"
    using Cons.prems(2) by simp
  show ?case using Cons.IH [OF simulates_proposal [OF Cons.prems(1) foldl_errors [OF e]] e] by simp
qed simp

section \<open>The preview of a run\<close>

text \<open>Loading is the same in both runs, and gives a state that simulates itself.\<close>

lemma load_target_errors: "load_target env (d, s) e = (d', s') \<Longrightarrow> errors_of s' = [] \<Longrightarrow> errors_of s = []"
  by (auto simp: load_target_def Let_def split: prod.splits bool.splits sum.splits option.splits if_splits)

lemma written_unchanged:
  assumes "tracked env fs0 s" "wd_fs (rx_world s) = fs0"
    and "\<And>p t. map_of (rx_targets s) p = Some t \<Longrightarrow> tg_content t = None"
  shows "on_disk s"
  using assms by (auto simp: on_disk_def tracked_def target_ok_def current_content_def)

lemma load_target_fresh:
  assumes "load_target env (d, s) e = (d', s')" "\<And>p t. map_of (rx_targets s) p = Some t \<Longrightarrow> tg_content t = None"
  shows "map_of (rx_targets s') p = Some t \<Longrightarrow> tg_content t = None"
  using assms
  by (auto simp: load_target_def Let_def split: prod.splits bool.splits sum.splits option.splits if_splits)

lemma load_fold_fresh:
  "\<lbrakk>foldl (load_target env) (d, s) es = (d', s'); \<And>p t. map_of (rx_targets s) p = Some t \<Longrightarrow> tg_content t = None;
    map_of (rx_targets s') p = Some t\<rbrakk> \<Longrightarrow> tg_content t = None"
proof (induction es arbitrary: d s)
  case (Cons e es)
  obtain d1 s1 where l: "load_target env (d, s) e = (d1, s1)" by fastforce
  show ?case
    by (rule Cons.IH [of d1 s1]) (use Cons.prems l load_target_fresh [OF l] in auto)
qed simp

lemma load_targets_fresh:
  "\<lbrakk>load_targets env ps v \<lparr> rx_targets = [], rx_result = r, rx_world = w \<rparr> = (v', s);
    map_of (rx_targets s) p = Some t\<rbrakk> \<Longrightarrow> tg_content t = None"
  by (auto simp: load_targets_def split: prod.splits dest: load_fold_fresh)

lemma post_validate_path_report:
  "\<lbrakk>rr_errors (rx_result (post_validate_path env s p)) = []; rr_rolled_back (rx_result (post_validate_path env s p)) = []\<rbrakk> \<Longrightarrow>
     rx_result (post_validate_path env s p) = rx_result s"
  by (auto simp: post_validate_path_def note_error_def retract_changes_def
      split: option.splits if_splits prod.splits list.splits)

lemma post_validate_path_grows:
  "rr_errors (rx_result (post_validate_path env s p)) = [] \<Longrightarrow> rr_errors (rx_result s) = []"
  "rr_rolled_back (rx_result (post_validate_path env s p)) = [] \<Longrightarrow> rr_rolled_back (rx_result s) = []"
  by (auto simp: post_validate_path_def note_error_def retract_changes_def
      split: option.splits if_splits prod.splits list.splits)

lemma post_validate_report:
  "\<lbrakk>rr_errors (rx_result (foldl (post_validate_path env) s ps)) = [];
    rr_rolled_back (rx_result (foldl (post_validate_path env) s ps)) = []\<rbrakk> \<Longrightarrow>
     rx_result (foldl (post_validate_path env) s ps) = rx_result s"
proof (induction ps arbitrary: s)
  case (Cons p ps)
  let ?s = "post_validate_path env s p"
  have e: "rx_result (foldl (post_validate_path env) ?s ps) = rx_result ?s"
    by (rule Cons.IH) (use Cons.prems in simp_all)
  have "rr_errors (rx_result ?s) = []" "rr_rolled_back (rx_result ?s) = []"
    unfolding e [symmetric] using Cons.prems by simp_all
  then have "rx_result ?s = rx_result s" by (rule post_validate_path_report)
  then show ?case using e by (simp only: foldl_Cons)
qed simp

text \<open>A dry run touches no file.\<close>

lemma dry_rewrite_world: "rewrite_target True p t t' new nc msg s = (r, s') \<Longrightarrow> rx_world s' = rx_world s"
  by (auto simp: rewrite_target_def)

lemma dry_store_world: "store_text True p t c msg s = (r, s') \<Longrightarrow> rx_world s' = rx_world s"
  by (auto simp: store_text_def)

lemma dry_handler_world:
  assumes r: "repair_handler env True p path s = (r, s')" shows "rx_world s' = rx_world s"
proof (cases "map_of (rx_targets s) path")
  case None
  show ?thesis by (rule repair_handler_cases [of env p])
    (use r None in \<open>simp_all add: correct_value_path_def add_field_path_def set_field_path_def set_section_path_def
       correct_link_path_def\<close>)
next
  case (Some t)
  show ?thesis
  proof (rule repair_handler_cases [of env p])
    assume "\<And>d. repair_handler env d p = correct_value_path env d p"
    then show ?thesis using r Some
      by (auto simp: correct_value_path_def Let_def split: if_splits dest: dry_rewrite_world)
  next
    assume "\<And>d. repair_handler env d p = add_field_path env d p"
    then show ?thesis using r Some
      by (auto simp: add_field_path_def Let_def split: if_splits option.splits dest: dry_rewrite_world)
  next
    assume "\<And>d. repair_handler env d p = set_field_path env d p"
    then show ?thesis using r Some
      by (auto simp: set_field_path_def Let_def split: if_splits dest: dry_rewrite_world)
  next
    assume "\<And>d. repair_handler env d p = set_section_path d p"
    then show ?thesis using r Some by (auto simp: set_section_path_def split: sum.splits dest: dry_store_world)
  next
    assume "\<And>d. repair_handler env d p = correct_link_path d p"
    then show ?thesis using r Some
      by (auto simp: correct_link_path_def link_source_def split: prod.splits bool.splits dest: dry_store_world)
  qed
qed

lemma dry_for_paths_world:
  "for_paths (repair_handler env True q) paths s = (r, s') \<Longrightarrow> rx_world s' = rx_world s"
proof (induction paths arbitrary: s)
  case (Cons path paths)
  obtain e s1 where h: "repair_handler env True q path s = (e, s1)" by fastforce
  then show ?case using Cons dry_handler_world [OF h] by (cases e) auto
qed simp

lemma dry_proposal_world: "rx_world (apply_proposal env True fm v s p) = rx_world s"
proof -
  let ?p = "p\<lparr> pp_paths := accepted_proposal_paths p (fst v) \<rparr>"
  obtain r s' where r: "for_paths (repair_handler env True ?p) (pp_paths ?p) s = (r, s')" by fastforce
  show ?thesis using r dry_for_paths_world [OF r]
    by (cases v; cases r) (auto simp: apply_proposal_def Let_def)
qed

lemma dry_fold_world: "rx_world (foldl (apply_proposal env True fm v) s ps) = rx_world s"
  by (induction ps arbitrary: s) (simp_all add: dry_proposal_world)

text \<open>Both runs start alike.\<close>

lemma same_report_refl [simp]: "same_report r r"
  by (simp add: same_report_def)

lemma contain_step_same:
  assumes "same_report r r'"
  shows "fst (contain_step env (v, r) p) = fst (contain_step env (v, r') p)"
    "same_report (snd (contain_step env (v, r) p)) (snd (contain_step env (v, r') p))"
  using assms
  by (cases v; cases "contain_path (rv_link env) (rv_root env) p False";
      auto simp: contain_step_def same_report_def split: contain_error.split)+

lemma contain_fold_same:
  "same_report r r' \<Longrightarrow>
     fst (foldl (contain_step env) (v, r) ps) = fst (foldl (contain_step env) (v, r') ps) \<and>
     same_report (snd (foldl (contain_step env) (v, r) ps)) (snd (foldl (contain_step env) (v, r') ps))"
proof (induction ps arbitrary: v r r')
  case (Cons p ps)
  note S = contain_step_same [OF Cons.prems, of env v p]
  obtain v1 r1 where l: "contain_step env (v, r) p = (v1, r1)" by fastforce
  obtain v2 r2 where l': "contain_step env (v, r') p = (v2, r2)" by fastforce
  have "v2 = v1" "same_report r1 r2" using S l l' by auto
  then show ?case using Cons.IH l l' by simp
qed simp

definition same_state :: "repair_state \<Rightarrow> repair_state \<Rightarrow> bool" where
  "same_state s s' \<longleftrightarrow> rx_targets s = rx_targets s' \<and> rx_world s = rx_world s' \<and> same_report (rx_result s) (rx_result s')"

lemma same_state_steps:
  assumes "same_state s s'"
  shows "same_state (note_error m s) (note_error m s')" "same_state (put_target p t s) (put_target p t s')"
    "same_state (s\<lparr> rx_world := w \<rparr>) (s'\<lparr> rx_world := w \<rparr>)"
  using assms by (simp_all add: same_state_def same_report_def note_error_def put_target_def)

lemma load_target_same:
  assumes "same_state s s'"
  shows "fst (load_target env (d, s) e) = fst (load_target env (d, s') e) \<and>
    same_state (snd (load_target env (d, s) e)) (snd (load_target env (d, s') e))"
proof -
  obtain p a where e: "e = (p, a)" by (cases e)
  have w: "rx_world s' = rx_world s" using assms by (simp add: same_state_def)
  obtain b w1 where st: "stat_is_dir a (rx_world s) = (b, w1)" by fastforce
  obtain rd w2 where rd: "read_file a w1 = (rd, w2)" by fastforce
  show ?thesis
    unfolding load_target_def e prod.case w st
    by (cases b; cases rd; cases "document_extractor a"; cases "schema_of_document env (wd_fs w2) a")
      (simp_all add: rd Let_def same_state_steps assms)
qed

lemma load_fold_same:
  "same_state s s' \<Longrightarrow>
     fst (foldl (load_target env) (d, s) es) = fst (foldl (load_target env) (d, s') es) \<and>
     same_state (snd (foldl (load_target env) (d, s) es)) (snd (foldl (load_target env) (d, s') es))"
proof (induction es arbitrary: d s s')
  case (Cons e es)
  obtain d1 s1 where l: "load_target env (d, s) e = (d1, s1)" by fastforce
  obtain d2 s2 where l': "load_target env (d, s') e = (d2, s2)" by fastforce
  have "d2 = d1" "same_state s1 s2" using load_target_same [OF Cons.prems, of env d e] l l' by auto
  then show ?case using Cons.IH l l' by simp
qed simp

lemma load_targets_same:
  assumes "same_report r r'"
    and "load_targets env ps v \<lparr> rx_targets = [], rx_result = r, rx_world = w \<rparr> = (v1, s1)"
    and "load_targets env ps v \<lparr> rx_targets = [], rx_result = r', rx_world = w \<rparr> = (v2, s2)"
  shows "v1 = v2 \<and> same_state s1 s2"
  using assms load_fold_same [of "\<lparr> rx_targets = [], rx_result = r, rx_world = w \<rparr>"
      "\<lparr> rx_targets = [], rx_result = r', rx_world = w \<rparr>" env "[]" "applicable_proposal_paths ps v"]
  by (auto simp: load_targets_def same_state_def split: prod.splits)

lemma load_target_keys:
  "load_target env (d, s) (q, a) = (d', s') \<Longrightarrow> map_of (rx_targets s') p = Some t \<Longrightarrow>
     p = q \<or> (\<exists>t'. map_of (rx_targets s) p = Some t')"
  by (auto simp: load_target_def Let_def split: prod.splits bool.splits sum.splits option.splits if_splits)

lemma load_fold_keys:
  "\<lbrakk>foldl (load_target env) (d, s) es = (d', s'); map_of (rx_targets s') p = Some t\<rbrakk> \<Longrightarrow>
     p \<in> fst ` set es \<or> (\<exists>t'. map_of (rx_targets s) p = Some t')"
proof (induction es arbitrary: d s)
  case (Cons e es)
  obtain q a where e: "e = (q, a)" by (cases e)
  obtain d1 s1 where l: "load_target env (d, s) (q, a) = (d1, s1)" by fastforce
  have "p \<in> fst ` set es \<or> (\<exists>t'. map_of (rx_targets s1) p = Some t')"
    by (rule Cons.IH [of d1 s1]) (use Cons.prems l e in auto)
  then show ?case using load_target_keys [OF l] e by auto
qed simp

lemma load_targets_keys:
  assumes "load_targets env ps v \<lparr> rx_targets = [], rx_result = r, rx_world = w \<rparr> = (v', s)"
    "map_of (rx_targets s) p = Some t"
  shows "p \<in> set (concat (map pp_paths ps))"
proof -
  obtain d s1 where f: "foldl (load_target env) ([], \<lparr> rx_targets = [], rx_result = r, rx_world = w \<rparr>)
      (applicable_proposal_paths ps v) = (d, s1)" by fastforce
  then have "map_of (rx_targets s1) p = Some t" using assms by (simp add: load_targets_def)
  then have "p \<in> fst ` set (applicable_proposal_paths ps v)" using load_fold_keys [OF f] by simp
  then show ?thesis by (auto simp: applicable_proposal_paths_def set_map_filter_iff split: prod.splits)
qed

text \<open>C10: A dry run of a repair says exactly what a run in the same world that carries everything through then does:
  the same changes, skips and rejections, and no error; and it touches no file. The paths of the report must
  spell each document in one way only.\<close>

theorem preview_matches_repair:
  assumes one: "\<And>p q a. \<lbrakk>contained env p a; contained env q a; p \<in> set (concat (map pp_paths ps));
      q \<in> set (concat (map pp_paths ps))\<rbrakk> \<Longrightarrow> p = q"
    and real: "apply_repair env ps False fm w = (r, w')" and complete: "rr_complete r"
    and dry: "apply_repair env ps True fm w = (r0, w0)"
  shows "rr_changed r0 = rr_changed r \<and> rr_skipped r0 = rr_skipped r \<and> rr_rejected r0 = rr_rejected r \<and>
    rr_errors r0 = [] \<and> wd_fs w0 = wd_fs w"
proof (cases "ps = []")
  case True
  then show ?thesis using real dry by (auto simp: apply_repair_def seal_def new_result_def)
next
  case False
  obtain v a where c: "contain_proposal_paths env ps (new_result env False) = (v, a)" by fastforce
  obtain v1 a1 where c1: "contain_proposal_paths env ps (new_result env True) = (v1, a1)" by fastforce
  have v1: "v1 = v" "same_report a1 a"
  proof -
    have "same_report (new_result env True) (new_result env False)" by (simp add: same_report_def new_result_def)
    from contain_fold_same [OF this, of env "([], [])" "concat (map pp_paths ps)"]
    show "v1 = v" "same_report a1 a" using c c1 by (simp_all add: contain_proposal_paths_def)
  qed
  let ?s0 = "\<lambda>a. \<lparr> rx_targets = [], rx_result = a, rx_world = w \<rparr>"
  obtain vr s where l: "load_targets env ps v (?s0 a) = (vr, s)" by fastforce
  obtain vd sd where ld: "load_targets env ps v (?s0 a1) = (vd, sd)" by fastforce
  have same: "vd = vr" "same_state sd s" using load_targets_same [OF v1(2) ld l] by auto
  define s1 where "s1 = s\<lparr> rx_result := (rx_result s)\<lparr> rr_resolved := None \<rparr> \<rparr>"
  define d1 where "d1 = sd\<lparr> rx_result := (rx_result sd)\<lparr> rr_resolved := Some vd \<rparr> \<rparr>"
  define s2 where "s2 = foldl (apply_proposal env False fm vr) s1 ps"
  define d2 where "d2 = foldl (apply_proposal env True fm vr) d1 ps"
  have r: "r = seal (rx_result (post_validate env s2))"
    using real False c l by (simp add: apply_repair_def s1_def s2_def Let_def)
  have r0: "r0 = seal (rx_result d2)" "w0 = rx_world d2"
    using dry False c1 ld v1 same by (simp_all add: apply_repair_def d1_def d2_def Let_def)
  have rep: "rx_result (post_validate env s2) = rx_result s2" "rr_errors (rx_result s2) = []"
    using complete post_validate_report [of env s2 "sort (map fst (rx_targets s2))"]
    by (simp_all add: r seal_def post_validate_def)
  have ok: "verdicts_ok env v" by (rule contain_proposal_paths_ok [OF c])
  have tr: "tracked env (wd_fs w) s" and fs: "wd_fs (rx_world s) = wd_fs w" and fsd: "wd_fs (rx_world sd) = wd_fs w"
    using load_targets_tracked [OF ok l] load_targets_fs [OF ok l] load_targets_fs [OF ok ld] by auto
  have "on_disk s" by (rule written_unchanged [OF tr fs]) (rule load_targets_fresh [OF l])
  moreover have "one_path s" unfolding one_path_def
    using tr one load_targets_keys [OF l] by (metis tracked_def target_ok_def)
  ultimately have "simulates d1 s1"
    using same(2) by (auto simp: simulates_def d1_def s1_def same_state_def same_report_def on_disk_def one_path_def
        option.rel_refl twin_intros(1) intro: option.rel_refl)
  then have sim: "simulates d2 s2"
    unfolding d2_def s2_def by (rule simulates_fold) (use rep(2) in \<open>simp add: errors_of_def s2_def\<close>)
  have "wd_fs w0 = wd_fs w" using fsd dry_fold_world [of env fm vr d1 ps] by (simp add: r0 d2_def d1_def)
  then show ?thesis using sim rep by (simp add: r r0 seal_def simulates_def same_report_def)
qed

section \<open>Example runs\<close>

text \<open>A directory with one document and its schema, an enumeration \<open>state\<close> with \<open>Open\<close> and \<open>Done\<close>.\<close>

definition plain_yaml :: "string \<Rightarrow> string + ydoc" where
  "plain_yaml s = Inr \<lparr> yd_root = YEmpty, yd_decode = Inr (Some (fallback_parse_frontmatter s)) \<rparr>"

definition repair_kind :: "string \<Rightarrow> fs_err + file_kind" where
  "repair_kind p = (if p = ''/r'' then Inr KDir else if p = ''/r/a.md'' \<or> p = ''/r/.stem'' then Inr KRegular
                    else Inl NotExist)"

definition state_text :: "string \<Rightarrow> string" where
  "state_text v = ''---'' @ [LF] @ ''state: '' @ v @ [LF] @ ''---'' @ [LF]"

definition repair_fs :: "string \<Rightarrow> filesys" where
  "repair_fs v = \<lparr> fs_cwd = ''/r'', fs_stat = repair_kind, fs_lstat = repair_kind,
     fs_read = (\<lambda>p. if p = ''/r/a.md'' then Inr (state_text v)
                    else if p = ''/r/.stem'' then Inr [] else Inl NotExist),
     fs_list = (\<lambda>_. Inl NotExist) \<rparr>"

definition sample_repair_env :: "string \<Rightarrow> repair_env" where
  "sample_repair_env v = \<lparr> rv_link = \<lparr> le_fs = repair_fs v,
       le_eval = (\<lambda>p. case repair_kind p of Inl e \<Rightarrow> Inl e | Inr _ \<Rightarrow> Inr p), le_same = (=),
       le_fuzzy = first_candidate,
       le_stem_yaml = (\<lambda>_. Inr (sample_stem\<lparr> st_version := 2, st_root := True \<rparr>)),
       le_doc_yaml = plain_yaml, le_headings = (\<lambda>_. []) \<rparr>,
     rv_marshal = (\<lambda>v. Some (fmt_v v)), rv_render = (\<lambda>_ _. None), rv_re = any_regexp, rv_root = ''/r'' \<rparr>"

definition sample_world :: "string \<Rightarrow> repair_world" where
  "sample_world v = \<lparr> wd_fs = repair_fs v, wd_faults = [], wd_staged = [] \<rparr>"

definition set_state :: "string \<Rightarrow> proposal" where
  "set_state v = (mk_proposal SetField ''state'' [] [''a.md''])\<lparr> pp_value := v \<rparr>"

definition fix_state :: proposal where
  "fix_state = (mk_proposal CorrectValue ''state'' [] [''a.md''])\<lparr> pp_from := ''Opne'', pp_to := ''Open'' \<rparr>"

definition run_facts ::
  "repair_result \<times> repair_world \<Rightarrow> bool \<times> string list \<times> string list \<times> (fs_err + string)" where
  "run_facts rw = (rr_complete (fst rw), map fst (rr_changed (fst rw)), map fst (rr_rolled_back (fst rw)),
     fs_read (wd_fs (snd rw)) ''/r/a.md'')"

lemma accepted_run:
  "run_facts (apply_repair (sample_repair_env ''Opne'') [fix_state] False False (sample_world ''Opne'')) =
     (True, [''a.md''], [], Inr (state_text ''Open''))"
  by code_simp

lemma refused_run:
  "run_facts (apply_repair (sample_repair_env ''Open'') [set_state ''Bad''] False False (sample_world ''Open'')) =
     (False, [], [''a.md''], Inr (state_text ''Open''))"
  by code_simp

theorem preview_matches_repair_witness:
  "rr_changed (fst (apply_repair (sample_repair_env ''Opne'') [fix_state] True False (sample_world ''Opne''))) =
   rr_changed (fst (apply_repair (sample_repair_env ''Opne'') [fix_state] False False (sample_world ''Opne'')))"
proof -
  let ?run = "\<lambda>dry. apply_repair (sample_repair_env ''Opne'') [fix_state] dry False (sample_world ''Opne'')"
  have complete: "rr_complete (fst (?run False))"
    using accepted_run by (simp add: run_facts_def)
  have one: "p = q" if "p \<in> set (concat (map pp_paths [fix_state]))" "q \<in> set (concat (map pp_paths [fix_state]))" for p q
    using that by (simp add: fix_state_def)
  show ?thesis
    using preview_matches_repair [OF one surjective_pairing complete surjective_pairing] by blast
qed

text \<open>
  A report that spells one document in two ways: the second change is made from the text read before the first,
  which is lost, and both are reported.
\<close>

definition add_key :: "string \<Rightarrow> string \<Rightarrow> proposal" where
  "add_key path k = (mk_proposal AddField k [] [path])\<lparr> pp_value := ''1'', pp_value_source := ''schema_default'' \<rparr>"

lemma second_spelling_loses_a_change:
  "run_facts (apply_repair (sample_repair_env ''Open'') [add_key ''a.md'' ''x'', add_key ''./a.md'' ''y''] False False
     (sample_world ''Open'')) =
   (True, [''a.md'', ''./a.md''], [],
    Inr (''---'' @ [LF] @ ''state: Open'' @ [LF] @ ''y: 1'' @ [LF] @ ''---'' @ [LF]))"
  by code_simp

end
