(* ===== verification/Fix_Apply.thy ===== *)
theory Fix_Apply
  imports Repair
begin

text \<open>
  \<open>fix --all\<close>, \<open>ApplyProposals\<close> of \<open>internal/fix/fix.go\<close>: the proposals of a report applied one after the other
  to the records that were scanned. The first error stops the run and leaves what has been written. The records
  are shared: a change of a record stays when its file cannot be written.
\<close>

section \<open>State\<close>

text \<open>The frontmatter of each record by its path, and the world.\<close>

record fix_run =
  fx_records :: "(string \<times> vmap) list"
  fx_world :: repair_world

definition record_frontmatters :: "doc list \<Rightarrow> (string \<times> vmap) list" where
  "record_frontmatters records = foldl (\<lambda>m r. AList.update (rc_path r) (rc_frontmatter r) m) [] records"

definition fix_read :: "string \<Rightarrow> fix_run \<Rightarrow> (string + string) \<times> fix_run" where
  "fix_read apath s = (case read_file apath (fx_world s) of (r, w) \<Rightarrow> (r, s\<lparr> fx_world := w \<rparr>))"

definition fix_write :: "string \<Rightarrow> string \<Rightarrow> fix_run \<Rightarrow> string option \<times> fix_run" where
  "fix_write apath content s =
     (case write_file_atomic apath content (fx_world s) of (r, w) \<Rightarrow> (r, s\<lparr> fx_world := w \<rparr>))"

text \<open>A file read, changed by \<open>new\<close> into another text, and written.\<close>

definition rewrite_file :: "string \<Rightarrow> (string \<Rightarrow> string) \<Rightarrow> string \<Rightarrow> fix_run \<Rightarrow> string option \<times> fix_run" where
  "rewrite_file apath new no_change s =
     (case fix_read apath s of
        (Inl m, s') \<Rightarrow> (Some m, s')
      | (Inr c, s') \<Rightarrow> if new c = c then (Some no_change, s') else fix_write apath (new c) s')"

section \<open>The handlers\<close>

definition put_record_field :: "string \<Rightarrow> string \<Rightarrow> string \<Rightarrow> vmap \<Rightarrow> fix_run \<Rightarrow> fix_run" where
  "put_record_field path field v fm s = s\<lparr> fx_records := AList.update path (AList.update field (VStr v) fm) (fx_records s) \<rparr>"

definition rewrite_record_file :: "repair_env \<Rightarrow> string \<Rightarrow> vmap \<Rightarrow> fix_run \<Rightarrow> string option \<times> fix_run" where
  "rewrite_record_file env path fm s =
     rewrite_file (path_join (rv_root env) path) (\<lambda>c. rewrite_text env c fm)
       (''frontmatter rewrite produced no changes for '' @ path) s"

definition apply_migrate_value :: "repair_env \<Rightarrow> proposal \<Rightarrow> string \<Rightarrow> fix_run \<Rightarrow> string option \<times> fix_run" where
  "apply_migrate_value env p path s =
     (case map_of (fx_records s) path of
        None \<Rightarrow> (None, s)
      | Some fm \<Rightarrow>
          let fm' = AList.update (pp_field p) (VStr (pp_to p)) fm in
          rewrite_file (path_join (rv_root env) path)
            (\<lambda>c. let c1 = rewrite_text env c fm' in
                 if pp_wiki_links p = [] then c1 else insert_wiki_links c1 (pp_wiki_links p))
            (''rewrite produced no changes for '' @ path)
            (put_record_field path (pp_field p) (pp_to p) fm s))"

definition apply_field_value :: "repair_env \<Rightarrow> string \<Rightarrow> string \<Rightarrow> string \<Rightarrow> fix_run \<Rightarrow> string option \<times> fix_run" where
  "apply_field_value env field v path s =
     (case map_of (fx_records s) path of
        None \<Rightarrow> (None, s)
      | Some fm \<Rightarrow>
          rewrite_record_file env path (AList.update field (VStr v) fm) (put_record_field path field v fm s))"

definition apply_correct_value :: "repair_env \<Rightarrow> proposal \<Rightarrow> string \<Rightarrow> fix_run \<Rightarrow> string option \<times> fix_run" where
  "apply_correct_value env p = apply_field_value env (pp_field p) (pp_to p)"

definition apply_set_field :: "repair_env \<Rightarrow> proposal \<Rightarrow> string \<Rightarrow> fix_run \<Rightarrow> string option \<times> fix_run" where
  "apply_set_field env p = apply_field_value env (pp_field p) (if pp_value p = [] then pp_to p else pp_value p)"

definition apply_set_section :: "repair_env \<Rightarrow> proposal \<Rightarrow> string \<Rightarrow> fix_run \<Rightarrow> string option \<times> fix_run" where
  "apply_set_section env p path s =
     (case contain_path (rv_link env) (rv_root env) path True of
        Inl e \<Rightarrow> (Some (contain_error_text e), s)
      | Inr apath \<Rightarrow>
          (case fix_read apath s of
             (Inl m, s') \<Rightarrow> (Some m, s')
           | (Inr c, s') \<Rightarrow>
               (case transform_set_section c p path of
                  Inl e \<Rightarrow> (Some e, s')
                | Inr c' \<Rightarrow> fix_write apath c' s')))"

text \<open>All paths are checked before the first is read; those that change and those that do not are told apart.\<close>

fun contain_all :: "repair_env \<Rightarrow> string list \<Rightarrow> contain_error + (string \<times> string) list" where
  "contain_all env [] = Inr []"
| "contain_all env (path # paths) =
     (case contain_path (rv_link env) (rv_root env) path True of
        Inl e \<Rightarrow> Inl e
      | Inr apath \<Rightarrow> map_sum id ((#) (path, apath)) (contain_all env paths))"

fun link_targets ::
  "proposal \<Rightarrow> (string \<times> string) list \<Rightarrow> string list \<times> string list \<Rightarrow> fix_run \<Rightarrow>
     string option \<times> (string list \<times> string list) \<times> fix_run" where
  "link_targets p [] acc s = (None, acc, s)"
| "link_targets p ((path, apath) # rest) acc s =
     (case fix_read apath s of
        (Inl m, s') \<Rightarrow> (Some m, acc, s')
      | (Inr c, s') \<Rightarrow>
          (case replace_once c (pp_from p) (pp_to p) of
             (_, False) \<Rightarrow> link_targets p rest (fst acc, snd acc @ [path]) s'
           | (c', True) \<Rightarrow>
               (case fix_write apath c' s' of
                  (Some e, s'') \<Rightarrow> (Some e, acc, s'')
                | (None, s'') \<Rightarrow> link_targets p rest (fst acc @ [path], snd acc) s'')))"

definition apply_correct_link ::
  "repair_env \<Rightarrow> proposal \<Rightarrow> fix_run \<Rightarrow> string option \<times> (string list \<times> string list) \<times> fix_run" where
  "apply_correct_link env p s =
     (case contain_all env (pp_paths p) of
        Inl e \<Rightarrow> (Some (contain_error_text e), ([], []), s)
      | Inr targets \<Rightarrow> link_targets p targets ([], []) s)"

section \<open>\<open>ApplyProposals\<close>\<close>

type_synonym applied = "proposal list \<times> proposal list"

definition path_handler :: "repair_env \<Rightarrow> proposal \<Rightarrow> (string \<Rightarrow> fix_run \<Rightarrow> string option \<times> fix_run) option" where
  "path_handler env p =
     (if pp_type p = MigrateValue then Some (apply_migrate_value env p)
      else if pp_type p \<in> {CorrectValue, CorrectOutlier, PropagateAggregate} then Some (apply_correct_value env p)
      else if pp_type p \<in> {ExtractBody, InferFromChildren, AddField, InferFromSiblings, SetField}
        then Some (apply_set_field env p)
      else if pp_type p = SetSection then Some (apply_set_section env p) else None)"

definition apply_one ::
  "repair_env \<Rightarrow> bool \<Rightarrow> proposal \<Rightarrow> applied \<Rightarrow> fix_run \<Rightarrow> string option \<times> applied \<times> fix_run" where
  "apply_one env fill_missing p acc s =
     (case acc of (applied, skipped) \<Rightarrow>
        if pp_type p = AddField \<and> is_engine_chosen (pp_value_source p) \<and> \<not> fill_missing
          then (None, (applied, skipped @ [p]), s)
        else case path_handler env p of
          Some h \<Rightarrow>
            (case for_paths h (pp_paths p) s of
               (Some e, s') \<Rightarrow>
                 (Some (type_text (pp_type p) @ '' '' @
                    (if pp_type p = SetSection then pp_heading p else hd (pp_paths p)) @ '': '' @ e), acc, s')
             | (None, s') \<Rightarrow> (None, (applied @ [p], skipped), s'))
        | None \<Rightarrow>
            if pp_type p = CorrectLink then
              (case apply_correct_link env p s of
                 (Some e, _, s') \<Rightarrow>
                   (Some (''correct_link ['' @ join_with '' '' (pp_paths p) @ '']: '' @ e), acc, s')
               | (None, (changed, unchanged), s') \<Rightarrow>
                   (None, (if changed = [] then applied else applied @ [p\<lparr> pp_paths := changed \<rparr>],
                           if unchanged = [] then skipped else skipped @ [p\<lparr> pp_paths := unchanged \<rparr>]), s'))
            else (None, acc, s))"

fun apply_proposals ::
  "repair_env \<Rightarrow> bool \<Rightarrow> proposal list \<Rightarrow> applied \<Rightarrow> fix_run \<Rightarrow> (string + applied) \<times> fix_run" where
  "apply_proposals env fill_missing [] acc s = (Inr acc, s)"
| "apply_proposals env fill_missing (p # ps) acc s =
     (case apply_one env fill_missing p acc s of
        (Some e, _, s') \<Rightarrow> (Inl e, s')
      | (None, acc', s') \<Rightarrow> apply_proposals env fill_missing ps acc' s')"

section \<open>What a run touches\<close>

text \<open>The files that the paths of the report name: of a scanned record, or inside the root.\<close>

definition names_file :: "repair_env \<Rightarrow> string set \<Rightarrow> string \<Rightarrow> string \<Rightarrow> bool" where
  "names_file env scanned path a \<longleftrightarrow>
     path \<in> scanned \<and> a = path_join (rv_root env) path \<or>
     contain_path (rv_link env) (rv_root env) path True = Inr a"

definition touches :: "fix_run \<Rightarrow> fix_run \<Rightarrow> string set \<Rightarrow> bool" where
  "touches s s' files \<longleftrightarrow>
     (\<forall>a. a \<notin> files \<longrightarrow> fs_read (wd_fs (fx_world s')) a = fs_read (wd_fs (fx_world s)) a) \<and>
     dom (map_of (fx_records s')) = dom (map_of (fx_records s))"

lemma touches_refl [simp]: "touches s s files"
  by (simp add: touches_def)

lemma touches_trans: "\<lbrakk>touches s s1 A; touches s1 s2 A\<rbrakk> \<Longrightarrow> touches s s2 A"
  by (simp add: touches_def)

lemma touches_mono: "\<lbrakk>touches s s' A; A \<subseteq> B\<rbrakk> \<Longrightarrow> touches s s' B"
  by (auto simp: touches_def)

lemma fix_read_touches: "fix_read a s = (r, s') \<Longrightarrow> touches s s' A"
  by (auto simp: fix_read_def touches_def split: prod.splits dest: read_file_fs)

lemma fix_write_touches: "\<lbrakk>fix_write a c s = (r, s'); a \<in> A\<rbrakk> \<Longrightarrow> touches s s' A"
  by (auto simp: fix_write_def touches_def split: prod.splits dest!: write_file_atomic_fs)

lemma rewrite_file_touches:
  assumes "rewrite_file a new nc s = (r, s')" "a \<in> A" shows "touches s s' A"
proof -
  obtain rd s1 where rd: "fix_read a s = (rd, s1)" by fastforce
  have t: "touches s s1 A" by (rule fix_read_touches [OF rd])
  show ?thesis using assms rd t
    by (cases rd) (auto simp: rewrite_file_def split: if_splits intro: touches_trans fix_write_touches)
qed

lemma put_record_touches: "map_of (fx_records s) path = Some fm \<Longrightarrow> touches s (put_record_field path f v fm s) A"
  by (auto simp: touches_def put_record_field_def update_conv')

lemma path_handler_touches:
  assumes h: "path_handler env p = Some h" and r: "h path s = (r, s')"
  shows "touches s s' {a. names_file env (dom (map_of (fx_records s))) path a}"
proof -
  let ?A = "{a. names_file env (dom (map_of (fx_records s))) path a}"
  have field: "touches s s' ?A" if "apply_field_value env f v path s = (r, s')" for f v
  proof (cases "map_of (fx_records s) path")
    case (Some fm)
    then have "path_join (rv_root env) path \<in> ?A" by (auto simp: names_file_def)
    moreover have "rewrite_file (path_join (rv_root env) path) (\<lambda>c. rewrite_text env c (AList.update f (VStr v) fm))
        (''frontmatter rewrite produced no changes for '' @ path) (put_record_field path f v fm s) = (r, s')"
      using that Some by (simp add: apply_field_value_def rewrite_record_file_def)
    ultimately have "touches (put_record_field path f v fm s) s' ?A" using rewrite_file_touches by blast
    then show ?thesis by (rule touches_trans [OF put_record_touches [OF Some]])
  qed (use that in \<open>simp add: apply_field_value_def\<close>)
  have migrate: "touches s s' ?A" if mig: "apply_migrate_value env p path s = (r, s')"
  proof (cases "map_of (fx_records s) path")
    case (Some fm)
    then have "path_join (rv_root env) path \<in> ?A" by (auto simp: names_file_def)
    moreover obtain new nc where "rewrite_file (path_join (rv_root env) path) new nc
        (put_record_field path (pp_field p) (pp_to p) fm s) = (r, s')"
      using mig Some unfolding apply_migrate_value_def Let_def by auto
    ultimately have "touches (put_record_field path (pp_field p) (pp_to p) fm s) s' ?A"
      using rewrite_file_touches by blast
    then show ?thesis by (rule touches_trans [OF put_record_touches [OF Some]])
  qed (use mig in \<open>simp add: apply_migrate_value_def\<close>)
  have section': "touches s s' ?A" if "apply_set_section env p path s = (r, s')"
  proof (cases "contain_path (rv_link env) (rv_root env) path True")
    case (Inr apath)
    obtain rd s1 where rd: "fix_read apath s = (rd, s1)" by fastforce
    have "touches s s1 ?A" by (rule fix_read_touches [OF rd])
    moreover have "apath \<in> ?A" using Inr by (simp add: names_file_def)
    ultimately show ?thesis using that Inr rd
      by (cases rd) (auto simp: apply_set_section_def split: sum.splits intro: touches_trans fix_write_touches)
  qed (use that in \<open>simp add: apply_set_section_def\<close>)
  show ?thesis using h r field migrate section'
    by (auto simp: path_handler_def apply_correct_value_def apply_set_field_def split: if_splits)
qed

lemma for_paths_touches:
  assumes h: "path_handler env p = Some h" and r: "for_paths h paths s = (r, s')"
  shows "touches s s' {a. \<exists>path \<in> set paths. names_file env (dom (map_of (fx_records s))) path a}"
  using r
proof (induction paths arbitrary: s)
  case (Cons path paths)
  let ?N = "names_file env (dom (map_of (fx_records s)))"
  obtain e s1 where h1: "h path s = (e, s1)" by fastforce
  have t: "touches s s1 {a. ?N path a}" by (rule path_handler_touches [OF h h1])
  have t': "touches s s1 {a. \<exists>q \<in> set (path # paths). ?N q a}" by (rule touches_mono [OF t]) auto
  show ?case
  proof (cases e)
    case (Some m)
    then show ?thesis using Cons.prems h1 t' by simp
  next
    case None
    have "touches s1 s' {a. \<exists>q \<in> set paths. names_file env (dom (map_of (fx_records s1))) q a}"
      by (rule Cons.IH) (use Cons.prems h1 None in simp)
    moreover have "dom (map_of (fx_records s1)) = dom (map_of (fx_records s))" using t by (simp add: touches_def)
    ultimately have "touches s1 s' {a. \<exists>q \<in> set (path # paths). ?N q a}"
      by (elim touches_mono) auto
    then show ?thesis by (rule touches_trans [OF t'])
  qed
qed simp

lemma contain_all_named:
  "contain_all env paths = Inr targets \<Longrightarrow>
     \<forall>(path, a) \<in> set targets. path \<in> set paths \<and> contain_path (rv_link env) (rv_root env) path True = Inr a"
proof (induction paths arbitrary: targets)
  case (Cons path paths)
  then show ?case
    by (cases "contain_path (rv_link env) (rv_root env) path True"; cases "contain_all env paths") fastforce+
qed simp

lemma link_targets_touches:
  "link_targets p targets acc s = (r, acc', s') \<Longrightarrow> touches s s' (snd ` set targets)"
proof (induction targets arbitrary: acc s)
  case (Cons t targets)
  obtain path a where t: "t = (path, a)" by (cases t)
  obtain rd s1 where rd: "fix_read a s = (rd, s1)" by fastforce
  let ?A = "snd ` set (t # targets)"
  have t1: "touches s s1 ?A" by (rule fix_read_touches [OF rd])
  have rest: "touches s2 s' ?A" if "link_targets p targets acc2 s2 = (r, acc', s')" for acc2 s2
    by (rule touches_mono [OF Cons.IH [OF that]]) auto
  show ?case
  proof (cases rd)
    case (Inl m)
    then show ?thesis using Cons.prems t rd t1 by auto
  next
    case (Inr c)
    obtain c' b where rep: "replace_once c (pp_from p) (pp_to p) = (c', b)" by fastforce
    show ?thesis
    proof (cases b)
      case False
      then show ?thesis using Cons.prems t rd Inr rep rest touches_trans [OF t1] by auto
    next
      case True
      obtain e s2 where w: "fix_write a c' s1 = (e, s2)" by fastforce
      have t2: "touches s1 s2 ?A" by (rule fix_write_touches [OF w]) (simp add: t)
      show ?thesis using Cons.prems t rd Inr rep True w rest touches_trans [OF t1] touches_trans [OF t2] t2
        by (cases e) auto
    qed
  qed
qed simp

lemma apply_one_touches:
  assumes r: "apply_one env fm p acc s = (r, acc', s')"
  shows "touches s s' {a. \<exists>path \<in> set (pp_paths p). names_file env (dom (map_of (fx_records s))) path a}"
proof -
  let ?A = "{a. \<exists>path \<in> set (pp_paths p). names_file env (dom (map_of (fx_records s))) path a}"
  have paths: "touches s s1 ?A" if "path_handler env p = Some h" "for_paths h (pp_paths p) s = (e, s1)" for h e s1
    by (rule for_paths_touches [OF that])
  have link: "touches s s1 ?A" if l: "apply_correct_link env p s = (e, res, s1)" for e res s1
  proof (cases "contain_all env (pp_paths p)")
    case (Inr targets)
    then have "touches s s1 (snd ` set targets)"
      using l link_targets_touches by (simp add: apply_correct_link_def)
    then show ?thesis by (rule touches_mono) (use contain_all_named [OF Inr] in \<open>fastforce simp: names_file_def\<close>)
  qed (use l in \<open>simp add: apply_correct_link_def\<close>)
  obtain e1 res1 s1 where l: "apply_correct_link env p s = (e1, res1, s1)" by (metis prod_cases3)
  show ?thesis
  proof (cases "path_handler env p")
    case None
    then show ?thesis using r l link [OF l]
      by (cases acc; cases e1; cases res1) (auto simp: apply_one_def split: if_splits)
  next
    case (Some h)
    obtain e2 s2 where f: "for_paths h (pp_paths p) s = (e2, s2)" by fastforce
    show ?thesis using r Some f paths [OF Some f]
      by (cases acc; cases e2) (auto simp: apply_one_def split: if_splits)
  qed
qed

text \<open>C37: Fixing every record touches no file but those that the paths of the report name, for every schedule of
  failing calls: the file of a scanned record, or a file that lies inside the root.\<close>

theorem fixes_touch_named_files:
  "case apply_proposals env fill_missing ps acc s of (r, s') \<Rightarrow>
     touches s s' {a. \<exists>p \<in> set ps. \<exists>path \<in> set (pp_paths p). names_file env (dom (map_of (fx_records s))) path a}"
proof (induction ps arbitrary: acc s)
  case (Cons p ps)
  let ?N = "names_file env (dom (map_of (fx_records s)))"
  let ?A = "{a. \<exists>q \<in> set (p # ps). \<exists>path \<in> set (pp_paths q). ?N path a}"
  obtain e acc1 s1 where o: "apply_one env fill_missing p acc s = (e, acc1, s1)" by (metis prod_cases3)
  have t: "touches s s1 ?A" by (rule touches_mono [OF apply_one_touches [OF o]]) auto
  have d: "dom (map_of (fx_records s1)) = dom (map_of (fx_records s))" using t by (simp add: touches_def)
  obtain r2 s2 where rest: "apply_proposals env fill_missing ps acc1 s1 = (r2, s2)" by fastforce
  have "touches s1 s2 {a. \<exists>q \<in> set ps. \<exists>path \<in> set (pp_paths q). ?N path a}"
    using Cons.IH [of s1 acc1] rest d by simp
  then have "touches s1 s2 ?A" by (rule touches_mono) auto
  then show ?case using t o rest by (cases e) (auto intro: touches_trans)
qed simp

lemma no_invented_values:
  "\<lbrakk>apply_proposals env False ps acc s = (Inr (applied, skipped), s'); p \<in> set applied; p \<notin> set (fst acc)\<rbrakk> \<Longrightarrow>
     \<not> (pp_type p = AddField \<and> is_engine_chosen (pp_value_source p))"
proof (induction ps arbitrary: acc s)
  case (Cons q ps)
  obtain e acc1 s1 where o: "apply_one env False q acc s = (e, acc1, s1)" by (metis prod_cases3)
  then have e: "e = None" using Cons.prems(1) by (cases e) auto
  show ?case
  proof (cases "p \<in> set (fst acc1)")
    case False
    show ?thesis by (rule Cons.IH [OF _ Cons.prems(2) False]) (use Cons.prems(1) o e in simp)
  next
    case True
    then show ?thesis using o e Cons.prems(3)
      by (cases acc) (auto simp: apply_one_def path_handler_def split: if_splits prod.splits option.splits)
  qed
qed simp

end
