(* ===== verification/Yaml_Nodes.thy ===== *)
theory Yaml_Nodes
  imports Fix_Text
begin

text \<open>
  The edits of a YAML document as a tree of nodes, \<open>internal/fix/frontmatter.go\<close>: the block of a document is
  written again with the values of a map, and whatever the map does not change keeps its node, with its
  comments and its style. The library that reads and writes nodes is a parameter; documents with anchors and
  aliases, which share nodes, are not modelled.
\<close>

section \<open>Nodes\<close>

text \<open>The kinds of \<open>yaml.Node\<close>, \<open>NoKind\<close> for the zero node that an empty document gives.\<close>

datatype yaml_kind = NoKind | DocumentNode | SequenceNode | MappingNode | ScalarNode

record node_comments =
  nc_head :: string
  nc_line :: string
  nc_foot :: string

definition no_comments :: node_comments where
  "no_comments = \<lparr> nc_head = [], nc_line = [], nc_foot = [] \<rparr>"

text \<open>The style is the number \<open>yaml.v3\<close> gives it, 0 for a plain node.\<close>

datatype yaml_node =
  YNode (yn_kind: yaml_kind) (yn_tag: string) (yn_value: string) (yn_style: nat)
    (yn_comments: node_comments) (yn_content: "yaml_node list")

definition double_quoted_style :: nat where "double_quoted_style = 2"

definition literal_style :: nat where "literal_style = 8"

definition mk_node :: "yaml_kind \<Rightarrow> string \<Rightarrow> string \<Rightarrow> yaml_node" where
  "mk_node kind tag value = YNode kind tag value 0 no_comments []"

definition with_content :: "yaml_node \<Rightarrow> yaml_node list \<Rightarrow> yaml_node" where
  "with_content n c = YNode (yn_kind n) (yn_tag n) (yn_value n) (yn_style n) (yn_comments n) c"

definition with_comments :: "yaml_node \<Rightarrow> node_comments \<Rightarrow> yaml_node" where
  "with_comments n c = YNode (yn_kind n) (yn_tag n) (yn_value n) (yn_style n) c (yn_content n)"

definition with_value :: "yaml_node \<Rightarrow> string \<Rightarrow> yaml_node" where
  "with_value n v = YNode (yn_kind n) (yn_tag n) v (yn_style n) (yn_comments n) (yn_content n)"

lemma node_updates [simp]:
  "yn_kind (with_content n c) = yn_kind n" "yn_content (with_content n c) = c"
  "yn_value (with_content n c) = yn_value n" "yn_tag (with_content n c) = yn_tag n"
  "yn_comments (with_comments n m) = m" "yn_value (with_comments n m) = yn_value n"
  "yn_kind (with_comments n m) = yn_kind n" "yn_content (with_comments n m) = yn_content n"
  "yn_value (with_value n v) = v" "yn_kind (with_value n v) = yn_kind n" "yn_content (with_value n v) = yn_content n"
  "yn_kind (mk_node k t v) = k" "yn_value (mk_node k t v) = v" "yn_content (mk_node k t v) = []"
  by (simp_all add: with_content_def with_comments_def with_value_def mk_node_def)

lemma with_content_same [simp]: "with_content n (yn_content n) = n" "with_comments n (yn_comments n) = n"
  by (cases n; simp add: with_content_def with_comments_def)+

text \<open>The entries of a mapping, as the loops over \<open>Content\<close> in steps of two see them.\<close>

fun node_pairs :: "yaml_node list \<Rightarrow> (yaml_node \<times> yaml_node) list" where
  "node_pairs (k # v # rest) = (k, v) # node_pairs rest"
| "node_pairs _ = []"

definition pair_nodes :: "(yaml_node \<times> yaml_node) list \<Rightarrow> yaml_node list" where
  "pair_nodes ps = concat (map (\<lambda>(k, v). [k, v]) ps)"

lemma node_pairs_pair_nodes [simp]: "node_pairs (pair_nodes ps) = ps"
  by (induction ps) (auto simp: pair_nodes_def)

lemma node_pairs_append: "node_pairs (pair_nodes ps @ ns) = ps @ node_pairs ns"
  by (induction ps) (auto simp: pair_nodes_def)

definition entry_keys :: "(yaml_node \<times> yaml_node) list \<Rightarrow> string list" where
  "entry_keys ps = map (yn_value \<circ> fst) ps"

section \<open>The library\<close>

record yaml_lib =
  yl_parse :: "string \<Rightarrow> string + yaml_node"
  yl_decode :: "yaml_node \<Rightarrow> string + val"
  yl_encode :: "val \<Rightarrow> string + yaml_node"
  yl_print :: "nat \<Rightarrow> yaml_node \<Rightarrow> string + string"

text \<open>\<open>reflect.DeepEqual\<close> of decoded values; a number that is not one is not equal to itself.\<close>

lemma size_zip [termination_simp]: "(a, b) \<in> set (zip xs ys) \<Longrightarrow> size a < Suc (size_list size xs)"
  by (drule set_zip_leftD) (simp add: size_list_estimation less_Suc_eq_le size_list_estimation')

fun deep_equal :: "val \<Rightarrow> val \<Rightarrow> bool" where
  "deep_equal (VList xs) w =
     (case w of
        VList ys \<Rightarrow> length xs = length ys \<and> list_all (\<lambda>p. deep_equal (fst p) (snd p)) (zip xs ys)
      | _ \<Rightarrow> False)"
| "deep_equal (VMap m) w =
     (case w of
        VMap n \<Rightarrow> set (map fst m) = set (map fst n) \<and>
          list_all (\<lambda>p. case map_of n (fst p) of None \<Rightarrow> False | Some v \<Rightarrow> deep_equal (snd p) v) m
      | _ \<Rightarrow> False)"
| "deep_equal (VFloat s) w = (w = VFloat s \<and> s \<noteq> ''NaN'')"
| "deep_equal v w = (w = v)"

section \<open>The block written again\<close>

definition frontmatter_indent :: nat where "frontmatter_indent = 2"

text \<open>The mapping of a document, empty for an empty one.\<close>

definition document_mapping :: "yaml_node \<Rightarrow> yaml_node option" where
  "document_mapping doc =
     (if yn_kind doc = NoKind \<or> yn_content doc = [] then Some (mk_node MappingNode ''!!map'' [])
      else if yn_kind (hd (yn_content doc)) \<noteq> MappingNode then None else Some (hd (yn_content doc)))"

definition value_node_matches :: "yaml_lib \<Rightarrow> yaml_node \<Rightarrow> val \<Rightarrow> bool" where
  "value_node_matches yl n want = (case yl_decode yl n of Inl _ \<Rightarrow> False | Inr current \<Rightarrow> deep_equal current want)"

definition replace_value_node :: "yaml_lib \<Rightarrow> yaml_node \<Rightarrow> val \<Rightarrow> yaml_node" where
  "replace_value_node yl n v =
     (case yl_encode yl v of Inl _ \<Rightarrow> n | Inr encoded \<Rightarrow> with_comments encoded (yn_comments n))"

definition reconcile_entry ::
  "yaml_lib \<Rightarrow> vmap \<Rightarrow> yaml_node \<times> yaml_node \<Rightarrow> (yaml_node \<times> yaml_node) option" where
  "reconcile_entry yl fm e =
     (case e of (k, v) \<Rightarrow>
        map_option (\<lambda>new. (k, if value_node_matches yl v new then v else replace_value_node yl v new))
          (map_of fm (yn_value k)))"

definition reconcile_mapping :: "yaml_lib \<Rightarrow> yaml_node \<Rightarrow> vmap \<Rightarrow> yaml_node \<times> string list" where
  "reconcile_mapping yl mapping fm =
     (let kept = List.map_filter (reconcile_entry yl fm) (node_pairs (yn_content mapping))
      in (with_content mapping (pair_nodes kept), entry_keys kept))"

definition new_entry :: "yaml_lib \<Rightarrow> vmap \<Rightarrow> string \<Rightarrow> (yaml_node \<times> yaml_node) option" where
  "new_entry yl fm k =
     (case yl_encode yl (map_get fm k) of
        Inl _ \<Rightarrow> None
      | Inr v \<Rightarrow> Some (mk_node ScalarNode ''!!str'' k, v))"

definition append_new_keys :: "yaml_lib \<Rightarrow> yaml_node \<Rightarrow> vmap \<Rightarrow> string list \<Rightarrow> yaml_node" where
  "append_new_keys yl mapping fm seen =
     with_content mapping (yn_content mapping @
       pair_nodes (List.map_filter (new_entry yl fm) (filter (\<lambda>k. k \<notin> set seen) (sorted_keys fm))))"

definition orphan_comments :: "string \<Rightarrow> string" where
  "orphan_comments text =
     join_with [LF] (filter (\<lambda>l. has_prefix l ''#'')
       (map (dropWhile (\<lambda>c. c = CHR '' '' \<or> c = CHR 0x09)) (split_on LF text)))"

definition rewritten_mapping :: "yaml_lib \<Rightarrow> string \<Rightarrow> yaml_node \<Rightarrow> yaml_node \<Rightarrow> vmap \<Rightarrow> yaml_node" where
  "rewritten_mapping yl text doc mapping fm =
     (case reconcile_mapping yl mapping fm of
        (m, seen) \<Rightarrow>
          let m' = append_new_keys yl m fm seen in
          if yn_kind doc = NoKind then with_comments m' ((yn_comments m')\<lparr> nc_head := orphan_comments text \<rparr>)
          else m')"

definition render_preserved :: "yaml_lib \<Rightarrow> string \<Rightarrow> vmap \<Rightarrow> string option" where
  "render_preserved yl text fm =
     (case yl_parse yl text of
        Inl _ \<Rightarrow> None
      | Inr doc \<Rightarrow>
          (case document_mapping doc of
             None \<Rightarrow> None
           | Some mapping \<Rightarrow>
               (case yl_print yl frontmatter_indent (rewritten_mapping yl text doc mapping fm) of
                  Inl _ \<Rightarrow> None
                | Inr out \<Rightarrow> Some out)))"

section \<open>What the rewriting keeps\<close>

lemma reconcile_entry_keys:
  "entry_keys (List.map_filter (reconcile_entry yl fm) ps) = filter (has_key fm) (entry_keys ps)"
  by (induction ps) (auto simp: entry_keys_def List.map_filter_simps reconcile_entry_def has_key_def split: option.splits)

lemma new_entry_keys:
  assumes "\<And>k. k \<in> set ks \<Longrightarrow> \<exists>n. yl_encode yl (map_get fm k) = Inr n"
  shows "entry_keys (List.map_filter (new_entry yl fm) ks) = ks"
  using assms
  by (induction ks) (fastforce simp: entry_keys_def List.map_filter_simps new_entry_def split: sum.splits)+

definition rewritten_entries :: "yaml_lib \<Rightarrow> string \<Rightarrow> yaml_node \<Rightarrow> yaml_node \<Rightarrow> vmap \<Rightarrow> (yaml_node \<times> yaml_node) list" where
  "rewritten_entries yl text doc mapping fm = node_pairs (yn_content (rewritten_mapping yl text doc mapping fm))"

definition fresh_keys :: "yaml_node \<Rightarrow> vmap \<Rightarrow> string list" where
  "fresh_keys mapping fm = filter (\<lambda>k. k \<notin> set (entry_keys (node_pairs (yn_content mapping)))) (sorted_keys fm)"

lemma rewritten_entries_eq:
  "rewritten_entries yl text doc mapping fm =
     List.map_filter (reconcile_entry yl fm) (node_pairs (yn_content mapping)) @
     List.map_filter (new_entry yl fm) (fresh_keys mapping fm)"
proof -
  have "filter (\<lambda>k. k \<notin> set (filter (has_key fm) (entry_keys (node_pairs (yn_content mapping))))) (sorted_keys fm) =
      fresh_keys mapping fm"
    unfolding fresh_keys_def by (rule filter_cong) (auto simp: has_key_def)
  then show ?thesis
    by (simp add: rewritten_entries_def rewritten_mapping_def reconcile_mapping_def append_new_keys_def Let_def
        node_pairs_append reconcile_entry_keys del: set_filter)
qed

text \<open>An entry says what the map says: its node decodes to the value, or is the encoding of it.\<close>

definition entry_holds :: "yaml_lib \<Rightarrow> vmap \<Rightarrow> yaml_node \<times> yaml_node \<Rightarrow> bool" where
  "entry_holds yl fm e =
     (\<exists>want got. map_of fm (yn_value (fst e)) = Some want \<and> yl_decode yl (snd e) = Inr got \<and>
        (got = want \<or> deep_equal got want))"

text \<open>What the library documents: an encoded value decodes to itself, whatever its comments.\<close>

definition encodes :: "yaml_lib \<Rightarrow> vmap \<Rightarrow> bool" where
  "encodes yl fm \<longleftrightarrow>
     (\<forall>v \<in> snd ` set fm. \<exists>n. yl_encode yl v = Inr n \<and> (\<forall>c. yl_decode yl (with_comments n c) = Inr v))"

lemma encodesD:
  assumes "encodes yl fm" "map_of fm k = Some v"
  obtains n where "yl_encode yl v = Inr n" "\<And>c. yl_decode yl (with_comments n c) = Inr v" "yl_decode yl n = Inr v"
proof -
  have "v \<in> snd ` set fm" using map_of_SomeD [OF assms(2)] by force
  then obtain n where n: "yl_encode yl v = Inr n" "\<And>c. yl_decode yl (with_comments n c) = Inr v"
    using assms(1) by (auto simp: encodes_def)
  then show ?thesis using that n(2) [of "yn_comments n"] by simp
qed

lemma reconcile_entry_holds:
  assumes "encodes yl fm" "reconcile_entry yl fm e = Some e'"
  shows "entry_holds yl fm e'"
proof -
  obtain k v where e: "e = (k, v)" by (cases e)
  then obtain want where w: "map_of fm (yn_value k) = Some want"
    and e': "e' = (k, if value_node_matches yl v want then v else replace_value_node yl v want)"
    using assms(2) by (auto simp: reconcile_entry_def)
  obtain n where "yl_encode yl want = Inr n" "\<And>c. yl_decode yl (with_comments n c) = Inr want"
    using encodesD [OF assms(1) w] by metis
  then show ?thesis using w
    by (auto simp: e' entry_holds_def value_node_matches_def replace_value_node_def split: sum.splits)
qed

text \<open>Rewriting the block of a document keeps what the map does not change. The entries of the new mapping are
  the old ones whose key the map has, in their order, then the new keys in alphabetical order; each entry decodes
  to the value of its key; and an entry whose value was right already keeps its nodes, with their comments and
  their style.
\<close>

theorem rewriting_preserves_entries:
  assumes "encodes yl fm"
  shows "entry_keys (rewritten_entries yl text doc mapping fm) =
      filter (has_key fm) (entry_keys (node_pairs (yn_content mapping))) @ fresh_keys mapping fm \<and>
    list_all (entry_holds yl fm) (rewritten_entries yl text doc mapping fm) \<and>
    (\<forall>(k, v) \<in> set (node_pairs (yn_content mapping)). \<forall>want.
       map_of fm (yn_value k) = Some want \<and> value_node_matches yl v want \<longrightarrow>
       (k, v) \<in> set (rewritten_entries yl text doc mapping fm))"
proof (intro conjI)
  let ?old = "node_pairs (yn_content mapping)"
  have enc: "\<exists>n. yl_encode yl (map_get fm k) = Inr n \<and> yl_decode yl n = Inr (map_get fm k)"
    if k: "k \<in> set (sorted_keys fm)" for k
  proof -
    obtain v where v: "map_of fm k = Some v" using k by auto
    show ?thesis using encodesD [OF assms v] v by (metis map_get_def option.simps(5))
  qed
  have "entry_keys (List.map_filter (new_entry yl fm) (fresh_keys mapping fm)) = fresh_keys mapping fm"
    by (rule new_entry_keys) (use enc in \<open>force simp: fresh_keys_def\<close>)
  then show "entry_keys (rewritten_entries yl text doc mapping fm) =
      filter (has_key fm) (entry_keys ?old) @ fresh_keys mapping fm"
    using reconcile_entry_keys [of yl fm ?old] by (simp add: rewritten_entries_eq entry_keys_def)
  have "entry_holds yl fm e" if "new_entry yl fm k = Some e" "k \<in> set (sorted_keys fm)" for e k
    using enc [OF that(2)] that by (auto simp: new_entry_def entry_holds_def map_get_def split: option.splits)
  then show "list_all (entry_holds yl fm) (rewritten_entries yl text doc mapping fm)"
    using reconcile_entry_holds [OF assms]
    by (fastforce simp: rewritten_entries_eq list_all_iff set_map_filter_iff fresh_keys_def)
  show "\<forall>(k, v) \<in> set ?old. \<forall>want. map_of fm (yn_value k) = Some want \<and> value_node_matches yl v want \<longrightarrow>
      (k, v) \<in> set (rewritten_entries yl text doc mapping fm)"
  proof clarify
    fix k v want assume e: "(k, v) \<in> set ?old" "map_of fm (yn_value k) = Some want" "value_node_matches yl v want"
    then have "reconcile_entry yl fm (k, v) = Some (k, v)" by (simp add: reconcile_entry_def)
    then show "(k, v) \<in> set (rewritten_entries yl text doc mapping fm)"
      using e(1) by (auto simp: rewritten_entries_eq set_map_filter_iff)
  qed
qed

section \<open>An example\<close>

text \<open>A library for plain strings, and a block of two entries, the first with a comment.\<close>

definition string_yaml :: yaml_lib where
  "string_yaml = \<lparr> yl_parse = (\<lambda>_. Inr (with_content (mk_node DocumentNode [] [])
       [with_content (mk_node MappingNode ''!!map'' [])
         [mk_node ScalarNode ''!!str'' ''state'', with_comments (mk_node ScalarNode ''!!str'' ''Open'')
            \<lparr> nc_head = [], nc_line = ''# current phase'', nc_foot = [] \<rparr>,
          mk_node ScalarNode ''!!str'' ''old'', mk_node ScalarNode ''!!str'' ''1'']])),
     yl_decode = (\<lambda>n. if yn_kind n = ScalarNode then Inr (VStr (yn_value n)) else Inl ''not a scalar''),
     yl_encode = (\<lambda>v. case v of VStr s \<Rightarrow> Inr (mk_node ScalarNode ''!!str'' s) | _ \<Rightarrow> Inl ''not a string''),
     yl_print = (\<lambda>_ n. Inr (concat (map (\<lambda>(k, v). yn_value k @ '': '' @ yn_value v @
       (if nc_line (yn_comments v) = [] then [] else CHR '' '' # nc_line (yn_comments v)) @ [LF])
       (node_pairs (yn_content n))))) \<rparr>"

lemma render_sample:
  "render_preserved string_yaml [] [(''title'', VStr ''A''), (''state'', VStr ''Done'')] =
     Some (''state: Done # current phase'' @ [LF] @ ''title: A'' @ [LF])"
  by code_simp

definition sample_mapping :: yaml_node where
  "sample_mapping = hd (yn_content (projr (yl_parse string_yaml [])))"

theorem rewriting_preserves_entries_witness:
  "entry_keys (rewritten_entries string_yaml [] (mk_node DocumentNode [] []) sample_mapping
     [(''title'', VStr ''A''), (''state'', VStr ''Done'')]) = [''state'', ''title'']"
proof -
  let ?fm = "[(''title'', VStr ''A''), (''state'', VStr ''Done'')]"
  have enc: "encodes string_yaml ?fm" by (auto simp: encodes_def string_yaml_def)
  have "filter (has_key ?fm) (entry_keys (node_pairs (yn_content sample_mapping))) @
      fresh_keys sample_mapping ?fm = [''state'', ''title'']"
    by code_simp
  then show ?thesis using conjunct1 [OF rewriting_preserves_entries [OF enc]] by metis
qed

end
