(* ===== verification/Stem_Edits.thy ===== *)
theory Stem_Edits
  imports Yaml_Nodes Repair
begin

text \<open>
  The edits of a stem file as a tree of nodes: a value added to an enumeration, a field removed and an aggregate
  added (\<open>internal/fix/fix.go\<close>), and a field renamed (\<open>internal/migrate/rename.go\<close>). Each reads the file, changes
  the tree in one place and writes it back. The world and its faults are those of \<open>Repair\<close>.
\<close>

section \<open>The entry of a mapping\<close>

text \<open>
  The first entry of a key that the edit accepts. The loops of the code go on to the next entry of the same key
  when the value has not the shape they need.
\<close>

fun edit_first :: "(yaml_node \<Rightarrow> yaml_node option) \<Rightarrow> string \<Rightarrow> yaml_node list \<Rightarrow> yaml_node list option" where
  "edit_first f key (k # v # rest) =
     (case (if yn_value k = key then f v else None) of
        Some v' \<Rightarrow> Some (k # v' # rest)
      | None \<Rightarrow> map_option (\<lambda>r. k # v # r) (edit_first f key rest))"
| "edit_first f key _ = None"

definition in_mapping :: "(yaml_node list \<Rightarrow> yaml_node list option) \<Rightarrow> yaml_node \<Rightarrow> yaml_node option" where
  "in_mapping f n = (if yn_kind n \<noteq> MappingNode then None else map_option (with_content n) (f (yn_content n)))"

fun remove_entry :: "string \<Rightarrow> yaml_node list \<Rightarrow> yaml_node list option" where
  "remove_entry key (k # v # rest) =
     (if yn_value k = key then Some rest else map_option (\<lambda>r. k # v # r) (remove_entry key rest))"
| "remove_entry key _ = None"

fun rename_entry :: "string \<Rightarrow> string \<Rightarrow> yaml_node list \<Rightarrow> yaml_node list option" where
  "rename_entry old new (k # v # rest) =
     (if yn_value k = old then Some (with_value k new # v # rest)
      else map_option (\<lambda>r. k # v # r) (rename_entry old new rest))"
| "rename_entry old new _ = None"

section \<open>The edits\<close>

definition append_value :: "string \<Rightarrow> yaml_node \<Rightarrow> yaml_node option" where
  "append_value value n =
     (if yn_kind n \<noteq> SequenceNode then None
      else Some (with_content n (yn_content n @ [mk_node ScalarNode ''!!str'' value])))"

definition add_enum_value_to_node :: "string \<Rightarrow> string \<Rightarrow> yaml_node \<Rightarrow> string + yaml_node" where
  "add_enum_value_to_node field value node =
     (if yn_kind node \<noteq> MappingNode then Inl ''expected mapping node''
      else case edit_first (in_mapping (edit_first (in_mapping (edit_first (append_value value) ''values'')) field))
                  ''schema'' (yn_content node) of
        None \<Rightarrow> Inl (''field '' @ go_quote field @ '' not found in schema'')
      | Some c \<Rightarrow> Inr (with_content node c))"

fun remove_from_schema :: "string \<Rightarrow> string \<Rightarrow> yaml_node list \<Rightarrow> string + yaml_node list" where
  "remove_from_schema path field (k # v # rest) =
     (if yn_value k \<noteq> ''schema'' \<or> yn_kind v \<noteq> MappingNode then
        map_sum id (\<lambda>r. k # v # r) (remove_from_schema path field rest)
      else case remove_entry field (yn_content v) of
        None \<Rightarrow> Inl (''field '' @ go_quote field @ '' not found in schema of '' @ path)
      | Some [] \<Rightarrow> Inr rest
      | Some c \<Rightarrow> Inr (k # with_content v c # rest))"
| "remove_from_schema path field _ = Inl (''no schema section in '' @ path)"

definition remove_field_from_node :: "string \<Rightarrow> string \<Rightarrow> yaml_node \<Rightarrow> string + yaml_node" where
  "remove_field_from_node path field node =
     (if yn_kind node \<noteq> MappingNode then Inl ''expected mapping node in .stem''
      else map_sum id (with_content node) (remove_from_schema path field (yn_content node)))"

fun add_to_aggregate :: "yaml_node list \<Rightarrow> yaml_node list \<Rightarrow> yaml_node list" where
  "add_to_aggregate entry (k # v # rest) =
     (if yn_value k = ''aggregate'' then k # with_content v (yn_content v @ entry) # rest
      else k # v # add_to_aggregate entry rest)"
| "add_to_aggregate entry ns =
     ns @ [mk_node ScalarNode ''!!str'' ''aggregate'', with_content (mk_node MappingNode [] []) entry]"

definition aggregate_entry :: "string \<Rightarrow> string \<Rightarrow> yaml_node list" where
  "aggregate_entry field expr =
     [mk_node ScalarNode ''!!str'' field, YNode ScalarNode ''!!str'' expr literal_style no_comments []]"

definition add_aggregate_to_node :: "string \<Rightarrow> string \<Rightarrow> yaml_node \<Rightarrow> string + yaml_node" where
  "add_aggregate_to_node field expr node =
     (if yn_kind node \<noteq> MappingNode then Inl ''expected mapping node in .stem''
      else Inr (with_content node (add_to_aggregate (aggregate_entry field expr) (yn_content node))))"

definition rename_schema_key :: "string \<Rightarrow> string \<Rightarrow> yaml_node \<Rightarrow> yaml_node option" where
  "rename_schema_key old new = in_mapping (edit_first (in_mapping (rename_entry old new)) ''schema'')"

section \<open>The files\<close>

text \<open>A stem file read, its root edited, and the file written; \<open>yaml.Marshal\<close> indents by four.\<close>

definition marshal_indent :: nat where "marshal_indent = 4"

definition edit_root :: "(yaml_node \<Rightarrow> string + yaml_node) \<Rightarrow> yaml_node \<Rightarrow> string + yaml_node" where
  "edit_root f doc =
     (case yn_content doc of
        [] \<Rightarrow> Inl ''empty .stem document''
      | r # rest \<Rightarrow> map_sum id (\<lambda>r'. with_content doc (r' # rest)) (f r))"

definition edit_stem_file ::
  "yaml_lib \<Rightarrow> string \<Rightarrow> (yaml_node \<Rightarrow> string + yaml_node) \<Rightarrow> repair_world \<Rightarrow> string option \<times> repair_world" where
  "edit_stem_file yl path f w =
     (case read_file path w of
        (Inl m, w') \<Rightarrow> (Some m, w')
      | (Inr content, w') \<Rightarrow>
          (case yl_parse yl content of
             Inl e \<Rightarrow> (Some (''parsing '' @ path @ '': '' @ e), w')
           | Inr doc \<Rightarrow>
               (case edit_root f doc of
                  Inl e \<Rightarrow> (Some e, w')
                | Inr doc' \<Rightarrow>
                    (case yl_print yl marshal_indent doc' of
                       Inl e \<Rightarrow> (Some e, w')
                     | Inr out \<Rightarrow> write_file_atomic path out w'))))"

text \<open>The file that gets a new value of an enumeration: the first of the chain that declares it.\<close>

definition extend_enum_target :: "string \<Rightarrow> string \<Rightarrow> stem_entry list \<Rightarrow> string" where
  "extend_enum_target root field entries =
     (case find (\<lambda>e. case map_of (st_schema (se_stem e)) field of
                       None \<Rightarrow> False | Some sf \<Rightarrow> sf_type sf = ''enum'') entries of
        None \<Rightarrow> path_join root ''.stem''
      | Some e \<Rightarrow> se_path e)"

definition apply_extend_enum :: "repair_env \<Rightarrow> yaml_lib \<Rightarrow> proposal \<Rightarrow> repair_world \<Rightarrow> string option \<times> repair_world" where
  "apply_extend_enum env yl p w =
     (case walk_up (le_stem_yaml (rv_link env)) (wd_fs w) (rv_root env) of
        Inl e \<Rightarrow> (Some (error_text e), w)
      | Inr entries \<Rightarrow>
          edit_stem_file yl (extend_enum_target (rv_root env) (pp_field p) entries)
            (add_enum_value_to_node (pp_field p) (pp_value p)) w)"

text \<open>The schema proposals of a report, those among the proposals first.\<close>

fun apply_schema_proposals :: "repair_env \<Rightarrow> yaml_lib \<Rightarrow> proposal list \<Rightarrow> repair_world \<Rightarrow> string option \<times> repair_world" where
  "apply_schema_proposals env yl [] w = (None, w)"
| "apply_schema_proposals env yl (p # ps) w =
     (if pp_type p \<noteq> ExtendEnum then apply_schema_proposals env yl ps w
      else case apply_extend_enum env yl p w of
        (Some e, w') \<Rightarrow> (Some (''extend_enum '' @ pp_field p @ '': '' @ e), w')
      | (None, w') \<Rightarrow> apply_schema_proposals env yl ps w')"

definition remove_stem_schema_field :: "yaml_lib \<Rightarrow> string \<Rightarrow> string \<Rightarrow> repair_world \<Rightarrow> string option \<times> repair_world" where
  "remove_stem_schema_field yl path field = edit_stem_file yl path (remove_field_from_node path field)"

definition add_aggregate_to_stem ::
  "yaml_lib \<Rightarrow> string \<Rightarrow> string \<Rightarrow> string \<Rightarrow> repair_world \<Rightarrow> string option \<times> repair_world" where
  "add_aggregate_to_stem yl path field expr = edit_stem_file yl path (add_aggregate_to_node field expr)"

definition rename_field_in_stem ::
  "yaml_lib \<Rightarrow> string \<Rightarrow> string \<Rightarrow> string \<Rightarrow> repair_world \<Rightarrow> string option \<times> repair_world" where
  "rename_field_in_stem yl path old new =
     edit_stem_file yl path (\<lambda>root. case rename_schema_key old new root of
        None \<Rightarrow> Inl (''field '' @ go_quote old @ '' not found in schema of '' @ path) | Some root' \<Rightarrow> Inr root')"

section \<open>An edit changes one place\<close>

text \<open>Two trees that differ in the value of one entry only, reached by its keys.\<close>

fun only_at :: "string list \<Rightarrow> (yaml_node \<Rightarrow> yaml_node \<Rightarrow> bool) \<Rightarrow> yaml_node \<Rightarrow> yaml_node \<Rightarrow> bool" where
  "only_at [] R n n' = R n n'"
| "only_at (key # keys) R n n' =
     (\<exists>pre k v v' post. yn_content n = pre @ k # v # post \<and> n' = with_content n (pre @ k # v' # post) \<and>
        yn_value k = key \<and> even (length pre) \<and> only_at keys R v v')"

lemma edit_first_entry:
  "edit_first f key ns = Some ns' \<Longrightarrow>
     \<exists>pre k v v' post. ns = pre @ k # v # post \<and> ns' = pre @ k # v' # post \<and> yn_value k = key \<and>
       even (length pre) \<and> f v = Some v'"
proof (induction f key ns arbitrary: ns' rule: edit_first.induct)
  case (1 f key k v rest)
  show ?case
  proof (cases "if yn_value k = key then f v else None")
    case None
    then obtain r where r: "edit_first f key rest = Some r" "ns' = k # v # r" using 1 by auto
    then obtain pre k1 v1 v1' post where "rest = pre @ k1 # v1 # post" "r = pre @ k1 # v1' # post"
      "yn_value k1 = key" "even (length pre)" "f v1 = Some v1'" using 1 None by blast
    then show ?thesis using r by (intro exI [of _ "k # v # pre"]) auto
  next
    case (Some v')
    then show ?thesis using 1 by (intro exI [of _ "[]"]) (auto split: if_splits)
  qed
qed auto

lemma only_at_in_mapping:
  assumes "in_mapping (edit_first f key) n = Some n'" "\<And>v v'. f v = Some v' \<Longrightarrow> only_at keys R v v'"
  shows "only_at (key # keys) R n n'"
  using assms edit_first_entry [of f key "yn_content n"]
  by (fastforce simp: in_mapping_def split: if_splits)

lemma rename_entry_first:
  "rename_entry old new ns = Some ns' \<Longrightarrow>
     \<exists>pre k post. ns = pre @ k # post \<and> ns' = pre @ with_value k new # post \<and> yn_value k = old \<and> even (length pre) \<and>
       old \<notin> set (entry_keys (node_pairs pre))"
proof (induction old new ns arbitrary: ns' rule: rename_entry.induct)
  case (1 old new k v rest)
  show ?case
  proof (cases "yn_value k = old")
    case True
    then show ?thesis using 1 by (intro exI [of _ "[]"]) (auto simp: entry_keys_def)
  next
    case False
    then obtain r where r: "rename_entry old new rest = Some r" "ns' = k # v # r" using 1 by auto
    then obtain pre k1 post where "rest = pre @ k1 # post" "r = pre @ with_value k1 new # post"
      "yn_value k1 = old" "even (length pre)" "old \<notin> set (entry_keys (node_pairs pre))" using 1 False by blast
    then show ?thesis using r False by (intro exI [of _ "k # v # pre"]) (auto simp: entry_keys_def)
  qed
qed auto

lemma remove_entry_first:
  "remove_entry key ns = Some ns' \<Longrightarrow>
     \<exists>pre k v post. ns = pre @ k # v # post \<and> ns' = pre @ post \<and> yn_value k = key \<and> even (length pre)"
proof (induction key ns arbitrary: ns' rule: remove_entry.induct)
  case (1 key k v rest)
  show ?case
  proof (cases "yn_value k = key")
    case True
    then show ?thesis using 1 by (intro exI [of _ "[]"]) auto
  next
    case False
    then obtain r where r: "remove_entry key rest = Some r" "ns' = k # v # r" using 1 by auto
    then obtain pre k1 v1 post where "rest = pre @ k1 # v1 # post" "r = pre @ post" "yn_value k1 = key"
      "even (length pre)" using 1 False by blast
    then show ?thesis using r by (intro exI [of _ "k # v # pre"]) auto
  qed
qed auto

text \<open>What each edit does at its place.\<close>

definition value_appended :: "string \<Rightarrow> yaml_node \<Rightarrow> yaml_node \<Rightarrow> bool" where
  "value_appended value n n' \<longleftrightarrow>
     yn_kind n = SequenceNode \<and> n' = with_content n (yn_content n @ [mk_node ScalarNode ''!!str'' value])"

definition key_renamed :: "string \<Rightarrow> string \<Rightarrow> yaml_node \<Rightarrow> yaml_node \<Rightarrow> bool" where
  "key_renamed old new n n' \<longleftrightarrow>
     (\<exists>pre k post. yn_content n = pre @ k # post \<and> n' = with_content n (pre @ with_value k new # post) \<and>
        yn_value k = old \<and> even (length pre))"

definition schema_field_removed :: "string \<Rightarrow> yaml_node list \<Rightarrow> yaml_node list \<Rightarrow> bool" where
  "schema_field_removed field ns ns' \<longleftrightarrow>
     (\<exists>pre k v post p k1 v1 q.
        ns = pre @ k # v # post \<and> even (length pre) \<and> yn_value k = ''schema'' \<and>
        yn_content v = p @ k1 # v1 # q \<and> even (length p) \<and> yn_value k1 = field \<and>
        ns' = pre @ (if p @ q = [] then [] else [k, with_content v (p @ q)]) @ post)"

lemma schema_field_removed_later:
  assumes "schema_field_removed field ns ns'"
  shows "schema_field_removed field (k # v # ns) (k # v # ns')"
proof -
  obtain pre k1 v1 post p k2 v2 q where "ns = pre @ k1 # v1 # post \<and> even (length pre) \<and> yn_value k1 = ''schema'' \<and>
        yn_content v1 = p @ k2 # v2 # q \<and> even (length p) \<and> yn_value k2 = field \<and>
        ns' = pre @ (if p @ q = [] then [] else [k1, with_content v1 (p @ q)]) @ post"
    using assms by (auto simp: schema_field_removed_def)
  then show ?thesis unfolding schema_field_removed_def by (intro exI [of _ "k # v # pre"]) fastforce
qed

lemma remove_from_schema_removes:
  "remove_from_schema path field ns = Inr ns' \<Longrightarrow> schema_field_removed field ns ns'"
proof (induction path field ns arbitrary: ns' rule: remove_from_schema.induct)
  case (1 path field k v rest)
  show ?case
  proof (cases "yn_value k \<noteq> ''schema'' \<or> yn_kind v \<noteq> MappingNode")
    case True
    then obtain r where r: "remove_from_schema path field rest = Inr r" "ns' = k # v # r"
      using 1(2) by (cases "remove_from_schema path field rest") auto
    then show ?thesis using 1(1) [OF True] schema_field_removed_later by simp
  next
    case False
    then obtain c where c: "remove_entry field (yn_content v) = Some c"
      using 1(2) by (cases "remove_entry field (yn_content v)") auto
    then obtain p k1 v1 q where e: "yn_content v = p @ k1 # v1 # q" "c = p @ q" "yn_value k1 = field" "even (length p)"
      using remove_entry_first by blast
    have "ns' = (if p @ q = [] then [] else [k, with_content v (p @ q)]) @ rest"
      using 1(2) False c e(2) by (auto split: list.splits)
    then show ?thesis unfolding schema_field_removed_def using False e
      by (intro exI [of _ "[]"]) auto
  qed
qed auto

definition aggregate_added :: "yaml_node list \<Rightarrow> yaml_node list \<Rightarrow> yaml_node list \<Rightarrow> bool" where
  "aggregate_added entry ns ns' \<longleftrightarrow>
     (\<exists>pre k v post. ns = pre @ k # v # post \<and> yn_value k = ''aggregate'' \<and>
        ns' = pre @ k # with_content v (yn_content v @ entry) # post) \<or>
     (\<exists>k v. ns' = ns @ [k, v] \<and> yn_value k = ''aggregate'' \<and> yn_kind v = MappingNode \<and> yn_content v = entry)"

lemma add_to_aggregate_adds: "aggregate_added entry ns (add_to_aggregate entry ns)"
proof (induction entry ns rule: add_to_aggregate.induct)
  case (1 entry k v rest)
  show ?case
  proof (cases "yn_value k = ''aggregate''")
    case True
    then show ?thesis unfolding aggregate_added_def by (intro disjI1 exI [of _ "[]"]) auto
  next
    case False
    show ?thesis
    proof (cases "\<exists>pre k1 v1 post. rest = pre @ k1 # v1 # post \<and> yn_value k1 = ''aggregate'' \<and>
        add_to_aggregate entry rest = pre @ k1 # with_content v1 (yn_content v1 @ entry) # post")
      case True
      then obtain pre k1 v1 post where "rest = pre @ k1 # v1 # post \<and> yn_value k1 = ''aggregate'' \<and>
        add_to_aggregate entry rest = pre @ k1 # with_content v1 (yn_content v1 @ entry) # post" by blast
      then show ?thesis using False unfolding aggregate_added_def
        by (intro disjI1 exI [of _ "k # v # pre"]) auto
    next
      case none: False
      have "\<exists>k' v'. add_to_aggregate entry rest = rest @ [k', v'] \<and> yn_value k' = ''aggregate'' \<and>
          yn_kind v' = MappingNode \<and> yn_content v' = entry"
        using 1 [OF False] none unfolding aggregate_added_def by blast
      then show ?thesis using False unfolding aggregate_added_def by (intro disjI2) simp
    qed
  qed
qed (auto simp: aggregate_added_def)

text \<open>An edit of a stem file changes one place of its tree and nothing else: a value goes to the end of the values
  of one field, a field leaves the schema (and takes the section along when it was the last), one key of the schema
  is renamed, or one entry joins the aggregates. All other nodes stay, with their comments and their style.
\<close>

theorem stem_edits_are_local:
  "(case add_enum_value_to_node field value n of Inl _ \<Rightarrow> True
    | Inr n' \<Rightarrow> only_at [''schema'', field, ''values''] (value_appended value) n n') \<and>
   (case rename_schema_key field value n of None \<Rightarrow> True
    | Some n' \<Rightarrow> only_at [''schema''] (key_renamed field value) n n') \<and>
   (case remove_field_from_node path field n of Inl _ \<Rightarrow> True
    | Inr n' \<Rightarrow> n' = with_content n (yn_content n') \<and> schema_field_removed field (yn_content n) (yn_content n')) \<and>
   (case add_aggregate_to_node field value n of Inl _ \<Rightarrow> True
    | Inr n' \<Rightarrow> n' = with_content n (yn_content n') \<and>
        aggregate_added (aggregate_entry field value) (yn_content n) (yn_content n'))"
proof (intro conjI)
  have appended: "only_at [] (value_appended value) v v'" if "append_value value v = Some v'" for v v'
    using that by (auto simp: append_value_def value_appended_def split: if_splits)
  have "only_at [''schema'', field, ''values''] (value_appended value) n n'" if "add_enum_value_to_node field value n = Inr n'" for n'
  proof -
    have "in_mapping (edit_first (in_mapping (edit_first (in_mapping (edit_first (append_value value) ''values'')) field))
        ''schema'') n = Some n'"
      using that by (auto simp: add_enum_value_to_node_def in_mapping_def split: if_splits option.splits)
    then show ?thesis by (rule only_at_in_mapping) (blast intro: only_at_in_mapping appended)
  qed
  then show "case add_enum_value_to_node field value n of Inl _ \<Rightarrow> True
    | Inr n' \<Rightarrow> only_at [''schema'', field, ''values''] (value_appended value) n n'" by (auto split: sum.split)
  have renamed: "only_at [] (key_renamed field value) v v'" if "in_mapping (rename_entry field value) v = Some v'" for v v'
    using that rename_entry_first by (fastforce simp: in_mapping_def key_renamed_def split: if_splits)
  have "only_at [''schema''] (key_renamed field value) n n'" if "rename_schema_key field value n = Some n'" for n'
    by (rule only_at_in_mapping [OF that [unfolded rename_schema_key_def]]) (rule renamed)
  then show "case rename_schema_key field value n of None \<Rightarrow> True
    | Some n' \<Rightarrow> only_at [''schema''] (key_renamed field value) n n'" by (auto split: option.split)
  show "case remove_field_from_node path field n of Inl _ \<Rightarrow> True
    | Inr n' \<Rightarrow> n' = with_content n (yn_content n') \<and> schema_field_removed field (yn_content n) (yn_content n')"
    using remove_from_schema_removes [of path field "yn_content n"]
    by (cases "remove_from_schema path field (yn_content n)") (auto simp: remove_field_from_node_def)
  show "case add_aggregate_to_node field value n of Inl _ \<Rightarrow> True
    | Inr n' \<Rightarrow> n' = with_content n (yn_content n') \<and>
        aggregate_added (aggregate_entry field value) (yn_content n) (yn_content n')"
    using add_to_aggregate_adds by (auto simp: add_aggregate_to_node_def)
qed

section \<open>Observed behaviour\<close>

text \<open>
  The chain of stem files starts at the root, so a new value goes to the stem that is farthest from the documents,
  where the values of a nearer stem for the same field hide it.
\<close>

definition layered_entry :: "string \<Rightarrow> string list \<Rightarrow> stem_entry" where
  "layered_entry path values = \<lparr> se_path = path,
     se_stem = sample_stem\<lparr> st_schema := [(''state'', zero_field\<lparr> sf_type := ''enum'', sf_values := values \<rparr>)] \<rparr> \<rparr>"

lemma new_value_goes_to_farthest_stem:
  "extend_enum_target ''/r/sub'' ''state'' [layered_entry ''/r/.stem'' [''Open'', ''Done''],
      layered_entry ''/r/sub/.stem'' [''Open'']] = ''/r/.stem''"
  "map_option sf_values (map_of (st_schema (merge_stem_files [layered_entry ''/r/.stem'' [''Open'', ''Done'', ''New''],
      layered_entry ''/r/sub/.stem'' [''Open'']])) ''state'') = Some [''Open'']"
  by code_simp+

text \<open>A field that has an aggregate already gets a second entry of the same key, which no YAML reader accepts.\<close>

lemma second_aggregate_duplicates_key:
  "entry_keys (node_pairs (add_to_aggregate (aggregate_entry ''n'' ''b'')
     (add_to_aggregate (aggregate_entry ''n'' ''a'') []))) = [''aggregate'']"
  "entry_keys (node_pairs (yn_content (snd (hd (node_pairs (add_to_aggregate (aggregate_entry ''n'' ''b'')
     (add_to_aggregate (aggregate_entry ''n'' ''a'') []))))))) = [''n'', ''n'']"
  by code_simp+

end
