(* ===== verification/Rename.thy ===== *)
theory Rename
  imports Stem_Edits File_Scan
begin

text \<open>
  Renaming a field in the documents and the stem files of a directory, \<open>RenameOperation\<close> of
  \<open>internal/migrate/rename.go\<close>: the records are scanned, a clash with the new name refuses the whole operation
  before anything is written, then each document and each stem file is rewritten. The first error stops the run
  and leaves what has been written. The scan is that of \<open>File_Scan\<close>, the file system and the faults of its calls
  those of \<open>Repair\<close>.
\<close>

section \<open>The stem files that declare a field\<close>

text \<open>Every path of the tree named \<open>.stem\<close>, in the order of the walk.\<close>

fun stem_paths :: "string \<Rightarrow> scan_tree \<Rightarrow> go_error + string list"
and stem_paths_of :: "string \<Rightarrow> scan_tree list \<Rightarrow> go_error + string list" where
  "stem_paths path (SFile name) = Inr (if name = ''.stem'' then [path] else [])"
| "stem_paths path (SDir name err children) =
     (if name = ''.git'' then Inr []
      else case err of
        Some e \<Rightarrow> Inl e
      | None \<Rightarrow> map_sum id (\<lambda>ps. (if name = ''.stem'' then [path] else []) @ ps) (stem_paths_of path children))"
| "stem_paths_of dir [] = Inr []"
| "stem_paths_of dir (t # ts) =
     (case stem_paths (path_join dir (tree_name t)) t of
        Inl e \<Rightarrow> Inl e
      | Inr ps \<Rightarrow> map_sum id (\<lambda>qs. ps @ qs) (stem_paths_of dir ts))"

definition declares :: "string \<Rightarrow> stem_entry \<Rightarrow> bool" where
  "declares field e = has_key (st_schema (se_stem e)) field"

definition load_stem ::
  "repair_env \<Rightarrow> string \<Rightarrow> stem_entry list \<times> repair_world \<Rightarrow> string \<Rightarrow> stem_entry list \<times> repair_world" where
  "load_stem env field acc path =
     (case acc of (entries, w) \<Rightarrow>
        case read_file path w of
          (Inl _, w') \<Rightarrow> (entries, w')
        | (Inr content, w') \<Rightarrow>
            (case parse_stem_content (le_stem_yaml (rv_link env)) path content of
               Inl _ \<Rightarrow> (entries, w')
             | Inr s \<Rightarrow>
                 let e = \<lparr> se_path = path, se_stem = s \<rparr> in
                 (if declares field e then entries @ [e] else entries, w')))"

text \<open>The files below the root, then those above it that the walk has not met.\<close>

definition find_stems_with_field ::
  "repair_env \<Rightarrow> (string \<Rightarrow> go_error + scan_tree) \<Rightarrow> string \<Rightarrow> string \<Rightarrow> repair_world \<Rightarrow>
     (go_error + stem_entry list) \<times> repair_world" where
  "find_stems_with_field env tree root field w =
     (case (case tree root of Inl e \<Rightarrow> Inl e | Inr t \<Rightarrow> stem_paths root t) of
        Inl e \<Rightarrow> (Inl e, w)
      | Inr paths \<Rightarrow>
          (case foldl (load_stem env field) ([], w) paths of
             (below, w') \<Rightarrow>
               let above = (case walk_up (le_stem_yaml (rv_link env)) (wd_fs w') root of
                              Inl _ \<Rightarrow> []
                            | Inr entries \<Rightarrow> filter (\<lambda>e. se_path e \<notin> set paths \<and> declares field e) entries)
               in (Inr (sort_key se_path (below @ above)), w')))"

section \<open>The operation\<close>

text \<open>The result without its constant fields, the two names it was asked for, and the counts of its lists.\<close>

record rename_result =
  rn_files_scanned :: nat
  rn_files_updated :: "string list"
  rn_stems_updated :: "string list"
  rn_file_details :: "(string \<times> bool) list"

definition rename_field_in_file ::
  "string \<Rightarrow> string \<Rightarrow> string \<Rightarrow> bool \<Rightarrow> repair_world \<Rightarrow> (string + bool) \<times> repair_world" where
  "rename_field_in_file path old new dry w =
     (case read_file path w of
        (Inl m, w') \<Rightarrow> (Inl m, w')
      | (Inr content, w') \<Rightarrow>
          (case rename_frontmatter_field content old new of
             (content', changed) \<Rightarrow>
               if \<not> changed \<or> dry then (Inr changed, w')
               else case write_file_atomic path content' w' of
                 (Some e, w'') \<Rightarrow> (Inl e, w'')
               | (None, w'') \<Rightarrow> (Inr True, w'')))"

text \<open>One record, then one stem file.\<close>

definition rename_record ::
  "string \<Rightarrow> string \<Rightarrow> string \<Rightarrow> bool \<Rightarrow> doc \<Rightarrow> rename_result \<Rightarrow> repair_world \<Rightarrow>
     (string + rename_result) \<times> repair_world" where
  "rename_record root old new dry rec r w =
     (if \<not> has_key (rc_frontmatter rec) old then
        (Inr (r\<lparr> rn_file_details := rn_file_details r @ [(rc_path rec, False)] \<rparr>), w)
      else case rename_field_in_file (path_join root (rc_path rec)) old new dry w of
        (Inl e, w') \<Rightarrow> (Inl (''renaming field in '' @ rc_path rec @ '': '' @ e), w')
      | (Inr changed, w') \<Rightarrow>
          (Inr (r\<lparr> rn_files_updated := rn_files_updated r @ (if changed then [rc_path rec] else []),
                   rn_file_details := rn_file_details r @ [(rc_path rec, changed)] \<rparr>), w'))"

definition rename_stem ::
  "yaml_lib \<Rightarrow> string \<Rightarrow> string \<Rightarrow> string \<Rightarrow> bool \<Rightarrow> stem_entry \<Rightarrow> rename_result \<Rightarrow> repair_world \<Rightarrow>
     (string + rename_result) \<times> repair_world" where
  "rename_stem yl root old new dry e r w =
     (case (if dry then (None, w) else rename_field_in_stem yl (se_path e) old new w) of
        (Some m, w') \<Rightarrow> (Inl (''renaming field in .stem '' @ se_path e @ '': '' @ m), w')
      | (None, w') \<Rightarrow>
          let rel = (case path_rel root (se_path e) of None \<Rightarrow> [] | Some p \<Rightarrow> p) in
          (Inr (r\<lparr> rn_stems_updated := rn_stems_updated r @ [if rel = [] then se_path e else rel] \<rparr>), w'))"

fun run_all :: "('a \<Rightarrow> 's \<Rightarrow> 'w \<Rightarrow> ('e + 's) \<times> 'w) \<Rightarrow> 'a list \<Rightarrow> 's \<Rightarrow> 'w \<Rightarrow> ('e + 's) \<times> 'w" where
  "run_all f [] s w = (Inr s, w)"
| "run_all f (x # xs) s w = (case f x s w of (Inl e, w') \<Rightarrow> (Inl e, w') | (Inr s', w') \<Rightarrow> run_all f xs s' w')"

text \<open>What refuses the operation: a document, or else a stem file, that has the new name already.\<close>

definition rename_clash :: "string \<Rightarrow> string \<Rightarrow> doc list \<Rightarrow> string option" where
  "rename_clash old new records =
     map_option (\<lambda>r. ''file '' @ rc_path r @ '' already has field '' @ go_quote new @ ''; rename would overwrite'')
       (find (\<lambda>r. has_key (rc_frontmatter r) old \<and> has_key (rc_frontmatter r) new) records)"

definition stem_clash :: "string \<Rightarrow> stem_entry list \<Rightarrow> string option" where
  "stem_clash new stems =
     map_option (\<lambda>e. ''.stem '' @ se_path e @ '' already has field '' @ go_quote new @ ''; rename would overwrite'')
       (find (declares new) stems)"

definition governed_scope :: "repair_env \<Rightarrow> filesys \<Rightarrow> string \<Rightarrow> go_error + stem_file option" where
  "governed_scope env fs dir =
     (case walk_up (le_stem_yaml (rv_link env)) fs dir of
        Inl e \<Rightarrow> Inl e | Inr entries \<Rightarrow> Inr (Some (merge_stem_files entries)))"

definition scan_documents ::
  "repair_env \<Rightarrow> (string \<Rightarrow> go_error + scan_tree) \<Rightarrow> string \<Rightarrow> repair_world \<Rightarrow> go_error + doc list" where
  "scan_documents env tree root w =
     (case new_registry of
        Inl e \<Rightarrow> Inl (Err e)
      | Inr reg \<Rightarrow>
          scan (wd_fs w) tree (\<lambda>_ path content. Inr (Some (ex_doc (read_document env path content))))
            \<lparr> sc_resolver = Some (governed_scope env (wd_fs w)), sc_allow_ungoverned = False \<rparr> reg root)"

definition execute_rename ::
  "repair_env \<Rightarrow> yaml_lib \<Rightarrow> (string \<Rightarrow> go_error + scan_tree) \<Rightarrow> string \<Rightarrow> string \<Rightarrow> bool \<Rightarrow> repair_world \<Rightarrow>
     (string + rename_result) \<times> repair_world" where
  "execute_rename env yl tree old new dry w =
     (let root = path_abs (fs_cwd (wd_fs w)) (rv_root env) in
      case fs_stat (wd_fs w) root of
        Inl e \<Rightarrow> (Inl (''path '' @ rv_root env @ '': '' @ fs_err_text e), w)
      | Inr kind \<Rightarrow>
          if kind \<noteq> KDir then (Inl (''path '' @ rv_root env @ '' is not a directory''), w)
          else case scan_documents env tree root w of
            Inl e \<Rightarrow> (Inl (''scanning: '' @ error_text e), w)
          | Inr records \<Rightarrow>
              (case rename_clash old new records of
                 Some m \<Rightarrow> (Inl m, w)
               | None \<Rightarrow>
                   (case find_stems_with_field env tree root old w of
                      (Inl e, w') \<Rightarrow> (Inl (''finding .stem files: '' @ error_text e), w')
                    | (Inr stems, w') \<Rightarrow>
                        (case stem_clash new stems of
                           Some m \<Rightarrow> (Inl m, w')
                         | None \<Rightarrow>
                             (case run_all (rename_record root old new dry) records
                                 \<lparr> rn_files_scanned = length records, rn_files_updated = [],
                                   rn_stems_updated = [], rn_file_details = [] \<rparr> w' of
                                (Inl e, w'') \<Rightarrow> (Inl e, w'')
                              | (Inr r, w'') \<Rightarrow> run_all (rename_stem yl root old new dry) stems r w'')))))"

section \<open>What a completed run has done\<close>

definition rename_text :: "string \<Rightarrow> string \<Rightarrow> string \<Rightarrow> string" where
  "rename_text old new c = fst (rename_frontmatter_field c old new)"

definition rename_read :: "string \<Rightarrow> string \<Rightarrow> fs_err + string \<Rightarrow> fs_err + string" where
  "rename_read old new r = (case r of Inl e \<Rightarrow> Inl e | Inr c \<Rightarrow> Inr (rename_text old new c))"

lemma rename_unchanged: "rename_frontmatter_field c old new = (t, False) \<Longrightarrow> t = c"
  by (auto simp: rename_frontmatter_field_def Let_def split: option.splits intro: rename_loop_unchanged)

definition stem_renamed :: "yaml_lib \<Rightarrow> string \<Rightarrow> string \<Rightarrow> string \<Rightarrow> string \<Rightarrow> bool" where
  "stem_renamed yl old new c c' \<longleftrightarrow>
     (\<exists>doc r r' rest. yl_parse yl c = Inr doc \<and> yn_content doc = r # rest \<and> rename_schema_key old new r = Some r' \<and>
        yl_print yl marshal_indent (with_content doc (r' # rest)) = Inr c')"

lemma set_file_read: "fs_read (set_file p c fs) a = (if a = p then Inr c else fs_read fs a)"
  by (simp add: set_file_def)

lemma rename_field_in_file_does:
  assumes "rename_field_in_file p old new False w = (Inr b, w')"
  shows "fs_read (wd_fs w') a = (if a = p then rename_read old new (fs_read (wd_fs w) p) else fs_read (wd_fs w) a)"
proof -
  obtain c w1 where r: "read_file p w = (Inr c, w1)"
    using assms by (auto simp: rename_field_in_file_def split: prod.splits sum.splits)
  have fs: "wd_fs w1 = wd_fs w" "fs_read (wd_fs w) p = Inr c" using read_file_fs [OF r] by auto
  obtain t ch where t: "rename_frontmatter_field c old new = (t, ch)" by fastforce
  show ?thesis
  proof (cases ch)
    case False
    then show ?thesis using assms r t fs rename_unchanged
      by (auto simp: rename_field_in_file_def rename_text_def rename_read_def)
  next
    case True
    then obtain e w2 where "write_file_atomic p t w1 = (e, w2)" by fastforce
    then show ?thesis using assms r t fs True write_file_atomic_fs
      by (fastforce simp: rename_field_in_file_def rename_text_def rename_read_def set_file_read split: option.splits)
  qed
qed

definition record_file :: "string \<Rightarrow> doc \<Rightarrow> string" where
  "record_file root rec = path_join root (rc_path rec)"

definition to_rename :: "string \<Rightarrow> string \<Rightarrow> doc list \<Rightarrow> string set" where
  "to_rename root old records = record_file root ` {r \<in> set records. has_key (rc_frontmatter r) old}"

lemma to_rename_Cons:
  "to_rename root old (rec # records) =
     (if has_key (rc_frontmatter rec) old then insert (record_file root rec) (to_rename root old records)
      else to_rename root old records)"
  by (auto simp: to_rename_def)

lemma rename_records_do:
  "\<lbrakk>run_all (rename_record root old new False) records r w = (Inr r', w'); distinct (map (record_file root) records)\<rbrakk> \<Longrightarrow>
     fs_read (wd_fs w') a =
       (if a \<in> to_rename root old records then rename_read old new (fs_read (wd_fs w) a)
        else fs_read (wd_fs w) a)"
proof (induction records arbitrary: r w)
  case (Cons rec records)
  obtain res w1 where one: "rename_record root old new False rec r w = (res, w1)" by fastforce
  obtain r1 where res: "res = Inr r1" using Cons.prems one by (cases res) auto
  have rest: "fs_read (wd_fs w') a =
       (if a \<in> to_rename root old records then rename_read old new (fs_read (wd_fs w1) a)
        else fs_read (wd_fs w1) a)"
    by (rule Cons.IH [of r1]) (use Cons.prems one res in auto)
  have fresh: "record_file root rec \<notin> to_rename root old records"
    using Cons.prems(2) by (auto simp: to_rename_def)
  show ?case
  proof (cases "has_key (rc_frontmatter rec) old")
    case False
    then have "w1 = w" using one by (simp add: rename_record_def)
    then show ?thesis using rest False by (simp add: to_rename_Cons)
  next
    case True
    then obtain b where "rename_field_in_file (record_file root rec) old new False w = (Inr b, w1)"
      using one res by (auto simp: rename_record_def record_file_def split: prod.splits sum.splits)
    note this = rename_field_in_file_does [OF this]
    then show ?thesis using rest fresh True by (simp add: to_rename_Cons)
  qed
qed (simp add: to_rename_def)

lemma rename_stem_does:
  assumes "rename_stem yl root old new False e r w = (Inr r', w')"
  obtains c c' where "fs_read (wd_fs w) (se_path e) = Inr c" "stem_renamed yl old new c c'"
    "wd_fs w' = set_file (se_path e) c' (wd_fs w)"
proof -
  let ?p = "se_path e"
  have edit: "rename_field_in_stem yl ?p old new w = (None, w')"
    using assms by (auto simp: rename_stem_def Let_def split: prod.splits option.splits)
  obtain c w1 where r: "read_file ?p w = (Inr c, w1)"
    using edit by (auto simp: rename_field_in_stem_def edit_stem_file_def split: prod.splits sum.splits)
  have fs: "wd_fs w1 = wd_fs w" "fs_read (wd_fs w) ?p = Inr c" using read_file_fs [OF r] by auto
  obtain doc out doc' where d: "yl_parse yl c = Inr doc" "yl_print yl marshal_indent doc' = Inr out"
    "write_file_atomic ?p out w1 = (None, w')"
    "edit_root (\<lambda>root. case rename_schema_key old new root of
        None \<Rightarrow> Inl (''field '' @ go_quote old @ '' not found in schema of '' @ ?p) | Some root' \<Rightarrow> Inr root') doc = Inr doc'"
    using edit r by (auto simp: rename_field_in_stem_def edit_stem_file_def split: sum.splits)
  obtain n rest where c: "yn_content doc = n # rest" using d(4) by (cases "yn_content doc") (auto simp: edit_root_def)
  obtain n' where n: "rename_schema_key old new n = Some n'" "doc' = with_content doc (n' # rest)"
    using d(4) c by (cases "rename_schema_key old new n") (auto simp: edit_root_def)
  have "stem_renamed yl old new c out" unfolding stem_renamed_def using d c n by blast
  moreover have "wd_fs w' = set_file ?p out (wd_fs w)" using write_file_atomic_fs [OF d(3)] fs by simp
  ultimately show thesis using that fs by blast
qed

lemma rename_stems_do:
  assumes "run_all (rename_stem yl root old new False) stems r w = (Inr r', w')" "distinct (map se_path stems)"
  shows "(\<forall>e \<in> set stems. \<exists>c c'. fs_read (wd_fs w) (se_path e) = Inr c \<and> fs_read (wd_fs w') (se_path e) = Inr c' \<and>
        stem_renamed yl old new c c') \<and>
     (\<forall>a. a \<notin> se_path ` set stems \<longrightarrow> fs_read (wd_fs w') a = fs_read (wd_fs w) a)"
  using assms
proof (induction stems arbitrary: r w)
  case (Cons e stems)
  obtain res w1 where one: "rename_stem yl root old new False e r w = (res, w1)" by fastforce
  obtain r1 where res: "res = Inr r1" using Cons.prems one by (cases res) auto
  obtain c c' where e: "fs_read (wd_fs w) (se_path e) = Inr c" "stem_renamed yl old new c c'"
    "wd_fs w1 = set_file (se_path e) c' (wd_fs w)" using rename_stem_does one res by blast
  have rest: "(\<forall>e \<in> set stems. \<exists>c c'. fs_read (wd_fs w1) (se_path e) = Inr c \<and> fs_read (wd_fs w') (se_path e) = Inr c' \<and>
        stem_renamed yl old new c c') \<and>
     (\<forall>a. a \<notin> se_path ` set stems \<longrightarrow> fs_read (wd_fs w') a = fs_read (wd_fs w1) a)"
    by (rule Cons.IH [of r1]) (use Cons.prems one res in auto)
  have new: "se_path e \<notin> se_path ` set stems" using Cons.prems(2) by auto
  have "\<exists>c c'. fs_read (wd_fs w) (se_path e') = Inr c \<and> fs_read (wd_fs w') (se_path e') = Inr c' \<and> stem_renamed yl old new c c'"
    if "e' \<in> set (e # stems)" for e'
  proof (cases "e' \<in> set stems")
    case True
    then have "se_path e' \<noteq> se_path e" using new by (metis imageI)
    then have "fs_read (wd_fs w1) (se_path e') = fs_read (wd_fs w) (se_path e')" using e(3) by (simp add: set_file_read)
    then show ?thesis using rest True by metis
  next
    case False
    then show ?thesis using that rest new e by (simp add: set_file_read)
  qed
  moreover have "fs_read (wd_fs w') a = fs_read (wd_fs w) a" if "a \<notin> se_path ` set (e # stems)" for a
    using rest that e(3) by (simp add: set_file_read)
  ultimately show ?case by blast
qed simp

lemma load_stem_fs: "wd_fs (snd (load_stem env field (es, w) p)) = wd_fs w"
  by (auto simp: load_stem_def Let_def split: prod.splits sum.splits dest: read_file_fs)

lemma load_stems_fs: "foldl (load_stem env field) (es, w) ps = (es', w') \<Longrightarrow> wd_fs w' = wd_fs w"
proof (induction ps arbitrary: es w)
  case (Cons p ps)
  then show ?case using load_stem_fs [of env field es w p] by (cases "load_stem env field (es, w) p") auto
qed simp

lemma find_stems_fs: "find_stems_with_field env tree root field w = (r, w') \<Longrightarrow> wd_fs w' = wd_fs w"
  by (auto simp: find_stems_with_field_def Let_def split: sum.splits prod.splits dest: load_stems_fs)

text \<open>When a rename completes, every document that has the field has its key renamed and nothing else, none of
  them had the new name before, every stem file that declares the field is the print of its tree with that one key
  renamed, and all other files are as they were. The scan must list each file once, and stem files are no documents.
\<close>

theorem rename_changes_exactly:
  assumes run: "execute_rename env yl tree old new False w = (Inr r, w')"
    and root: "root = path_abs (fs_cwd (wd_fs w)) (rv_root env)"
    and records: "scan_documents env tree root w = Inr records" "distinct (map (record_file root) records)"
    and stems: "find_stems_with_field env tree root old w = (Inr stems, w1)" "distinct (map se_path stems)"
    and apart: "record_file root ` set records \<inter> se_path ` set stems = {}"
  shows "(\<forall>a. a \<notin> se_path ` set stems \<longrightarrow> fs_read (wd_fs w') a =
        (if a \<in> to_rename root old records then rename_read old new (fs_read (wd_fs w) a)
         else fs_read (wd_fs w) a)) \<and>
    (\<forall>e \<in> set stems. \<exists>c c'. fs_read (wd_fs w) (se_path e) = Inr c \<and> fs_read (wd_fs w') (se_path e) = Inr c' \<and>
        stem_renamed yl old new c c') \<and>
    (\<forall>rec \<in> set records. has_key (rc_frontmatter rec) old \<longrightarrow> \<not> has_key (rc_frontmatter rec) new)"
proof -
  let ?r0 = "\<lparr> rn_files_scanned = length records, rn_files_updated = [], rn_stems_updated = [], rn_file_details = [] \<rparr>"
  obtain res w2 where rec: "run_all (rename_record root old new False) records ?r0 w1 = (res, w2)" by fastforce
  have ok: "rename_clash old new records = None" "\<exists>r2. res = Inr r2 \<and>
      run_all (rename_stem yl root old new False) stems r2 w2 = (Inr r, w')"
    using run root records(1) stems(1) rec
    by (auto simp: execute_rename_def Let_def split: sum.splits option.splits if_splits)
  then obtain r2 where r2: "run_all (rename_record root old new False) records ?r0 w1 = (Inr r2, w2)"
    "run_all (rename_stem yl root old new False) stems r2 w2 = (Inr r, w')" using rec by auto
  note one = rename_records_do [OF r2(1) records(2)] and two = rename_stems_do [OF r2(2) stems(2)]
  have "wd_fs w1 = wd_fs w" by (rule find_stems_fs [OF stems(1)])
  moreover have "fs_read (wd_fs w2) (se_path e) = fs_read (wd_fs w1) (se_path e)" if "e \<in> set stems" for e
    using one [of "se_path e"] apart that by (auto simp: to_rename_def)
  moreover have "\<not> has_key (rc_frontmatter rec) new" if "rec \<in> set records" "has_key (rc_frontmatter rec) old" for rec
    using ok(1) that by (auto simp: rename_clash_def find_None_iff)
  ultimately show ?thesis using one two by simp
qed

section \<open>Example runs\<close>

text \<open>The directory of the example of \<open>Repair\<close>, and a library that reads and prints its stem file.\<close>

definition schema_yaml :: yaml_lib where
  "schema_yaml = \<lparr> yl_parse = (\<lambda>_. Inr (with_content (mk_node DocumentNode [] [])
       [with_content (mk_node MappingNode [] [])
         [mk_node ScalarNode [] ''schema'',
          with_content (mk_node MappingNode [] []) [mk_node ScalarNode [] ''state'', mk_node MappingNode [] []]]])),
     yl_decode = (\<lambda>_. Inl []), yl_encode = (\<lambda>_. Inl []),
     yl_print = (\<lambda>_ n. Inr (concat (entry_keys (node_pairs (yn_content (snd (hd (node_pairs
        (yn_content (hd (yn_content n))))))))))) \<rparr>"

definition state_tree :: "string \<Rightarrow> go_error + scan_tree" where
  "state_tree _ = Inr (SDir ''r'' None [SFile ''.stem'', SFile ''a.md''])"

definition state_doc_env :: repair_env where
  "state_doc_env = (sample_repair_env ''Open'')\<lparr> rv_link := (rv_link (sample_repair_env ''Open''))
     \<lparr> le_doc_yaml := (\<lambda>_. Inr \<lparr> yd_root = YEmpty, yd_decode = Inr (Some [(''state'', VStr ''Open'')]) \<rparr>) \<rparr> \<rparr>"

definition doc_world :: "string \<Rightarrow> repair_world" where
  "doc_world text = (sample_world ''Open'')\<lparr> wd_fs := set_file ''/r/a.md'' text (repair_fs ''Open'') \<rparr>"

definition rename_facts ::
  "(string + rename_result) \<times> repair_world \<Rightarrow> bool \<times> string list \<times> string list \<times> (fs_err + string) \<times> (fs_err + string)" where
  "rename_facts x =
     (case (case fst x of Inl _ \<Rightarrow> (False, [], []) | Inr r \<Rightarrow> (True, rn_files_updated r, rn_stems_updated r)) of
        (b, f, s) \<Rightarrow> (b, f, s, fs_read (wd_fs (snd x)) ''/r/a.md'', fs_read (wd_fs (snd x)) ''/r/.stem''))"

lemma rename_run:
  "rename_facts (execute_rename state_doc_env schema_yaml state_tree ''state'' ''phase'' False
      (doc_world (state_text ''Open''))) =
   (True, [''a.md''], [''.stem''], Inr (''---'' @ [LF] @ ''phase: Open'' @ [LF] @ ''---'' @ [LF]), Inr ''phase'')"
  by code_simp

abbreviation open_world :: repair_world where
  "open_world \<equiv> doc_world (state_text ''Open'')"

lemma rename_run_parts:
  "case scan_documents state_doc_env state_tree ''/r'' open_world of
     Inl _ \<Rightarrow> False | Inr rs \<Rightarrow> map rc_path rs = [''a.md''] \<and> has_key (rc_frontmatter (hd rs)) ''state''"
  "case fst (find_stems_with_field state_doc_env state_tree ''/r'' ''state'' open_world) of
     Inl _ \<Rightarrow> False | Inr es \<Rightarrow> map se_path es = [''/r/.stem'']"
  "path_abs (fs_cwd (wd_fs open_world)) (rv_root state_doc_env) = ''/r''" "path_join ''/r'' ''a.md'' = ''/r/a.md''"
  by code_simp+

theorem rename_changes_exactly_witness:
  "fs_read (wd_fs (snd (execute_rename state_doc_env schema_yaml state_tree ''state'' ''phase'' False open_world))) ''/r/a.md'' =
     rename_read ''state'' ''phase'' (fs_read (wd_fs open_world) ''/r/a.md'')"
proof -
  let ?run = "execute_rename state_doc_env schema_yaml state_tree ''state'' ''phase'' False open_world"
  obtain r w' where run: "?run = (Inr r, w')"
    using rename_run by (cases ?run; cases "fst ?run") (auto simp: rename_facts_def)
  obtain rs where rs: "scan_documents state_doc_env state_tree ''/r'' open_world = Inr rs" "map rc_path rs = [''a.md'']"
    "has_key (rc_frontmatter (hd rs)) ''state''"
    using rename_run_parts(1) by (auto split: sum.splits)
  obtain es w1 where es: "find_stems_with_field state_doc_env state_tree ''/r'' ''state'' open_world = (Inr es, w1)"
    "map se_path es = [''/r/.stem'']"
    using rename_run_parts(2) by (cases "find_stems_with_field state_doc_env state_tree ''/r'' ''state'' open_world")
      (auto split: sum.splits)
  obtain d where d: "rs = [d]" "rc_path d = ''a.md''" using rs(2) by auto
  have files: "map (record_file ''/r'') rs = [''/r/a.md'']" "se_path ` set es = {''/r/.stem''}"
    using d rename_run_parts(4) es(2) by (auto simp: record_file_def)
  have "''/r/a.md'' \<in> to_rename ''/r'' ''state'' rs"
    using rs(3) d rename_run_parts(4) by (auto simp: to_rename_def record_file_def)
  then show ?thesis
    using rename_changes_exactly [OF run rename_run_parts(3) [symmetric] rs(1) _ es(1)] files es(2) d run
    by (auto simp: record_file_def)
qed

text \<open>
  A key that is written in quotes is read as the field but is not renamed; the stem file is, so the document no
  longer has the field its schema names.
\<close>

lemma quoted_key_left_behind:
  "rename_facts (execute_rename state_doc_env schema_yaml state_tree ''state'' ''phase'' False
      (doc_world (''---'' @ [LF] @ dquote @ ''state'' @ dquote @ '': Open'' @ [LF] @ ''---'' @ [LF]))) =
   (True, [], [''.stem''], Inr (''---'' @ [LF] @ dquote @ ''state'' @ dquote @ '': Open'' @ [LF] @ ''---'' @ [LF]),
    Inr ''phase'')"
  by code_simp

end
