(* ===== verification/Spec2Isabelle.thy ===== *)
theory Spec2Isabelle
  imports Frontmatter Body_Sections Doc_Extraction Discovery Resolution Validation Link_Resolution
    Link_Graph Graph_Cycles Graph_Trace Expr_Cache Query_Engine Query_Sort File_Scan Stem_Health
    Derivation Schema_Diff Explanation Inference Skill_Restore Proposals Fix_Text Repair Fix_Apply Yaml_Nodes Stem_Edits Rename
begin

text \<open>
  \<^bold>\<open>A verification library for rootline\<close>

  rootline treats a tree of Markdown documents as a database: \<open>.stem\<close> files along the directory chain
  declare a schema, documents carry YAML frontmatter and links, and commands scan, validate, query,
  derive, draw and migrate them. This library models the Go code of \<open>internal/\<close> as functions of HOL and
  proves what makes its parts correct. Every definition keeps the name of the code it models as far as
  Isabelle allows; each theory names its source files in its opening text.

  \<^bold>\<open>The parts, from the bottom up.\<close>

  \<^item> \<open>Go_Strings\<close>, \<open>Go_Values\<close>, \<open>Go_Paths\<close>, \<open>Component_Paths\<close>: the prelude. Byte strings and the
    functions of \<open>strings\<close> the code uses, untyped YAML values, errors with wrapping, printing with
    \<open>fmt\<close>, \<open>path/filepath\<close> on Unix with its glob matcher, and paths as lists of components.
  \<^item> \<open>Frontmatter\<close>, \<open>Link_Parsing\<close>, \<open>Body_Sections\<close>, \<open>Doc_Extraction\<close>: \<open>internal/extract\<close>. The bounds of the
    YAML block, links in text and fields, headings and sections with their selectors, and the extractor
    that makes a record of them; also the byte-preserving rename of \<open>internal/migrate/rename.go\<close> and the
    rewrite of a block of \<open>internal/fix/fix.go\<close>.
  \<^item> \<open>Schema_Model\<close>, \<open>Schema_Merge\<close>, \<open>Type_Contract\<close>, \<open>Discovery\<close>, \<open>Resolution\<close>: the schema side of
    \<open>internal/rules\<close>. The data of a \<open>.stem\<close> file and its checks, the merge of a chain, field types and
    sequences, the walk up the directories with its cache and the prospective state with its overlay,
    match filtering, provenance and the conflicts between layers.
  \<^item> \<open>Validation\<close>, \<open>Link_Resolution\<close>, \<open>Stem_Health\<close>: the checks of \<open>internal/rules\<close>. The report of one record
    and of a directory, link targets on a file system with symbolic links, and the health of the schemas.
  \<^item> \<open>Link_Graph\<close>, \<open>Graph_Cycles\<close>, \<open>Graph_Trace\<close>: \<open>internal/graph\<close>. The graph of links, the depth-first
    search that reports cycles and the breadth-first search that traces neighbours.
  \<^item> \<open>File_Scan\<close>: \<open>internal/index\<close>. Discovery of the governed files and the pool of workers that reads them.
  \<^item> \<open>Expr_Cache\<close>, \<open>Query_Engine\<close>, \<open>Query_Sort\<close>: \<open>internal/query\<close>. The cache of compiled expressions and its
    concurrent callers, conditions, expression queries, the traversal filter, and sorting.
  \<^item> \<open>Derivation\<close>: \<open>internal/derive\<close>. Derived fields, values of links, enrichment and aggregation over a
    batch of records that share state.
  \<^item> \<open>Schema_Diff\<close>, \<open>Explanation\<close>: \<open>internal/migrate\<close> and the presentation side of \<open>internal/rules\<close>. The
    difference of two schemas and the records a change affects; the explanation of a record, public
    source paths and the sections a document must get.
  \<^item> \<open>Inference\<close>: \<open>internal/infer\<close>. The schema inferred from a corpus, the levels of a numbered directory
    hierarchy, and the split of a schema over them (\<open>internal/migrate/split.go\<close>).
  \<^item> \<open>Skill_Plan\<close>, \<open>Skill_Store\<close>, \<open>Skill_Service\<close>, \<open>Skill_Operations\<close>, \<open>Skill_Layout\<close>, \<open>Skill_Promises\<close>,
    \<open>Skill_Restore\<close>: \<open>internal/skilldist\<close>. Plans and receipts, the file system with its faults and the store of
    backups, publishing a link with its rollback, the operations, where their paths lie, and what install,
    uninstall and restore promise.

  \<^item> \<open>Proposals\<close>: \<open>internal/proposal\<close>. The detectors that turn the errors of a validation into proposals, their
    precedence, propagated aggregates and schema evolution.
  \<^item> \<open>Fix_Text\<close>, \<open>Repair\<close>, \<open>Fix_Apply\<close>: \<open>internal/fix\<close> and the atomic write of \<open>internal/fsx\<close>. The changes of a
    text, the repair of documents with containment, dry run, validation after the writes and rollback
    (\<open>repair.go\<close>, \<open>contain.go\<close>), and \<open>fix --all\<close> (\<open>fix.go\<close>).
  \<^item> \<open>Yaml_Nodes\<close>, \<open>Stem_Edits\<close>, \<open>Rename\<close>: what \<open>internal/fix\<close> and \<open>internal/migrate\<close> do to trees of YAML nodes.
    The block of a document written again with the nodes it keeps (\<open>frontmatter.go\<close>), the edits of stem
    files (\<open>fix.go\<close>), and the rename of a field in the documents and stem files of a directory (\<open>rename.go\<close>).

  A scan gives records; the schema of each is found by a walk up from its directory and merged; validation
  and derivation read the merged schema; links are prepared by the resolver and then make the graph; a
  query filters, sorts and traverses. The theories import each other along these calls.

  \<^bold>\<open>How Go is represented.\<close> A struct is a record, a pointer that may be nil an option, an error a value of a
  sum type. A Go map is an association list whose order is one iteration order, so that independence of
  the order is a statement about lists with the same \<^const>\<open>map_of\<close>. Text is a list of bytes. \<open>int\<close> is
  \<^typ>\<open>int\<close>, with the wrap-around written out where a value can reach it (sequence numbers). Records a batch
  shares by pointer are a list written by position. Workers and callers that run concurrently are step
  relations with their reachable states. Recursion over directories is measured by \<^const>\<open>up_measure\<close>, the
  number of components left; the depth-first search has fuel, one more than the number of nodes, and never
  runs out because each nested call colours a node; the other loops recurse on their data.

  \<^bold>\<open>Interfaces.\<close> The locale \<open>layering\<close> states what merging layers owes its clients, \<open>stem_walk\<close> what
  a walk to the root does for any way of finding a file; each is interpreted on every model that provides
  it (the merge of fields and of maps; the walks of \<open>WalkUp\<close>, of the cache and of the prospective state).

  \<^bold>\<open>Parameters.\<close> Code outside the repository is an argument of the definitions that use it: the YAML library
  (decoding and encoding), goldmark (headings and blocks of a body), expr-lang (compilation and
  evaluation), fuzzy matching, and regular expressions that schemas supply. The file system is a function
  argument where a definition reads it. Sorts that Go leaves unstable are an argument that permutes and
  orders, or insertion where the keys decide the order. The rendering of a block in \<open>Fix_Text\<close> and \<open>Repair\<close> is an
  argument as well, which \<open>Yaml_Nodes\<close> models over the functions of the YAML library.

  \<^bold>\<open>What the theorems show.\<close> Schema: no layer loosens a severity as long as all are known ones, a narrowing that passes
  the declaration and compatibility checks accepts no new value, an ancestor's guarantee holds below it when no conflict is reported, the
  health report misses no conflict, and a broken file on the walk is never masked. Documents: the parts of
  a document are read back, rewriting and renaming touch nothing else, malformed YAML degrades the fields
  only. Validation decides its specification and does not depend on map order. Links: targets stay in the
  root, preparation and validation agree, caches and overlays are transparent. Graph: the cycle report is
  empty exactly for acyclic links, and a trace lists exactly what is reachable. Scan: exactly the governed
  files, in order, whatever the schedule of the workers. Query: the cache is consistent under every
  interleaving, sorting is the stable order of the keys. Derivation: aggregation solves the equations of
  the schema from the bottom up, and enrichment is a transaction. Skill distribution: whatever calls of the
  system fail, no operation loses what a destination held, acts without approval, or removes a link it cannot
  account for. Proposals: each answers an error of its document, none stands beside one that takes
  precedence over it, and the value of an enum error is read back from its message. Repair: whatever fails,
  every file is as it was, accepted by its schema, or reported as not restored; a dry run says what the run
  then does; fixing touches no file the report does not name and, unless asked to, invents no value. Nodes: an edit of a tree changes one place, and a
  block written again keeps the nodes of unchanged entries; a rename that completes has changed the files it lists
  and no others.

  \<^bold>\<open>Not modelled.\<close> The command line (\<open>cmd/rootline\<close>), which parses flags and prints; network and Git
  access; file modes and the capability-rooted variant of the atomic write; the methods that decode and check a
  \<open>.stem\<close> file node by node (\<open>UnmarshalYAML\<close>, \<open>internal/stemyaml\<close>), whose result is a parameter, and anchors and
  aliases in the trees of nodes that are edited; JSON encoding; the inference detectors that read prose; cancellation of
  contexts; one file reached by two paths through symbolic links of directories.
\<close>

end
